(* ===== verification/Prelude.thy ===== *)
theory Prelude
  imports Complex_Main "HOL-Library.Option_ord" "HOL-Library.Product_Lexorder"
begin

text \<open>
  Shared vocabulary of the development.

  \<^item> Time. PostgreSQL's \<^verbatim>\<open>timestamptz\<close> counts microseconds, a JavaScript \<^verbatim>\<open>Date\<close> counts
    milliseconds; both are integers here, under two names, with the two conversions the driver
    performs (reading a column truncates to a millisecond, binding a parameter is exact).
  \<^item> The relational operations the SQL texts of the program are made of: a table is the list of its
    rows in insertion order, \<open>update_where\<close> is \<^verbatim>\<open>UPDATE .. WHERE\<close>, \<open>filter\<close> is \<^verbatim>\<open>WHERE\<close>,
    \<open>sort_key\<close> is \<^verbatim>\<open>ORDER BY\<close> (ties keep insertion order, one of the orders the server may
    choose), \<open>take\<close> is \<^verbatim>\<open>LIMIT\<close>, \<open>sql_min\<close> is \<^verbatim>\<open>MIN\<close> with NULL as None.
  \<^item> The lemmas on them that every component uses; the collections \<open>sql\<close> and \<open>wf_intros\<close>
    gather the rewriting rules and the preservation rules.
\<close>

named_theorems sql \<open>rewriting rules for the relational operations\<close>
named_theorems wf_intros \<open>an operation keeps a well-formedness condition\<close>

section \<open>Identifiers and time\<close>

text \<open>A UUID is its 128-bit value; PostgreSQL compares UUIDs by that value.\<close>

type_synonym uuid = nat

text \<open>\<open>ts\<close>: microseconds since the epoch. \<open>js_ms\<close>: milliseconds since the epoch.\<close>

type_synonym ts = int
type_synonym js_ms = int

definition js_of_ts :: "ts \<Rightarrow> js_ms" where
  "js_of_ts t = t div 1000"

definition ts_of_js :: "js_ms \<Rightarrow> ts" where
  "ts_of_js d = d * 1000"

lemma js_of_ts_of_js [simp]: "js_of_ts (ts_of_js d) = d"
  by (simp add: js_of_ts_def ts_of_js_def)

lemma js_of_ts_mono: "t \<le> u \<Longrightarrow> js_of_ts t \<le> js_of_ts u"
  by (simp add: js_of_ts_def zdiv_mono1)

lemma ts_of_js_of_ts_le: "ts_of_js (js_of_ts t) \<le> t"
  by (simp add: js_of_ts_def ts_of_js_def)

section \<open>Relational operations\<close>

definition update_where :: "('r \<Rightarrow> bool) \<Rightarrow> ('r \<Rightarrow> 'r) \<Rightarrow> 'r list \<Rightarrow> 'r list" where
  "update_where P f = map (\<lambda>r. if P r then f r else r)"

definition find_by :: "('r \<Rightarrow> 'k) \<Rightarrow> 'k \<Rightarrow> 'r list \<Rightarrow> 'r option" where
  "find_by key k = find (\<lambda>r. key r = k)"

definition sql_min :: "'a::linorder list \<Rightarrow> 'a option" where
  "sql_min xs = (case xs of [] \<Rightarrow> None | y # ys \<Rightarrow> Some (fold min ys y))"

definition head_option :: "'a list \<Rightarrow> 'a option" where
  "head_option xs = (case xs of [] \<Rightarrow> None | x # _ \<Rightarrow> Some x)"

subsection \<open>update\_where\<close>

lemma update_where_simps [simp, sql]:
  "update_where P f [] = []"
  "update_where P f (x # xs) = (if P x then f x else x) # update_where P f xs"
  by (simp_all add: update_where_def)

lemma update_where_append [simp, sql]:
  "update_where P f (xs @ ys) = update_where P f xs @ update_where P f ys"
  by (simp add: update_where_def)

lemma length_update_where [simp, sql]: "length (update_where P f xs) = length xs"
  by (simp add: update_where_def)

lemma set_update_where [sql]:
  "set (update_where P f xs) = (\<lambda>r. if P r then f r else r) ` set xs"
  by (simp add: update_where_def)

lemma map_update_where:
  "(\<And>r. P r \<Longrightarrow> g (f r) = g r) \<Longrightarrow> map g (update_where P f xs) = map g xs"
  by (simp add: update_where_def)

lemma image_update_where:
  "(\<And>r. P r \<Longrightarrow> g (f r) = g r) \<Longrightarrow> g ` set (update_where P f xs) = g ` set xs"
  by (metis list.set_map map_update_where)

lemma filter_update_where:
  "(\<And>r. P r \<Longrightarrow> Q (f r) = Q r) \<Longrightarrow>
     filter Q (update_where P f xs) = update_where P f (filter Q xs)"
  by (induction xs) auto

lemma filter_update_where_disjoint:
  "(\<And>r. P r \<Longrightarrow> \<not> Q (f r) \<and> \<not> Q r) \<Longrightarrow> filter Q (update_where P f xs) = filter Q xs"
  by (induction xs) auto

lemma update_where_none: "\<forall>r\<in>set xs. \<not> P r \<Longrightarrow> update_where P f xs = xs"
  by (induction xs) auto

lemma ball_update_where:
  "\<forall>r\<in>set xs. Q r \<Longrightarrow> (\<And>r. r \<in> set xs \<Longrightarrow> P r \<Longrightarrow> Q r \<Longrightarrow> Q (f r)) \<Longrightarrow>
     \<forall>r\<in>set (update_where P f xs). Q r"
  by (auto simp: set_update_where)

lemma update_where_inE:
  assumes "r \<in> set (update_where P f xs)"
  obtains (hit) y where "y \<in> set xs" "P y" "r = f y"
  | (miss) "r \<in> set xs" "\<not> P r"
  using assms by (auto simp: set_update_where split: if_splits)

subsection \<open>find\_by\<close>

lemma find_by_simps [simp, sql]:
  "find_by key k [] = None"
  "find_by key k (x # xs) = (if key x = k then Some x else find_by key k xs)"
  by (simp_all add: find_by_def)

lemma find_by_Some: "find_by key k xs = Some r \<Longrightarrow> r \<in> set xs \<and> key r = k"
  by (auto simp: find_by_def find_Some_iff)

lemma find_by_None: "find_by key k xs = None \<longleftrightarrow> k \<notin> key ` set xs"
  by (auto simp: find_by_def find_None_iff)

lemma find_by_eq_Some:
  assumes "distinct (map key xs)" "r \<in> set xs" "key r = k"
  shows "find_by key k xs = Some r"
  using assms by (induction xs) force+

lemma find_by_append:
  "find_by key k (xs @ ys) =
     (case find_by key k xs of None \<Rightarrow> find_by key k ys | Some r \<Rightarrow> Some r)"
  by (induction xs) auto

lemma find_by_update_where:
  "(\<And>r. P r \<Longrightarrow> key (f r) = key r) \<Longrightarrow>
     find_by key k (update_where P f xs) =
       map_option (\<lambda>r. if P r then f r else r) (find_by key k xs)"
  by (induction xs) auto

lemma distinct_map_eq:
  "distinct (map key xs) \<Longrightarrow> x \<in> set xs \<Longrightarrow> y \<in> set xs \<Longrightarrow> key x = key y \<Longrightarrow> x = y"
  by (auto simp: distinct_map inj_on_def)

subsection \<open>MIN and the first row\<close>

lemma sql_min_Nil [simp, sql]: "sql_min [] = None"
  by (simp add: sql_min_def)

lemma sql_min_None [simp]: "sql_min xs = None \<longleftrightarrow> xs = []"
  by (simp add: sql_min_def split: list.splits)

lemma fold_min_in: "fold min xs (y::'a::linorder) \<in> set (y # xs)"
  by (induction xs arbitrary: y) (auto simp: min_def)

lemma fold_min_le: "z \<in> set (y # xs) \<Longrightarrow> fold min xs (y::'a::linorder) \<le> z"
  by (metis Min.set_eq_fold Min_le finite_set)

lemma sql_min_SomeD: "sql_min xs = Some m \<Longrightarrow> m \<in> set xs \<and> (\<forall>x\<in>set xs. m \<le> x)"
  using fold_min_in fold_min_le
  by (fastforce simp: sql_min_def split: list.splits)

lemma head_option_simps [simp, sql]:
  "head_option [] = None" "head_option (x # xs) = Some x"
  by (simp_all add: head_option_def)

lemma head_option_None [simp]: "head_option xs = None \<longleftrightarrow> xs = []"
  by (simp add: head_option_def split: list.splits)

lemma head_option_Some: "head_option xs = Some x \<longleftrightarrow> (\<exists>ys. xs = x # ys)"
  by (auto simp: head_option_def split: list.splits)

lemma head_option_in: "head_option xs = Some x \<Longrightarrow> x \<in> set xs"
  by (auto simp: head_option_Some)

subsection \<open>ORDER BY\<close>

lemma sort_key_sorted_id: "sorted (map f xs) \<Longrightarrow> sort_key f xs = xs"
  by (simp add: sorted_sort_id sort_key_id_if_sorted)

lemma head_sort_key_le:
  "head_option (sort_key f xs) = Some x \<Longrightarrow> y \<in> set xs \<Longrightarrow> f x \<le> f y"
proof -
  assume h: "head_option (sort_key f xs) = Some x" and y: "y \<in> set xs"
  then obtain ys where ys: "sort_key f xs = x # ys" by (auto simp: head_option_Some)
  have "sorted (map f (x # ys))" using sorted_sort_key [of f xs] by (simp add: ys)
  moreover have "y \<in> set (x # ys)" using y set_sort [of f xs] by (simp add: ys)
  ultimately show ?thesis by auto
qed

lemma head_sort_key_in: "head_option (sort_key f xs) = Some x \<Longrightarrow> x \<in> set xs"
  by (drule head_option_in) simp

lemma sorted_wrt_less_map_filter:
  "sorted_wrt (<) (map f xs) \<Longrightarrow> sorted_wrt (<) (map f (filter P xs))"
  by (induction xs) auto

lemma strict_sorted_sort_key:
  "sorted_wrt (<) (map f xs) \<Longrightarrow> sort_key f (filter P xs) = filter P xs"
  for f :: "'a \<Rightarrow> 'b::linorder"
  by (rule sort_key_sorted_id)
     (rule strict_sorted_imp_sorted [OF sorted_wrt_less_map_filter])

lemma sorted_wrt_less_distinct:
  "sorted_wrt (<) (map f xs) \<Longrightarrow> distinct (map f xs)"
  for f :: "'a \<Rightarrow> 'b::linorder"
  using strict_sorted_iff by blast

end
