(* ===== verification/Js_Text.thy ===== *)
theory Js_Text
  imports Prelude
begin

text \<open>
  The pieces of the JavaScript standard library the program's text handling rests on.  A string is
  the list of its UTF-8 bytes, so encoding a string into a Buffer and back is the identity.

  \<^item> \<open>show_nat\<close>, \<open>show_int\<close>: \<^verbatim>\<open>String(n)\<close> and template interpolation of an integer;
  \<^item> \<open>js_Number\<close>: \<^verbatim>\<open>Number(s)\<close> on a string.  A finite value is the exact rational the literal
    denotes: rounding to the nearest double is not modelled (overflow to Infinity is);
  \<^item> \<open>base64\<close>, \<open>base64url\<close>, \<open>unbase64\<close>: \<^verbatim>\<open>Buffer.toString\<close> and \<^verbatim>\<open>Buffer.from\<close> with these
    encodings; the decoder accepts both alphabets, skips foreign characters and stops at \<^verbatim>\<open>=\<close>;
  \<^item> \<open>js_split\<close>, \<open>js_join\<close>: \<^verbatim>\<open>split\<close> on a one-character separator and \<^verbatim>\<open>join\<close>.
\<close>

type_synonym bytes = "char list"

section \<open>Integers as text\<close>

definition digit_char :: "nat \<Rightarrow> char" where
  "digit_char n = char_of (48 + n)"

definition is_digit :: "char \<Rightarrow> bool" where
  "is_digit c \<longleftrightarrow> 48 \<le> (of_char c :: nat) \<and> (of_char c :: nat) \<le> 57"

definition digit_val :: "char \<Rightarrow> nat" where
  "digit_val c = of_char c - 48"

fun show_nat :: "nat \<Rightarrow> string" where
  "show_nat n = (if n < 10 then [digit_char n] else show_nat (n div 10) @ [digit_char (n mod 10)])"

declare show_nat.simps [simp del]

definition show_int :: "int \<Rightarrow> string" where
  "show_int i = (if i < 0 then CHR ''-'' # show_nat (nat (- i)) else show_nat (nat i))"

definition nat_of_digits :: "string \<Rightarrow> nat" where
  "nat_of_digits s = foldl (\<lambda>a c. 10 * a + digit_val c) 0 s"

lemma digit_char_is_digit [simp]: "n < 10 \<Longrightarrow> is_digit (digit_char n)"
  by (simp add: is_digit_def digit_char_def)

lemma digit_val_digit_char [simp]: "n < 10 \<Longrightarrow> digit_val (digit_char n) = n"
  by (simp add: digit_val_def digit_char_def)

lemma show_nat_digits: "\<forall>c\<in>set (show_nat n). is_digit c"
proof (induction n rule: show_nat.induct)
  case (1 n)
  then show ?case by (subst show_nat.simps) auto
qed

lemma show_nat_not_Nil [simp]: "show_nat n \<noteq> []"
  by (subst show_nat.simps) simp

lemma nat_of_digits_snoc [simp]: "nat_of_digits (s @ [c]) = 10 * nat_of_digits s + digit_val c"
  by (simp add: nat_of_digits_def)

lemma nat_of_digits_show_nat [simp]: "nat_of_digits (show_nat n) = n"
proof (induction n rule: show_nat.induct)
  case (1 n)
  show ?case
  proof (cases "n < 10")
    case True
    then show ?thesis by (subst show_nat.simps) (simp add: nat_of_digits_def)
  next
    case False
    with 1 show ?thesis by (subst show_nat.simps) simp
  qed
qed

lemma show_nat_inj: "show_nat m = show_nat n \<longleftrightarrow> m = n"
  by (metis nat_of_digits_show_nat)

lemma minus_not_digit: "\<not> is_digit (CHR ''-'')"
  by (simp add: is_digit_def)

lemma show_int_inj: "show_int i = show_int j \<longleftrightarrow> i = j"
proof -
  have hd: "c \<in> set (show_nat n) \<Longrightarrow> c \<noteq> CHR ''-''" for c n
    using show_nat_digits minus_not_digit by blast
  have "show_nat n \<noteq> CHR ''-'' # xs" for n xs
    using hd [of "CHR ''-''" n] by auto
  moreover from this have "CHR ''-'' # xs \<noteq> show_nat n" for n xs
    by (rule not_sym)
  ultimately show ?thesis
    by (auto simp: show_int_def show_nat_inj nat_eq_iff split: if_splits)
qed

lemma show_int_chars: "c \<in> set (show_int i) \<Longrightarrow> is_digit c \<or> c = CHR ''-''"
  using show_nat_digits by (auto simp: show_int_def split: if_splits)

section \<open>split and join\<close>

fun js_split :: "char \<Rightarrow> string \<Rightarrow> string list" where
  "js_split sep [] = [[]]"
| "js_split sep (c # cs) =
     (if c = sep then [] # js_split sep cs
      else (case js_split sep cs of [] \<Rightarrow> [[c]] | w # ws \<Rightarrow> (c # w) # ws))"

fun js_join :: "string \<Rightarrow> string list \<Rightarrow> string" where
  "js_join sep [] = []"
| "js_join sep [w] = w"
| "js_join sep (w # ws) = w @ sep @ js_join sep ws"

lemma js_split_not_Nil [simp]: "js_split sep s \<noteq> []"
  by (induction s) (auto split: list.splits)

lemma js_split_no_sep: "sep \<notin> set w \<Longrightarrow> js_split sep w = [w]"
  by (induction w) auto

lemma js_split_append_sep: "sep \<notin> set w \<Longrightarrow> js_split sep (w @ sep # s) = w # js_split sep s"
  by (induction w) auto

lemma js_split_join:
  "ws \<noteq> [] \<Longrightarrow> (\<forall>w\<in>set ws. sep \<notin> set w) \<Longrightarrow> js_split sep (js_join [sep] ws) = ws"
proof (induction "[sep]" ws rule: js_join.induct)
  case (3 w v ws)
  then show ?case by (simp add: js_split_append_sep)
qed (auto simp: js_split_no_sep)

section \<open>Number(s)\<close>

datatype js_num = NaN | PInf | NInf | Fin rat

definition js_finite :: "js_num \<Rightarrow> bool" where
  "js_finite x \<longleftrightarrow> (case x of Fin _ \<Rightarrow> True | _ \<Rightarrow> False)"

definition js_neg :: "js_num \<Rightarrow> js_num" where
  "js_neg x = (case x of NaN \<Rightarrow> NaN | PInf \<Rightarrow> NInf | NInf \<Rightarrow> PInf | Fin q \<Rightarrow> Fin (- q))"

definition js_white :: "char \<Rightarrow> bool" where
  "js_white c \<longleftrightarrow> (of_char c :: nat) \<in> {9, 10, 11, 12, 13, 32}"

definition js_trim :: "string \<Rightarrow> string" where
  "js_trim s = rev (dropWhile js_white (rev (dropWhile js_white s)))"

text \<open>The least magnitude that rounds to Infinity.\<close>

definition js_overflow :: rat where
  "js_overflow = 2 ^ 1024 - 2 ^ 970"

definition js_round :: "rat \<Rightarrow> js_num" where
  "js_round q = (if js_overflow \<le> q then PInf else Fin q)"

definition js_exponent :: "string \<Rightarrow> int option" where
  "js_exponent s =
     (let (sgn, ds) = (case s of [] \<Rightarrow> (1, [])
                       | c # r \<Rightarrow> if c = CHR ''-'' then (- 1, r)
                                  else if c = CHR ''+'' then (1, r) else (1, s))
      in if ds \<noteq> [] \<and> list_all is_digit ds then Some (sgn * int (nat_of_digits ds)) else None)"

definition js_decimal :: "string \<Rightarrow> js_num" where
  "js_decimal s =
     (let ip = takeWhile is_digit s; r1 = dropWhile is_digit s;
          dot = (case r1 of [] \<Rightarrow> False | c # _ \<Rightarrow> c = CHR ''.'');
          fp = (if dot then takeWhile is_digit (tl r1) else []);
          r2 = (if dot then dropWhile is_digit (tl r1) else r1);
          m = of_nat (nat_of_digits (ip @ fp)) / 10 ^ length fp
      in if ip = [] \<and> fp = [] then NaN
         else case r2 of
           [] \<Rightarrow> js_round m
         | c # x \<Rightarrow>
             if c = CHR ''e'' \<or> c = CHR ''E'' then
               (case js_exponent x of None \<Rightarrow> NaN
                | Some k \<Rightarrow> js_round (if 0 \<le> k then m * 10 ^ nat k else m / 10 ^ nat (- k)))
             else NaN)"

definition radix_digit :: "nat \<Rightarrow> char \<Rightarrow> nat option" where
  "radix_digit b c =
     (let n = of_char c :: nat;
          v = (if 48 \<le> n \<and> n \<le> 57 then n - 48 else if 97 \<le> n \<and> n \<le> 102 then n - 87
               else if 65 \<le> n \<and> n \<le> 70 then n - 55 else 99)
      in if v < b then Some v else None)"

definition js_radix :: "nat \<Rightarrow> string \<Rightarrow> js_num" where
  "js_radix b s =
     (if s \<noteq> [] \<and> list_all (\<lambda>c. radix_digit b c \<noteq> None) s
      then js_round (of_nat (foldl (\<lambda>a c. b * a + the (radix_digit b c)) 0 s)) else NaN)"

definition js_unsigned :: "string \<Rightarrow> js_num" where
  "js_unsigned s = (if s = ''Infinity'' then PInf else js_decimal s)"

definition js_Number :: "string \<Rightarrow> js_num" where
  "js_Number raw =
     (let s = js_trim raw in
      case s of
        [] \<Rightarrow> Fin 0
      | c # r \<Rightarrow>
          if c = CHR ''-'' then js_neg (js_unsigned r)
          else if c = CHR ''+'' then js_unsigned r
          else if take 2 s \<in> {''0x'', ''0X''} then js_radix 16 (drop 2 s)
          else if take 2 s \<in> {''0o'', ''0O''} then js_radix 8 (drop 2 s)
          else if take 2 s \<in> {''0b'', ''0B''} then js_radix 2 (drop 2 s)
          else js_unsigned s)"

lemma js_trim_digits: "\<forall>c\<in>set w. is_digit c \<Longrightarrow> js_trim w = w"
proof -
  assume "\<forall>c\<in>set w. is_digit c"
  then have "\<forall>c\<in>set w. \<not> js_white c" by (auto simp: js_white_def is_digit_def)
  then have "dropWhile js_white w = w" "dropWhile js_white (rev w) = rev w"
    by (simp_all add: dropWhile_eq_self_iff hd_rev) (cases "w = []"; simp)+
  then show ?thesis by (simp add: js_trim_def)
qed

lemma digit_not_mark:
  "is_digit c \<Longrightarrow> c \<notin> {CHR ''-'', CHR ''+'', CHR ''I'', CHR ''x'', CHR ''X'', CHR ''o'', CHR ''O'', CHR ''b'', CHR ''B''}"
  by (auto simp: is_digit_def)

text \<open>\<^verbatim>\<open>Number\<close> of a decimal digit string is its value.\<close>

lemma js_Number_digits:
  assumes w: "w \<noteq> []" "\<forall>c\<in>set w. is_digit c" and fit: "of_nat (nat_of_digits w) < js_overflow"
  shows "js_Number w = Fin (of_nat (nat_of_digits w))"
proof -
  obtain c r where cr: "w = c # r" "is_digit c" "\<forall>x\<in>set r. is_digit x" using w by (cases w) auto
  have c: "c \<noteq> CHR ''-''" "c \<noteq> CHR ''+''" "w \<noteq> ''Infinity''"
    using digit_not_mark [OF cr(2)] cr(1) by auto
  have pre: "take 2 w \<notin> {''0x'', ''0X''}" "take 2 w \<notin> {''0o'', ''0O''}" "take 2 w \<notin> {''0b'', ''0B''}"
    unfolding cr(1) using cr(3) digit_not_mark by (cases r; simp; blast)+
  have "js_Number w = js_decimal w"
    using c pre js_trim_digits [OF w(2)] unfolding cr(1) js_Number_def Let_def
    by (simp only: list.case if_False if_cancel js_unsigned_def)
  moreover have "takeWhile is_digit w = w" "dropWhile is_digit w = []"
    using w(2) by (simp_all add: takeWhile_eq_all_conv dropWhile_eq_Nil_conv)
  ultimately show ?thesis
    using fit w(1) by (simp add: js_decimal_def Let_def js_round_def)
qed

section \<open>Base64\<close>

fun sextets :: "nat list \<Rightarrow> nat list" where
  "sextets (a # b # c # r) =
     a div 4 # ((a mod 4) * 16 + b div 16) # ((b mod 16) * 4 + c div 64) # c mod 64 # sextets r"
| "sextets [a, b] = [a div 4, (a mod 4) * 16 + b div 16, (b mod 16) * 4]"
| "sextets [a] = [a div 4, (a mod 4) * 16]"
| "sextets [] = []"

fun octets :: "nat list \<Rightarrow> nat list" where
  "octets (p # q # r # s # t) =
     (p * 4 + q div 16) # ((q mod 16) * 16 + r div 4) # ((r mod 4) * 64 + s) # octets t"
| "octets [p, q, r] = [p * 4 + q div 16, (q mod 16) * 16 + r div 4]"
| "octets [p, q] = [p * 4 + q div 16]"
| "octets _ = []"

text \<open>
  \<open>hi\<close> holds the codes of the characters for 62 and 63: \<^verbatim>\<open>+/\<close> (43, 47) or, in the URL-safe
  alphabet, \<^verbatim>\<open>-_\<close> (45, 95).
\<close>

definition b64_char :: "nat \<times> nat \<Rightarrow> nat \<Rightarrow> char" where
  "b64_char hi n =
     char_of (if n < 26 then 65 + n else if n < 52 then 71 + n
              else if n < 62 then n - 4 else if n = 62 then fst hi else snd hi)"

definition b64_val :: "char \<Rightarrow> nat option" where
  "b64_val c =
     (let n = of_char c :: nat in
      if 65 \<le> n \<and> n \<le> 90 then Some (n - 65) else if 97 \<le> n \<and> n \<le> 122 then Some (n - 71)
      else if 48 \<le> n \<and> n \<le> 57 then Some (n + 4)
      else if n = 43 \<or> n = 45 then Some 62
      else if n = 47 \<or> n = 95 then Some 63 else None)"

definition b64_pad :: "nat \<Rightarrow> string" where
  "b64_pad n = (if n mod 3 = 1 then ''=='' else if n mod 3 = 2 then ''='' else [])"

definition base64 :: "bytes \<Rightarrow> string" where
  "base64 bs = map (b64_char (43, 47)) (sextets (map of_char bs)) @ b64_pad (length bs)"

definition base64url :: "bytes \<Rightarrow> string" where
  "base64url bs = map (b64_char (45, 95)) (sextets (map of_char bs))"

definition unbase64 :: "string \<Rightarrow> bytes" where
  "unbase64 s = map char_of (octets (List.map_filter b64_val (takeWhile (\<lambda>c. c \<noteq> CHR ''='') s)))"

lemma sextets_less: "\<forall>b\<in>set bs. b < 256 \<Longrightarrow> \<forall>x\<in>set (sextets bs). x < 64"
  by (induction bs rule: sextets.induct) auto

lemma high_low:
  "y < k \<Longrightarrow> (x * k + y) div k = (x::nat)" "y < k \<Longrightarrow> (x * k + y) mod k = y"
  by simp_all

lemma octets_sextets: "\<forall>b\<in>set bs. b < 256 \<Longrightarrow> octets (sextets bs) = bs"
proof (induction bs rule: sextets.induct)
  case (1 a b c r)
  then have b: "b div 16 < 16" and c: "c div 64 < 4" and IH: "octets (sextets r) = r" by auto
  show ?case
    using IH b c by (simp add: high_low [OF b] high_low [OF c])
next
  case (2 a b)
  then have b: "b div 16 < 16" by auto
  show ?case using b by (simp add: high_low [OF b])
next
  case (3 a)
  show ?case by simp
qed simp

lemma b64_val_char:
  "hi \<in> {(43, 47), (45, 95)} \<Longrightarrow> n < 64 \<Longrightarrow> b64_val (b64_char hi n) = Some n"
  by (elim insertE emptyE; simp add: b64_val_def b64_char_def Let_def; arith)

lemma b64_char_not_pad:
  "hi \<in> {(43, 47), (45, 95)} \<Longrightarrow> n < 64 \<Longrightarrow> b64_char hi n \<noteq> CHR ''=''"
  using b64_val_char [of hi n] by (auto simp: b64_val_def)

lemma unbase64_decodes:
  assumes hi: "hi \<in> {(43, 47), (45, 95)}"
    and pad: "p = [] \<or> hd p = CHR ''=''"
  shows "unbase64 (map (b64_char hi) (sextets (map of_char bs)) @ p) = bs"
proof -
  let ?ss = "sextets (map of_char bs)"
  have lt: "\<forall>x\<in>set ?ss. x < 64" by (rule sextets_less) auto
  have tw: "takeWhile (\<lambda>c. c \<noteq> CHR ''='') (map (b64_char hi) ?ss @ p) = map (b64_char hi) ?ss"
    using lt b64_char_not_pad [OF hi] pad
    by (subst takeWhile_append2) (auto simp: takeWhile_eq_Nil_iff)
  have "List.map_filter b64_val (map (b64_char hi) xs) = xs" if "\<forall>x\<in>set xs. x < 64" for xs
    using that b64_val_char [OF hi] by (induction xs) (auto simp: List.map_filter_simps)
  with lt tw have "unbase64 (map (b64_char hi) ?ss @ p) = map char_of (octets ?ss)"
    by (simp add: unbase64_def)
  also have "\<dots> = bs"
    by (subst octets_sextets) (auto simp: comp_def)
  finally show ?thesis .
qed

lemma unbase64_base64 [simp]: "unbase64 (base64 bs) = bs"
  unfolding base64_def by (rule unbase64_decodes) (auto simp: b64_pad_def)

lemma unbase64_base64url [simp]: "unbase64 (base64url bs) = bs"
  using unbase64_decodes [of "(45, 95)" "[]" bs] by (simp add: base64url_def)

end
