(* ===== verification/Schema.thy ===== *)
theory Schema
  imports Prelude
begin

text \<open>
  The database the two processes share: the six tables of
  \<^verbatim>\<open>node/src/db/migrations/001_init.sql\<close> and \<^verbatim>\<open>002_*.sql\<close> as records, with the column defaults
  the INSERT statements of the program rely on.  A table is the list of its rows in insertion
  order.  \<open>ev_next_seq\<close> and \<open>d_next_seq\<close> are the BIGSERIAL sequences; \<open>uuid_src\<close> is what
  \<^verbatim>\<open>gen_random_uuid()\<close> yields on its n-th call and \<open>uuid_draws\<close> counts the calls.

  \<open>wf_db\<close> collects what the schema and the code keep true of the tables: primary keys and unique
  constraints, foreign keys, strictly increasing sequence columns, ids that were really drawn, and
  the agreement of the three lease columns.
\<close>

section \<open>JSON values\<close>

text \<open>A number is kept as the numeral JavaScript prints for it.\<close>

datatype json =
    JNull
  | JBool bool
  | JNum string
  | JStr string
  | JArr "json list"
  | JObj "(string \<times> json) list"

section \<open>Rows\<close>

record tenant =
  tn_id :: uuid
  tn_name :: string
  tn_api_key_hash :: string
  tn_last_served_at :: "ts option"
  tn_created_at :: ts

datatype endpoint_status = Active | Paused | Halted

record endpoint =
  ep_id :: uuid
  ep_tenant_id :: uuid
  ep_url :: string
  ep_event_types :: "string list"
  ep_status :: endpoint_status
  ep_signing_secret :: string
  ep_secondary_secret :: "string option"
  ep_secondary_secret_expires_at :: "ts option"
  ep_busy :: bool
  ep_busy_since :: "ts option"
  ep_lease_id :: "uuid option"
  ep_created_at :: ts

datatype expansion_status = Pending_expansion | Expanded

record event =
  ev_id :: uuid
  ev_tenant_id :: uuid
  ev_idempotency_key :: string
  ev_type :: string
  ev_payload :: json
  ev_status :: expansion_status
  ev_seq :: nat
  ev_created_at :: ts

datatype delivery_state = Pending | In_flight | Succeeded | Failed

record delivery =
  d_id :: uuid
  d_event_id :: uuid
  d_endpoint_id :: uuid
  d_state :: delivery_state
  d_attempt_count :: nat
  d_next_attempt_at :: ts
  d_created_at :: ts
  d_seq :: nat

text \<open>The classes \<^verbatim>\<open>attempts.error_class\<close> takes (httpClient.ts, delivery.ts).\<close>

datatype network_error_class =
    Connect_timeout
  | Total_timeout
  | Connection_refused
  | Dns_error
  | Connection_reset
  | Connection_error

datatype attempt_error_class =
    Network network_error_class
  | Url_not_allowed
  | Worker_lease_expired

record attempt =
  a_id :: uuid
  a_delivery_id :: uuid
  a_attempt_number :: nat
  a_sent_at :: "ts option"
  a_response_status :: "int option"
  a_response_body_truncated :: "string option"
  a_duration_ms :: "int option"
  a_error_class :: "attempt_error_class option"
  a_created_at :: ts

record replay =
  rp_id :: uuid
  rp_endpoint_id :: uuid
  rp_idempotency_key :: string
  rp_range_start :: ts
  rp_range_end :: ts
  rp_status :: expansion_status
  rp_created_at :: ts

record db =
  tenants :: "tenant list"
  endpoints :: "endpoint list"
  events :: "event list"
  deliveries :: "delivery list"
  attempts :: "attempt list"
  replays :: "replay list"
  ev_next_seq :: nat
  d_next_seq :: nat
  uuid_src :: "nat \<Rightarrow> uuid"
  uuid_draws :: nat

section \<open>Drawing UUIDs and inserting deliveries\<close>

definition gen_random_uuid :: "db \<Rightarrow> uuid \<times> db" where
  "gen_random_uuid s = (uuid_src s (uuid_draws s), s\<lparr>uuid_draws := Suc (uuid_draws s)\<rparr>)"

text \<open>
  \<^verbatim>\<open>INSERT INTO deliveries (event_id, endpoint_id)\<close>: the other columns take their defaults, with
  \<^verbatim>\<open>now()\<close> the transaction's timestamp.
\<close>

definition insert_delivery :: "ts \<Rightarrow> uuid \<times> uuid \<Rightarrow> db \<Rightarrow> db" where
  "insert_delivery now p s =
     (let (i, s') = gen_random_uuid s;
          row = \<lparr>d_id = i, d_event_id = fst p, d_endpoint_id = snd p, d_state = Pending,
                 d_attempt_count = 0, d_next_attempt_at = now, d_created_at = now,
                 d_seq = d_next_seq s'\<rparr>
      in s'\<lparr>deliveries := deliveries s' @ [row], d_next_seq := Suc (d_next_seq s')\<rparr>)"

definition insert_deliveries :: "ts \<Rightarrow> (uuid \<times> uuid) list \<Rightarrow> db \<Rightarrow> db" where
  "insert_deliveries now ps s = fold (insert_delivery now) ps s"

definition empty_db :: "(nat \<Rightarrow> uuid) \<Rightarrow> db" where
  "empty_db g = \<lparr>tenants = [], endpoints = [], events = [], deliveries = [], attempts = [],
     replays = [], ev_next_seq = 1, d_next_seq = 1, uuid_src = g, uuid_draws = 0\<rparr>"

section \<open>Queues\<close>

text \<open>\<^verbatim>\<open>state IN ('pending', 'in_flight')\<close>, the deliveries of an endpoint's queue.\<close>

definition unresolved :: "delivery \<Rightarrow> bool" where
  "unresolved d \<longleftrightarrow> d_state d = Pending \<or> d_state d = In_flight"

definition deliveries_of :: "uuid \<Rightarrow> db \<Rightarrow> delivery list" where
  "deliveries_of eid s = filter (\<lambda>d. d_endpoint_id d = eid) (deliveries s)"

definition in_flight_of :: "uuid \<Rightarrow> db \<Rightarrow> delivery list" where
  "in_flight_of eid s =
     filter (\<lambda>d. d_endpoint_id d = eid \<and> d_state d = In_flight) (deliveries s)"

section \<open>Well-formed databases\<close>

definition drawn_ids :: "db \<Rightarrow> uuid set" where
  "drawn_ids s = uuid_src s ` {..<uuid_draws s}"

definition uuids_distinct :: "db \<Rightarrow> bool" where
  "uuids_distinct s \<longleftrightarrow> inj (uuid_src s)"

definition keys_ok :: "db \<Rightarrow> bool" where
  "keys_ok s \<longleftrightarrow> distinct (map tn_id (tenants s)) \<and> distinct (map ep_id (endpoints s)) \<and>
     distinct (map ev_id (events s)) \<and> distinct (map d_id (deliveries s)) \<and>
     distinct (map a_id (attempts s)) \<and> distinct (map rp_id (replays s))"

definition uniques_ok :: "db \<Rightarrow> bool" where
  "uniques_ok s \<longleftrightarrow>
     distinct (map tn_api_key_hash (tenants s)) \<and>
     distinct (map (\<lambda>e. (ev_tenant_id e, ev_idempotency_key e)) (events s)) \<and>
     distinct (map (\<lambda>r. (rp_endpoint_id r, rp_idempotency_key r)) (replays s))"

definition seqs_ok :: "db \<Rightarrow> bool" where
  "seqs_ok s \<longleftrightarrow>
     sorted_wrt (<) (map ev_seq (events s)) \<and> (\<forall>e\<in>set (events s). ev_seq e < ev_next_seq s) \<and>
     sorted_wrt (<) (map d_seq (deliveries s)) \<and>
     (\<forall>d\<in>set (deliveries s). d_seq d < d_next_seq s)"

definition refs_ok :: "db \<Rightarrow> bool" where
  "refs_ok s \<longleftrightarrow>
     (\<forall>e\<in>set (endpoints s). ep_tenant_id e \<in> tn_id ` set (tenants s)) \<and>
     (\<forall>e\<in>set (events s). ev_tenant_id e \<in> tn_id ` set (tenants s)) \<and>
     (\<forall>d\<in>set (deliveries s). d_event_id d \<in> ev_id ` set (events s) \<and>
        d_endpoint_id d \<in> ep_id ` set (endpoints s)) \<and>
     (\<forall>a\<in>set (attempts s). a_delivery_id a \<in> d_id ` set (deliveries s)) \<and>
     (\<forall>r\<in>set (replays s). rp_endpoint_id r \<in> ep_id ` set (endpoints s))"

definition drawn_ok :: "db \<Rightarrow> bool" where
  "drawn_ok s \<longleftrightarrow>
     tn_id ` set (tenants s) \<subseteq> drawn_ids s \<and> ep_id ` set (endpoints s) \<subseteq> drawn_ids s \<and>
     ev_id ` set (events s) \<subseteq> drawn_ids s \<and> d_id ` set (deliveries s) \<subseteq> drawn_ids s \<and>
     a_id ` set (attempts s) \<subseteq> drawn_ids s \<and> rp_id ` set (replays s) \<subseteq> drawn_ids s \<and>
     (\<forall>e\<in>set (endpoints s). \<forall>l. ep_lease_id e = Some l \<longrightarrow> l \<in> drawn_ids s)"

definition lease_cols :: "endpoint \<Rightarrow> bool" where
  "lease_cols e \<longleftrightarrow> (ep_busy e \<longleftrightarrow> ep_lease_id e \<noteq> None) \<and> (ep_busy e \<longleftrightarrow> ep_busy_since e \<noteq> None)"

definition lease_ok :: "db \<Rightarrow> bool" where
  "lease_ok s \<longleftrightarrow> (\<forall>e\<in>set (endpoints s). lease_cols e)"

definition wf_db :: "db \<Rightarrow> bool" where
  "wf_db s \<longleftrightarrow> uuids_distinct s \<and> keys_ok s \<and> uniques_ok s \<and> seqs_ok s \<and> refs_ok s \<and>
     drawn_ok s \<and> lease_ok s"

text \<open>
  At most one delivery of an endpoint is in flight, and only while the endpoint is claimed.
\<close>

definition single_flight :: "db \<Rightarrow> bool" where
  "single_flight s \<longleftrightarrow>
     (\<forall>e\<in>set (endpoints s). length (in_flight_of (ep_id e) s) \<le> 1 \<and>
        (in_flight_of (ep_id e) s \<noteq> [] \<longrightarrow> ep_busy e))"

lemmas wf_defs = uuids_distinct_def keys_ok_def uniques_ok_def seqs_ok_def refs_ok_def
  drawn_ok_def lease_ok_def

end
