(* ===== verification/Json_Text.thy ===== *)
theory Json_Text
  imports Js_Text Schema
begin

text \<open>
  \<^verbatim>\<open>JSON.stringify\<close> on the values the program serialises: strings are quoted with the escapes of
  the ECMAScript QuoteJSONString operation, objects keep the order of their properties.
  \<^verbatim>\<open>JSON.parse\<close> (\<open>json_parse\<close>) is a recursive-descent parser over the remaining input; a number
  keeps its literal, a repeated property keeps its last value.  The parser recurses on what a
  sub-parser leaves over: the length tests in \<open>parse_value\<close> make that recursion well founded and
  never fail (\<open>parse_shorter\<close>).  \<open>json_parse_stringify\<close> is the round trip.
\<close>

section \<open>Printing\<close>

definition hex_char :: "nat \<Rightarrow> char" where
  "hex_char n = char_of (if n < 10 then 48 + n else 87 + n)"

definition json_escape :: "char \<Rightarrow> string" where
  "json_escape c =
     (let n = of_char c :: nat in
      if n = 34 then [char_of (92::nat), char_of (34::nat)]
      else if n = 92 then [char_of (92::nat), char_of (92::nat)]
      else if n = 8 then [char_of (92::nat), CHR ''b'']
      else if n = 12 then [char_of (92::nat), CHR ''f'']
      else if n = 10 then [char_of (92::nat), CHR ''n'']
      else if n = 13 then [char_of (92::nat), CHR ''r'']
      else if n = 9 then [char_of (92::nat), CHR ''t'']
      else if n < 32 then char_of (92::nat) # ''u00'' @ [hex_char (n div 16), hex_char (n mod 16)]
      else [c])"

definition json_quote :: "string \<Rightarrow> string" where
  "json_quote s = char_of (34::nat) # concat (map json_escape s) @ [char_of (34::nat)]"

fun stringify :: "json \<Rightarrow> string" where
  "stringify JNull = ''null''"
| "stringify (JBool b) = (if b then ''true'' else ''false'')"
| "stringify (JNum n) = n"
| "stringify (JStr s) = json_quote s"
| "stringify (JArr js) = ''['' @ js_join '','' (map stringify js) @ '']''"
| "stringify (JObj ps) =
     ''{'' @ js_join '','' (map (\<lambda>p. json_quote (fst p) @ '':'' @ stringify (snd p)) ps) @ ''}''"

section \<open>Parsing\<close>

definition json_white :: "char \<Rightarrow> bool" where
  "json_white c \<longleftrightarrow> (of_char c :: nat) \<in> {9, 10, 13, 32}"

definition skip_ws :: "string \<Rightarrow> string" where
  "skip_ws = dropWhile json_white"

definition hex4 :: "string \<Rightarrow> nat option" where
  "hex4 s =
     (case map (radix_digit 16) (take 4 s) of
        [Some a, Some b, Some c, Some d] \<Rightarrow> Some (((a * 16 + b) * 16 + c) * 16 + d)
      | _ \<Rightarrow> None)"

definition utf8_encode :: "nat \<Rightarrow> bytes" where
  "utf8_encode u =
     map char_of
       (if u < 128 then [u]
        else if u < 2048 then [192 + u div 64, 128 + u mod 64]
        else if u < 65536 then [224 + u div 4096, 128 + u div 64 mod 64, 128 + u mod 64]
        else [240 + u div 262144, 128 + u div 4096 mod 64, 128 + u div 64 mod 64, 128 + u mod 64])"

definition simple_escape :: "char \<Rightarrow> char option" where
  "simple_escape c =
     (let n = of_char c :: nat in
      if n = 34 \<or> n = 92 \<or> n = 47 then Some c
      else if n = 98 then Some (char_of (8::nat)) else if n = 102 then Some (char_of (12::nat))
      else if n = 110 then Some (char_of (10::nat)) else if n = 114 then Some (char_of (13::nat))
      else if n = 116 then Some (char_of (9::nat)) else None)"

text \<open>
  One \<^verbatim>\<open>\u\<close> escape after the \<^verbatim>\<open>u\<close>: the bytes it stands for and how many characters it takes.  A
  surrogate pair is one code point; a lone surrogate is written as U+FFFD, which is what it becomes
  when the string is encoded.
\<close>

definition unicode_escape :: "string \<Rightarrow> (bytes \<times> nat) option" where
  "unicode_escape r =
     (case hex4 r of
        None \<Rightarrow> None
      | Some u \<Rightarrow>
          if 55296 \<le> u \<and> u < 56320 \<and> take 2 (drop 4 r) = [char_of (92::nat), CHR ''u''] \<and>
             (case hex4 (drop 6 r) of None \<Rightarrow> False | Some v \<Rightarrow> 56320 \<le> v \<and> v < 57344)
          then Some (utf8_encode (65536 + (u - 55296) * 1024 + (the (hex4 (drop 6 r)) - 56320)), 10)
          else if 55296 \<le> u \<and> u < 57344 then Some (utf8_encode 65533, 4)
          else Some (utf8_encode u, 4))"

function scan_string :: "string \<Rightarrow> (string \<times> string) option" where
  "scan_string s =
     (case s of
        [] \<Rightarrow> None
      | c # r \<Rightarrow>
          (let n = of_char c :: nat in
           if n = 34 then Some ([], r)
           else if n = 92 then
             (case r of
                [] \<Rightarrow> None
              | e # r1 \<Rightarrow>
                  (case simple_escape e of
                     Some x \<Rightarrow> map_option (\<lambda>p. (x # fst p, snd p)) (scan_string r1)
                   | None \<Rightarrow>
                       if e = CHR ''u'' then
                         (case unicode_escape r1 of
                            None \<Rightarrow> None
                          | Some (bs, k) \<Rightarrow>
                              map_option (\<lambda>p. (bs @ fst p, snd p)) (scan_string (drop k r1)))
                       else None))
           else if n < 32 then None
           else map_option (\<lambda>p. (c # fst p, snd p)) (scan_string r)))"
  by pat_completeness auto
termination by (relation "measure length") auto

declare scan_string.simps [simp del]

text \<open>A JSON number: its literal and what follows.\<close>

definition num_sign :: "string \<Rightarrow> string" where
  "num_sign s = (if take 1 s = ''-'' then ''-'' else [])"

definition num_fraction :: "string \<Rightarrow> string" where
  "num_fraction s = (if take 1 s = ''.'' then CHR ''.'' # takeWhile is_digit (tl s) else [])"

definition num_exponent :: "string \<Rightarrow> string" where
  "num_exponent s =
     (if s \<noteq> [] \<and> hd s \<in> {CHR ''e'', CHR ''E''} then
        (let sgn = (if tl s \<noteq> [] \<and> hd (tl s) \<in> {CHR ''+'', CHR ''-''} then [hd (tl s)] else [])
         in [hd s] @ sgn @ takeWhile is_digit (drop (length sgn) (tl s)))
      else [])"

definition scan_number :: "string \<Rightarrow> (string \<times> string) option" where
  "scan_number s =
     (let sg = num_sign s; r0 = drop (length sg) s;
          ip = takeWhile is_digit r0; r1 = dropWhile is_digit r0;
          fp = num_fraction r1; r2 = drop (length fp) r1;
          ex = num_exponent r2
      in if ip = [] \<or> (1 < length ip \<and> hd ip = CHR ''0'') \<or> fp = ''.'' \<or>
            (ex \<noteq> [] \<and> \<not> is_digit (last ex))
         then None else Some (sg @ ip @ fp @ ex, drop (length ex) r2))"

text \<open>Setting a property: a repeated name overwrites the earlier value in place.\<close>

fun obj_put :: "string \<Rightarrow> json \<Rightarrow> (string \<times> json) list \<Rightarrow> (string \<times> json) list" where
  "obj_put k v [] = [(k, v)]"
| "obj_put k v ((k', v') # ps) = (if k = k' then (k, v) # ps else (k', v') # obj_put k v ps)"

definition expect :: "char \<Rightarrow> string \<Rightarrow> string option" where
  "expect c s = (case skip_ws s of [] \<Rightarrow> None | d # r \<Rightarrow> if c = d then Some r else None)"

lemma expect_shorter: "expect c s = Some r \<Longrightarrow> length r < length s"
proof -
  assume "expect c s = Some r"
  then obtain d where "skip_ws s = d # r" by (auto simp: expect_def split: list.splits if_splits)
  moreover have "length (skip_ws s) \<le> length s" by (simp add: skip_ws_def length_dropWhile_le)
  ultimately show ?thesis by simp
qed

lemma skip_ws_shorter: "skip_ws s = c # r \<Longrightarrow> length r < length s"
  using length_dropWhile_le [of json_white s] by (simp add: skip_ws_def)

function parse_value :: "string \<Rightarrow> (json \<times> string) option"
  and parse_members :: "(string \<times> json) list \<Rightarrow> string \<Rightarrow> (json \<times> string) option"
  and parse_elems :: "json list \<Rightarrow> string \<Rightarrow> (json \<times> string) option" where
  "parse_value s =
     (case skip_ws s of
        [] \<Rightarrow> None
      | c # r \<Rightarrow>
          if (of_char c :: nat) = 34 then map_option (\<lambda>p. (JStr (fst p), snd p)) (scan_string r)
          else if c = CHR ''{'' then
            (case expect (CHR ''}'') r of Some r' \<Rightarrow> Some (JObj [], r') | None \<Rightarrow> parse_members [] r)
          else if c = CHR ''['' then
            (case expect (CHR '']'') r of Some r' \<Rightarrow> Some (JArr [], r') | None \<Rightarrow> parse_elems [] r)
          else if take 4 (c # r) = ''null'' then Some (JNull, drop 4 (c # r))
          else if take 4 (c # r) = ''true'' then Some (JBool True, drop 4 (c # r))
          else if take 5 (c # r) = ''false'' then Some (JBool False, drop 5 (c # r))
          else map_option (\<lambda>p. (JNum (fst p), snd p)) (scan_number (c # r)))"
| "parse_members ps s =
     (case expect (char_of (34::nat)) s of
        None \<Rightarrow> None
      | Some r \<Rightarrow>
          (case scan_string r of
             None \<Rightarrow> None
           | Some (k, r1) \<Rightarrow>
               (case expect (CHR '':'') r1 of
                  None \<Rightarrow> None
                | Some r2 \<Rightarrow>
                    if length r2 < length s then
                      (case parse_value r2 of
                         None \<Rightarrow> None
                       | Some (v, r3) \<Rightarrow>
                           if length r3 < length r2 then
                             (case expect (CHR '','') r3 of
                                Some r4 \<Rightarrow> parse_members (obj_put k v ps) r4
                              | None \<Rightarrow>
                                  map_option (\<lambda>r4. (JObj (obj_put k v ps), r4)) (expect (CHR ''}'') r3))
                           else None)
                    else None)))"
| "parse_elems js s =
     (case parse_value s of
        None \<Rightarrow> None
      | Some (v, r3) \<Rightarrow>
          if length r3 < length s then
            (case expect (CHR '','') r3 of
               Some r4 \<Rightarrow> parse_elems (js @ [v]) r4
             | None \<Rightarrow> map_option (\<lambda>r4. (JArr (js @ [v]), r4)) (expect (CHR '']'') r3))
          else None)"
  by pat_completeness auto
termination
  by (relation "measures [\<lambda>x. (case x of Inl s \<Rightarrow> length s | Inr (Inl (ps, s)) \<Rightarrow> length s
         | Inr (Inr (js, s)) \<Rightarrow> length s),
       \<lambda>x. (case x of Inr (Inr _) \<Rightarrow> 1 | _ \<Rightarrow> 0)]")
     (auto dest: expect_shorter skip_ws_shorter)

declare parse_value.simps [simp del] parse_members.simps [simp del] parse_elems.simps [simp del]

definition json_parse :: "string \<Rightarrow> json option" where
  "json_parse s =
     (case parse_value s of
        None \<Rightarrow> None
      | Some (v, r) \<Rightarrow> if skip_ws r = [] then Some v else None)"

section \<open>The parsers consume input\<close>

lemma scan_string_cases:
  assumes "scan_string s = Some p"
  obtains c where "s = c # snd p"
  | v q where "scan_string v = Some q" "snd p = snd q" "length v < length s"
proof -
  obtain c r where s: "s = c # r"
    using assms by (cases s) (simp_all add: scan_string.simps [of "[]"])
  note eq = assms [unfolded s scan_string.simps [of "c # r"] list.case Let_def]
  show thesis
  proof (cases "(of_char c :: nat) = 92")
    case False
    with eq s that show thesis by (auto split: if_split_asm)
  next
    case True
    with eq obtain e r1 where r: "r = e # r1" by (cases r) simp_all
    note eq = eq [unfolded r list.case]
    show thesis
    proof (cases "simple_escape e")
      case (Some x)
      with eq True obtain q where "scan_string r1 = Some q" "snd p = snd q" by auto
      with s r that(2) show thesis by auto
    next
      case None
      with eq True obtain bs k q where "scan_string (drop k r1) = Some q" "snd p = snd q"
        by (auto split: option.splits prod.splits if_split_asm)
      with s r that(2) show thesis by auto
    qed
  qed
qed

lemma scan_string_shorter: "scan_string s = Some p \<Longrightarrow> length (snd p) < length s"
proof (induction s arbitrary: p rule: length_induct)
  case (1 s)
  from "1.prems" show ?case
  proof (cases rule: scan_string_cases)
    case (1 c)
    then show ?thesis by (metis length_Cons lessI)
  next
    case (2 v q)
    with "1.IH" show ?thesis by fastforce
  qed
qed

lemma if_None_Some: "(if b then None else Some x) = Some y \<longleftrightarrow> \<not> b \<and> x = y"
  by simp

lemma scan_number_shorter: "scan_number s = Some (t, r) \<Longrightarrow> length r < length s"
proof -
  define r0 where "r0 = drop (length (num_sign s)) s"
  define r1 where "r1 = dropWhile is_digit r0"
  assume "scan_number s = Some (t, r)"
  from this [unfolded scan_number_def Let_def if_None_Some]
  have ip: "takeWhile is_digit r0 \<noteq> []"
    and "r = drop (length (num_exponent (drop (length (num_fraction r1)) r1)))
               (drop (length (num_fraction r1)) r1)"
    unfolding r0_def r1_def by (blast, blast)
  then have r: "length r \<le> length r1" by simp
  have "length r0 = length (takeWhile is_digit r0) + length r1"
    unfolding r1_def by (metis length_append takeWhile_dropWhile_id)
  moreover have "length r0 \<le> length s" by (simp add: r0_def)
  ultimately show ?thesis using ip r by (cases "takeWhile is_digit r0") auto
qed

lemma parse_value_cases:
  assumes "parse_value s = Some p" "skip_ws s = c # r"
  obtains (str) t where "scan_string r = Some t" "snd p = snd t"
  | (close) d where "expect d r = Some (snd p)"
  | (obj) "c = CHR ''{''" "expect (CHR ''}'') r = None" "parse_members [] r = Some p"
  | (arr) "c = CHR ''[''" "expect (CHR '']'') r = None" "parse_elems [] r = Some p"
  | (lit) n where "snd p = drop n r"
  | (num) t where "scan_number (c # r) = Some t" "snd p = snd t"
proof -
  note eq = assms(1) [unfolded parse_value.simps [of s] assms(2) list.case]
  show thesis
  proof (cases "(of_char c :: nat) = 34")
    case True
    with eq str show thesis by auto
  next
    case quote: False
    show thesis
    proof (cases "c = CHR ''{'' \<or> c = CHR ''[''")
      case True
      with eq quote close obj arr show thesis by (auto split: option.splits)
    next
      case False
      with quote eq have "snd p = drop 4 (c # r) \<or> snd p = drop 5 (c # r) \<or>
          (\<exists>t. scan_number (c # r) = Some t \<and> snd p = snd t)"
        by (auto simp del: drop_Cons_numeral take_Cons_numeral split: if_split_asm)
      then show thesis using lit [of 3] lit [of 4] num by auto
    qed
  qed
qed

lemma parse_shorter:
  "parse_value s = Some p \<Longrightarrow> length (snd p) < length s"
  "parse_members ps s = Some p \<Longrightarrow> length (snd p) < length s"
  "parse_elems js s = Some p \<Longrightarrow> length (snd p) < length s"
proof (induction s and ps s and js s arbitrary: p and p and p
    rule: parse_value_parse_members_parse_elems.induct)
  case (1 s)
  obtain c r where cr: "skip_ws s = c # r"
    using "1.prems" by (subst (asm) parse_value.simps) (auto split: list.splits)
  have cr_le: "length (c # r) \<le> length s"
    using length_dropWhile_le [of json_white s] cr by (simp add: skip_ws_def)
  from "1.prems" cr show ?case
  proof (cases rule: parse_value_cases)
    case (str t)
    then show ?thesis using scan_string_shorter [of r t] cr_le by simp
  next
    case (close d)
    then show ?thesis using expect_shorter cr_le by fastforce
  next
    case obj
    then show ?thesis using "1.IH"(1) [OF cr] cr_le by fastforce
  next
    case arr
    then show ?thesis using "1.IH"(2) [OF cr] cr_le by fastforce
  next
    case (lit n)
    then show ?thesis using cr_le by simp
  next
    case (num t)
    then show ?thesis using scan_number_shorter [of "c # r" "fst t" "snd t"] cr_le by simp
  qed
next
  case (2 ps s)
  from "2.prems" obtain r k r1 r2 v r3 where
    e: "expect (char_of (34::nat)) s = Some r" "scan_string r = Some (k, r1)"
      "expect (CHR '':'') r1 = Some r2" "length r2 < length s" "parse_value r2 = Some (v, r3)"
      "length r3 < length r2"
    by (subst (asm) parse_members.simps) (auto split: option.splits if_splits)
  have rest: "(case expect (CHR '','') r3 of Some r4 \<Rightarrow> parse_members (obj_put k v ps) r4
      | None \<Rightarrow> map_option (\<lambda>r4. (JObj (obj_put k v ps), r4)) (expect (CHR ''}'') r3)) = Some p"
    using "2.prems" by (subst (asm) parse_members.simps) (simp add: e)
  show ?case
  proof (cases "expect (CHR '','') r3")
    case None
    with rest e show ?thesis by (auto dest!: expect_shorter)
  next
    case (Some r4)
    with rest e have "length (snd p) < length r4" by (intro "2.IH"(2)) simp_all
    with e expect_shorter [OF Some] show ?thesis by simp
  qed
next
  case (3 js s)
  from "3.prems" obtain v r3 where e: "parse_value s = Some (v, r3)" "length r3 < length s"
    by (subst (asm) parse_elems.simps) (auto split: option.splits if_splits)
  have rest: "(case expect (CHR '','') r3 of Some r4 \<Rightarrow> parse_elems (js @ [v]) r4
      | None \<Rightarrow> map_option (\<lambda>r4. (JArr (js @ [v]), r4)) (expect (CHR '']'') r3)) = Some p"
    using "3.prems" by (subst (asm) parse_elems.simps) (simp add: e)
  show ?case
  proof (cases "expect (CHR '','') r3")
    case None
    with rest e show ?thesis by (auto dest!: expect_shorter)
  next
    case (Some r4)
    with rest e have "length (snd p) < length r4" by (intro "3.IH"(2)) simp_all
    with e expect_shorter [OF Some] show ?thesis by simp
  qed
qed

section \<open>The round trip\<close>

text \<open>What may follow a value inside a document.\<close>

definition delimited :: "string \<Rightarrow> bool" where
  "delimited r \<longleftrightarrow> r = [] \<or> hd r \<in> {CHR '','', CHR ''}'', CHR '']''}"

text \<open>
  A value as \<^verbatim>\<open>JSON.parse\<close> or the database delivers it: numerals are JSON numerals and the properties
  of an object are distinct.
\<close>

fun json_ok :: "json \<Rightarrow> bool" where
  "json_ok JNull = True"
| "json_ok (JBool b) = True"
| "json_ok (JNum t) = (scan_number t = Some (t, []))"
| "json_ok (JStr s) = True"
| "json_ok (JArr js) = list_all json_ok js"
| "json_ok (JObj ps) = (distinct (map fst ps) \<and> list_all (\<lambda>p. json_ok (snd p)) ps)"

subsection \<open>Strings\<close>

lemma radix_hex_char [simp]: "n < 16 \<Longrightarrow> radix_digit 16 (hex_char n) = Some n"
  by (auto simp: radix_digit_def hex_char_def Let_def)

lemma radix_zero [simp]: "radix_digit 16 (CHR ''0'') = Some 0"
  by (simp add: radix_digit_def)

lemma hex4_low: "a < 16 \<Longrightarrow> b < 16 \<Longrightarrow>
    hex4 (CHR ''0'' # CHR ''0'' # hex_char a # hex_char b # t) = Some (a * 16 + b)"
  by (simp add: hex4_def)

lemma unicode_escape_control:
  assumes "(of_char c :: nat) < 32"
  shows "unicode_escape (CHR ''0'' # CHR ''0'' # hex_char (of_char c div 16) # hex_char (of_char c mod 16) # t) =
    Some ([c], 4)"
proof -
  have "(of_char c :: nat) div 16 < 16" using assms by simp
  then have "hex4 (CHR ''0'' # CHR ''0'' # hex_char (of_char c div 16) # hex_char (of_char c mod 16) # t) =
      Some (of_char c)"
    by (simp add: hex4_low)
  with assms show ?thesis
    by (simp add: unicode_escape_def utf8_encode_def)
qed

lemma char_eq_of: "(of_char c :: nat) = n \<Longrightarrow> char_of n = c"
  by auto

lemma scan_escaped:
  "scan_string (json_escape c @ t) = map_option (\<lambda>p. (c # fst p, snd p)) (scan_string t)"
proof -
  have simple: "scan_string (char_of (92::nat) # e # t) = map_option (\<lambda>p. (x # fst p, snd p)) (scan_string t)"
    if "simple_escape e = Some x" for e x
    using that by (simp add: scan_string.simps [of "char_of (92::nat) # e # t"])
  let ?n = "of_char c :: nat"
  consider "?n \<in> {34, 92, 8, 12, 10, 13, 9}" | "?n \<notin> {34, 92, 8, 12, 10, 13, 9}" "?n < 32"
    | "?n \<notin> {34, 92}" "\<not> ?n < 32" by fastforce
  then show ?thesis
  proof cases
    case 1
    then obtain e where e: "json_escape c = [char_of (92::nat), e]" "simple_escape e = Some c"
      by (auto simp: json_escape_def simple_escape_def Let_def char_eq_of)
    then show ?thesis using simple by simp
  next
    case 2
    then have esc: "json_escape c @ t = char_of (92::nat) # CHR ''u'' # CHR ''0'' # CHR ''0'' #
        hex_char (?n div 16) # hex_char (?n mod 16) # t"
      by (simp add: json_escape_def Let_def)
    show ?thesis
      unfolding esc
      by (subst scan_string.simps) (simp add: unicode_escape_control [OF 2(2)] simple_escape_def)
  next
    case 3
    then have "json_escape c = [c]" by (auto simp: json_escape_def)
    with 3 show ?thesis by (simp add: scan_string.simps [of "c # t"])
  qed
qed

lemma scan_quoted: "scan_string (concat (map json_escape s) @ char_of (34::nat) # r) = Some (s, r)"
proof (induction s)
  case Nil
  show ?case by (simp add: scan_string.simps [of "char_of 34 # r"])
next
  case (Cons c s)
  then show ?case by (simp add: scan_escaped)
qed

subsection \<open>Numbers\<close>

lemma takeWhile_append_stop: "ys = [] \<or> \<not> P (hd ys) \<Longrightarrow> takeWhile P (xs @ ys) = takeWhile P xs"
  by (induction xs) (cases ys; simp)+

lemma dropWhile_append_stop: "ys = [] \<or> \<not> P (hd ys) \<Longrightarrow> dropWhile P (xs @ ys) = dropWhile P xs @ ys"
  by (induction xs) (cases ys; simp)+

lemma delimited_hd:
  "delimited r \<Longrightarrow> r = [] \<or> \<not> is_digit (hd r)" "delimited r \<Longrightarrow> take 1 r \<noteq> ''.''"
  "delimited r \<Longrightarrow> take 1 r \<noteq> ''-''" "delimited r \<Longrightarrow> r = [] \<or> hd r \<notin> {CHR ''e'', CHR ''E''}"
  "delimited r \<Longrightarrow> r = [] \<or> hd r \<notin> {CHR ''+'', CHR ''-''}"
  by (cases r; auto simp: delimited_def is_digit_def)+

lemma num_sign_append: "x \<noteq> [] \<Longrightarrow> num_sign (x @ r) = num_sign x"
  by (cases x) (simp_all add: num_sign_def)

lemma num_fraction_append: "delimited r \<Longrightarrow> num_fraction (x @ r) = num_fraction x"
  using delimited_hd [of r]
  by (cases x) (simp_all add: num_fraction_def takeWhile_append_stop)

lemma num_exponent_append: "delimited r \<Longrightarrow> num_exponent (x @ r) = num_exponent x"
proof (cases x)
  case Nil
  assume "delimited r"
  with Nil delimited_hd(4) show ?thesis by (auto simp: num_exponent_def)
next
  case (Cons c y)
  assume d: "delimited r"
  note d1 = takeWhile_append_stop [where P = is_digit, OF delimited_hd(1) [OF d]]
  show ?thesis
  proof (cases y)
    case Nil
    with Cons d1 [of "[]"] delimited_hd(5) [OF d] show ?thesis by (auto simp: num_exponent_def)
  next
    case (Cons e z)
    with \<open>x = c # y\<close> d1 [of z] d1 [of "e # z"] show ?thesis
      by (simp add: num_exponent_def Let_def)
  qed
qed

lemma scan_number_append:
  assumes "scan_number t = Some (t, [])" "delimited r"
  shows "scan_number (t @ r) = Some (t, r)"
proof -
  define r0 where "r0 = drop (length (num_sign t)) t"
  define r1 where "r1 = dropWhile is_digit r0"
  define r2 where "r2 = drop (length (num_fraction r1)) r1"
  have ne: "t \<noteq> []" using assms(1) scan_number_shorter by fastforce
  have le: "length (num_sign t) \<le> length t" using ne by (cases t) (simp_all add: num_sign_def)
  have le1: "length (num_fraction r1) \<le> length r1"
    by (cases r1) (simp_all add: num_fraction_def length_takeWhile_le)
  note parts = assms(1) [unfolded scan_number_def Let_def if_None_Some, folded r0_def, folded r1_def, folded r2_def]
  have le2: "drop (length (num_exponent r2)) (r2 @ r) = drop (length (num_exponent r2)) r2 @ r"
  proof -
    have "length (num_exponent r2) \<le> length r2"
    proof (cases "num_exponent r2 = []")
      case False
      then obtain c y where "r2 = c # y" by (cases r2) (simp_all add: num_exponent_def)
      then show ?thesis
        by (cases y) (auto simp: num_exponent_def Let_def length_takeWhile_le le_SucI)
    qed simp
    then show ?thesis by simp
  qed
  have "drop (length (num_sign (t @ r))) (t @ r) = r0 @ r"
    using le by (simp add: num_sign_append [OF ne] r0_def)
  moreover have "takeWhile is_digit (r0 @ r) = takeWhile is_digit r0" "dropWhile is_digit (r0 @ r) = r1 @ r"
    using delimited_hd(1) [OF assms(2)]
    by (simp_all add: takeWhile_append_stop dropWhile_append_stop r1_def)
  moreover have "num_fraction (r1 @ r) = num_fraction r1" by (rule num_fraction_append [OF assms(2)])
  moreover have "drop (length (num_fraction r1)) (r1 @ r) = r2 @ r" using le1 by (simp add: r2_def)
  moreover have "num_exponent (r2 @ r) = num_exponent r2" by (rule num_exponent_append [OF assms(2)])
  ultimately have "scan_number (t @ r) = Some (t, drop (length (num_exponent r2)) (r2 @ r))"
    unfolding scan_number_def Let_def num_sign_append [OF ne] if_None_Some using parts by simp
  with le2 parts show ?thesis by simp
qed

lemma numeral_hd:
  assumes "scan_number t = Some (t, [])"
  obtains c u where "t = c # u" "is_digit c \<or> c = CHR ''-''"
proof -
  have ne: "t \<noteq> []" using assms scan_number_shorter by fastforce
  then obtain c u where t: "t = c # u" by (cases t) simp_all
  have "takeWhile is_digit (drop (length (num_sign t)) t) \<noteq> []"
    using assms [unfolded scan_number_def Let_def if_None_Some] by blast
  with t have "is_digit c \<or> c = CHR ''-''"
    by (auto simp: num_sign_def split: if_splits)
  with t that show thesis by blast
qed

subsection \<open>Values\<close>

lemma stringify_hd:
  assumes "json_ok j"
  obtains c u where "stringify j = c # u" "\<not> json_white c" "c \<noteq> CHR '']''" "c \<noteq> CHR ''}''"
proof (cases j)
  case (JNum t)
  with assms obtain c u where "t = c # u" "is_digit c \<or> c = CHR ''-''" using numeral_hd by auto
  with JNum show thesis by (intro that [of c u]) (auto simp: json_white_def is_digit_def)
next
  case (JBool b)
  with that show thesis by (cases b) (auto simp: json_white_def)
next
  case (JStr t)
  have "\<not> json_white c \<and> c \<noteq> CHR '']'' \<and> c \<noteq> CHR ''}''" if "(of_char c :: nat) = 34" for c
    using that by (auto simp: json_white_def)
  from this [of "char_of (34::nat)"] have "\<not> json_white (char_of (34::nat)) \<and>
      char_of (34::nat) \<noteq> CHR '']'' \<and> char_of (34::nat) \<noteq> CHR ''}''" by simp
  with JStr that show thesis by (auto simp: json_quote_def)
qed (use that in \<open>auto simp: json_white_def\<close>)

lemma expect_hit [simp]: "\<not> json_white c \<Longrightarrow> expect c (c # r) = Some r"
  by (simp add: expect_def skip_ws_def)

lemma expect_miss: "\<not> json_white d \<Longrightarrow> c \<noteq> d \<Longrightarrow> expect c (d # r) = None"
  by (simp add: expect_def skip_ws_def)

lemma not_white [simp]:
  "\<not> json_white (CHR '','')" "\<not> json_white (CHR '':'')" "\<not> json_white (CHR '']'')"
  "\<not> json_white (CHR ''}'')" "\<not> json_white (CHR ''{'')" "\<not> json_white (CHR ''['')"
  "\<not> json_white (char_of (34::nat))"
  by (simp_all add: json_white_def)

lemma skip_ws_none: "\<not> json_white c \<Longrightarrow> skip_ws (c # r) = c # r"
  by (simp add: skip_ws_def)

lemma obj_put_new: "k \<notin> fst ` set ps \<Longrightarrow> obj_put k v ps = ps @ [(k, v)]"
  by (induction ps) auto

definition json_member :: "string \<times> json \<Rightarrow> string" where
  "json_member p = json_quote (fst p) @ '':'' @ stringify (snd p)"

text \<open>A value's text, followed by a delimiter, is read back as that value.\<close>

definition reads_back :: "json \<Rightarrow> bool" where
  "reads_back j \<longleftrightarrow> (\<forall>r. delimited r \<longrightarrow> parse_value (stringify j @ r) = Some (j, r))"

lemma parse_elems_join:
  assumes "js \<noteq> []" "\<forall>j\<in>set js. json_ok j \<and> reads_back j"
  shows "parse_elems acc (js_join '','' (map stringify js) @ CHR '']'' # r) = Some (JArr (acc @ js), r)"
  using assms
proof (induction js arbitrary: acc)
  case (Cons j js)
  obtain c u where hd: "stringify j = c # u" using Cons.prems(2) stringify_hd by (metis list.set_intros(1))
  show ?case
  proof (cases js)
    case Nil
    have "parse_value (stringify j @ CHR '']'' # r) = Some (j, CHR '']'' # r)"
      using Cons.prems(2) by (simp add: reads_back_def delimited_def)
    with Nil hd show ?thesis
      by (simp add: parse_elems.simps [of acc] expect_miss)
  next
    case (Cons k ks)
    let ?t = "js_join '','' (map stringify js) @ CHR '']'' # r"
    have whole: "js_join '','' (map stringify (j # js)) @ CHR '']'' # r = stringify j @ CHR '','' # ?t"
      by (simp add: Cons)
    have "parse_value (stringify j @ CHR '','' # ?t) = Some (j, CHR '','' # ?t)"
      using Cons.prems(2) by (simp add: reads_back_def delimited_def)
    moreover have "parse_elems (acc @ [j]) ?t = Some (JArr ((acc @ [j]) @ js), r)"
      by (rule Cons.IH) (use Cons Cons.prems(2) in simp_all)
    ultimately show ?thesis
      unfolding whole by (subst parse_elems.simps) (simp add: hd)
  qed
qed simp

lemma parse_members_join:
  assumes "qs \<noteq> []" "\<forall>q\<in>set qs. json_ok (snd q) \<and> reads_back (snd q)" "distinct (map fst (ps @ qs))"
  shows "parse_members ps (js_join '','' (map json_member qs) @ CHR ''}'' # r) = Some (JObj (ps @ qs), r)"
  using assms
proof (induction qs arbitrary: ps)
  case (Cons q qs)
  obtain k v where q: "q = (k, v)" by fastforce
  have new: "obj_put k v ps = ps @ [(k, v)]"
    using Cons.prems(3) q by (intro obj_put_new) auto
  have member: "json_member q @ t = char_of (34::nat) # concat (map json_escape k) @ char_of (34::nat) #
      CHR '':'' # stringify v @ t" for t
    by (simp add: json_member_def q json_quote_def)
  have rd: "parse_value (stringify v @ t) = Some (v, t)" if "delimited t" for t
    using Cons.prems(2) q that by (simp add: reads_back_def)
  have pos: "0 < length (stringify v)"
    using Cons.prems(2) q stringify_hd [of v] by force
  show ?case
  proof (cases qs)
    case Nil
    have d: "delimited (CHR ''}'' # r)" by (simp add: delimited_def)
    have "js_join '','' (map json_member (q # qs)) @ CHR ''}'' # r = json_member q @ CHR ''}'' # r"
      by (simp add: Nil)
    then show ?thesis
      unfolding member
      by (subst parse_members.simps) (use pos in \<open>simp add: scan_quoted rd [OF d] new expect_miss Nil q\<close>)
  next
    case (Cons p ts)
    let ?t = "js_join '','' (map json_member qs) @ CHR ''}'' # r"
    have d: "delimited (CHR '','' # ?t)" by (simp add: delimited_def)
    have whole: "js_join '','' (map json_member (q # qs)) @ CHR ''}'' # r = json_member q @ CHR '','' # ?t"
      by (simp add: Cons)
    have "parse_members (ps @ [q]) ?t = Some (JObj ((ps @ [q]) @ qs), r)"
      by (rule Cons.IH) (use Cons Cons.prems in simp_all)
    then show ?thesis
      unfolding whole member
      by (subst parse_members.simps) (use pos in \<open>simp add: scan_quoted rd [OF d] new q\<close>)
  qed
qed simp

subsection \<open>Whole documents\<close>

lemma stringify_obj: "stringify (JObj ps) = CHR ''{'' # js_join '','' (map json_member ps) @ ''}''"
  by (simp add: json_member_def [abs_def])

lemmas parse_value_at = parse_value.simps [of "c # r" for c r, unfolded skip_ws_def]

lemma reads_back_lits: "reads_back JNull" "reads_back (JBool b)"
  by (simp_all add: reads_back_def parse_value_at json_white_def)

lemma reads_back_str: "reads_back (JStr s)"
  unfolding reads_back_def
proof (intro allI impI)
  fix r assume "delimited r"
  have "stringify (JStr s) @ r = char_of (34::nat) # concat (map json_escape s) @ char_of (34::nat) # r"
    by (simp add: json_quote_def)
  then show "parse_value (stringify (JStr s) @ r) = Some (JStr s, r)"
    by (simp add: parse_value.simps skip_ws_none scan_quoted)
qed

lemma reads_back_num:
  assumes "scan_number t = Some (t, [])"
  shows "reads_back (JNum t)"
  unfolding reads_back_def
proof (intro allI impI)
  fix r assume r: "delimited r"
  obtain c u where t: "t = c # u" "is_digit c \<or> c = CHR ''-''" using assms numeral_hd by blast
  then have c: "\<not> json_white c" "(of_char c :: nat) \<noteq> 34" "c \<notin> {CHR ''{'', CHR ''['', CHR ''n'', CHR ''t'', CHR ''f''}"
    by (auto simp: json_white_def is_digit_def)
  have "scan_number (t @ r) = Some (t, r)" using assms r scan_number_append by simp
  with t c show "parse_value (stringify (JNum t) @ r) = Some (JNum t, r)"
    by (simp add: parse_value.simps skip_ws_none)
qed

lemma reads_back_arr:
  assumes "\<forall>j\<in>set js. json_ok j \<and> reads_back j"
  shows "reads_back (JArr js)"
proof (cases "js = []")
  case True
  then show ?thesis by (simp add: reads_back_def parse_value_at json_white_def)
next
  case False
  then obtain j ks where js: "js = j # ks" by (cases js) auto
  obtain c u where hd: "stringify j = c # u" "\<not> json_white c" "c \<noteq> CHR '']''"
    using assms js stringify_hd by (metis list.set_intros(1))
  have start: "\<exists>v. js_join '','' (map stringify js) = c # v" using hd js by (cases ks) auto
  show ?thesis
    unfolding reads_back_def
  proof (intro allI impI)
    fix r assume "delimited r"
    have "expect (CHR '']'') (js_join '','' (map stringify js) @ CHR '']'' # r) = None"
      using start hd by (auto simp: expect_miss)
    moreover have "parse_elems [] (js_join '','' (map stringify js) @ CHR '']'' # r) = Some (JArr js, r)"
      using parse_elems_join [OF False assms, of "[]"] by simp
    ultimately show "parse_value (stringify (JArr js) @ r) = Some (JArr js, r)"
      by (simp add: parse_value.simps skip_ws_none)
  qed
qed

lemma reads_back_obj:
  assumes "\<forall>q\<in>set qs. json_ok (snd q) \<and> reads_back (snd q)" "distinct (map fst qs)"
  shows "reads_back (JObj qs)"
proof (cases "qs = []")
  case True
  then show ?thesis by (simp add: reads_back_def parse_value_at json_white_def)
next
  case False
  have "c \<noteq> CHR ''}''" if "(of_char c :: nat) = 34" for c using that by auto
  from this [of "char_of (34::nat)"] have quote: "char_of (34::nat) \<noteq> CHR ''}''" by simp
  have start: "\<exists>v. js_join '','' (map json_member qs) = char_of (34::nat) # v"
    using False by (cases qs; cases "tl qs") (auto simp: json_member_def json_quote_def)
  show ?thesis
    unfolding reads_back_def
  proof (intro allI impI)
    fix r assume "delimited r"
    have "expect (CHR ''}'') (js_join '','' (map json_member qs) @ CHR ''}'' # r) = None"
      using start expect_miss [OF not_white(7) quote [symmetric]] by auto
    moreover have "parse_members [] (js_join '','' (map json_member qs) @ CHR ''}'' # r) = Some (JObj qs, r)"
      using parse_members_join [OF False assms(1), of "[]"] assms(2) by simp
    ultimately show "parse_value (stringify (JObj qs) @ r) = Some (JObj qs, r)"
      unfolding stringify_obj by (simp add: parse_value.simps skip_ws_none)
  qed
qed

lemma json_ok_reads_back: "json_ok j \<Longrightarrow> reads_back j"
proof (induction j)
  case (JArr js)
  then show ?case by (intro reads_back_arr) (auto simp: list_all_iff)
next
  case (JObj qs)
  then have "json_ok (snd q) \<and> reads_back (snd q)" if "q \<in> set qs" for q
    using that by (cases q) (auto simp: list_all_iff)
  with JObj.prems show ?case by (intro reads_back_obj) auto
qed (simp_all add: reads_back_lits reads_back_str reads_back_num)

lemma json_parse_print: "json_ok j \<Longrightarrow> json_parse (stringify j) = Some j"
  using json_ok_reads_back [of j]
  by (auto simp: json_parse_def reads_back_def delimited_def skip_ws_def dest: spec [of _ "[]"])

subsection \<open>Decimal numerals\<close>

lemma show_nat_no_zero: "n \<noteq> 0 \<Longrightarrow> hd (show_nat n) \<noteq> CHR ''0''"
proof (induction n rule: show_nat.induct)
  case (1 n)
  show ?case
  proof (cases "n < 10")
    case True
    have "c \<noteq> CHR ''0''" if "(of_char c :: nat) \<noteq> 48" for c using that by auto
    with True 1(2) show ?thesis by (subst show_nat.simps) (simp add: digit_char_def)
  next
    case False
    with 1 show ?thesis by (subst show_nat.simps) simp
  qed
qed

lemma show_nat_zero: "show_nat 0 = ''0''"
  using char_eq_of [of "CHR ''0''" 48] by (simp add: show_nat.simps digit_char_def)

lemma takeWhile_show_nat [simp]:
  "takeWhile is_digit (show_nat n) = show_nat n" "dropWhile is_digit (show_nat n) = []"
  using show_nat_digits [of n] by (simp_all add: takeWhile_eq_all_conv dropWhile_eq_Nil_conv)

lemma scan_show_nat: "scan_number (show_nat n) = Some (show_nat n, [])"
proof -
  have sg: "num_sign (show_nat n) = []"
    using show_nat_digits [of n] minus_not_digit
    by (cases "show_nat n") (auto simp: num_sign_def)
  have "\<not> (1 < length (show_nat n) \<and> hd (show_nat n) = CHR ''0'')"
    using show_nat_no_zero [of n] show_nat_zero by (cases "n = 0") auto
  with sg show ?thesis
    by (simp add: scan_number_def Let_def num_fraction_def num_exponent_def)
qed

text \<open>
  \<^verbatim>\<open>JSON.parse\<close> recovers exactly the value \<^verbatim>\<open>JSON.stringify\<close> printed, for every value whose
  numbers are JSON literals and whose objects repeat no property.
\<close>

theorem json_parse_stringify:
  assumes "json_ok j"
  shows "json_parse (stringify j) = Some j"
  using assms by (rule json_parse_print)

theorem json_parse_stringify_witness:
  "json_parse (stringify (JObj [(''seq'', JNum ''-12''), (''ok'', JArr [JBool True, JStr ''a''])])) =
     Some (JObj [(''seq'', JNum ''-12''), (''ok'', JArr [JBool True, JStr ''a''])])"
  by (rule json_parse_stringify)
     (simp add: scan_number_def num_sign_def num_fraction_def num_exponent_def is_digit_def)

end
