(* ===== verification/Crypto.thy ===== *)
theory Crypto
  imports Config Json_Text
begin

text \<open>
  \<^verbatim>\<open>node/src/lib/crypto.ts\<close>, \<^verbatim>\<open>lib/secrets.ts\<close> and \<^verbatim>\<open>lib/signing.ts\<close>.  The primitives of
  \<^verbatim>\<open>node:crypto\<close> are a parameter, the record \<open>crypto\<close>: SHA-256 and HMAC-SHA-256 in hexadecimal,
  AES-256-GCM sealing (ciphertext and tag) and opening (None when \<^verbatim>\<open>decipher.final()\<close> throws because
  the tag does not verify).  \<open>gcm_correct\<close> and \<open>hex_digests\<close> state their documented behaviour.
  The layout of a stored secret (iv, tag, ciphertext, base64), the concatenation of signatures and
  the random prefixes are the program's and are modelled.
\<close>

record crypto =
  sha256_hex :: "bytes \<Rightarrow> string"
  hmac_sha256_hex :: "bytes \<Rightarrow> bytes \<Rightarrow> string"
  gcm_seal :: "bytes \<Rightarrow> bytes \<Rightarrow> bytes \<Rightarrow> bytes \<times> bytes"
  gcm_open :: "bytes \<Rightarrow> bytes \<Rightarrow> bytes \<Rightarrow> bytes \<Rightarrow> bytes option"

text \<open>Opening what was sealed under the same key and iv gives the plaintext; tags have 16 bytes.\<close>

definition gcm_correct :: "crypto \<Rightarrow> bool" where
  "gcm_correct x \<longleftrightarrow> (\<forall>key iv pt. length (snd (gcm_seal x key iv pt)) = 16 \<and>
     gcm_open x key iv (snd (gcm_seal x key iv pt)) (fst (gcm_seal x key iv pt)) = Some pt)"

text \<open>A digest is written in hexadecimal digits only.\<close>

definition is_hex :: "char \<Rightarrow> bool" where
  "is_hex c \<longleftrightarrow> is_digit c \<or> (97 \<le> (of_char c :: nat) \<and> (of_char c :: nat) \<le> 102)"

definition hex_digests :: "crypto \<Rightarrow> bool" where
  "hex_digests x \<longleftrightarrow> (\<forall>key msg. list_all is_hex (hmac_sha256_hex x key msg))"

section \<open>Stored secrets\<close>

definition hashApiKey :: "crypto \<Rightarrow> string \<Rightarrow> string" where
  "hashApiKey x key = sha256_hex x key"

text \<open>\<open>iv\<close> is the 12 bytes \<^verbatim>\<open>randomBytes(12)\<close> yields; \<open>key\<close> is \<^verbatim>\<open>keyBuffer()\<close>.\<close>

definition encryptSecret :: "crypto \<Rightarrow> bytes \<Rightarrow> bytes \<Rightarrow> string \<Rightarrow> string" where
  "encryptSecret x key iv plaintext =
     (let (encrypted, authTag) = gcm_seal x key iv plaintext
      in base64 (iv @ authTag @ encrypted))"

definition decryptSecret :: "crypto \<Rightarrow> bytes \<Rightarrow> string \<Rightarrow> string option" where
  "decryptSecret x key stored =
     (let raw = unbase64 stored;
          iv = take 12 raw;
          authTag = take 16 (drop 12 raw);
          encrypted = drop 28 raw
      in gcm_open x key iv authTag encrypted)"

definition hex_of_bytes :: "bytes \<Rightarrow> string" where
  "hex_of_bytes bs =
     concat (map (\<lambda>c. [hex_char (of_char c div 16), hex_char (of_char c mod 16)]) bs)"

text \<open>\<open>rnd\<close> is the 24 bytes \<^verbatim>\<open>randomBytes(24)\<close> yields.\<close>

definition generateSecret :: "bytes \<Rightarrow> string \<Rightarrow> string" where
  "generateSecret rnd pfx = pfx @ ''_'' @ hex_of_bytes rnd"

section \<open>Signatures\<close>

definition signed_string :: "int \<Rightarrow> string \<Rightarrow> string" where
  "signed_string timestamp rawBody = show_int timestamp @ ''.'' @ rawBody"

definition signPayload :: "crypto \<Rightarrow> string list \<Rightarrow> int \<Rightarrow> string \<Rightarrow> string" where
  "signPayload x secrets timestamp rawBody =
     js_join '','' (map (\<lambda>secret. hmac_sha256_hex x secret (signed_string timestamp rawBody)) secrets)"

section \<open>Lemmas\<close>

lemma hex_of_bytes_length: "length (hex_of_bytes bs) = 2 * length bs"
  by (induction bs) (simp_all add: hex_of_bytes_def)

lemma hex_not_comma: "is_hex c \<Longrightarrow> c \<noteq> CHR '',''"
  by (auto simp: is_hex_def is_digit_def)

lemma hex_digests_no_comma: "hex_digests x \<Longrightarrow> CHR '','' \<notin> set (hmac_sha256_hex x key msg)"
  using hex_not_comma by (fastforce simp: hex_digests_def list_all_iff)

lemma signPayload_split:
  assumes "hex_digests x" "secrets \<noteq> []"
  shows "js_split (CHR '','') (signPayload x secrets timestamp rawBody) =
    map (\<lambda>secret. hmac_sha256_hex x secret (signed_string timestamp rawBody)) secrets"
  unfolding signPayload_def
  by (rule js_split_join) (use assms hex_digests_no_comma in auto)

lemma decrypt_encrypt:
  assumes "gcm_correct x" "length iv = 12"
  shows "decryptSecret x key (encryptSecret x key iv plaintext) = Some plaintext"
proof -
  obtain ct tag where s: "gcm_seal x key iv plaintext = (ct, tag)" by fastforce
  with assms(1) have "length tag = 16" "gcm_open x key iv tag ct = Some plaintext"
    by (metis fst_conv gcm_correct_def snd_conv)+
  with assms(2) show ?thesis
    by (simp add: decryptSecret_def encryptSecret_def s)
qed

lemma dot_notin_show_int: "CHR ''.'' \<notin> set (show_int i)"
proof
  assume "CHR ''.'' \<in> set (show_int i)"
  then have "is_digit (CHR ''.'') \<or> CHR ''.'' = CHR ''-''" by (rule show_int_chars)
  then show False by (simp add: is_digit_def)
qed

lemma append_sep_inj:
  "c \<notin> set u \<Longrightarrow> c \<notin> set v \<Longrightarrow> u @ c # a = v @ c # b \<Longrightarrow> u = v \<and> a = b"
  by (induction u arbitrary: v) (case_tac v; auto)+

section \<open>Properties\<close>

text \<open>
  A secret stored by the API process is the secret the worker reads back: decrypting what
  \<open>encryptSecret\<close> produced, with the same key, yields the plaintext, whatever the plaintext is.
\<close>

theorem stored_secret_recovered:
  assumes "gcm_correct x" "length iv = 12"
  shows "decryptSecret x key (encryptSecret x key iv plaintext) = Some plaintext"
  using assms by (rule decrypt_encrypt)

definition toy_crypto :: crypto where
  "toy_crypto = \<lparr>sha256_hex = hex_of_bytes, hmac_sha256_hex = (\<lambda>k m. hex_of_bytes (k @ m)),
     gcm_seal = (\<lambda>key iv pt. (rev pt, replicate 16 (CHR ''t''))),
     gcm_open = (\<lambda>key iv tag ct. if tag = replicate 16 (CHR ''t'') then Some (rev ct) else None)\<rparr>"

lemma toy_gcm_correct: "gcm_correct toy_crypto"
  by (simp add: gcm_correct_def toy_crypto_def)

lemma toy_hex_digests: "hex_digests toy_crypto"
proof -
  have "is_hex (hex_char n)" if "n < 16" for n
    using that by (auto simp: is_hex_def is_digit_def hex_char_def)
  moreover have "(of_char c :: nat) div 16 < 16" for c
    by (rule less_mult_imp_div_less) simp
  ultimately show ?thesis
    by (auto simp: hex_digests_def toy_crypto_def hex_of_bytes_def list_all_iff)
qed

theorem stored_secret_recovered_witness:
  "decryptSecret toy_crypto ''k'' (encryptSecret toy_crypto ''k'' (replicate 12 (CHR ''i'')) ''whsec_1'')
     = Some ''whsec_1''"
  by (rule stored_secret_recovered [OF toy_gcm_correct]) simp

text \<open>
  During a rotation overlap the signature header carries one HMAC per active secret, in order
  and separable at the commas: splitting it gives exactly the list of the signatures, so a receiver
  holding any one of the secrets finds its own.
\<close>

theorem signature_header_splits:
  assumes "hex_digests x" "secrets \<noteq> []"
  shows "js_split (CHR '','') (signPayload x secrets timestamp rawBody) =
    map (\<lambda>secret. hmac_sha256_hex x secret (signed_string timestamp rawBody)) secrets"
  using assms by (rule signPayload_split)

theorem signature_header_splits_witness:
  "js_split (CHR '','') (signPayload toy_crypto [''new'', ''old''] 17 ''{}'') =
    map (\<lambda>secret. hmac_sha256_hex toy_crypto secret (signed_string 17 ''{}'')) [''new'', ''old'']"
  by (rule signature_header_splits [OF toy_hex_digests]) simp

text \<open>
  The signed content determines both the timestamp and the body: no two different (timestamp,
  body) pairs are signed as the same string, so a signature cannot be moved to another timestamp.
\<close>

theorem signed_string_injective:
  "signed_string t b = signed_string t' b' \<longleftrightarrow> t = t' \<and> b = b'"
  using append_sep_inj [OF dot_notin_show_int dot_notin_show_int, of t b t' b']
  by (auto simp: signed_string_def show_int_inj)

end
