(* ===== verification/Delivery.thy ===== *)
theory Delivery
  imports Crypto
begin

text \<open>
  \<^verbatim>\<open>node/src/worker/delivery.ts\<close>: claiming an endpoint's head delivery and writing an attempt's
  outcome back.  Each SQL statement of \<^verbatim>\<open>tryClaimEndpoint\<close> is its own definition (\<open>stmt_*\<close>), as it is
  its own transaction in the code; \<open>tryClaimEndpoint\<close> runs them in order.  Every call that reads a
  clock has its own field in \<open>claim_clock\<close>, every UUID is drawn from the database's generator, and
  \<^verbatim>\<open>decryptSecret\<close> (with the key read from the environment) is the argument \<open>dec\<close>, None when it throws.
\<close>

section \<open>Backoff\<close>

text \<open>\<open>rnd\<close> is the value of \<^verbatim>\<open>Math.random()\<close>, in [0, 1).\<close>

definition backoff_ceiling :: "nat \<Rightarrow> backoff_config \<Rightarrow> rat" where
  "backoff_ceiling attemptNumber cfg =
     min (baseDelayMs cfg * multiplier cfg powi (int attemptNumber - 1)) (maxDelayMs cfg)"

definition computeBackoffDelayMs :: "rat \<Rightarrow> nat \<Rightarrow> backoff_config \<Rightarrow> int" where
  "computeBackoffDelayMs rnd attemptNumber cfg = \<lfloor>rnd * backoff_ceiling attemptNumber cfg\<rfloor>"

section \<open>Claiming\<close>

datatype worker_error = Cardinality_violation | Secret_unreadable | Invalid_text | Invalid_url

record claimed_delivery =
  c_endpointId :: uuid
  c_tenantId :: uuid
  c_leaseId :: uuid
  c_deliveryId :: uuid
  c_eventId :: uuid
  c_eventType :: string
  c_payload :: json
  c_attemptNumber :: nat
  c_attemptId :: uuid
  c_url :: string
  c_signingSecret :: string
  c_secondarySecret :: "string option"

record candidate_row =
  cand_id :: uuid
  cand_tenant_id :: uuid
  cand_busy :: bool

definition ready :: "ts \<Rightarrow> delivery \<Rightarrow> bool" where
  "ready now d \<longleftrightarrow> (d_state d = Pending \<and> d_next_attempt_at d \<le> now) \<or> d_state d = In_flight"

definition ready_of :: "ts \<Rightarrow> uuid \<Rightarrow> db \<Rightarrow> delivery list" where
  "ready_of now eid s = filter (\<lambda>d. d_endpoint_id d = eid \<and> ready now d) (deliveries s)"

text \<open>\<^verbatim>\<open>status = 'active' AND (busy = false OR busy_since < $cutoff)\<close>; a NULL comparison is not true.\<close>

definition lease_free :: "ts \<Rightarrow> endpoint \<Rightarrow> bool" where
  "lease_free cutoff e \<longleftrightarrow>
     \<not> ep_busy e \<or> (case ep_busy_since e of None \<Rightarrow> False | Some b \<Rightarrow> b < cutoff)"

definition claimable :: "ts \<Rightarrow> endpoint \<Rightarrow> bool" where
  "claimable cutoff e \<longleftrightarrow> ep_status e = Active \<and> lease_free cutoff e"

definition candidate_pairs :: "ts \<Rightarrow> ts \<Rightarrow> db \<Rightarrow> (endpoint \<times> tenant) list" where
  "candidate_pairs cutoff now s =
     concat (map (\<lambda>e. map (\<lambda>t. (e, t))
         (filter (\<lambda>t. tn_id t = ep_tenant_id e \<and> claimable cutoff e \<and> ready_of now (ep_id e) s \<noteq> [])
            (tenants s)))
       (endpoints s))"

definition candidate_order :: "ts \<Rightarrow> db \<Rightarrow> endpoint \<times> tenant \<Rightarrow> ts option \<times> nat option" where
  "candidate_order now s p =
     (tn_last_served_at (snd p), sql_min (map d_seq (ready_of now (ep_id (fst p)) s)))"

definition candidate_of :: "endpoint \<times> tenant \<Rightarrow> candidate_row" where
  "candidate_of p =
     \<lparr>cand_id = ep_id (fst p), cand_tenant_id = ep_tenant_id (fst p), cand_busy = ep_busy (fst p)\<rparr>"

definition claim_candidates :: "ts \<Rightarrow> ts \<Rightarrow> db \<Rightarrow> candidate_row list" where
  "claim_candidates cutoff now s =
     map candidate_of (take 20 (sort_key (candidate_order now s) (candidate_pairs cutoff now s)))"

text \<open>The statements of \<^verbatim>\<open>tryClaimEndpoint\<close>, in order.\<close>

definition take_lease :: "ts \<Rightarrow> uuid \<Rightarrow> endpoint \<Rightarrow> endpoint" where
  "take_lease now l e = e\<lparr>ep_busy := True, ep_busy_since := Some now, ep_lease_id := Some l\<rparr>"

definition free_lease :: "endpoint \<Rightarrow> endpoint" where
  "free_lease e = e\<lparr>ep_busy := False, ep_busy_since := None, ep_lease_id := None\<rparr>"

definition stmt_claim :: "ts \<Rightarrow> ts \<Rightarrow> uuid \<Rightarrow> db \<Rightarrow> uuid option \<times> db" where
  "stmt_claim now cutoff eid s =
     (if list_ex (\<lambda>e. ep_id e = eid \<and> claimable cutoff e) (endpoints s) then
        (let (l, s') = gen_random_uuid s in
         (Some l, s'\<lparr>endpoints := update_where (\<lambda>e. ep_id e = eid \<and> claimable cutoff e)
                                   (take_lease now l) (endpoints s')\<rparr>))
      else (None, s))"

definition stmt_serve :: "ts \<Rightarrow> uuid \<Rightarrow> db \<Rightarrow> db" where
  "stmt_serve now tid s =
     s\<lparr>tenants := update_where (\<lambda>t. tn_id t = tid) (\<lambda>t. t\<lparr>tn_last_served_at := Some now\<rparr>) (tenants s)\<rparr>"

definition orphan :: "uuid \<Rightarrow> attempt \<Rightarrow> bool" where
  "orphan did a \<longleftrightarrow> a_delivery_id a = did \<and> a_sent_at a \<noteq> None \<and> a_response_status a = None \<and>
     a_error_class a = None"

text \<open>
  The scalar subquery \<^verbatim>\<open>(SELECT id .. state = 'in_flight')\<close>: no row is NULL and matches nothing,
  more than one row is an error of the statement.
\<close>

definition stmt_expire_orphans :: "uuid \<Rightarrow> db \<Rightarrow> db option" where
  "stmt_expire_orphans eid s =
     (case map d_id (in_flight_of eid s) of
        [] \<Rightarrow> Some s
      | [did] \<Rightarrow> Some (s\<lparr>attempts := update_where (orphan did)
                      (\<lambda>a. a\<lparr>a_error_class := Some Worker_lease_expired\<rparr>) (attempts s)\<rparr>)
      | _ \<Rightarrow> None)"

definition stmt_requeue :: "uuid \<Rightarrow> db \<Rightarrow> db" where
  "stmt_requeue eid s =
     s\<lparr>deliveries := update_where (\<lambda>d. d_endpoint_id d = eid \<and> d_state d = In_flight)
        (\<lambda>d. d\<lparr>d_state := Pending\<rparr>) (deliveries s)\<rparr>"

definition pending_of :: "uuid \<Rightarrow> db \<Rightarrow> delivery list" where
  "pending_of eid s = filter (\<lambda>d. d_endpoint_id d = eid \<and> d_state d = Pending) (deliveries s)"

definition select_head :: "uuid \<Rightarrow> db \<Rightarrow> (delivery \<times> event \<times> endpoint) option" where
  "select_head eid s =
     head_option (concat (map (\<lambda>d.
         concat (map (\<lambda>v. map (\<lambda>e. (d, v, e)) (filter (\<lambda>e. ep_id e = d_endpoint_id d) (endpoints s)))
           (filter (\<lambda>v. ev_id v = d_event_id d) (events s))))
       (sort_key d_seq (pending_of eid s))))"

definition stmt_release :: "uuid \<Rightarrow> uuid \<Rightarrow> db \<Rightarrow> db" where
  "stmt_release eid l s =
     s\<lparr>endpoints := update_where (\<lambda>e. ep_id e = eid \<and> ep_lease_id e = Some l) free_lease (endpoints s)\<rparr>"

definition stmt_insert_attempt :: "ts \<Rightarrow> uuid \<Rightarrow> nat \<Rightarrow> db \<Rightarrow> uuid \<times> db" where
  "stmt_insert_attempt now did n s =
     (let (i, s') = gen_random_uuid s;
          row = \<lparr>a_id = i, a_delivery_id = did, a_attempt_number = n, a_sent_at = Some now,
                 a_response_status = None, a_response_body_truncated = None, a_duration_ms = None,
                 a_error_class = None, a_created_at = now\<rparr>
      in (i, s'\<lparr>attempts := attempts s' @ [row]\<rparr>))"

definition stmt_in_flight :: "uuid \<Rightarrow> nat \<Rightarrow> db \<Rightarrow> db" where
  "stmt_in_flight did n s =
     s\<lparr>deliveries := update_where (\<lambda>d. d_id d = did)
        (\<lambda>d. d\<lparr>d_state := In_flight, d_attempt_count := n\<rparr>) (deliveries s)\<rparr>"

text \<open>The clock readings of one claim: the statements' \<^verbatim>\<open>now()\<close> and the two \<^verbatim>\<open>new Date()\<close>.\<close>

record claim_clock =
  at_claim :: ts
  at_serve :: ts
  at_head :: js_ms
  at_sent :: ts
  at_secret :: js_ms

definition hasActiveSecondary :: "js_ms \<Rightarrow> endpoint \<Rightarrow> bool" where
  "hasActiveSecondary now e \<longleftrightarrow> ep_secondary_secret e \<noteq> None \<and>
     (case ep_secondary_secret_expires_at e of None \<Rightarrow> False | Some t \<Rightarrow> js_of_ts t > now)"

definition claim_secrets :: "(string \<Rightarrow> string option) \<Rightarrow> js_ms \<Rightarrow> endpoint \<Rightarrow> (string \<times> string option) option" where
  "claim_secrets dec now e =
     (case dec (ep_signing_secret e) of
        None \<Rightarrow> None
      | Some p \<Rightarrow>
          if hasActiveSecondary now e then
            (case dec (the (ep_secondary_secret e)) of None \<Rightarrow> None | Some q \<Rightarrow> Some (p, Some q))
          else Some (p, None))"

text \<open>The part after the head has been found ready: record the attempt, mark it, read the secrets.\<close>

definition start_attempt ::
    "(string \<Rightarrow> string option) \<Rightarrow> claim_clock \<Rightarrow> candidate_row \<Rightarrow> uuid \<Rightarrow> delivery \<times> event \<times> endpoint \<Rightarrow>
     db \<Rightarrow> (worker_error + claimed_delivery option) \<times> db" where
  "start_attempt dec clk cand l row s =
     (let (d, v, e) = row;
          n = d_attempt_count d + 1;
          (aid, s1) = stmt_insert_attempt (at_sent clk) (d_id d) n s;
          s2 = stmt_in_flight (d_id d) n s1
      in case claim_secrets dec (at_secret clk) e of
           None \<Rightarrow> (Inl Secret_unreadable, s2)
         | Some (p, q) \<Rightarrow>
             (Inr (Some \<lparr>c_endpointId = cand_id cand, c_tenantId = cand_tenant_id cand, c_leaseId = l,
                c_deliveryId = d_id d, c_eventId = d_event_id d, c_eventType = ev_type v,
                c_payload = ev_payload v, c_attemptNumber = n, c_attemptId = aid, c_url = ep_url e,
                c_signingSecret = p, c_secondarySecret = q\<rparr>), s2))"

definition claim_head ::
    "(string \<Rightarrow> string option) \<Rightarrow> claim_clock \<Rightarrow> candidate_row \<Rightarrow> uuid \<Rightarrow>
     db \<Rightarrow> (worker_error + claimed_delivery option) \<times> db" where
  "claim_head dec clk cand l s =
     (case select_head (cand_id cand) s of
        None \<Rightarrow> (Inr None, stmt_release (cand_id cand) l s)
      | Some row \<Rightarrow>
          if js_of_ts (d_next_attempt_at (fst row)) > at_head clk
          then (Inr None, stmt_release (cand_id cand) l s)
          else start_attempt dec clk cand l row s)"

definition reclaim :: "candidate_row \<Rightarrow> db \<Rightarrow> db option" where
  "reclaim cand s =
     (if cand_busy cand
      then map_option (stmt_requeue (cand_id cand)) (stmt_expire_orphans (cand_id cand) s)
      else Some s)"

definition tryClaimEndpoint ::
    "(string \<Rightarrow> string option) \<Rightarrow> claim_clock \<Rightarrow> candidate_row \<Rightarrow> ts \<Rightarrow>
     db \<Rightarrow> (worker_error + claimed_delivery option) \<times> db" where
  "tryClaimEndpoint dec clk cand cutoff s =
     (case stmt_claim (at_claim clk) cutoff (cand_id cand) s of
        (None, s1) \<Rightarrow> (Inr None, s1)
      | (Some l, s1) \<Rightarrow>
          (let s2 = stmt_serve (at_serve clk) (cand_tenant_id cand) s1 in
           case reclaim cand s2 of
             None \<Rightarrow> (Inl Cardinality_violation, s2)
           | Some s3 \<Rightarrow> claim_head dec clk cand l s3))"

text \<open>The loop over the candidates; \<open>clks\<close> gives each iteration its clock readings.\<close>

fun claim_loop ::
    "(string \<Rightarrow> string option) \<Rightarrow> (candidate_row \<Rightarrow> claim_clock) \<Rightarrow> ts \<Rightarrow> candidate_row list \<Rightarrow>
     db \<Rightarrow> (worker_error + claimed_delivery option) \<times> db" where
  "claim_loop dec clks cutoff [] s = (Inr None, s)"
| "claim_loop dec clks cutoff (cand # cands) s =
     (case tryClaimEndpoint dec (clks cand) cand cutoff s of
        (Inr None, s') \<Rightarrow> claim_loop dec clks cutoff cands s'
      | res \<Rightarrow> res)"

text \<open>\<^verbatim>\<open>new Date(x)\<close> truncates a fractional millisecond count towards zero.\<close>

definition js_Date :: "rat \<Rightarrow> js_ms" where
  "js_Date x = (if 0 \<le> x then \<lfloor>x\<rfloor> else \<lceil>x\<rceil>)"

definition claim_cutoff :: "js_ms \<Rightarrow> rat \<Rightarrow> ts" where
  "claim_cutoff date_now leaseDurationMs = ts_of_js (js_Date (of_int date_now - leaseDurationMs))"

definition claimDelivery ::
    "(string \<Rightarrow> string option) \<Rightarrow> js_ms \<Rightarrow> ts \<Rightarrow> (candidate_row \<Rightarrow> claim_clock) \<Rightarrow> rat \<Rightarrow>
     db \<Rightarrow> (worker_error + claimed_delivery option) \<times> db" where
  "claimDelivery dec date_now now clks leaseDurationMs s =
     (let cutoff = claim_cutoff date_now leaseDurationMs
      in claim_loop dec clks cutoff (claim_candidates cutoff now s) s)"

section \<open>Writing the outcome back\<close>

record attempt_outcome =
  o_responseStatus :: "int option"
  o_responseBodyTruncated :: string
  o_durationMs :: int
  o_errorClass :: "attempt_error_class option"

datatype complete_outcome = Oc_succeeded | Oc_retrying | Oc_halted | Oc_lease_lost

text \<open>A TEXT column refuses a string with a zero byte: the statement fails.\<close>

definition pg_text_ok :: "string \<Rightarrow> bool" where
  "pg_text_ok s \<longleftrightarrow> list_all (\<lambda>c. (of_char c :: nat) \<noteq> 0) s"

definition http_success :: "attempt_outcome \<Rightarrow> bool" where
  "http_success r \<longleftrightarrow> (case o_responseStatus r of None \<Rightarrow> False | Some c \<Rightarrow> 200 \<le> c \<and> c < 300)"

definition stmt_record_outcome :: "uuid \<Rightarrow> attempt_outcome \<Rightarrow> db \<Rightarrow> db" where
  "stmt_record_outcome aid r s =
     s\<lparr>attempts := update_where (\<lambda>a. a_id a = aid)
        (\<lambda>a. a\<lparr>a_response_status := o_responseStatus r,
               a_response_body_truncated := Some (o_responseBodyTruncated r),
               a_duration_ms := Some (o_durationMs r), a_error_class := o_errorClass r\<rparr>) (attempts s)\<rparr>"

definition stmt_resolve :: "uuid \<Rightarrow> delivery_state \<Rightarrow> db \<Rightarrow> db" where
  "stmt_resolve did st s =
     s\<lparr>deliveries := update_where (\<lambda>d. d_id d = did) (\<lambda>d. d\<lparr>d_state := st\<rparr>) (deliveries s)\<rparr>"

definition stmt_halt :: "uuid \<Rightarrow> db \<Rightarrow> db" where
  "stmt_halt eid s =
     s\<lparr>endpoints := update_where (\<lambda>e. ep_id e = eid) (\<lambda>e. e\<lparr>ep_status := Halted\<rparr>) (endpoints s)\<rparr>"

definition stmt_retry :: "uuid \<Rightarrow> ts \<Rightarrow> db \<Rightarrow> db" where
  "stmt_retry did due s =
     s\<lparr>deliveries := update_where (\<lambda>d. d_id d = did)
        (\<lambda>d. d\<lparr>d_state := Pending, d_next_attempt_at := due\<rparr>) (deliveries s)\<rparr>"

definition stmt_free :: "uuid \<Rightarrow> db \<Rightarrow> db" where
  "stmt_free eid s = s\<lparr>endpoints := update_where (\<lambda>e. ep_id e = eid) free_lease (endpoints s)\<rparr>"

definition fence :: "uuid \<Rightarrow> db \<Rightarrow> uuid option" where
  "fence eid s = (case find_by ep_id eid (endpoints s) of None \<Rightarrow> None | Some e \<Rightarrow> ep_lease_id e)"

definition settle_delivery ::
    "ts \<Rightarrow> rat \<Rightarrow> claimed_delivery \<Rightarrow> attempt_outcome \<Rightarrow> backoff_config \<Rightarrow> db \<Rightarrow> complete_outcome \<times> db" where
  "settle_delivery now rnd c r cfg s =
     (if http_success r then (Oc_succeeded, stmt_resolve (c_deliveryId c) Succeeded s)
      else if of_nat (c_attemptNumber c) \<ge> maxAttempts cfg then
        (Oc_halted, stmt_halt (c_endpointId c) (stmt_resolve (c_deliveryId c) Failed s))
      else (Oc_retrying,
            stmt_retry (c_deliveryId c)
              (now + computeBackoffDelayMs rnd (c_attemptNumber c) cfg * 1000) s))"

definition completeDelivery ::
    "ts \<Rightarrow> rat \<Rightarrow> claimed_delivery \<Rightarrow> attempt_outcome \<Rightarrow> backoff_config \<Rightarrow>
     db \<Rightarrow> (worker_error + complete_outcome) \<times> db" where
  "completeDelivery now rnd c r cfg s =
     (if fence (c_endpointId c) s \<noteq> Some (c_leaseId c) then (Inr Oc_lease_lost, s)
      else if \<not> pg_text_ok (o_responseBodyTruncated r) then (Inl Invalid_text, s)
      else let s1 = stmt_record_outcome (c_attemptId c) r s;
               (oc, s2) = settle_delivery now rnd c r cfg s1
           in (Inr oc, stmt_free (c_endpointId c) s2))"

end
