(* ===== verification/Schema_Facts.thy ===== *)
theory Schema_Facts
  imports Schema
begin

text \<open>
  Preservation rules for \<open>wf_db\<close>, one for each shape of statement: an UPDATE of a table that keeps
  its key columns, a drawn UUID, an appended row.  They form the collection \<open>wf_intros\<close>, from which
  every component proves that its operations keep the database well formed.
\<close>

section \<open>Drawing\<close>

lemma drawn_ids_Suc: "drawn_ids (s\<lparr>uuid_draws := Suc (uuid_draws s)\<rparr>) =
    insert (uuid_src s (uuid_draws s)) (drawn_ids s)"
  by (simp add: drawn_ids_def lessThan_Suc)

lemma draw_fresh: "uuids_distinct s \<Longrightarrow> uuid_src s (uuid_draws s) \<notin> drawn_ids s"
  by (auto simp: drawn_ids_def uuids_distinct_def inj_def)

lemma wf_draw [wf_intros]: "wf_db s \<Longrightarrow> wf_db (s\<lparr>uuid_draws := Suc (uuid_draws s)\<rparr>)"
proof -
  let ?s' = "s\<lparr>uuid_draws := Suc (uuid_draws s)\<rparr>"
  assume wf: "wf_db s"
  have sub: "x \<in> drawn_ids s \<Longrightarrow> x \<in> drawn_ids ?s'" for x
    by (simp add: drawn_ids_Suc)
  from wf have "drawn_ok s" by (simp add: wf_db_def)
  then have "drawn_ok ?s'"
    unfolding drawn_ok_def using sub by (simp add: subset_iff)
  with wf show ?thesis
    by (simp add: wf_db_def uuids_distinct_def keys_ok_def uniques_ok_def seqs_ok_def refs_ok_def lease_ok_def)
qed

lemma gen_random_uuid_simps [simp]:
  "fst (gen_random_uuid s) = uuid_src s (uuid_draws s)"
  "snd (gen_random_uuid s) = s\<lparr>uuid_draws := Suc (uuid_draws s)\<rparr>"
  by (simp_all add: gen_random_uuid_def)

lemma wf_gen [wf_intros]: "wf_db s \<Longrightarrow> wf_db (snd (gen_random_uuid s))"
  by (simp add: wf_draw)

section \<open>Updates that keep the key columns\<close>

lemma wf_update_tenants [wf_intros]:
  assumes "wf_db s" and "\<And>t. P t \<Longrightarrow> tn_id (f t) = tn_id t"
    and "\<And>t. P t \<Longrightarrow> tn_api_key_hash (f t) = tn_api_key_hash t"
  shows "wf_db (s\<lparr>tenants := update_where P f (tenants s)\<rparr>)"
  using assms(1)
  by (simp add: wf_db_def wf_defs drawn_ids_def map_update_where [where g = tn_id, OF assms(2)]
      map_update_where [where g = tn_api_key_hash, OF assms(3)]
      image_update_where [where g = tn_id, OF assms(2)])

lemma wf_update_endpoints [wf_intros]:
  assumes "wf_db s" and "\<And>e. P e \<Longrightarrow> ep_id (f e) = ep_id e"
    and "\<And>e. P e \<Longrightarrow> ep_tenant_id (f e) = ep_tenant_id e"
    and "\<And>e. P e \<Longrightarrow> lease_cols e \<Longrightarrow> lease_cols (f e)"
    and "\<And>e l. P e \<Longrightarrow> ep_lease_id (f e) = Some l \<Longrightarrow> l \<in> drawn_ids s \<or> ep_lease_id e = Some l"
  shows "wf_db (s\<lparr>endpoints := update_where P f (endpoints s)\<rparr>)"
proof -
  have ids: "map ep_id (update_where P f (endpoints s)) = map ep_id (endpoints s)"
    and ids': "ep_id ` set (update_where P f (endpoints s)) = ep_id ` set (endpoints s)"
    by (simp_all add: map_update_where image_update_where assms(2))
  have tens: "\<forall>e\<in>set (update_where P f (endpoints s)). ep_tenant_id e \<in> tn_id ` set (tenants s)"
    using assms(1,3) by (auto simp: wf_db_def refs_ok_def set_update_where)
  have cols: "\<forall>e\<in>set (update_where P f (endpoints s)). lease_cols e"
    using assms(1,4) by (auto simp: wf_db_def lease_ok_def set_update_where)
  have old: "x \<in> set (endpoints s) \<Longrightarrow> ep_lease_id x = Some l \<Longrightarrow> l \<in> drawn_ids s" for x l
    using assms(1) by (auto simp: wf_db_def drawn_ok_def)
  have leases: "\<forall>e\<in>set (update_where P f (endpoints s)). \<forall>l. ep_lease_id e = Some l \<longrightarrow> l \<in> drawn_ids s"
    using old assms(5) by (auto simp: set_update_where)
  show ?thesis
    using assms(1) tens cols leases
    by (simp add: wf_db_def wf_defs drawn_ids_def ids ids')
qed

lemma wf_update_events [wf_intros]:
  assumes "wf_db s" and "\<And>v. P v \<Longrightarrow> ev_id (f v) = ev_id v"
    and "\<And>v. P v \<Longrightarrow> ev_tenant_id (f v) = ev_tenant_id v"
    and "\<And>v. P v \<Longrightarrow> ev_idempotency_key (f v) = ev_idempotency_key v"
    and "\<And>v. P v \<Longrightarrow> ev_seq (f v) = ev_seq v"
  shows "wf_db (s\<lparr>events := update_where P f (events s)\<rparr>)"
  using assms(1)
  by (simp add: wf_db_def wf_defs drawn_ids_def map_update_where image_update_where assms(2-5))
     (use assms(3,5) in \<open>auto simp: set_update_where\<close>)

lemma wf_update_deliveries [wf_intros]:
  assumes "wf_db s" and "\<And>d. P d \<Longrightarrow> d_id (f d) = d_id d"
    and "\<And>d. P d \<Longrightarrow> d_event_id (f d) = d_event_id d"
    and "\<And>d. P d \<Longrightarrow> d_endpoint_id (f d) = d_endpoint_id d"
    and "\<And>d. P d \<Longrightarrow> d_seq (f d) = d_seq d"
  shows "wf_db (s\<lparr>deliveries := update_where P f (deliveries s)\<rparr>)"
  using assms(1)
  by (simp add: wf_db_def wf_defs drawn_ids_def map_update_where image_update_where assms(2-5))
     (use assms(3,4,5) in \<open>auto simp: set_update_where\<close>)

lemma wf_update_attempts [wf_intros]:
  assumes "wf_db s" and "\<And>a. P a \<Longrightarrow> a_id (f a) = a_id a"
    and "\<And>a. P a \<Longrightarrow> a_delivery_id (f a) = a_delivery_id a"
  shows "wf_db (s\<lparr>attempts := update_where P f (attempts s)\<rparr>)"
  using assms(1)
  by (simp add: wf_db_def wf_defs drawn_ids_def map_update_where image_update_where assms(2,3))
     (use assms(3) in \<open>auto simp: set_update_where\<close>)

lemma wf_update_replays [wf_intros]:
  assumes "wf_db s" and "\<And>r. P r \<Longrightarrow> rp_id (f r) = rp_id r"
    and "\<And>r. P r \<Longrightarrow> rp_endpoint_id (f r) = rp_endpoint_id r"
    and "\<And>r. P r \<Longrightarrow> rp_idempotency_key (f r) = rp_idempotency_key r"
  shows "wf_db (s\<lparr>replays := update_where P f (replays s)\<rparr>)"
  using assms(1)
  by (simp add: wf_db_def wf_defs drawn_ids_def map_update_where image_update_where assms(2-4))
     (use assms(3) in \<open>auto simp: set_update_where\<close>)

section \<open>Appended rows\<close>

lemma wf_append_delivery [wf_intros]:
  assumes "wf_db s" "d_id d \<in> drawn_ids s" "d_id d \<notin> d_id ` set (deliveries s)"
    and "d_event_id d \<in> ev_id ` set (events s)" "d_endpoint_id d \<in> ep_id ` set (endpoints s)"
    and "d_seq d = d_next_seq s"
  shows "wf_db (s\<lparr>deliveries := deliveries s @ [d], d_next_seq := Suc (d_next_seq s)\<rparr>)"
  using assms
  by (simp add: wf_db_def wf_defs drawn_ids_def sorted_wrt_append) (auto simp: less_Suc_eq)

lemma wf_append_event [wf_intros]:
  assumes "wf_db s" "ev_id v \<in> drawn_ids s" "ev_id v \<notin> ev_id ` set (events s)"
    and "ev_tenant_id v \<in> tn_id ` set (tenants s)" "ev_seq v = ev_next_seq s"
    and "\<forall>w\<in>set (events s). \<not> (ev_tenant_id w = ev_tenant_id v \<and> ev_idempotency_key w = ev_idempotency_key v)"
  shows "wf_db (s\<lparr>events := events s @ [v], ev_next_seq := Suc (ev_next_seq s)\<rparr>)"
  using assms
  by (simp add: wf_db_def wf_defs drawn_ids_def sorted_wrt_append) (auto simp: less_Suc_eq)

lemma wf_append_attempt [wf_intros]:
  assumes "wf_db s" "a_id a \<in> drawn_ids s" "a_id a \<notin> a_id ` set (attempts s)"
    and "a_delivery_id a \<in> d_id ` set (deliveries s)"
  shows "wf_db (s\<lparr>attempts := attempts s @ [a]\<rparr>)"
  using assms by (simp add: wf_db_def wf_defs drawn_ids_def)

lemma wf_append_replay [wf_intros]:
  assumes "wf_db s" "rp_id r \<in> drawn_ids s" "rp_id r \<notin> rp_id ` set (replays s)"
    and "rp_endpoint_id r \<in> ep_id ` set (endpoints s)"
    and "\<forall>q\<in>set (replays s). \<not> (rp_endpoint_id q = rp_endpoint_id r \<and> rp_idempotency_key q = rp_idempotency_key r)"
  shows "wf_db (s\<lparr>replays := replays s @ [r]\<rparr>)"
  using assms by (simp add: wf_db_def wf_defs drawn_ids_def) auto

lemma wf_append_endpoint [wf_intros]:
  assumes "wf_db s" "ep_id e \<in> drawn_ids s" "ep_id e \<notin> ep_id ` set (endpoints s)"
    and "ep_tenant_id e \<in> tn_id ` set (tenants s)" "lease_cols e" "ep_lease_id e = None"
  shows "wf_db (s\<lparr>endpoints := endpoints s @ [e]\<rparr>)"
  using assms by (simp add: wf_db_def wf_defs drawn_ids_def)

lemma wf_append_tenant [wf_intros]:
  assumes "wf_db s" "tn_id t \<in> drawn_ids s" "tn_id t \<notin> tn_id ` set (tenants s)"
    and "tn_api_key_hash t \<notin> tn_api_key_hash ` set (tenants s)"
  shows "wf_db (s\<lparr>tenants := tenants s @ [t]\<rparr>)"
  using assms by (simp add: wf_db_def wf_defs drawn_ids_def)

section \<open>Fresh ids after a draw\<close>

lemma drawn_fresh_ids:
  assumes "wf_db s"
  shows "uuid_src s (uuid_draws s) \<notin> tn_id ` set (tenants s)"
    and "uuid_src s (uuid_draws s) \<notin> ep_id ` set (endpoints s)"
    and "uuid_src s (uuid_draws s) \<notin> ev_id ` set (events s)"
    and "uuid_src s (uuid_draws s) \<notin> d_id ` set (deliveries s)"
    and "uuid_src s (uuid_draws s) \<notin> a_id ` set (attempts s)"
    and "uuid_src s (uuid_draws s) \<notin> rp_id ` set (replays s)"
  using assms draw_fresh [of s] by (auto simp: wf_db_def drawn_ok_def)

lemma drawn_fresh_lease:
  assumes "wf_db s" "e \<in> set (endpoints s)"
  shows "ep_lease_id e \<noteq> Some (uuid_src s (uuid_draws s))"
  using assms draw_fresh [of s] by (auto simp: wf_db_def drawn_ok_def)

lemma drawn_self: "uuid_src s (uuid_draws s) \<in> drawn_ids (s\<lparr>uuid_draws := Suc (uuid_draws s)\<rparr>)"
  by (simp add: drawn_ids_Suc)

lemma wf_insert_delivery [wf_intros]:
  assumes "wf_db s" "fst p \<in> ev_id ` set (events s)" "snd p \<in> ep_id ` set (endpoints s)"
  shows "wf_db (insert_delivery now p s)"
  unfolding insert_delivery_def gen_random_uuid_def Let_def prod.case
  by (rule wf_append_delivery)
     (use assms drawn_fresh_ids [OF assms(1)] in \<open>simp_all add: wf_draw drawn_ids_Suc\<close>)

lemma insert_delivery_frame [simp]:
  "tenants (insert_delivery now p s) = tenants s" "endpoints (insert_delivery now p s) = endpoints s"
  "events (insert_delivery now p s) = events s" "attempts (insert_delivery now p s) = attempts s"
  "replays (insert_delivery now p s) = replays s"
  "ev_next_seq (insert_delivery now p s) = ev_next_seq s"
  "uuid_src (insert_delivery now p s) = uuid_src s"
  by (simp_all add: insert_delivery_def gen_random_uuid_def Let_def)

lemma insert_deliveries_simps [simp]:
  "insert_deliveries now [] s = s"
  "insert_deliveries now (p # ps) s = insert_deliveries now ps (insert_delivery now p s)"
  by (simp_all add: insert_deliveries_def)

lemma insert_deliveries_frame [simp]:
  "tenants (insert_deliveries now ps s) = tenants s"
  "endpoints (insert_deliveries now ps s) = endpoints s"
  "events (insert_deliveries now ps s) = events s"
  "attempts (insert_deliveries now ps s) = attempts s"
  "replays (insert_deliveries now ps s) = replays s"
  "ev_next_seq (insert_deliveries now ps s) = ev_next_seq s"
  "uuid_src (insert_deliveries now ps s) = uuid_src s"
  by (induction ps arbitrary: s) simp_all

lemma wf_insert_deliveries [wf_intros]:
  assumes "wf_db s"
    and "\<forall>p\<in>set ps. fst p \<in> ev_id ` set (events s) \<and> snd p \<in> ep_id ` set (endpoints s)"
  shows "wf_db (insert_deliveries now ps s)"
  using assms by (induction ps arbitrary: s) (simp_all add: wf_insert_delivery)

end
