(* ===== verification/Delivery_Facts.thy ===== *)
theory Delivery_Facts
  imports Delivery Schema_Facts
begin

text \<open>
  What the claim and write-back statements of \<open>Delivery\<close> do: every statement keeps the database well
  formed, \<open>tryClaimEndpoint_cases\<close> splits a claim into its outcomes, and the section on queues shows
  which delivery a claim picks.
\<close>

section \<open>Every statement keeps the database well formed\<close>

lemma lease_cols_take [simp]: "lease_cols (take_lease now l e)"
  by (simp add: lease_cols_def take_lease_def)

lemma lease_cols_free [simp]: "lease_cols (free_lease e)"
  by (simp add: lease_cols_def free_lease_def)

lemma take_lease_simps [simp]:
  "ep_id (take_lease now l e) = ep_id e" "ep_tenant_id (take_lease now l e) = ep_tenant_id e"
  "ep_lease_id (take_lease now l e) = Some l" "ep_busy (take_lease now l e)"
  "ep_busy_since (take_lease now l e) = Some now"
  "ep_status (take_lease now l e) = ep_status e" "ep_url (take_lease now l e) = ep_url e"
  "ep_signing_secret (take_lease now l e) = ep_signing_secret e"
  "ep_event_types (take_lease now l e) = ep_event_types e"
  by (simp_all add: take_lease_def)

lemma free_lease_simps [simp]:
  "ep_id (free_lease e) = ep_id e" "ep_tenant_id (free_lease e) = ep_tenant_id e"
  "ep_lease_id (free_lease e) = None" "\<not> ep_busy (free_lease e)"
  "ep_status (free_lease e) = ep_status e" "ep_event_types (free_lease e) = ep_event_types e"
  by (simp_all add: free_lease_def)

lemma wf_stmt_claim [wf_intros]:
  assumes "wf_db s"
  shows "wf_db (snd (stmt_claim now cutoff eid s))"
proof (cases "list_ex (\<lambda>e. ep_id e = eid \<and> claimable cutoff e) (endpoints s)")
  case True
  let ?s = "s\<lparr>uuid_draws := Suc (uuid_draws s)\<rparr>"
  have "wf_db (?s\<lparr>endpoints := update_where (\<lambda>e. ep_id e = eid \<and> claimable cutoff e)
      (take_lease now (uuid_src s (uuid_draws s))) (endpoints ?s)\<rparr>)"
    by (rule wf_update_endpoints) (use assms in \<open>simp_all add: wf_draw drawn_ids_Suc\<close>)
  with True show ?thesis by (simp add: stmt_claim_def gen_random_uuid_def)
next
  case False
  with assms show ?thesis by (simp add: stmt_claim_def)
qed

lemma wf_stmt_serve [wf_intros]: "wf_db s \<Longrightarrow> wf_db (stmt_serve now tid s)"
  unfolding stmt_serve_def by (rule wf_update_tenants) simp_all

lemma wf_stmt_requeue [wf_intros]: "wf_db s \<Longrightarrow> wf_db (stmt_requeue eid s)"
  unfolding stmt_requeue_def by (rule wf_update_deliveries) simp_all

lemma stmt_expire_orphans_Some:
  assumes "stmt_expire_orphans eid s = Some s'"
  obtains P where "s' = s\<lparr>attempts := update_where P
    (\<lambda>a. a\<lparr>a_error_class := Some Worker_lease_expired\<rparr>) (attempts s)\<rparr>"
proof -
  consider "map d_id (in_flight_of eid s) = []" | did where "map d_id (in_flight_of eid s) = [did]"
    using assms by (auto simp: stmt_expire_orphans_def split: list.splits)
  then show thesis
  proof cases
    case 1
    have "s = s\<lparr>attempts := update_where (\<lambda>_. False)
        (\<lambda>a. a\<lparr>a_error_class := Some Worker_lease_expired\<rparr>) (attempts s)\<rparr>"
      by (simp add: update_where_none)
    with 1 assms that [of "\<lambda>_. False"] show thesis by (simp add: stmt_expire_orphans_def)
  next
    case (2 did)
    with assms that [of "orphan did"] show thesis by (simp add: stmt_expire_orphans_def)
  qed
qed

lemma wf_stmt_expire_orphans [wf_intros]:
  "stmt_expire_orphans eid s = Some s' \<Longrightarrow> wf_db s \<Longrightarrow> wf_db s'"
  by (erule stmt_expire_orphans_Some) (simp add: wf_update_attempts)

lemma wf_reclaim [wf_intros]: "reclaim cand s = Some s' \<Longrightarrow> wf_db s \<Longrightarrow> wf_db s'"
  by (auto simp: reclaim_def wf_stmt_requeue dest: wf_stmt_expire_orphans split: if_splits)

lemma wf_stmt_release [wf_intros]: "wf_db s \<Longrightarrow> wf_db (stmt_release eid l s)"
  unfolding stmt_release_def by (rule wf_update_endpoints) simp_all

lemma wf_stmt_insert_attempt [wf_intros]:
  assumes "wf_db s" "did \<in> d_id ` set (deliveries s)"
  shows "wf_db (snd (stmt_insert_attempt now did n s))"
  unfolding stmt_insert_attempt_def gen_random_uuid_def Let_def prod.case snd_conv
  by (rule wf_append_attempt)
     (use assms drawn_fresh_ids [OF assms(1)] in \<open>simp_all add: wf_draw drawn_ids_Suc\<close>)

lemma wf_stmt_in_flight [wf_intros]: "wf_db s \<Longrightarrow> wf_db (stmt_in_flight did n s)"
  unfolding stmt_in_flight_def by (rule wf_update_deliveries) simp_all

lemma wf_stmt_record_outcome [wf_intros]: "wf_db s \<Longrightarrow> wf_db (stmt_record_outcome aid r s)"
  unfolding stmt_record_outcome_def by (rule wf_update_attempts) simp_all

lemma wf_stmt_resolve [wf_intros]: "wf_db s \<Longrightarrow> wf_db (stmt_resolve did st s)"
  unfolding stmt_resolve_def by (rule wf_update_deliveries) simp_all

lemma wf_stmt_halt [wf_intros]: "wf_db s \<Longrightarrow> wf_db (stmt_halt eid s)"
  unfolding stmt_halt_def by (rule wf_update_endpoints) (auto simp: lease_cols_def)

lemma wf_stmt_retry [wf_intros]: "wf_db s \<Longrightarrow> wf_db (stmt_retry did due s)"
  unfolding stmt_retry_def by (rule wf_update_deliveries) simp_all

lemma wf_stmt_free [wf_intros]: "wf_db s \<Longrightarrow> wf_db (stmt_free eid s)"
  unfolding stmt_free_def by (rule wf_update_endpoints) simp_all

section \<open>The head of a queue\<close>

lemma pending_sorted:
  "wf_db s \<Longrightarrow> sort_key d_seq (pending_of eid s) = pending_of eid s"
  unfolding pending_of_def by (rule strict_sorted_sort_key) (simp add: wf_db_def seqs_ok_def)

lemma filter_key_unique:
  "distinct (map key xs) \<Longrightarrow> x \<in> set xs \<Longrightarrow> filter (\<lambda>y. key y = key x) xs = [x]"
proof (induction xs)
  case (Cons y ys)
  have "\<forall>z\<in>set ys. key z \<noteq> key y"
    using Cons.prems(1) by (simp add: image_iff) metis
  with Cons show ?case by (cases "x = y") (auto simp: filter_empty_conv)
qed simp

lemma select_head_eq:
  assumes wf: "wf_db s"
  shows "select_head eid s =
    (case pending_of eid s of
       [] \<Rightarrow> None
     | d # _ \<Rightarrow> Some (d, the (find_by ev_id (d_event_id d) (events s)),
                        the (find_by ep_id (d_endpoint_id d) (endpoints s))))"
proof (cases "pending_of eid s")
  case Nil
  then show ?thesis by (simp add: select_head_def)
next
  case (Cons d ds)
  then have d: "d \<in> set (deliveries s)"
    by (metis filter_is_subset list.set_intros(1) pending_of_def subsetD)
  with wf obtain v e where v: "v \<in> set (events s)" "ev_id v = d_event_id d"
    and e: "e \<in> set (endpoints s)" "ep_id e = d_endpoint_id d"
    by (force simp: wf_db_def refs_ok_def)
  from wf have dist: "distinct (map ev_id (events s))" "distinct (map ep_id (endpoints s))"
    by (simp_all add: wf_db_def keys_ok_def)
  have "filter (\<lambda>w. ev_id w = d_event_id d) (events s) = [v]"
    using filter_key_unique [OF dist(1) v(1)] v(2) by simp
  moreover have "filter (\<lambda>w. ep_id w = d_endpoint_id d) (endpoints s) = [e]"
    using filter_key_unique [OF dist(2) e(1)] e(2) by simp
  moreover have "find_by ev_id (d_event_id d) (events s) = Some v"
    "find_by ep_id (d_endpoint_id d) (endpoints s) = Some e"
    using find_by_eq_Some [OF dist(1) v] find_by_eq_Some [OF dist(2) e] .
  ultimately show ?thesis
    unfolding select_head_def trans [OF pending_sorted [OF wf] Cons] by (simp add: Cons)
qed

lemma select_head_SomeD:
  assumes "wf_db s" "select_head eid s = Some (d, v, e)"
  shows "d \<in> set (deliveries s)" "d_endpoint_id d = eid" "d_state d = Pending"
    "v \<in> set (events s)" "ev_id v = d_event_id d" "e \<in> set (endpoints s)" "ep_id e = eid"
    "\<forall>d'\<in>set (pending_of eid s). d_seq d \<le> d_seq d'"
proof -
  obtain ds where p: "pending_of eid s = d # ds"
    using assms by (auto simp: select_head_eq split: list.splits)
  then have "d \<in> set (pending_of eid s)" by simp
  then show d: "d \<in> set (deliveries s)" "d_endpoint_id d = eid" "d_state d = Pending"
    by (auto simp: pending_of_def)
  have "sorted_wrt (<) (map d_seq (pending_of eid s))"
    unfolding pending_of_def
    by (rule sorted_wrt_less_map_filter) (use assms(1) in \<open>simp add: wf_db_def seqs_ok_def\<close>)
  then show "\<forall>d'\<in>set (pending_of eid s). d_seq d \<le> d_seq d'"
    by (auto simp: p)
  show "v \<in> set (events s)" "ev_id v = d_event_id d" "e \<in> set (endpoints s)" "ep_id e = eid"
    using head_option_in [OF assms(2) [unfolded select_head_def]] d(2) by auto
qed

section \<open>The outcomes of a claim\<close>

lemma stmt_claim_SomeD:
  assumes "stmt_claim now cutoff eid s = (Some l, s1)"
  shows "l = uuid_src s (uuid_draws s)"
    and "s1 = s\<lparr>uuid_draws := Suc (uuid_draws s),
      endpoints := update_where (\<lambda>e. ep_id e = eid \<and> claimable cutoff e) (take_lease now l) (endpoints s)\<rparr>"
    and "\<exists>e\<in>set (endpoints s). ep_id e = eid \<and> claimable cutoff e"
  using assms by (auto simp: stmt_claim_def gen_random_uuid_def list_ex_iff split: if_splits)

lemma stmt_claim_NoneD:
  "stmt_claim now cutoff eid s = (None, s1) \<Longrightarrow>
     s1 = s \<and> (\<forall>e\<in>set (endpoints s). ep_id e = eid \<longrightarrow> \<not> claimable cutoff e)"
  by (auto simp: stmt_claim_def list_ex_iff split: if_splits prod.splits)

definition new_claim :: "candidate_row \<Rightarrow> uuid \<Rightarrow> delivery \<Rightarrow> event \<Rightarrow> endpoint \<Rightarrow> uuid \<Rightarrow>
    string \<Rightarrow> string option \<Rightarrow> claimed_delivery" where
  "new_claim cand l d v e aid p q =
     \<lparr>c_endpointId = cand_id cand, c_tenantId = cand_tenant_id cand, c_leaseId = l,
      c_deliveryId = d_id d, c_eventId = d_event_id d, c_eventType = ev_type v,
      c_payload = ev_payload v, c_attemptNumber = d_attempt_count d + 1, c_attemptId = aid,
      c_url = ep_url e, c_signingSecret = p, c_secondarySecret = q\<rparr>"

definition record_attempt :: "ts \<Rightarrow> delivery \<Rightarrow> db \<Rightarrow> db" where
  "record_attempt now d s =
     stmt_in_flight (d_id d) (d_attempt_count d + 1)
       (snd (stmt_insert_attempt now (d_id d) (d_attempt_count d + 1) s))"

lemma tryClaimEndpoint_cases:
  assumes "tryClaimEndpoint dec clk cand cutoff s = (r, s')"
  obtains
    (lost) "stmt_claim (at_claim clk) cutoff (cand_id cand) s = (None, s)" "r = Inr None" "s' = s"
  | (ambiguous) l s1 where
      "stmt_claim (at_claim clk) cutoff (cand_id cand) s = (Some l, s1)"
      "reclaim cand (stmt_serve (at_serve clk) (cand_tenant_id cand) s1) = None"
      "r = Inl Cardinality_violation" "s' = stmt_serve (at_serve clk) (cand_tenant_id cand) s1"
  | (idle) l s1 s3 where
      "stmt_claim (at_claim clk) cutoff (cand_id cand) s = (Some l, s1)"
      "reclaim cand (stmt_serve (at_serve clk) (cand_tenant_id cand) s1) = Some s3"
      "case select_head (cand_id cand) s3 of None \<Rightarrow> True
         | Some row \<Rightarrow> js_of_ts (d_next_attempt_at (fst row)) > at_head clk"
      "r = Inr None" "s' = stmt_release (cand_id cand) l s3"
  | (unreadable) l s1 s3 d v e where
      "stmt_claim (at_claim clk) cutoff (cand_id cand) s = (Some l, s1)"
      "reclaim cand (stmt_serve (at_serve clk) (cand_tenant_id cand) s1) = Some s3"
      "select_head (cand_id cand) s3 = Some (d, v, e)"
      "js_of_ts (d_next_attempt_at d) \<le> at_head clk"
      "claim_secrets dec (at_secret clk) e = None"
      "r = Inl Secret_unreadable" "s' = record_attempt (at_sent clk) d s3"
  | (claimed) l s1 s3 d v e p q where
      "stmt_claim (at_claim clk) cutoff (cand_id cand) s = (Some l, s1)"
      "reclaim cand (stmt_serve (at_serve clk) (cand_tenant_id cand) s1) = Some s3"
      "select_head (cand_id cand) s3 = Some (d, v, e)"
      "js_of_ts (d_next_attempt_at d) \<le> at_head clk"
      "claim_secrets dec (at_secret clk) e = Some (p, q)"
      "r = Inr (Some (new_claim cand l d v e (uuid_src s3 (uuid_draws s3)) p q))"
      "s' = record_attempt (at_sent clk) d s3"
proof -
  obtain lo s1 where cl: "stmt_claim (at_claim clk) cutoff (cand_id cand) s = (lo, s1)" by fastforce
  show thesis
  proof (cases lo)
    case None
    with cl have "s1 = s" using stmt_claim_NoneD by blast
    with cl None have cl: "stmt_claim (at_claim clk) cutoff (cand_id cand) s = (None, s)" by simp
    with assms have "r = Inr None" "s' = s" by (simp_all add: tryClaimEndpoint_def)
    with cl show thesis by (rule lost)
  next
    case (Some l)
    note cl = cl [unfolded Some]
    show thesis
    proof (cases "reclaim cand (stmt_serve (at_serve clk) (cand_tenant_id cand) s1)")
      case None
      with cl assms have "r = Inl Cardinality_violation"
        "s' = stmt_serve (at_serve clk) (cand_tenant_id cand) s1"
        by (simp_all add: tryClaimEndpoint_def)
      with cl None show thesis by (rule ambiguous)
    next
      case (Some s3)
      then have head: "claim_head dec clk cand l s3 = (r, s')"
        using cl assms by (simp add: tryClaimEndpoint_def)
      show thesis
      proof (cases "select_head (cand_id cand) s3")
        case None
        with head have "r = Inr None" "s' = stmt_release (cand_id cand) l s3"
          by (simp_all add: claim_head_def)
        with None show thesis by (intro idle [OF cl Some]) simp_all
      next
        case sel: (Some row)
        obtain d v e where row: "row = (d, v, e)" by (cases row)
        show thesis
        proof (cases "js_of_ts (d_next_attempt_at d) > at_head clk")
          case True
          with head sel row have "r = Inr None" "s' = stmt_release (cand_id cand) l s3"
            by (simp_all add: claim_head_def)
          with sel row True show thesis by (intro idle [OF cl Some]) simp_all
        next
          case False
          then have le: "js_of_ts (d_next_attempt_at d) \<le> at_head clk" by simp
          have start: "start_attempt dec clk cand l (d, v, e) s3 = (r, s')"
            using head sel row False by (simp add: claim_head_def)
          show thesis
          proof (cases "claim_secrets dec (at_secret clk) e")
            case None
            with start have "r = Inl Secret_unreadable" "s' = record_attempt (at_sent clk) d s3"
              by (simp_all add: start_attempt_def record_attempt_def case_prod_beta Let_def)
            with None show thesis by (rule unreadable [OF cl Some sel [unfolded row] le])
          next
            case (Some pq)
            obtain p q where pq: "pq = (p, q)" by fastforce
            have "r = Inr (Some (new_claim cand l d v e (uuid_src s3 (uuid_draws s3)) p q))"
              "s' = record_attempt (at_sent clk) d s3"
              using start Some pq
              by (simp_all add: start_attempt_def record_attempt_def new_claim_def case_prod_beta
                  stmt_insert_attempt_def gen_random_uuid_def Let_def)
            with Some pq show thesis
              by (intro claimed [OF cl \<open>reclaim _ _ = Some s3\<close> sel [unfolded row] le]) simp_all
          qed
        qed
      qed
    qed
  qed
qed

lemma wf_record_attempt [wf_intros]:
  "wf_db s \<Longrightarrow> d \<in> set (deliveries s) \<Longrightarrow> wf_db (record_attempt now d s)"
  unfolding record_attempt_def by (rule wf_stmt_in_flight, rule wf_stmt_insert_attempt) auto

lemma wf_tryClaimEndpoint [wf_intros]:
  assumes "tryClaimEndpoint dec clk cand cutoff s = (r, s')" "wf_db s"
  shows "wf_db s'"
proof -
  have s1: "wf_db (stmt_serve t tid s1)" if "stmt_claim now cutoff eid s = (lo, s1)" for now eid lo s1 t tid
    using wf_stmt_serve [OF wf_stmt_claim [OF assms(2), of now cutoff eid]] that by simp
  from assms(1) show ?thesis
  proof (cases rule: tryClaimEndpoint_cases)
    case lost
    with assms(2) show ?thesis by simp
  next
    case ambiguous
    with s1 show ?thesis by simp
  next
    case idle
    with s1 show ?thesis by (simp add: wf_stmt_release wf_reclaim)
  next
    case (unreadable l s1 s3 d v e)
    with s1 have "wf_db s3" using wf_reclaim by blast
    with unreadable select_head_SomeD(1) show ?thesis by (auto intro: wf_record_attempt)
  next
    case (claimed l s1 s3 d v e p q)
    with s1 have "wf_db s3" using wf_reclaim by blast
    with claimed select_head_SomeD(1) show ?thesis by (auto intro: wf_record_attempt)
  qed
qed

lemma wf_settle [wf_intros]: "wf_db s \<Longrightarrow> wf_db (snd (settle_delivery now rnd c r cfg s))"
  by (simp add: settle_delivery_def wf_stmt_resolve wf_stmt_halt wf_stmt_retry)

lemma completeDelivery_cases:
  assumes "completeDelivery now rnd c r cfg s = (res, s')"
  obtains
    (lease_lost) "fence (c_endpointId c) s \<noteq> Some (c_leaseId c)" "res = Inr Oc_lease_lost" "s' = s"
  | (bad_text) "fence (c_endpointId c) s = Some (c_leaseId c)"
      "\<not> pg_text_ok (o_responseBodyTruncated r)" "res = Inl Invalid_text" "s' = s"
  | (written) "fence (c_endpointId c) s = Some (c_leaseId c)" "pg_text_ok (o_responseBodyTruncated r)"
      "res = Inr (fst (settle_delivery now rnd c r cfg (stmt_record_outcome (c_attemptId c) r s)))"
      "s' = stmt_free (c_endpointId c)
         (snd (settle_delivery now rnd c r cfg (stmt_record_outcome (c_attemptId c) r s)))"
proof -
  consider "fence (c_endpointId c) s \<noteq> Some (c_leaseId c)"
    | "fence (c_endpointId c) s = Some (c_leaseId c)" "\<not> pg_text_ok (o_responseBodyTruncated r)"
    | "fence (c_endpointId c) s = Some (c_leaseId c)" "pg_text_ok (o_responseBodyTruncated r)"
    by blast
  then show thesis
  proof cases
    case 1
    with assms show thesis by (intro lease_lost) (simp_all add: completeDelivery_def)
  next
    case 2
    with assms show thesis by (intro bad_text) (simp_all add: completeDelivery_def)
  next
    case 3
    with assms show thesis
      by (intro written) (simp_all add: completeDelivery_def Let_def case_prod_beta)
  qed
qed

lemma wf_completeDelivery [wf_intros]:
  "completeDelivery now rnd c r cfg s = (res, s') \<Longrightarrow> wf_db s \<Longrightarrow> wf_db s'"
  by (erule completeDelivery_cases) (simp_all add: wf_stmt_free wf_settle wf_stmt_record_outcome)

end
