(* ===== verification/Pagination.thy ===== *)
theory Pagination
  imports Json_Text
begin

text \<open>
  \<^verbatim>\<open>node/src/lib/pagination.ts\<close>: the cursors of the list routes (base64url of a JSON object) and the
  limit parameter, with the page cut every list route makes.  The locale \<open>keyset_paging\<close> is the
  contract of a cursor route: asking again after the last row of a page continues exactly where the
  page stopped.  From it follows once and for all that following \<^verbatim>\<open>next_cursor\<close> visits every row
  exactly once; the routes' own queries interpret it.
\<close>

section \<open>ISO timestamps\<close>

text \<open>\<^verbatim>\<open>Date.prototype.toISOString\<close> on the proleptic Gregorian calendar.\<close>

definition civil_of_days :: "int \<Rightarrow> int \<times> int \<times> int" where
  "civil_of_days days =
     (let z = days + 719468; era = z div 146097; doe = z mod 146097;
          yoe = (doe - doe div 1460 + doe div 36524 - doe div 146096) div 365;
          doy = doe - (365 * yoe + yoe div 4 - yoe div 100);
          mp = (5 * doy + 2) div 153;
          m = (if mp < 10 then mp + 3 else mp - 9)
      in (yoe + era * 400 + (if m \<le> 2 then 1 else 0), m, doy - (153 * mp + 2) div 5 + 1))"

definition pad_nat :: "nat \<Rightarrow> int \<Rightarrow> string" where
  "pad_nat w i = (let s = show_nat (nat i) in replicate (w - length s) (CHR ''0'') @ s)"

definition iso_year :: "int \<Rightarrow> string" where
  "iso_year y = (if 0 \<le> y \<and> y \<le> 9999 then pad_nat 4 y
     else (if y < 0 then ''-'' else ''+'') @ pad_nat 6 (abs y))"

definition toISOString :: "js_ms \<Rightarrow> string" where
  "toISOString t =
     (let (y, m, d) = civil_of_days (t div 86400000); r = t mod 86400000
      in iso_year y @ ''-'' @ pad_nat 2 m @ ''-'' @ pad_nat 2 d @ ''T'' @ pad_nat 2 (r div 3600000) @
         '':'' @ pad_nat 2 (r div 60000 mod 60) @ '':'' @ pad_nat 2 (r div 1000 mod 60) @ ''.'' @
         pad_nat 3 (r mod 1000) @ ''Z'')"

section \<open>Cursors\<close>

record cursor =
  cu_createdAt :: string
  cu_id :: string

text \<open>Reading a property: null and undefined have none and throw, every other value has some.\<close>

definition get_prop :: "string \<Rightarrow> json \<Rightarrow> json option" where
  "get_prop k j = (case j of JObj ps \<Rightarrow> map_of ps k | _ \<Rightarrow> None)"

definition encodeCursor :: "cursor \<Rightarrow> string" where
  "encodeCursor c =
     base64url (stringify (JObj [(''createdAt'', JStr (cu_createdAt c)), (''id'', JStr (cu_id c))]))"

definition decodeCursor :: "string \<Rightarrow> cursor option" where
  "decodeCursor raw =
     (case json_parse (unbase64 raw) of
        None \<Rightarrow> None
      | Some parsed \<Rightarrow>
          (case (get_prop ''createdAt'' parsed, get_prop ''id'' parsed) of
             (Some (JStr c), Some (JStr i)) \<Rightarrow> Some \<lparr>cu_createdAt = c, cu_id = i\<rparr>
           | _ \<Rightarrow> None))"

definition encodeSeqCursor :: "nat \<Rightarrow> string" where
  "encodeSeqCursor seq = base64url (stringify (JObj [(''seq'', JNum (show_nat seq))]))"

definition decodeSeqCursor :: "string \<Rightarrow> js_num option" where
  "decodeSeqCursor raw =
     (case json_parse (unbase64 raw) of
        None \<Rightarrow> None
      | Some parsed \<Rightarrow>
          (case get_prop ''seq'' parsed of Some (JNum t) \<Rightarrow> Some (js_Number t) | _ \<Rightarrow> None))"

section \<open>Limits\<close>

text \<open>A query parameter as Express parses it: absent, one string, several, or a nested object.\<close>

datatype query_value = Q_undefined | Q_string string | Q_array "string list" | Q_object

definition number_of_query :: "query_value \<Rightarrow> js_num" where
  "number_of_query q =
     (case q of Q_undefined \<Rightarrow> NaN | Q_string s \<Rightarrow> js_Number s
      | Q_array ws \<Rightarrow> js_Number (js_join '','' ws) | Q_object \<Rightarrow> NaN)"

definition parseLimit :: "query_value \<Rightarrow> nat \<Rightarrow> nat \<Rightarrow> nat" where
  "parseLimit raw fallback mx =
     (case number_of_query raw of
        Fin n \<Rightarrow> if n \<le> 0 then fallback else min (nat \<lfloor>n\<rfloor>) mx
      | _ \<Rightarrow> fallback)"

text \<open>The cut of every list route: one row more than the limit was fetched.\<close>

definition paginate :: "nat \<Rightarrow> 'r list \<Rightarrow> 'r list \<times> 'r option" where
  "paginate limit rows =
     (let hasMore = limit < length rows;
          page = (if hasMore then take limit rows else rows);
          lst = (if page = [] then None else Some (last page))
      in (page, if hasMore then lst else None))"

section \<open>Round trips\<close>

lemma cursor_json_ok:
  "json_ok (JObj [(''createdAt'', JStr c), (''id'', JStr i)])"
  "json_ok (JObj [(''seq'', JNum (show_nat n))])"
  by (simp_all add: scan_show_nat)

lemma decode_encode_cursor: "decodeCursor (encodeCursor c) = Some c"
  by (simp add: decodeCursor_def encodeCursor_def json_parse_print [OF cursor_json_ok(1)] get_prop_def
      del: stringify.simps)

lemma js_Number_show_nat: "of_nat n < js_overflow \<Longrightarrow> js_Number (show_nat n) = Fin (of_nat n)"
  using js_Number_digits [of "show_nat n"] show_nat_digits by simp

lemma decode_encode_seq:
  "of_nat n < js_overflow \<Longrightarrow> decodeSeqCursor (encodeSeqCursor n) = Some (Fin (of_nat n))"
  by (simp add: decodeSeqCursor_def encodeSeqCursor_def json_parse_print [OF cursor_json_ok(2)] get_prop_def
      js_Number_show_nat del: stringify.simps)

lemma parseLimit_le: "fallback \<le> mx \<Longrightarrow> parseLimit raw fallback mx \<le> mx"
  by (simp add: parseLimit_def split: js_num.split)

lemma paginate_length: "length (fst (paginate limit rows)) \<le> limit"
  by (simp add: paginate_def Let_def)

lemma paginate_fetch:
  "paginate limit (take (limit + 1) rows) =
     (take limit rows, if limit < length rows \<and> limit \<noteq> 0 then Some (rows ! (limit - 1)) else None)"
proof (cases "limit < length rows")
  case True
  then have "take limit rows \<noteq> [] \<Longrightarrow> last (take limit rows) = rows ! (limit - 1)"
    by (simp add: last_conv_nth min_def)
  with True show ?thesis by (auto simp: paginate_def Let_def min_def)
next
  case False
  then show ?thesis by (simp add: paginate_def Let_def)
qed

section \<open>Following the cursors\<close>

text \<open>
  A client that starts without a cursor and follows \<^verbatim>\<open>next_cursor\<close> for at most \<open>fuel\<close> pages:
  \<open>query c\<close> is the ordered result of the route's query before its LIMIT.
\<close>

fun visit :: "nat \<Rightarrow> nat \<Rightarrow> (string option \<Rightarrow> 'r list) \<Rightarrow> ('r \<Rightarrow> string) \<Rightarrow> string option \<Rightarrow> 'r list list" where
  "visit 0 limit query cursor_of c = []"
| "visit (Suc fuel) limit query cursor_of c =
     (case paginate limit (take (limit + 1) (query c)) of
        (page, None) \<Rightarrow> [page]
      | (page, Some r) \<Rightarrow> page # visit fuel limit query cursor_of (Some (cursor_of r)))"

locale keyset_paging =
  fixes inv :: "'s \<Rightarrow> bool"
    and query :: "'s \<Rightarrow> string option \<Rightarrow> 'r list"
    and cursor_of :: "'r \<Rightarrow> string"
  assumes resume: "inv s \<Longrightarrow> query s None = xs @ r # ys \<Longrightarrow> query s (Some (cursor_of r)) = ys"
begin

lemma visit_suffix:
  assumes "inv s" "0 < limit"
  shows "query s None = xs @ query s c \<Longrightarrow> length (query s c) < fuel \<Longrightarrow>
    concat (visit fuel limit (query s) cursor_of c) = query s c"
proof (induction fuel arbitrary: xs c)
  case (Suc fuel)
  let ?rows = "query s c"
  show ?case
  proof (cases "limit < length ?rows")
    case False
    then show ?thesis unfolding visit.simps paginate_fetch by simp
  next
    case True
    let ?r = "?rows ! (limit - 1)"
    have "?rows = take (limit - 1) ?rows @ ?r # drop limit ?rows"
      using True assms(2) id_take_nth_drop [of "limit - 1" ?rows] by simp
    with Suc.prems(1) have all: "query s None = (xs @ take (limit - 1) ?rows) @ ?r # drop limit ?rows"
      by simp
    have rest: "query s (Some (cursor_of ?r)) = drop limit ?rows"
      by (rule resume [OF assms(1) all])
    have "concat (visit fuel limit (query s) cursor_of (Some (cursor_of ?r))) = drop limit ?rows"
      using Suc.IH [of "xs @ take (limit - 1) ?rows @ [?r]" "Some (cursor_of ?r)"] all rest Suc.prems(2) True assms(2)
      by simp
    with True assms(2) show ?thesis unfolding visit.simps paginate_fetch by simp
  qed
qed simp

lemma visits_all:
  "inv s \<Longrightarrow> 0 < limit \<Longrightarrow> length (query s None) < fuel \<Longrightarrow>
     concat (visit fuel limit (query s) cursor_of None) = query s None"
  using visit_suffix [of s limit "[]" None fuel] by simp

end

lemma pages_bounded: "p \<in> set (visit fuel limit query cursor_of c) \<Longrightarrow> length p \<le> limit"
  by (induction fuel arbitrary: c)
     (auto simp: paginate_fetch simp del: One_nat_def split: if_splits)

text \<open>
  Cursors survive the trip through the client: \<^verbatim>\<open>decodeCursor\<close> recovers every cursor
  \<^verbatim>\<open>encodeCursor\<close> produced, whatever the two strings contain.
\<close>

theorem cursor_roundtrip: "decodeCursor (encodeCursor c) = Some c"
  by (rule decode_encode_cursor)

text \<open>
  The effective page size is bounded whatever a client passes as \<^verbatim>\<open>limit\<close>; it is zero exactly
  when the parameter reads as a number strictly between zero and one.
\<close>

theorem parseLimit_bounds:
  "parseLimit raw 20 100 \<le> 100 \<and>
   (parseLimit raw 20 100 = 0 \<longleftrightarrow> (\<exists>n. number_of_query raw = Fin n \<and> 0 < n \<and> n < 1))"
proof -
  have "min (nat k) 100 = 0 \<longleftrightarrow> k \<le> 0" for k by auto
  then show ?thesis by (auto simp: parseLimit_def split: js_num.split if_splits)
qed

end
