(* ===== verification/Url_Validation.thy ===== *)
theory Url_Validation
  imports Json_Text "HOL-Library.Word"
begin

text \<open>
  \<^verbatim>\<open>node/src/validation/url.ts\<close>: the denylist of endpoint addresses.  \<open>isIP\<close> is \<^verbatim>\<open>net.isIP\<close> written
  out; the WHATWG URL parser and the DNS lookup are arguments (\<open>parse_url\<close>, None when \<^verbatim>\<open>new URL\<close>
  throws; \<open>lookup\<close>, None when the promise is rejected).  The IPv4 part of the list is shown
  equivalent to the CIDR ranges its messages name, on 32-bit words.
\<close>

section \<open>net.isIP\<close>

definition v4_octet :: "string \<Rightarrow> bool" where
  "v4_octet w \<longleftrightarrow> w \<noteq> [] \<and> list_all is_digit w \<and> length w \<le> 3 \<and> nat_of_digits w \<le> 255 \<and>
     (length w = 1 \<or> hd w \<noteq> CHR ''0'')"

definition isIPv4 :: "string \<Rightarrow> bool" where
  "isIPv4 s \<longleftrightarrow> (let ws = js_split (CHR ''.'') s in length ws = 4 \<and> list_all v4_octet ws)"

definition v6_seg :: "string \<Rightarrow> bool" where
  "v6_seg w \<longleftrightarrow> w \<noteq> [] \<and> length w \<le> 4 \<and> list_all (\<lambda>c. radix_digit 16 c \<noteq> None) w"

text \<open>How many 16-bit groups a colon-separated list stands for; a final IPv4 text counts as two.\<close>

fun v6_groups :: "string list \<Rightarrow> nat option" where
  "v6_groups [] = Some 0"
| "v6_groups [w] = (if v6_seg w then Some 1 else if isIPv4 w then Some 2 else None)"
| "v6_groups (w # ws) = (if v6_seg w then map_option Suc (v6_groups ws) else None)"

fun split_gap :: "string \<Rightarrow> (string \<times> string) option" where
  "split_gap (c # d # r) =
     (if c = CHR '':'' \<and> d = CHR '':'' then Some ([], r)
      else map_option (\<lambda>p. (c # fst p, snd p)) (split_gap (d # r)))"
| "split_gap _ = None"

definition colon_groups :: "string \<Rightarrow> nat option" where
  "colon_groups s = (if s = [] then Some 0 else v6_groups (js_split (CHR '':'') s))"

definition v6_left :: "string \<Rightarrow> nat option" where
  "v6_left s = (if s = [] then Some 0
     else if list_all v6_seg (js_split (CHR '':'') s) then Some (length (js_split (CHR '':'') s)) else None)"

definition zone_char :: "char \<Rightarrow> bool" where
  "zone_char c \<longleftrightarrow> (let n = of_char c :: nat in
     is_digit c \<or> (65 \<le> n \<and> n \<le> 90) \<or> (97 \<le> n \<and> n \<le> 122) \<or> n \<in> {45, 46, 58})"

definition isIPv6 :: "string \<Rightarrow> bool" where
  "isIPv6 s \<longleftrightarrow>
     (let addr = takeWhile (\<lambda>c. c \<noteq> CHR ''%'') s; zone = dropWhile (\<lambda>c. c \<noteq> CHR ''%'') s in
      (zone = [] \<or> (tl zone \<noteq> [] \<and> list_all zone_char (tl zone))) \<and>
      (case split_gap addr of
         None \<Rightarrow> colon_groups addr = Some 8
       | Some (l, r) \<Rightarrow>
           (case (v6_left l, colon_groups r) of (Some a, Some b) \<Rightarrow> a + b \<le> 7 | _ \<Rightarrow> False)))"

definition isIP :: "string \<Rightarrow> nat" where
  "isIP s = (if isIPv4 s then 4 else if isIPv6 s then 6 else 0)"

section \<open>The denylist\<close>

text \<open>\<open>UrlValidationResult\<close>: allowed, or not allowed with its reason.\<close>

datatype url_check = Allowed | Rejected string

definition num_is :: "js_num \<Rightarrow> rat \<Rightarrow> bool" where
  "num_is x q \<longleftrightarrow> x = Fin q"

definition num_ge :: "js_num \<Rightarrow> rat \<Rightarrow> bool" where
  "num_ge x q \<longleftrightarrow> (case x of NaN \<Rightarrow> False | PInf \<Rightarrow> True | NInf \<Rightarrow> False | Fin r \<Rightarrow> q \<le> r)"

definition num_le :: "js_num \<Rightarrow> rat \<Rightarrow> bool" where
  "num_le x q \<longleftrightarrow> (case x of NaN \<Rightarrow> False | PInf \<Rightarrow> False | NInf \<Rightarrow> True | Fin r \<Rightarrow> r \<le> q)"

text \<open>A missing array element is undefined: it compares like NaN.\<close>

definition octet_at :: "nat \<Rightarrow> js_num list \<Rightarrow> js_num" where
  "octet_at i xs = (if i < length xs then xs ! i else NaN)"

definition checkIpv4 :: "string \<Rightarrow> url_check" where
  "checkIpv4 address =
     (let octets = map js_Number (js_split (CHR ''.'') address);
          a = octet_at 0 octets; b = octet_at 1 octets in
      if num_is a 127 then Rejected ''Loopback address (127.0.0.0/8)''
      else if num_is a 10 then Rejected ''Private address (10.0.0.0/8)''
      else if num_is a 172 \<and> num_ge b 16 \<and> num_le b 31 then Rejected ''Private address (172.16.0.0/12)''
      else if num_is a 192 \<and> num_is b 168 then Rejected ''Private address (192.168.0.0/16)''
      else if num_is a 169 \<and> num_is b 254 then Rejected ''Link-local address (169.254.0.0/16)''
      else if num_is a 0 then Rejected ''Unspecified address (0.0.0.0/8)''
      else if num_is a 100 \<and> num_ge b 64 \<and> num_le b 127
        then Rejected ''Carrier-grade NAT address (100.64.0.0/10)''
      else Allowed)"

definition lower_char :: "char \<Rightarrow> char" where
  "lower_char c = (let n = of_char c :: nat in if 65 \<le> n \<and> n \<le> 90 then char_of (n + 32) else c)"

definition js_toLowerCase :: "string \<Rightarrow> string" where
  "js_toLowerCase = map lower_char"

definition starts_with :: "string \<Rightarrow> string \<Rightarrow> bool" where
  "starts_with p s \<longleftrightarrow> take (length p) s = p"

text \<open>The match of \<^verbatim>\<open>/^::ffff:(\d+\.\d+\.\d+\.\d+)$/\<close>, its capture.\<close>

definition mapped_ipv4 :: "string \<Rightarrow> string option" where
  "mapped_ipv4 s =
     (let r = drop 7 s; ws = js_split (CHR ''.'') r in
      if starts_with ''::ffff:'' s \<and> length ws = 4 \<and> list_all (\<lambda>w. w \<noteq> [] \<and> list_all is_digit w) ws
      then Some r else None)"

definition checkIpv6 :: "string \<Rightarrow> url_check" where
  "checkIpv6 address =
     (let n = js_toLowerCase address in
      if n = ''::1'' then Rejected ''Loopback address (::1)''
      else if starts_with ''fe80:'' n \<or> starts_with ''fe8'' n \<or> starts_with ''fe9'' n \<or>
              starts_with ''fea'' n \<or> starts_with ''feb'' n
        then Rejected ''Link-local address (fe80::/10)''
      else if starts_with ''fc'' n \<or> starts_with ''fd'' n
        then Rejected ''Unique local address (fc00::/7)''
      else case mapped_ipv4 n of Some v4 \<Rightarrow> checkIpv4 v4 | None \<Rightarrow> Allowed)"

definition checkAddress :: "string \<Rightarrow> url_check" where
  "checkAddress address = (if isIP address = 4 then checkIpv4 address else checkIpv6 address)"

record js_url =
  u_protocol :: string
  u_hostname :: string
  u_port :: string
  u_pathname :: string
  u_search :: string

fun first_rejected :: "string list \<Rightarrow> url_check" where
  "first_rejected [] = Allowed"
| "first_rejected (a # r) = (case checkAddress a of Rejected m \<Rightarrow> Rejected m | Allowed \<Rightarrow> first_rejected r)"

definition validateEndpointUrl ::
    "(string \<Rightarrow> js_url option) \<Rightarrow> (string \<Rightarrow> string list option) \<Rightarrow> string \<Rightarrow> url_check" where
  "validateEndpointUrl parse_url lookup rawUrl =
     (case parse_url rawUrl of
        None \<Rightarrow> Rejected ''Not a valid URL''
      | Some parsed \<Rightarrow>
          if u_protocol parsed \<noteq> ''http:'' \<and> u_protocol parsed \<noteq> ''https:''
          then Rejected ''URL must use http or https''
          else if isIP (u_hostname parsed) \<noteq> 0 then checkAddress (u_hostname parsed)
          else case lookup (u_hostname parsed) of
                 None \<Rightarrow> Rejected ''Could not resolve hostname''
               | Some resolved \<Rightarrow> first_rejected resolved)"

section \<open>The CIDR ranges\<close>

text \<open>The 32-bit value of a dotted quad, and membership in a network of a prefix length.\<close>

definition ipv4_word :: "string \<Rightarrow> 32 word" where
  "ipv4_word s = of_nat (foldl (\<lambda>a w. a * 256 + nat_of_digits w) 0 (js_split (CHR ''.'') s))"

definition in_network :: "32 word \<Rightarrow> 32 word \<times> nat \<Rightarrow> bool" where
  "in_network x n \<longleftrightarrow> drop_bit (32 - snd n) x = drop_bit (32 - snd n) (fst n)"

definition denied_networks :: "(32 word \<times> nat) list" where
  "denied_networks =
     [(0x7F000000, 8), (0x0A000000, 8), (0xAC100000, 12), (0xC0A80000, 16), (0xA9FE0000, 16),
      (0, 8), (0x64400000, 10)]"

lemma first_rejected_Allowed: "first_rejected xs = Allowed \<longleftrightarrow> (\<forall>a\<in>set xs. checkAddress a = Allowed)"
  by (induction xs) (auto split: url_check.splits)

lemma quad_cases:
  assumes "isIPv4 s"
  obtains a b c d where "js_split (CHR ''.'') s = [a, b, c, d]" "v4_octet a" "v4_octet b" "v4_octet c" "v4_octet d"
proof -
  from assms have "length (js_split (CHR ''.'') s) = 4" "list_all v4_octet (js_split (CHR ''.'') s)"
    by (simp_all add: isIPv4_def Let_def)
  then show thesis
    by (auto simp: length_Suc_conv numeral_eq_Suc intro: that)
qed

lemma octet_number:
  assumes "v4_octet w"
  shows "js_Number w = Fin (of_nat (nat_of_digits w))" "nat_of_digits w < 256"
proof -
  have "(256::rat) \<le> 2 ^ 1024 - 2 ^ 970" by (simp add: le_diff_eq) 
  with assms show "js_Number w = Fin (of_nat (nat_of_digits w))"
    by (intro js_Number_digits) (auto simp: v4_octet_def list_all_iff js_overflow_def)
  show "nat_of_digits w < 256" using assms by (simp add: v4_octet_def)
qed

lemma quad_div:
  assumes "a < 256" "b < 256" "c < 256" "d < (256::nat)"
  shows "(((a * 256 + b) * 256 + c) * 256 + d) div 16777216 = a"
    "(((a * 256 + b) * 256 + c) * 256 + d) div 1048576 = a * 16 + b div 16"
    "(((a * 256 + b) * 256 + c) * 256 + d) div 65536 = a * 256 + b"
    "(((a * 256 + b) * 256 + c) * 256 + d) div 4194304 = a * 4 + b div 64"
proof -
  obtain p r where b: "b = 16 * p + r" "r < 16" "b div 16 = p"
    by (metis mod_less_divisor mult_div_mod_eq zero_less_numeral)
  obtain p' r' where b': "b = 64 * p' + r'" "r' < 64" "b div 64 = p'"
    by (metis mod_less_divisor mult_div_mod_eq zero_less_numeral)
  show "(((a * 256 + b) * 256 + c) * 256 + d) div 16777216 = a"
    by (rule div_nat_eqI; use assms in \<open>simp add: algebra_simps\<close>)
  show "(((a * 256 + b) * 256 + c) * 256 + d) div 65536 = a * 256 + b"
    by (rule div_nat_eqI; use assms in \<open>simp add: algebra_simps\<close>)
  show "(((a * 256 + b) * 256 + c) * 256 + d) div 1048576 = a * 16 + b div 16"
    unfolding b(3) by (rule div_nat_eqI; use assms b in \<open>simp add: algebra_simps\<close>)
  show "(((a * 256 + b) * 256 + c) * 256 + d) div 4194304 = a * 4 + b div 64"
    unfolding b'(3) by (rule div_nat_eqI; use assms b' in \<open>simp add: algebra_simps\<close>)
qed

lemma in_network_unat:
  assumes "n < 2 ^ 32" "m < 2 ^ 32"
  shows "in_network (of_nat n) (of_nat m, k) \<longleftrightarrow> n div 2 ^ (32 - k) = m div 2 ^ (32 - k)"
proof -
  have "unat (drop_bit j (of_nat i :: 32 word)) = i div 2 ^ j" if "i < 2 ^ 32" for i j :: nat
  proof -
    have "unat (of_nat i :: 32 word) = i" using that by (simp add: unat_of_nat take_bit_nat_eq_self)
    then show ?thesis by (simp only: unat_drop_bit_eq) (simp only: drop_bit_eq_div)
  qed
  with assms show ?thesis by (simp add: in_network_def word_unat_eq_iff)
qed

lemma checkIpv4_cases:
  assumes "map js_Number (js_split (CHR ''.'') s) = [Fin (of_nat a), Fin (of_nat b), x, y]"
  shows "checkIpv4 s = Allowed \<longleftrightarrow>
    \<not> (a = 127 \<or> a = 10 \<or> (a = 172 \<and> 16 \<le> b \<and> b \<le> 31) \<or> (a = 192 \<and> b = 168) \<or>
       (a = 169 \<and> b = 254) \<or> a = 0 \<or> (a = 100 \<and> 64 \<le> b \<and> b \<le> (127::nat)))"
proof -
  have eq: "(of_nat n :: rat) = numeral k \<longleftrightarrow> n = numeral k" for n k
    by (metis of_nat_eq_iff of_nat_numeral)
  have le: "(numeral k \<le> (of_nat n :: rat)) = (numeral k \<le> n)" "((of_nat n :: rat) \<le> numeral k) = (n \<le> numeral k)" for n k
    by (metis of_nat_le_iff of_nat_numeral)+
  show ?thesis
    unfolding checkIpv4_def assms Let_def by (auto simp: octet_at_def num_is_def num_ge_def num_le_def eq le)
qed

lemma positional_eq: "p < k \<Longrightarrow> q < k \<Longrightarrow> a * k + p = c * k + q \<longleftrightarrow> a = c \<and> p = (q::nat)"
  by (metis high_low)

lemma range_sums:
  assumes "b < (256::nat)"
  shows "a * 16 + b div 16 = 2753 \<longleftrightarrow> a = 172 \<and> 16 \<le> b \<and> b \<le> 31"
    "a * 256 + b = 49320 \<longleftrightarrow> a = 192 \<and> b = 168" "a * 256 + b = 43518 \<longleftrightarrow> a = 169 \<and> b = 254"
    "a * 4 + b div 64 = 401 \<longleftrightarrow> a = 100 \<and> 64 \<le> b \<and> b \<le> 127"
proof -
  have "b div 16 < 16" "b div 64 < 4" using assms by simp_all
  moreover have "b div 16 = 1 \<longleftrightarrow> 16 \<le> b \<and> b \<le> 31" "b div 64 = 1 \<longleftrightarrow> 64 \<le> b \<and> b \<le> 127" by arith+
  ultimately show "a * 16 + b div 16 = 2753 \<longleftrightarrow> a = 172 \<and> 16 \<le> b \<and> b \<le> 31"
    "a * 256 + b = 49320 \<longleftrightarrow> a = 192 \<and> b = 168" "a * 256 + b = 43518 \<longleftrightarrow> a = 169 \<and> b = 254"
    "a * 4 + b div 64 = 401 \<longleftrightarrow> a = 100 \<and> 64 \<le> b \<and> b \<le> 127"
    using assms positional_eq [of "b div 16" 16 1 a 172] positional_eq [of b 256 168 a 192]
      positional_eq [of b 256 254 a 169] positional_eq [of "b div 64" 4 1 a 100] by simp_all
qed

lemma denied_ranges:
  assumes "a < 256" "b < 256" "c < 256" "d < (256::nat)"
  shows "list_ex (in_network (of_nat (((a * 256 + b) * 256 + c) * 256 + d))) denied_networks \<longleftrightarrow>
    (a = 127 \<or> a = 10 \<or> (a = 172 \<and> 16 \<le> b \<and> b \<le> 31) \<or> (a = 192 \<and> b = 168) \<or>
       (a = 169 \<and> b = 254) \<or> a = 0 \<or> (a = 100 \<and> 64 \<le> b \<and> b \<le> 127))"
proof -
  define n where "n = ((a * 256 + b) * 256 + c) * 256 + d"
  have n: "n < 2 ^ 32" using assms by (simp add: n_def)
  have net: "in_network (of_nat n) (numeral m, k) \<longleftrightarrow> n div 2 ^ (32 - k) = numeral m div 2 ^ (32 - k)"
    if "(numeral m :: nat) < 2 ^ 32" for m k
    using in_network_unat [OF n that, of k] by simp
  have net0: "in_network (of_nat n) (0, k) \<longleftrightarrow> n div 2 ^ (32 - k) = 0" for k
    using in_network_unat [OF n, of 0 k] by simp
  have "list_ex (in_network (of_nat n)) denied_networks \<longleftrightarrow>
      n div 16777216 = 127 \<or> n div 16777216 = 10 \<or> n div 1048576 = 2753 \<or> n div 65536 = 49320 \<or>
      n div 65536 = 43518 \<or> n div 16777216 = 0 \<or> n div 4194304 = 401"
    by (simp add: denied_networks_def net net0)
  also have "\<dots> \<longleftrightarrow> (a = 127 \<or> a = 10 \<or> (a = 172 \<and> 16 \<le> b \<and> b \<le> 31) \<or> (a = 192 \<and> b = 168) \<or>
       (a = 169 \<and> b = 254) \<or> a = 0 \<or> (a = 100 \<and> 64 \<le> b \<and> b \<le> 127))"
    unfolding n_def quad_div [OF assms] range_sums [OF assms(2)] ..
  finally show ?thesis unfolding n_def .
qed

lemma checkIpv4_networks:
  assumes "isIPv4 s"
  shows "checkIpv4 s = Allowed \<longleftrightarrow> \<not> list_ex (in_network (ipv4_word s)) denied_networks"
proof -
  obtain a b c d where q: "js_split (CHR ''.'') s = [a, b, c, d]"
    and o: "v4_octet a" "v4_octet b" "v4_octet c" "v4_octet d" by (rule quad_cases [OF assms])
  have w: "ipv4_word s = of_nat (((nat_of_digits a * 256 + nat_of_digits b) * 256 + nat_of_digits c) * 256 + nat_of_digits d)"
    unfolding ipv4_word_def q by (simp only: foldl.simps mult_0 add_0)
  have "map js_Number (js_split (CHR ''.'') s) =
      [Fin (of_nat (nat_of_digits a)), Fin (of_nat (nat_of_digits b)), Fin (of_nat (nat_of_digits c)),
       Fin (of_nat (nat_of_digits d))]"
    by (simp add: q octet_number o)
  from checkIpv4_cases [OF this] denied_ranges [OF octet_number(2) [OF o(1)] octet_number(2) [OF o(2)]
      octet_number(2) [OF o(3)] octet_number(2) [OF o(4)]]
  show ?thesis unfolding w by simp
qed

text \<open>The same verdict on the values of the first two octets, for evaluation.\<close>

lemma checkIpv4_eval:
  assumes "isIPv4 s"
  shows "checkIpv4 s = Allowed \<longleftrightarrow>
    (case map nat_of_digits (js_split (CHR ''.'') s) of
       a # b # _ \<Rightarrow> a \<notin> {0, 10, 127} \<and> \<not> (a = 172 \<and> 16 \<le> b \<and> b \<le> 31) \<and> \<not> (a = 192 \<and> b = 168) \<and>
         \<not> (a = 169 \<and> b = 254) \<and> \<not> (a = 100 \<and> 64 \<le> b \<and> b \<le> 127)
     | _ \<Rightarrow> False)"
proof -
  obtain a b c d where q: "js_split (CHR ''.'') s = [a, b, c, d]"
    and o: "v4_octet a" "v4_octet b" "v4_octet c" "v4_octet d" by (rule quad_cases [OF assms])
  have "map js_Number (js_split (CHR ''.'') s) =
      [Fin (of_nat (nat_of_digits a)), Fin (of_nat (nat_of_digits b)), Fin (of_nat (nat_of_digits c)),
       Fin (of_nat (nat_of_digits d))]"
    by (simp add: q octet_number o)
  from checkIpv4_cases [OF this] show ?thesis by (auto simp: q)
qed

section \<open>IPv4-mapped addresses\<close>

lemma lower_fixed: "\<forall>c\<in>set s. is_digit c \<or> c \<in> {CHR ''.'', CHR '':'', CHR ''f''} \<Longrightarrow> js_toLowerCase s = s"
  unfolding js_toLowerCase_def by (rule map_idI) (auto simp: lower_char_def is_digit_def)

lemma quad_chars:
  assumes "isIPv4 s" "x \<in> set s"
  shows "is_digit x \<or> x = CHR ''.''"
proof -
  have split: "x \<in> set s \<Longrightarrow> x = sep \<or> (\<exists>w\<in>set (js_split sep s). x \<in> set w)" for sep
    by (induction s) (auto split: list.splits)
  from assms(1) have "\<forall>w\<in>set (js_split (CHR ''.'') s). \<forall>c\<in>set w. is_digit c"
    by (auto simp: isIPv4_def v4_octet_def list_all_iff Let_def)
  with split [OF assms(2), of "CHR ''.''"] show ?thesis by blast
qed

lemma checkIpv6_mapped:
  assumes "isIPv4 s"
  shows "checkIpv6 (''::ffff:'' @ s) = checkIpv4 s"
proof -
  have low: "js_toLowerCase (''::ffff:'' @ s) = ''::ffff:'' @ s"
    by (rule lower_fixed) (use quad_chars [OF assms] in auto)
  have "mapped_ipv4 (''::ffff:'' @ s) = Some s"
    using assms by (simp add: mapped_ipv4_def starts_with_def isIPv4_def v4_octet_def list_all_iff Let_def)
  then show ?thesis
    unfolding checkIpv6_def low Let_def by (simp add: starts_with_def)
qed

lemma mapped_not_v4: "isIPv4 s \<Longrightarrow> \<not> isIPv4 (''::ffff:'' @ s)"
  using quad_chars [of "''::ffff:'' @ s" "CHR '':''"] by (auto simp: is_digit_def)

section \<open>Properties\<close>

text \<open>
  C31. The IPv4 denylist is exactly the CIDR list its messages announce: a dotted quad is allowed
  iff its 32-bit value lies in none of the seven networks.
\<close>

theorem checkAddress_cidr:
  assumes "isIPv4 s"
  shows "checkAddress s = Allowed \<longleftrightarrow> \<not> list_ex (in_network (ipv4_word s)) denied_networks"
  using checkIpv4_networks [OF assms] assms by (simp add: checkAddress_def isIP_def)

theorem checkAddress_cidr_witness:
  "checkAddress ''100.64.0.1'' = Allowed \<longleftrightarrow>
     \<not> list_ex (in_network (ipv4_word ''100.64.0.1'')) denied_networks"
  by (rule checkAddress_cidr) code_simp

text \<open>
  An IPv4-mapped IPv6 address in dotted form gets exactly the verdict of the IPv4 address it
  embeds.
\<close>

theorem mapped_address_checked:
  assumes "isIPv4 s"
  shows "checkAddress (''::ffff:'' @ s) = checkAddress s"
  using checkIpv6_mapped [OF assms] mapped_not_v4 [OF assms] assms by (simp add: checkAddress_def isIP_def)

theorem mapped_address_checked_witness:
  "checkAddress (''::ffff:'' @ ''10.1.2.3'') = checkAddress ''10.1.2.3''"
  by (rule mapped_address_checked) code_simp

text \<open>
  A URL accepted at registration uses http or https, and every address its host stands for at
  that moment, the literal itself or each answer of the lookup, passed the denylist.
\<close>

theorem registration_checks_every_address:
  assumes "validateEndpointUrl parse_url lookup raw = Allowed"
  shows "\<exists>u. parse_url raw = Some u \<and> u_protocol u \<in> {''http:'', ''https:''} \<and>
    (if isIP (u_hostname u) \<noteq> 0 then checkAddress (u_hostname u) = Allowed
     else \<exists>xs. lookup (u_hostname u) = Some xs \<and> list_all (\<lambda>a. checkAddress a = Allowed) xs)"
  using assms
  by (auto simp: validateEndpointUrl_def first_rejected_Allowed list_all_iff split: option.splits if_splits)

theorem registration_checks_every_address_witness:
  "\<exists>u. Some \<lparr>u_protocol = ''https:'', u_hostname = ''a.b'', u_port = [], u_pathname = ''/'', u_search = []\<rparr>
      = Some u \<and> u_protocol u \<in> {''http:'', ''https:''} \<and>
    (if isIP (u_hostname u) \<noteq> 0 then checkAddress (u_hostname u) = Allowed
     else \<exists>xs. Some [''93.184.216.34''] = Some xs \<and> list_all (\<lambda>a. checkAddress a = Allowed) xs)"
proof (rule registration_checks_every_address
      [of "\<lambda>_. Some \<lparr>u_protocol = ''https:'', u_hostname = ''a.b'', u_port = [], u_pathname = ''/'', u_search = []\<rparr>"
          "\<lambda>_. Some [''93.184.216.34'']" "''https://a.b/''"])
  have "isIPv4 ''93.184.216.34''" "isIP ''a.b'' = 0" by code_simp+
  moreover from this(1) have "checkIpv4 ''93.184.216.34'' = Allowed"
    by (subst checkIpv4_eval) (assumption, code_simp)
  ultimately show "validateEndpointUrl
      (\<lambda>_. Some \<lparr>u_protocol = ''https:'', u_hostname = ''a.b'', u_port = [], u_pathname = ''/'', u_search = []\<rparr>)
      (\<lambda>_. Some [''93.184.216.34'']) ''https://a.b/'' = Allowed"
    by (simp add: validateEndpointUrl_def checkAddress_def isIP_def)
qed

text \<open>
  The IPv6 half of the list is not as complete: the unspecified address is denied as
  \<^verbatim>\<open>0.0.0.0\<close> but allowed as \<^verbatim>\<open>::\<close>, and the loopback address embedded in hexadecimal form is allowed.
\<close>

theorem unspecified_ipv6_allowed:
  "isIP ''::'' = 6 \<and> checkAddress ''::'' = Allowed \<and> checkAddress ''0.0.0.0'' \<noteq> Allowed \<and>
   isIP ''::ffff:7f00:1'' = 6 \<and> checkAddress ''::ffff:7f00:1'' = Allowed \<and>
   checkAddress ''::ffff:127.0.0.1'' \<noteq> Allowed"
proof -
  have v4: "isIPv4 ''0.0.0.0''" "isIPv4 ''127.0.0.1''" by code_simp+
  have "checkIpv4 ''0.0.0.0'' \<noteq> Allowed" "checkIpv4 ''127.0.0.1'' \<noteq> Allowed"
    by (subst checkIpv4_eval, (rule v4)?, code_simp)+
  moreover have "isIP ''::'' = 6" "isIP ''::ffff:7f00:1'' = 6" by code_simp+
  moreover from this have "checkAddress ''::'' = Allowed" "checkAddress ''::ffff:7f00:1'' = Allowed"
    unfolding checkAddress_def by (simp, code_simp)+
  ultimately show ?thesis
    using v4 checkIpv6_mapped [OF v4(2)] mapped_not_v4 [OF v4(2)] by (simp add: checkAddress_def isIP_def)
qed

end
