(* ===== verification/Api_Common.thy ===== *)
theory Api_Common
  imports Delivery_Facts Pagination Url_Validation
begin

text \<open>
  What the route handlers share.  A handler takes the request and the database and yields the
  response or the exception it throws (\<^verbatim>\<open>asyncHandler\<close> forwards it to the error middleware, which
  answers 500), with the new database.  A response body is a typed value: the object the handler
  passes to \<^verbatim>\<open>res.json\<close>, timestamps as the milliseconds \<^verbatim>\<open>toISOString\<close> prints.

  \<open>api_env\<close> holds what is not under \<^verbatim>\<open>src/\<close>: PostgreSQL's input functions for the types of the
  parameters (None is the error of a malformed literal) and its UUID output, zod's datetime check and
  messages, the \<^verbatim>\<open>Date\<close> constructor on a string, the URL parser, the DNS lookup, \<^verbatim>\<open>node:crypto\<close>, and the
  process environment.
\<close>

datatype thrown =
    Bad_uuid
  | Bad_timestamp
  | Bad_text
  | Bad_jsonb
  | Bad_bigint
  | Bad_config config_error
  | Bad_body

record api_env =
  uuid_in :: "string \<Rightarrow> uuid option"
  uuid_out :: "uuid \<Rightarrow> string"
  ts_in :: "string \<Rightarrow> ts option"
  jsonb_in :: "string \<Rightarrow> json option"
  zod_datetime :: "string \<Rightarrow> bool"
  zod_message :: "json \<Rightarrow> string"
  js_date :: "string \<Rightarrow> js_ms option"
  url_of :: "string \<Rightarrow> js_url option"
  dns :: "string \<Rightarrow> string list option"
  crypt :: crypto
  env_vars :: env

section \<open>Response bodies\<close>

record endpoint_view =
  v_id :: uuid
  v_url :: string
  v_event_types :: "string list"
  v_status :: endpoint_status
  v_created_at :: js_ms

record health_view = endpoint_view +
  v_queue_depth :: nat
  v_oldest_pending_at :: "js_ms option"
  v_recent_success_rate :: "rat option"

record delivery_summary =
  s_id :: uuid
  s_event_id :: uuid
  s_state :: delivery_state
  s_attempt_count :: nat
  s_next_attempt_at :: js_ms
  s_blocked_on_delivery_id :: "uuid option"

record attempt_view =
  t_attempt_number :: nat
  t_sent_at :: "js_ms option"
  t_response_status :: "int option"
  t_response_body_truncated :: "string option"
  t_duration_ms :: "int option"
  t_error_class :: "attempt_error_class option"

record response_view =
  l_response_status :: "int option"
  l_response_body_truncated :: "string option"
  l_duration_ms :: "int option"
  l_error_class :: "attempt_error_class option"

record event_view =
  w_id :: uuid
  w_type :: string
  w_payload :: json
  w_status :: expansion_status
  w_created_at :: js_ms

record fanout_view =
  f_id :: uuid
  f_endpoint_id :: uuid
  f_state :: delivery_state
  f_attempt_count :: nat
  f_next_attempt_at :: js_ms

datatype reply =
    R_error string string
  | R_ok
  | R_endpoint_created endpoint_view string
  | R_endpoints "health_view list" "string option"
  | R_endpoint_health health_view
  | R_endpoint endpoint_view
  | R_resumed endpoint_view nat "uuid list"
  | R_rotated string js_ms
  | R_queue "delivery_summary list" "string option"
  | R_accepted uuid expansion_status
  | R_events "event_view list" "string option"
  | R_event_detail event_view "fanout_view list"
  | R_delivery_detail delivery_summary uuid "response_view option" "attempt_view list"

type_synonym handler_result = "(thrown + nat \<times> reply) \<times> db"

definition not_found :: "string \<Rightarrow> nat \<times> reply" where
  "not_found what = (404, R_error ''not_found'' (what @ '' not found''))"

definition invalid_request :: "string \<Rightarrow> nat \<times> reply" where
  "invalid_request msg = (400, R_error ''invalid_request'' msg)"

section \<open>Shared queries (lib/deliveryQueries.ts)\<close>

text \<open>\<^verbatim>\<open>HEAD_DELIVERY_SELECT\<close>: the oldest unresolved delivery of the row's endpoint.\<close>

definition head_delivery_id :: "db \<Rightarrow> delivery \<Rightarrow> uuid option" where
  "head_delivery_id s d =
     map_option d_id (head_option (sort_key d_seq
       (filter (\<lambda>h. d_endpoint_id h = d_endpoint_id d \<and> unresolved h) (deliveries s))))"

definition computeBlockedOnDeliveryId :: "delivery \<Rightarrow> uuid option \<Rightarrow> uuid option" where
  "computeBlockedOnDeliveryId d head = (if d_state d = Pending \<and> head \<noteq> Some (d_id d) then head else None)"

definition serializeDeliverySummary :: "delivery \<Rightarrow> uuid option \<Rightarrow> delivery_summary" where
  "serializeDeliverySummary d head =
     \<lparr>s_id = d_id d, s_event_id = d_event_id d, s_state = d_state d, s_attempt_count = d_attempt_count d,
      s_next_attempt_at = js_of_ts (d_next_attempt_at d),
      s_blocked_on_delivery_id = computeBlockedOnDeliveryId d head\<rparr>"

section \<open>Cursor clauses\<close>

text \<open>\<^verbatim>\<open>typeof req.query.x === "string" ? decode(req.query.x) : null\<close>\<close>

definition cursor_param :: "(string \<Rightarrow> 'c option) \<Rightarrow> query_value \<Rightarrow> 'c option" where
  "cursor_param dec q = (case q of Q_string raw \<Rightarrow> dec raw | _ \<Rightarrow> None)"

text \<open>\<^verbatim>\<open>AND (created_at, id) < ($n, $m)\<close>: the bound of the clause, or the error of its parameters.\<close>

definition before_bound :: "api_env \<Rightarrow> cursor option \<Rightarrow> thrown + (ts \<times> uuid) option" where
  "before_bound E c =
     (case c of
        None \<Rightarrow> Inr None
      | Some k \<Rightarrow>
          (case (ts_in E (cu_createdAt k), uuid_in E (cu_id k)) of
             (None, _) \<Rightarrow> Inl Bad_timestamp
           | (_, None) \<Rightarrow> Inl Bad_uuid
           | (Some t, Some i) \<Rightarrow> Inr (Some (t, i))))"

definition before :: "(ts \<times> uuid) option \<Rightarrow> ts \<times> uuid \<Rightarrow> bool" where
  "before b k \<longleftrightarrow> (case b of None \<Rightarrow> True | Some c \<Rightarrow> k < c)"

text \<open>\<^verbatim>\<open>ORDER BY created_at DESC, id DESC\<close>\<close>

definition newest_first :: "('r \<Rightarrow> ts \<times> uuid) \<Rightarrow> 'r list \<Rightarrow> 'r list" where
  "newest_first key rows = rev (sort_key key rows)"

definition created_cursor :: "api_env \<Rightarrow> ts \<times> uuid \<Rightarrow> string" where
  "created_cursor E k = encodeCursor \<lparr>cu_createdAt = toISOString (js_of_ts (fst k)), cu_id = uuid_out E (snd k)\<rparr>"

text \<open>
  What the routes rely on: PostgreSQL reads back the UUIDs it prints and the ISO text of the given
  points in time.
\<close>

definition pg_reads_back :: "api_env \<Rightarrow> js_ms set \<Rightarrow> bool" where
  "pg_reads_back E M \<longleftrightarrow> (\<forall>u. uuid_in E (uuid_out E u) = Some u) \<and>
     (\<forall>m\<in>M. ts_in E (toISOString m) = Some (ts_of_js m))"

section \<open>Lemmas\<close>

text \<open>Adding an error branch to a lookup.\<close>

definition with_uuid :: "api_env \<Rightarrow> string \<Rightarrow> db \<Rightarrow> (uuid \<Rightarrow> handler_result) \<Rightarrow> handler_result" where
  "with_uuid E raw s k = (case uuid_in E raw of None \<Rightarrow> (Inl Bad_uuid, s) | Some u \<Rightarrow> k u)"

definition owned_endpoint :: "uuid \<Rightarrow> uuid \<Rightarrow> db \<Rightarrow> endpoint option" where
  "owned_endpoint tid eid s =
     head_option (filter (\<lambda>e. ep_id e = eid \<and> ep_tenant_id e = tid) (endpoints s))"

lemma owned_endpoint_Some:
  "owned_endpoint tid eid s = Some e \<Longrightarrow> e \<in> set (endpoints s) \<and> ep_id e = eid \<and> ep_tenant_id e = tid"
  by (auto simp: owned_endpoint_def dest: head_option_in)

lemma before_bound_created:
  assumes "pg_reads_back E M" "js_of_ts t \<in> M"
  shows "before_bound E (decodeCursor (created_cursor E (t, u))) = Inr (Some (ts_of_js (js_of_ts t), u))"
  using assms by (simp add: before_bound_def created_cursor_def decode_encode_cursor pg_reads_back_def)

lemma newest_first_suffix:
  assumes "distinct (map key rows)" "newest_first key rows = xs @ r # ys"
  shows "newest_first key (filter (\<lambda>q. key q < key r) rows) = ys"
proof -
  have srt: "sort_key key rows = rev ys @ r # rev xs"
    using assms(2) by (simp add: newest_first_def rev_eq_append_conv rev_swap)
  have "sorted_wrt (<) (map key (sort_key key rows))"
    using assms(1) by (simp add: strict_sorted_iff distinct_map)
  then have "\<forall>q\<in>set ys. key q < key r" "\<forall>q\<in>set xs. \<not> key q < key r"
    unfolding srt by (auto simp: sorted_wrt_append dest: less_asym)
  then have "filter (\<lambda>q. key q < key r) (sort_key key rows) = rev ys"
    unfolding srt by (auto simp: filter_empty_conv filter_id_conv)
  then show ?thesis by (simp add: newest_first_def filter_sort)
qed

end
