(* ===== verification/Api_Endpoints.thy ===== *)
theory Api_Endpoints
  imports Api_Common
begin

text \<open>
  \<^verbatim>\<open>node/src/routes/endpoints.ts\<close>, one definition per route: registration, the two reads with their
  health columns, pause, resume with its disclosure, secret rotation and the queue view.  A route that
  runs several statements is given one \<open>now\<close> per statement that reads the clock.
\<close>

section \<open>Serialisers and the health columns\<close>

definition serializeEndpoint :: "endpoint \<Rightarrow> endpoint_view" where
  "serializeEndpoint e =
     \<lparr>v_id = ep_id e, v_url = ep_url e, v_event_types = ep_event_types e, v_status = ep_status e,
      v_created_at = js_of_ts (ep_created_at e)\<rparr>"

definition queue_depth :: "uuid \<Rightarrow> db \<Rightarrow> nat" where
  "queue_depth eid s = length (filter (\<lambda>d. d_endpoint_id d = eid \<and> unresolved d) (deliveries s))"

definition oldest_pending_at :: "uuid \<Rightarrow> db \<Rightarrow> ts option" where
  "oldest_pending_at eid s =
     sql_min (map d_created_at (filter (\<lambda>d. d_endpoint_id d = eid \<and> unresolved d) (deliveries s)))"

definition recent_terminal :: "uuid \<Rightarrow> db \<Rightarrow> delivery list" where
  "recent_terminal eid s =
     take 50 (sort_key (\<lambda>d. - d_created_at d)
       (filter (\<lambda>d. d_endpoint_id d = eid \<and> (d_state d = Succeeded \<or> d_state d = Failed)) (deliveries s)))"

definition recent_success_rate :: "uuid \<Rightarrow> db \<Rightarrow> rat option" where
  "recent_success_rate eid s =
     (let rows = recent_terminal eid s in
      if rows = [] then None
      else Some (of_nat (length (filter (\<lambda>d. d_state d = Succeeded) rows)) / of_nat (length rows)))"

definition serializeEndpointWithHealth :: "db \<Rightarrow> endpoint \<Rightarrow> health_view" where
  "serializeEndpointWithHealth s e =
     endpoint_view.extend (serializeEndpoint e)
       \<lparr>v_queue_depth = queue_depth (ep_id e) s,
        v_oldest_pending_at = map_option js_of_ts (oldest_pending_at (ep_id e) s),
        v_recent_success_rate = recent_success_rate (ep_id e) s\<rparr>"

section \<open>POST /endpoints\<close>

text \<open>\<^verbatim>\<open>z.array(z.string().min(1))\<close> on the elements.\<close>

fun nonempty_strings :: "json list \<Rightarrow> string list option" where
  "nonempty_strings [] = Some []"
| "nonempty_strings (j # js) =
     (case j of
        JStr s \<Rightarrow> if s = [] then None else map_option ((#) s) (nonempty_strings js)
      | _ \<Rightarrow> None)"

definition registerSchema :: "json \<Rightarrow> (string \<times> string list) option" where
  "registerSchema body =
     (case (get_prop ''url'' body, get_prop ''event_types'' body) of
        (Some (JStr url), Some (JArr types)) \<Rightarrow>
          if url = [] \<or> types = [] then None else map_option (Pair url) (nonempty_strings types)
      | _ \<Rightarrow> None)"

definition insert_endpoint :: "ts \<Rightarrow> uuid \<Rightarrow> string \<Rightarrow> string list \<Rightarrow> string \<Rightarrow> db \<Rightarrow> endpoint \<times> db" where
  "insert_endpoint now tid url types secret s =
     (let (i, s1) = gen_random_uuid s;
          row = \<lparr>ep_id = i, ep_tenant_id = tid, ep_url = url, ep_event_types = types, ep_status = Active,
                 ep_signing_secret = secret, ep_secondary_secret = None,
                 ep_secondary_secret_expires_at = None, ep_busy = False, ep_busy_since = None,
                 ep_lease_id = None, ep_created_at = now\<rparr>
      in (row, s1\<lparr>endpoints := endpoints s1 @ [row]\<rparr>))"

text \<open>\<open>rnd\<close> and \<open>iv\<close> are the random bytes of \<^verbatim>\<open>generateSecret\<close> and \<^verbatim>\<open>encryptSecret\<close>.\<close>

definition post_endpoint ::
    "api_env \<Rightarrow> ts \<Rightarrow> bytes \<Rightarrow> bytes \<Rightarrow> uuid \<Rightarrow> json \<Rightarrow> db \<Rightarrow> handler_result" where
  "post_endpoint E now rnd iv tid body s =
     (case registerSchema body of
        None \<Rightarrow> (Inr (invalid_request (zod_message E body)), s)
      | Some (url, types) \<Rightarrow>
          (case validateEndpointUrl (url_of E) (dns E) url of
             Rejected reason \<Rightarrow> (Inr (400, R_error ''url_not_allowed'' reason), s)
           | Allowed \<Rightarrow>
               (let signingSecret = generateSecret rnd ''whsec'' in
                case keyBuffer (env_vars E) of
                  Inl e \<Rightarrow> (Inl (Bad_config e), s)
                | Inr key \<Rightarrow>
                    if \<not> (pg_text_ok url \<and> list_all pg_text_ok types) then (Inl Bad_text, s)
                    else (let (e, s') = insert_endpoint now tid url types
                                          (encryptSecret (crypt E) key iv signingSecret) s
                          in (Inr (201, R_endpoint_created (serializeEndpoint e) signingSecret), s')))))"

section \<open>GET /endpoints and GET /endpoints/:id\<close>

definition endpoint_key :: "endpoint \<Rightarrow> ts \<times> uuid" where
  "endpoint_key e = (ep_created_at e, ep_id e)"

definition endpoint_rows :: "uuid \<Rightarrow> (ts \<times> uuid) option \<Rightarrow> db \<Rightarrow> endpoint list" where
  "endpoint_rows tid b s =
     newest_first endpoint_key (filter (\<lambda>e. ep_tenant_id e = tid \<and> before b (endpoint_key e)) (endpoints s))"

definition get_endpoints ::
    "api_env \<Rightarrow> uuid \<Rightarrow> query_value \<Rightarrow> query_value \<Rightarrow> db \<Rightarrow> handler_result" where
  "get_endpoints E tid limit_q before_q s =
     (let limit = parseLimit limit_q 20 100 in
      case before_bound E (cursor_param decodeCursor before_q) of
        Inl e \<Rightarrow> (Inl e, s)
      | Inr b \<Rightarrow>
          (let (page, lst) = paginate limit (take (limit + 1) (endpoint_rows tid b s))
           in (Inr (200, R_endpoints (map (serializeEndpointWithHealth s) page)
                 (map_option (\<lambda>e. created_cursor E (endpoint_key e)) lst)), s)))"

definition get_endpoint :: "api_env \<Rightarrow> uuid \<Rightarrow> string \<Rightarrow> db \<Rightarrow> handler_result" where
  "get_endpoint E tid raw s = with_uuid E raw s (\<lambda>eid.
     (case owned_endpoint tid eid s of
        None \<Rightarrow> (Inr (not_found ''Endpoint''), s)
      | Some e \<Rightarrow> (Inr (200, R_endpoint_health (serializeEndpointWithHealth s e)), s)))"

section \<open>Pause, resume, rotate\<close>

definition set_status :: "endpoint_status \<Rightarrow> uuid \<Rightarrow> uuid \<Rightarrow> db \<Rightarrow> db" where
  "set_status st tid eid s =
     s\<lparr>endpoints := update_where (\<lambda>e. ep_id e = eid \<and> ep_tenant_id e = tid)
        (\<lambda>e. e\<lparr>ep_status := st\<rparr>) (endpoints s)\<rparr>"

definition pause_endpoint :: "api_env \<Rightarrow> uuid \<Rightarrow> string \<Rightarrow> db \<Rightarrow> handler_result" where
  "pause_endpoint E tid raw s = with_uuid E raw s (\<lambda>eid.
     (let s' = set_status Paused tid eid s in
      case owned_endpoint tid eid s' of
        None \<Rightarrow> (Inr (not_found ''Endpoint''), s')
      | Some e \<Rightarrow> (Inr (200, R_endpoint (serializeEndpoint e)), s')))"

definition skipped_failed :: "uuid \<Rightarrow> db \<Rightarrow> uuid list" where
  "skipped_failed eid s =
     map d_id (sort_key d_created_at (filter (\<lambda>d. d_endpoint_id d = eid \<and> d_state d = Failed \<and>
       (case oldest_pending_at eid s of None \<Rightarrow> True | Some t \<Rightarrow> d_created_at d < t)) (deliveries s)))"

definition resume_endpoint :: "api_env \<Rightarrow> uuid \<Rightarrow> string \<Rightarrow> db \<Rightarrow> handler_result" where
  "resume_endpoint E tid raw s = with_uuid E raw s (\<lambda>eid.
     (let s' = set_status Active tid eid s in
      case owned_endpoint tid eid s' of
        None \<Rightarrow> (Inr (not_found ''Endpoint''), s')
      | Some e \<Rightarrow>
          (Inr (200, R_resumed (serializeEndpoint e) (queue_depth (ep_id e) s') (skipped_failed (ep_id e) s')), s')))"

definition rotate_row :: "ts \<Rightarrow> string \<Rightarrow> endpoint \<Rightarrow> endpoint" where
  "rotate_row expires stored e =
     e\<lparr>ep_secondary_secret := Some (ep_signing_secret e),
       ep_secondary_secret_expires_at := Some expires, ep_signing_secret := stored\<rparr>"

text \<open>The largest time value a \<^verbatim>\<open>Date\<close> represents.\<close>

definition js_max_date :: int where
  "js_max_date = 8640000000000000"

definition rotate_secret ::
    "api_env \<Rightarrow> js_ms \<Rightarrow> bytes \<Rightarrow> bytes \<Rightarrow> uuid \<Rightarrow> string \<Rightarrow> db \<Rightarrow> handler_result" where
  "rotate_secret E date_now rnd iv tid raw s =
     (let newSecret = generateSecret rnd ''whsec'' in
      case overlapHours (env_vars E) of
        Inl e \<Rightarrow> (Inl (Bad_config e), s)
      | Inr hours \<Rightarrow>
          (let expires = js_Date (of_int date_now + hours * 60 * 60 * 1000) in
           case keyBuffer (env_vars E) of
             Inl e \<Rightarrow> (Inl (Bad_config e), s)
           | Inr key \<Rightarrow>
               if \<bar>expires\<bar> > js_max_date then (Inl Bad_timestamp, s)
               else with_uuid E raw s (\<lambda>eid.
                 (let s' = s\<lparr>endpoints := update_where (\<lambda>e. ep_id e = eid \<and> ep_tenant_id e = tid)
                             (rotate_row (ts_of_js expires) (encryptSecret (crypt E) key iv newSecret))
                             (endpoints s)\<rparr>
                  in case owned_endpoint tid eid s' of
                       None \<Rightarrow> (Inr (not_found ''Endpoint''), s')
                     | Some e \<Rightarrow> (Inr (200, R_rotated newSecret expires), s')))))"

section \<open>GET /endpoints/:id/deliveries\<close>

text \<open>
  \<^verbatim>\<open>d.seq > $n\<close> with a JavaScript number bound to a BIGINT parameter: the driver sends its decimal text,
  which the server reads only if it is an integer in range.
\<close>

definition bigint_param :: "js_num \<Rightarrow> int option" where
  "bigint_param x =
     (case x of Fin q \<Rightarrow> if q = of_int \<lfloor>q\<rfloor> \<and> - (2 ^ 63) \<le> \<lfloor>q\<rfloor> \<and> \<lfloor>q\<rfloor> < 2 ^ 63 then Some \<lfloor>q\<rfloor> else None
      | _ \<Rightarrow> None)"

definition queue_rows :: "uuid \<Rightarrow> int option \<Rightarrow> db \<Rightarrow> delivery list" where
  "queue_rows eid b s =
     sort_key d_seq (filter (\<lambda>d. d_endpoint_id d = eid \<and>
       (case b of None \<Rightarrow> True | Some k \<Rightarrow> k < int (d_seq d))) (deliveries s))"

definition after_bound :: "js_num option \<Rightarrow> thrown + int option" where
  "after_bound c =
     (case c of None \<Rightarrow> Inr None
      | Some x \<Rightarrow> (case bigint_param x of None \<Rightarrow> Inl Bad_bigint | Some k \<Rightarrow> Inr (Some k)))"

definition get_endpoint_deliveries ::
    "api_env \<Rightarrow> uuid \<Rightarrow> string \<Rightarrow> query_value \<Rightarrow> query_value \<Rightarrow> db \<Rightarrow> handler_result" where
  "get_endpoint_deliveries E tid raw limit_q after_q s = with_uuid E raw s (\<lambda>eid.
     (case owned_endpoint tid eid s of
        None \<Rightarrow> (Inr (not_found ''Endpoint''), s)
      | Some _ \<Rightarrow>
          (let limit = parseLimit limit_q 20 100 in
           case after_bound (cursor_param decodeSeqCursor after_q) of
             Inl e \<Rightarrow> (Inl e, s)
           | Inr b \<Rightarrow>
               (let (page, lst) = paginate limit (take (limit + 1) (queue_rows eid b s))
                in (Inr (200, R_queue (map (\<lambda>d. serializeDeliverySummary d (head_delivery_id s d)) page)
                      (map_option (\<lambda>d. encodeSeqCursor (d_seq d)) lst)), s)))))"

end
