(* ===== verification/Api_Events.thy ===== *)
theory Api_Events
  imports Api_Common
begin

text \<open>
  \<^verbatim>\<open>node/src/routes/events.ts\<close> and \<^verbatim>\<open>routes/replays.ts\<close>: the two writes that are idempotent under the
  client's key, and the reads of events.  \<^verbatim>\<open>INSERT .. ON CONFLICT DO NOTHING\<close> evaluates the column
  defaults first, so a conflict still consumes a UUID and, for events, a sequence value.

  The locale \<open>idempotent_insert\<close> is the contract of such a write against a key: it answers the id of
  the first row stored under the key, however often it is repeated.  Both inserts interpret it.
\<close>

section \<open>POST /events\<close>

definition publishSchema :: "json \<Rightarrow> (string \<times> json) option" where
  "publishSchema body =
     (case (get_prop ''type'' body, get_prop ''payload'' body) of
        (Some (JStr ty), Some (JObj ps)) \<Rightarrow> if ty = [] then None else Some (ty, JObj ps)
      | _ \<Rightarrow> None)"

definition find_event :: "uuid \<Rightarrow> string \<Rightarrow> db \<Rightarrow> event option" where
  "find_event tid k s =
     head_option (filter (\<lambda>v. ev_tenant_id v = tid \<and> ev_idempotency_key v = k) (events s))"

definition insert_event ::
    "ts \<Rightarrow> uuid \<Rightarrow> string \<Rightarrow> string \<Rightarrow> json \<Rightarrow> db \<Rightarrow> event option \<times> db" where
  "insert_event now tid k ty payload s =
     (let (i, s1) = gen_random_uuid s;
          s2 = s1\<lparr>ev_next_seq := Suc (ev_next_seq s1)\<rparr>;
          row = \<lparr>ev_id = i, ev_tenant_id = tid, ev_idempotency_key = k, ev_type = ty,
                 ev_payload = payload, ev_status = Pending_expansion, ev_seq = ev_next_seq s1,
                 ev_created_at = now\<rparr>
      in case find_event tid k s of
           Some _ \<Rightarrow> (None, s2)
         | None \<Rightarrow> (Some row, s2\<lparr>events := events s2 @ [row]\<rparr>))"

text \<open>The insert and, when it returned no row, the follow-up SELECT.\<close>

definition publish_event :: "ts \<Rightarrow> uuid \<Rightarrow> string \<Rightarrow> string \<Rightarrow> json \<Rightarrow> db \<Rightarrow> event \<times> db" where
  "publish_event now tid k ty payload s =
     (case insert_event now tid k ty payload s of
        (Some v, s') \<Rightarrow> (v, s')
      | (None, s') \<Rightarrow> (the (find_event tid k s'), s'))"

definition post_event ::
    "api_env \<Rightarrow> ts \<Rightarrow> uuid \<Rightarrow> string option \<Rightarrow> json \<Rightarrow> db \<Rightarrow> handler_result" where
  "post_event E now tid key_header body s =
     (case publishSchema body of
        None \<Rightarrow> (Inr (invalid_request (zod_message E body)), s)
      | Some (ty, payload) \<Rightarrow>
          (case key_header of
             None \<Rightarrow> (Inr (invalid_request ''Idempotency-Key header required''), s)
           | Some k \<Rightarrow>
               if k = [] then (Inr (invalid_request ''Idempotency-Key header required''), s)
               else if \<not> (pg_text_ok k \<and> pg_text_ok ty) then (Inl Bad_text, s)
               else (case jsonb_in E (stringify payload) of
                       None \<Rightarrow> (Inl Bad_jsonb, s)
                     | Some p \<Rightarrow>
                         (let (v, s') = publish_event now tid k ty p s
                          in (Inr (202, R_accepted (ev_id v) (ev_status v)), s')))))"

section \<open>GET /events and GET /events/:id\<close>

definition serializeEvent :: "event \<Rightarrow> event_view" where
  "serializeEvent v =
     \<lparr>w_id = ev_id v, w_type = ev_type v, w_payload = ev_payload v, w_status = ev_status v,
      w_created_at = js_of_ts (ev_created_at v)\<rparr>"

record event_query =
  eq_limit :: query_value
  eq_before :: query_value
  eq_id :: query_value
  eq_type :: query_value
  eq_from :: query_value
  eq_to :: query_value
  eq_endpoint_id :: query_value

text \<open>A filter parameter: absent unless it is a string, converted by the server when present.\<close>

definition filter_param :: "(string \<Rightarrow> thrown + 'a) \<Rightarrow> query_value \<Rightarrow> thrown + 'a option" where
  "filter_param conv q =
     (case q of
        Q_string raw \<Rightarrow> (case conv raw of Inl e \<Rightarrow> Inl e | Inr x \<Rightarrow> Inr (Some x))
      | _ \<Rightarrow> Inr None)"

definition uuid_param :: "api_env \<Rightarrow> string \<Rightarrow> thrown + uuid" where
  "uuid_param E raw = (case uuid_in E raw of None \<Rightarrow> Inl Bad_uuid | Some u \<Rightarrow> Inr u)"

definition ts_param :: "api_env \<Rightarrow> string \<Rightarrow> thrown + ts" where
  "ts_param E raw = (case ts_in E raw of None \<Rightarrow> Inl Bad_timestamp | Some t \<Rightarrow> Inr t)"

definition text_param :: "string \<Rightarrow> thrown + string" where
  "text_param raw = (if pg_text_ok raw then Inr raw else Inl Bad_text)"

definition when_some :: "'a option \<Rightarrow> ('a \<Rightarrow> bool) \<Rightarrow> bool" where
  "when_some x p \<longleftrightarrow> (case x of None \<Rightarrow> True | Some a \<Rightarrow> p a)"

definition event_key :: "event \<Rightarrow> ts \<times> uuid" where
  "event_key v = (ev_created_at v, ev_id v)"

record event_filter =
  ef_id :: "uuid option"
  ef_type :: "string option"
  ef_from :: "ts option"
  ef_to :: "ts option"
  ef_endpoint :: "uuid option"

definition event_matches :: "uuid \<Rightarrow> event_filter \<Rightarrow> db \<Rightarrow> event \<Rightarrow> bool" where
  "event_matches tid f s v \<longleftrightarrow> ev_tenant_id v = tid \<and>
     when_some (ef_id f) (\<lambda>i. ev_id v = i) \<and> when_some (ef_type f) (\<lambda>ty. ev_type v = ty) \<and>
     when_some (ef_from f) (\<lambda>t. t \<le> ev_created_at v) \<and> when_some (ef_to f) (\<lambda>t. ev_created_at v \<le> t) \<and>
     when_some (ef_endpoint f)
       (\<lambda>eid. list_ex (\<lambda>d. d_event_id d = ev_id v \<and> d_endpoint_id d = eid) (deliveries s))"

definition event_rows :: "uuid \<Rightarrow> event_filter \<Rightarrow> (ts \<times> uuid) option \<Rightarrow> db \<Rightarrow> event list" where
  "event_rows tid f b s =
     newest_first event_key (filter (\<lambda>v. event_matches tid f s v \<and> before b (event_key v)) (events s))"

definition event_filter_of :: "api_env \<Rightarrow> event_query \<Rightarrow> thrown + event_filter" where
  "event_filter_of E q =
     try_bind (filter_param (uuid_param E) (eq_id q)) (\<lambda>i.
     try_bind (filter_param text_param (eq_type q)) (\<lambda>ty.
     try_bind (filter_param (ts_param E) (eq_from q)) (\<lambda>f.
     try_bind (filter_param (ts_param E) (eq_to q)) (\<lambda>t.
     try_bind (filter_param (uuid_param E) (eq_endpoint_id q)) (\<lambda>e.
     Inr \<lparr>ef_id = i, ef_type = ty, ef_from = f, ef_to = t, ef_endpoint = e\<rparr>)))))"

definition get_events :: "api_env \<Rightarrow> uuid \<Rightarrow> event_query \<Rightarrow> db \<Rightarrow> handler_result" where
  "get_events E tid q s =
     (let limit = parseLimit (eq_limit q) 20 100;
          bounds = try_bind (event_filter_of E q) (\<lambda>f.
                   try_bind (before_bound E (cursor_param decodeCursor (eq_before q))) (\<lambda>b. Inr (f, b)))
      in case bounds of
           Inl e \<Rightarrow> (Inl e, s)
         | Inr (f, b) \<Rightarrow>
             (let (page, lst) = paginate limit (take (limit + 1) (event_rows tid f b s))
              in (Inr (200, R_events (map serializeEvent page)
                    (map_option (\<lambda>v. created_cursor E (event_key v)) lst)), s)))"

definition fanout_of :: "delivery \<Rightarrow> fanout_view" where
  "fanout_of d = \<lparr>f_id = d_id d, f_endpoint_id = d_endpoint_id d, f_state = d_state d,
     f_attempt_count = d_attempt_count d, f_next_attempt_at = js_of_ts (d_next_attempt_at d)\<rparr>"

definition get_event :: "api_env \<Rightarrow> uuid \<Rightarrow> string \<Rightarrow> db \<Rightarrow> handler_result" where
  "get_event E tid raw s = with_uuid E raw s (\<lambda>vid.
     (case head_option (filter (\<lambda>v. ev_id v = vid \<and> ev_tenant_id v = tid) (events s)) of
        None \<Rightarrow> (Inr (not_found ''Event''), s)
      | Some v \<Rightarrow>
          (Inr (200, R_event_detail (serializeEvent v)
             (map fanout_of (sort_key d_seq (filter (\<lambda>d. d_event_id d = ev_id v) (deliveries s))))), s)))"

section \<open>POST /endpoints/:id/replays\<close>

definition replaySchema :: "api_env \<Rightarrow> json \<Rightarrow> (string \<times> string) option" where
  "replaySchema E body =
     (case (get_prop ''range_start'' body, get_prop ''range_end'' body) of
        (Some (JStr a), Some (JStr b)) \<Rightarrow>
          if zod_datetime E a \<and> zod_datetime E b \<and>
             (case (js_date E a, js_date E b) of (Some x, Some y) \<Rightarrow> x \<le> y | _ \<Rightarrow> False)
          then Some (a, b) else None
      | _ \<Rightarrow> None)"

definition find_replay :: "uuid \<Rightarrow> string \<Rightarrow> db \<Rightarrow> replay option" where
  "find_replay eid k s =
     head_option (filter (\<lambda>r. rp_endpoint_id r = eid \<and> rp_idempotency_key r = k) (replays s))"

definition insert_replay :: "ts \<Rightarrow> uuid \<Rightarrow> string \<Rightarrow> ts \<Rightarrow> ts \<Rightarrow> db \<Rightarrow> replay option \<times> db" where
  "insert_replay now eid k a b s =
     (let (i, s1) = gen_random_uuid s;
          row = \<lparr>rp_id = i, rp_endpoint_id = eid, rp_idempotency_key = k, rp_range_start = a,
                 rp_range_end = b, rp_status = Pending_expansion, rp_created_at = now\<rparr>
      in case find_replay eid k s of
           Some _ \<Rightarrow> (None, s1)
         | None \<Rightarrow> (Some row, s1\<lparr>replays := replays s1 @ [row]\<rparr>))"

definition create_replay :: "ts \<Rightarrow> uuid \<Rightarrow> string \<Rightarrow> ts \<Rightarrow> ts \<Rightarrow> db \<Rightarrow> replay \<times> db" where
  "create_replay now eid k a b s =
     (case insert_replay now eid k a b s of
        (Some r, s') \<Rightarrow> (r, s')
      | (None, s') \<Rightarrow> (the (find_replay eid k s'), s'))"

definition post_replay ::
    "api_env \<Rightarrow> ts \<Rightarrow> uuid \<Rightarrow> string \<Rightarrow> string option \<Rightarrow> json \<Rightarrow> db \<Rightarrow> handler_result" where
  "post_replay E now tid raw key_header body s =
     (case replaySchema E body of
        None \<Rightarrow> (Inr (invalid_request (zod_message E body)), s)
      | Some (a, b) \<Rightarrow>
          (case key_header of
             None \<Rightarrow> (Inr (invalid_request ''Idempotency-Key header required''), s)
           | Some k \<Rightarrow>
               if k = [] then (Inr (invalid_request ''Idempotency-Key header required''), s)
               else with_uuid E raw s (\<lambda>eid.
                 (case owned_endpoint tid eid s of
                    None \<Rightarrow> (Inr (not_found ''Endpoint''), s)
                  | Some _ \<Rightarrow>
                      if \<not> pg_text_ok k then (Inl Bad_text, s)
                      else (case (ts_in E a, ts_in E b) of
                              (Some x, Some y) \<Rightarrow>
                                (let (r, s') = create_replay now eid k x y s
                                 in (Inr (202, R_accepted (rp_id r) (rp_status r)), s'))
                            | _ \<Rightarrow> (Inl Bad_timestamp, s))))))"

section \<open>The inserts in closed form\<close>

lemma find_event_Some:
  "find_event tid k s = Some v \<Longrightarrow> v \<in> set (events s) \<and> ev_tenant_id v = tid \<and> ev_idempotency_key v = k"
  by (auto simp: find_event_def dest: head_option_in)

lemma find_event_None:
  "find_event tid k s = None \<longleftrightarrow> (\<forall>v\<in>set (events s). \<not> (ev_tenant_id v = tid \<and> ev_idempotency_key v = k))"
  by (auto simp: find_event_def filter_empty_conv)

lemma find_replay_Some:
  "find_replay eid k s = Some r \<Longrightarrow> r \<in> set (replays s) \<and> rp_endpoint_id r = eid \<and> rp_idempotency_key r = k"
  by (auto simp: find_replay_def dest: head_option_in)

lemma find_replay_None:
  "find_replay eid k s = None \<longleftrightarrow> (\<forall>r\<in>set (replays s). \<not> (rp_endpoint_id r = eid \<and> rp_idempotency_key r = k))"
  by (auto simp: find_replay_def filter_empty_conv)

definition new_event :: "ts \<Rightarrow> uuid \<Rightarrow> string \<Rightarrow> string \<Rightarrow> json \<Rightarrow> db \<Rightarrow> event" where
  "new_event now tid k ty payload s =
     \<lparr>ev_id = uuid_src s (uuid_draws s), ev_tenant_id = tid, ev_idempotency_key = k, ev_type = ty,
      ev_payload = payload, ev_status = Pending_expansion, ev_seq = ev_next_seq s, ev_created_at = now\<rparr>"

lemma publish_event_eq:
  "publish_event now tid k ty payload s =
     (case find_event tid k s of
        Some v \<Rightarrow> (v, s\<lparr>uuid_draws := Suc (uuid_draws s), ev_next_seq := Suc (ev_next_seq s)\<rparr>)
      | None \<Rightarrow> (new_event now tid k ty payload s,
          s\<lparr>uuid_draws := Suc (uuid_draws s), events := events s @ [new_event now tid k ty payload s],
            ev_next_seq := Suc (ev_next_seq s)\<rparr>))"
  by (simp add: publish_event_def insert_event_def gen_random_uuid_def Let_def new_event_def find_event_def
      split: option.split)

definition new_replay :: "ts \<Rightarrow> uuid \<Rightarrow> string \<Rightarrow> ts \<Rightarrow> ts \<Rightarrow> db \<Rightarrow> replay" where
  "new_replay now eid k a b s =
     \<lparr>rp_id = uuid_src s (uuid_draws s), rp_endpoint_id = eid, rp_idempotency_key = k, rp_range_start = a,
      rp_range_end = b, rp_status = Pending_expansion, rp_created_at = now\<rparr>"

lemma create_replay_eq:
  "create_replay now eid k a b s =
     (case find_replay eid k s of
        Some r \<Rightarrow> (r, s\<lparr>uuid_draws := Suc (uuid_draws s)\<rparr>)
      | None \<Rightarrow> (new_replay now eid k a b s,
          s\<lparr>uuid_draws := Suc (uuid_draws s), replays := replays s @ [new_replay now eid k a b s]\<rparr>))"
  by (simp add: create_replay_def insert_replay_def gen_random_uuid_def Let_def new_replay_def find_replay_def
      split: option.split)

section \<open>Idempotent inserts\<close>

text \<open>
  The contract of a write under a client's key: \<open>stored k s\<close> is the id of the row a key stands for.
\<close>

locale idempotent_insert =
  fixes stored :: "'k \<Rightarrow> 's \<Rightarrow> uuid option"
    and put :: "'k \<Rightarrow> 'p \<Rightarrow> 's \<Rightarrow> uuid \<times> 's"
  assumes put_hit: "stored k s = Some i \<Longrightarrow> fst (put k p s) = i"
    and put_stores: "stored k (snd (put k p s)) = Some (fst (put k p s))"
    and put_keeps: "stored k s = Some i \<Longrightarrow> stored k (snd (put k' p s)) = Some i"
begin

lemma puts_keep:
  "stored k s = Some i \<Longrightarrow> stored k (fold (\<lambda>(k', p) s. snd (put k' p s)) ops s) = Some i"
proof (induction ops arbitrary: s)
  case (Cons op ops)
  obtain k' p where "op = (k', p)" by fastforce
  with Cons put_keeps show ?case by simp
qed simp

lemma same_id:
  "fst (put k p' (fold (\<lambda>(k', p) s. snd (put k' p s)) ops (snd (put k p s)))) = fst (put k p s)"
  by (rule put_hit) (rule puts_keep [OF put_stores])

end

text \<open>The same contract against whatever else happens to the state in between.\<close>

locale persistent_insert = idempotent_insert +
  fixes step :: "'b \<Rightarrow> 'b \<Rightarrow> bool"
  assumes step_keeps: "step s s' \<Longrightarrow> stored k s = Some i \<Longrightarrow> stored k s' = Some i"
begin

lemma run_keeps: "step\<^sup>*\<^sup>* s s' \<Longrightarrow> stored k s = Some i \<Longrightarrow> stored k s' = Some i"
  by (induction rule: rtranclp_induct) (auto intro: step_keeps)

lemma run_same_id: "step\<^sup>*\<^sup>* (snd (put k p s)) s' \<Longrightarrow> fst (put k p' s') = fst (put k p s)"
  by (rule put_hit) (erule run_keeps, rule put_stores)

end

definition publish_put :: "uuid \<times> string \<Rightarrow> ts \<times> string \<times> json \<Rightarrow> db \<Rightarrow> uuid \<times> db" where
  "publish_put key p s =
     map_prod ev_id id (publish_event (fst p) (fst key) (snd key) (fst (snd p)) (snd (snd p)) s)"

definition replay_put :: "uuid \<times> string \<Rightarrow> ts \<times> ts \<times> ts \<Rightarrow> db \<Rightarrow> uuid \<times> db" where
  "replay_put key p s =
     map_prod rp_id id (create_replay (fst p) (fst key) (snd key) (fst (snd p)) (snd (snd p)) s)"

definition event_stored :: "uuid \<times> string \<Rightarrow> db \<Rightarrow> uuid option" where
  "event_stored key s = map_option ev_id (find_event (fst key) (snd key) s)"

definition replay_stored :: "uuid \<times> string \<Rightarrow> db \<Rightarrow> uuid option" where
  "replay_stored key s = map_option rp_id (find_replay (fst key) (snd key) s)"

lemma head_option_append:
  "head_option (xs @ ys) = (case head_option xs of None \<Rightarrow> head_option ys | Some y \<Rightarrow> Some y)"
  by (cases xs) simp_all

interpretation publish: idempotent_insert event_stored publish_put
proof
  fix key s i and p :: "ts \<times> string \<times> json"
  assume "event_stored key s = Some i"
  then show "fst (publish_put key p s) = i"
    by (auto simp: event_stored_def publish_put_def publish_event_eq)
next
  fix key s and p :: "ts \<times> string \<times> json"
  show "event_stored key (snd (publish_put key p s)) = Some (fst (publish_put key p s))"
    by (auto simp: event_stored_def publish_put_def publish_event_eq new_event_def find_event_def head_option_append
        split: option.split)
next
  fix key key' s i and p :: "ts \<times> string \<times> json"
  assume "event_stored key s = Some i"
  then show "event_stored key (snd (publish_put key' p s)) = Some i"
    by (auto simp: event_stored_def publish_put_def publish_event_eq find_event_def head_option_append
        split: option.split)
qed

interpretation replay: idempotent_insert replay_stored replay_put
proof
  fix key s i and p :: "ts \<times> ts \<times> ts"
  assume "replay_stored key s = Some i"
  then show "fst (replay_put key p s) = i"
    by (auto simp: replay_stored_def replay_put_def create_replay_eq)
next
  fix key s and p :: "ts \<times> ts \<times> ts"
  show "replay_stored key (snd (replay_put key p s)) = Some (fst (replay_put key p s))"
    by (auto simp: replay_stored_def replay_put_def create_replay_eq new_replay_def find_replay_def head_option_append
        split: option.split)
next
  fix key key' s i and p :: "ts \<times> ts \<times> ts"
  assume "replay_stored key s = Some i"
  then show "replay_stored key (snd (replay_put key' p s)) = Some i"
    by (auto simp: replay_stored_def replay_put_def create_replay_eq find_replay_def head_option_append
        split: option.split)
qed

end
