(* ===== verification/Api_Deliveries.thy ===== *)
theory Api_Deliveries
  imports Api_Common
begin

text \<open>
  \<^verbatim>\<open>node/src/routes/deliveries.ts\<close>: one delivery with its last six attempts, and what
  \<^verbatim>\<open>lib/deliveryQueries.ts\<close> says about being blocked.
\<close>

section \<open>GET /deliveries/:id\<close>

definition serializeAttempt :: "attempt \<Rightarrow> attempt_view" where
  "serializeAttempt a =
     \<lparr>t_attempt_number = a_attempt_number a, t_sent_at = map_option js_of_ts (a_sent_at a),
      t_response_status = a_response_status a, t_response_body_truncated = a_response_body_truncated a,
      t_duration_ms = a_duration_ms a, t_error_class = a_error_class a\<rparr>"

definition last_response :: "attempt \<Rightarrow> response_view" where
  "last_response a =
     \<lparr>l_response_status = a_response_status a, l_response_body_truncated = a_response_body_truncated a,
      l_duration_ms = a_duration_ms a, l_error_class = a_error_class a\<rparr>"

definition MAX_ATTEMPTS_IN_RESPONSE :: nat where
  "MAX_ATTEMPTS_IN_RESPONSE = 6"

text \<open>\<^verbatim>\<open>ORDER BY attempt_number DESC LIMIT 6\<close>\<close>

definition latest_attempts :: "uuid \<Rightarrow> db \<Rightarrow> attempt list" where
  "latest_attempts did s =
     take MAX_ATTEMPTS_IN_RESPONSE
       (sort_key (\<lambda>a. - int (a_attempt_number a)) (filter (\<lambda>a. a_delivery_id a = did) (attempts s)))"

definition owned_delivery :: "uuid \<Rightarrow> uuid \<Rightarrow> db \<Rightarrow> delivery option" where
  "owned_delivery tid did s =
     head_option (filter (\<lambda>d. d_id d = did \<and>
       list_ex (\<lambda>e. ep_id e = d_endpoint_id d \<and> ep_tenant_id e = tid) (endpoints s)) (deliveries s))"

definition get_delivery :: "api_env \<Rightarrow> uuid \<Rightarrow> string \<Rightarrow> db \<Rightarrow> handler_result" where
  "get_delivery E tid raw s = with_uuid E raw s (\<lambda>did.
     (case owned_delivery tid did s of
        None \<Rightarrow> (Inr (not_found ''Delivery''), s)
      | Some d \<Rightarrow>
          (let latestFirst = latest_attempts (d_id d) s
           in (Inr (200, R_delivery_detail (serializeDeliverySummary d (head_delivery_id s d)) (d_endpoint_id d)
                 (map_option last_response (head_option latestFirst))
                 (map serializeAttempt (rev latestFirst))), s))))"

end
