(* ===== verification/App.thy ===== *)
theory App
  imports Api_Endpoints Api_Events Api_Deliveries
begin

text \<open>
  \<^verbatim>\<open>node/src/app.ts\<close>, \<^verbatim>\<open>auth/middleware.ts\<close>, \<^verbatim>\<open>lib/asyncHandler.ts\<close>: one request through the stack, in
  the order the middleware is registered (CORS preflight, JSON body, health check, authentication,
  the routers, 404, the error handler).  The path is what Express matched: its segments, decoded.
  \<open>rq_body\<close> is what \<^verbatim>\<open>express.json()\<close> leaves in \<^verbatim>\<open>req.body\<close>, None when it rejects the body.
  \<open>req_inputs\<close> gives the request its clock readings and random bytes.
\<close>

record request =
  rq_method :: string
  rq_path :: "string list"
  rq_query :: "string \<Rightarrow> query_value"
  rq_header :: "string \<Rightarrow> string option"
  rq_body :: "json option"

record req_inputs =
  ri_now :: ts
  ri_date_now :: js_ms
  ri_secret :: bytes
  ri_iv :: bytes

section \<open>Authentication\<close>

datatype auth_result = Tenant uuid | Unauthorized string

definition bearer_token :: "string option \<Rightarrow> string option" where
  "bearer_token header =
     (case js_split (CHR '' '') (case header of None \<Rightarrow> [] | Some h \<Rightarrow> h) of
        scheme # token # _ \<Rightarrow> if scheme = ''Bearer'' \<and> token \<noteq> [] then Some token else None
      | _ \<Rightarrow> None)"

definition requireTenant :: "api_env \<Rightarrow> request \<Rightarrow> db \<Rightarrow> auth_result" where
  "requireTenant E r s =
     (case bearer_token (rq_header r ''authorization'') of
        None \<Rightarrow> Unauthorized ''Missing or malformed Authorization header''
      | Some token \<Rightarrow>
          (case filter (\<lambda>t. tn_api_key_hash t = hashApiKey (crypt E) token) (tenants s) of
             [] \<Rightarrow> Unauthorized ''Invalid API key''
           | t # _ \<Rightarrow> Tenant (tn_id t)))"

section \<open>Routing\<close>

datatype route =
    Post_endpoint
  | Get_endpoints
  | Get_endpoint string
  | Pause_endpoint string
  | Resume_endpoint string
  | Rotate_secret string
  | Get_queue string
  | Post_event
  | Get_events
  | Get_event string
  | Post_replay string
  | Get_delivery string

text \<open>Express answers HEAD with the GET route.\<close>

definition is_get :: "string \<Rightarrow> bool" where
  "is_get m \<longleftrightarrow> m = ''GET'' \<or> m = ''HEAD''"

definition route_of :: "string \<Rightarrow> string list \<Rightarrow> route option" where
  "route_of m path =
     (case path of
        [a] \<Rightarrow>
          if a = ''endpoints'' \<and> m = ''POST'' then Some Post_endpoint
          else if a = ''endpoints'' \<and> is_get m then Some Get_endpoints
          else if a = ''events'' \<and> m = ''POST'' then Some Post_event
          else if a = ''events'' \<and> is_get m then Some Get_events
          else None
      | [a, i] \<Rightarrow>
          if a = ''endpoints'' \<and> is_get m then Some (Get_endpoint i)
          else if a = ''events'' \<and> is_get m then Some (Get_event i)
          else if a = ''deliveries'' \<and> is_get m then Some (Get_delivery i)
          else None
      | [a, i, b] \<Rightarrow>
          if a \<noteq> ''endpoints'' then None
          else if b = ''pause'' \<and> m = ''POST'' then Some (Pause_endpoint i)
          else if b = ''resume'' \<and> m = ''POST'' then Some (Resume_endpoint i)
          else if b = ''deliveries'' \<and> is_get m then Some (Get_queue i)
          else if b = ''replays'' \<and> m = ''POST'' then Some (Post_replay i)
          else None
      | [a, i, b, c] \<Rightarrow>
          if a = ''endpoints'' \<and> b = ''secret'' \<and> c = ''rotate'' \<and> m = ''POST'' then Some (Rotate_secret i)
          else None
      | _ \<Rightarrow> None)"

definition event_query_of :: "request \<Rightarrow> event_query" where
  "event_query_of r =
     \<lparr>eq_limit = rq_query r ''limit'', eq_before = rq_query r ''before'', eq_id = rq_query r ''id'',
      eq_type = rq_query r ''type'', eq_from = rq_query r ''from'', eq_to = rq_query r ''to'',
      eq_endpoint_id = rq_query r ''endpoint_id''\<rparr>"

definition run_route :: "api_env \<Rightarrow> req_inputs \<Rightarrow> request \<Rightarrow> json \<Rightarrow> uuid \<Rightarrow> route \<Rightarrow> db \<Rightarrow> handler_result" where
  "run_route E i r body tid rt s =
     (case rt of
        Post_endpoint \<Rightarrow> post_endpoint E (ri_now i) (ri_secret i) (ri_iv i) tid body s
      | Get_endpoints \<Rightarrow> get_endpoints E tid (rq_query r ''limit'') (rq_query r ''before'') s
      | Get_endpoint x \<Rightarrow> get_endpoint E tid x s
      | Pause_endpoint x \<Rightarrow> pause_endpoint E tid x s
      | Resume_endpoint x \<Rightarrow> resume_endpoint E tid x s
      | Rotate_secret x \<Rightarrow> rotate_secret E (ri_date_now i) (ri_secret i) (ri_iv i) tid x s
      | Get_queue x \<Rightarrow> get_endpoint_deliveries E tid x (rq_query r ''limit'') (rq_query r ''after'') s
      | Post_event \<Rightarrow> post_event E (ri_now i) tid (rq_header r ''idempotency-key'') body s
      | Get_events \<Rightarrow> get_events E tid (event_query_of r) s
      | Get_event x \<Rightarrow> get_event E tid x s
      | Post_replay x \<Rightarrow> post_replay E (ri_now i) tid x (rq_header r ''idempotency-key'') body s
      | Get_delivery x \<Rightarrow> get_delivery E tid x s)"

text \<open>\<^verbatim>\<open>asyncHandler\<close> and the error middleware: whatever a handler throws is answered with 500.\<close>

definition with_error_handler :: "handler_result \<Rightarrow> (nat \<times> reply) \<times> db" where
  "with_error_handler x =
     (case fst x of
        Inl _ \<Rightarrow> ((500, R_error ''internal_error'' ''Internal error''), snd x)
      | Inr resp \<Rightarrow> (resp, snd x))"

definition handle_request :: "api_env \<Rightarrow> req_inputs \<Rightarrow> request \<Rightarrow> db \<Rightarrow> (nat \<times> reply) \<times> db" where
  "handle_request E i r s =
     (if rq_method r = ''OPTIONS'' then ((204, R_ok), s)
      else case rq_body r of
        None \<Rightarrow> with_error_handler (Inl Bad_body, s)
      | Some body \<Rightarrow>
          if rq_path r = [''healthz''] \<and> is_get (rq_method r) then ((200, R_ok), s)
          else (case requireTenant E r s of
                  Unauthorized msg \<Rightarrow> ((401, R_error ''unauthorized'' msg), s)
                | Tenant tid \<Rightarrow>
                    (case route_of (rq_method r) (rq_path r) of
                       None \<Rightarrow> ((404, R_error ''not_found'' ''Not found''), s)
                     | Some rt \<Rightarrow> with_error_handler (run_route E i r body tid rt s))))"

end
