(* ===== verification/App_Facts.thy ===== *)
theory App_Facts
  imports App
begin

text \<open>
  What a request can do to the database: \<open>api_write\<close> lists the six writes of the routers, every
  handled request performs at most one of them (\<open>handle_request_write\<close>), each keeps the database
  well formed and none touches a delivery, an attempt or a lease.
\<close>

section \<open>API keys in a header\<close>

lemma bearer_of_key:
  assumes "key \<noteq> []" "CHR '' '' \<notin> set key"
  shows "bearer_token (Some (''Bearer '' @ key)) = Some key"
proof -
  have "js_split (CHR '' '') (''Bearer'' @ CHR '' '' # key) = [''Bearer'', key]"
    by (subst js_split_append_sep) (simp_all add: js_split_no_sep assms(2))
  with assms(1) show ?thesis by (simp add: bearer_token_def)
qed

lemma key_chars: "CHR '' '' \<notin> set (generateSecret rnd ''tenant'')"
proof -
  have "CHR '' '' \<noteq> hex_char n" if "n < 16" for n
  proof -
    have "(of_char (hex_char n) :: nat) \<noteq> of_char (CHR '' '')" using that by (simp add: hex_char_def)
    then show ?thesis by metis
  qed
  moreover have "(of_char c :: nat) div 16 < 16" for c :: char using nat_of_char_less_256 [of c] by linarith
  ultimately show ?thesis by (auto simp: generateSecret_def hex_of_bytes_def)
qed

lemma bearer_generated: "bearer_token (Some (''Bearer '' @ generateSecret rnd ''tenant'')) = Some (generateSecret rnd ''tenant'')"
  by (rule bearer_of_key [OF _ key_chars]) (simp add: generateSecret_def)

section \<open>The writes\<close>

definition endpoint_update :: "uuid \<Rightarrow> uuid \<Rightarrow> (endpoint \<Rightarrow> endpoint) \<Rightarrow> db \<Rightarrow> db" where
  "endpoint_update tid eid f s =
     s\<lparr>endpoints := update_where (\<lambda>e. ep_id e = eid \<and> ep_tenant_id e = tid) f (endpoints s)\<rparr>"

inductive api_write :: "uuid \<Rightarrow> db \<Rightarrow> db \<Rightarrow> bool" for tid where
  api_read: "api_write tid s s"
| api_register: "api_write tid s (snd (insert_endpoint now tid url types secret s))"
| api_status: "st = Paused \<or> st = Active \<Longrightarrow> api_write tid s (set_status st tid eid s)"
| api_rotate: "api_write tid s (endpoint_update tid eid (rotate_row expires stored) s)"
| api_publish: "api_write tid s (snd (publish_event now tid k ty payload s))"
| api_replay: "owned_endpoint tid eid s = Some e \<Longrightarrow> api_write tid s (snd (create_replay now eid k a b s))"

inductive_cases api_writeE: "api_write tid s s'"

lemma set_status_update: "set_status st tid eid s = endpoint_update tid eid (\<lambda>e. e\<lparr>ep_status := st\<rparr>) s"
  by (simp add: set_status_def endpoint_update_def)

lemma post_endpoint_write: "api_write tid s (snd (post_endpoint E now rnd iv tid body s))"
  by (auto simp: post_endpoint_def api_read case_prod_beta Let_def split: option.split url_check.split sum.split
      intro: api_register)

lemma pause_write: "api_write tid s (snd (pause_endpoint E tid raw s))"
  by (auto simp: pause_endpoint_def with_uuid_def api_read Let_def split: option.split intro: api_status)

lemma resume_write: "api_write tid s (snd (resume_endpoint E tid raw s))"
  by (auto simp: resume_endpoint_def with_uuid_def api_read Let_def split: option.split intro: api_status)

lemma rotate_write: "api_write tid s (snd (rotate_secret E date_now rnd iv tid raw s))"
  by (auto simp: rotate_secret_def with_uuid_def api_read Let_def split: option.split sum.split
      intro: api_rotate [unfolded endpoint_update_def])

lemma post_event_write: "api_write tid s (snd (post_event E now tid key_header body s))"
  by (auto simp: post_event_def api_read case_prod_beta Let_def split: option.split intro: api_publish)

lemma post_replay_write: "api_write tid s (snd (post_replay E now tid raw key_header body s))"
  by (auto simp: post_replay_def with_uuid_def api_read case_prod_beta Let_def split: option.split
      intro: api_replay)

lemma reads_only:
  "snd (get_endpoints E tid l b s) = s" "snd (get_endpoint E tid raw s) = s"
  "snd (get_endpoint_deliveries E tid raw l b s) = s" "snd (get_events E tid q s) = s"
  "snd (get_event E tid raw s) = s" "snd (get_delivery E tid raw s) = s"
  by (simp_all add: get_endpoints_def get_endpoint_def get_endpoint_deliveries_def get_events_def get_event_def
      get_delivery_def with_uuid_def case_prod_beta Let_def split: option.split sum.split)

lemma run_route_write: "api_write tid s (snd (run_route E i r body tid rt s))"
  by (cases rt) (simp_all add: run_route_def reads_only api_read post_endpoint_write pause_write resume_write
      rotate_write post_event_write post_replay_write)

lemma with_error_handler_db [simp]: "snd (with_error_handler x) = snd x"
  by (simp add: with_error_handler_def split: sum.split)

lemma requireTenant_in:
  assumes "requireTenant E r s = Tenant tid"
  obtains t token where "t \<in> set (tenants s)" "tn_id t = tid"
    "bearer_token (rq_header r ''authorization'') = Some token"
    "tn_api_key_hash t = hashApiKey (crypt E) token"
proof -
  obtain token where tok: "bearer_token (rq_header r ''authorization'') = Some token"
    using assms by (auto simp: requireTenant_def split: option.splits)
  let ?ts = "filter (\<lambda>t. tn_api_key_hash t = hashApiKey (crypt E) token) (tenants s)"
  obtain t ts where t: "?ts = t # ts" "tn_id t = tid"
    using assms tok by (auto simp: requireTenant_def split: list.splits)
  then have "t \<in> set ?ts" by simp
  then have "t \<in> set (tenants s)" "tn_api_key_hash t = hashApiKey (crypt E) token" by simp_all
  with t(2) tok that show thesis by blast
qed

lemma handle_request_write:
  "snd (handle_request E i r s) = s \<or>
   (\<exists>t\<in>set (tenants s). requireTenant E r s = Tenant (tn_id t) \<and>
      api_write (tn_id t) s (snd (handle_request E i r s)))"
proof (cases "rq_method r = ''OPTIONS'' \<or> rq_body r = None \<or> (rq_path r = [''healthz''] \<and> is_get (rq_method r))")
  case True
  then show ?thesis by (auto simp: handle_request_def split: option.split)
next
  case False
  then obtain body where body: "rq_body r = Some body" by auto
  show ?thesis
  proof (cases "requireTenant E r s")
    case (Tenant tid)
    then obtain t where "t \<in> set (tenants s)" "tn_id t = tid" by (rule requireTenant_in)
    moreover have "api_write tid s (snd (handle_request E i r s))"
      using False body Tenant
      by (auto simp: handle_request_def api_read run_route_write split: option.split)
    ultimately show ?thesis using Tenant by blast
  next
    case (Unauthorized m)
    with False body show ?thesis by (auto simp: handle_request_def)
  qed
qed

section \<open>What the writes keep\<close>

lemma wf_bump_ev_seq: "wf_db s \<Longrightarrow> wf_db (s\<lparr>ev_next_seq := Suc (ev_next_seq s)\<rparr>)"
  by (auto simp: wf_db_def wf_defs drawn_ids_def less_Suc_eq)

lemma wf_insert_endpoint [wf_intros]:
  assumes "wf_db s" "tid \<in> tn_id ` set (tenants s)"
  shows "wf_db (snd (insert_endpoint now tid url types secret s))"
  unfolding insert_endpoint_def gen_random_uuid_def Let_def prod.case snd_conv
  by (rule wf_append_endpoint)
     (use assms drawn_fresh_ids [OF assms(1)] in \<open>simp_all add: wf_draw drawn_ids_Suc lease_cols_def\<close>)

lemma wf_endpoint_update:
  assumes "wf_db s" "\<And>e. ep_id (f e) = ep_id e" "\<And>e. ep_tenant_id (f e) = ep_tenant_id e"
    "\<And>e. (ep_busy (f e), ep_busy_since (f e), ep_lease_id (f e)) = (ep_busy e, ep_busy_since e, ep_lease_id e)"
  shows "wf_db (endpoint_update tid eid f s)"
  unfolding endpoint_update_def
proof (rule wf_update_endpoints)
  fix e assume "lease_cols e"
  then show "lease_cols (f e)" using assms(4) [of e] by (auto simp: lease_cols_def)
next
  fix e l assume "ep_lease_id (f e) = Some l"
  then show "l \<in> drawn_ids s \<or> ep_lease_id e = Some l" using assms(4) [of e] by simp
qed (use assms in simp_all)

lemma wf_publish_event [wf_intros]:
  assumes "wf_db s" "tid \<in> tn_id ` set (tenants s)"
  shows "wf_db (snd (publish_event now tid k ty payload s))"
proof (cases "find_event tid k s")
  case None
  let ?v = "new_event now tid k ty payload s" and ?s = "s\<lparr>uuid_draws := Suc (uuid_draws s)\<rparr>"
  have "wf_db (?s\<lparr>events := events ?s @ [?v], ev_next_seq := Suc (ev_next_seq ?s)\<rparr>)"
    by (rule wf_append_event)
       (use assms None drawn_fresh_ids [OF assms(1)] in
         \<open>simp_all add: wf_draw drawn_ids_Suc new_event_def find_event_None\<close>)
  with None show ?thesis by (simp add: publish_event_eq)
next
  case (Some v)
  with wf_bump_ev_seq [OF wf_draw [OF assms(1)]] show ?thesis by (simp add: publish_event_eq)
qed

lemma wf_create_replay [wf_intros]:
  assumes "wf_db s" "eid \<in> ep_id ` set (endpoints s)"
  shows "wf_db (snd (create_replay now eid k a b s))"
proof (cases "find_replay eid k s")
  case None
  let ?r = "new_replay now eid k a b s" and ?s = "s\<lparr>uuid_draws := Suc (uuid_draws s)\<rparr>"
  have "wf_db (?s\<lparr>replays := replays ?s @ [?r]\<rparr>)"
    by (rule wf_append_replay)
       (use assms None drawn_fresh_ids [OF assms(1)] in
         \<open>simp_all add: wf_draw drawn_ids_Suc new_replay_def find_replay_None\<close>)
  with None show ?thesis by (simp add: create_replay_eq)
next
  case (Some v)
  with wf_draw [OF assms(1)] show ?thesis by (simp add: create_replay_eq)
qed

lemma wf_api_write:
  assumes "api_write tid s s'" "wf_db s" "tid \<in> tn_id ` set (tenants s)"
  shows "wf_db s'"
  using assms(1)
proof (cases rule: api_write.cases)
  case (api_status st eid)
  with assms show ?thesis by (simp add: set_status_update wf_endpoint_update)
next
  case (api_rotate eid expires stored)
  with assms show ?thesis by (simp add: wf_endpoint_update rotate_row_def)
next
  case (api_replay eid e now k a b)
  then have "eid \<in> ep_id ` set (endpoints s)" using owned_endpoint_Some by blast
  with api_replay(1) assms(2) show ?thesis by (simp add: wf_create_replay)
qed (use assms in \<open>simp_all add: wf_insert_endpoint wf_publish_event\<close>)

text \<open>The lease columns and the queues are out of the API's reach.\<close>

definition lease_view :: "endpoint \<Rightarrow> uuid \<times> bool \<times> ts option \<times> uuid option" where
  "lease_view e = (ep_id e, ep_busy e, ep_busy_since e, ep_lease_id e)"

lemma endpoint_update_lease:
  "(\<And>e. lease_view (f e) = lease_view e) \<Longrightarrow>
     map lease_view (endpoints (endpoint_update tid eid f s)) = map lease_view (endpoints s)"
  by (simp add: endpoint_update_def map_update_where)

lemma api_write_frame:
  assumes "api_write tid s s'"
  shows "deliveries s' = deliveries s" "attempts s' = attempts s" "tenants s' = tenants s"
    "d_next_seq s' = d_next_seq s" "uuid_src s' = uuid_src s" "uuid_draws s \<le> uuid_draws s'"
  using assms
  by (auto elim!: api_writeE simp: insert_endpoint_def gen_random_uuid_def Let_def set_status_def endpoint_update_def
      publish_event_eq create_replay_eq split: option.split)

lemma api_write_leases:
  assumes "api_write tid s s'"
  shows "\<exists>es. map lease_view (endpoints s') = map lease_view (endpoints s) @ es \<and>
    (\<forall>v\<in>set es. \<exists>i. v = (i, False, None, None))"
  using assms
proof (cases rule: api_write.cases)
  case (api_status st eid)
  then show ?thesis
    by (intro exI [of _ "[]"]) (simp add: set_status_update endpoint_update_lease lease_view_def)
next
  case (api_rotate eid expires stored)
  then show ?thesis
    by (intro exI [of _ "[]"]) (simp add: endpoint_update_lease lease_view_def rotate_row_def)
qed (auto simp: insert_endpoint_def gen_random_uuid_def Let_def lease_view_def publish_event_eq create_replay_eq
    split: option.split)

end
