(* ===== verification/Expansion.thy ===== *)
theory Expansion
  imports Schema_Facts
begin

text \<open>
  \<^verbatim>\<open>node/src/worker/expansion.ts\<close> and \<^verbatim>\<open>node/src/worker/replayExpansion.ts\<close>: turning a published event
  into one delivery per subscribed endpoint, and a replay request into new deliveries of its window.
  Each candidate is handled in one transaction; \<open>locked\<close> says for which candidate the advisory lock
  (events) or the row lock with SKIP LOCKED (replays) is obtained, \<open>now\<close> gives the timestamp of each
  candidate's transaction.

  Both cycles are work queues; their contract and what they add to the tables is in
  \<open>Expansion_Facts\<close>.
\<close>

section \<open>Event expansion\<close>

definition pending_events :: "uuid \<Rightarrow> db \<Rightarrow> event list" where
  "pending_events tid s =
     filter (\<lambda>v. ev_tenant_id v = tid \<and> ev_status v = Pending_expansion) (events s)"

definition expansion_candidates :: "db \<Rightarrow> uuid list" where
  "expansion_candidates s =
     take 20 (sort_key (\<lambda>tid. sql_min (map ev_seq (pending_events tid s)))
       (remdups (map ev_tenant_id (filter (\<lambda>v. ev_status v = Pending_expansion) (events s)))))"

definition subscribers :: "uuid \<Rightarrow> string \<Rightarrow> db \<Rightarrow> endpoint list" where
  "subscribers tid ty s =
     filter (\<lambda>e. ep_tenant_id e = tid \<and> ty \<in> set (ep_event_types e)) (endpoints s)"

definition mark_event_expanded :: "uuid \<Rightarrow> db \<Rightarrow> db" where
  "mark_event_expanded vid s =
     s\<lparr>events := update_where (\<lambda>v. ev_id v = vid) (\<lambda>v. v\<lparr>ev_status := Expanded\<rparr>) (events s)\<rparr>"

definition fan_out :: "event \<Rightarrow> db \<Rightarrow> (uuid \<times> uuid) list" where
  "fan_out v s = map (\<lambda>e. (ev_id v, ep_id e)) (subscribers (ev_tenant_id v) (ev_type v) s)"

definition expand_event :: "ts \<Rightarrow> event \<Rightarrow> db \<Rightarrow> db" where
  "expand_event now v s = mark_event_expanded (ev_id v) (insert_deliveries now (fan_out v s) s)"

definition expand_tenant :: "bool \<Rightarrow> ts \<Rightarrow> uuid \<Rightarrow> db \<Rightarrow> bool \<times> db" where
  "expand_tenant locked now tid s =
     (if \<not> locked then (False, s)
      else case head_option (sort_key ev_seq (pending_events tid s)) of
             None \<Rightarrow> (False, s)
           | Some v \<Rightarrow> (True, expand_event now v s))"

fun expansion_loop :: "(uuid \<Rightarrow> bool) \<Rightarrow> (uuid \<Rightarrow> ts) \<Rightarrow> uuid list \<Rightarrow> db \<Rightarrow> bool \<times> db" where
  "expansion_loop locked now [] s = (False, s)"
| "expansion_loop locked now (tid # tids) s =
     (case expand_tenant (locked tid) (now tid) tid s of
        (True, s') \<Rightarrow> (True, s')
      | (False, s') \<Rightarrow> expansion_loop locked now tids s')"

definition runExpansionCycle :: "(uuid \<Rightarrow> bool) \<Rightarrow> (uuid \<Rightarrow> ts) \<Rightarrow> db \<Rightarrow> bool \<times> db" where
  "runExpansionCycle locked now s = expansion_loop locked now (expansion_candidates s) s"

section \<open>Replay expansion\<close>

definition replay_candidates :: "db \<Rightarrow> uuid list" where
  "replay_candidates s =
     take 20 (map rp_id (sort_key rp_created_at
       (filter (\<lambda>r. rp_status r = Pending_expansion) (replays s))))"

definition in_window :: "replay \<Rightarrow> delivery \<Rightarrow> bool" where
  "in_window r d \<longleftrightarrow> d_endpoint_id d = rp_endpoint_id r \<and>
     d_created_at d \<ge> rp_range_start r \<and> d_created_at d \<le> rp_range_end r \<and>
     d_state d \<notin> {Pending, In_flight}"

definition replay_rows :: "replay \<Rightarrow> db \<Rightarrow> (uuid \<times> uuid) list" where
  "replay_rows r s =
     map (\<lambda>d. (d_event_id d, rp_endpoint_id r)) (sort_key d_seq (filter (in_window r) (deliveries s)))"

definition mark_replay_expanded :: "uuid \<Rightarrow> db \<Rightarrow> db" where
  "mark_replay_expanded rid s =
     s\<lparr>replays := update_where (\<lambda>r. rp_id r = rid) (\<lambda>r. r\<lparr>rp_status := Expanded\<rparr>) (replays s)\<rparr>"

definition expand_replay_row :: "ts \<Rightarrow> replay \<Rightarrow> db \<Rightarrow> db" where
  "expand_replay_row now r s = mark_replay_expanded (rp_id r) (insert_deliveries now (replay_rows r s) s)"

definition expand_replay :: "bool \<Rightarrow> ts \<Rightarrow> uuid \<Rightarrow> db \<Rightarrow> bool \<times> db" where
  "expand_replay locked now rid s =
     (case filter (\<lambda>r. rp_id r = rid \<and> rp_status r = Pending_expansion \<and> locked) (replays s) of
        [] \<Rightarrow> (False, s)
      | r # _ \<Rightarrow> (True, expand_replay_row now r s))"

fun replay_loop :: "(uuid \<Rightarrow> bool) \<Rightarrow> (uuid \<Rightarrow> ts) \<Rightarrow> uuid list \<Rightarrow> db \<Rightarrow> bool \<times> db" where
  "replay_loop locked now [] s = (False, s)"
| "replay_loop locked now (rid # rids) s =
     (case expand_replay (locked rid) (now rid) rid s of
        (True, s') \<Rightarrow> (True, s')
      | (False, s') \<Rightarrow> replay_loop locked now rids s')"

definition runReplayExpansionCycle :: "(uuid \<Rightarrow> bool) \<Rightarrow> (uuid \<Rightarrow> ts) \<Rightarrow> db \<Rightarrow> bool \<times> db" where
  "runReplayExpansionCycle locked now s = replay_loop locked now (replay_candidates s) s"

section \<open>What an INSERT .. SELECT appends\<close>

definition new_row :: "ts \<Rightarrow> delivery \<Rightarrow> bool" where
  "new_row now d \<longleftrightarrow> d_state d = Pending \<and> d_attempt_count d = 0 \<and> d_next_attempt_at d = now \<and>
     d_created_at d = now"

lemma insert_deliveries_appends:
  "\<exists>ns. deliveries (insert_deliveries now ps s) = deliveries s @ ns \<and>
     map (\<lambda>d. (d_event_id d, d_endpoint_id d)) ns = ps \<and>
     map d_seq ns = [d_next_seq s..<d_next_seq s + length ps] \<and> (\<forall>d\<in>set ns. new_row now d)"
proof (induction ps arbitrary: s)
  case (Cons p ps)
  let ?s = "insert_delivery now p s"
  obtain ns where ns: "deliveries (insert_deliveries now ps ?s) = deliveries ?s @ ns"
    "map (\<lambda>d. (d_event_id d, d_endpoint_id d)) ns = ps"
    "map d_seq ns = [d_next_seq ?s..<d_next_seq ?s + length ps]" "\<forall>d\<in>set ns. new_row now d"
    using Cons.IH [of ?s] by blast
  obtain d where d: "deliveries ?s = deliveries s @ [d]" "(d_event_id d, d_endpoint_id d) = p"
    "d_seq d = d_next_seq s" "new_row now d"
    by (auto simp: insert_delivery_def gen_random_uuid_def Let_def new_row_def)
  have "d_next_seq ?s = Suc (d_next_seq s)"
    by (simp add: insert_delivery_def gen_random_uuid_def Let_def)
  moreover have "[d_next_seq s..<d_next_seq s + length (p # ps)] =
      d_next_seq s # [Suc (d_next_seq s)..<Suc (d_next_seq s) + length ps]"
    by (simp add: upt_conv_Cons del: upt_Suc)
  ultimately show ?case
    using ns d by (intro exI [of _ "d # ns"]) (simp del: upt_Suc)
qed simp

lemma insert_deliveries_obtain:
  obtains ns where "deliveries (insert_deliveries now ps s) = deliveries s @ ns"
    "map (\<lambda>d. (d_event_id d, d_endpoint_id d)) ns = ps"
    "map d_seq ns = [d_next_seq s..<d_next_seq s + length ps]" "\<forall>d\<in>set ns. new_row now d"
  using insert_deliveries_appends [of now ps s] by blast

lemma in_flight_insert_deliveries [simp]:
  "in_flight_of eid (insert_deliveries now ps s) = in_flight_of eid s"
  using insert_deliveries_appends [of now ps s]
  by (auto simp: in_flight_of_def new_row_def filter_empty_conv)

section \<open>Well-formedness\<close>

lemma wf_mark_event_expanded [wf_intros]: "wf_db s \<Longrightarrow> wf_db (mark_event_expanded vid s)"
  unfolding mark_event_expanded_def by (rule wf_update_events) simp_all

lemma wf_mark_replay_expanded [wf_intros]: "wf_db s \<Longrightarrow> wf_db (mark_replay_expanded rid s)"
  unfolding mark_replay_expanded_def by (rule wf_update_replays) simp_all

lemma wf_expand_event [wf_intros]:
  "wf_db s \<Longrightarrow> v \<in> set (events s) \<Longrightarrow> wf_db (expand_event now v s)"
  unfolding expand_event_def
  by (rule wf_mark_event_expanded, rule wf_insert_deliveries)
     (auto simp: fan_out_def subscribers_def)

lemma wf_expand_replay_row [wf_intros]:
  "wf_db s \<Longrightarrow> r \<in> set (replays s) \<Longrightarrow> wf_db (expand_replay_row now r s)"
  unfolding expand_replay_row_def
  by (rule wf_mark_replay_expanded, rule wf_insert_deliveries)
     (auto simp: replay_rows_def wf_db_def refs_ok_def)

lemma expand_tenant_True:
  assumes "expand_tenant locked now tid s = (True, s')"
  obtains v where "locked" "v \<in> set (pending_events tid s)" "s' = expand_event now v s"
    "\<forall>w\<in>set (pending_events tid s). ev_seq v \<le> ev_seq w"
proof -
  from assms obtain v where v: "head_option (sort_key ev_seq (pending_events tid s)) = Some v"
    and s': "s' = expand_event now v s" and "locked"
    by (auto simp: expand_tenant_def split: if_splits option.splits)
  with head_sort_key_in [OF v] head_sort_key_le [OF v] that show thesis by blast
qed

lemma expand_tenant_False:
  "expand_tenant locked now tid s = (False, s') \<Longrightarrow>
     s' = s \<and> (\<not> locked \<or> pending_events tid s = [])"
  by (auto simp: expand_tenant_def split: if_splits option.splits)
     (metis length_0_conv length_sort)

lemma expansion_loop_False:
  "expansion_loop locked now tids s = (False, s') \<Longrightarrow>
     s' = s \<and> (\<forall>tid\<in>set tids. \<not> locked tid \<or> pending_events tid s = [])"
proof (induction tids arbitrary: s)
  case (Cons tid tids)
  then show ?case
    using expand_tenant_False [of "locked tid" "now tid" tid s]
    by (auto split: prod.splits bool.splits)
qed simp

lemma expansion_loop_True:
  "expansion_loop locked now tids s = (True, s') \<Longrightarrow>
     \<exists>tid\<in>set tids. expand_tenant (locked tid) (now tid) tid s = (True, s')"
proof (induction tids arbitrary: s)
  case (Cons tid tids)
  then show ?case
    using expand_tenant_False [of "locked tid" "now tid" tid s]
    by (auto split: prod.splits bool.splits)
qed simp

lemma replay_loop_False:
  "replay_loop locked now rids s = (False, s') \<Longrightarrow>
     s' = s \<and> (\<forall>rid\<in>set rids. \<forall>r\<in>set (replays s).
       rp_id r = rid \<longrightarrow> rp_status r = Pending_expansion \<longrightarrow> \<not> locked rid)"
proof (induction rids arbitrary: s)
  case (Cons rid rids)
  then show ?case
    by (auto simp: expand_replay_def filter_empty_conv split: list.splits)
qed simp

lemma replay_loop_True:
  assumes "replay_loop locked now rids s = (True, s')"
  obtains r where "r \<in> set (replays s)" "rp_id r \<in> set rids" "rp_status r = Pending_expansion"
    "locked (rp_id r)" "s' = expand_replay_row (now (rp_id r)) r s"
  using assms
proof (induction rids arbitrary: thesis)
  case (Cons rid rids)
  let ?rows = "filter (\<lambda>r. rp_id r = rid \<and> rp_status r = Pending_expansion \<and> locked rid) (replays s)"
  show ?case
  proof (cases ?rows)
    case Nil
    with Cons show ?thesis by (auto simp: expand_replay_def)
  next
    case row: (Cons r rs)
    then have "r \<in> set ?rows" by (simp only: list.set_intros)
    then have "r \<in> set (replays s)" "rp_id r = rid" "rp_status r = Pending_expansion" "locked rid"
      by simp_all
    then show ?thesis
      using row Cons.prems(1) [of r] Cons.prems(2) by (auto simp: expand_replay_def)
  qed
qed simp

lemma runExpansionCycle_cases:
  assumes "runExpansionCycle locked now s = (b, s')"
  obtains
    (idle) "\<not> b" "s' = s"
      "\<forall>tid\<in>set (expansion_candidates s). \<not> locked tid \<or> pending_events tid s = []"
  | (work) v where "b" "v \<in> set (events s)" "ev_status v = Pending_expansion"
      "locked (ev_tenant_id v)" "s' = expand_event (now (ev_tenant_id v)) v s"
      "\<forall>w\<in>set (pending_events (ev_tenant_id v) s). ev_seq v \<le> ev_seq w"
proof (cases b)
  case True
  with assms have "expansion_loop locked now (expansion_candidates s) s = (True, s')"
    by (simp add: runExpansionCycle_def)
  from expansion_loop_True [OF this]
  obtain tid where "expand_tenant (locked tid) (now tid) tid s = (True, s')" by blast
  with True show thesis
    by (elim expand_tenant_True) (auto simp: pending_events_def intro!: work)
next
  case False
  with assms have "expansion_loop locked now (expansion_candidates s) s = (False, s')"
    by (simp add: runExpansionCycle_def)
  from expansion_loop_False [OF this] False show thesis by (intro idle) simp_all
qed

lemma runReplayExpansionCycle_cases:
  assumes "runReplayExpansionCycle locked now s = (b, s')"
  obtains
    (idle) "\<not> b" "s' = s"
      "\<forall>rid\<in>set (replay_candidates s). \<forall>r\<in>set (replays s).
         rp_id r = rid \<longrightarrow> rp_status r = Pending_expansion \<longrightarrow> \<not> locked rid"
  | (work) r where "b" "r \<in> set (replays s)" "rp_status r = Pending_expansion"
      "locked (rp_id r)" "s' = expand_replay_row (now (rp_id r)) r s"
proof (cases b)
  case True
  with assms show thesis
    by (auto simp: runReplayExpansionCycle_def elim!: replay_loop_True intro!: work)
next
  case False
  with assms have "replay_loop locked now (replay_candidates s) s = (False, s')"
    by (simp add: runReplayExpansionCycle_def)
  from replay_loop_False [OF this] False show thesis by (intro idle) simp_all
qed

lemma wf_runExpansionCycle [wf_intros]:
  "runExpansionCycle locked now s = (b, s') \<Longrightarrow> wf_db s \<Longrightarrow> wf_db s'"
  by (erule runExpansionCycle_cases) (simp_all add: wf_expand_event)

lemma wf_runReplayExpansionCycle [wf_intros]:
  "runReplayExpansionCycle locked now s = (b, s') \<Longrightarrow> wf_db s \<Longrightarrow> wf_db s'"
  by (erule runReplayExpansionCycle_cases) (simp_all add: wf_expand_replay_row)

end
