(* ===== verification/Invariant.thy ===== *)
theory Invariant
  imports App_Facts Expansion
begin

text \<open>
  The invariant of the delivery tables (\<open>db_ok\<close>) and its preservation by every operation of the two
  processes.  Besides \<open>wf_db\<close> and \<open>single_flight\<close> it says that the attempts of a delivery are numbered
  1, 2, .. up to its \<open>attempt_count\<close> in the order they were made, that an attempt without an outcome
  is the current one of a delivery in flight, and that a delivery is failed only with the ceiling of
  attempts spent.  \<open>claim_ok\<close> relates a claim a worker holds to the database: as long as its lease is
  the endpoint's, its delivery is in flight with its attempt the open one.
\<close>

section \<open>Definitions\<close>

definition attempts_of :: "uuid \<Rightarrow> db \<Rightarrow> attempt list" where
  "attempts_of did s = filter (\<lambda>a. a_delivery_id a = did) (attempts s)"

definition attempt_open :: "attempt \<Rightarrow> bool" where
  "attempt_open a \<longleftrightarrow> a_response_status a = None \<and> a_error_class a = None"

definition attempts_numbered :: "db \<Rightarrow> bool" where
  "attempts_numbered s \<longleftrightarrow> (\<forall>d\<in>set (deliveries s).
     map a_attempt_number (attempts_of (d_id d) s) = [1..<Suc (d_attempt_count d)])"

definition open_current :: "db \<Rightarrow> bool" where
  "open_current s \<longleftrightarrow> (\<forall>a\<in>set (attempts s). a_sent_at a \<noteq> None \<and> (attempt_open a \<longrightarrow>
     (\<exists>d\<in>set (deliveries s). d_id d = a_delivery_id a \<and> d_state d = In_flight \<and>
        d_attempt_count d = a_attempt_number a)))"

definition failed_spent :: "rat \<Rightarrow> db \<Rightarrow> bool" where
  "failed_spent mxa s \<longleftrightarrow>
     (\<forall>d\<in>set (deliveries s). d_state d = Failed \<longrightarrow> mxa \<le> of_nat (d_attempt_count d))"

definition db_ok :: "rat \<Rightarrow> db \<Rightarrow> bool" where
  "db_ok mxa s \<longleftrightarrow> wf_db s \<and> single_flight s \<and> attempts_numbered s \<and> open_current s \<and> failed_spent mxa s"

definition holds :: "claimed_delivery \<Rightarrow> db \<Rightarrow> bool" where
  "holds c s \<longleftrightarrow> fence (c_endpointId c) s = Some (c_leaseId c)"

definition claim_ok :: "db \<Rightarrow> claimed_delivery \<Rightarrow> bool" where
  "claim_ok s c \<longleftrightarrow> c_leaseId c \<in> drawn_ids s \<and> (holds c s \<longrightarrow>
     (\<exists>d\<in>set (deliveries s). d_id d = c_deliveryId c \<and> d_endpoint_id d = c_endpointId c \<and>
        d_state d = In_flight \<and> d_attempt_count d = c_attemptNumber c) \<and>
     (\<exists>a\<in>set (attempts s). a_id a = c_attemptId c \<and> a_delivery_id a = c_deliveryId c \<and>
        a_attempt_number a = c_attemptNumber c \<and> attempt_open a))"

section \<open>Endpoint writes\<close>

lemma in_flight_of_cong: "deliveries s' = deliveries s \<Longrightarrow> in_flight_of eid s' = in_flight_of eid s"
  by (simp add: in_flight_of_def)

text \<open>The part of the invariant that does not look at endpoints.\<close>

definition queue_ok :: "rat \<Rightarrow> db \<Rightarrow> bool" where
  "queue_ok mxa s \<longleftrightarrow> attempts_numbered s \<and> open_current s \<and> failed_spent mxa s"

lemma db_ok_split: "db_ok mxa s \<longleftrightarrow> wf_db s \<and> single_flight s \<and> queue_ok mxa s"
  by (auto simp: db_ok_def queue_ok_def)

lemma queue_ok_cong:
  "deliveries s' = deliveries s \<Longrightarrow> attempts s' = attempts s \<Longrightarrow> queue_ok mxa s' = queue_ok mxa s"
  by (simp add: queue_ok_def attempts_numbered_def attempts_of_def open_current_def failed_spent_def)

lemma fence_lease_view:
  "fence eid s = (case find_by fst eid (map lease_view (endpoints s)) of None \<Rightarrow> None | Some v \<Rightarrow> snd (snd (snd v)))"
proof -
  have "find_by fst eid (map lease_view es) = map_option lease_view (find_by ep_id eid es)" for es
    by (induction es) (auto simp: lease_view_def)
  then show ?thesis by (auto simp: fence_def lease_view_def split: option.split)
qed

lemma single_flight_lease_view:
  "single_flight s \<longleftrightarrow> (\<forall>v\<in>set (map lease_view (endpoints s)). length (in_flight_of (fst v) s) \<le> 1 \<and>
     (in_flight_of (fst v) s \<noteq> [] \<longrightarrow> fst (snd v)))"
  by (simp add: single_flight_def lease_view_def)

lemma in_flight_known:
  "wf_db s \<Longrightarrow> in_flight_of eid s \<noteq> [] \<Longrightarrow> eid \<in> ep_id ` set (endpoints s)"
  by (auto simp: in_flight_of_def filter_empty_conv wf_db_def refs_ok_def)

text \<open>A write that appends endpoints without a lease and leaves the other leases alone.\<close>

lemma lease_frame:
  assumes "wf_db s" "wf_db s'" "map lease_view (endpoints s') = map lease_view (endpoints s) @ es"
    "\<forall>v\<in>set es. \<exists>i. v = (i, False, None, None)" "deliveries s' = deliveries s"
  shows "single_flight s \<Longrightarrow> single_flight s'" "fence eid s' = fence eid s"
proof -
  have dist: "distinct (map ep_id (endpoints s'))" using assms(2) by (simp add: wf_db_def keys_ok_def)
  have ids: "map ep_id es' = map fst (map lease_view es')" for es' by (simp add: lease_view_def)
  have new: "fst v \<notin> ep_id ` set (endpoints s)" if "v \<in> set es" for v
  proof -
    have "distinct (map ep_id (endpoints s) @ map fst es)"
      using dist unfolding ids assms(3) map_append by (simp add: ids)
    with that show ?thesis by auto
  qed
  have none: "in_flight_of (fst v) s = []" if "v \<in> set es" for v
    using in_flight_known [OF assms(1)] new [OF that] by blast
  show "single_flight s'" if "single_flight s"
    unfolding single_flight_lease_view assms(3) in_flight_of_cong [OF assms(5)] set_append ball_Un
    using that by (simp add: single_flight_lease_view none)
  show "fence eid s' = fence eid s"
    unfolding fence_lease_view assms(3) find_by_append
    using assms(4) by (auto split: option.split dest: find_by_Some)
qed

lemma db_ok_api_write:
  assumes "api_write tid s s'" "tid \<in> tn_id ` set (tenants s)" "db_ok mxa s"
  shows "db_ok mxa s'" "claim_ok s c \<Longrightarrow> claim_ok s' c"
proof -
  have wf: "wf_db s" using assms(3) by (simp add: db_ok_def)
  have wf': "wf_db s'" by (rule wf_api_write [OF assms(1) wf assms(2)])
  note frame = api_write_frame [OF assms(1)]
  obtain es where es: "map lease_view (endpoints s') = map lease_view (endpoints s) @ es"
    "\<forall>v\<in>set es. \<exists>i. v = (i, False, None, None)"
    using api_write_leases [OF assms(1)] by blast
  note lf = lease_frame [OF wf wf' es frame(1)]
  show "db_ok mxa s'"
    using assms(3) wf' lf(1) queue_ok_cong [OF frame(1,2)] by (simp add: db_ok_split)
  have "drawn_ids s \<subseteq> drawn_ids s'" using frame(5,6) by (auto simp: drawn_ids_def)
  then show "claim_ok s c \<Longrightarrow> claim_ok s' c"
    by (auto simp: claim_ok_def holds_def lf(2) frame(1,2))
qed

section \<open>Appending deliveries\<close>

lemma attempts_of_Nil:
  "wf_db s \<Longrightarrow> did \<notin> d_id ` set (deliveries s) \<Longrightarrow> attempts_of did s = []"
  by (auto simp: attempts_of_def filter_empty_conv wf_db_def refs_ok_def)

lemma queue_ok_append:
  assumes "wf_db s" "wf_db s'" "deliveries s' = deliveries s @ ns" "\<forall>d\<in>set ns. new_row now d"
    "attempts s' = attempts s" "queue_ok mxa s"
  shows "queue_ok mxa s'"
proof -
  have "distinct (map d_id (deliveries s @ ns))"
    using assms(2,3) by (simp add: wf_db_def keys_ok_def)
  then have "attempts_of (d_id d) s' = []" if "d \<in> set ns" for d
    using that attempts_of_Nil [OF assms(1), of "d_id d"] assms(5) by (auto simp: attempts_of_def)
  then show ?thesis
    using assms(3-6)
    by (auto simp: queue_ok_def attempts_numbered_def attempts_of_def open_current_def failed_spent_def new_row_def)
qed

lemma in_flight_append:
  "deliveries s' = deliveries s @ ns \<Longrightarrow> \<forall>d\<in>set ns. new_row now d \<Longrightarrow> in_flight_of eid s' = in_flight_of eid s"
  by (auto simp: in_flight_of_def filter_empty_conv new_row_def)

lemma db_ok_append:
  assumes "db_ok mxa s" "wf_db s'" "deliveries s' = deliveries s @ ns" "\<forall>d\<in>set ns. new_row now d"
    "attempts s' = attempts s" "endpoints s' = endpoints s" "drawn_ids s \<subseteq> drawn_ids s'"
  shows "db_ok mxa s'" "claim_ok s c \<Longrightarrow> claim_ok s' c"
  using assms(1,2) queue_ok_append [OF _ assms(2-5)] in_flight_append [OF assms(3,4)] assms(3,5,6,7)
  by (auto simp: db_ok_split single_flight_def claim_ok_def holds_def fence_def)

lemma drawn_insert_deliveries: "drawn_ids s \<subseteq> drawn_ids (insert_deliveries now ps s)"
proof (induction ps arbitrary: s)
  case (Cons p ps)
  have "drawn_ids s \<subseteq> drawn_ids (insert_delivery now p s)"
    by (auto simp: drawn_ids_def insert_delivery_def gen_random_uuid_def Let_def)
  with Cons [of "insert_delivery now p s"] show ?case by auto
qed simp

lemma db_ok_expand_event:
  assumes "db_ok mxa s" "v \<in> set (events s)"
  shows "db_ok mxa (expand_event now v s)" "claim_ok s c \<Longrightarrow> claim_ok (expand_event now v s) c"
proof -
  have wf: "wf_db (expand_event now v s)" using assms by (simp add: wf_expand_event db_ok_def)
  obtain ns where ns: "deliveries (insert_deliveries now (fan_out v s) s) = deliveries s @ ns"
    "\<forall>d\<in>set ns. new_row now d" by (rule insert_deliveries_obtain)
  have "drawn_ids (insert_deliveries now (fan_out v s) s) = drawn_ids (expand_event now v s)"
    by (simp add: drawn_ids_def expand_event_def mark_event_expanded_def)
  with drawn_insert_deliveries have "drawn_ids s \<subseteq> drawn_ids (expand_event now v s)" by blast
  note * = db_ok_append [OF assms(1) wf _ ns(2) _ _ this]
  show "db_ok mxa (expand_event now v s)" "claim_ok s c \<Longrightarrow> claim_ok (expand_event now v s) c"
    by (rule *; simp add: expand_event_def mark_event_expanded_def ns(1))+
qed

lemma db_ok_expand_replay_row:
  assumes "db_ok mxa s" "r \<in> set (replays s)"
  shows "db_ok mxa (expand_replay_row now r s)" "claim_ok s c \<Longrightarrow> claim_ok (expand_replay_row now r s) c"
proof -
  have wf: "wf_db (expand_replay_row now r s)" using assms by (simp add: wf_expand_replay_row db_ok_def)
  obtain ns where ns: "deliveries (insert_deliveries now (replay_rows r s) s) = deliveries s @ ns"
    "\<forall>d\<in>set ns. new_row now d" by (rule insert_deliveries_obtain)
  have "drawn_ids (insert_deliveries now (replay_rows r s) s) = drawn_ids (expand_replay_row now r s)"
    by (simp add: drawn_ids_def expand_replay_row_def mark_replay_expanded_def)
  with drawn_insert_deliveries have "drawn_ids s \<subseteq> drawn_ids (expand_replay_row now r s)" by blast
  note * = db_ok_append [OF assms(1) wf _ ns(2) _ _ this]
  show "db_ok mxa (expand_replay_row now r s)" "claim_ok s c \<Longrightarrow> claim_ok (expand_replay_row now r s) c"
    by (rule *; simp add: expand_replay_row_def mark_replay_expanded_def ns(1))+
qed

end
