(* ===== verification/Claim_Invariant.thy ===== *)
theory Claim_Invariant
  imports Invariant
begin

text \<open>
  The invariant through a claim.  A candidate row must not be older than the lease it reports:
  \<open>fresh_candidate\<close> says that an endpoint claimed as free really is free.  Then reclaiming never meets
  two deliveries in flight, requeues the stranded one with its attempt closed, and the delivery that
  is started is the only one of its endpoint in flight.
\<close>

definition fresh_candidate :: "candidate_row \<Rightarrow> db \<Rightarrow> bool" where
  "fresh_candidate cand s \<longleftrightarrow>
     (\<forall>e\<in>set (endpoints s). ep_id e = cand_id cand \<longrightarrow> ep_busy e \<longrightarrow> cand_busy cand)"

text \<open>What a claim of another endpoint sees of the queue.\<close>

definition claim_live :: "db \<Rightarrow> claimed_delivery \<Rightarrow> bool" where
  "claim_live s c \<longleftrightarrow>
     (\<exists>d\<in>set (deliveries s). d_id d = c_deliveryId c \<and> d_endpoint_id d = c_endpointId c \<and>
        d_state d = In_flight \<and> d_attempt_count d = c_attemptNumber c) \<and>
     (\<exists>a\<in>set (attempts s). a_id a = c_attemptId c \<and> a_delivery_id a = c_deliveryId c \<and>
        a_attempt_number a = c_attemptNumber c \<and> attempt_open a)"

lemma claim_ok_live: "claim_ok s c \<longleftrightarrow> c_leaseId c \<in> drawn_ids s \<and> (holds c s \<longrightarrow> claim_live s c)"
  by (simp add: claim_ok_def claim_live_def)

text \<open>The half of it that is about the delivery.\<close>

definition claim_row :: "db \<Rightarrow> claimed_delivery \<Rightarrow> bool" where
  "claim_row s c \<longleftrightarrow> (\<exists>d\<in>set (deliveries s). d_id d = c_deliveryId c \<and> d_endpoint_id d = c_endpointId c \<and>
     d_state d = In_flight \<and> d_attempt_count d = c_attemptNumber c)"

lemma claim_live_row: "claim_live s c \<Longrightarrow> claim_row s c"
  by (simp add: claim_live_def claim_row_def)

lemma d_id_eq:
  "wf_db s \<Longrightarrow> d \<in> set (deliveries s) \<Longrightarrow> d' \<in> set (deliveries s) \<Longrightarrow> d_id d = d_id d' \<Longrightarrow> d = d'"
  by (rule distinct_map_eq [of d_id "deliveries s"]) (simp_all add: wf_db_def keys_ok_def)

section \<open>Reclaiming\<close>

lemma stmt_requeue_simps [simp]:
  "endpoints (stmt_requeue eid s) = endpoints s" "attempts (stmt_requeue eid s) = attempts s"
  "events (stmt_requeue eid s) = events s"
  "uuid_src (stmt_requeue eid s) = uuid_src s" "uuid_draws (stmt_requeue eid s) = uuid_draws s"
  by (simp_all add: stmt_requeue_def)

lemma requeue_none: "in_flight_of eid s = [] \<Longrightarrow> stmt_requeue eid s = s"
  by (simp add: stmt_requeue_def update_where_none in_flight_of_def filter_empty_conv)

lemma filter_update_where_none:
  "(\<And>r. P r \<Longrightarrow> \<not> Q (f r)) \<Longrightarrow> (\<And>r. Q r \<Longrightarrow> P r) \<Longrightarrow> filter Q (update_where P f xs) = []"
  by (induction xs) auto

lemma requeue_in_flight: "in_flight_of eid (stmt_requeue eid s) = []"
  unfolding in_flight_of_def stmt_requeue_def
  by (simp, rule filter_update_where_none; simp)

lemma requeue_in_flight_other:
  assumes "x \<noteq> eid"
  shows "in_flight_of x (stmt_requeue eid s) = in_flight_of x s"
proof -
  have "filter (\<lambda>d. d_endpoint_id d = x \<and> d_state d = In_flight)
      (update_where (\<lambda>d. d_endpoint_id d = eid \<and> d_state d = In_flight) (\<lambda>d. d\<lparr>d_state := Pending\<rparr>) ds) =
    filter (\<lambda>d. d_endpoint_id d = x \<and> d_state d = In_flight) ds" for ds
    by (rule filter_update_where_disjoint) (use assms in auto)
  then show ?thesis by (simp add: in_flight_of_def stmt_requeue_def)
qed

lemma requeue_mem:
  assumes "d \<in> set (deliveries s)"
  shows "\<exists>d'\<in>set (deliveries (stmt_requeue eid s)). d_id d' = d_id d \<and> d_endpoint_id d' = d_endpoint_id d \<and>
    d_attempt_count d' = d_attempt_count d \<and> (d_endpoint_id d \<noteq> eid \<longrightarrow> d' = d)"
  using assms
  by (intro bexI [of _ "if d_endpoint_id d = eid \<and> d_state d = In_flight then d\<lparr>d_state := Pending\<rparr> else d"])
     (simp_all add: stmt_requeue_def set_update_where)

lemma requeue_mem_back:
  assumes "d' \<in> set (deliveries (stmt_requeue eid s))"
  shows "\<exists>d\<in>set (deliveries s). d_id d' = d_id d \<and> d_attempt_count d' = d_attempt_count d \<and>
    (d_state d' = Failed \<longrightarrow> d_state d = Failed)"
  using assms by (auto simp: stmt_requeue_def set_update_where)

definition expired :: "uuid \<Rightarrow> attempt \<Rightarrow> attempt" where
  "expired did a = (if orphan did a then a\<lparr>a_error_class := Some Worker_lease_expired\<rparr> else a)"

lemma expired_simps [simp]:
  "a_id (expired did a) = a_id a" "a_delivery_id (expired did a) = a_delivery_id a"
  "a_attempt_number (expired did a) = a_attempt_number a" "a_sent_at (expired did a) = a_sent_at a"
  by (simp_all add: expired_def)

lemma attempts_of_expired:
  "attempts s' = map (expired did) (attempts s) \<Longrightarrow>
     map a_attempt_number (attempts_of x s') = map a_attempt_number (attempts_of x s)"
  by (simp add: attempts_of_def filter_map comp_def)

lemma reclaim_works:
  assumes wf: "wf_db s" and q: "queue_ok mxa s" and one: "length (in_flight_of (cand_id cand) s) \<le> 1"
    and idle: "\<not> cand_busy cand \<Longrightarrow> in_flight_of (cand_id cand) s = []"
  obtains s3 where "reclaim cand s = Some s3" "queue_ok mxa s3" "in_flight_of (cand_id cand) s3 = []"
    "\<And>x. x \<noteq> cand_id cand \<Longrightarrow> in_flight_of x s3 = in_flight_of x s" "endpoints s3 = endpoints s"
    "uuid_src s3 = uuid_src s" "uuid_draws s3 = uuid_draws s"
    "\<And>c. c_endpointId c \<noteq> cand_id cand \<Longrightarrow> claim_live s c \<Longrightarrow> claim_live s3 c"
proof (cases "in_flight_of (cand_id cand) s")
  case Nil
  then have "reclaim cand s = Some s"
    by (simp add: reclaim_def stmt_expire_orphans_def requeue_none)
  with Nil q that show thesis by blast
next
  case (Cons d ds)
  let ?eid = "cand_id cand"
  have fl: "in_flight_of ?eid s = [d]" using Cons one by simp
  have d: "d \<in> set (deliveries s)" "d_endpoint_id d = ?eid" "d_state d = In_flight"
    using arg_cong [OF fl, of set] by (auto simp: in_flight_of_def)
  let ?s1 = "s\<lparr>attempts := map (expired (d_id d)) (attempts s)\<rparr>"
  let ?s3 = "stmt_requeue ?eid ?s1"
  have "reclaim cand s = Some ?s3"
    using fl idle by (auto simp: reclaim_def stmt_expire_orphans_def update_where_def expired_def [abs_def])
  moreover have "queue_ok mxa ?s3"
    unfolding queue_ok_def
  proof (intro conjI)
    show "attempts_numbered ?s3"
      unfolding attempts_numbered_def
    proof
      fix d' assume "d' \<in> set (deliveries ?s3)"
      from requeue_mem_back [OF this] obtain d0 where "d0 \<in> set (deliveries s)" "d_id d' = d_id d0"
        "d_attempt_count d' = d_attempt_count d0" by auto
      with q attempts_of_expired [of ?s3 "d_id d" s]
      show "map a_attempt_number (attempts_of (d_id d') ?s3) = [1..<Suc (d_attempt_count d')]"
        by (simp add: queue_ok_def attempts_numbered_def)
    qed
    show "failed_spent mxa ?s3"
      unfolding failed_spent_def
    proof (intro ballI impI)
      fix d' assume "d' \<in> set (deliveries ?s3)" "d_state d' = Failed"
      with requeue_mem_back [of d' ?eid ?s1] obtain d0 where "d0 \<in> set (deliveries s)"
        "d_attempt_count d' = d_attempt_count d0" "d_state d0 = Failed" by auto
      with q show "mxa \<le> of_nat (d_attempt_count d')" by (simp add: queue_ok_def failed_spent_def)
    qed
    show "open_current ?s3"
      unfolding open_current_def
    proof
      fix a' assume "a' \<in> set (attempts ?s3)"
      then obtain a where a: "a \<in> set (attempts s)" "a' = expired (d_id d) a" by auto
      with q have sent: "a_sent_at a \<noteq> None" by (auto simp: queue_ok_def open_current_def)
      have "\<exists>x\<in>set (deliveries ?s3). d_id x = a_delivery_id a' \<and> d_state x = In_flight \<and>
          d_attempt_count x = a_attempt_number a'" if op: "attempt_open a'"
      proof -
        have "\<not> orphan (d_id d) a" using op a(2) by (auto simp: expired_def attempt_open_def)
        with sent op a(2) have na: "a_delivery_id a \<noteq> d_id d" "attempt_open a"
          by (auto simp: expired_def attempt_open_def orphan_def)
        with q a(1) obtain x where x: "x \<in> set (deliveries s)" "d_id x = a_delivery_id a"
          "d_state x = In_flight" "d_attempt_count x = a_attempt_number a"
          by (auto simp: queue_ok_def open_current_def)
        have "d_endpoint_id x \<noteq> ?eid"
        proof
          assume "d_endpoint_id x = ?eid"
          with x have "x \<in> set (in_flight_of ?eid s)" by (simp add: in_flight_of_def)
          with fl x na show False by simp
        qed
        with x requeue_mem [of x ?s1 ?eid] a(2) show ?thesis by force
      qed
      with sent a(2) show "a_sent_at a' \<noteq> None \<and> (attempt_open a' \<longrightarrow> (\<exists>x\<in>set (deliveries ?s3).
          d_id x = a_delivery_id a' \<and> d_state x = In_flight \<and> d_attempt_count x = a_attempt_number a'))"
        by simp
    qed
  qed
  moreover have "in_flight_of x ?s3 = in_flight_of x s" if "x \<noteq> ?eid" for x
    using requeue_in_flight_other [OF that, of ?s1] in_flight_of_cong [of ?s1 s x] by simp
  moreover have "claim_live ?s3 c" if c: "c_endpointId c \<noteq> ?eid" "claim_live s c" for c
  proof -
    from c(2) obtain x a where x: "x \<in> set (deliveries s)" "d_id x = c_deliveryId c"
      "d_endpoint_id x = c_endpointId c" "d_state x = In_flight" "d_attempt_count x = c_attemptNumber c"
      and a: "a \<in> set (attempts s)" "a_id a = c_attemptId c" "a_delivery_id a = c_deliveryId c"
      "a_attempt_number a = c_attemptNumber c" "attempt_open a"
      by (auto simp: claim_live_def)
    have "d_id d \<noteq> c_deliveryId c" using d_id_eq [OF wf x(1) d(1)] x d c by auto
    with a have "expired (d_id d) a = a" by (simp add: expired_def orphan_def)
    with a(1) have "a \<in> set (attempts ?s3)" by (force simp: image_iff)
    moreover from requeue_mem [of x ?s1 ?eid] x c have "x \<in> set (deliveries ?s3)" by auto
    ultimately show ?thesis using x a by (auto simp: claim_live_def)
  qed
  ultimately show thesis using requeue_in_flight by (intro that [of ?s3]) simp_all
qed

section \<open>Starting an attempt\<close>

definition started :: "delivery \<Rightarrow> delivery" where
  "started d = d\<lparr>d_state := In_flight, d_attempt_count := d_attempt_count d + 1\<rparr>"

definition new_attempt :: "ts \<Rightarrow> delivery \<Rightarrow> db \<Rightarrow> attempt" where
  "new_attempt now d s =
     \<lparr>a_id = uuid_src s (uuid_draws s), a_delivery_id = d_id d, a_attempt_number = d_attempt_count d + 1,
      a_sent_at = Some now, a_response_status = None, a_response_body_truncated = None,
      a_duration_ms = None, a_error_class = None, a_created_at = now\<rparr>"

lemma started_simps [simp]:
  "d_id (started d) = d_id d" "d_endpoint_id (started d) = d_endpoint_id d" "d_seq (started d) = d_seq d"
  "d_event_id (started d) = d_event_id d"
  "d_state (started d) = In_flight" "d_attempt_count (started d) = Suc (d_attempt_count d)"
  by (simp_all add: started_def)

lemma record_attempt_simps:
  "attempts (record_attempt now d s) = attempts s @ [new_attempt now d s]"
  "endpoints (record_attempt now d s) = endpoints s"
  "uuid_src (record_attempt now d s) = uuid_src s"
  "uuid_draws (record_attempt now d s) = Suc (uuid_draws s)"
  by (simp_all add: record_attempt_def stmt_in_flight_def stmt_insert_attempt_def gen_random_uuid_def Let_def
      new_attempt_def)

lemma record_attempt_deliveries:
  assumes "wf_db s" "d \<in> set (deliveries s)"
  shows "deliveries (record_attempt now d s) = map (\<lambda>x. if x = d then started d else x) (deliveries s)"
proof -
  have "deliveries (record_attempt now d s) =
      update_where (\<lambda>x. d_id x = d_id d) (\<lambda>x. x\<lparr>d_state := In_flight, d_attempt_count := d_attempt_count d + 1\<rparr>)
        (deliveries s)"
    by (simp add: record_attempt_def stmt_in_flight_def stmt_insert_attempt_def gen_random_uuid_def Let_def)
  also have "\<dots> = map (\<lambda>x. if x = d then started d else x) (deliveries s)"
    unfolding update_where_def using d_id_eq [OF assms(1) _ assms(2)]
    by (intro map_cong refl) (auto simp: started_def)
  finally show ?thesis .
qed

lemma filter_one:
  "distinct xs \<Longrightarrow> x \<in> set xs \<Longrightarrow> \<forall>y\<in>set xs. P y \<longleftrightarrow> y = x \<Longrightarrow> filter P xs = [x]"
proof (induction xs)
  case (Cons y ys)
  then show ?case by (cases "x = y") (auto simp: filter_empty_conv)
qed simp

lemma filter_map_at:
  "filter Q (map (\<lambda>x. if x = d then e else x) xs) =
     map (\<lambda>x. if x = d then e else x) (filter (\<lambda>x. if x = d then Q e else Q x) xs)"
  by (induction xs) auto

lemma record_attempt_one:
  assumes "wf_db s" "d \<in> set (deliveries s)" "d_state d = Pending" "in_flight_of (d_endpoint_id d) s = []"
  shows "in_flight_of (d_endpoint_id d) (record_attempt now d s) = [started d]"
    "x \<noteq> d_endpoint_id d \<Longrightarrow> in_flight_of x (record_attempt now d s) = in_flight_of x s"
proof -
  have "distinct (map d_id (deliveries s))" using assms(1) by (simp add: wf_db_def keys_ok_def)
  then have dist: "distinct (deliveries s)" by (simp add: distinct_map)
  have "filter (\<lambda>y. if y = d then d_endpoint_id (started d) = d_endpoint_id d \<and> d_state (started d) = In_flight
      else d_endpoint_id y = d_endpoint_id d \<and> d_state y = In_flight) (deliveries s) = [d]"
    by (rule filter_one [OF dist assms(2)]) (use assms(4) in \<open>auto simp: in_flight_of_def filter_empty_conv\<close>)
  then show "in_flight_of (d_endpoint_id d) (record_attempt now d s) = [started d]"
    unfolding in_flight_of_def record_attempt_deliveries [OF assms(1,2)] filter_map_at by simp
  assume x: "x \<noteq> d_endpoint_id d"
  have "filter (\<lambda>y. if y = d then d_endpoint_id (started d) = x \<and> d_state (started d) = In_flight
      else d_endpoint_id y = x \<and> d_state y = In_flight) (deliveries s) = in_flight_of x s"
    unfolding in_flight_of_def by (rule filter_cong) (use x in auto)
  moreover have "map (\<lambda>y. if y = d then started d else y) (in_flight_of x s) = in_flight_of x s"
    by (rule map_idI) (use x in \<open>auto simp: in_flight_of_def\<close>)
  ultimately show "in_flight_of x (record_attempt now d s) = in_flight_of x s"
    unfolding in_flight_of_def record_attempt_deliveries [OF assms(1,2)] filter_map_at
    by (simp add: in_flight_of_def)
qed

lemma queue_ok_record_attempt:
  assumes wf: "wf_db s" and q: "queue_ok mxa s" and d: "d \<in> set (deliveries s)" "d_state d = Pending"
  shows "queue_ok mxa (record_attempt now d s)"
  unfolding queue_ok_def
proof (intro conjI)
  note ds = record_attempt_deliveries [OF wf d(1), of now] and at_s = record_attempt_simps(1) [of now d s]
  show "attempts_numbered (record_attempt now d s)"
    unfolding attempts_numbered_def
  proof
    fix x assume "x \<in> set (deliveries (record_attempt now d s))"
    then consider "x = started d" | "x \<in> set (deliveries s)" "x \<noteq> d" by (auto simp: ds split: if_splits)
    then show "map a_attempt_number (attempts_of (d_id x) (record_attempt now d s)) = [1..<Suc (d_attempt_count x)]"
    proof cases
      case 1
      with q d(1) show ?thesis
        by (simp add: attempts_of_def at_s new_attempt_def queue_ok_def attempts_numbered_def)
    next
      case 2
      then have "d_id x \<noteq> d_id d" using d_id_eq [OF wf 2(1) d(1)] by blast
      with q 2 show ?thesis
        by (simp add: attempts_of_def at_s new_attempt_def queue_ok_def attempts_numbered_def)
    qed
  qed
  show "open_current (record_attempt now d s)"
    unfolding open_current_def
  proof
    fix a assume "a \<in> set (attempts (record_attempt now d s))"
    then consider "a = new_attempt now d s" | "a \<in> set (attempts s)" by (auto simp: at_s)
    then show "a_sent_at a \<noteq> None \<and> (attempt_open a \<longrightarrow> (\<exists>x\<in>set (deliveries (record_attempt now d s)).
        d_id x = a_delivery_id a \<and> d_state x = In_flight \<and> d_attempt_count x = a_attempt_number a))"
    proof cases
      case 1
      have "started d \<in> set (deliveries (record_attempt now d s))" using d(1) by (force simp: ds)
      with 1 show ?thesis by (auto simp: new_attempt_def intro!: bexI [of _ "started d"])
    next
      case 2
      with q have "a_sent_at a \<noteq> None \<and> (attempt_open a \<longrightarrow> (\<exists>x\<in>set (deliveries s).
          d_id x = a_delivery_id a \<and> d_state x = In_flight \<and> d_attempt_count x = a_attempt_number a))"
        by (simp add: queue_ok_def open_current_def)
      moreover have "x \<in> set (deliveries (record_attempt now d s))"
        if "x \<in> set (deliveries s)" "d_state x = In_flight" for x
        using that d(2) by (auto simp: ds)
      ultimately show ?thesis by blast
    qed
  qed
  show "failed_spent mxa (record_attempt now d s)"
    using q by (auto simp: failed_spent_def ds queue_ok_def split: if_splits)
qed

lemma claim_live_record_attempt:
  assumes "wf_db s" "d \<in> set (deliveries s)" "d_state d = Pending" "claim_live s c"
  shows "claim_live (record_attempt now d s) c"
  using assms(3,4) by (auto simp: claim_live_def record_attempt_deliveries [OF assms(1,2)] record_attempt_simps)

section \<open>Taking and freeing a lease\<close>

text \<open>The state between taking the lease and the end of the claim, as far as the endpoints go.\<close>

definition claimed_state :: "uuid \<Rightarrow> uuid \<Rightarrow> db \<Rightarrow> db \<Rightarrow> bool" where
  "claimed_state eid l s t \<longleftrightarrow> l \<notin> drawn_ids s \<and> l \<in> drawn_ids t \<and> drawn_ids s \<subseteq> drawn_ids t \<and>
     fence eid t = Some l \<and> (\<forall>x. x \<noteq> eid \<longrightarrow> fence x t = fence x s) \<and>
     (\<forall>e\<in>set (endpoints t). if ep_id e = eid then ep_busy e
        else length (in_flight_of (ep_id e) s) \<le> 1 \<and> (in_flight_of (ep_id e) s \<noteq> [] \<longrightarrow> ep_busy e))"

lemma stmt_serve_simps [simp]:
  "endpoints (stmt_serve now tid s) = endpoints s" "deliveries (stmt_serve now tid s) = deliveries s"
  "attempts (stmt_serve now tid s) = attempts s" "events (stmt_serve now tid s) = events s"
  "uuid_src (stmt_serve now tid s) = uuid_src s" "uuid_draws (stmt_serve now tid s) = uuid_draws s"
  "in_flight_of eid (stmt_serve now tid s) = in_flight_of eid s"
  "fence eid (stmt_serve now tid s) = fence eid s" "drawn_ids (stmt_serve now tid s) = drawn_ids s"
  by (simp_all add: stmt_serve_def in_flight_of_def fence_def drawn_ids_def)

lemma endpoint_eq:
  "wf_db s \<Longrightarrow> e \<in> set (endpoints s) \<Longrightarrow> e' \<in> set (endpoints s) \<Longrightarrow> ep_id e = ep_id e' \<Longrightarrow> e = e'"
  by (rule distinct_map_eq [of ep_id "endpoints s"]) (simp_all add: wf_db_def keys_ok_def)

lemma fence_update_other:
  assumes "\<And>e. P e \<Longrightarrow> ep_id (f e) = ep_id e" "\<And>e. P e \<Longrightarrow> ep_id e = eid" "x \<noteq> eid"
  shows "fence x (s\<lparr>endpoints := update_where P f (endpoints s)\<rparr>) = fence x s"
proof -
  have "find_by ep_id x (update_where P f es) = find_by ep_id x es" for es
    by (induction es) (use assms in auto)
  then show ?thesis by (simp add: fence_def)
qed

lemma fence_take:
  assumes "wf_db s" "e \<in> set (endpoints s)" "ep_id e = eid" "P e" "\<And>e. ep_id (f e) = ep_id e"
  shows "fence eid (s\<lparr>endpoints := update_where P f (endpoints s)\<rparr>) = ep_lease_id (f e)"
proof -
  have "find_by ep_id eid (endpoints s) = Some e"
    by (rule find_by_eq_Some) (use assms in \<open>simp_all add: wf_db_def keys_ok_def\<close>)
  then show ?thesis by (simp add: fence_def find_by_update_where assms(4,5))
qed

lemma stmt_claim_state:
  assumes "stmt_claim now cutoff eid s = (Some l, s1)" "wf_db s" "single_flight s"
  shows "claimed_state eid l s (stmt_serve t tid s1)" "wf_db (stmt_serve t tid s1)"
    "deliveries s1 = deliveries s" "attempts s1 = attempts s" "events s1 = events s"
    "length (in_flight_of eid s) \<le> 1"
    "fresh_candidate cand s \<Longrightarrow> cand_id cand = eid \<Longrightarrow> \<not> cand_busy cand \<Longrightarrow> in_flight_of eid s = []"
proof -
  note s1 = stmt_claim_SomeD [OF assms(1)]
  obtain e where e: "e \<in> set (endpoints s)" "ep_id e = eid" "claimable cutoff e" using s1(3) by blast
  have "wf_db s1" using wf_stmt_claim [OF assms(2), of now cutoff eid] assms(1) by simp
  then show "wf_db (stmt_serve t tid s1)" by (rule wf_stmt_serve)
  show same: "deliveries s1 = deliveries s" "attempts s1 = attempts s" "events s1 = events s" by (simp_all add: s1(2))
  show "length (in_flight_of eid s) \<le> 1" using assms(3) e by (auto simp: single_flight_def)
  show "in_flight_of eid s = []" if "fresh_candidate cand s" "cand_id cand = eid" "\<not> cand_busy cand"
    using that e assms(3) by (auto simp: fresh_candidate_def single_flight_def)
  have l: "l \<notin> drawn_ids s" using draw_fresh [of s] assms(2) s1(1) by (simp add: wf_db_def)
  have drawn: "drawn_ids s1 = insert l (drawn_ids s)" using s1(1,2) by (auto simp: drawn_ids_def lessThan_Suc)
  have fences: "fence eid s1 = Some l" "x \<noteq> eid \<Longrightarrow> fence x s1 = fence x s" for x
    using fence_take [OF assms(2) e(1,2), of "\<lambda>e. ep_id e = eid \<and> claimable cutoff e" "take_lease now l"] e
      fence_update_other [of "\<lambda>e. ep_id e = eid \<and> claimable cutoff e" "take_lease now l" eid x s]
    by (simp_all add: s1(2) fence_def)
  have "if ep_id e' = eid then ep_busy e'
      else length (in_flight_of (ep_id e') s) \<le> 1 \<and> (in_flight_of (ep_id e') s \<noteq> [] \<longrightarrow> ep_busy e')"
    if "e' \<in> set (endpoints s1)" for e'
  proof -
    have "e' \<in> set (update_where (\<lambda>e. ep_id e = eid \<and> claimable cutoff e) (take_lease now l) (endpoints s))"
      using that by (simp add: s1(2))
    then consider y where "y \<in> set (endpoints s)" "ep_id y = eid" "e' = take_lease now l y"
      | "e' \<in> set (endpoints s)" "\<not> (ep_id e' = eid \<and> claimable cutoff e')"
      by (rule update_where_inE) blast+
    then show ?thesis
    proof cases
      case 1
      then show ?thesis by simp
    next
      case 2
      then have "ep_id e' \<noteq> eid" using endpoint_eq [OF assms(2) 2(1) e(1)] e by auto
      with 2 assms(3) show ?thesis by (auto simp: single_flight_def)
    qed
  qed
  with l drawn fences show "claimed_state eid l s (stmt_serve t tid s1)"
    unfolding claimed_state_def stmt_serve_simps by blast
qed

lemma claimed_state_cong:
  assumes "claimed_state eid l s t" "endpoints t' = endpoints t" "uuid_src t' = uuid_src t" "uuid_draws t \<le> uuid_draws t'"
  shows "claimed_state eid l s t'"
  using assms by (auto simp: claimed_state_def fence_def drawn_ids_def)

lemma claimed_state_claims:
  assumes "claimed_state eid l s t" "claim_ok s c" "\<And>c. c_endpointId c \<noteq> eid \<Longrightarrow> claim_live s c \<Longrightarrow> claim_live t c"
  shows "claim_ok t c"
proof -
  have "c_leaseId c \<in> drawn_ids s" "holds c s \<Longrightarrow> claim_live s c" using assms(2) by (auto simp: claim_ok_live)
  with assms(1,3) show ?thesis
    by (cases "c_endpointId c = eid") (auto simp: claim_ok_live claimed_state_def holds_def)
qed

lemma stmt_release_state:
  assumes "claimed_state eid l s t" "wf_db t" "\<And>x. x \<noteq> eid \<Longrightarrow> in_flight_of x t = in_flight_of x s"
    "in_flight_of eid t = []"
  shows "single_flight (stmt_release eid l t)"
    "holds c (stmt_release eid l t) \<Longrightarrow> holds c t \<and> c_endpointId c \<noteq> eid"
proof -
  let ?P = "\<lambda>e. ep_id e = eid \<and> ep_lease_id e = Some l"
  have flight: "in_flight_of x (stmt_release eid l t) = in_flight_of x t" for x
    by (simp add: in_flight_of_def stmt_release_def)
  show "single_flight (stmt_release eid l t)"
    unfolding single_flight_def flight
  proof
    fix e assume "e \<in> set (endpoints (stmt_release eid l t))"
    then have "e \<in> set (update_where ?P free_lease (endpoints t))" by (simp add: stmt_release_def)
    then obtain y where y: "y \<in> set (endpoints t)" "ep_id e = ep_id y" "ep_id y \<noteq> eid \<Longrightarrow> e = y"
      by (rule update_where_inE) auto
    show "length (in_flight_of (ep_id e) t) \<le> 1 \<and> (in_flight_of (ep_id e) t \<noteq> [] \<longrightarrow> ep_busy e)"
    proof (cases "ep_id e = eid")
      case True
      then show ?thesis by (simp add: assms(4))
    next
      case False
      with y have "e \<in> set (endpoints t)" by auto
      with False assms(1,3) show ?thesis by (auto simp: claimed_state_def)
    qed
  qed
  obtain e where e: "find_by ep_id eid (endpoints t) = Some e" "ep_lease_id e = Some l"
    using assms(1) by (auto simp: claimed_state_def fence_def split: option.splits)
  have "fence eid (stmt_release eid l t) = None"
    using fence_take [OF assms(2), of e eid ?P free_lease] e find_by_Some [OF e(1)] by (simp add: stmt_release_def)
  moreover have "fence x (stmt_release eid l t) = fence x t" if "x \<noteq> eid" for x
    unfolding stmt_release_def by (rule fence_update_other [of ?P]) (use that in auto)
  ultimately show "holds c (stmt_release eid l t) \<Longrightarrow> holds c t \<and> c_endpointId c \<noteq> eid"
    by (cases "c_endpointId c = eid") (auto simp: holds_def)
qed

section \<open>The claim\<close>

lemma stmt_release_frame [simp]:
  "deliveries (stmt_release eid l s) = deliveries s" "attempts (stmt_release eid l s) = attempts s"
  "uuid_src (stmt_release eid l s) = uuid_src s" "uuid_draws (stmt_release eid l s) = uuid_draws s"
  by (simp_all add: stmt_release_def)

lemma single_flight_claimed:
  assumes "claimed_state eid l s t" "\<And>x. x \<noteq> eid \<Longrightarrow> in_flight_of x t = in_flight_of x s"
    "length (in_flight_of eid t) \<le> 1"
  shows "single_flight t"
  unfolding single_flight_def
proof
  fix e assume e: "e \<in> set (endpoints t)"
  with assms(1) have *: "if ep_id e = eid then ep_busy e
      else length (in_flight_of (ep_id e) s) \<le> 1 \<and> (in_flight_of (ep_id e) s \<noteq> [] \<longrightarrow> ep_busy e)"
    unfolding claimed_state_def by blast
  show "length (in_flight_of (ep_id e) t) \<le> 1 \<and> (in_flight_of (ep_id e) t \<noteq> [] \<longrightarrow> ep_busy e)"
  proof (cases "ep_id e = eid")
    case True
    with * assms(3) show ?thesis by simp
  next
    case False
    with * assms(2) [OF False] show ?thesis by simp
  qed
qed

definition claim_post :: "rat \<Rightarrow> db \<Rightarrow> worker_error + claimed_delivery option \<Rightarrow> db \<Rightarrow> bool" where
  "claim_post mxa s r s' \<longleftrightarrow> db_ok mxa s' \<and> (\<forall>c. claim_ok s c \<longrightarrow> claim_ok s' c) \<and>
     drawn_ids s \<subseteq> drawn_ids s' \<and> r \<noteq> Inl Cardinality_violation \<and>
     (\<forall>c. r = Inr (Some c) \<longrightarrow> claim_ok s' c \<and> holds c s' \<and> c_leaseId c \<notin> drawn_ids s)"

lemma claim_post_started:
  assumes st: "claimed_state eid l s t" and wf: "wf_db t" and q: "queue_ok mxa t"
    and d: "d \<in> set (deliveries t)" "d_endpoint_id d = eid" "d_state d = Pending"
    and none: "in_flight_of eid t = []"
    and other: "\<And>x. x \<noteq> eid \<Longrightarrow> in_flight_of x t = in_flight_of x s"
    and live: "\<And>c. c_endpointId c \<noteq> eid \<Longrightarrow> claim_live s c \<Longrightarrow> claim_live t c"
    and r: "r \<noteq> Inl Cardinality_violation"
      "\<And>c. r = Inr (Some c) \<Longrightarrow> c_endpointId c = eid \<and> c_leaseId c = l \<and> c_deliveryId c = d_id d \<and>
         c_attemptNumber c = d_attempt_count d + 1 \<and> c_attemptId c = uuid_src t (uuid_draws t)"
  shows "claim_post mxa s r (record_attempt now d t)"
proof -
  let ?t = "record_attempt now d t"
  note ds = record_attempt_deliveries [OF wf d(1), of now]
  have st': "claimed_state eid l s ?t"
    by (rule claimed_state_cong [OF st]) (simp_all add: record_attempt_simps)
  note one = record_attempt_one [OF wf d(1,3) none [folded d(2)], where now = now, unfolded d(2)]
  have "single_flight ?t"
    by (rule single_flight_claimed [OF st']) (simp_all add: one other)
  moreover have "wf_db ?t" by (rule wf_record_attempt [OF wf d(1)])
  moreover have "queue_ok mxa ?t" by (rule queue_ok_record_attempt [OF wf q d(1,3)])
  moreover have "claim_ok ?t c" if "claim_ok s c" for c
    by (rule claimed_state_claims [OF st' that])
       (use live claim_live_record_attempt [OF wf d(1,3)] in blast)
  moreover have "claim_ok ?t c \<and> holds c ?t \<and> c_leaseId c \<notin> drawn_ids s" if c: "r = Inr (Some c)" for c
  proof -
    have "started d \<in> set (deliveries ?t)" using d(1) by (force simp: ds)
    moreover have "new_attempt now d t \<in> set (attempts ?t)" by (simp add: record_attempt_simps)
    ultimately have "claim_live ?t c"
      unfolding claim_live_def using r(2) [OF c] d(2)
      by (intro conjI bexI [of _ "started d"] bexI [of _ "new_attempt now d t"])
         (simp_all add: new_attempt_def attempt_open_def)
    with st' r(2) [OF c] show ?thesis by (simp add: claim_ok_live claimed_state_def holds_def)
  qed
  moreover have "drawn_ids s \<subseteq> drawn_ids ?t" using st' by (simp add: claimed_state_def)
  ultimately show ?thesis using r(1) by (simp add: claim_post_def db_ok_split)
qed

lemma claim_post_same: "db_ok mxa s \<Longrightarrow> claim_post mxa s (Inr None) s"
  by (simp add: claim_post_def)

text \<open>The state in which a claim looks for the head: the lease is taken and nothing of the endpoint is in flight.\<close>

lemma claim_prepared:
  assumes cl: "stmt_claim (at_claim clk) cutoff (cand_id cand) s = (Some l, s1)" and ok: "db_ok mxa s"
    and fresh: "fresh_candidate cand s"
  obtains t where "reclaim cand (stmt_serve (at_serve clk) (cand_tenant_id cand) s1) = Some t"
    "claimed_state (cand_id cand) l s t" "wf_db t" "queue_ok mxa t" "in_flight_of (cand_id cand) t = []"
    "\<And>x. x \<noteq> cand_id cand \<Longrightarrow> in_flight_of x t = in_flight_of x s"
    "\<And>c. c_endpointId c \<noteq> cand_id cand \<Longrightarrow> claim_live s c \<Longrightarrow> claim_live t c"
    "endpoints t = endpoints s1"
proof -
  let ?eid = "cand_id cand" and ?s2 = "stmt_serve (at_serve clk) (cand_tenant_id cand) s1"
  have wf: "wf_db s" and sf: "single_flight s" and q: "queue_ok mxa s" using ok by (simp_all add: db_ok_split)
  note a = stmt_claim_state [OF cl wf sf]
  have fl: "in_flight_of x ?s2 = in_flight_of x s" for x using a(3) by (simp add: in_flight_of_def)
  have q2: "queue_ok mxa ?s2" using q queue_ok_cong [of ?s2 s] a(3,4) by simp
  obtain t where t: "reclaim cand ?s2 = Some t" "queue_ok mxa t" "in_flight_of ?eid t = []"
    "\<And>x. x \<noteq> ?eid \<Longrightarrow> in_flight_of x t = in_flight_of x ?s2" "endpoints t = endpoints ?s2"
    "uuid_src t = uuid_src ?s2" "uuid_draws t = uuid_draws ?s2"
    "\<And>c. c_endpointId c \<noteq> ?eid \<Longrightarrow> claim_live ?s2 c \<Longrightarrow> claim_live t c"
    by (rule reclaim_works [of ?s2 mxa cand]) (use a(2,6) a(7) [OF fresh refl] fl q2 in simp_all)
  have "claimed_state ?eid l s t" by (rule claimed_state_cong [OF a(1)]) (simp_all add: t(5-7))
  moreover have "claim_live ?s2 c \<longleftrightarrow> claim_live s c" for c using a(3,4) by (simp add: claim_live_def)
  ultimately show thesis using that [of t] wf_reclaim [OF t(1) a(2)] t fl by simp
qed

lemma tryClaimEndpoint_post:
  assumes run: "tryClaimEndpoint dec clk cand cutoff s = (r, s')" and ok: "db_ok mxa s"
    and fresh: "fresh_candidate cand s"
  shows "claim_post mxa s r s'"
proof -
  let ?eid = "cand_id cand"
  have mid: "claimed_state ?eid l s t \<and> wf_db t \<and> queue_ok mxa t \<and> in_flight_of ?eid t = [] \<and>
      (\<forall>x. x \<noteq> ?eid \<longrightarrow> in_flight_of x t = in_flight_of x s) \<and>
      (\<forall>c. c_endpointId c \<noteq> ?eid \<longrightarrow> claim_live s c \<longrightarrow> claim_live t c)"
    if "stmt_claim (at_claim clk) cutoff ?eid s = (Some l, s1)"
      and "reclaim cand (stmt_serve (at_serve clk) (cand_tenant_id cand) s1) = Some t" for l s1 t
    by (rule claim_prepared [OF that(1) ok fresh]) (use that(2) in simp)
  have no_error: "reclaim cand (stmt_serve (at_serve clk) (cand_tenant_id cand) s1) \<noteq> None"
    if "stmt_claim (at_claim clk) cutoff ?eid s = (Some l, s1)" for l s1
    by (rule claim_prepared [OF that ok fresh]) simp
  from run show ?thesis
  proof (cases rule: tryClaimEndpoint_cases)
    case lost
    with ok show ?thesis by (simp add: claim_post_same)
  next
    case (ambiguous l s1)
    with no_error show ?thesis by blast
  next
    case (idle l s1 t)
    note m = mid [OF idle(1,2)]
    have rel: "single_flight (stmt_release ?eid l t)" "\<And>c. holds c (stmt_release ?eid l t) \<Longrightarrow> holds c t \<and> c_endpointId c \<noteq> ?eid"
      using stmt_release_state [of ?eid l s t] m by blast+
    have "wf_db (stmt_release ?eid l t)" using m by (simp add: wf_stmt_release)
    moreover have "queue_ok mxa (stmt_release ?eid l t)"
      using m queue_ok_cong [of "stmt_release ?eid l t" t] by simp
    moreover have dr: "drawn_ids (stmt_release ?eid l t) = drawn_ids t" by (simp add: drawn_ids_def)
    moreover have "claim_ok (stmt_release ?eid l t) c" if "claim_ok s c" for c
    proof -
      have "claim_ok t c" by (rule claimed_state_claims [OF _ that]) (use m in blast)+
      with rel(2) [of c] dr show ?thesis by (auto simp: claim_ok_live claim_live_def)
    qed
    ultimately show ?thesis
      using m rel(1) idle(4,5) by (simp add: claim_post_def db_ok_split claimed_state_def)
  next
    case (unreadable l s1 t d v e)
    note m = mid [OF unreadable(1,2)]
    with select_head_SomeD(1-3) [OF _ unreadable(3)] unreadable(6,7) show ?thesis
      by (auto intro!: claim_post_started [of ?eid l s t mxa d])
  next
    case (claimed l s1 t d v e p u)
    note m = mid [OF claimed(1,2)]
    have d: "d \<in> set (deliveries t)" "d_endpoint_id d = ?eid" "d_state d = Pending"
      using select_head_SomeD(1-3) [OF _ claimed(3)] m by blast+
    have "claim_post mxa s r (record_attempt (at_sent clk) d t)"
      by (rule claim_post_started [of ?eid l s t mxa d]) (use m d claimed(6) in \<open>simp_all add: new_claim_def\<close>)
    with claimed(7) show ?thesis by simp
  qed
qed

end
