(* ===== verification/Http_Client.thy ===== *)
theory Http_Client
  imports Url_Validation Schema
begin

text \<open>
  \<^verbatim>\<open>node/src/worker/httpClient.ts\<close>: \<open>resolveAndPin\<close>, and \<open>sendOutboundRequest\<close> as the state machine its
  callbacks form.  A state is what the closures share (\<^verbatim>\<open>settled\<close>, the two timers, the response's
  status and the bytes received) plus the value the promise was resolved with; an event is one
  callback invocation of Node's event loop, with the clock reading it makes.  A timer callback only
  runs while its timer is armed, a once-listener once.  \<open>utf8\<close> is \<^verbatim>\<open>Buffer.toString("utf8")\<close>, which
  replaces ill-formed sequences.
\<close>

section \<open>resolveAndPin\<close>

datatype pin_result = Pinned string | Pin_rejected string

text \<open>\<open>resolver\<close> yields None when the lookup rejects.\<close>

definition resolveAndPin :: "string \<Rightarrow> (string \<Rightarrow> string list option) \<Rightarrow> pin_result" where
  "resolveAndPin hostname resolver =
     (if isIP hostname \<noteq> 0 then
        (case checkAddress hostname of Allowed \<Rightarrow> Pinned hostname | Rejected m \<Rightarrow> Pin_rejected m)
      else case resolver hostname of
             None \<Rightarrow> Pin_rejected ''Could not resolve hostname''
           | Some resolved \<Rightarrow>
               if resolved = [] then Pin_rejected ''Could not resolve hostname''
               else case first_rejected resolved of
                      Rejected m \<Rightarrow> Pin_rejected m
                    | Allowed \<Rightarrow> Pinned (hd resolved))"

text \<open>
  The \<^verbatim>\<open>lookup\<close> option given to the socket: whatever host it is asked for, it answers the pinned
  address, in the form the caller wants.
\<close>

definition pinnedFamily :: "string \<Rightarrow> nat" where
  "pinnedFamily ip = (if isIP ip = 6 then 6 else 4)"

datatype lookup_answer = All_addresses "(string \<times> nat) list" | One_address string nat

definition pinnedLookup :: "string \<Rightarrow> nat \<Rightarrow> string \<Rightarrow> bool \<Rightarrow> lookup_answer" where
  "pinnedLookup ip family hostname want_all =
     (if want_all then All_addresses [(ip, family)] else One_address ip family)"

section \<open>The request's options\<close>

record request_options =
  ro_method :: string
  ro_hostname :: string
  ro_port :: string
  ro_path :: string
  ro_headers :: "(string \<times> string) list"
  ro_servername :: "string option"
  ro_lookup :: "string \<Rightarrow> bool \<Rightarrow> lookup_answer"

definition outbound_request :: "string \<Rightarrow> js_url \<Rightarrow> string \<Rightarrow> (string \<times> string) list \<Rightarrow> request_options" where
  "outbound_request ip url meth headers =
     (let isHttps = (u_protocol url = ''https:'') in
      \<lparr>ro_method = meth, ro_hostname = u_hostname url,
       ro_port = (if u_port url \<noteq> [] then u_port url else if isHttps then ''443'' else ''80''),
       ro_path = u_pathname url @ u_search url, ro_headers = headers,
       ro_servername = (if isHttps then Some (u_hostname url) else None),
       ro_lookup = pinnedLookup ip (pinnedFamily ip)\<rparr>)"

section \<open>sendOutboundRequest\<close>

definition classifyError :: "string \<Rightarrow> network_error_class" where
  "classifyError code =
     (if code = ''ECONNREFUSED'' then Connection_refused
      else if code = ''ENOTFOUND'' then Dns_error
      else if code = ''ECONNRESET'' then Connection_reset
      else Connection_error)"

record outbound_result =
  or_status :: "int option"
  or_body :: string
  or_duration :: int
  or_error :: "network_error_class option"

datatype net_event =
    Connect_timer
  | Total_timer
  | Socket_connected
  | Request_error string
  | Response_headers "int option"
  | Response_data bytes
  | Response_end
  | Response_error

record net_state =
  n_result :: "outbound_result option"
  n_connect_armed :: bool
  n_total_armed :: bool
  n_error_seen :: bool
  n_response :: "int option option"
  n_received :: bytes

definition net_start :: net_state where
  "net_start = \<lparr>n_result = None, n_connect_armed = True, n_total_armed = True,
     n_error_seen = False, n_response = None, n_received = []\<rparr>"

text \<open>\<open>settled\<close> of the code is \<open>n_result s \<noteq> None\<close>.\<close>

definition finish :: "outbound_result \<Rightarrow> net_state \<Rightarrow> net_state" where
  "finish r s =
     (if n_result s \<noteq> None then s
      else s\<lparr>n_result := Some r, n_connect_armed := False, n_total_armed := False\<rparr>)"

definition no_response :: "int \<Rightarrow> network_error_class \<Rightarrow> outbound_result" where
  "no_response d c = \<lparr>or_status = None, or_body = [], or_duration = d, or_error = Some c\<rparr>"

definition with_response :: "(bytes \<Rightarrow> string) \<Rightarrow> int option \<Rightarrow> bytes \<Rightarrow> int \<Rightarrow> outbound_result" where
  "with_response utf8 st received d =
     \<lparr>or_status = st, or_body = utf8 received, or_duration = d, or_error = None\<rparr>"

definition on_data :: "(bytes \<Rightarrow> string) \<Rightarrow> nat \<Rightarrow> int \<Rightarrow> int option \<Rightarrow> bytes \<Rightarrow> net_state \<Rightarrow> net_state" where
  "on_data utf8 maxBytes d st chunk s =
     (if n_result s \<noteq> None then s
      else if length (n_received s) + length chunk > maxBytes then
        (let received = take maxBytes (n_received s @ chunk)
         in finish (with_response utf8 st received d) (s\<lparr>n_received := received\<rparr>))
      else s\<lparr>n_received := n_received s @ chunk\<rparr>)"

text \<open>One callback; \<open>d\<close> is \<^verbatim>\<open>Date.now() - startedAt\<close> when it runs.\<close>

definition net_step :: "(bytes \<Rightarrow> string) \<Rightarrow> nat \<Rightarrow> int \<times> net_event \<Rightarrow> net_state \<Rightarrow> net_state" where
  "net_step utf8 maxBytes ev s =
     (case snd ev of
        Connect_timer \<Rightarrow> if n_connect_armed s then finish (no_response (fst ev) Connect_timeout) s else s
      | Total_timer \<Rightarrow> if n_total_armed s then finish (no_response (fst ev) Total_timeout) s else s
      | Socket_connected \<Rightarrow> s\<lparr>n_connect_armed := False\<rparr>
      | Request_error code \<Rightarrow>
          if n_error_seen s then s
          else finish (no_response (fst ev) (classifyError code)) (s\<lparr>n_error_seen := True\<rparr>)
      | Response_headers st \<Rightarrow>
          (case n_response s of None \<Rightarrow> s\<lparr>n_response := Some st\<rparr> | Some _ \<Rightarrow> s)
      | Response_data chunk \<Rightarrow>
          (case n_response s of None \<Rightarrow> s | Some st \<Rightarrow> on_data utf8 maxBytes (fst ev) st chunk s)
      | Response_end \<Rightarrow>
          (case n_response s of None \<Rightarrow> s
           | Some st \<Rightarrow> finish (with_response utf8 st (n_received s) (fst ev)) s)
      | Response_error \<Rightarrow>
          (case n_response s of None \<Rightarrow> s
           | Some st \<Rightarrow> finish (with_response utf8 st (n_received s) (fst ev)) s))"

definition net_run :: "(bytes \<Rightarrow> string) \<Rightarrow> nat \<Rightarrow> (int \<times> net_event) list \<Rightarrow> net_state \<Rightarrow> net_state" where
  "net_run utf8 maxBytes evs s = fold (net_step utf8 maxBytes) evs s"

definition sendOutboundRequest :: "(bytes \<Rightarrow> string) \<Rightarrow> nat \<Rightarrow> (int \<times> net_event) list \<Rightarrow> outbound_result option" where
  "sendOutboundRequest utf8 maxBytes evs = n_result (net_run utf8 maxBytes evs net_start)"

section \<open>Invariant of the state machine\<close>

text \<open>
  What every state reached satisfies: the bytes kept are bounded; the total timer is armed exactly
  while the promise is pending and the connect timer only then; a result carries a body cut to the
  bound and an error class exactly when no response arrived.
\<close>

definition result_ok :: "(bytes \<Rightarrow> string) \<Rightarrow> nat \<Rightarrow> net_state \<Rightarrow> outbound_result \<Rightarrow> bool" where
  "result_ok utf8 maxBytes s r \<longleftrightarrow>
     (if or_error r = None
      then n_response s = Some (or_status r) \<and>
        (\<exists>bs. length bs \<le> maxBytes \<and> or_body r = utf8 bs)
      else or_status r = None \<and> or_body r = [])"

definition net_inv :: "(bytes \<Rightarrow> string) \<Rightarrow> nat \<Rightarrow> net_state \<Rightarrow> bool" where
  "net_inv utf8 maxBytes s \<longleftrightarrow>
     length (n_received s) \<le> maxBytes \<and>
     (n_total_armed s \<longleftrightarrow> n_result s = None) \<and>
     (n_connect_armed s \<longrightarrow> n_result s = None) \<and>
     (\<forall>r. n_result s = Some r \<longrightarrow> result_ok utf8 maxBytes s r)"

lemma net_inv_start: "net_inv utf8 maxBytes net_start"
  by (simp add: net_inv_def net_start_def)

lemma net_inv_finish:
  "net_inv utf8 maxBytes s \<Longrightarrow> result_ok utf8 maxBytes s r \<Longrightarrow> net_inv utf8 maxBytes (finish r s)"
  by (auto simp: net_inv_def finish_def result_ok_def)

lemma net_inv_step:
  assumes "net_inv utf8 maxBytes s"
  shows "net_inv utf8 maxBytes (net_step utf8 maxBytes ev s)"
proof -
  have none: "result_ok utf8 maxBytes t (no_response d c)" for t d c
    by (simp add: result_ok_def no_response_def)
  have some: "n_response t = Some st \<Longrightarrow> length bs \<le> maxBytes \<Longrightarrow>
      result_ok utf8 maxBytes t (with_response utf8 st bs d)" for t st bs d
    by (auto simp: result_ok_def with_response_def)
  have rec: "length (n_received s) \<le> maxBytes" using assms by (simp add: net_inv_def)
  show ?thesis
  proof (cases "snd ev")
    case (Request_error code)
    have "net_inv utf8 maxBytes (s\<lparr>n_error_seen := True\<rparr>)"
      using assms by (auto simp: net_inv_def result_ok_def)
    with Request_error assms none show ?thesis by (simp add: net_step_def net_inv_finish)
  next
    case (Response_headers st)
    with assms show ?thesis by (auto simp: net_step_def net_inv_def result_ok_def split: option.splits)
  next
    case (Response_data chunk)
    show ?thesis
    proof (cases "n_response s")
      case (Some st)
      have "net_inv utf8 maxBytes (on_data utf8 maxBytes (fst ev) st chunk s)"
      proof (cases "n_result s \<noteq> None \<or> length (n_received s) + length chunk \<le> maxBytes")
        case True
        with assms show ?thesis by (auto simp: on_data_def net_inv_def result_ok_def)
      next
        case False
        let ?bs = "take maxBytes (n_received s @ chunk)"
        have "net_inv utf8 maxBytes (s\<lparr>n_received := ?bs\<rparr>)"
          using assms by (auto simp: net_inv_def result_ok_def)
        then have "net_inv utf8 maxBytes (finish (with_response utf8 st ?bs (fst ev)) (s\<lparr>n_received := ?bs\<rparr>))"
          by (rule net_inv_finish) (rule some, simp_all add: Some)
        with False show ?thesis by (simp add: on_data_def Let_def)
      qed
      with Response_data Some show ?thesis by (simp add: net_step_def)
    qed (use assms Response_data in \<open>simp add: net_step_def\<close>)
  next
    case Socket_connected
    with assms show ?thesis by (auto simp: net_step_def net_inv_def result_ok_def)
  qed (use assms none some rec in \<open>auto simp: net_step_def net_inv_finish split: option.splits\<close>)
qed

lemma net_inv_run: "net_inv utf8 maxBytes s \<Longrightarrow> net_inv utf8 maxBytes (net_run utf8 maxBytes evs s)"
  unfolding net_run_def by (induction evs arbitrary: s) (simp_all add: net_inv_step)

lemma net_step_settled: "n_result s = Some r \<Longrightarrow> n_result (net_step utf8 maxBytes ev s) = Some r"
  by (auto simp: net_step_def finish_def on_data_def split: net_event.splits option.splits)

lemma net_run_settled: "n_result s = Some r \<Longrightarrow> n_result (net_run utf8 maxBytes evs s) = Some r"
  unfolding net_run_def by (induction evs arbitrary: s) (simp_all add: net_step_settled)

lemma net_run_append: "net_run utf8 maxBytes (xs @ ys) s = net_run utf8 maxBytes ys (net_run utf8 maxBytes xs s)"
  by (simp add: net_run_def)

section \<open>Properties\<close>

text \<open>
  The promise settles once: events after the first result never change it.
\<close>

theorem first_result_final:
  assumes "sendOutboundRequest utf8 maxBytes evs = Some r"
  shows "sendOutboundRequest utf8 maxBytes (evs @ late) = Some r"
  using assms by (simp add: sendOutboundRequest_def net_run_append net_run_settled)

theorem first_result_final_witness:
  "sendOutboundRequest id 4 ([(3, Response_headers (Some 200)), (5, Response_end)] @ [(9, Total_timer)]) =
     Some \<lparr>or_status = Some 200, or_body = [], or_duration = 5, or_error = None\<rparr>"
  by (rule first_result_final)
     (simp add: sendOutboundRequest_def net_run_def net_step_def net_start_def finish_def with_response_def)

text \<open>
  C33. Whatever a receiver does, the request ends: once the total timer has fired the promise is
  settled, however the events before it were interleaved.
\<close>

theorem total_timer_settles:
  "\<exists>r. sendOutboundRequest utf8 maxBytes (evs @ (d, Total_timer) # late) = Some r"
proof -
  have "net_inv utf8 maxBytes (net_run utf8 maxBytes evs net_start)"
    by (rule net_inv_run [OF net_inv_start])
  then have "\<exists>r. n_result (net_step utf8 maxBytes (d, Total_timer) (net_run utf8 maxBytes evs net_start)) = Some r"
    by (auto simp: net_inv_def net_step_def finish_def)
  then show ?thesis
    using net_run_settled by (auto simp: sendOutboundRequest_def net_run_append net_run_def)
qed

text \<open>
  The result is consistent and bounded: a body is the decoding of at most \<open>maxResponseBodyBytes\<close>
  bytes of an actual response, and an error class is present exactly when no response was received.
\<close>

theorem outbound_result_bounded:
  assumes "sendOutboundRequest utf8 maxBytes evs = Some r"
  shows "if or_error r = None then \<exists>bs. length bs \<le> maxBytes \<and> or_body r = utf8 bs
         else or_status r = None \<and> or_body r = []"
  using net_inv_run [OF net_inv_start, of utf8 maxBytes evs] assms
  by (auto simp: sendOutboundRequest_def net_inv_def result_ok_def)

theorem outbound_result_bounded_witness:
  "\<exists>bs. length bs \<le> 2 \<and> ''ab'' = id bs"
  using outbound_result_bounded [of id 2 "[(1, Response_headers (Some 500)), (2, Response_data ''abc'')]"
      "\<lparr>or_status = Some 500, or_body = ''ab'', or_duration = 2, or_error = None\<rparr>"]
  by (simp add: sendOutboundRequest_def net_run_def net_step_def net_start_def on_data_def finish_def
      with_response_def)

text \<open>
  C32. The address the socket dials is one the denylist was checked on: a pinned address is the
  literal host or the first answer of the only lookup made, it passes \<^verbatim>\<open>checkAddress\<close>, and so does
  every other answer of that lookup; the lookup the socket performs returns that address alone.
\<close>

theorem pinned_address_checked:
  assumes "resolveAndPin hostname resolver = Pinned ip"
  shows "checkAddress ip = Allowed \<and>
    (ip = hostname \<or> (\<exists>rest. resolver hostname = Some (ip # rest) \<and>
       list_all (\<lambda>a. checkAddress a = Allowed) rest)) \<and>
    pinnedLookup ip (pinnedFamily ip) other want_all \<in>
      {All_addresses [(ip, pinnedFamily ip)], One_address ip (pinnedFamily ip)}"
proof (cases "isIP hostname = 0")
  case True
  with assms obtain xs where xs: "resolver hostname = Some xs" "xs \<noteq> []" "first_rejected xs = Allowed" "ip = hd xs"
    by (auto simp: resolveAndPin_def split: option.splits if_splits url_check.splits)
  then obtain ys where "xs = ip # ys" by (cases xs) auto
  moreover from xs(3) have "\<forall>a\<in>set xs. checkAddress a = Allowed" by (simp only: first_rejected_Allowed)
  ultimately show ?thesis using xs(1) by (auto simp: list_all_iff pinnedLookup_def)
next
  case False
  with assms show ?thesis by (auto simp: resolveAndPin_def pinnedLookup_def split: url_check.splits)
qed

theorem pinned_address_checked_witness:
  "checkAddress ''8.8.8.8'' = Allowed \<and>
    (''8.8.8.8'' = ''8.8.8.8'' \<or> (\<exists>rest. None = Some (''8.8.8.8'' # rest) \<and>
       list_all (\<lambda>a. checkAddress a = Allowed) rest)) \<and>
    pinnedLookup ''8.8.8.8'' (pinnedFamily ''8.8.8.8'') ''evil.test'' True \<in>
      {All_addresses [(''8.8.8.8'', pinnedFamily ''8.8.8.8'')], One_address ''8.8.8.8'' (pinnedFamily ''8.8.8.8'')}"
proof (rule pinned_address_checked [of "''8.8.8.8''" "\<lambda>_. None"])
  have v4: "isIPv4 ''8.8.8.8''" by code_simp
  then have "checkIpv4 ''8.8.8.8'' = Allowed" by (subst checkIpv4_eval) (assumption, code_simp)
  with v4 show "resolveAndPin ''8.8.8.8'' (\<lambda>_. None) = Pinned ''8.8.8.8''"
    by (simp add: resolveAndPin_def checkAddress_def isIP_def)
qed

end
