(* ===== verification/Worker.thy ===== *)
theory Worker
  imports Delivery_Facts Expansion Http_Client
begin

text \<open>
  \<^verbatim>\<open>runDeliveryCycle\<close> of \<^verbatim>\<open>node/src/worker/delivery.ts\<close> and the loop body of \<^verbatim>\<open>node/src/worker.ts\<close>.
  \<open>worker_env\<close> holds what a cycle takes from outside: the environment variables, \<^verbatim>\<open>node:crypto\<close>, the
  URL parser, the resolver, the network (the callbacks a request provokes, before its total timer)
  and the decoder of response bytes.  \<open>meanwhile\<close> is what the other processes do to the database while
  the request is under way.
\<close>

record worker_env =
  we_vars :: env
  we_crypto :: crypto
  we_url :: "string \<Rightarrow> js_url option"
  we_resolver :: "string \<Rightarrow> string list option"
  we_network :: "request_options \<Rightarrow> string \<Rightarrow> (int \<times> net_event) list"
  we_utf8 :: "bytes \<Rightarrow> string"
  we_uuid_text :: "uuid \<Rightarrow> string"

record cycle_inputs =
  cy_date_now :: js_ms
  cy_now :: ts
  cy_clocks :: "candidate_row \<Rightarrow> claim_clock"
  cy_signed_at :: js_ms
  cy_elapsed :: int
  cy_done :: ts
  cy_random :: rat

datatype cycle_error = Claim_failed worker_error | Config_failed config_error | Complete_failed worker_error

definition worker_dec :: "worker_env \<Rightarrow> string \<Rightarrow> string option" where
  "worker_dec W stored =
     (case keyBuffer (we_vars W) of Inl _ \<Rightarrow> None | Inr key \<Rightarrow> decryptSecret (we_crypto W) key stored)"

definition active_secrets :: "claimed_delivery \<Rightarrow> string list" where
  "active_secrets c =
     (case c_secondarySecret c of
        Some q \<Rightarrow> if q = [] then [c_signingSecret c] else [c_signingSecret c, q]
      | None \<Rightarrow> [c_signingSecret c])"

definition delivery_headers :: "worker_env \<Rightarrow> claimed_delivery \<Rightarrow> int \<Rightarrow> string \<Rightarrow> (string \<times> string) list" where
  "delivery_headers W c timestamp rawBody =
     [(''content-type'', ''application/json''), (''webhook-id'', we_uuid_text W (c_deliveryId c)),
      (''webhook-event-id'', we_uuid_text W (c_eventId c)),
      (''webhook-attempt'', show_nat (c_attemptNumber c)), (''webhook-timestamp'', show_int timestamp),
      (''webhook-signature'', signPayload (we_crypto W) (active_secrets c) timestamp rawBody)]"

definition url_not_allowed_outcome :: attempt_outcome where
  "url_not_allowed_outcome = \<lparr>o_responseStatus = None, o_responseBodyTruncated = [], o_durationMs = 0,
     o_errorClass = Some Url_not_allowed\<rparr>"

definition outcome_of_result :: "outbound_result \<Rightarrow> attempt_outcome" where
  "outcome_of_result r = \<lparr>o_responseStatus = or_status r, o_responseBodyTruncated = or_body r,
     o_durationMs = or_duration r, o_errorClass = map_option Network (or_error r)\<rparr>"

text \<open>
  The attempt itself.  The event loop runs the total timer at the latest after \<open>cy_elapsed\<close>
  milliseconds, so the promise of \<^verbatim>\<open>sendOutboundRequest\<close> is settled (\<open>sent_result\<close>).
\<close>

definition sent_events :: "worker_env \<Rightarrow> cycle_inputs \<Rightarrow> request_options \<Rightarrow> string \<Rightarrow> (int \<times> net_event) list" where
  "sent_events W y opts body = we_network W opts body @ [(cy_elapsed y, Total_timer)]"

text \<open>\<open>deps\<close> is \<^verbatim>\<open>deps.resolveAndPin\<close>, None when it is left out.\<close>

definition resolve_pin :: "(string \<Rightarrow> pin_result) option \<Rightarrow> worker_env \<Rightarrow> string \<Rightarrow> pin_result" where
  "resolve_pin deps W hostname = (case deps of None \<Rightarrow> resolveAndPin hostname (we_resolver W) | Some f \<Rightarrow> f hostname)"

definition attempt_delivery ::
    "(string \<Rightarrow> pin_result) option \<Rightarrow> worker_env \<Rightarrow> cycle_inputs \<Rightarrow> claimed_delivery \<Rightarrow> js_url \<Rightarrow> config_error + attempt_outcome" where
  "attempt_delivery deps W y c url =
     (case resolve_pin deps W (u_hostname url) of
        Pin_rejected _ \<Rightarrow> Inr url_not_allowed_outcome
      | Pinned ip \<Rightarrow>
          (let timestamp = cy_signed_at y div 1000;
               rawBody = stringify (c_payload c);
               opts = outbound_request ip url ''POST'' (delivery_headers W c timestamp rawBody)
           in try_bind (outboundHttp (we_vars W)) (\<lambda>http.
                Inr (outcome_of_result (the (sendOutboundRequest (we_utf8 W)
                  (nat \<lfloor>maxResponseBodyBytes http\<rfloor>) (sent_events W y opts rawBody)))))))"

definition runDeliveryCycle ::
    "(string \<Rightarrow> pin_result) option \<Rightarrow> worker_env \<Rightarrow> cycle_inputs \<Rightarrow> (db \<Rightarrow> db) \<Rightarrow> db \<Rightarrow> (cycle_error + bool) \<times> db" where
  "runDeliveryCycle deps W y meanwhile s =
     (case try_bind (outboundHttp (we_vars W)) (lease_durationMs (we_vars W)) of
        Inl e \<Rightarrow> (Inl (Config_failed e), s)
      | Inr durationMs \<Rightarrow>
          (case claimDelivery (worker_dec W) (cy_date_now y) (cy_now y) (cy_clocks y) durationMs s of
             (Inl e, s1) \<Rightarrow> (Inl (Claim_failed e), s1)
           | (Inr None, s1) \<Rightarrow> (Inr False, s1)
           | (Inr (Some c), s1) \<Rightarrow>
               (case we_url W (c_url c) of
                  None \<Rightarrow> (Inl (Claim_failed Invalid_url), s1)
                | Some url \<Rightarrow>
                    (case attempt_delivery deps W y c url of
                       Inl e \<Rightarrow> (Inl (Config_failed e), meanwhile s1)
                     | Inr r \<Rightarrow>
                         (case backoff (we_vars W) of
                            Inl e \<Rightarrow> (Inl (Config_failed e), meanwhile s1)
                          | Inr cfg \<Rightarrow>
                              (case completeDelivery (cy_done y) (cy_random y) c r cfg (meanwhile s1) of
                                 (Inl e, s2) \<Rightarrow> (Inl (Complete_failed e), s2)
                               | (Inr _, s2) \<Rightarrow> (Inr True, s2)))))))"

section \<open>One pass of the worker loop\<close>

text \<open>A cycle that throws is logged and counts as no work.\<close>

definition try_cycle :: "(db \<Rightarrow> ('e + bool) \<times> db) \<Rightarrow> bool \<times> db \<Rightarrow> bool \<times> db" where
  "try_cycle cycle x =
     (case cycle (snd x) of
        (Inl _, s') \<Rightarrow> (fst x, s')
      | (Inr b, s') \<Rightarrow> (b \<or> fst x, s'))"

definition worker_pass ::
    "(uuid \<Rightarrow> bool) \<Rightarrow> (uuid \<Rightarrow> ts) \<Rightarrow> (uuid \<Rightarrow> bool) \<Rightarrow> (uuid \<Rightarrow> ts) \<Rightarrow> worker_env \<Rightarrow> cycle_inputs \<Rightarrow>
     (db \<Rightarrow> db) \<Rightarrow> db \<Rightarrow> bool \<times> db" where
  "worker_pass xlocked xnow rlocked rnow W y meanwhile s =
     try_cycle (runDeliveryCycle None W y meanwhile)
       (try_cycle (map_prod Inr id \<circ> runReplayExpansionCycle rlocked rnow :: db \<Rightarrow> (unit + bool) \<times> db)
         (try_cycle (map_prod Inr id \<circ> runExpansionCycle xlocked xnow :: db \<Rightarrow> (unit + bool) \<times> db) (False, s)))"

section \<open>Lemmas\<close>

lemma sent_result:
  "\<exists>r. sendOutboundRequest utf8 maxBytes (sent_events W y opts body) = Some r"
proof -
  have "net_inv utf8 maxBytes (net_run utf8 maxBytes (we_network W opts body) net_start)"
    by (rule net_inv_run [OF net_inv_start])
  then show ?thesis
    by (auto simp: sendOutboundRequest_def sent_events_def net_run_append net_inv_def)
       (auto simp: net_run_def net_step_def finish_def)
qed

definition outcome_closed :: "attempt_outcome \<Rightarrow> bool" where
  "outcome_closed r \<longleftrightarrow> o_responseStatus r \<noteq> None \<or> o_errorClass r \<noteq> None"

lemma active_secrets_not_Nil: "active_secrets c \<noteq> []"
  by (simp add: active_secrets_def split: option.split)

end
