(* ===== verification/Complete_Invariant.thy ===== *)
theory Complete_Invariant
  imports Claim_Invariant Worker
begin

text \<open>
  The invariant through the write-back of an outcome: \<open>settled_as\<close> is what the transaction of
  \<^verbatim>\<open>completeDelivery\<close> did when its fence held, in terms of the rows of the claim.
\<close>

section \<open>What a written outcome changes\<close>

definition settled_row :: "rat \<Rightarrow> claimed_delivery \<Rightarrow> (delivery \<Rightarrow> delivery) \<Rightarrow> bool" where
  "settled_row mxa c f \<longleftrightarrow> (\<forall>x. d_id (f x) = d_id x \<and> d_endpoint_id (f x) = d_endpoint_id x \<and>
     d_seq (f x) = d_seq x \<and> d_attempt_count (f x) = d_attempt_count x \<and> d_state (f x) \<noteq> In_flight \<and>
     (d_state (f x) = Failed \<longrightarrow> mxa \<le> of_nat (c_attemptNumber c)))"

definition recorded :: "claimed_delivery \<Rightarrow> attempt_outcome \<Rightarrow> attempt \<Rightarrow> attempt" where
  "recorded c r a = (if a_id a = c_attemptId c
     then a\<lparr>a_response_status := o_responseStatus r, a_response_body_truncated := Some (o_responseBodyTruncated r),
            a_duration_ms := Some (o_durationMs r), a_error_class := o_errorClass r\<rparr> else a)"

lemma recorded_simps [simp]:
  "a_id (recorded c r a) = a_id a" "a_delivery_id (recorded c r a) = a_delivery_id a"
  "a_attempt_number (recorded c r a) = a_attempt_number a" "a_sent_at (recorded c r a) = a_sent_at a"
  by (simp_all add: recorded_def)

definition settled_as :: "rat \<Rightarrow> claimed_delivery \<Rightarrow> attempt_outcome \<Rightarrow> db \<Rightarrow> db \<Rightarrow> bool" where
  "settled_as mxa c r s t \<longleftrightarrow>
     (\<exists>f. settled_row mxa c f \<and>
        deliveries t = update_where (\<lambda>x. d_id x = c_deliveryId c) f (deliveries s)) \<and>
     attempts t = map (recorded c r) (attempts s) \<and>
     (\<forall>e\<in>set (endpoints t). ep_id e \<noteq> c_endpointId c \<longrightarrow> e \<in> set (endpoints s)) \<and>
     fence (c_endpointId c) t = None \<and> (\<forall>x. x \<noteq> c_endpointId c \<longrightarrow> fence x t = fence x s) \<and>
     drawn_ids t = drawn_ids s"

lemma fence_free:
  "fence eid (stmt_free eid s) = None" "x \<noteq> eid \<Longrightarrow> fence x (stmt_free eid s) = fence x s"
proof -
  have "find_by ep_id eid (update_where (\<lambda>e. ep_id e = eid) free_lease es) =
      map_option free_lease (find_by ep_id eid es)" for es
    by (induction es) auto
  then show "fence eid (stmt_free eid s) = None" by (simp add: fence_def stmt_free_def split: option.split)
  show "x \<noteq> eid \<Longrightarrow> fence x (stmt_free eid s) = fence x s"
    unfolding stmt_free_def by (rule fence_update_other) auto
qed

lemma written_settled:
  "settled_as (maxAttempts cfg) c r s (stmt_free (c_endpointId c)
     (snd (settle_delivery now rnd c r cfg (stmt_record_outcome (c_attemptId c) r s))))"
proof -
  let ?s1 = "stmt_record_outcome (c_attemptId c) r s"
  let ?s2 = "snd (settle_delivery now rnd c r cfg ?s1)"
  have rec: "attempts ?s1 = map (recorded c r) (attempts s)" "deliveries ?s1 = deliveries s"
    "endpoints ?s1 = endpoints s" "drawn_ids ?s1 = drawn_ids s"
    by (simp_all add: stmt_record_outcome_def update_where_def recorded_def [abs_def] drawn_ids_def)
  have att: "attempts ?s2 = attempts ?s1" "drawn_ids ?s2 = drawn_ids ?s1"
    by (simp_all add: settle_delivery_def stmt_resolve_def stmt_halt_def stmt_retry_def drawn_ids_def)
  have ends: "e \<in> set (endpoints ?s1)" if "e \<in> set (endpoints ?s2)" "ep_id e \<noteq> c_endpointId c" for e
    using that by (auto simp: settle_delivery_def stmt_resolve_def stmt_halt_def stmt_retry_def set_update_where
        split: if_splits)
  have fences: "x \<noteq> c_endpointId c \<Longrightarrow> fence x ?s2 = fence x ?s1" for x
    using fence_update_other [of "\<lambda>e. ep_id e = c_endpointId c" "\<lambda>e. e\<lparr>ep_status := Halted\<rparr>" "c_endpointId c" x]
    by (simp add: settle_delivery_def stmt_halt_def) (simp add: fence_def stmt_resolve_def stmt_retry_def)
  have "\<exists>f. settled_row (maxAttempts cfg) c f \<and>
      deliveries ?s2 = update_where (\<lambda>x. d_id x = c_deliveryId c) f (deliveries ?s1)"
  proof -
    consider "http_success r" | "\<not> http_success r" "of_nat (c_attemptNumber c) \<ge> maxAttempts cfg"
      | "\<not> http_success r" "\<not> of_nat (c_attemptNumber c) \<ge> maxAttempts cfg" by blast
    then show ?thesis
    proof cases
      case 1
      then show ?thesis
        by (intro exI [of _ "\<lambda>d. d\<lparr>d_state := Succeeded\<rparr>"])
           (simp add: settled_row_def settle_delivery_def stmt_resolve_def)
    next
      case 2
      then show ?thesis
        by (intro exI [of _ "\<lambda>d. d\<lparr>d_state := Failed\<rparr>"])
           (simp add: settled_row_def settle_delivery_def stmt_resolve_def stmt_halt_def)
    next
      case 3
      let ?due = "now + computeBackoffDelayMs rnd (c_attemptNumber c) cfg * 1000"
      from 3 show ?thesis
        by (intro exI [of _ "\<lambda>d. d\<lparr>d_state := Pending, d_next_attempt_at := ?due\<rparr>"])
           (simp add: settled_row_def settle_delivery_def stmt_retry_def)
    qed
  qed
  moreover have "\<forall>e\<in>set (endpoints (stmt_free (c_endpointId c) ?s2)). ep_id e \<noteq> c_endpointId c \<longrightarrow> e \<in> set (endpoints s)"
    using ends rec(3) by (auto simp: stmt_free_def set_update_where split: if_splits)
  moreover have "deliveries (stmt_free (c_endpointId c) ?s2) = deliveries ?s2"
    "attempts (stmt_free (c_endpointId c) ?s2) = attempts ?s2"
    "drawn_ids (stmt_free (c_endpointId c) ?s2) = drawn_ids ?s2"
    by (simp_all add: stmt_free_def drawn_ids_def)
  moreover have "fence x ?s1 = fence x s" for x by (simp add: fence_def rec(3))
  ultimately show ?thesis
    using rec att fences fence_free by (auto simp: settled_as_def)
qed

section \<open>The invariant\<close>

lemma numbered_unique:
  assumes "attempts_numbered s" "d \<in> set (deliveries s)" "a \<in> set (attempts s)" "b \<in> set (attempts s)"
    "a_delivery_id a = d_id d" "a_delivery_id b = d_id d" "a_attempt_number a = a_attempt_number b"
  shows "a = b"
proof (rule distinct_map_eq [of a_attempt_number "attempts_of (d_id d) s"])
  show "distinct (map a_attempt_number (attempts_of (d_id d) s))"
    using assms(1,2) by (simp add: attempts_numbered_def del: upt_Suc)
qed (use assms in \<open>simp_all add: attempts_of_def\<close>)

lemma settled_queue_ok:
  assumes wf: "wf_db s" and q: "queue_ok mxa s" and c: "claim_live s c" and st: "settled_as mxa c r s t"
    and closed: "outcome_closed r"
  shows "queue_ok mxa t"
proof -
  obtain f where f: "settled_row mxa c f" "deliveries t = update_where (\<lambda>x. d_id x = c_deliveryId c) f (deliveries s)"
    and at_t: "attempts t = map (recorded c r) (attempts s)"
    using st by (auto simp: settled_as_def)
  obtain d a where d: "d \<in> set (deliveries s)" "d_id d = c_deliveryId c" "d_state d = In_flight"
    "d_attempt_count d = c_attemptNumber c"
    and a: "a \<in> set (attempts s)" "a_id a = c_attemptId c" "a_delivery_id a = c_deliveryId c"
    "a_attempt_number a = c_attemptNumber c"
    using c by (auto simp: claim_live_def)
  have num: "attempts_numbered s" and op: "open_current s" and fs: "failed_spent mxa s"
    using q by (simp_all add: queue_ok_def)
  have row: "\<exists>x0\<in>set (deliveries s). d_id x = d_id x0 \<and> d_attempt_count x = d_attempt_count x0 \<and>
      (x = x0 \<and> d_id x \<noteq> c_deliveryId c \<or> x0 = d \<and> x = f d)" if "x \<in> set (deliveries t)" for x
    using that unfolding f(2)
  proof (cases rule: update_where_inE)
    case (hit y)
    with d_id_eq [OF wf hit(1) d(1)] d(2) have "y = d" by simp
    with hit f(1) show ?thesis by (auto simp: settled_row_def)
  qed auto
  have "attempts_numbered t"
    unfolding attempts_numbered_def
  proof
    fix x assume "x \<in> set (deliveries t)"
    from row [OF this] obtain x0 where "x0 \<in> set (deliveries s)" "d_id x = d_id x0"
      "d_attempt_count x = d_attempt_count x0" by blast
    with num show "map a_attempt_number (attempts_of (d_id x) t) = [1..<Suc (d_attempt_count x)]"
      by (simp add: attempts_numbered_def attempts_of_def at_t filter_map comp_def)
  qed
  moreover have "open_current t"
    unfolding open_current_def
  proof
    fix b' assume "b' \<in> set (attempts t)"
    then obtain b where b: "b \<in> set (attempts s)" "b' = recorded c r b" by (auto simp: at_t)
    have sent: "a_sent_at b \<noteq> None" using op b(1) by (simp add: open_current_def)
    have "\<exists>x\<in>set (deliveries t). d_id x = a_delivery_id b' \<and> d_state x = In_flight \<and>
        d_attempt_count x = a_attempt_number b'" if o: "attempt_open b'"
    proof -
      have ne: "a_id b \<noteq> c_attemptId c"
      proof
        assume "a_id b = c_attemptId c"
        with o b(2) closed show False by (auto simp: recorded_def attempt_open_def outcome_closed_def)
      qed
      with o b(2) have "attempt_open b" by (simp add: recorded_def)
      with op b(1) obtain x where x: "x \<in> set (deliveries s)" "d_id x = a_delivery_id b" "d_state x = In_flight"
        "d_attempt_count x = a_attempt_number b"
        by (auto simp: open_current_def)
      have "d_id x \<noteq> c_deliveryId c"
      proof
        assume eq: "d_id x = c_deliveryId c"
        with d_id_eq [OF wf x(1) d(1)] d(2) have "x = d" by simp
        with numbered_unique [OF num d(1) b(1) a(1)] x a d have "b = a" by simp
        with ne a(2) show False by simp
      qed
      with x(1) have "x \<in> set (deliveries t)" by (force simp: f(2) set_update_where)
      with x b(2) show ?thesis by auto
    qed
    with sent b(2) show "a_sent_at b' \<noteq> None \<and> (attempt_open b' \<longrightarrow> (\<exists>x\<in>set (deliveries t).
        d_id x = a_delivery_id b' \<and> d_state x = In_flight \<and> d_attempt_count x = a_attempt_number b'))"
      by simp
  qed
  moreover have "failed_spent mxa t"
    unfolding failed_spent_def
  proof (intro ballI impI)
    fix x assume "x \<in> set (deliveries t)" "d_state x = Failed"
    with row [OF this(1)] fs f(1) d(4) show "mxa \<le> of_nat (d_attempt_count x)"
      by (auto simp: failed_spent_def settled_row_def)
  qed
  ultimately show ?thesis by (simp add: queue_ok_def)
qed

lemma settled_in_flight:
  assumes wf: "wf_db s" and sf: "single_flight s" and c: "claim_row s c" and st: "settled_as mxa c r s t"
    and wft: "wf_db t"
  shows "in_flight_of (c_endpointId c) t = []" "x \<noteq> c_endpointId c \<Longrightarrow> in_flight_of x t = in_flight_of x s"
proof -
  obtain f where f: "settled_row mxa c f" "deliveries t = update_where (\<lambda>x. d_id x = c_deliveryId c) f (deliveries s)"
    using st by (auto simp: settled_as_def)
  obtain d where d: "d \<in> set (deliveries s)" "d_id d = c_deliveryId c" "d_endpoint_id d = c_endpointId c"
    "d_state d = In_flight"
    using c by (auto simp: claim_row_def)
  have "in_flight_of (c_endpointId c) s \<noteq> []" using d by (auto simp: in_flight_of_def filter_empty_conv)
  from in_flight_known [OF wf this] obtain e where e: "e \<in> set (endpoints s)" "ep_id e = c_endpointId c" by auto
  have "length (in_flight_of (c_endpointId c) s) \<le> 1"
    using sf e(1) unfolding single_flight_def e(2) [symmetric] by blast
  moreover have "d \<in> set (in_flight_of (c_endpointId c) s)" using d by (simp add: in_flight_of_def)
  ultimately have one: "in_flight_of (c_endpointId c) s = [d]"
    by (cases "in_flight_of (c_endpointId c) s") auto
  have "\<not> (d_endpoint_id y = c_endpointId c \<and> d_state y = In_flight)" if "y \<in> set (deliveries t)" for y
    using that unfolding f(2)
  proof (cases rule: update_where_inE)
    case (hit z)
    with f(1) show ?thesis by (simp add: settled_row_def)
  next
    case miss
    show ?thesis
    proof
      assume "d_endpoint_id y = c_endpointId c \<and> d_state y = In_flight"
      with miss have "y \<in> set (in_flight_of (c_endpointId c) s)" by (simp add: in_flight_of_def)
      with one miss d show False by simp
    qed
  qed
  then show "in_flight_of (c_endpointId c) t = []" by (simp add: in_flight_of_def filter_empty_conv)
  assume x: "x \<noteq> c_endpointId c"
  have upd: "update_where (\<lambda>x. d_id x = c_deliveryId c) f (deliveries s) =
      update_where (\<lambda>x. x = d) f (deliveries s)"
    unfolding update_where_def
  proof (intro map_cong refl if_cong)
    fix y assume "y \<in> set (deliveries s)"
    then show "d_id y = c_deliveryId c \<longleftrightarrow> y = d" using d_id_eq [OF wf _ d(1), of y] d(2) by auto
  qed
  have "d_endpoint_id d \<noteq> x" "d_endpoint_id (f d) \<noteq> x" using x d(3) f(1) by (auto simp: settled_row_def)
  then show "in_flight_of x t = in_flight_of x s"
    unfolding in_flight_of_def f(2) upd by (intro filter_update_where_disjoint) simp
qed

lemma completeDelivery_post:
  assumes run: "completeDelivery now rnd c r cfg s = (res, t)" and ok: "db_ok (maxAttempts cfg) s"
    and c: "claim_ok s c" and closed: "outcome_closed r"
  shows "db_ok (maxAttempts cfg) t \<and> (\<forall>c'. claim_ok s c' \<longrightarrow> claim_ok t c') \<and> drawn_ids t = drawn_ids s"
proof -
  have wf: "wf_db s" and sf: "single_flight s" and q: "queue_ok (maxAttempts cfg) s"
    using ok by (simp_all add: db_ok_split)
  have wft: "wf_db t" by (rule wf_completeDelivery [OF run wf])
  from run show ?thesis
  proof (cases rule: completeDelivery_cases)
    case written
    then have live: "claim_live s c" using c by (simp add: claim_ok_live holds_def)
    have st: "settled_as (maxAttempts cfg) c r s t" unfolding written(4) by (rule written_settled)
    note fl = settled_in_flight [OF wf sf claim_live_row [OF live] st wft]
    obtain f where f: "settled_row (maxAttempts cfg) c f"
      "deliveries t = update_where (\<lambda>x. d_id x = c_deliveryId c) f (deliveries s)"
      and at_t: "attempts t = map (recorded c r) (attempts s)" and dr: "drawn_ids t = drawn_ids s"
      and fe: "fence (c_endpointId c) t = None" "\<And>x. x \<noteq> c_endpointId c \<Longrightarrow> fence x t = fence x s"
      and en: "\<And>e. e \<in> set (endpoints t) \<Longrightarrow> ep_id e \<noteq> c_endpointId c \<Longrightarrow> e \<in> set (endpoints s)"
      using st by (auto simp: settled_as_def)
    have "single_flight t"
      unfolding single_flight_def
    proof
      fix e assume "e \<in> set (endpoints t)"
      with sf en fl show "length (in_flight_of (ep_id e) t) \<le> 1 \<and> (in_flight_of (ep_id e) t \<noteq> [] \<longrightarrow> ep_busy e)"
        by (cases "ep_id e = c_endpointId c") (auto simp: single_flight_def)
    qed
    moreover have "claim_ok t c'" if c': "claim_ok s c'" for c'
    proof (cases "c_endpointId c' = c_endpointId c")
      case True
      with c' fe(1) dr show ?thesis by (simp add: claim_ok_live holds_def)
    next
      case False
      have "claim_live t c'" if lc: "claim_live s c'"
      proof -
        obtain d' a' where d': "d' \<in> set (deliveries s)" "d_id d' = c_deliveryId c'" "d_endpoint_id d' = c_endpointId c'"
          "d_state d' = In_flight" "d_attempt_count d' = c_attemptNumber c'"
          and a': "a' \<in> set (attempts s)" "a_id a' = c_attemptId c'" "a_delivery_id a' = c_deliveryId c'"
          "a_attempt_number a' = c_attemptNumber c'" "attempt_open a'"
          using lc by (auto simp: claim_live_def)
        obtain d a where d: "d \<in> set (deliveries s)" "d_id d = c_deliveryId c" "d_endpoint_id d = c_endpointId c"
          and a: "a \<in> set (attempts s)" "a_id a = c_attemptId c" "a_delivery_id a = c_deliveryId c"
          using live by (auto simp: claim_live_def)
        have ne: "c_deliveryId c' \<noteq> c_deliveryId c"
          using d_id_eq [OF wf d'(1) d(1)] d d' False by auto
        then have "d' \<in> set (deliveries t)" using d'(1,2) by (force simp: f(2) set_update_where)
        moreover have "a_id a' \<noteq> c_attemptId c"
        proof
          assume "a_id a' = c_attemptId c"
          with a have "a' = a"
            using distinct_map_eq [of a_id "attempts s" a' a] a'(1) wf by (simp add: wf_db_def keys_ok_def)
          with a a' ne show False by simp
        qed
        then have "a' \<in> set (attempts t)" using a'(1) by (force simp: at_t recorded_def)
        ultimately show ?thesis using d' a' by (auto simp: claim_live_def)
      qed
      with c' False fe(2) dr show ?thesis by (simp add: claim_ok_live holds_def)
    qed
    ultimately show ?thesis
      using wft settled_queue_ok [OF wf q live st closed] dr by (simp add: db_ok_split)
  qed (use ok in simp_all)
qed

end
