(* ===== verification/Evolution.thy ===== *)
theory Evolution
  imports Complete_Invariant
begin

text \<open>
  How the delivery table may change: \<open>evolves\<close> says that rows are never removed or reordered, that a
  row keeps its identity, event, endpoint, position and creation time, never loses attempts and is
  frozen once it is resolved, and that rows are added at the end only.  It is reflexive and
  transitive, and every operation of the two processes satisfies it.
\<close>

definition same_row :: "delivery \<Rightarrow> delivery \<Rightarrow> bool" where
  "same_row d d' \<longleftrightarrow> d_id d' = d_id d \<and> d_event_id d' = d_event_id d \<and> d_endpoint_id d' = d_endpoint_id d \<and>
     d_seq d' = d_seq d \<and> d_created_at d' = d_created_at d \<and> d_attempt_count d \<le> d_attempt_count d' \<and>
     (d_state d \<in> {Succeeded, Failed} \<longrightarrow> d' = d)"

definition evolves :: "db \<Rightarrow> db \<Rightarrow> bool" where
  "evolves s t \<longleftrightarrow> (\<exists>ds ns. deliveries t = ds @ ns \<and> list_all2 same_row (deliveries s) ds)"

text \<open>A step that appends nothing.\<close>

definition kept :: "db \<Rightarrow> db \<Rightarrow> bool" where
  "kept s t \<longleftrightarrow> list_all2 same_row (deliveries s) (deliveries t)"

lemma same_row_refl [simp]: "same_row d d"
  by (simp add: same_row_def)

lemma same_row_trans: "same_row a b \<Longrightarrow> same_row b c \<Longrightarrow> same_row a c"
  by (auto simp: same_row_def)

lemma kept_refl [simp]: "kept s s"
  by (simp add: kept_def list.rel_refl)

lemma kept_cong: "deliveries t = deliveries s \<Longrightarrow> kept s t"
  by (simp add: kept_def list.rel_refl)

lemma kept_trans: "kept r s \<Longrightarrow> kept s t \<Longrightarrow> kept r t"
  unfolding kept_def by (erule (1) list_all2_trans [rotated]) (rule same_row_trans)

lemma kept_evolves: "kept s t \<Longrightarrow> evolves s t"
  unfolding kept_def evolves_def by (intro exI [of _ "deliveries t"] exI [of _ "[]"]) simp

lemma kept_map:
  "deliveries t = map g (deliveries s) \<Longrightarrow> \<forall>d\<in>set (deliveries s). same_row d (g d) \<Longrightarrow> kept s t"
  by (simp add: kept_def list_all2_conv_all_nth)

lemma kept_update:
  "deliveries t = update_where P f (deliveries s) \<Longrightarrow> \<forall>d\<in>set (deliveries s). P d \<longrightarrow> same_row d (f d) \<Longrightarrow> kept s t"
  unfolding update_where_def by (erule kept_map) simp

lemma evolves_refl [simp]: "evolves s s"
  by (simp add: kept_evolves)

lemma evolves_append: "deliveries t = deliveries s @ ns \<Longrightarrow> evolves s t"
  unfolding evolves_def by (intro exI [of _ "deliveries s"] exI [of _ ns]) (simp add: list.rel_refl)

lemma evolves_trans:
  assumes "evolves r s" "evolves s t"
  shows "evolves r t"
proof -
  obtain ds ns where s: "deliveries s = ds @ ns" "list_all2 same_row (deliveries r) ds"
    using assms(1) by (auto simp: evolves_def)
  obtain es ms where t: "deliveries t = es @ ms" "list_all2 same_row (ds @ ns) es"
    using assms(2) s(1) by (auto simp: evolves_def)
  obtain es1 es2 where es: "es = es1 @ es2" "list_all2 same_row ds es1"
    using t(2) by (auto simp: list_all2_append1)
  have "list_all2 same_row (deliveries r) es1"
    using list_all2_trans [OF same_row_trans s(2) es(2)] .
  with t(1) es(1) show ?thesis
    unfolding evolves_def by (intro exI [of _ es1] exI [of _ "es2 @ ms"]) simp
qed

lemma evolves_row:
  assumes "evolves s t" "d \<in> set (deliveries s)"
  obtains d' where "d' \<in> set (deliveries t)" "same_row d d'"
proof -
  obtain ds ns where t: "deliveries t = ds @ ns" "list_all2 same_row (deliveries s) ds"
    using assms(1) by (auto simp: evolves_def)
  from assms(2) obtain i where "i < length (deliveries s)" "d = deliveries s ! i" by (auto simp: in_set_conv_nth)
  with t that [of "ds ! i"] show thesis by (auto simp: list_all2_conv_all_nth)
qed

section \<open>Every operation\<close>

lemma kept_requeue: "kept s (stmt_requeue eid s)"
  by (rule kept_update [of _ "\<lambda>d. d_endpoint_id d = eid \<and> d_state d = In_flight" "\<lambda>d. d\<lparr>d_state := Pending\<rparr>"])
     (simp_all add: stmt_requeue_def same_row_def)

lemma kept_reclaim: "reclaim cand s = Some t \<Longrightarrow> kept s t"
proof (cases "cand_busy cand")
  case True
  assume "reclaim cand s = Some t"
  with True obtain u where u: "stmt_expire_orphans (cand_id cand) s = Some u" "t = stmt_requeue (cand_id cand) u"
    by (auto simp: reclaim_def)
  then have "kept s u" by (auto elim!: stmt_expire_orphans_Some intro!: kept_cong)
  then show ?thesis unfolding u(2) by (rule kept_trans [OF _ kept_requeue])
qed (simp add: reclaim_def)

lemma kept_record_attempt:
  assumes "wf_db s" "d \<in> set (deliveries s)" "d_state d = Pending"
  shows "kept s (record_attempt now d s)"
  by (rule kept_map [OF record_attempt_deliveries [OF assms(1,2)]]) (use assms(3) in \<open>simp add: same_row_def started_def\<close>)

lemma kept_tryClaim:
  assumes run: "tryClaimEndpoint dec clk cand cutoff s = (r, t)" and wf: "wf_db s"
  shows "kept s t"
proof -
  have start: "kept s u \<and> wf_db u" if "stmt_claim (at_claim clk) cutoff (cand_id cand) s = (Some l, s1)"
    "reclaim cand (stmt_serve (at_serve clk) (cand_tenant_id cand) s1) = Some u" for l s1 u
  proof -
    have "wf_db s1" using wf_stmt_claim [OF wf, of "at_claim clk" cutoff "cand_id cand"] that(1) by simp
    then have "wf_db (stmt_serve (at_serve clk) (cand_tenant_id cand) s1)" by (rule wf_stmt_serve)
    moreover have "kept s (stmt_serve (at_serve clk) (cand_tenant_id cand) s1)"
      by (rule kept_cong) (simp add: stmt_claim_SomeD(2) [OF that(1)])
    ultimately show ?thesis using kept_trans kept_reclaim [OF that(2)] wf_reclaim [OF that(2)] by blast
  qed
  from run show ?thesis
  proof (cases rule: tryClaimEndpoint_cases)
    case lost
    then show ?thesis by simp
  next
    case (ambiguous l s1)
    then show ?thesis by (simp add: kept_cong stmt_claim_SomeD(2) [OF ambiguous(1)])
  next
    case (idle l s1 u)
    then show ?thesis using start kept_trans kept_cong [of t u] by fastforce
  next
    case (unreadable l s1 u d v e)
    with start have "kept s u" "wf_db u" by blast+
    with unreadable select_head_SomeD(1,3) kept_record_attempt kept_trans show ?thesis by blast
  next
    case (claimed l s1 u d v e p q)
    with start have "kept s u" "wf_db u" by blast+
    with claimed select_head_SomeD(1,3) kept_record_attempt kept_trans show ?thesis by blast
  qed
qed

lemma settle_deliveries:
  "\<exists>f. (\<forall>d. d_id (f d) = d_id d \<and> d_event_id (f d) = d_event_id d \<and> d_endpoint_id (f d) = d_endpoint_id d \<and>
       d_seq (f d) = d_seq d \<and> d_created_at (f d) = d_created_at d \<and> d_attempt_count (f d) = d_attempt_count d) \<and>
     deliveries (snd (settle_delivery now rnd c r cfg s)) =
       update_where (\<lambda>d. d_id d = c_deliveryId c) f (deliveries s)"
proof -
  consider "http_success r" | "\<not> http_success r" "of_nat (c_attemptNumber c) \<ge> maxAttempts cfg"
    | "\<not> http_success r" "\<not> of_nat (c_attemptNumber c) \<ge> maxAttempts cfg" by blast
  then show ?thesis
  proof cases
    case 1
    then show ?thesis
      by (intro exI [of _ "\<lambda>d. d\<lparr>d_state := Succeeded\<rparr>"]) (simp add: settle_delivery_def stmt_resolve_def)
  next
    case 2
    then show ?thesis
      by (intro exI [of _ "\<lambda>d. d\<lparr>d_state := Failed\<rparr>"]) (simp add: settle_delivery_def stmt_resolve_def stmt_halt_def)
  next
    case 3
    then show ?thesis
      by (intro exI [of _ "\<lambda>d. d\<lparr>d_state := Pending,
            d_next_attempt_at := now + computeBackoffDelayMs rnd (c_attemptNumber c) cfg * 1000\<rparr>"])
         (simp add: settle_delivery_def stmt_retry_def)
  qed
qed

lemma kept_write_back:
  assumes run: "completeDelivery now rnd c r cfg s = (res, t)" and wf: "wf_db s" and ok: "holds c s \<Longrightarrow> claim_row s c"
  shows "kept s t"
  using run
proof (cases rule: completeDelivery_cases)
  case written
  let ?s1 = "stmt_record_outcome (c_attemptId c) r s"
  obtain f where f: "\<forall>d. d_id (f d) = d_id d \<and> d_event_id (f d) = d_event_id d \<and>
      d_endpoint_id (f d) = d_endpoint_id d \<and> d_seq (f d) = d_seq d \<and> d_created_at (f d) = d_created_at d \<and>
      d_attempt_count (f d) = d_attempt_count d"
    "deliveries (snd (settle_delivery now rnd c r cfg ?s1)) =
       update_where (\<lambda>d. d_id d = c_deliveryId c) f (deliveries ?s1)"
    using settle_deliveries [of now rnd c r cfg ?s1] by blast
  have "claim_row s c" using ok written(1) by (simp add: holds_def)
  then obtain d where d: "d \<in> set (deliveries s)" "d_id d = c_deliveryId c" "d_state d = In_flight"
    by (auto simp: claim_row_def)
  have "same_row x (f x)" if "x \<in> set (deliveries s)" "d_id x = c_deliveryId c" for x
  proof -
    have "x = d" using d_id_eq [OF wf that(1) d(1)] that(2) d(2) by simp
    with d(3) f(1) show ?thesis by (simp add: same_row_def)
  qed
  moreover have "deliveries t = update_where (\<lambda>d. d_id d = c_deliveryId c) f (deliveries s)"
    using written(4) f(2) by (simp add: stmt_free_def stmt_record_outcome_def)
  ultimately show ?thesis by (auto intro: kept_update)
qed simp_all

lemma kept_complete:
  "completeDelivery now rnd c r cfg s = (res, t) \<Longrightarrow> wf_db s \<Longrightarrow> claim_ok s c \<Longrightarrow> kept s t"
  by (erule (1) kept_write_back) (auto simp: claim_ok_live claim_live_row)

lemma evolves_api_write: "api_write tid s t \<Longrightarrow> evolves s t"
  by (simp add: api_write_frame(1) kept_cong kept_evolves)

lemma evolves_expand_event: "evolves s (expand_event now v s)"
proof -
  obtain ns where "deliveries (insert_deliveries now (fan_out v s) s) = deliveries s @ ns"
    by (rule insert_deliveries_obtain)
  then show ?thesis by (intro evolves_append [of _ _ ns]) (simp add: expand_event_def mark_event_expanded_def)
qed

lemma evolves_expand_replay_row: "evolves s (expand_replay_row now r s)"
proof -
  obtain ns where "deliveries (insert_deliveries now (replay_rows r s) s) = deliveries s @ ns"
    by (rule insert_deliveries_obtain)
  then show ?thesis by (intro evolves_append [of _ _ ns]) (simp add: expand_replay_row_def mark_replay_expanded_def)
qed

end
