(* ===== verification/Publish_Order.thy ===== *)
theory Publish_Order
  imports Evolution
begin

text \<open>
  The order of an endpoint's queue against the order of publication.  Expansion takes a tenant's
  oldest pending event, so every expanded event of a tenant precedes every pending one (\<open>front_ok\<close>),
  an event that is still pending has no delivery, and whenever an event enters an endpoint's queue
  for the first time it is younger than everything that entered before it (\<open>first_in_order\<close>).  A
  replay only repeats events that are already in the queue.
\<close>

section \<open>Definitions\<close>

definition queue_pairs :: "db \<Rightarrow> (uuid \<times> uuid) list" where
  "queue_pairs s = map (\<lambda>d. (d_endpoint_id d, d_event_id d)) (deliveries s)"

definition seq_of :: "db \<Rightarrow> uuid \<Rightarrow> nat" where
  "seq_of s u = (case find_by ev_id u (events s) of None \<Rightarrow> 0 | Some v \<Rightarrow> ev_seq v)"

definition first_in_order :: "(uuid \<Rightarrow> nat) \<Rightarrow> (uuid \<times> uuid) list \<Rightarrow> bool" where
  "first_in_order f ps \<longleftrightarrow> (\<forall>xs e v ys. ps = xs @ (e, v) # ys \<longrightarrow> (e, v) \<notin> set xs \<longrightarrow>
     (\<forall>u. (e, u) \<in> set xs \<longrightarrow> f u < f v))"

definition front_ok :: "db \<Rightarrow> bool" where
  "front_ok s \<longleftrightarrow> (\<forall>v\<in>set (events s). \<forall>w\<in>set (events s). ev_tenant_id v = ev_tenant_id w \<longrightarrow>
     ev_status v = Pending_expansion \<longrightarrow> ev_status w = Expanded \<longrightarrow> ev_seq w < ev_seq v)"

definition sent_expanded :: "db \<Rightarrow> bool" where
  "sent_expanded s \<longleftrightarrow> (\<forall>p\<in>set (queue_pairs s). \<forall>v\<in>set (events s). ev_id v = snd p \<longrightarrow>
     ev_status v = Expanded \<and> (\<forall>e\<in>set (endpoints s). ep_id e = fst p \<longrightarrow> ep_tenant_id e = ev_tenant_id v))"

definition order_ok :: "db \<Rightarrow> bool" where
  "order_ok s \<longleftrightarrow> front_ok s \<and> sent_expanded s \<and> first_in_order (seq_of s) (queue_pairs s)"

section \<open>Lists\<close>

lemma first_in_order_cong:
  assumes "first_in_order f ps" "\<forall>p\<in>set ps. f (snd p) = g (snd p)"
  shows "first_in_order g ps"
  unfolding first_in_order_def
proof (intro allI impI)
  fix xs e v ys u assume ps: "ps = xs @ (e, v) # ys" "(e, v) \<notin> set xs" "(e, u) \<in> set xs"
  with assms(1) have "f u < f v" unfolding first_in_order_def by blast
  moreover have "f u = g u" "f v = g v" using assms(2) ps by force+
  ultimately show "g u < g v" by simp
qed

lemma first_in_order_append:
  assumes "first_in_order f ps"
    and "\<And>xs e v ys. ns = xs @ (e, v) # ys \<Longrightarrow> (e, v) \<notin> set ps \<Longrightarrow> (e, v) \<notin> set xs \<Longrightarrow>
      \<forall>u. (e, u) \<in> set ps \<or> (e, u) \<in> set xs \<longrightarrow> f u < f v"
  shows "first_in_order f (ps @ ns)"
  unfolding first_in_order_def
proof (intro allI impI)
  fix xs e v ys u assume eq: "ps @ ns = xs @ (e, v) # ys" and new: "(e, v) \<notin> set xs" and u: "(e, u) \<in> set xs"
  from eq obtain us where "ps = xs @ us \<and> us @ ns = (e, v) # ys \<or> xs = ps @ us \<and> ns = us @ (e, v) # ys"
    by (auto simp: append_eq_append_conv2)
  then consider zs where "ps = xs @ (e, v) # zs" | zs where "xs = ps @ zs" "ns = zs @ (e, v) # ys"
    by (cases us) auto
  then show "f u < f v"
  proof cases
    case 1
    with assms(1) new u show ?thesis unfolding first_in_order_def by blast
  next
    case 2
    with assms(2) [OF 2(2)] new u show ?thesis by auto
  qed
qed

lemma first_in_order_fan_out:
  assumes "first_in_order f ps" "distinct es" "\<forall>p\<in>set ps. fst p \<in> set es \<longrightarrow> f (snd p) < f v"
  shows "first_in_order f (ps @ map (\<lambda>e. (e, v)) es)"
proof (rule first_in_order_append [OF assms(1)])
  fix xs e w ys assume ns: "map (\<lambda>e. (e, v)) es = xs @ (e, w) # ys"
  then have "(e, w) \<in> set (map (\<lambda>e. (e, v)) es)" by simp
  then have w: "w = v" "e \<in> set es" by auto
  have "distinct (map fst (xs @ (e, w) # ys))" using assms(2) ns [symmetric] by (simp add: comp_def)
  then have "(e, u) \<notin> set xs" for u by (force simp: image_iff)
  with assms(3) w show "\<forall>u. (e, u) \<in> set ps \<or> (e, u) \<in> set xs \<longrightarrow> f u < f w" by force
qed

lemma first_in_order_repeat:
  "first_in_order f ps \<Longrightarrow> set ns \<subseteq> set ps \<Longrightarrow> first_in_order f (ps @ ns)"
  by (rule first_in_order_append) auto

section \<open>Steps that do not touch events or the shape of the queues\<close>

lemma order_ok_cong:
  assumes "order_ok s" "queue_pairs t = queue_pairs s" "events t = events s"
    "map (\<lambda>e. (ep_id e, ep_tenant_id e)) (endpoints t) = map (\<lambda>e. (ep_id e, ep_tenant_id e)) (endpoints s)"
  shows "order_ok t"
proof -
  have "(ep_id e, ep_tenant_id e) \<in> (\<lambda>e. (ep_id e, ep_tenant_id e)) ` set (endpoints s)" if "e \<in> set (endpoints t)" for e
    using that arg_cong [OF assms(4), of set] by force
  then have "\<exists>e'\<in>set (endpoints s). ep_id e' = ep_id e \<and> ep_tenant_id e' = ep_tenant_id e" if "e \<in> set (endpoints t)" for e
    using that by force
  then have "sent_expanded t"
    using assms(1) unfolding order_ok_def sent_expanded_def assms(2,3) by metis
  with assms show ?thesis by (simp add: order_ok_def front_ok_def seq_of_def [abs_def])
qed

lemma kept_pairs: "kept s t \<Longrightarrow> queue_pairs t = queue_pairs s"
  unfolding kept_def queue_pairs_def
  by (rule nth_equalityI) (auto simp: list_all2_conv_all_nth same_row_def)

definition same_owners :: "db \<Rightarrow> db \<Rightarrow> bool" where
  "same_owners s t \<longleftrightarrow> events t = events s \<and>
     map (\<lambda>e. (ep_id e, ep_tenant_id e)) (endpoints t) = map (\<lambda>e. (ep_id e, ep_tenant_id e)) (endpoints s)"

lemma same_owners_refl [simp]: "same_owners s s"
  by (simp add: same_owners_def)

lemma same_owners_trans: "same_owners r s \<Longrightarrow> same_owners s t \<Longrightarrow> same_owners r t"
  by (simp add: same_owners_def)

lemma same_owners_stmts:
  "same_owners s (snd (stmt_claim now cutoff eid s))" "same_owners s (stmt_serve now tid s)"
  "same_owners s (stmt_release eid l s)" "same_owners s (record_attempt now d s)"
  "same_owners s (stmt_requeue eid s)" "same_owners s (stmt_free eid s)" "same_owners s (stmt_halt eid s)"
  "same_owners s (stmt_resolve did st s)" "same_owners s (stmt_retry did due s)"
  "same_owners s (stmt_record_outcome aid r s)"
  by (simp_all add: same_owners_def stmt_claim_def gen_random_uuid_def stmt_serve_def stmt_release_def
      record_attempt_simps stmt_free_def stmt_halt_def stmt_resolve_def stmt_retry_def stmt_record_outcome_def
      map_update_where record_attempt_def stmt_in_flight_def stmt_insert_attempt_def Let_def)

lemma same_owners_reclaim: "reclaim cand s = Some t \<Longrightarrow> same_owners s t"
  by (auto simp: reclaim_def same_owners_def elim!: stmt_expire_orphans_Some split: if_splits)

lemma same_owners_tryClaim:
  assumes "tryClaimEndpoint dec clk cand cutoff s = (r, t)"
  shows "same_owners s t"
proof -
  have served: "same_owners s (stmt_serve (at_serve clk) (cand_tenant_id cand) s1)"
    if "stmt_claim (at_claim clk) cutoff (cand_id cand) s = (Some l, s1)" for l s1
    using same_owners_stmts(1) [of s "at_claim clk" cutoff "cand_id cand"] that same_owners_stmts(2) same_owners_trans
    by (metis snd_conv)
  have mid: "same_owners s u" if "stmt_claim (at_claim clk) cutoff (cand_id cand) s = (Some l, s1)"
    "reclaim cand (stmt_serve (at_serve clk) (cand_tenant_id cand) s1) = Some u" for l s1 u
    using served [OF that(1)] same_owners_reclaim [OF that(2)] by (rule same_owners_trans)
  from assms show ?thesis
  proof (cases rule: tryClaimEndpoint_cases)
    case (idle l s1 u)
    then show ?thesis using same_owners_trans [OF mid [OF idle(1,2)] same_owners_stmts(3)] by simp
  next
    case (unreadable l s1 u d v e)
    then show ?thesis using same_owners_trans [OF mid [OF unreadable(1,2)] same_owners_stmts(4)] by simp
  next
    case (claimed l s1 u d v e p q)
    then show ?thesis using same_owners_trans [OF mid [OF claimed(1,2)] same_owners_stmts(4)] by simp
  qed (simp_all add: served)
qed

lemma same_owners_settle: "same_owners s (snd (settle_delivery now rnd c r cfg s))"
  using same_owners_trans [OF same_owners_stmts(8) same_owners_stmts(7)]
  by (simp add: settle_delivery_def same_owners_stmts)

lemma same_owners_complete:
  assumes "completeDelivery now rnd c r cfg s = (res, t)"
  shows "same_owners s t"
  using assms
proof (cases rule: completeDelivery_cases)
  case written
  show ?thesis
    unfolding written(4)
    by (rule same_owners_trans [OF same_owners_trans [OF same_owners_stmts(10) same_owners_settle] same_owners_stmts(6)])
qed simp_all

section \<open>Publishing and registering\<close>

lemma seq_of_in:
  "wf_db s \<Longrightarrow> v \<in> set (events s) \<Longrightarrow> seq_of s (ev_id v) = ev_seq v"
  using find_by_eq_Some [of ev_id "events s" v] by (simp add: seq_of_def wf_db_def keys_ok_def)

lemma pair_refs:
  assumes "wf_db s" "p \<in> set (queue_pairs s)"
  shows "snd p \<in> ev_id ` set (events s)" "fst p \<in> ep_id ` set (endpoints s)"
  using assms by (auto simp: queue_pairs_def wf_db_def refs_ok_def)

lemma order_ok_publish:
  assumes ok: "order_ok s" and wf: "wf_db s"
  shows "order_ok (snd (publish_event now tid k ty payload s))"
proof (cases "find_event tid k s")
  case (Some v)
  with ok show ?thesis by (intro order_ok_cong [OF ok]) (simp_all add: publish_event_eq queue_pairs_def)
next
  case None
  let ?v = "new_event now tid k ty payload s" and ?t = "snd (publish_event now tid k ty payload s)"
  have ev: "events ?t = events s @ [?v]" and same: "endpoints ?t = endpoints s" "queue_pairs ?t = queue_pairs s"
    using None by (simp_all add: publish_event_eq queue_pairs_def)
  have young: "\<forall>w\<in>set (events s). ev_seq w < ev_seq ?v"
    using wf by (simp add: wf_db_def seqs_ok_def new_event_def)
  have fresh: "ev_id ?v \<notin> ev_id ` set (events s)"
    using drawn_fresh_ids(3) [OF wf] by (simp add: new_event_def)
  have "front_ok ?t"
    using ok young unfolding front_ok_def ev order_ok_def by (auto simp: new_event_def)
  moreover have "sent_expanded ?t"
    using ok fresh pair_refs(1) [OF wf] unfolding sent_expanded_def ev same order_ok_def by auto
  moreover have "first_in_order (seq_of ?t) (queue_pairs ?t)"
  proof (unfold same, rule first_in_order_cong)
    show "first_in_order (seq_of s) (queue_pairs s)" using ok by (simp add: order_ok_def)
    show "\<forall>p\<in>set (queue_pairs s). seq_of s (snd p) = seq_of ?t (snd p)"
    proof
      fix p assume "p \<in> set (queue_pairs s)"
      then have "find_by ev_id (snd p) (events s) \<noteq> None" using pair_refs(1) [OF wf] by (simp add: find_by_None)
      then show "seq_of s (snd p) = seq_of ?t (snd p)" by (auto simp: seq_of_def ev find_by_append)
    qed
  qed
  ultimately show ?thesis by (simp add: order_ok_def)
qed

lemma order_ok_api_write:
  assumes w: "api_write tid s t" and ok: "order_ok s" and wf: "wf_db s"
  shows "order_ok t"
  using w
proof (cases rule: api_write.cases)
  case api_read
  with ok show ?thesis by simp
next
  case (api_register now url types secret)
  let ?e = "fst (insert_endpoint now tid url types secret s)"
  have e: "endpoints t = endpoints s @ [?e]" "events t = events s" "queue_pairs t = queue_pairs s"
    "ep_id ?e = uuid_src s (uuid_draws s)"
    using api_register by (simp_all add: insert_endpoint_def gen_random_uuid_def Let_def queue_pairs_def)
  have "\<forall>p\<in>set (queue_pairs s). fst p \<noteq> ep_id ?e"
    using drawn_fresh_ids(2) [OF wf] pair_refs(2) [OF wf] e(4) by force
  with ok show ?thesis
    by (auto simp: order_ok_def front_ok_def sent_expanded_def e seq_of_def [abs_def])
next
  case (api_status st eid)
  show ?thesis
    by (rule order_ok_cong [OF ok])
       (simp_all add: api_status set_status_def queue_pairs_def map_update_where)
next
  case (api_rotate eid expires stored)
  show ?thesis
    by (rule order_ok_cong [OF ok])
       (simp_all add: api_rotate endpoint_update_def queue_pairs_def map_update_where rotate_row_def)
next
  case (api_publish now k ty payload)
  with order_ok_publish [OF ok wf] show ?thesis by simp
next
  case (api_replay eid e now k a b)
  show ?thesis
    by (rule order_ok_cong [OF ok])
       (simp_all add: api_replay create_replay_eq queue_pairs_def split: option.split)
qed

section \<open>Expansion\<close>

lemma order_ok_expand_event:
  assumes ok: "order_ok s" and wf: "wf_db s" and v: "v \<in> set (events s)" "ev_status v = Pending_expansion"
    and oldest: "\<forall>w\<in>set (pending_events (ev_tenant_id v) s). ev_seq v \<le> ev_seq w"
  shows "order_ok (expand_event now v s)"
proof -
  let ?t = "expand_event now v s" and ?es = "map ep_id (subscribers (ev_tenant_id v) (ev_type v) s)"
  let ?exp = "\<lambda>w. if ev_id w = ev_id v then w\<lparr>ev_status := Expanded\<rparr> else w"
  obtain ns where ns: "deliveries (insert_deliveries now (fan_out v s) s) = deliveries s @ ns"
    "map (\<lambda>d. (d_event_id d, d_endpoint_id d)) ns = fan_out v s"
    by (rule insert_deliveries_obtain)
  have "map prod.swap (map (\<lambda>d. (d_event_id d, d_endpoint_id d)) ns) = map (\<lambda>e. (e, ev_id v)) ?es"
    unfolding ns(2) by (simp add: fan_out_def comp_def)
  then have pairs: "queue_pairs ?t = queue_pairs s @ map (\<lambda>e. (e, ev_id v)) ?es"
    by (simp add: queue_pairs_def expand_event_def mark_event_expanded_def ns(1) comp_def)
  have ev: "events ?t = map ?exp (events s)" and en: "endpoints ?t = endpoints s"
    by (simp_all add: expand_event_def mark_event_expanded_def update_where_def)
  have only: "w = v" if "w \<in> set (events s)" "ev_id w = ev_id v" for w
    using distinct_map_eq [of ev_id "events s" w v] that v(1) wf by (simp add: wf_db_def keys_ok_def)
  have seqs: "seq_of ?t u = seq_of s u" for u
  proof -
    have "find_by ev_id u (map ?exp xs) = map_option ?exp (find_by ev_id u xs)" for xs
      by (induction xs) auto
    from this [of "events s"] show ?thesis by (cases "find_by ev_id u (events s)") (simp_all add: seq_of_def ev)
  qed
  have front: "front_ok s" and sent: "sent_expanded s" and fio: "first_in_order (seq_of s) (queue_pairs s)"
    using ok by (simp_all add: order_ok_def)
  have younger: "ev_seq w < ev_seq v" if "w \<in> set (events s)" "ev_tenant_id w = ev_tenant_id v" "ev_status w = Expanded" for w
    using front that v unfolding front_ok_def by metis
  have "front_ok ?t"
    unfolding front_ok_def ev
  proof (intro ballI impI)
    fix a' b' assume "a' \<in> set (map ?exp (events s))" "b' \<in> set (map ?exp (events s))"
      and st: "ev_tenant_id a' = ev_tenant_id b'" "ev_status a' = Pending_expansion" "ev_status b' = Expanded"
    then obtain a b where ab: "a \<in> set (events s)" "a' = ?exp a" "b \<in> set (events s)" "b' = ?exp b" by auto
    have a: "a' = a" "ev_id a \<noteq> ev_id v" using st(2) ab(2) by (auto split: if_splits)
    show "ev_seq b' < ev_seq a'"
    proof (cases "ev_id b = ev_id v")
      case True
      with only ab have b: "b = v" by blast
      with st ab a have "a \<in> set (pending_events (ev_tenant_id v) s)" by (simp add: pending_events_def)
      with oldest have "ev_seq v \<le> ev_seq a" by blast
      moreover have "ev_seq v \<noteq> ev_seq a"
      proof
        assume "ev_seq v = ev_seq a"
        moreover have "distinct (map ev_seq (events s))"
          using wf by (auto simp: wf_db_def seqs_ok_def intro: sorted_wrt_less_distinct)
        ultimately have "a = v" using distinct_map_eq [of ev_seq "events s" a v] ab(1) v(1) by simp
        with a(2) show False by simp
      qed
      ultimately show ?thesis using a(1) b ab(4) by simp
    next
      case False
      with front st ab a show ?thesis by (auto simp: front_ok_def)
    qed
  qed
  moreover have "sent_expanded ?t"
    unfolding sent_expanded_def ev en
  proof (intro ballI impI)
    fix p w' assume p: "p \<in> set (queue_pairs ?t)" and "w' \<in> set (map ?exp (events s))" and id: "ev_id w' = snd p"
    then obtain w where w: "w \<in> set (events s)" "w' = ?exp w" by auto
    show "ev_status w' = Expanded \<and> (\<forall>e\<in>set (endpoints s). ep_id e = fst p \<longrightarrow> ep_tenant_id e = ev_tenant_id w')"
    proof (cases "p \<in> set (queue_pairs s)")
      case True
      have "ev_id w = snd p" using w(2) id by (auto split: if_splits)
      with sent True w show ?thesis by (auto simp: sent_expanded_def)
    next
      case False
      with p obtain e0 where e0: "e0 \<in> set (subscribers (ev_tenant_id v) (ev_type v) s)" "p = (ep_id e0, ev_id v)"
        by (auto simp: pairs)
      with w id have "ev_id w = ev_id v" by (auto split: if_splits)
      with only w have "w = v" "w' = v\<lparr>ev_status := Expanded\<rparr>" by auto
      moreover have "e = e0" if "e \<in> set (endpoints s)" "ep_id e = ep_id e0" for e
        using endpoint_eq [OF wf that(1) _ that(2)] e0(1) by (simp add: subscribers_def)
      ultimately show ?thesis using e0 by (auto simp: subscribers_def)
    qed
  qed
  moreover have "first_in_order (seq_of ?t) (queue_pairs ?t)"
    unfolding pairs seqs [abs_def]
  proof (rule first_in_order_fan_out [OF fio])
    have "distinct (map ep_id (endpoints s))" using wf by (simp add: wf_db_def keys_ok_def)
    then show "distinct ?es" by (simp add: subscribers_def distinct_map_filter)
    show "\<forall>p\<in>set (queue_pairs s). fst p \<in> set ?es \<longrightarrow> seq_of s (snd p) < seq_of s (ev_id v)"
    proof (intro ballI impI)
      fix p assume p: "p \<in> set (queue_pairs s)" "fst p \<in> set ?es"
      obtain w where w: "w \<in> set (events s)" "ev_id w = snd p" using pair_refs(1) [OF wf p(1)] by auto
      obtain e where e: "e \<in> set (endpoints s)" "ep_id e = fst p" "ep_tenant_id e = ev_tenant_id v"
        using p(2) by (auto simp: subscribers_def)
      have "ev_status w = Expanded" "ep_tenant_id e = ev_tenant_id w"
        using sent p(1) w e(1,2) by (auto simp: sent_expanded_def)
      with younger [OF w(1)] e(3) show "seq_of s (snd p) < seq_of s (ev_id v)"
        using seq_of_in [OF wf w(1)] seq_of_in [OF wf v(1)] w(2) by simp
    qed
  qed
  ultimately show ?thesis by (simp add: order_ok_def)
qed

lemma order_ok_expand_replay_row:
  assumes ok: "order_ok s" and wf: "wf_db s"
  shows "order_ok (expand_replay_row now r s)"
proof -
  let ?t = "expand_replay_row now r s"
  obtain ns where ns: "deliveries (insert_deliveries now (replay_rows r s) s) = deliveries s @ ns"
    "map (\<lambda>d. (d_event_id d, d_endpoint_id d)) ns = replay_rows r s"
    by (rule insert_deliveries_obtain)
  let ?ps = "map prod.swap (replay_rows r s)"
  have "map (\<lambda>d. (d_endpoint_id d, d_event_id d)) ns = ?ps"
    unfolding ns(2) [symmetric] by (simp add: comp_def)
  then have pairs: "queue_pairs ?t = queue_pairs s @ ?ps"
    by (simp add: queue_pairs_def expand_replay_row_def mark_replay_expanded_def ns(1))
  have sub: "set ?ps \<subseteq> set (queue_pairs s)"
    by (force simp: replay_rows_def queue_pairs_def in_window_def image_iff)
  have same: "events ?t = events s" "endpoints ?t = endpoints s"
    by (simp_all add: expand_replay_row_def mark_replay_expanded_def)
  have "first_in_order (seq_of ?t) (queue_pairs ?t)"
    unfolding pairs using first_in_order_repeat [OF _ sub] ok same
    by (simp add: order_ok_def seq_of_def [abs_def])
  moreover have "sent_expanded ?t"
    using ok sub unfolding sent_expanded_def pairs same order_ok_def by auto
  ultimately show ?thesis using ok same by (simp add: order_ok_def front_ok_def)
qed

end
