(* ===== verification/System.thy ===== *)
theory System
  imports Publish_Order
begin

text \<open>
  The whole system as a step relation: API requests, the seeding script, expansion and replay cycles,
  claims and write-backs of any number of workers, in any interleaving.  A state is the database and
  the claims that live workers hold.  The transactions of the code are the atomic steps, except that a claim,
  which the code makes in several, is one step here (\<open>Interleaving\<close> has its statements apart), taken on a candidate row that is not older than the lease it reports (\<open>fresh_candidate\<close>); a
  worker may die between its claim and its write-back (\<open>step_crash\<close>), and any time may
  pass between two steps, so a lease may expire under a slow worker.
\<close>

section \<open>Seeding a tenant (db/seed.ts)\<close>

text \<open>None when the unique constraint on the key's hash refuses the row.\<close>

definition seed_tenant :: "crypto \<Rightarrow> ts \<Rightarrow> bytes \<Rightarrow> string \<Rightarrow> db \<Rightarrow> (uuid \<times> string \<times> db) option" where
  "seed_tenant X now rnd name s =
     (let apiKey = generateSecret rnd ''tenant''; h = hashApiKey X apiKey;
          (i, s1) = gen_random_uuid s;
          row = \<lparr>tn_id = i, tn_name = name, tn_api_key_hash = h, tn_last_served_at = None, tn_created_at = now\<rparr>
      in if h \<in> tn_api_key_hash ` set (tenants s) then None
         else Some (i, apiKey, s1\<lparr>tenants := tenants s1 @ [row]\<rparr>))"

section \<open>States and steps\<close>

record sys =
  s_db :: db
  s_hands :: "claimed_delivery list"

definition hands_after :: "worker_error + claimed_delivery option \<Rightarrow> claimed_delivery list \<Rightarrow> claimed_delivery list" where
  "hands_after r hs = (case r of Inr (Some c) \<Rightarrow> c # hs | _ \<Rightarrow> hs)"

inductive sys_step :: "backoff_config \<Rightarrow> sys \<Rightarrow> sys \<Rightarrow> bool" for cfg where
  step_seed: "seed_tenant X now rnd name (s_db u) = Some (i, key, t) \<Longrightarrow> sys_step cfg u (u\<lparr>s_db := t\<rparr>)"
| step_request: "handle_request E i r (s_db u) = (resp, t) \<Longrightarrow> sys_step cfg u (u\<lparr>s_db := t\<rparr>)"
| step_expand: "runExpansionCycle locked now (s_db u) = (b, t) \<Longrightarrow> sys_step cfg u (u\<lparr>s_db := t\<rparr>)"
| step_replay: "runReplayExpansionCycle locked now (s_db u) = (b, t) \<Longrightarrow> sys_step cfg u (u\<lparr>s_db := t\<rparr>)"
| step_claim: "tryClaimEndpoint dec clk cand cutoff (s_db u) = (res, t) \<Longrightarrow> fresh_candidate cand (s_db u) \<Longrightarrow>
    sys_step cfg u \<lparr>s_db = t, s_hands = hands_after res (s_hands u)\<rparr>"
| step_complete: "c \<in> set (s_hands u) \<Longrightarrow> outcome_closed r \<Longrightarrow>
    completeDelivery now rnd c r cfg (s_db u) = (res, t) \<Longrightarrow>
    sys_step cfg u \<lparr>s_db = t, s_hands = remove1 c (s_hands u)\<rparr>"
| step_crash: "c \<in> set (s_hands u) \<Longrightarrow> sys_step cfg u (u\<lparr>s_hands := remove1 c (s_hands u)\<rparr>)"

inductive_cases sys_stepE: "sys_step cfg u u'"

definition sys_start :: "(nat \<Rightarrow> uuid) \<Rightarrow> sys" where
  "sys_start g = \<lparr>s_db = empty_db g, s_hands = []\<rparr>"

inductive reachable :: "backoff_config \<Rightarrow> sys \<Rightarrow> bool" for cfg where
  reach_start: "inj g \<Longrightarrow> reachable cfg (sys_start g)"
| reach_step: "reachable cfg u \<Longrightarrow> sys_step cfg u u' \<Longrightarrow> reachable cfg u'"

section \<open>The invariant\<close>

definition sys_ok :: "backoff_config \<Rightarrow> sys \<Rightarrow> bool" where
  "sys_ok cfg u \<longleftrightarrow> db_ok (maxAttempts cfg) (s_db u) \<and> order_ok (s_db u) \<and>
     (\<forall>c\<in>set (s_hands u). claim_ok (s_db u) c) \<and> distinct (map c_leaseId (s_hands u))"

lemma claim_drawn: "claim_ok s c \<Longrightarrow> c_leaseId c \<in> drawn_ids s"
  by (simp add: claim_ok_def)

lemma sys_ok_start: "inj g \<Longrightarrow> sys_ok cfg (sys_start g)"
  by (simp add: sys_ok_def sys_start_def db_ok_def order_ok_def wf_db_def wf_defs empty_db_def single_flight_def
      attempts_numbered_def open_current_def failed_spent_def front_ok_def sent_expanded_def queue_pairs_def
      first_in_order_def)

lemma seed_tenant_frame:
  assumes "seed_tenant X now rnd name s = Some (i, key, t)"
  shows "deliveries t = deliveries s" "attempts t = attempts s" "endpoints t = endpoints s" "events t = events s"
    "drawn_ids s \<subseteq> drawn_ids t" "replays t = replays s"
  using assms by (auto simp: seed_tenant_def gen_random_uuid_def Let_def drawn_ids_def split: if_splits)

lemma wf_seed_tenant:
  assumes "seed_tenant X now rnd name s = Some (i, key, t)" "wf_db s"
  shows "wf_db t"
proof -
  let ?s = "s\<lparr>uuid_draws := Suc (uuid_draws s)\<rparr>"
  obtain row where "t = ?s\<lparr>tenants := tenants ?s @ [row]\<rparr>" "tn_id row = uuid_src s (uuid_draws s)"
    "tn_api_key_hash row \<notin> tn_api_key_hash ` set (tenants s)"
    using assms(1) by (auto simp: seed_tenant_def gen_random_uuid_def Let_def split: if_splits)
  then show ?thesis
    using wf_append_tenant [of ?s row] drawn_fresh_ids(1) [OF assms(2)] assms(2)
    by (simp add: wf_draw drawn_ids_Suc)
qed

lemma sys_ok_db_step:
  assumes "sys_ok cfg u" "db_ok (maxAttempts cfg) t" "order_ok t" "\<And>c. claim_ok (s_db u) c \<Longrightarrow> claim_ok t c"
  shows "sys_ok cfg (u\<lparr>s_db := t\<rparr>)"
  using assms by (auto simp: sys_ok_def)

lemma claim_ok_cong:
  assumes "claim_ok s c" "deliveries t = deliveries s" "attempts t = attempts s" "endpoints t = endpoints s"
    "drawn_ids s \<subseteq> drawn_ids t"
  shows "claim_ok t c"
  using assms by (auto simp: claim_ok_def holds_def fence_def)

lemma distinct_map_remove1: "distinct (map f xs) \<Longrightarrow> distinct (map f (remove1 x xs))"
  by (metis distinct_map distinct_remove1 inj_on_subset set_remove1_subset)

lemma sys_ok_step:
  assumes step: "sys_step cfg u u'" and ok: "sys_ok cfg u"
  shows "sys_ok cfg u'"
proof -
  have db: "db_ok (maxAttempts cfg) (s_db u)" and ord: "order_ok (s_db u)" and wf: "wf_db (s_db u)"
    and hands: "\<forall>c\<in>set (s_hands u). claim_ok (s_db u) c" and dist: "distinct (map c_leaseId (s_hands u))"
    using ok by (simp_all add: sys_ok_def db_ok_def)
  from step show ?thesis
  proof (cases rule: sys_step.cases)
    case (step_seed X now rnd name i key t)
    note fr = seed_tenant_frame [OF step_seed(2)] and wft = wf_seed_tenant [OF step_seed(2) wf]
    have "db_ok (maxAttempts cfg) t"
      using db wft fr queue_ok_cong [OF fr(1,2)]
      by (simp add: db_ok_split single_flight_def in_flight_of_def)
    moreover have "order_ok t" by (rule order_ok_cong [OF ord]) (simp_all add: fr queue_pairs_def)
    ultimately show ?thesis
      unfolding step_seed(1) by (rule sys_ok_db_step [OF ok _ _ claim_ok_cong [OF _ fr(1,2,3,5)]])
  next
    case (step_request E i r resp t)
    show ?thesis
      unfolding step_request(1)
    proof (cases "t = s_db u")
      case True
      with ok show "sys_ok cfg (u\<lparr>s_db := t\<rparr>)" by simp
    next
      case False
      with handle_request_write [of E i r "s_db u"] step_request(2) obtain tn where tn: "tn \<in> set (tenants (s_db u))"
        "api_write (tn_id tn) (s_db u) t" by auto
      have "tn_id tn \<in> tn_id ` set (tenants (s_db u))" using tn(1) by simp
      note keep = db_ok_api_write [OF tn(2) this db]
      show "sys_ok cfg (u\<lparr>s_db := t\<rparr>)"
        by (rule sys_ok_db_step [OF ok keep(1) order_ok_api_write [OF tn(2) ord wf] keep(2)])
    qed
  next
    case (step_expand locked now b t)
    from step_expand(2) show ?thesis
      unfolding step_expand(1)
    proof (cases rule: runExpansionCycle_cases)
      case idle
      with ok show "sys_ok cfg (u\<lparr>s_db := t\<rparr>)" by simp
    next
      case (work v)
      show "sys_ok cfg (u\<lparr>s_db := t\<rparr>)"
        unfolding work(5)
        by (rule sys_ok_db_step [OF ok db_ok_expand_event(1) [OF db work(2)]
              order_ok_expand_event [OF ord wf work(2,3,6)] db_ok_expand_event(2) [OF db work(2)]])
    qed
  next
    case (step_replay locked now b t)
    from step_replay(2) show ?thesis
      unfolding step_replay(1)
    proof (cases rule: runReplayExpansionCycle_cases)
      case idle
      with ok show "sys_ok cfg (u\<lparr>s_db := t\<rparr>)" by simp
    next
      case (work r)
      show "sys_ok cfg (u\<lparr>s_db := t\<rparr>)"
        unfolding work(5)
        by (rule sys_ok_db_step [OF ok db_ok_expand_replay_row(1) [OF db work(2)]
              order_ok_expand_replay_row [OF ord wf] db_ok_expand_replay_row(2) [OF db work(2)]])
    qed
  next
    case (step_claim dec clk cand cutoff res t)
    have post: "claim_post (maxAttempts cfg) (s_db u) res t"
      by (rule tryClaimEndpoint_post [OF step_claim(2) db step_claim(3)])
    have db': "db_ok (maxAttempts cfg) t" and keep: "\<forall>c. claim_ok (s_db u) c \<longrightarrow> claim_ok t c"
      and new: "\<forall>c. res = Inr (Some c) \<longrightarrow> claim_ok t c \<and> c_leaseId c \<notin> drawn_ids (s_db u)"
      using post unfolding claim_post_def by blast+
    have "order_ok t"
      using order_ok_cong [OF ord kept_pairs [OF kept_tryClaim [OF step_claim(2) wf]]]
        same_owners_tryClaim [OF step_claim(2)] by (simp add: same_owners_def)
    moreover have "(\<forall>c\<in>set (hands_after res (s_hands u)). claim_ok t c) \<and>
        distinct (map c_leaseId (hands_after res (s_hands u)))"
    proof (cases "\<exists>c. res = Inr (Some c)")
      case True
      then obtain c where c: "res = Inr (Some c)" by blast
      have fresh: "c_leaseId c \<notin> drawn_ids (s_db u)" "claim_ok t c" using new c by blast+
      have "c_leaseId c \<notin> c_leaseId ` set (s_hands u)"
      proof
        assume "c_leaseId c \<in> c_leaseId ` set (s_hands u)"
        then obtain c' where "c' \<in> set (s_hands u)" "c_leaseId c' = c_leaseId c" by auto
        with hands claim_drawn fresh(1) show False by metis
      qed
      moreover have "hands_after res (s_hands u) = c # s_hands u" by (simp add: c hands_after_def)
      ultimately show ?thesis using fresh(2) keep hands dist by simp
    next
      case False
      then have "hands_after res (s_hands u) = s_hands u"
        by (cases res) (simp_all add: hands_after_def split: option.split)
      with keep hands dist show ?thesis by simp
    qed
    ultimately show ?thesis using db' by (simp add: step_claim(1) sys_ok_def)
  next
    case (step_complete c r now rnd res t)
    have c: "claim_ok (s_db u) c" using hands step_complete(2) by blast
    note post = completeDelivery_post [OF step_complete(4) db c step_complete(3)]
    have "order_ok t"
      using order_ok_cong [OF ord kept_pairs [OF kept_complete [OF step_complete(4) wf c]]]
        same_owners_complete [OF step_complete(4)] by (simp add: same_owners_def)
    moreover have "\<forall>c'\<in>set (remove1 c (s_hands u)). claim_ok t c'"
      using post hands set_remove1_subset [of c "s_hands u"] by blast
    moreover have "distinct (map c_leaseId (remove1 c (s_hands u)))"
      using dist by (rule distinct_map_remove1)
    ultimately show ?thesis using post by (simp add: step_complete(1) sys_ok_def)
  next
    case (step_crash c)
    have "\<forall>c'\<in>set (remove1 c (s_hands u)). claim_ok (s_db u) c'"
      using hands set_remove1_subset [of c "s_hands u"] by blast
    moreover have "distinct (map c_leaseId (remove1 c (s_hands u)))"
      using dist by (rule distinct_map_remove1)
    ultimately show ?thesis using db ord by (simp add: step_crash(1) sys_ok_def)
  qed
qed

lemma reachable_ok: "reachable cfg u \<Longrightarrow> sys_ok cfg u"
  by (induction rule: reachable.induct) (simp_all add: sys_ok_start sys_ok_step)

lemma reachable_db: "reachable cfg u \<Longrightarrow> wf_db (s_db u)"
  by (drule reachable_ok) (simp add: sys_ok_def db_ok_def)

section \<open>Runs\<close>

lemma evolves_step:
  assumes "sys_step cfg u u'" "sys_ok cfg u"
  shows "evolves (s_db u) (s_db u')"
  using assms(1)
proof (cases rule: sys_step.cases)
  case (step_seed X now rnd name i key t)
  then show ?thesis using seed_tenant_frame(1) by (simp add: kept_evolves kept_cong)
next
  case (step_request E i r resp t)
  then show ?thesis
    using handle_request_write [of E i r "s_db u"] evolves_api_write by auto
next
  case (step_expand locked now b t)
  from step_expand(2) show ?thesis
    unfolding step_expand(1) by (cases rule: runExpansionCycle_cases) (simp_all add: evolves_expand_event)
next
  case (step_replay locked now b t)
  from step_replay(2) show ?thesis
    unfolding step_replay(1)
    by (cases rule: runReplayExpansionCycle_cases) (simp_all add: evolves_expand_replay_row)
next
  case (step_claim dec clk cand cutoff res t)
  then show ?thesis using assms(2) kept_tryClaim by (simp add: sys_ok_def db_ok_def kept_evolves)
next
  case (step_complete c r now rnd res t)
  then show ?thesis using assms(2) kept_complete by (simp add: sys_ok_def db_ok_def kept_evolves)
qed simp

definition sys_run :: "backoff_config \<Rightarrow> sys \<Rightarrow> sys \<Rightarrow> bool" where
  "sys_run cfg = (sys_step cfg)\<^sup>*\<^sup>*"

lemma run_trans: "sys_run cfg u v \<Longrightarrow> sys_run cfg v w \<Longrightarrow> sys_run cfg u w"
  unfolding sys_run_def by (rule rtranclp_trans)

lemma run_reachable: "reachable cfg u \<Longrightarrow> sys_run cfg u u' \<Longrightarrow> reachable cfg u'"
  unfolding sys_run_def by (rotate_tac, induction rule: rtranclp_induct) (auto intro: reach_step)

lemma run_evolves: "reachable cfg u \<Longrightarrow> sys_run cfg u u' \<Longrightarrow> evolves (s_db u) (s_db u')"
  unfolding sys_run_def
proof (rotate_tac, induction rule: rtranclp_induct)
  case (step v w)
  have "reachable cfg v" using run_reachable [of cfg u v] step by (simp add: sys_run_def)
  with step evolves_step reachable_ok evolves_trans show ?case by blast
qed simp

end
