(* ===== verification/Demo.thy ===== *)
theory Demo
  imports System
begin

text \<open>
  A concrete run used to instantiate the properties: a tenant is seeded, registers an endpoint and
  publishes an event, the worker expands it and claims the delivery.  The parameters of the model are
  the simplest functions that satisfy their hypotheses.
\<close>

definition demo_url :: js_url where
  "demo_url = \<lparr>u_protocol = ''https:'', u_hostname = ''hooks.test'', u_port = [], u_pathname = ''/in'',
     u_search = []\<rparr>"

definition demo_vars :: env where
  "demo_vars = [''SECRET_ENCRYPTION_KEY'' \<mapsto> base64 (replicate 32 (CHR ''k''))]"

definition demo_env :: api_env where
  "demo_env = \<lparr>uuid_in = (\<lambda>s. Some (nat_of_digits s)), uuid_out = show_nat, ts_in = (\<lambda>_. Some 0),
     jsonb_in = json_parse, zod_datetime = (\<lambda>_. True), zod_message = (\<lambda>_. ''Invalid''),
     js_date = (\<lambda>_. Some 0), url_of = (\<lambda>_. Some demo_url), dns = (\<lambda>_. Some [''2001:db8::1'']),
     crypt = toy_crypto, env_vars = demo_vars\<rparr>"

definition demo_bytes :: bytes where
  "demo_bytes = replicate 24 (CHR ''x'')"

definition demo_inputs :: "ts \<Rightarrow> req_inputs" where
  "demo_inputs t = \<lparr>ri_now = t, ri_date_now = t div 1000, ri_secret = demo_bytes,
     ri_iv = replicate 12 (CHR ''i'')\<rparr>"

definition demo_request :: "string \<Rightarrow> string list \<Rightarrow> json \<Rightarrow> request" where
  "demo_request key path body = \<lparr>rq_method = ''POST'', rq_path = path, rq_query = (\<lambda>_. Q_undefined),
     rq_header = [''authorization'' \<mapsto> ''Bearer '' @ generateSecret demo_bytes ''tenant'',
                  ''idempotency-key'' \<mapsto> key],
     rq_body = Some body\<rparr>"

definition demo_endpoint_body :: json where
  "demo_endpoint_body = JObj [(''url'', JStr ''https://hooks.test/in''), (''event_types'', JArr [JStr ''order''])]"

definition demo_event_body :: json where
  "demo_event_body = JObj [(''type'', JStr ''order''), (''payload'', JObj [(''n'', JNum ''1'')])]"

definition demo_cfg :: backoff_config where
  "demo_cfg = \<lparr>baseDelayMs = 1000, multiplier = 2, maxDelayMs = 30000, maxAttempts = 6\<rparr>"

definition demo_dec :: "string \<Rightarrow> string option" where
  "demo_dec = decryptSecret toy_crypto (replicate 32 (CHR ''k''))"

definition demo_clock :: "ts \<Rightarrow> claim_clock" where
  "demo_clock t = \<lparr>at_claim = t, at_serve = t, at_head = t div 1000, at_sent = t, at_secret = t div 1000\<rparr>"

definition demo_key :: string where
  "demo_key = generateSecret demo_bytes ''tenant''"

definition demo_secret :: string where
  "demo_secret = encryptSecret toy_crypto (replicate 32 (CHR ''k'')) (replicate 12 (CHR ''i'')) (generateSecret demo_bytes ''whsec'')"

definition demo_tenant :: tenant where
  "demo_tenant = \<lparr>tn_id = 0, tn_name = ''acme'', tn_api_key_hash = hashApiKey toy_crypto demo_key,
     tn_last_served_at = None, tn_created_at = 1000\<rparr>"

definition demo_endpoint :: endpoint where
  "demo_endpoint = \<lparr>ep_id = 1, ep_tenant_id = 0, ep_url = ''https://hooks.test/in'', ep_event_types = [''order''],
     ep_status = Active, ep_signing_secret = demo_secret, ep_secondary_secret = None,
     ep_secondary_secret_expires_at = None, ep_busy = False, ep_busy_since = None, ep_lease_id = None,
     ep_created_at = 2000\<rparr>"

definition demo_event :: "expansion_status \<Rightarrow> event" where
  "demo_event st = \<lparr>ev_id = 2, ev_tenant_id = 0, ev_idempotency_key = ''k1'', ev_type = ''order'',
     ev_payload = JObj [(''n'', JNum ''1'')], ev_status = st, ev_seq = 1, ev_created_at = 3000\<rparr>"

definition demo_delivery :: "delivery_state \<Rightarrow> nat \<Rightarrow> delivery" where
  "demo_delivery st n = \<lparr>d_id = 3, d_event_id = 2, d_endpoint_id = 1, d_state = st, d_attempt_count = n,
     d_next_attempt_at = 4000, d_created_at = 4000, d_seq = 1\<rparr>"

definition demo_attempt :: attempt where
  "demo_attempt = \<lparr>a_id = 5, a_delivery_id = 3, a_attempt_number = 1, a_sent_at = Some 5000,
     a_response_status = None, a_response_body_truncated = None, a_duration_ms = None, a_error_class = None,
     a_created_at = 5000\<rparr>"

definition demo_db :: "tenant list \<Rightarrow> endpoint list \<Rightarrow> event list \<Rightarrow> delivery list \<Rightarrow> attempt list \<Rightarrow>
    nat \<Rightarrow> nat \<Rightarrow> nat \<Rightarrow> db" where
  "demo_db ts es vs ds xs vseq dseq draws = \<lparr>tenants = ts, endpoints = es, events = vs, deliveries = ds,
     attempts = xs, replays = [], ev_next_seq = vseq, d_next_seq = dseq, uuid_src = id, uuid_draws = draws\<rparr>"

definition demo_seeded :: db where
  "demo_seeded = demo_db [demo_tenant] [] [] [] [] 1 1 1"

definition demo_registered :: db where
  "demo_registered = demo_db [demo_tenant] [demo_endpoint] [] [] [] 1 1 2"

definition demo_published :: db where
  "demo_published = demo_db [demo_tenant] [demo_endpoint] [demo_event Pending_expansion] [] [] 2 1 3"

definition demo_expanded :: db where
  "demo_expanded = demo_db [demo_tenant] [demo_endpoint] [demo_event Expanded] [demo_delivery Pending 0] [] 2 2 4"

definition demo_claimed :: db where
  "demo_claimed = demo_db [demo_tenant\<lparr>tn_last_served_at := Some 5000\<rparr>] [take_lease 5000 4 demo_endpoint]
     [demo_event Expanded] [demo_delivery In_flight 1] [demo_attempt] 2 2 6"

definition demo_cand :: candidate_row where
  "demo_cand = \<lparr>cand_id = 1, cand_tenant_id = 0, cand_busy = False\<rparr>"

definition demo_claim :: claimed_delivery where
  "demo_claim = \<lparr>c_endpointId = 1, c_tenantId = 0, c_leaseId = 4, c_deliveryId = 3, c_eventId = 2,
     c_eventType = ''order'', c_payload = JObj [(''n'', JNum ''1'')], c_attemptNumber = 1, c_attemptId = 5,
     c_url = ''https://hooks.test/in'', c_signingSecret = generateSecret demo_bytes ''whsec'',
     c_secondarySecret = None\<rparr>"

lemmas demo_rows = demo_tenant_def demo_endpoint_def demo_event_def demo_delivery_def demo_attempt_def

section \<open>The steps\<close>

lemma demo_seed: "seed_tenant toy_crypto 1000 demo_bytes ''acme'' (empty_db id) = Some (0, demo_key, demo_seeded)"
  by (simp add: seed_tenant_def gen_random_uuid_def empty_db_def Let_def demo_seeded_def demo_db_def demo_tenant_def
      demo_key_def)

lemma demo_key_chars: "CHR '' '' \<notin> set demo_key"
  unfolding demo_key_def by (rule key_chars)

lemma demo_bearer: "bearer_token (Some (''Bearer '' @ demo_key)) = Some demo_key"
  unfolding demo_key_def by (rule bearer_generated)

lemma demo_auth_hash:
  "tenants s = [t] \<Longrightarrow> tn_id t = 0 \<Longrightarrow> tn_api_key_hash t = hashApiKey toy_crypto demo_key \<Longrightarrow>
     requireTenant demo_env (demo_request key path body) s = Tenant 0"
  using demo_bearer
  by (simp add: requireTenant_def demo_request_def demo_env_def demo_key_def [symmetric])

lemma demo_auth: "tenants s = [demo_tenant] \<Longrightarrow> requireTenant demo_env (demo_request key path body) s = Tenant 0"
  by (rule demo_auth_hash [of _ demo_tenant]) (simp_all add: demo_tenant_def)

lemma demo_address: "checkAddress ''2001:db8::1'' = Allowed" "isIP ''hooks.test'' = 0"
  by code_simp+

lemma demo_keyBuffer: "keyBuffer (env_vars demo_env) = Inr (replicate 32 (CHR ''k''))"
proof -
  let ?k = "replicate 32 (CHR ''k'')"
  have "base64 ?k \<noteq> []"
  proof
    assume "base64 ?k = []"
    then have "unbase64 [] = ?k" using unbase64_base64 [of ?k] by metis
    then show False by (simp add: unbase64_def List.map_filter_simps)
  qed
  then show ?thesis by (simp add: keyBuffer_def envString_def demo_env_def demo_vars_def Let_def)
qed

lemma demo_crypt: "crypt demo_env = toy_crypto"
  by (simp add: demo_env_def)

lemma demo_register:
  "snd (handle_request demo_env (demo_inputs 2000) (demo_request ''k1'' [''endpoints''] demo_endpoint_body) demo_seeded) =
     demo_registered"
proof -
  have valid: "validateEndpointUrl (url_of demo_env) (dns demo_env) ''https://hooks.test/in'' = Allowed"
    by (simp add: validateEndpointUrl_def demo_env_def demo_url_def demo_address)
  have auth: "requireTenant demo_env (demo_request ''k1'' [''endpoints''] demo_endpoint_body) demo_seeded = Tenant 0"
    by (rule demo_auth) (simp add: demo_seeded_def demo_db_def)
  have schema: "registerSchema demo_endpoint_body = Some (''https://hooks.test/in'', [''order''])"
    by (simp add: registerSchema_def demo_endpoint_body_def get_prop_def)
  have chars: "pg_text_ok ''https://hooks.test/in''" "pg_text_ok ''order''" by (simp_all add: pg_text_ok_def)
  have route: "route_of ''POST'' [''endpoints''] = Some Post_endpoint" by (simp add: route_of_def)
  have "handle_request demo_env (demo_inputs 2000) (demo_request ''k1'' [''endpoints''] demo_endpoint_body) demo_seeded =
      with_error_handler (post_endpoint demo_env 2000 demo_bytes (replicate 12 (CHR ''i'')) 0 demo_endpoint_body demo_seeded)"
    unfolding handle_request_def auth
    by (simp add: demo_request_def route run_route_def demo_inputs_def)
  also have "snd \<dots> = demo_registered"
    by (simp add: post_endpoint_def schema valid demo_keyBuffer chars Let_def insert_endpoint_def gen_random_uuid_def
        demo_seeded_def demo_registered_def demo_db_def demo_endpoint_def demo_secret_def demo_crypt)
  finally show ?thesis .
qed

lemma demo_publish:
  "snd (handle_request demo_env (demo_inputs 3000) (demo_request ''k1'' [''events''] demo_event_body) demo_registered) =
     demo_published"
proof -
  have auth: "requireTenant demo_env (demo_request ''k1'' [''events''] demo_event_body) demo_registered = Tenant 0"
    by (rule demo_auth) (simp add: demo_registered_def demo_db_def)
  have schema: "publishSchema demo_event_body = Some (''order'', JObj [(''n'', JNum ''1'')])"
    by (simp add: publishSchema_def demo_event_body_def get_prop_def)
  have chars: "pg_text_ok ''k1''" "pg_text_ok ''order''" by (simp_all add: pg_text_ok_def)
  have route: "route_of ''POST'' [''events''] = Some Post_event" by (simp add: route_of_def)
  have body: "json_parse (stringify (JObj [(''n'', JNum ''1'')])) = Some (JObj [(''n'', JNum ''1'')])"
    by (rule json_parse_print) (simp add: scan_number_def num_sign_def num_fraction_def num_exponent_def is_digit_def)
  have "handle_request demo_env (demo_inputs 3000) (demo_request ''k1'' [''events''] demo_event_body) demo_registered =
      with_error_handler (post_event demo_env 3000 0 (Some ''k1'') demo_event_body demo_registered)"
    unfolding handle_request_def auth
    by (simp add: demo_request_def route run_route_def demo_inputs_def)
  also have "snd \<dots> = demo_published"
    using body
    by (simp add: post_event_def schema chars demo_env_def publish_event_eq find_event_def new_event_def
        demo_registered_def demo_published_def demo_db_def demo_event_def del: stringify.simps)
  finally show ?thesis .
qed

lemma demo_expand: "runExpansionCycle (\<lambda>_. True) (\<lambda>_. 4000) demo_published = (True, demo_expanded)"
  by (simp add: runExpansionCycle_def expansion_candidates_def pending_events_def demo_published_def demo_db_def
      demo_event_def expand_tenant_def expand_event_def mark_event_expanded_def fan_out_def subscribers_def
      demo_endpoint_def insert_deliveries_def insert_delivery_def gen_random_uuid_def Let_def
      demo_expanded_def demo_delivery_def)

lemma demo_decrypt: "demo_dec demo_secret = Some (generateSecret demo_bytes ''whsec'')"
  unfolding demo_dec_def demo_secret_def by (rule decrypt_encrypt [OF toy_gcm_correct]) simp

lemma demo_try:
  "tryClaimEndpoint demo_dec (demo_clock 5000) demo_cand (- 1000) demo_expanded = (Inr (Some demo_claim), demo_claimed)"
proof -
  have secrets: "claim_secrets demo_dec n (take_lease 5000 4 demo_endpoint) = Some (generateSecret demo_bytes ''whsec'', None)" for n
    using demo_decrypt by (simp add: claim_secrets_def hasActiveSecondary_def take_lease_def demo_endpoint_def)
  show ?thesis
    using secrets
    by (simp add: tryClaimEndpoint_def stmt_claim_def demo_clock_def demo_cand_def demo_expanded_def demo_db_def
        claimable_def lease_free_def gen_random_uuid_def Let_def stmt_serve_def reclaim_def claim_head_def
        select_head_def pending_of_def demo_delivery_def demo_event_def js_of_ts_def start_attempt_def
        stmt_insert_attempt_def stmt_in_flight_def demo_claim_def demo_claimed_def demo_attempt_def
        demo_tenant_def demo_endpoint_def take_lease_def)
qed

subsection \<open>A second event, and the lease running out\<close>

definition demo_event2 :: "expansion_status \<Rightarrow> event" where
  "demo_event2 st = \<lparr>ev_id = 6, ev_tenant_id = 0, ev_idempotency_key = ''k2'', ev_type = ''order'',
     ev_payload = JObj [(''n'', JNum ''1'')], ev_status = st, ev_seq = 2, ev_created_at = 6000\<rparr>"

definition demo_delivery2 :: delivery where
  "demo_delivery2 = \<lparr>d_id = 7, d_event_id = 6, d_endpoint_id = 1, d_state = Pending, d_attempt_count = 0,
     d_next_attempt_at = 7000, d_created_at = 7000, d_seq = 2\<rparr>"

definition demo_served :: tenant where
  "demo_served = demo_tenant\<lparr>tn_last_served_at := Some 5000\<rparr>"

definition demo_published2 :: db where
  "demo_published2 = demo_db [demo_served] [take_lease 5000 4 demo_endpoint]
     [demo_event Expanded, demo_event2 Pending_expansion] [demo_delivery In_flight 1] [demo_attempt] 3 2 7"

definition demo_queued :: db where
  "demo_queued = demo_db [demo_served] [take_lease 5000 4 demo_endpoint]
     [demo_event Expanded, demo_event2 Expanded] [demo_delivery In_flight 1, demo_delivery2] [demo_attempt] 3 3 8"

definition demo_stale :: candidate_row where
  "demo_stale = \<lparr>cand_id = 1, cand_tenant_id = 0, cand_busy = True\<rparr>"

definition demo_reclaimed :: db where
  "demo_reclaimed = demo_db [demo_tenant\<lparr>tn_last_served_at := Some 90000000\<rparr>] [take_lease 90000000 8 demo_endpoint]
     [demo_event Expanded, demo_event2 Expanded] [demo_delivery In_flight 2, demo_delivery2]
     [demo_attempt\<lparr>a_error_class := Some Worker_lease_expired\<rparr>,
      demo_attempt\<lparr>a_id := 9, a_attempt_number := 2, a_sent_at := Some 90000000, a_created_at := 90000000\<rparr>] 3 3 10"

definition demo_claim2 :: claimed_delivery where
  "demo_claim2 = demo_claim\<lparr>c_leaseId := 8, c_attemptNumber := 2, c_attemptId := 9\<rparr>"

lemma demo_publish2:
  "snd (handle_request demo_env (demo_inputs 6000) (demo_request ''k2'' [''events''] demo_event_body) demo_claimed) =
     demo_published2"
proof -
  have auth: "requireTenant demo_env (demo_request ''k2'' [''events''] demo_event_body) demo_claimed = Tenant 0"
    by (rule demo_auth_hash [of _ demo_served])
       (simp_all add: demo_claimed_def demo_db_def demo_tenant_def demo_served_def)
  have schema: "publishSchema demo_event_body = Some (''order'', JObj [(''n'', JNum ''1'')])"
    by (simp add: publishSchema_def demo_event_body_def get_prop_def)
  have chars: "pg_text_ok ''k2''" "pg_text_ok ''order''" by (simp_all add: pg_text_ok_def)
  have route: "route_of ''POST'' [''events''] = Some Post_event" by (simp add: route_of_def)
  have body: "json_parse (stringify (JObj [(''n'', JNum ''1'')])) = Some (JObj [(''n'', JNum ''1'')])"
    by (rule json_parse_print) (simp add: scan_number_def num_sign_def num_fraction_def num_exponent_def is_digit_def)
  have "handle_request demo_env (demo_inputs 6000) (demo_request ''k2'' [''events''] demo_event_body) demo_claimed =
      with_error_handler (post_event demo_env 6000 0 (Some ''k2'') demo_event_body demo_claimed)"
    unfolding handle_request_def auth
    by (simp add: demo_request_def route run_route_def demo_inputs_def)
  also have "snd \<dots> = demo_published2"
    using body
    by (simp add: post_event_def schema chars demo_env_def publish_event_eq find_event_def new_event_def
        demo_claimed_def demo_published2_def demo_db_def demo_event_def demo_event2_def demo_served_def
        del: stringify.simps)
  finally show ?thesis .
qed

lemma demo_expand2: "runExpansionCycle (\<lambda>_. True) (\<lambda>_. 7000) demo_published2 = (True, demo_queued)"
  by (simp add: runExpansionCycle_def expansion_candidates_def pending_events_def demo_published2_def demo_db_def
      demo_event_def demo_event2_def expand_tenant_def expand_event_def mark_event_expanded_def fan_out_def
      subscribers_def demo_endpoint_def insert_deliveries_def insert_delivery_def gen_random_uuid_def Let_def
      demo_queued_def demo_delivery_def demo_delivery2_def demo_attempt_def take_lease_def)

lemma demo_try2:
  "tryClaimEndpoint demo_dec (demo_clock 90000000) demo_stale 50000000 demo_queued = (Inr (Some demo_claim2), demo_reclaimed)"
proof -
  have secrets: "claim_secrets demo_dec n (take_lease 90000000 8 demo_endpoint) = Some (generateSecret demo_bytes ''whsec'', None)" for n
    using demo_decrypt by (simp add: claim_secrets_def hasActiveSecondary_def take_lease_def demo_endpoint_def)
  show ?thesis
    using secrets
    by (simp add: tryClaimEndpoint_def stmt_claim_def demo_clock_def demo_stale_def demo_queued_def demo_db_def
        claimable_def lease_free_def gen_random_uuid_def Let_def stmt_serve_def reclaim_def claim_head_def
        stmt_expire_orphans_def in_flight_of_def stmt_requeue_def orphan_def
        select_head_def pending_of_def demo_delivery_def demo_delivery2_def demo_event_def demo_event2_def js_of_ts_def
        start_attempt_def stmt_insert_attempt_def stmt_in_flight_def demo_claim_def demo_claim2_def demo_reclaimed_def
        demo_attempt_def demo_tenant_def demo_served_def demo_endpoint_def take_lease_def)
qed

section \<open>The run is reachable\<close>

definition demo_sys :: sys where
  "demo_sys = \<lparr>s_db = demo_claimed, s_hands = [demo_claim]\<rparr>"

definition demo_ready :: sys where
  "demo_ready = \<lparr>s_db = demo_expanded, s_hands = []\<rparr>"

definition demo_waiting :: sys where
  "demo_waiting = \<lparr>s_db = demo_published, s_hands = []\<rparr>"

lemma demo_step_db: "reachable cfg \<lparr>s_db = s, s_hands = h\<rparr> \<Longrightarrow>
    (\<And>u. s_db u = s \<Longrightarrow> sys_step cfg u (u\<lparr>s_db := t\<rparr>)) \<Longrightarrow> reachable cfg \<lparr>s_db = t, s_hands = h\<rparr>"
  by (drule reach_step [of cfg _ "\<lparr>s_db = t, s_hands = h\<rparr>"]) (metis sys.select_convs(1) sys.update_convs(1))

lemma demo_request_step:
  assumes "snd (handle_request E i r s) = t" "s_db u = s"
  shows "sys_step cfg u (u\<lparr>s_db := t\<rparr>)"
  by (rule step_request [where resp = "fst (handle_request E i r s)"]) (use assms in auto)

lemma demo_registered_reachable: "reachable cfg \<lparr>s_db = demo_registered, s_hands = []\<rparr>"
proof -
  have "reachable cfg (sys_start id)" by (rule reach_start) simp
  then have "reachable cfg \<lparr>s_db = empty_db id, s_hands = []\<rparr>" by (simp add: sys_start_def)
  then have "reachable cfg \<lparr>s_db = demo_seeded, s_hands = []\<rparr>"
    by (rule demo_step_db) (metis demo_seed step_seed)
  then show ?thesis by (rule demo_step_db) (rule demo_request_step [OF demo_register])
qed

lemma demo_waiting_reachable: "reachable cfg demo_waiting"
  unfolding demo_waiting_def
  by (rule demo_step_db [OF demo_registered_reachable]) (rule demo_request_step [OF demo_publish])

lemma demo_ready_reachable: "reachable cfg demo_ready"
  unfolding demo_ready_def
  by (rule demo_step_db [OF demo_waiting_reachable [unfolded demo_waiting_def]]) (metis demo_expand step_expand)

lemma demo_claim_step: "sys_step cfg demo_ready demo_sys"
proof -
  have "sys_step cfg demo_ready \<lparr>s_db = demo_claimed, s_hands = hands_after (Inr (Some demo_claim)) (s_hands demo_ready)\<rparr>"
  proof (rule step_claim)
    show "tryClaimEndpoint demo_dec (demo_clock 5000) demo_cand (- 1000) (s_db demo_ready) = (Inr (Some demo_claim), demo_claimed)"
      by (simp add: demo_ready_def demo_try)
    show "fresh_candidate demo_cand (s_db demo_ready)"
      by (simp add: fresh_candidate_def demo_ready_def demo_expanded_def demo_db_def demo_endpoint_def)
  qed
  then show ?thesis by (simp add: demo_sys_def demo_ready_def hands_after_def)
qed

lemma demo_reachable: "reachable cfg demo_sys"
  using demo_ready_reachable demo_claim_step by (rule reach_step)

lemma demo_holds: "holds demo_claim (s_db demo_sys)"
  by (simp add: holds_def fence_def demo_sys_def demo_claimed_def demo_db_def demo_claim_def demo_endpoint_def take_lease_def)

definition demo_two :: sys where
  "demo_two = \<lparr>s_db = demo_queued, s_hands = [demo_claim]\<rparr>"

definition demo_rivals :: sys where
  "demo_rivals = \<lparr>s_db = demo_reclaimed, s_hands = [demo_claim2, demo_claim]\<rparr>"

lemma demo_two_reachable: "reachable cfg demo_two"
proof -
  have "reachable cfg \<lparr>s_db = demo_published2, s_hands = [demo_claim]\<rparr>"
    by (rule demo_step_db [OF demo_reachable [unfolded demo_sys_def]]) (rule demo_request_step [OF demo_publish2])
  then show ?thesis
    unfolding demo_two_def by (rule demo_step_db) (metis demo_expand2 step_expand)
qed

lemma demo_stale_fresh: "fresh_candidate demo_stale s"
  by (simp add: fresh_candidate_def demo_stale_def)

lemma demo_rivals_reachable: "reachable cfg demo_rivals"
proof -
  have "sys_step cfg demo_two \<lparr>s_db = demo_reclaimed, s_hands = hands_after (Inr (Some demo_claim2)) (s_hands demo_two)\<rparr>"
    by (rule step_claim [of demo_dec "demo_clock 90000000" demo_stale 50000000])
       (simp_all add: demo_two_def demo_try2 demo_stale_fresh)
  then have "sys_step cfg demo_two demo_rivals" by (simp add: demo_rivals_def demo_two_def hands_after_def)
  with demo_two_reachable show ?thesis by (rule reach_step)
qed

lemma demo_rivals_holds: "holds demo_claim2 (s_db demo_rivals)"
  by (simp add: holds_def fence_def demo_rivals_def demo_reclaimed_def demo_db_def demo_claim_def demo_claim2_def
      demo_endpoint_def take_lease_def)

end
