(* ===== verification/Guarantees.thy ===== *)
theory Guarantees
  imports Demo
begin

text \<open>
  What the system promises in every reachable state and along every run of \<open>sys_step\<close>: fenced write-backs and their
  effect, head-of-line claims, publication order, giving up at the ceiling only and idempotent writes; and, with
  claims as single steps, one delivery in flight per endpoint and consecutive attempts (\<open>Claim_Guarantees\<close> has what
  remains of these between the statements of a claim).
\<close>

section \<open>Lemmas\<close>

lemma in_flight_le_one:
  assumes "wf_db s" "single_flight s"
  shows "length (in_flight_of eid s) \<le> 1"
proof (cases "in_flight_of eid s = []")
  case False
  with in_flight_known [OF assms(1)] have "eid \<in> ep_id ` set (endpoints s)" by blast
  with assms(2) show ?thesis by (auto simp: single_flight_def)
qed simp

lemma reachable_parts:
  assumes "reachable cfg u"
  shows "wf_db (s_db u)" "single_flight (s_db u)" "attempts_numbered (s_db u)" "open_current (s_db u)"
    "failed_spent (maxAttempts cfg) (s_db u)" "order_ok (s_db u)" "db_ok (maxAttempts cfg) (s_db u)"
    "c \<in> set (s_hands u) \<Longrightarrow> claim_ok (s_db u) c" "distinct (map c_leaseId (s_hands u))"
  using reachable_ok [OF assms] by (auto simp: sys_ok_def db_ok_def)

lemma holding_unique:
  assumes "reachable cfg u" "c \<in> set (s_hands u)" "c' \<in> set (s_hands u)"
    "c_endpointId c = c_endpointId c'" "holds c (s_db u)" "holds c' (s_db u)"
  shows "c = c'"
proof (rule distinct_map_eq [OF reachable_parts(9) [OF assms(1)]])
  show "c_leaseId c = c_leaseId c'" using assms(4-6) by (simp add: holds_def)
qed (use assms in simp_all)

lemma reclaim_deliveries:
  assumes "reclaim cand s = Some t"
  shows "deliveries t = deliveries s \<or> deliveries t =
    update_where (\<lambda>d. d_endpoint_id d = cand_id cand \<and> d_state d = In_flight) (\<lambda>d. d\<lparr>d_state := Pending\<rparr>) (deliveries s)"
proof (cases "cand_busy cand")
  case True
  with assms obtain v where v: "stmt_expire_orphans (cand_id cand) s = Some v" "t = stmt_requeue (cand_id cand) v"
    by (auto simp: reclaim_def)
  then have "deliveries v = deliveries s" by (auto elim!: stmt_expire_orphans_Some)
  with v(2) show ?thesis by (simp add: stmt_requeue_def)
qed (use assms in \<open>simp add: reclaim_def\<close>)

lemma reclaim_unresolved:
  assumes "reclaim cand s = Some t" "d \<in> set (deliveries s)" "unresolved d"
  shows "\<exists>d'\<in>set (deliveries t). d_endpoint_id d' = d_endpoint_id d \<and> d_seq d' = d_seq d \<and> unresolved d'"
  using reclaim_deliveries [OF assms(1)]
proof
  assume "deliveries t = deliveries s"
  with assms show ?thesis by auto
next
  let ?P = "\<lambda>d. d_endpoint_id d = cand_id cand \<and> d_state d = In_flight"
  assume t: "deliveries t = update_where ?P (\<lambda>d. d\<lparr>d_state := Pending\<rparr>) (deliveries s)"
  show ?thesis
    by (rule bexI [of _ "if ?P d then d\<lparr>d_state := Pending\<rparr> else d"])
       (use assms(2,3) in \<open>simp_all add: t set_update_where unresolved_def\<close>)
qed

lemma reclaim_back:
  assumes "reclaim cand s = Some t" "d \<in> set (deliveries t)" "unresolved d"
  shows "\<exists>d0\<in>set (deliveries s). d_id d0 = d_id d \<and> d_endpoint_id d0 = d_endpoint_id d \<and> d_seq d0 = d_seq d \<and>
    unresolved d0 \<and> d_attempt_count d0 = d_attempt_count d"
  using reclaim_deliveries [OF assms(1)]
proof
  assume "deliveries t = deliveries s"
  with assms show ?thesis by auto
next
  let ?P = "\<lambda>d. d_endpoint_id d = cand_id cand \<and> d_state d = In_flight"
  assume "deliveries t = update_where ?P (\<lambda>d. d\<lparr>d_state := Pending\<rparr>) (deliveries s)"
  with assms(2) have "d \<in> set (update_where ?P (\<lambda>d. d\<lparr>d_state := Pending\<rparr>) (deliveries s))" by simp
  then show ?thesis
  proof (cases rule: update_where_inE)
    case (hit y)
    then show ?thesis by (intro bexI [of _ y]) (simp_all add: unresolved_def)
  next
    case miss
    with assms(3) show ?thesis by (intro bexI [of _ d]) simp_all
  qed
qed

lemma claim_head_oldest:
  assumes cl: "stmt_claim (at_claim clk) cutoff (cand_id cand) s = (Some l, s1)"
    and re: "reclaim cand (stmt_serve (at_serve clk) (cand_tenant_id cand) s1) = Some s3"
    and hd: "select_head (cand_id cand) s3 = Some (d, v, e)" and ok: "db_ok mxa s" and fresh: "fresh_candidate cand s"
  obtains d0 where "d0 \<in> set (deliveries s)" "d_id d0 = d_id d" "d_endpoint_id d0 = cand_id cand" "d_endpoint_id d = cand_id cand"
    "unresolved d0" "d_attempt_count d0 = d_attempt_count d" "d_seq d0 = d_seq d"
    "\<forall>d'\<in>set (deliveries s). d_endpoint_id d' = cand_id cand \<longrightarrow> unresolved d' \<longrightarrow> d_seq d0 \<le> d_seq d'"
proof -
  let ?s2 = "stmt_serve (at_serve clk) (cand_tenant_id cand) s1"
  have s2: "deliveries ?s2 = deliveries s" by (simp add: stmt_claim_SomeD(2) [OF cl])
  have none: "in_flight_of (cand_id cand) s3 = []" and wf3: "wf_db s3"
    by (rule claim_prepared [OF cl ok fresh]; use re in simp)+
  note h = select_head_SomeD [OF wf3 hd]
  obtain d0 where d0: "d0 \<in> set (deliveries s)" "d_id d0 = d_id d" "d_endpoint_id d0 = d_endpoint_id d"
    "d_seq d0 = d_seq d" "unresolved d0" "d_attempt_count d0 = d_attempt_count d"
    using reclaim_back [OF re h(1)] h(3) s2 by (auto simp: unresolved_def)
  have "d_seq d0 \<le> d_seq d'" if d': "d' \<in> set (deliveries s)" "d_endpoint_id d' = cand_id cand" "unresolved d'" for d'
  proof -
    obtain d'' where d'': "d'' \<in> set (deliveries s3)" "d_endpoint_id d'' = cand_id cand" "d_seq d'' = d_seq d'" "unresolved d''"
      using reclaim_unresolved [OF re, of d'] d' s2 by auto
    have "d_state d'' \<noteq> In_flight"
      using none d''(1,2) by (auto simp: in_flight_of_def filter_empty_conv)
    with d'' have "d'' \<in> set (pending_of (cand_id cand) s3)" by (auto simp: pending_of_def unresolved_def)
    with h(8) d0(4) d''(3) show ?thesis by auto
  qed
  with d0 h(2) show thesis by (intro that [of d0]) simp_all
qed

lemma claim_oldest:
  assumes run: "tryClaimEndpoint dec clk cand cutoff s = (Inr (Some c), t)" and ok: "db_ok mxa s"
    and fresh: "fresh_candidate cand s"
  obtains d where "d \<in> set (deliveries s)" "d_id d = c_deliveryId c" "d_endpoint_id d = c_endpointId c"
    "unresolved d" "c_attemptNumber c = Suc (d_attempt_count d)"
    "\<forall>d'\<in>set (deliveries s). d_endpoint_id d' = c_endpointId c \<longrightarrow> unresolved d' \<longrightarrow> d_seq d \<le> d_seq d'"
  using run
proof (cases rule: tryClaimEndpoint_cases)
  case (claimed l s1 s3 d v e p q)
  have c: "c = new_claim cand l d v e (uuid_src s3 (uuid_draws s3)) p q" using claimed(6) by simp
  obtain d0 where d0: "d0 \<in> set (deliveries s)" "d_id d0 = d_id d" "d_endpoint_id d0 = cand_id cand" "unresolved d0"
    "d_attempt_count d0 = d_attempt_count d"
    "\<forall>d'\<in>set (deliveries s). d_endpoint_id d' = cand_id cand \<longrightarrow> unresolved d' \<longrightarrow> d_seq d0 \<le> d_seq d'"
    by (rule claim_head_oldest [OF claimed(1-3) ok fresh])
  show thesis by (rule that [of d0]) (use d0 in \<open>simp_all add: c new_claim_def\<close>)
qed simp_all

lemma attempts_of_count:
  "attempts_numbered s \<Longrightarrow> d \<in> set (deliveries s) \<Longrightarrow>
     map a_attempt_number (attempts_of (d_id d) s) = [1..<Suc (d_attempt_count d)]"
  by (simp add: attempts_numbered_def)

section \<open>Ordering and exclusion\<close>

text \<open>
  In every reachable state an endpoint has at most one delivery in flight, whatever the
  interleaving of requests, expansions, workers, expired leases and crashes.
\<close>

theorem one_delivery_in_flight:
  assumes "reachable cfg u"
  shows "length (in_flight_of eid (s_db u)) \<le> 1"
  using in_flight_le_one reachable_parts(1,2) [OF assms] .

theorem one_delivery_in_flight_witness: "length (in_flight_of 1 (s_db demo_sys)) \<le> 1"
  by (rule one_delivery_in_flight [OF demo_reachable [of demo_cfg]])



text \<open>
  C5. Delivery order is publication order: when an event enters an endpoint's queue for the first time,
  every event that entered that queue before it was published before it.
\<close>

theorem queue_in_publish_order:
  assumes "reachable cfg u" "deliveries (s_db u) = xs @ d # ys"
    "\<forall>x\<in>set xs. d_endpoint_id x = d_endpoint_id d \<longrightarrow> d_event_id x \<noteq> d_event_id d"
    "x \<in> set xs" "d_endpoint_id x = d_endpoint_id d"
    "v \<in> set (events (s_db u))" "ev_id v = d_event_id x" "w \<in> set (events (s_db u))" "ev_id w = d_event_id d"
  shows "ev_seq v < ev_seq w"
proof -
  let ?g = "\<lambda>d. (d_endpoint_id d, d_event_id d)"
  have "first_in_order (seq_of (s_db u)) (queue_pairs (s_db u))"
    using reachable_parts(6) [OF assms(1)] by (simp add: order_ok_def)
  moreover have "queue_pairs (s_db u) = map ?g xs @ ?g d # map ?g ys" by (simp add: queue_pairs_def assms(2))
  moreover have "?g d \<notin> set (map ?g xs)" using assms(3) by auto
  moreover have "(d_endpoint_id d, d_event_id x) \<in> set (map ?g xs)" using assms(4,5) by (auto intro!: image_eqI [of _ _ x])
  ultimately have "seq_of (s_db u) (d_event_id x) < seq_of (s_db u) (d_event_id d)"
    unfolding first_in_order_def by blast
  then show ?thesis
    using seq_of_in [OF reachable_parts(1) [OF assms(1)] assms(6)] seq_of_in [OF reachable_parts(1) [OF assms(1)] assms(8)]
      assms(7,9) by simp
qed

theorem queue_in_publish_order_witness:
  "ev_seq (demo_event Expanded) < ev_seq (demo_event2 Expanded)"
  by (rule queue_in_publish_order [OF demo_two_reachable [of demo_cfg], of "[demo_delivery In_flight 1]" demo_delivery2 "[]"
        "demo_delivery In_flight 1"])
     (simp_all add: demo_two_def demo_queued_def demo_db_def demo_delivery_def demo_delivery2_def demo_event_def demo_event2_def)

text \<open>
  C6. A worker whose lease ran out and was taken over cannot disturb its successor: while another claim
  of the endpoint holds the lease, its write-back answers \<^verbatim>\<open>lease_lost\<close> and changes nothing, whatever
  result it brings.
\<close>

theorem stale_worker_fenced:
  assumes "reachable cfg u" "c \<in> set (s_hands u)" "c' \<in> set (s_hands u)" "c \<noteq> c'"
    "c_endpointId c = c_endpointId c'" "holds c' (s_db u)"
  shows "completeDelivery now rnd c r backoff_cfg (s_db u) = (Inr Oc_lease_lost, s_db u)"
proof -
  have "\<not> holds c (s_db u)" using holding_unique [OF assms(1-3,5)] assms(4,6) by blast
  then show ?thesis by (simp add: completeDelivery_def holds_def)
qed

theorem stale_worker_fenced_witness:
  "completeDelivery 90000001 0 demo_claim url_not_allowed_outcome demo_cfg (s_db demo_rivals) =
     (Inr Oc_lease_lost, s_db demo_rivals)"
  by (rule stale_worker_fenced [OF demo_rivals_reachable [of demo_cfg] _ _ _ _ demo_rivals_holds])
     (simp_all add: demo_rivals_def demo_claim2_def demo_claim_def)

section \<open>Writing back\<close>

lemma completed_row:
  assumes "completeDelivery now rnd c r cfg s = (Inr oc, t)" "oc \<noteq> Oc_lease_lost" "wf_db s"
    "d \<in> set (deliveries s)" "d_id d = c_deliveryId c"
  shows "holds c s" "oc = fst (settle_delivery now rnd c r cfg (stmt_record_outcome (c_attemptId c) r s))"
    "t = stmt_free (c_endpointId c) (snd (settle_delivery now rnd c r cfg (stmt_record_outcome (c_attemptId c) r s)))"
  using assms(1,2) by (auto elim!: completeDelivery_cases simp: holds_def)

lemma update_row:
  assumes "wf_db s" "d \<in> set (deliveries s)"
  shows "update_where (\<lambda>x. d_id x = d_id d) f (deliveries s) = map (\<lambda>x. if x = d then f d else x) (deliveries s)"
  unfolding update_where_def using d_id_eq [OF assms(1) _ assms(2)] by (intro map_cong refl) auto

lemma completion_rows:
  assumes "completeDelivery now rnd c r cfg s = (Inr oc, t)" "oc \<noteq> Oc_lease_lost" "wf_db s"
    "d \<in> set (deliveries s)" "d_id d = c_deliveryId c"
  shows "deliveries t = map (\<lambda>x. if x = d then
      (if http_success r then d\<lparr>d_state := Succeeded\<rparr>
       else if maxAttempts cfg \<le> of_nat (c_attemptNumber c) then d\<lparr>d_state := Failed\<rparr>
       else d\<lparr>d_state := Pending,
              d_next_attempt_at := now + computeBackoffDelayMs rnd (c_attemptNumber c) cfg * 1000\<rparr>)
      else x) (deliveries s) \<and>
    oc = (if http_success r then Oc_succeeded
          else if maxAttempts cfg \<le> of_nat (c_attemptNumber c) then Oc_halted else Oc_retrying)"
proof -
  note row = completed_row [OF assms]
  have "deliveries t = deliveries (snd (settle_delivery now rnd c r cfg (stmt_record_outcome (c_attemptId c) r s)))"
    by (simp add: row(3) stmt_free_def)
  also have "\<dots> = update_where (\<lambda>x. d_id x = d_id d)
      (if http_success r then (\<lambda>d. d\<lparr>d_state := Succeeded\<rparr>)
       else if maxAttempts cfg \<le> of_nat (c_attemptNumber c) then (\<lambda>d. d\<lparr>d_state := Failed\<rparr>)
       else (\<lambda>d. d\<lparr>d_state := Pending,
              d_next_attempt_at := now + computeBackoffDelayMs rnd (c_attemptNumber c) cfg * 1000\<rparr>)) (deliveries s)"
    by (simp add: settle_delivery_def stmt_resolve_def stmt_halt_def stmt_retry_def stmt_record_outcome_def assms(5))
  finally show ?thesis
    unfolding update_row [OF assms(3,4)] using row(2) by (auto simp: settle_delivery_def)
qed

text \<open>
  C9. What a fenced write-back does to the delivery, on each branch: a 2xx answer resolves it, the last
  allowed failure marks it failed, any other failure requeues it after the jittered backoff; the other
  rows are untouched.
\<close>

theorem completion_effect:
  assumes "completeDelivery now rnd c r cfg s = (Inr oc, t)" "oc \<noteq> Oc_lease_lost" "wf_db s"
    "d \<in> set (deliveries s)" "d_id d = c_deliveryId c"
  shows "deliveries t = map (\<lambda>x. if x = d then
      (if (case o_responseStatus r of Some st \<Rightarrow> 200 \<le> st \<and> st < 300 | None \<Rightarrow> False) then d\<lparr>d_state := Succeeded\<rparr>
       else if maxAttempts cfg \<le> of_nat (c_attemptNumber c) then d\<lparr>d_state := Failed\<rparr>
       else d\<lparr>d_state := Pending,
              d_next_attempt_at := now + computeBackoffDelayMs rnd (c_attemptNumber c) cfg * 1000\<rparr>)
      else x) (deliveries s) \<and>
    oc = (if (case o_responseStatus r of Some st \<Rightarrow> 200 \<le> st \<and> st < 300 | None \<Rightarrow> False) then Oc_succeeded
          else if maxAttempts cfg \<le> of_nat (c_attemptNumber c) then Oc_halted else Oc_retrying)"
  using completion_rows [OF assms] unfolding http_success_def by (cases "o_responseStatus r") simp_all

lemma demo_complete:
  "completeDelivery 8000 0 demo_claim url_not_allowed_outcome demo_cfg demo_claimed =
     (Inr Oc_retrying, snd (completeDelivery 8000 0 demo_claim url_not_allowed_outcome demo_cfg demo_claimed))"
  using demo_holds
  by (simp add: completeDelivery_def holds_def demo_sys_def url_not_allowed_outcome_def pg_text_ok_def Let_def
      settle_delivery_def http_success_def demo_cfg_def demo_claim_def)

theorem completion_effect_witness:
  "deliveries (snd (completeDelivery 8000 0 demo_claim url_not_allowed_outcome demo_cfg demo_claimed)) =
     [demo_delivery Pending 1\<lparr>d_next_attempt_at := 8000\<rparr>]"
  using completion_effect [OF demo_complete, of "demo_delivery In_flight 1"]
    reachable_parts(1) [OF demo_reachable [of demo_cfg]]
  by (simp add: demo_sys_def demo_claimed_def demo_db_def demo_delivery_def demo_claim_def http_success_def
      url_not_allowed_outcome_def demo_cfg_def computeBackoffDelayMs_def)

text \<open>
  Giving up is visible: exhausting the attempts halts the endpoint, and no other write-back changes
  an endpoint's status; every write-back that passes the fence releases the lease.
\<close>

theorem halting_and_release:
  assumes "completeDelivery now rnd c r cfg s = (Inr oc, t)" "oc \<noteq> Oc_lease_lost"
  shows "endpoints t = map (\<lambda>e. if ep_id e = c_endpointId c
      then free_lease (if oc = Oc_halted then e\<lparr>ep_status := Halted\<rparr> else e) else e) (endpoints s)"
  using assms
proof (cases rule: completeDelivery_cases)
  case written
  then show ?thesis
    by (auto simp: stmt_free_def settle_delivery_def stmt_resolve_def stmt_halt_def stmt_retry_def
        stmt_record_outcome_def update_where_def)
qed simp_all

theorem halting_and_release_witness:
  "endpoints (snd (completeDelivery 8000 0 demo_claim url_not_allowed_outcome demo_cfg demo_claimed)) = [demo_endpoint]"
  using halting_and_release [OF demo_complete]
  by (simp add: demo_claimed_def demo_db_def demo_claim_def demo_endpoint_def take_lease_def free_lease_def)

section \<open>Attempts\<close>

text \<open>
  With claims as single steps, the attempts of a delivery are numbered consecutively from 1 up to its attempt
  count, in the order they were made, through retries, crashes after a claim and reclaims.
\<close>

theorem attempts_consecutive:
  assumes "reachable cfg u" "d \<in> set (deliveries (s_db u))"
  shows "map a_attempt_number (attempts_of (d_id d) (s_db u)) = [1..<Suc (d_attempt_count d)]"
  using reachable_parts(3) [OF assms(1)] assms(2) by (simp add: attempts_numbered_def)

theorem attempts_consecutive_witness:
  "map a_attempt_number (attempts_of 3 (s_db demo_rivals)) = [1, 2]"
  using attempts_consecutive [OF demo_rivals_reachable [of demo_cfg], of "demo_delivery In_flight 2"]
  by (simp add: demo_rivals_def demo_reclaimed_def demo_db_def demo_delivery_def upt_rec)

text \<open>
  No attempt dangles: an attempt without a response and without an error class is the latest attempt
  of a delivery that is in flight right now.
\<close>

theorem open_attempts_in_flight:
  assumes "reachable cfg u" "a \<in> set (attempts (s_db u))" "a_response_status a = None" "a_error_class a = None"
  shows "\<exists>d\<in>set (deliveries (s_db u)). d_id d = a_delivery_id a \<and> d_state d = In_flight \<and>
    d_attempt_count d = a_attempt_number a"
  using reachable_parts(4) [OF assms(1)] assms(2-4) by (simp add: open_current_def attempt_open_def)

theorem open_attempts_in_flight_witness:
  "\<exists>d\<in>set (deliveries (s_db demo_sys)). d_id d = 3 \<and> d_state d = In_flight \<and> d_attempt_count d = 1"
  using open_attempts_in_flight [OF demo_reachable [of demo_cfg], of demo_attempt]
  by (simp add: demo_sys_def demo_claimed_def demo_db_def demo_attempt_def)

text \<open>
  C11. A delivery is given up only after the configured number of attempts was really made.
\<close>

theorem failed_only_when_exhausted:
  assumes "reachable cfg u" "d \<in> set (deliveries (s_db u))" "d_state d = Failed"
  shows "maxAttempts cfg \<le> of_nat (length (attempts_of (d_id d) (s_db u)))"
proof -
  have "maxAttempts cfg \<le> of_nat (d_attempt_count d)"
    using reachable_parts(5) [OF assms(1)] assms(2,3) by (simp add: failed_spent_def)
  moreover have "length (attempts_of (d_id d) (s_db u)) = d_attempt_count d"
    using arg_cong [where f = length, OF attempts_of_count [OF reachable_parts(3) [OF assms(1)] assms(2)]] by simp
  ultimately show ?thesis by simp
qed

definition demo_cfg1 :: backoff_config where
  "demo_cfg1 = demo_cfg\<lparr>maxAttempts := 1\<rparr>"

definition demo_halted :: sys where
  "demo_halted = \<lparr>s_db = snd (completeDelivery 8000 0 demo_claim url_not_allowed_outcome demo_cfg1 demo_claimed), s_hands = []\<rparr>"

lemma demo_halted_eq:
  "s_db demo_halted = demo_claimed\<lparr>endpoints := [demo_endpoint\<lparr>ep_status := Halted\<rparr>],
     deliveries := [demo_delivery Failed 1],
     attempts := [demo_attempt\<lparr>a_response_body_truncated := Some [], a_duration_ms := Some 0,
       a_error_class := Some Url_not_allowed\<rparr>]\<rparr>"
  using demo_holds
  by (simp add: demo_halted_def completeDelivery_def holds_def demo_sys_def url_not_allowed_outcome_def pg_text_ok_def
      Let_def settle_delivery_def http_success_def demo_cfg1_def demo_cfg_def demo_claim_def stmt_record_outcome_def
      stmt_resolve_def stmt_halt_def stmt_free_def demo_claimed_def demo_db_def demo_attempt_def demo_delivery_def
      demo_endpoint_def take_lease_def free_lease_def)

lemma demo_halted_reachable: "reachable demo_cfg1 demo_halted"
proof -
  obtain res where res: "completeDelivery 8000 0 demo_claim url_not_allowed_outcome demo_cfg1 (s_db demo_sys) = (res, s_db demo_halted)"
    by (metis demo_halted_def demo_sys_def prod.collapse sys.select_convs(1))
  have "sys_step demo_cfg1 demo_sys \<lparr>s_db = s_db demo_halted, s_hands = remove1 demo_claim (s_hands demo_sys)\<rparr>"
    by (rule step_complete [OF _ _ res]) (simp_all add: demo_sys_def outcome_closed_def url_not_allowed_outcome_def)
  then have "sys_step demo_cfg1 demo_sys demo_halted" by (simp add: demo_sys_def demo_halted_def)
  with demo_reachable show ?thesis by (rule reach_step)
qed

theorem failed_only_when_exhausted_witness:
  "maxAttempts demo_cfg1 \<le> of_nat (length (attempts_of 3 (s_db demo_halted)))"
  using failed_only_when_exhausted [OF demo_halted_reachable, of "demo_delivery Failed 1"]
  by (simp add: demo_halted_eq demo_delivery_def)

text \<open>
  Reclaiming an expired lease never fails: in a reachable state the scalar subquery that looks for
  the stranded delivery finds at most one row.
\<close>

theorem reclaim_never_ambiguous:
  assumes "reachable cfg u" "fresh_candidate cand (s_db u)"
  shows "fst (tryClaimEndpoint dec clk cand cutoff (s_db u)) \<noteq> Inl Cardinality_violation"
  using tryClaimEndpoint_post [OF _ reachable_parts(7) [OF assms(1)] assms(2)] by (simp add: claim_post_def prod_eq_iff)

theorem reclaim_never_ambiguous_witness:
  "fst (tryClaimEndpoint demo_dec (demo_clock 90000000) demo_stale 50000000 (s_db demo_two)) \<noteq> Inl Cardinality_violation"
  by (rule reclaim_never_ambiguous [OF demo_two_reachable [of demo_cfg] demo_stale_fresh])

section \<open>Idempotent writes along a run\<close>

definition db_step :: "backoff_config \<Rightarrow> db \<Rightarrow> db \<Rightarrow> bool" where
  "db_step cfg s t \<longleftrightarrow> (\<exists>u u'. sys_step cfg u u' \<and> s_db u = s \<and> s_db u' = t)"

lemma run_db_steps: "sys_run cfg u u' \<Longrightarrow> (db_step cfg)\<^sup>*\<^sup>* (s_db u) (s_db u')"
  unfolding sys_run_def
  by (induction rule: rtranclp_induct) (auto simp: db_step_def intro: rtranclp.rtrancl_into_rtrancl)

lemma find_event_append:
  "find_event tid k s = Some v \<Longrightarrow> events t = events s @ vs \<Longrightarrow> find_event tid k t = Some v"
  by (simp add: find_event_def head_option_append)

lemma api_write_events:
  assumes "api_write tid s t"
  shows "\<exists>vs. events t = events s @ vs" "\<exists>rs. replays t = replays s @ rs"
  using assms
  by (auto elim!: api_writeE simp: insert_endpoint_def gen_random_uuid_def Let_def set_status_def endpoint_update_def
      publish_event_eq create_replay_eq split: option.split)

lemma claim_events:
  "tryClaimEndpoint dec clk cand cutoff s = (r, t) \<Longrightarrow> events t = events s"
  "completeDelivery now rnd c o' cfg s = (res, t) \<Longrightarrow> events t = events s"
  using same_owners_tryClaim same_owners_complete by (auto simp: same_owners_def)

lemma head_filter_map:
  "(\<And>x. P (f x) = P x) \<Longrightarrow> head_option (filter P (map f xs)) = map_option f (head_option (filter P xs))"
  by (induction xs) auto

lemma event_stored_expand:
  "event_stored key (expand_event now v s) = event_stored key s"
proof -
  have "events (expand_event now v s) = map (\<lambda>w. if ev_id w = ev_id v then w\<lparr>ev_status := Expanded\<rparr> else w) (events s)"
    by (simp add: expand_event_def mark_event_expanded_def update_where_def)
  then show ?thesis
    by (simp add: event_stored_def find_event_def head_filter_map option.map_comp comp_def)
       (auto intro!: option.map_cong)
qed

lemma event_stored_step:
  assumes "db_step cfg s t" "event_stored key s = Some i"
  shows "event_stored key t = Some i"
proof -
  have keep: "event_stored key t' = Some i" if "events t' = events s @ vs" for t' vs
    using assms(2) find_event_append [OF _ that] by (auto simp: event_stored_def)
  obtain u u' where st: "sys_step cfg u u'" "s_db u = s" "s_db u' = t" using assms(1) by (auto simp: db_step_def)
  from st(1) show ?thesis
  proof (cases rule: sys_step.cases)
    case (step_seed X now rnd name j key' t')
    then show ?thesis using seed_tenant_frame(4) [OF step_seed(2)] keep [of t "[]"] st by simp
  next
    case (step_request E ii r resp t')
    then show ?thesis
      using handle_request_write [of E ii r "s_db u"] api_write_events(1) keep keep [of t "[]"] st by fastforce
  next
    case (step_expand locked now b t')
    have "t' = t" "s_db u = s" using step_expand(1) st by simp_all
    with step_expand(2) have "runExpansionCycle locked now s = (b, t)" by simp
    then show ?thesis
      by (cases rule: runExpansionCycle_cases) (simp_all add: assms(2) event_stored_expand)
  next
    case (step_replay locked now b t')
    from step_replay(2) show ?thesis
      by (cases rule: runReplayExpansionCycle_cases)
         (use step_replay(1) keep [of t "[]"] st in \<open>auto simp: expand_replay_row_def mark_replay_expanded_def\<close>)
  next
    case (step_claim dec clk cand cutoff res t')
    then show ?thesis using claim_events(1) [OF step_claim(2)] keep [of t "[]"] st by simp
  next
    case (step_complete c r now rnd res t')
    then show ?thesis using claim_events(2) [OF step_complete(4)] keep [of t "[]"] st by simp
  next
    case (step_crash c)
    then show ?thesis using assms(2) st by simp
  qed
qed

lemma replay_stored_expand: "replay_stored key (expand_replay_row now r s) = replay_stored key s"
proof -
  have "replays (expand_replay_row now r s) = map (\<lambda>w. if rp_id w = rp_id r then w\<lparr>rp_status := Expanded\<rparr> else w) (replays s)"
    by (simp add: expand_replay_row_def mark_replay_expanded_def update_where_def)
  then show ?thesis
    by (simp add: replay_stored_def find_replay_def head_filter_map option.map_comp comp_def)
       (auto intro!: option.map_cong)
qed

lemma worker_replays:
  "tryClaimEndpoint dec clk cand cutoff s = (r, t) \<Longrightarrow> replays t = replays s"
  "completeDelivery now rnd c o' cfg s = (res, t') \<Longrightarrow> replays t' = replays s"
proof -
  have rec: "reclaim cand s1 = Some s2 \<Longrightarrow> replays s2 = replays s1" for s1 s2
    by (auto simp: reclaim_def stmt_requeue_def elim!: stmt_expire_orphans_Some split: if_splits)
  have att: "replays (record_attempt n d s1) = replays s1" for n d s1
    by (simp add: record_attempt_def stmt_in_flight_def stmt_insert_attempt_def gen_random_uuid_def Let_def)
  have serve: "stmt_claim (at_claim clk) cutoff (cand_id cand) s = (Some l, s1) \<Longrightarrow>
      replays (stmt_serve (at_serve clk) (cand_tenant_id cand) s1) = replays s" for l s1
    using stmt_claim_SomeD [of "at_claim clk" cutoff "cand_id cand" s l s1] by (simp add: stmt_serve_def)
  show "tryClaimEndpoint dec clk cand cutoff s = (r, t) \<Longrightarrow> replays t = replays s"
    by (erule tryClaimEndpoint_cases) (auto simp: serve att stmt_release_def dest!: rec)
  show "completeDelivery now rnd c o' cfg s = (res, t') \<Longrightarrow> replays t' = replays s"
    by (erule completeDelivery_cases)
       (simp_all add: stmt_free_def settle_delivery_def stmt_resolve_def stmt_halt_def stmt_retry_def stmt_record_outcome_def)
qed

lemma replay_stored_step:
  assumes "db_step cfg s t" "replay_stored key s = Some i"
  shows "replay_stored key t = Some i"
proof -
  have keep: "replay_stored key t' = Some i" if "replays t' = replays s @ rs" for t' rs
    using assms(2) that by (auto simp: replay_stored_def find_replay_def head_option_append)
  obtain u u' where st: "sys_step cfg u u'" "s_db u = s" "s_db u' = t" using assms(1) by (auto simp: db_step_def)
  from st(1) show ?thesis
  proof (cases rule: sys_step.cases)
    case (step_seed X now rnd name j key' t')
    then show ?thesis using seed_tenant_frame(6) [OF step_seed(2)] keep [of t "[]"] st by simp
  next
    case (step_request E ii r resp t')
    then show ?thesis
      using handle_request_write [of E ii r "s_db u"] api_write_events(2) keep keep [of t "[]"] st by fastforce
  next
    case (step_expand locked now b t')
    from step_expand(2) show ?thesis
      by (cases rule: runExpansionCycle_cases)
         (use step_expand(1) keep [of t "[]"] st in \<open>auto simp: expand_event_def mark_event_expanded_def\<close>)
  next
    case (step_replay locked now b t')
    have "t' = t" "s_db u = s" using step_replay(1) st by simp_all
    with step_replay(2) have "runReplayExpansionCycle locked now s = (b, t)" by simp
    then show ?thesis
      by (cases rule: runReplayExpansionCycle_cases) (simp_all add: assms(2) replay_stored_expand)
  next
    case (step_claim dec clk cand cutoff res t')
    then show ?thesis using worker_replays(1) [OF step_claim(2)] keep [of t "[]"] st by simp
  next
    case (step_complete c r now rnd res t')
    then show ?thesis using worker_replays(2) [OF step_complete(4)] keep [of t "[]"] st by simp
  next
    case (step_crash c)
    then show ?thesis using assms(2) st by simp
  qed
qed

interpretation publish_run: persistent_insert event_stored publish_put "db_step cfg" for cfg
  by unfold_locales (rule event_stored_step)

interpretation replay_run: persistent_insert replay_stored replay_put "db_step cfg" for cfg
  by unfold_locales (rule replay_stored_step)

text \<open>
  C18. Publishing is idempotent for ever: a request repeated under the same key, with whatever content and
  after whatever the system did in between, answers the id of the first event and stores no second one.
\<close>

theorem publish_idempotent:
  assumes "publish_event now tid k ty payload (s_db u) = (v, t)" "sys_run cfg (u\<lparr>s_db := t\<rparr>) u'"
  shows "ev_id (fst (publish_event now' tid k ty' payload' (s_db u'))) = ev_id v \<and>
    events (snd (publish_event now' tid k ty' payload' (s_db u'))) = events (s_db u')"
proof -
  have put: "publish_put (tid, k) (now, ty, payload) (s_db u) = (ev_id v, t)"
    using assms(1) by (simp add: publish_put_def)
  have steps: "(db_step cfg)\<^sup>*\<^sup>* (snd (publish_put (tid, k) (now, ty, payload) (s_db u))) (s_db u')"
    using run_db_steps [OF assms(2)] put by simp
  from publish_run.run_same_id [OF steps, of "(now', ty', payload')"]
  have "ev_id (fst (publish_event now' tid k ty' payload' (s_db u'))) = ev_id v"
    by (simp add: publish_put_def assms(1))
  moreover have "event_stored (tid, k) (s_db u') \<noteq> None"
    using publish_run.run_keeps [OF steps publish.put_stores] by simp
  then have "events (snd (publish_event now' tid k ty' payload' (s_db u'))) = events (s_db u')"
    by (auto simp: event_stored_def publish_event_eq)
  ultimately show ?thesis ..
qed

theorem publish_idempotent_witness:
  "ev_id (fst (publish_event 9000 0 ''k1'' ''other'' JNull demo_published)) = 2 \<and>
   events (snd (publish_event 9000 0 ''k1'' ''other'' JNull demo_published)) = [demo_event Pending_expansion]"
  using publish_idempotent [of 3000 0 "''k1''" "''order''" "JObj [(''n'', JNum ''1'')]" "\<lparr>s_db = demo_registered, s_hands = []\<rparr>"
      "demo_event Pending_expansion" demo_published demo_cfg demo_waiting 9000 "''other''" JNull]
  by (simp add: sys_run_def demo_waiting_def publish_event_eq find_event_def demo_registered_def demo_published_def
      demo_db_def new_event_def demo_event_def)

text \<open>
  Requesting a replay is idempotent in the same sense: the key stands for the first request's window
  for ever, so a window is never expanded twice under one key.
\<close>

theorem replay_idempotent:
  assumes "create_replay now eid k a b (s_db u) = (r, t)" "sys_run cfg (u\<lparr>s_db := t\<rparr>) u'"
  shows "rp_id (fst (create_replay now' eid k a' b' (s_db u'))) = rp_id r \<and>
    replays (snd (create_replay now' eid k a' b' (s_db u'))) = replays (s_db u')"
proof -
  have put: "replay_put (eid, k) (now, a, b) (s_db u) = (rp_id r, t)"
    using assms(1) by (simp add: replay_put_def)
  have steps: "(db_step cfg)\<^sup>*\<^sup>* (snd (replay_put (eid, k) (now, a, b) (s_db u))) (s_db u')"
    using run_db_steps [OF assms(2)] put by simp
  from replay_run.run_same_id [OF steps, of "(now', a', b')"]
  have "rp_id (fst (create_replay now' eid k a' b' (s_db u'))) = rp_id r"
    by (simp add: replay_put_def assms(1))
  moreover have "replay_stored (eid, k) (s_db u') \<noteq> None"
    using replay_run.run_keeps [OF steps replay.put_stores] by simp
  then have "replays (snd (create_replay now' eid k a' b' (s_db u'))) = replays (s_db u')"
    by (auto simp: replay_stored_def create_replay_eq)
  ultimately show ?thesis ..
qed

theorem replay_idempotent_witness:
  "\<exists>r t. create_replay 1 1 ''k'' 0 9 demo_claimed = (r, t) \<and>
     rp_id (fst (create_replay 2 1 ''k'' 5 7 t)) = rp_id r \<and> replays (snd (create_replay 2 1 ''k'' 5 7 t)) = replays t"
proof -
  obtain r t where rt: "create_replay 1 1 ''k'' 0 9 demo_claimed = (r, t)" by fastforce
  have "rp_id (fst (create_replay 2 1 ''k'' 5 7 (s_db \<lparr>s_db = t, s_hands = []\<rparr>))) = rp_id r \<and>
      replays (snd (create_replay 2 1 ''k'' 5 7 (s_db \<lparr>s_db = t, s_hands = []\<rparr>))) = replays (s_db \<lparr>s_db = t, s_hands = []\<rparr>)"
    by (rule replay_idempotent [of 1 1 "''k''" 0 9 "\<lparr>s_db = demo_claimed, s_hands = []\<rparr>" r t demo_cfg])
       (simp_all add: rt [simplified] sys_run_def)
  with rt show ?thesis by auto
qed

end
