(* ===== verification/Expansion_Facts.thy ===== *)
theory Expansion_Facts
  imports Guarantees
begin

text \<open>
  What the two expansion cycles promise.  \<open>work_queue\<close> is their shared contract: a cycle that reports
  work has taken exactly one item off the backlog, a cycle that reports none leaves the state as it
  is and found the backlog empty.  From it follows once that a worker which repeats cycles until one
  reports no work, as the loop of \<^verbatim>\<open>worker.ts\<close> does, drains the backlog in as many cycles as there
  were items.  Both cycles interpret it, for the worker that obtains every lock it asks for.
\<close>

section \<open>Work queues\<close>

fun drain :: "nat \<Rightarrow> nat \<Rightarrow> (nat \<Rightarrow> 's \<Rightarrow> bool \<times> 's) \<Rightarrow> 's \<Rightarrow> nat \<times> 's" where
  "drain 0 i cycle s = (i, s)"
| "drain (Suc fuel) i cycle s =
     (case cycle i s of (True, t) \<Rightarrow> drain fuel (Suc i) cycle t | (False, t) \<Rightarrow> (i, t))"

locale work_queue =
  fixes inv :: "'s \<Rightarrow> bool"
    and backlog :: "'s \<Rightarrow> nat"
    and cycle :: "nat \<Rightarrow> 's \<Rightarrow> bool \<times> 's"
  assumes work: "inv s \<Longrightarrow> cycle i s = (True, t) \<Longrightarrow> inv t \<and> Suc (backlog t) = backlog s"
    and idle: "inv s \<Longrightarrow> cycle i s = (False, t) \<Longrightarrow> t = s \<and> backlog s = 0"
begin

lemma drain_empties:
  "inv s \<Longrightarrow> backlog s < fuel \<Longrightarrow> drain fuel i cycle s = (j, t) \<Longrightarrow>
     inv t \<and> backlog t = 0 \<and> j = i + backlog s"
proof (induction fuel arbitrary: i s)
  case (Suc fuel)
  obtain b u where c: "cycle i s = (b, u)" by fastforce
  show ?case
  proof (cases b)
    case True
    with c have u: "inv u" "Suc (backlog u) = backlog s" using work [OF Suc.prems(1)] by auto
    moreover have "drain fuel (Suc i) cycle u = (j, t)" using Suc.prems(3) c True by simp
    ultimately show ?thesis using Suc.IH [of u "Suc i"] Suc.prems(2) by simp
  next
    case False
    with c show ?thesis using idle [OF Suc.prems(1)] Suc.prems by auto
  qed
qed simp

end

section \<open>Event expansion\<close>

definition event_backlog :: "db \<Rightarrow> nat" where
  "event_backlog s = length (filter (\<lambda>v. ev_status v = Pending_expansion) (events s))"

lemma length_filter_flip:
  assumes "distinct (map key xs)" "x \<in> set xs" "P x"
    "\<And>y. key (f y) = key y" "\<not> P (f x)" "\<And>y. y \<in> set xs \<Longrightarrow> key y \<noteq> key x \<Longrightarrow> f y = y"
  shows "Suc (length (filter P (map f xs))) = length (filter P xs)"
  using assms(1,2,6)
proof (induction xs)
  case (Cons y ys)
  show ?case
  proof (cases "key y = key x")
    case True
    with Cons.prems have "y = x" by (metis (no_types, lifting) distinct.simps(2) image_eqI list.set_map list.simps(9) set_ConsD)
    moreover have "map f ys = ys"
      using Cons.prems True by (intro map_idI) (metis distinct.simps(2) image_eqI list.set_intros(2) list.set_map list.simps(9))
    ultimately show ?thesis using assms(3,5) by simp
  next
    case False
    then have "f y = y" "x \<in> set ys" using Cons.prems by auto
    with Cons show ?thesis by simp
  qed
qed simp

lemma events_expand_event:
  "events (expand_event now v s) = map (\<lambda>w. if ev_id w = ev_id v then w\<lparr>ev_status := Expanded\<rparr> else w) (events s)"
  by (simp add: expand_event_def mark_event_expanded_def update_where_def)

lemma event_backlog_expand:
  assumes "wf_db s" "v \<in> set (events s)" "ev_status v = Pending_expansion"
  shows "Suc (event_backlog (expand_event now v s)) = event_backlog s"
  unfolding event_backlog_def events_expand_event
  by (rule length_filter_flip [where key = ev_id and x = v]) (use assms in \<open>auto simp: wf_db_def keys_ok_def\<close>)

lemma candidates_pending:
  "tid \<in> set (expansion_candidates s) \<Longrightarrow> pending_events tid s \<noteq> []"
proof -
  assume "tid \<in> set (expansion_candidates s)"
  then have "tid \<in> set (remdups (map ev_tenant_id (filter (\<lambda>v. ev_status v = Pending_expansion) (events s))))"
    unfolding expansion_candidates_def by (metis in_set_takeD set_sort)
  then show ?thesis by (auto simp: pending_events_def filter_empty_conv)
qed

lemma candidates_Nil: "expansion_candidates s = [] \<longleftrightarrow> event_backlog s = 0"
proof -
  have "sort_key f xs = [] \<longleftrightarrow> xs = []" for f :: "uuid \<Rightarrow> nat option" and xs
    by (metis length_0_conv length_sort)
  then show ?thesis by (simp add: expansion_candidates_def event_backlog_def)
qed

interpretation expansion: work_queue wf_db event_backlog "\<lambda>i. runExpansionCycle (\<lambda>_. True) (now i)" for now
proof
  fix s i t
  assume wf: "wf_db s"
  show "runExpansionCycle (\<lambda>_. True) (now i) s = (True, t) \<Longrightarrow> wf_db t \<and> Suc (event_backlog t) = event_backlog s"
    using wf event_backlog_expand [OF wf] by (auto elim!: runExpansionCycle_cases intro: wf_expand_event)
  show "runExpansionCycle (\<lambda>_. True) (now i) s = (False, t) \<Longrightarrow> t = s \<and> event_backlog s = 0"
  proof (elim runExpansionCycle_cases)
    assume "t = s" "\<forall>tid\<in>set (expansion_candidates s). \<not> True \<or> pending_events tid s = []"
    then have "expansion_candidates s = []"
      using candidates_pending by (cases "expansion_candidates s") auto
    with \<open>t = s\<close> show "t = s \<and> event_backlog s = 0" by (simp add: candidates_Nil)
  qed simp
qed


lemma tables_expand_event:
  "endpoints (expand_event now v s) = endpoints s" "attempts (expand_event now v s) = attempts s"
  "tenants (expand_event now v s) = tenants s" "replays (expand_event now v s) = replays s"
  "deliveries (expand_event now v s) = deliveries (insert_deliveries now (fan_out v s) s)"
  by (simp_all add: expand_event_def mark_event_expanded_def)

lemma map_endpoint_rows: "map (\<lambda>d. (d_event_id d, d_endpoint_id d)) ns = map (\<lambda>e. (x, g e)) es \<Longrightarrow>
    map d_endpoint_id ns = map g es \<and> (\<forall>d\<in>set ns. d_event_id d = x)"
  by (induction ns arbitrary: es) (auto simp: Cons_eq_map_conv)

lemma demo_published_wf: "wf_db demo_published"
  using reachable_parts(1) [OF demo_waiting_reachable] by (simp add: demo_waiting_def db_ok_def)

text \<open>
  C19. Expansion fans an event out exactly: a cycle that reports work takes the tenant's oldest pending
  event, appends one fresh pending delivery for each endpoint of the tenant whose event types contain the type of the
  event and for no other, with new consecutive sequence numbers, marks that event and touches nothing else.
\<close>

theorem expansion_fans_out:
  assumes "wf_db s" "runExpansionCycle locked now s = (True, t)"
  shows "\<exists>v ns. v \<in> set (events s) \<and> ev_status v = Pending_expansion \<and>
    (\<forall>w\<in>set (events s). ev_tenant_id w = ev_tenant_id v \<longrightarrow> ev_status w = Pending_expansion \<longrightarrow> ev_seq v \<le> ev_seq w) \<and>
    deliveries t = deliveries s @ ns \<and>
    map d_endpoint_id ns =
      map ep_id (filter (\<lambda>e. ep_tenant_id e = ev_tenant_id v \<and> ev_type v \<in> set (ep_event_types e)) (endpoints s)) \<and>
    map d_seq ns = [d_next_seq s..<d_next_seq s + length ns] \<and>
    (\<forall>d\<in>set ns. d_event_id d = ev_id v \<and> d_state d = Pending \<and> d_attempt_count d = 0 \<and>
       d_next_attempt_at d = now (ev_tenant_id v) \<and> d_created_at d = now (ev_tenant_id v)) \<and>
    events t = update_where (\<lambda>w. ev_id w = ev_id v) (\<lambda>w. w\<lparr>ev_status := Expanded\<rparr>) (events s) \<and>
    endpoints t = endpoints s \<and> attempts t = attempts s \<and> tenants t = tenants s \<and> replays t = replays s"
  using assms(2)
proof (cases rule: runExpansionCycle_cases)
  case (work v)
  obtain ns where ns: "deliveries (insert_deliveries (now (ev_tenant_id v)) (fan_out v s) s) = deliveries s @ ns"
    "map (\<lambda>d. (d_event_id d, d_endpoint_id d)) ns = fan_out v s"
    "map d_seq ns = [d_next_seq s..<d_next_seq s + length (fan_out v s)]"
    "\<forall>d\<in>set ns. new_row (now (ev_tenant_id v)) d"
    by (rule insert_deliveries_obtain)
  note rows = map_endpoint_rows [OF ns(2) [unfolded fan_out_def]]
  have "length (fan_out v s) = length ns" using ns(2) by (metis length_map)
  then show ?thesis
    using work ns rows
    by (intro exI [of _ v] exI [of _ ns])
       (simp add: tables_expand_event events_expand_event update_where_def pending_events_def subscribers_def new_row_def)
qed simp

theorem expansion_fans_out_witness:
  "\<exists>v ns. v \<in> set (events demo_published) \<and> deliveries demo_expanded = deliveries demo_published @ ns \<and>
     map d_endpoint_id ns = map ep_id
       (filter (\<lambda>e. ep_tenant_id e = ev_tenant_id v \<and> ev_type v \<in> set (ep_event_types e)) (endpoints demo_published))"
  using expansion_fans_out [OF demo_published_wf demo_expand] by blast

section \<open>Replay expansion\<close>

definition replay_backlog :: "db \<Rightarrow> nat" where
  "replay_backlog s = length (filter (\<lambda>r. rp_status r = Pending_expansion) (replays s))"

lemma replays_expand_replay_row:
  "replays (expand_replay_row now r s) =
     map (\<lambda>w. if rp_id w = rp_id r then w\<lparr>rp_status := Expanded\<rparr> else w) (replays s)"
  by (simp add: expand_replay_row_def mark_replay_expanded_def update_where_def)

lemma replay_backlog_expand:
  assumes "wf_db s" "r \<in> set (replays s)" "rp_status r = Pending_expansion"
  shows "Suc (replay_backlog (expand_replay_row now r s)) = replay_backlog s"
  unfolding replay_backlog_def replays_expand_replay_row
  by (rule length_filter_flip [where key = rp_id and x = r]) (use assms in \<open>auto simp: wf_db_def keys_ok_def\<close>)

lemma replay_candidates_pending:
  assumes "rid \<in> set (replay_candidates s)"
  shows "\<exists>r\<in>set (replays s). rp_id r = rid \<and> rp_status r = Pending_expansion"
proof -
  from assms have "rid \<in> set (map rp_id (sort_key rp_created_at (filter (\<lambda>r. rp_status r = Pending_expansion) (replays s))))"
    unfolding replay_candidates_def by (rule in_set_takeD)
  then show ?thesis by auto
qed

lemma replay_candidates_Nil: "replay_candidates s = [] \<longleftrightarrow> replay_backlog s = 0"
proof -
  have "sort_key f xs = [] \<longleftrightarrow> xs = []" for f :: "replay \<Rightarrow> ts" and xs
    by (metis length_0_conv length_sort)
  then show ?thesis by (simp add: replay_candidates_def replay_backlog_def)
qed

interpretation replays: work_queue wf_db replay_backlog "\<lambda>i. runReplayExpansionCycle (\<lambda>_. True) (now i)" for now
proof
  fix s i t
  assume wf: "wf_db s"
  show "runReplayExpansionCycle (\<lambda>_. True) (now i) s = (True, t) \<Longrightarrow> wf_db t \<and> Suc (replay_backlog t) = replay_backlog s"
    using wf replay_backlog_expand [OF wf] by (auto elim!: runReplayExpansionCycle_cases intro: wf_expand_replay_row)
  show "runReplayExpansionCycle (\<lambda>_. True) (now i) s = (False, t) \<Longrightarrow> t = s \<and> replay_backlog s = 0"
  proof (elim runReplayExpansionCycle_cases)
    assume t: "t = s" and none: "\<forall>rid\<in>set (replay_candidates s). \<forall>r\<in>set (replays s).
      rp_id r = rid \<longrightarrow> rp_status r = Pending_expansion \<longrightarrow> \<not> True"
    have "replay_candidates s = []"
      using none replay_candidates_pending [of "hd (replay_candidates s)" s] by (cases "replay_candidates s") auto
    with t show "t = s \<and> replay_backlog s = 0" by (simp add: replay_candidates_Nil)
  qed simp
qed

text \<open>
  C20. Backlogs drain: a worker that repeats the expansion cycle until one reports no work, and obtains
  the locks, has expanded every pending event after exactly as many working cycles as there were
  pending events; the same holds of replay requests.
\<close>

theorem expansion_drains:
  assumes "wf_db s" "event_backlog s < n" "replay_backlog s < n"
  shows "(\<exists>t. drain n 0 (\<lambda>i. runExpansionCycle (\<lambda>_. True) (now i)) s = (event_backlog s, t) \<and>
      (\<forall>v\<in>set (events t). ev_status v = Expanded)) \<and>
    (\<exists>t. drain n 0 (\<lambda>i. runReplayExpansionCycle (\<lambda>_. True) (now i)) s = (replay_backlog s, t) \<and>
      (\<forall>r\<in>set (replays t). rp_status r = Expanded))"
proof -
  have st: "x \<noteq> Pending_expansion \<longleftrightarrow> x = Expanded" for x by (cases x) simp_all
  obtain j t where v: "drain n 0 (\<lambda>i. runExpansionCycle (\<lambda>_. True) (now i)) s = (j, t)" by fastforce
  obtain k u where r: "drain n 0 (\<lambda>i. runReplayExpansionCycle (\<lambda>_. True) (now i)) s = (k, u)" by fastforce
  from expansion.drain_empties [OF assms(1,2) v] replays.drain_empties [OF assms(1,3) r] show ?thesis
    by (auto simp: v r event_backlog_def replay_backlog_def filter_empty_conv st)
qed

theorem expansion_drains_witness:
  "\<exists>t. drain 2 0 (\<lambda>i. runExpansionCycle (\<lambda>_. True) (\<lambda>_. 4000)) demo_published = (1, t) \<and>
     (\<forall>v\<in>set (events t). ev_status v = Expanded)"
  using expansion_drains [of demo_published 2 "\<lambda>_ _. 4000"] demo_published_wf
  by (simp add: event_backlog_def replay_backlog_def demo_published_def demo_db_def demo_event_def)

text \<open>
  C21. A replay repeats exactly its window: the cycle that expands it appends one fresh delivery for
  every succeeded or failed delivery of the endpoint created in the closed range, in queue order, of the same
  event, leaves the originals as they are and marks that request only.
\<close>

theorem replay_repeats_window:
  assumes "runReplayExpansionCycle locked now s = (True, t)"
  shows "\<exists>r ns. r \<in> set (replays s) \<and> rp_status r = Pending_expansion \<and> deliveries t = deliveries s @ ns \<and>
    map d_event_id ns = map d_event_id (sort_key d_seq (filter (\<lambda>d. d_endpoint_id d = rp_endpoint_id r \<and>
      rp_range_start r \<le> d_created_at d \<and> d_created_at d \<le> rp_range_end r \<and> d_state d \<in> {Succeeded, Failed}) (deliveries s))) \<and>
    map d_seq ns = [d_next_seq s..<d_next_seq s + length ns] \<and>
    (\<forall>d\<in>set ns. d_endpoint_id d = rp_endpoint_id r \<and> d_state d = Pending \<and> d_attempt_count d = 0 \<and>
       d_next_attempt_at d = now (rp_id r) \<and> d_created_at d = now (rp_id r)) \<and>
    replays t = update_where (\<lambda>w. rp_id w = rp_id r) (\<lambda>w. w\<lparr>rp_status := Expanded\<rparr>) (replays s) \<and>
    endpoints t = endpoints s \<and> attempts t = attempts s \<and> events t = events s"
  using assms
proof (cases rule: runReplayExpansionCycle_cases)
  case (work r)
  obtain ns where ns: "deliveries (insert_deliveries (now (rp_id r)) (replay_rows r s) s) = deliveries s @ ns"
    "map (\<lambda>d. (d_event_id d, d_endpoint_id d)) ns = replay_rows r s"
    "map d_seq ns = [d_next_seq s..<d_next_seq s + length (replay_rows r s)]"
    "\<forall>d\<in>set ns. new_row (now (rp_id r)) d"
    by (rule insert_deliveries_obtain)
  have resolved: "st \<notin> {Pending, In_flight} \<longleftrightarrow> st \<in> {Succeeded, Failed}" for st by (cases st) simp_all
  have window: "in_window r = (\<lambda>d. d_endpoint_id d = rp_endpoint_id r \<and> rp_range_start r \<le> d_created_at d \<and>
      d_created_at d \<le> rp_range_end r \<and> d_state d \<in> {Succeeded, Failed})"
    by (simp only: in_window_def [abs_def] resolved)
  have "map d_event_id ns = map fst (replay_rows r s)" "map d_endpoint_id ns = map snd (replay_rows r s)"
    unfolding ns(2) [symmetric] by simp_all
  then have rows: "map d_event_id ns = map d_event_id (sort_key d_seq (filter (in_window r) (deliveries s)))"
    "\<forall>d\<in>set ns. d_endpoint_id d = rp_endpoint_id r"
    by (auto simp: replay_rows_def comp_def map_replicate_const) (metis image_eqI list.set_map in_set_replicate)
  have "length (replay_rows r s) = length ns" using ns(2) by (metis length_map)
  then show ?thesis
    using work ns rows unfolding window
    by (intro exI [of _ r] exI [of _ ns])
       (simp add: replays_expand_replay_row update_where_def expand_replay_row_def mark_replay_expanded_def new_row_def)
qed simp

definition demo_replay :: replay where
  "demo_replay = \<lparr>rp_id = 9, rp_endpoint_id = 1, rp_idempotency_key = ''r'', rp_range_start = 0,
     rp_range_end = 9000, rp_status = Pending_expansion, rp_created_at = 9000\<rparr>"

definition demo_requested :: db where
  "demo_requested = (demo_db [demo_tenant] [demo_endpoint] [demo_event Expanded]
     [demo_delivery Succeeded 1] [] 2 2 4)\<lparr>replays := [demo_replay]\<rparr>"

theorem replay_repeats_window_witness:
  "\<exists>t ns. runReplayExpansionCycle (\<lambda>_. True) (\<lambda>_. 9500) demo_requested = (True, t) \<and>
     deliveries t = deliveries demo_requested @ ns \<and> map d_event_id ns = [2]"
proof -
  obtain t where t: "runReplayExpansionCycle (\<lambda>_. True) (\<lambda>_. 9500) demo_requested = (True, t)"
    by (simp add: runReplayExpansionCycle_def replay_candidates_def demo_requested_def demo_replay_def demo_db_def
        expand_replay_def)
  from replay_repeats_window [OF t] obtain r ns where r: "r \<in> set (replays demo_requested)"
    "deliveries t = deliveries demo_requested @ ns"
    "map d_event_id ns = map d_event_id (sort_key d_seq (filter (\<lambda>d. d_endpoint_id d = rp_endpoint_id r \<and>
       rp_range_start r \<le> d_created_at d \<and> d_created_at d \<le> rp_range_end r \<and> d_state d \<in> {Succeeded, Failed})
       (deliveries demo_requested)))"
    by blast
  then have "map d_event_id ns = [2]"
    by (simp add: demo_requested_def demo_replay_def demo_db_def demo_delivery_def)
  with t r(2) show ?thesis by (intro exI [of _ t] exI [of _ ns]) simp
qed

end
