(* ===== verification/Tenancy.thy ===== *)
theory Tenancy
  imports Guarantees
begin

text \<open>
  Isolation of tenants in the REST API.  \<open>tenant_view tid s\<close> is the database with only the rows a
  tenant owns: its endpoints and events, the deliveries and replays of its endpoints, the attempts of
  those deliveries.  A reply is a function of that view, and a request changes no other tenant's view.
  Two of the reads reach deliveries through the event alone; for them the reason is an invariant, that
  an event is only ever queued on endpoints of its own tenant.
\<close>

section \<open>A tenant's rows\<close>

definition owns :: "uuid \<Rightarrow> db \<Rightarrow> uuid \<Rightarrow> bool" where
  "owns tid s eid \<longleftrightarrow> list_ex (\<lambda>e. ep_id e = eid \<and> ep_tenant_id e = tid) (endpoints s)"

definition owns_delivery :: "uuid \<Rightarrow> db \<Rightarrow> uuid \<Rightarrow> bool" where
  "owns_delivery tid s did \<longleftrightarrow> list_ex (\<lambda>d. d_id d = did \<and> owns tid s (d_endpoint_id d)) (deliveries s)"

definition tenant_view :: "uuid \<Rightarrow> db \<Rightarrow> db" where
  "tenant_view tid s = s\<lparr>
     tenants := filter (\<lambda>t. tn_id t = tid) (tenants s),
     endpoints := filter (\<lambda>e. ep_tenant_id e = tid) (endpoints s),
     events := filter (\<lambda>v. ev_tenant_id v = tid) (events s),
     deliveries := filter (\<lambda>d. owns tid s (d_endpoint_id d)) (deliveries s),
     attempts := filter (\<lambda>a. owns_delivery tid s (a_delivery_id a)) (attempts s),
     replays := filter (\<lambda>r. owns tid s (rp_endpoint_id r)) (replays s)\<rparr>"

definition tenancy :: "db \<Rightarrow> bool" where
  "tenancy s \<longleftrightarrow> (\<forall>d\<in>set (deliveries s). \<forall>v\<in>set (events s). ev_id v = d_event_id d \<longrightarrow>
     owns (ev_tenant_id v) s (d_endpoint_id d))"

lemma reachable_tenancy:
  assumes "reachable cfg u"
  shows "tenancy (s_db u)"
  unfolding tenancy_def
proof (intro ballI impI)
  fix d v assume d: "d \<in> set (deliveries (s_db u))" and v: "v \<in> set (events (s_db u))" "ev_id v = d_event_id d"
  have "refs_ok (s_db u)" using reachable_parts(1) [OF assms] by (simp add: wf_db_def)
  with d obtain e where e: "e \<in> set (endpoints (s_db u))" "ep_id e = d_endpoint_id d"
    unfolding refs_ok_def by fastforce
  have "(d_endpoint_id d, d_event_id d) \<in> set (queue_pairs (s_db u))" using d by (auto simp: queue_pairs_def)
  with v e have "ep_tenant_id e = ev_tenant_id v"
    using reachable_parts(6) [OF assms] by (force simp: order_ok_def sent_expanded_def)
  with e show "owns (ev_tenant_id v) (s_db u) (d_endpoint_id d)" by (auto simp: owns_def list_ex_iff)
qed

named_theorems view \<open>what the queries of the routes return on a tenant's view\<close>

lemma filter_within: "(\<And>x. x \<in> set xs \<Longrightarrow> Q x \<Longrightarrow> R x) \<Longrightarrow> filter Q (filter R xs) = filter Q xs"
  by (induction xs) auto

lemma view_fields [simp]:
  "uuid_src (tenant_view tid s) = uuid_src s" "uuid_draws (tenant_view tid s) = uuid_draws s"
  "ev_next_seq (tenant_view tid s) = ev_next_seq s" "d_next_seq (tenant_view tid s) = d_next_seq s"
  by (simp_all add: tenant_view_def)

lemma view_deliveries:
  "(\<And>d. d \<in> set (deliveries s) \<Longrightarrow> Q d \<Longrightarrow> owns tid s (d_endpoint_id d)) \<Longrightarrow>
     filter Q (deliveries (tenant_view tid s)) = filter Q (deliveries s)"
  by (simp add: tenant_view_def filter_within del: filter_filter)

lemma view_queue [view]:
  "owns tid s eid \<Longrightarrow> filter (\<lambda>d. d_endpoint_id d = eid \<and> P d) (deliveries (tenant_view tid s)) =
     filter (\<lambda>d. d_endpoint_id d = eid \<and> P d) (deliveries s)"
  by (rule view_deliveries) auto

lemma view_owned_endpoint [view]: "owned_endpoint tid eid (tenant_view tid s) = owned_endpoint tid eid s"
  unfolding owned_endpoint_def tenant_view_def by (simp del: filter_filter, subst filter_within) simp_all

lemma owned_owns: "owned_endpoint tid eid s = Some e \<Longrightarrow> owns tid s (ep_id e) \<and> owns tid s eid"
  using owned_endpoint_Some [of tid eid s e] by (auto simp: owns_def list_ex_iff)

lemma view_health:
  "owns tid s (ep_id e) \<Longrightarrow>
     serializeEndpointWithHealth (tenant_view tid s) e = serializeEndpointWithHealth s e"
  by (simp add: serializeEndpointWithHealth_def queue_depth_def oldest_pending_at_def recent_success_rate_def
      recent_terminal_def view)

lemma view_depth [view]: "owns tid s eid \<Longrightarrow> queue_depth eid (tenant_view tid s) = queue_depth eid s"
  by (simp add: queue_depth_def view)

lemma view_skipped [view]: "owns tid s eid \<Longrightarrow> skipped_failed eid (tenant_view tid s) = skipped_failed eid s"
  by (simp add: skipped_failed_def oldest_pending_at_def view)

lemma view_head [view]:
  "owns tid s (d_endpoint_id d) \<Longrightarrow> head_delivery_id (tenant_view tid s) d = head_delivery_id s d"
  by (simp add: head_delivery_id_def view)

lemma view_queue_rows [view]: "owns tid s eid \<Longrightarrow> queue_rows eid b (tenant_view tid s) = queue_rows eid b s"
  by (simp add: queue_rows_def view)

lemma view_find_event [view]: "find_event tid k (tenant_view tid s) = find_event tid k s"
  unfolding find_event_def tenant_view_def by (simp del: filter_filter, subst filter_within) simp_all

lemma view_find_replay [view]: "owns tid s eid \<Longrightarrow> find_replay eid k (tenant_view tid s) = find_replay eid k s"
  unfolding find_replay_def tenant_view_def by (simp del: filter_filter, subst filter_within) simp_all

section \<open>Replies\<close>

lemma list_ex_update_where:
  "(\<And>r. P (f r) = P r) \<Longrightarrow> list_ex P (update_where Q f xs) = list_ex P xs"
  by (induction xs) auto

lemma view_endpoint_update:
  assumes "\<And>e. ep_id (f e) = ep_id e" "\<And>e. ep_tenant_id (f e) = ep_tenant_id e"
  shows "tenant_view tid' (endpoint_update tid eid f s) = endpoint_update tid eid f (tenant_view tid' s)"
    and "owns tid' (endpoint_update tid eid f s) = owns tid' s"
proof -
  have own: "owns tid' (endpoint_update tid eid f s) i = owns tid' s i" for i
    by (simp add: owns_def endpoint_update_def list_ex_update_where assms)
  then show "owns tid' (endpoint_update tid eid f s) = owns tid' s" ..
  have del: "owns_delivery tid' (endpoint_update tid eid f s) = owns_delivery tid' s"
    unfolding owns_delivery_def own by (simp add: endpoint_update_def)
  show "tenant_view tid' (endpoint_update tid eid f s) = endpoint_update tid eid f (tenant_view tid' s)"
    unfolding tenant_view_def own del by (simp add: endpoint_update_def filter_update_where assms)
qed

lemma view_set_status:
  "tenant_view tid' (set_status st tid eid s) = set_status st tid eid (tenant_view tid' s)"
  unfolding set_status_update by (rule view_endpoint_update) simp_all


lemma view_pause: "fst (pause_endpoint E tid raw (tenant_view tid s)) = fst (pause_endpoint E tid raw s)"
  by (simp add: pause_endpoint_def with_uuid_def Let_def view_set_status [symmetric] view split: option.split)

lemma owns_set_status: "owns tid (set_status st tid' eid s) = owns tid s"
  unfolding set_status_update by (rule view_endpoint_update) simp_all

lemma view_resume: "fst (resume_endpoint E tid raw (tenant_view tid s)) = fst (resume_endpoint E tid raw s)"
proof -
  have "owns tid (set_status Active tid eid s) (ep_id e)"
    if "owned_endpoint tid eid (set_status Active tid eid s) = Some e" for eid e
    using owned_owns [OF that] by simp
  then show ?thesis
    by (simp add: resume_endpoint_def with_uuid_def Let_def view_set_status [symmetric] view split: option.split)
qed

lemma view_rotate:
  "fst (rotate_secret E date_now rnd iv tid raw (tenant_view tid s)) = fst (rotate_secret E date_now rnd iv tid raw s)"
proof -
  have "owned_endpoint tid eid (endpoint_update tid eid (rotate_row x y) (tenant_view tid s)) =
      owned_endpoint tid eid (endpoint_update tid eid (rotate_row x y) s)" for eid x y
    by (subst view_endpoint_update(1) [symmetric]) (simp_all add: rotate_row_def view)
  then show ?thesis
    by (simp add: rotate_secret_def with_uuid_def Let_def endpoint_update_def [symmetric] split: option.split sum.split)
qed

lemma view_post_endpoint:
  "fst (post_endpoint E now rnd iv tid body (tenant_view tid s)) = fst (post_endpoint E now rnd iv tid body s)"
  by (simp add: post_endpoint_def insert_endpoint_def gen_random_uuid_def Let_def split: option.split url_check.split sum.split)

lemma view_post_event:
  "fst (post_event E now tid kh body (tenant_view tid s)) = fst (post_event E now tid kh body s)"
  by (simp add: post_event_def publish_event_eq view Let_def new_event_def split: option.split)

lemma view_post_replay:
  "fst (post_replay E now tid raw kh body (tenant_view tid s)) = fst (post_replay E now tid raw kh body s)"
  by (auto simp: post_replay_def with_uuid_def create_replay_eq view Let_def new_replay_def owned_owns split: option.split)

lemma view_get_endpoint: "fst (get_endpoint E tid raw (tenant_view tid s)) = fst (get_endpoint E tid raw s)"
  by (auto simp: get_endpoint_def with_uuid_def view view_health owned_owns split: option.split)

lemma paginate_row: "x \<in> set (fst (paginate n (take m xs))) \<Longrightarrow> x \<in> set xs"
  by (auto simp: paginate_def Let_def split: if_splits dest: in_set_takeD)

lemma view_get_endpoints: "fst (get_endpoints E tid l b (tenant_view tid s)) = fst (get_endpoints E tid l b s)"
proof -
  have rows: "endpoint_rows tid bd (tenant_view tid s) = endpoint_rows tid bd s" for bd
    unfolding endpoint_rows_def tenant_view_def by (simp del: filter_filter, subst filter_within) simp_all
  have "serializeEndpointWithHealth (tenant_view tid s) e = serializeEndpointWithHealth s e"
    if "e \<in> set (fst (paginate n (take m (endpoint_rows tid bd s))))" for e n m bd
  proof (rule view_health)
    have "e \<in> set (endpoints s)" "ep_tenant_id e = tid"
      using paginate_row [OF that] by (auto simp: endpoint_rows_def newest_first_def)
    then show "owns tid s (ep_id e)" by (auto simp: owns_def list_ex_iff)
  qed
  then show ?thesis
    by (simp add: get_endpoints_def Let_def rows case_prod_beta split: sum.split)
qed

lemma view_get_queue:
  "fst (get_endpoint_deliveries E tid raw l a (tenant_view tid s)) = fst (get_endpoint_deliveries E tid raw l a s)"
proof -
  have "serializeDeliverySummary d (head_delivery_id (tenant_view tid s) d) = serializeDeliverySummary d (head_delivery_id s d)"
    if "d \<in> set (fst (paginate n (take m (queue_rows eid b s))))" "owns tid s eid" for d n m eid b
    using paginate_row [OF that(1)] that(2) by (simp add: queue_rows_def view)
  then show ?thesis
    by (auto simp: get_endpoint_deliveries_def with_uuid_def Let_def view owned_owns case_prod_beta
        split: option.split sum.split)
qed

lemma view_get_events:
  assumes "tenancy s"
  shows "fst (get_events E tid q (tenant_view tid s)) = fst (get_events E tid q s)"
proof -
  have "list_ex (\<lambda>d. d_event_id d = ev_id v \<and> d_endpoint_id d = eid) (deliveries (tenant_view tid s)) =
      list_ex (\<lambda>d. d_event_id d = ev_id v \<and> d_endpoint_id d = eid) (deliveries s)"
    if "v \<in> set (events s)" "ev_tenant_id v = tid" for v eid
    using assms that by (auto simp: tenant_view_def tenancy_def list_ex_iff)
  then have "filter (\<lambda>v. event_matches tid f (tenant_view tid s) v \<and> before b (event_key v)) (events (tenant_view tid s)) =
      filter (\<lambda>v. event_matches tid f s v \<and> before b (event_key v)) (events s)" for f b
    by (simp add: tenant_view_def) (rule filter_cong, auto simp: event_matches_def when_some_def split: option.split)
  then show ?thesis
    by (simp add: get_events_def event_rows_def Let_def case_prod_beta split: sum.split)
qed

lemma view_get_event:
  assumes "tenancy s"
  shows "fst (get_event E tid raw (tenant_view tid s)) = fst (get_event E tid raw s)"
proof -
  have ev: "filter (\<lambda>v. ev_id v = vid \<and> ev_tenant_id v = tid) (events (tenant_view tid s)) =
      filter (\<lambda>v. ev_id v = vid \<and> ev_tenant_id v = tid) (events s)" for vid
    unfolding tenant_view_def by (simp del: filter_filter, subst filter_within) simp_all
  have "filter (\<lambda>d. d_event_id d = ev_id v) (deliveries (tenant_view tid s)) =
      filter (\<lambda>d. d_event_id d = ev_id v) (deliveries s)"
    if "head_option (filter (\<lambda>v. ev_id v = vid \<and> ev_tenant_id v = tid) (events s)) = Some v" for v vid
    by (rule view_deliveries) (use assms head_option_in [OF that] in \<open>force simp: tenancy_def\<close>)
  then show ?thesis by (simp add: get_event_def with_uuid_def ev split: option.split)
qed

lemma view_get_delivery: "fst (get_delivery E tid raw (tenant_view tid s)) = fst (get_delivery E tid raw s)"
proof -
  have own: "list_ex (\<lambda>e. ep_id e = i \<and> ep_tenant_id e = tid) (endpoints (tenant_view tid s)) = owns tid s i" for i
    by (auto simp: tenant_view_def owns_def list_ex_iff)
  have dl: "owned_delivery tid did (tenant_view tid s) = owned_delivery tid did s" for did
    unfolding owned_delivery_def own by (subst view_deliveries) (simp_all add: owns_def)
  have "latest_attempts (d_id d) (tenant_view tid s) = latest_attempts (d_id d) s \<and> owns tid s (d_endpoint_id d)"
    if "owned_delivery tid did s = Some d" for did d
  proof -
    from head_option_in [OF that [unfolded owned_delivery_def]]
    have d: "d \<in> set (deliveries s)" "owns tid s (d_endpoint_id d)" by (simp_all add: owns_def)
    then have "owns_delivery tid s (d_id d)" by (auto simp: owns_delivery_def list_ex_iff)
    with d show ?thesis
      unfolding latest_attempts_def tenant_view_def by (simp del: filter_filter, subst filter_within) simp_all
  qed
  then show ?thesis
    by (auto simp: get_delivery_def with_uuid_def dl Let_def view split: option.split)
qed

lemma view_run_route:
  "tenancy s \<Longrightarrow> fst (run_route E i r body tid rt (tenant_view tid s)) = fst (run_route E i r body tid rt s)"
  by (cases rt) (simp_all add: run_route_def view_pause view_resume view_rotate view_post_endpoint view_post_event
      view_post_replay view_get_endpoint view_get_endpoints view_get_queue view_get_events view_get_event view_get_delivery)


lemma view_requireTenant:
  assumes "wf_db s" "requireTenant E r s = Tenant tid"
  shows "requireTenant E r (tenant_view tid s) = Tenant tid"
proof -
  from assms(2) obtain t token where t: "t \<in> set (tenants s)" "tn_id t = tid"
    "bearer_token (rq_header r ''authorization'') = Some token" "tn_api_key_hash t = hashApiKey (crypt E) token"
    by (rule requireTenant_in)
  let ?us = "filter (\<lambda>u. tn_api_key_hash u = hashApiKey (crypt E) token) (filter (\<lambda>u. tn_id u = tid) (tenants s))"
  have "t \<in> set ?us" using t by simp
  then obtain u us where us: "?us = u # us" by (cases ?us) (auto simp: filter_empty_conv)
  then have "u \<in> set ?us" by (simp only: list.set_intros)
  then have "tn_id u = tid" by simp
  with t us show ?thesis by (simp add: requireTenant_def tenant_view_def)
qed

text \<open>
  C22. A reply reveals nothing of other tenants: what an authenticated request answers in a reachable
  state is what it would answer on a database holding only the rows of its own tenant.
\<close>

theorem replies_confined:
  assumes "reachable cfg u" "requireTenant E r (s_db u) = Tenant tid"
  shows "fst (handle_request E i r (s_db u)) = fst (handle_request E i r (tenant_view tid (s_db u)))"
proof -
  have fst_eh: "fst x = fst y \<Longrightarrow> fst (with_error_handler x) = fst (with_error_handler y)" for x y
    by (simp add: with_error_handler_def split: sum.split)
  note run = view_run_route [OF reachable_tenancy [OF assms(1)]]
  show ?thesis
    using assms(2) view_requireTenant [OF reachable_parts(1) [OF assms(1)] assms(2)] fst_eh [OF run]
    by (auto simp: handle_request_def split: option.split auth_result.split)
      (simp_all add: with_error_handler_def)
qed

theorem replies_confined_witness:
  "fst (handle_request demo_env (demo_inputs 3000) (demo_request ''k1'' [''events''] demo_event_body) demo_registered) =
   fst (handle_request demo_env (demo_inputs 3000) (demo_request ''k1'' [''events''] demo_event_body) (tenant_view 0 demo_registered))"
proof -
  have "requireTenant demo_env (demo_request ''k1'' [''events''] demo_event_body) demo_registered = Tenant 0"
    by (rule demo_auth) (simp add: demo_registered_def demo_db_def)
  then show ?thesis
    using replies_confined [OF demo_registered_reachable [of demo_cfg], of demo_env
        "demo_request ''k1'' [''events''] demo_event_body" 0 "demo_inputs 3000"] by simp
qed

section \<open>Writes\<close>

text \<open>The rows of a view, without the shared counters.\<close>

definition tenant_rows :: "uuid \<Rightarrow> db \<Rightarrow>
    tenant list \<times> endpoint list \<times> event list \<times> delivery list \<times> attempt list \<times> replay list" where
  "tenant_rows tid s = (let v = tenant_view tid s
     in (tenants v, endpoints v, events v, deliveries v, attempts v, replays v))"

lemma rows_by_owns:
  assumes "owns tid t = owns tid s" "tenants t = tenants s" "deliveries t = deliveries s" "attempts t = attempts s"
    "filter (\<lambda>e. ep_tenant_id e = tid) (endpoints t) = filter (\<lambda>e. ep_tenant_id e = tid) (endpoints s)"
    "filter (\<lambda>v. ev_tenant_id v = tid) (events t) = filter (\<lambda>v. ev_tenant_id v = tid) (events s)"
    "filter (\<lambda>r. owns tid s (rp_endpoint_id r)) (replays t) = filter (\<lambda>r. owns tid s (rp_endpoint_id r)) (replays s)"
  shows "tenant_rows tid t = tenant_rows tid s"
  using assms by (simp add: tenant_rows_def tenant_view_def owns_delivery_def [abs_def])

lemma owns_by_endpoints:
  "filter (\<lambda>e. ep_tenant_id e = tid) (endpoints t) = filter (\<lambda>e. ep_tenant_id e = tid) (endpoints s) \<Longrightarrow>
     owns tid t = owns tid s"
proof
  fix eid
  assume eq: "filter (\<lambda>e. ep_tenant_id e = tid) (endpoints t) = filter (\<lambda>e. ep_tenant_id e = tid) (endpoints s)"
  have "owns tid x eid = list_ex (\<lambda>e. ep_id e = eid) (filter (\<lambda>e. ep_tenant_id e = tid) (endpoints x))" for x
    by (auto simp: owns_def list_ex_iff)
  with eq show "owns tid t eid = owns tid s eid" by simp
qed

lemma api_write_rows:
  assumes "api_write tid s t" "wf_db s" "tid' \<noteq> tid"
  shows "tenant_rows tid' t = tenant_rows tid' s"
proof -
  have upd: "filter (\<lambda>e. ep_tenant_id e = tid') (endpoints (endpoint_update tid eid f s)) =
      filter (\<lambda>e. ep_tenant_id e = tid') (endpoints s)" if "\<And>e. ep_tenant_id (f e) = ep_tenant_id e" for f eid
    unfolding endpoint_update_def by simp (rule filter_update_where_disjoint, use assms(3) that in auto)
  have ends: "filter (\<lambda>e. ep_tenant_id e = tid') (endpoints t) = filter (\<lambda>e. ep_tenant_id e = tid') (endpoints s)"
    using assms(1)
  proof (cases rule: api_write.cases)
    case (api_status st eid)
    then show ?thesis by (simp add: set_status_update upd)
  next
    case (api_rotate eid expires stored)
    then show ?thesis by (simp add: upd rotate_row_def)
  qed (use assms(3) in \<open>auto simp: insert_endpoint_def gen_random_uuid_def Let_def publish_event_eq create_replay_eq
      split: option.split\<close>)
  have evs: "filter (\<lambda>v. ev_tenant_id v = tid') (events t) = filter (\<lambda>v. ev_tenant_id v = tid') (events s)"
    using assms(1,3)
    by (auto elim!: api_writeE simp: insert_endpoint_def gen_random_uuid_def Let_def set_status_def endpoint_update_def
        publish_event_eq new_event_def create_replay_eq split: option.split)
  have reps: "filter (\<lambda>r. owns tid' s (rp_endpoint_id r)) (replays t) = filter (\<lambda>r. owns tid' s (rp_endpoint_id r)) (replays s)"
    using assms(1)
  proof (cases rule: api_write.cases)
    case (api_replay eid e now k a b)
    have "\<not> owns tid' s eid"
    proof
      assume "owns tid' s eid"
      then obtain e' where e': "e' \<in> set (endpoints s)" "ep_id e' = eid" "ep_tenant_id e' = tid'"
        by (auto simp: owns_def list_ex_iff)
      have "e' = e"
        using e' owned_endpoint_Some [OF api_replay(2)] distinct_map_eq [of ep_id "endpoints s" e' e] assms(2)
        by (auto simp: wf_db_def keys_ok_def)
      with e' owned_endpoint_Some [OF api_replay(2)] assms(3) show False by simp
    qed
    with api_replay show ?thesis by (simp add: create_replay_eq new_replay_def split: option.split)
  qed (auto simp: insert_endpoint_def gen_random_uuid_def Let_def set_status_def endpoint_update_def
      publish_event_eq split: option.split)
  show ?thesis
    by (rule rows_by_owns) (use ends evs reps owns_by_endpoints [OF ends] api_write_frame [OF assms(1)] in simp_all)
qed

text \<open>
  C23. A request changes only its own tenant's rows: in a reachable state, whatever the request, the
  rows of every tenant it is not authenticated as stay as they were, and an unauthenticated request
  changes nothing at all.
\<close>

theorem writes_confined:
  assumes "reachable cfg u" "requireTenant E r (s_db u) \<noteq> Tenant tid"
  shows "tenant_rows tid (snd (handle_request E i r (s_db u))) = tenant_rows tid (s_db u) \<and>
    ((\<forall>tid'. requireTenant E r (s_db u) \<noteq> Tenant tid') \<longrightarrow> snd (handle_request E i r (s_db u)) = s_db u)"
  using handle_request_write [of E i r "s_db u"]
proof
  assume "\<exists>t\<in>set (tenants (s_db u)). requireTenant E r (s_db u) = Tenant (tn_id t) \<and>
    api_write (tn_id t) (s_db u) (snd (handle_request E i r (s_db u)))"
  then obtain tid' where "requireTenant E r (s_db u) = Tenant tid'"
    "api_write tid' (s_db u) (snd (handle_request E i r (s_db u)))" by blast
  with api_write_rows [OF this(2) reachable_parts(1) [OF assms(1)], of tid] assms(2) show ?thesis by auto
qed simp

theorem writes_confined_witness:
  "tenant_rows 5 (snd (handle_request demo_env (demo_inputs 3000) (demo_request ''k1'' [''events''] demo_event_body)
     demo_registered)) = tenant_rows 5 demo_registered"
proof -
  have "requireTenant demo_env (demo_request ''k1'' [''events''] demo_event_body) demo_registered \<noteq> Tenant 5"
    using demo_auth [of demo_registered "''k1''" "[''events'']" demo_event_body] by (simp add: demo_registered_def demo_db_def)
  then show ?thesis
    using writes_confined [OF demo_registered_reachable [of demo_cfg], of demo_env
        "demo_request ''k1'' [''events''] demo_event_body" 5 "demo_inputs 3000"] by simp
qed

end
