(* ===== verification/Paging_Facts.thy ===== *)
theory Paging_Facts
  imports Tenancy
begin

text \<open>
  Following \<^verbatim>\<open>next_cursor\<close> through the three list routes.  \<open>follow\<close> is the client: it asks for a page,
  keeps its rows and asks again with the cursor it was given.  Each route's query interprets the
  locale \<open>keyset_paging\<close>, from which it follows that the pages are the whole list, every row once and in
  order.  For the queue view this holds of every database whose sequence numbers are exact as
  JavaScript numbers; for the two lists keyed by creation time it needs the timestamps to be whole
  milliseconds, and \<open>same_millisecond_skipped\<close> shows that the proviso is needed.
\<close>

section \<open>The client\<close>

fun follow :: "nat \<Rightarrow> (reply \<Rightarrow> ('v list \<times> string option) option) \<Rightarrow> (query_value \<Rightarrow> thrown + nat \<times> reply) \<Rightarrow>
    query_value \<Rightarrow> 'v list list" where
  "follow 0 rows_of route q = []"
| "follow (Suc n) rows_of route q =
     (case route q of
        Inl _ \<Rightarrow> []
      | Inr (_, r) \<Rightarrow>
          (case rows_of r of
             None \<Rightarrow> []
           | Some (vs, None) \<Rightarrow> [vs]
           | Some (vs, Some c) \<Rightarrow> vs # follow n rows_of route (Q_string c)))"

definition query_of :: "string option \<Rightarrow> query_value" where
  "query_of c = (case c of None \<Rightarrow> Q_undefined | Some x \<Rightarrow> Q_string x)"

lemma follow_visit:
  assumes "\<And>c. (\<exists>e. route (query_of c) = Inl e) \<and> query c = [] \<or>
    (\<exists>st r. route (query_of c) = Inr (st, r) \<and>
       rows_of r = Some (map g (fst (paginate limit (take (limit + 1) (query c)))),
         map_option cursor_of (snd (paginate limit (take (limit + 1) (query c))))))"
  shows "concat (follow n rows_of route (query_of c)) = map g (concat (visit n limit query cursor_of c))"
proof (induction n arbitrary: c)
  case (Suc n)
  obtain page lst where p: "paginate limit (take (limit + 1) (query c)) = (page, lst)" by fastforce
  have str: "Q_string x = query_of (Some x)" for x by (simp add: query_of_def)
  from assms [of c] show ?case
  proof (elim disjE exE conjE)
    fix e assume "route (query_of c) = Inl e" "query c = []"
    then show ?thesis by (simp add: paginate_def)
  next
    fix st r assume "route (query_of c) = Inr (st, r)" and "rows_of r =
      Some (map g (fst (paginate limit (take (limit + 1) (query c)))),
         map_option cursor_of (snd (paginate limit (take (limit + 1) (query c)))))"
    then show ?thesis
      using p Suc.IH [unfolded str] by (simp add: str split: option.split)
  qed
qed simp

section \<open>The queue view\<close>

definition queue_query :: "uuid \<Rightarrow> db \<Rightarrow> string option \<Rightarrow> delivery list" where
  "queue_query eid s c =
     (case after_bound (cursor_param decodeSeqCursor (query_of c)) of
        Inl _ \<Rightarrow> [] | Inr b \<Rightarrow> queue_rows eid b s)"

definition exact_seqs :: "db \<Rightarrow> bool" where
  "exact_seqs s \<longleftrightarrow> sorted_wrt (<) (map d_seq (deliveries s)) \<and> (\<forall>d\<in>set (deliveries s). d_seq d < 2 ^ 53)"

lemma seq_exact: "n < 2 ^ 53 \<Longrightarrow> after_bound (decodeSeqCursor (encodeSeqCursor n)) = Inr (Some (int n))"
proof -
  assume n: "n < 2 ^ 53"
  then have "of_nat n < (2 ^ 53 :: rat)" by (metis of_nat_less_iff of_nat_numeral of_nat_power)
  moreover have "(2 ^ 53 :: rat) \<le> js_overflow" by (simp add: js_overflow_def)
  ultimately have "of_nat n < js_overflow" by linarith
  then show ?thesis using n by (simp add: decode_encode_seq after_bound_def bigint_param_def)
qed

interpretation queue: keyset_paging exact_seqs "queue_query eid" "\<lambda>d. encodeSeqCursor (d_seq d)" for eid
proof
  fix s xs r ys
  assume ok: "exact_seqs s" and rows: "queue_query eid s None = xs @ r # ys"
  have none: "queue_query eid s None = filter (\<lambda>d. d_endpoint_id d = eid) (deliveries s)"
    using ok by (simp add: queue_query_def query_of_def cursor_param_def after_bound_def queue_rows_def exact_seqs_def
        strict_sorted_sort_key)
  then have "r \<in> set (filter (\<lambda>d. d_endpoint_id d = eid) (deliveries s))" using rows by (metis in_set_conv_decomp)
  then have "r \<in> set (deliveries s)" by simp
  then have "queue_query eid s (Some (encodeSeqCursor (d_seq r))) =
      filter (\<lambda>d. d_endpoint_id d = eid \<and> d_seq r < d_seq d) (deliveries s)"
    using ok by (simp add: queue_query_def query_of_def cursor_param_def seq_exact exact_seqs_def queue_rows_def
        strict_sorted_sort_key)
  also have "\<dots> = filter (\<lambda>d. d_seq r < d_seq d) (xs @ r # ys)"
    using rows none by (metis filter_filter)
  also have "\<dots> = ys"
  proof -
    have "sorted_wrt (<) (map d_seq (xs @ r # ys))"
      using ok rows none sorted_wrt_less_map_filter unfolding exact_seqs_def by metis
    then show ?thesis by (auto simp: sorted_wrt_append filter_empty_conv filter_id_conv)
  qed
  finally show "queue_query eid s (Some (encodeSeqCursor (d_seq r))) = ys" .
qed

definition queue_of_reply :: "reply \<Rightarrow> (delivery_summary list \<times> string option) option" where
  "queue_of_reply r = (case r of R_queue ds c \<Rightarrow> Some (ds, c) | _ \<Rightarrow> None)"

text \<open>
  C24. Paging through an endpoint's queue shows all of it: a client of the owner that follows
  \<^verbatim>\<open>next_cursor\<close> with any positive limit is shown every delivery of the endpoint exactly once, in queue
  order, within at most one page more than there are deliveries.
\<close>

theorem queue_paging_complete:
  assumes "exact_seqs s" "uuid_in E raw = Some eid" "owned_endpoint tid eid s = Some e"
    "0 < parseLimit limit_q 20 100" "length (deliveries_of eid s) < n"
  shows "concat (follow n queue_of_reply (\<lambda>q. fst (get_endpoint_deliveries E tid raw limit_q q s)) Q_undefined) =
    map (\<lambda>d. serializeDeliverySummary d (head_delivery_id s d)) (deliveries_of eid s)"
proof -
  let ?limit = "parseLimit limit_q 20 100" and ?g = "\<lambda>d. serializeDeliverySummary d (head_delivery_id s d)"
  have none: "queue_query eid s None = deliveries_of eid s"
    using assms(1) by (simp add: queue_query_def query_of_def cursor_param_def after_bound_def queue_rows_def
        exact_seqs_def strict_sorted_sort_key deliveries_of_def)
  have "concat (follow n queue_of_reply (\<lambda>q. fst (get_endpoint_deliveries E tid raw limit_q q s)) (query_of None)) =
      map ?g (concat (visit n ?limit (queue_query eid s) (\<lambda>d. encodeSeqCursor (d_seq d)) None))"
  proof (rule follow_visit)
    fix c
    show "(\<exists>e. fst (get_endpoint_deliveries E tid raw limit_q (query_of c) s) = Inl e) \<and> queue_query eid s c = [] \<or>
      (\<exists>st r. fst (get_endpoint_deliveries E tid raw limit_q (query_of c) s) = Inr (st, r) \<and>
         queue_of_reply r = Some (map ?g (fst (paginate ?limit (take (?limit + 1) (queue_query eid s c)))),
           map_option (\<lambda>d. encodeSeqCursor (d_seq d)) (snd (paginate ?limit (take (?limit + 1) (queue_query eid s c))))))"
      using assms(2,3)
      by (simp add: get_endpoint_deliveries_def with_uuid_def queue_query_def queue_of_reply_def Let_def case_prod_beta
          split: sum.split)
  qed
  also have "concat (visit n ?limit (queue_query eid s) (\<lambda>d. encodeSeqCursor (d_seq d)) None) = deliveries_of eid s"
    using queue.visits_all [OF assms(1,4), of eid n] assms(5) by (simp add: none)
  finally show ?thesis by (simp add: query_of_def)
qed


theorem queue_paging_complete_witness:
  "concat (follow 2 queue_of_reply (\<lambda>q. fst (get_endpoint_deliveries demo_env 0 ''1'' (Q_string ''1'') q demo_expanded))
     Q_undefined) = [serializeDeliverySummary (demo_delivery Pending 0) (Some 3)]"
proof -
  have lim: "parseLimit (Q_string ''1'') 20 100 = 1"
  proof -
    have "js_Number ''1'' = Fin 1"
      using js_Number_digits [of "''1''"] by (simp add: js_overflow_def nat_of_digits_def digit_val_def is_digit_def)
    then show ?thesis by (simp add: parseLimit_def number_of_query_def)
  qed
  have "concat (follow 2 queue_of_reply (\<lambda>q. fst (get_endpoint_deliveries demo_env 0 ''1'' (Q_string ''1'') q demo_expanded))
     Q_undefined) = map (\<lambda>d. serializeDeliverySummary d (head_delivery_id demo_expanded d)) (deliveries_of 1 demo_expanded)"
    by (rule queue_paging_complete [where e = demo_endpoint])
       (simp_all add: lim, simp_all add: exact_seqs_def demo_expanded_def demo_db_def demo_delivery_def demo_env_def nat_of_digits_def
          digit_val_def owned_endpoint_def demo_endpoint_def deliveries_of_def)
  also have "\<dots> = [serializeDeliverySummary (demo_delivery Pending 0) (Some 3)]"
    by (simp add: deliveries_of_def demo_expanded_def demo_db_def demo_delivery_def head_delivery_id_def unresolved_def)
  finally show ?thesis .
qed

section \<open>Lists keyed by creation time\<close>

definition created_query :: "api_env \<Rightarrow> ('r \<Rightarrow> ts \<times> uuid) \<Rightarrow> 'r list \<Rightarrow> string option \<Rightarrow> 'r list" where
  "created_query E key rows c =
     (case before_bound E (cursor_param decodeCursor (query_of c)) of
        Inl _ \<Rightarrow> [] | Inr b \<Rightarrow> newest_first key (filter (\<lambda>r. before b (key r)) rows))"

text \<open>Rows with distinct keys whose timestamps a cursor carries exactly.\<close>

locale created_list =
  fixes E :: api_env
    and inv :: "'s \<Rightarrow> bool"
    and key :: "'r \<Rightarrow> ts \<times> uuid"
    and rows :: "'s \<Rightarrow> 'r list"
  assumes reads_back: "inv s \<Longrightarrow> pg_reads_back E (js_of_ts ` fst ` key ` set (rows s))"
    and keys: "inv s \<Longrightarrow> distinct (map key (rows s))"
    and aligned: "inv s \<Longrightarrow> r \<in> set (rows s) \<Longrightarrow> ts_of_js (js_of_ts (fst (key r))) = fst (key r)"
begin

lemma first_page: "created_query E key (rows s) None = newest_first key (rows s)"
  by (simp add: created_query_def query_of_def cursor_param_def before_bound_def before_def)

lemma next_page:
  assumes "inv s" "r \<in> set (rows s)"
  shows "created_query E key (rows s) (Some (created_cursor E (key r))) =
    newest_first key (filter (\<lambda>q. key q < key r) (rows s))"
  using before_bound_created [OF reads_back [OF assms(1)], of "fst (key r)" "snd (key r)"] aligned [OF assms] assms(2)
  by (simp add: created_query_def query_of_def cursor_param_def before_def)

end

sublocale created_list \<subseteq> keyset_paging inv "\<lambda>s. created_query E key (rows s)" "\<lambda>r. created_cursor E (key r)"
proof
  fix s xs r ys
  assume ok: "inv s" and split: "created_query E key (rows s) None = xs @ r # ys"
  then have newest: "newest_first key (rows s) = xs @ r # ys" by (simp add: first_page)
  then have "r \<in> set (newest_first key (rows s))" by simp
  then have "r \<in> set (rows s)" by (simp add: newest_first_def)
  with next_page [OF ok] newest_first_suffix [OF keys [OF ok] newest]
  show "created_query E key (rows s) (Some (created_cursor E (key r))) = ys" by simp
qed

definition whole_ms :: "ts \<Rightarrow> bool" where
  "whole_ms t \<longleftrightarrow> ts_of_js (js_of_ts t) = t"

definition endpoints_listable :: "api_env \<Rightarrow> db \<Rightarrow> bool" where
  "endpoints_listable E s \<longleftrightarrow> pg_reads_back E (js_of_ts ` ep_created_at ` set (endpoints s)) \<and>
     distinct (map ep_id (endpoints s)) \<and>
     (\<forall>e\<in>set (endpoints s). whole_ms (ep_created_at e))"

definition events_listable :: "api_env \<Rightarrow> db \<Rightarrow> bool" where
  "events_listable E s \<longleftrightarrow> pg_reads_back E (js_of_ts ` ev_created_at ` set (events s)) \<and>
     distinct (map ev_id (events s)) \<and>
     (\<forall>v\<in>set (events s). whole_ms (ev_created_at v))"

definition endpoints_of :: "uuid \<Rightarrow> db \<Rightarrow> endpoint list" where
  "endpoints_of tid s = filter (\<lambda>e. ep_tenant_id e = tid) (endpoints s)"

definition events_found :: "uuid \<Rightarrow> event_filter \<Rightarrow> db \<Rightarrow> event list" where
  "events_found tid f s = filter (event_matches tid f s) (events s)"

lemma distinct_keys: "distinct (map f xs) \<Longrightarrow> distinct (map (\<lambda>x. (g x, f x)) (filter P xs))"
  by (induction xs) auto

interpretation endpoint_list: created_list E "endpoints_listable E" endpoint_key "endpoints_of tid" for E tid
  by unfold_locales
    (auto simp: endpoints_listable_def endpoints_of_def endpoint_key_def [abs_def] whole_ms_def distinct_keys pg_reads_back_def)

interpretation event_list: created_list E "events_listable E" event_key "events_found tid f" for E tid f
  by unfold_locales (auto simp: events_listable_def events_found_def event_key_def [abs_def] whole_ms_def distinct_keys
      pg_reads_back_def)

lemma endpoint_rows_query:
  "before_bound E (cursor_param decodeCursor (query_of c)) = Inr b \<Longrightarrow>
     endpoint_rows tid b s = created_query E endpoint_key (endpoints_of tid s) c"
  by (simp add: endpoint_rows_def created_query_def endpoints_of_def conj_commute)

lemma event_rows_query:
  "before_bound E (cursor_param decodeCursor (query_of c)) = Inr b \<Longrightarrow>
     event_rows tid f b s = created_query E event_key (events_found tid f s) c"
  by (simp add: event_rows_def created_query_def events_found_def conj_commute)

definition endpoints_of_reply :: "reply \<Rightarrow> (health_view list \<times> string option) option" where
  "endpoints_of_reply r = (case r of R_endpoints es c \<Rightarrow> Some (es, c) | _ \<Rightarrow> None)"

definition events_of_reply :: "reply \<Rightarrow> (event_view list \<times> string option) option" where
  "events_of_reply r = (case r of R_events vs c \<Rightarrow> Some (vs, c) | _ \<Rightarrow> None)"

text \<open>
  Paging through a tenant's endpoints shows each of them exactly once, newest first, whatever the
  page size, provided their creation times are whole milliseconds.
\<close>

theorem endpoint_paging_complete:
  assumes "endpoints_listable E s" "0 < parseLimit limit_q 20 100" "length (endpoints_of tid s) < n"
  shows "concat (follow n endpoints_of_reply (\<lambda>q. fst (get_endpoints E tid limit_q q s)) Q_undefined) =
    map (serializeEndpointWithHealth s) (newest_first endpoint_key (endpoints_of tid s))"
proof -
  let ?limit = "parseLimit limit_q 20 100" and ?query = "created_query E endpoint_key (endpoints_of tid s)"
    and ?cursor = "\<lambda>e. created_cursor E (endpoint_key e)"
  have "concat (follow n endpoints_of_reply (\<lambda>q. fst (get_endpoints E tid limit_q q s)) (query_of None)) =
      map (serializeEndpointWithHealth s) (concat (visit n ?limit ?query ?cursor None))"
  proof (rule follow_visit)
    fix c
    show "(\<exists>e. fst (get_endpoints E tid limit_q (query_of c) s) = Inl e) \<and> ?query c = [] \<or>
      (\<exists>st r. fst (get_endpoints E tid limit_q (query_of c) s) = Inr (st, r) \<and>
         endpoints_of_reply r = Some (map (serializeEndpointWithHealth s) (fst (paginate ?limit (take (?limit + 1) (?query c)))),
           map_option ?cursor (snd (paginate ?limit (take (?limit + 1) (?query c))))))"
      by (cases "before_bound E (cursor_param decodeCursor (query_of c))")
         (simp_all add: get_endpoints_def endpoint_rows_query endpoints_of_reply_def Let_def case_prod_beta,
          simp add: created_query_def)
  qed
  also have "concat (visit n ?limit ?query ?cursor None) = newest_first endpoint_key (endpoints_of tid s)"
    using endpoint_list.visits_all [OF assms(1,2), of tid n] assms(3)
    by (simp add: endpoint_list.first_page newest_first_def)
  finally show ?thesis by (simp add: query_of_def)
qed

definition demo_listed :: db where
  "demo_listed = demo_db [demo_tenant] [demo_endpoint\<lparr>ep_created_at := 0\<rparr>]
     [(demo_event Expanded)\<lparr>ev_created_at := 0\<rparr>] [] [] 2 1 3"

lemma demo_reads_back: "pg_reads_back demo_env {0}"
  by (simp add: pg_reads_back_def demo_env_def ts_of_js_def)

lemma parseLimit_default: "parseLimit Q_undefined 20 100 = 20"
  by (simp add: parseLimit_def number_of_query_def)

theorem endpoint_paging_complete_witness:
  "concat (follow 2 endpoints_of_reply (\<lambda>q. fst (get_endpoints demo_env 0 Q_undefined q demo_listed)) Q_undefined) =
     map (serializeEndpointWithHealth demo_listed) [demo_endpoint\<lparr>ep_created_at := 0\<rparr>]"
  using endpoint_paging_complete [of demo_env demo_listed Q_undefined 0 2] demo_reads_back
  by (simp add: parseLimit_default endpoints_listable_def demo_listed_def demo_db_def whole_ms_def ts_of_js_def
      js_of_ts_def endpoints_of_def newest_first_def demo_endpoint_def)

text \<open>
  Paging through the event search shows the client exactly the tenant's events that match its
  filters, each once and newest first, provided their creation times are whole milliseconds.
\<close>

theorem event_paging_complete:
  assumes "events_listable E s" "event_filter_of E q = Inr f" "0 < parseLimit (eq_limit q) 20 100"
    "length (events_found tid f s) < n"
  shows "concat (follow n events_of_reply (\<lambda>c. fst (get_events E tid (q\<lparr>eq_before := c\<rparr>) s)) Q_undefined) =
    map serializeEvent (newest_first event_key (events_found tid f s))"
proof -
  let ?limit = "parseLimit (eq_limit q) 20 100" and ?query = "created_query E event_key (events_found tid f s)"
    and ?cursor = "\<lambda>v. created_cursor E (event_key v)"
  have filt: "event_filter_of E (q\<lparr>eq_before := c\<rparr>) = Inr f" for c
    using assms(2) by (simp add: event_filter_of_def)
  have "concat (follow n events_of_reply (\<lambda>c. fst (get_events E tid (q\<lparr>eq_before := c\<rparr>) s)) (query_of None)) =
      map serializeEvent (concat (visit n ?limit ?query ?cursor None))"
  proof (rule follow_visit)
    fix c
    show "(\<exists>e. fst (get_events E tid (q\<lparr>eq_before := query_of c\<rparr>) s) = Inl e) \<and> ?query c = [] \<or>
      (\<exists>st r. fst (get_events E tid (q\<lparr>eq_before := query_of c\<rparr>) s) = Inr (st, r) \<and>
         events_of_reply r = Some (map serializeEvent (fst (paginate ?limit (take (?limit + 1) (?query c)))),
           map_option ?cursor (snd (paginate ?limit (take (?limit + 1) (?query c))))))"
      by (cases "before_bound E (cursor_param decodeCursor (query_of c))")
         (simp_all add: get_events_def filt event_rows_query events_of_reply_def Let_def case_prod_beta,
          simp add: created_query_def)
  qed
  also have "concat (visit n ?limit ?query ?cursor None) = newest_first event_key (events_found tid f s)"
    using event_list.visits_all [OF assms(1,3), of tid f n] assms(4)
    by (simp add: event_list.first_page newest_first_def)
  finally show ?thesis by (simp add: query_of_def)
qed

definition demo_query :: event_query where
  "demo_query = \<lparr>eq_limit = Q_undefined, eq_before = Q_undefined, eq_id = Q_undefined, eq_type = Q_undefined,
     eq_from = Q_undefined, eq_to = Q_undefined, eq_endpoint_id = Q_undefined\<rparr>"

definition demo_filter :: event_filter where
  "demo_filter = \<lparr>ef_id = None, ef_type = None, ef_from = None, ef_to = None, ef_endpoint = None\<rparr>"

theorem event_paging_complete_witness:
  "concat (follow 2 events_of_reply (\<lambda>c. fst (get_events demo_env 0 (demo_query\<lparr>eq_before := c\<rparr>) demo_listed)) Q_undefined) =
     map serializeEvent [(demo_event Expanded)\<lparr>ev_created_at := 0\<rparr>]"
  using event_paging_complete [of demo_env demo_listed demo_query demo_filter 0 2] demo_reads_back
  by (simp add: parseLimit_default events_listable_def demo_listed_def demo_db_def whole_ms_def ts_of_js_def
      js_of_ts_def events_found_def newest_first_def demo_event_def demo_query_def demo_filter_def event_filter_of_def
      filter_param_def event_matches_def when_some_def)

text \<open>
  The proviso is needed: the cursor carries the creation time of the last row cut to a millisecond,
  so a row created in the same millisecond, but not at its very start, is on no page after it although
  it sorts after it.
\<close>

theorem same_millisecond_skipped:
  assumes "pg_reads_back E {js_of_ts (ep_created_at last_row)}" "js_of_ts (ep_created_at e) = js_of_ts (ep_created_at last_row)"
    "\<not> whole_ms (ep_created_at e)"
  shows "\<exists>b. before_bound E (decodeCursor (created_cursor E (endpoint_key last_row))) = Inr b \<and>
    e \<notin> set (endpoint_rows tid b s)"
proof -
  have "ts_of_js (js_of_ts (ep_created_at last_row)) \<le> ep_created_at e"
    using assms(2) ts_of_js_of_ts_le [of "ep_created_at e"] by simp
  with assms(2,3) have "\<not> endpoint_key e < (ts_of_js (js_of_ts (ep_created_at last_row)), ep_id last_row)"
    by (auto simp: endpoint_key_def whole_ms_def)
  then show ?thesis
    using before_bound_created [OF assms(1), of "ep_created_at last_row" "ep_id last_row"]
    by (simp add: endpoint_key_def [of last_row] endpoint_rows_def newest_first_def before_def)
qed

theorem same_millisecond_skipped_witness:
  "\<exists>b. before_bound demo_env (decodeCursor (created_cursor demo_env (endpoint_key (demo_endpoint\<lparr>ep_created_at := 9\<rparr>)))) = Inr b \<and>
     demo_endpoint\<lparr>ep_id := 7, ep_created_at := 5\<rparr> \<notin> set (endpoint_rows 0 b
       (demo_listed\<lparr>endpoints := [demo_endpoint\<lparr>ep_id := 7, ep_created_at := 5\<rparr>, demo_endpoint\<lparr>ep_created_at := 9\<rparr>]\<rparr>))"
  by (rule same_millisecond_skipped) (use demo_reads_back in \<open>simp_all add: js_of_ts_def whole_ms_def ts_of_js_def\<close>)

end
