(* ===== verification/Scheduling.thy ===== *)
theory Scheduling
  imports Guarantees Worker
begin

text \<open>
  How the worker chooses and what it sends.  The candidate query orders endpoints by how long ago their
  tenant was served; a delivery reported as blocked waits for the head the next claim takes; retries
  are spaced by a bounded random delay; a request is signed so that a receiver with any active secret
  can verify it.  The last section shows that a whole pass of the worker loop is a run of the step
  relation of \<open>System\<close>, so that the invariants proved there hold of the code as it is composed.
\<close>

section \<open>Candidates\<close>

definition eligible :: "ts \<Rightarrow> ts \<Rightarrow> db \<Rightarrow> endpoint \<times> tenant \<Rightarrow> bool" where
  "eligible cutoff now s p \<longleftrightarrow> fst p \<in> set (endpoints s) \<and> snd p \<in> set (tenants s) \<and>
     tn_id (snd p) = ep_tenant_id (fst p) \<and> claimable cutoff (fst p) \<and> ready_of now (ep_id (fst p)) s \<noteq> []"

lemma set_candidate_pairs: "p \<in> set (candidate_pairs cutoff now s) \<longleftrightarrow> eligible cutoff now s p"
  by (cases p) (auto simp: candidate_pairs_def eligible_def)

lemma take_sorted_least:
  assumes "sorted (map f xs)" "y \<in> set xs" "y \<notin> set (take n xs)"
  shows "length (take n xs) = n \<and> (\<forall>x\<in>set (take n xs). f x \<le> f y)"
proof -
  have xs: "xs = take n xs @ drop n xs" by simp
  with assms(2,3) have "y \<in> set (drop n xs)" by (metis UnE set_append)
  moreover from this have "n < length xs" by (metis drop_all empty_iff list.set(1) not_le)
  moreover have "sorted (map f (take n xs @ drop n xs))" using assms(1) by simp
  ultimately show ?thesis unfolding map_append sorted_append by auto
qed

text \<open>
  The claim query is fair: it offers at most twenty candidates, all of them active, free or past
  their lease, with a delivery that is due or stranded, ordered by when their tenant was last served
  (never served first) and then by their oldest such delivery; an eligible endpoint is left out only if
  twenty candidates come before it in that order.
\<close>

theorem claim_candidates_fair:
  "\<exists>ps. claim_candidates cutoff now s = map candidate_of ps \<and> length ps \<le> 20 \<and>
     sorted (map (candidate_order now s) ps) \<and> (\<forall>p\<in>set ps. eligible cutoff now s p) \<and>
     (\<forall>p. eligible cutoff now s p \<longrightarrow> p \<in> set ps \<or>
        length ps = 20 \<and> (\<forall>q\<in>set ps. candidate_order now s q \<le> candidate_order now s p))"
proof -
  let ?xs = "sort_key (candidate_order now s) (candidate_pairs cutoff now s)"
  have srt: "sorted (map (candidate_order now s) ?xs)" by (rule sorted_sort_key)
  have els: "p \<in> set ?xs \<longleftrightarrow> eligible cutoff now s p" for p by (simp add: set_candidate_pairs)
  show ?thesis
  proof (intro exI [of _ "take 20 ?xs"] conjI ballI allI impI)
    show "claim_candidates cutoff now s = map candidate_of (take 20 ?xs)" by (simp add: claim_candidates_def)
    show "sorted (map (candidate_order now s) (take 20 ?xs))" using srt by (simp add: take_map [symmetric] sorted_wrt_take)
    show "eligible cutoff now s p" if "p \<in> set (take 20 ?xs)" for p using els in_set_takeD [OF that] by simp
    show "p \<in> set (take 20 ?xs) \<or> length (take 20 ?xs) = 20 \<and>
        (\<forall>q\<in>set (take 20 ?xs). candidate_order now s q \<le> candidate_order now s p)"
      if "eligible cutoff now s p" for p
      using take_sorted_least [OF srt] els that by blast
  qed simp
qed

theorem claim_candidates_fair_witness:
  "\<exists>ps. claim_candidates (- 1000) 5000 demo_expanded = map candidate_of ps \<and> (demo_endpoint, demo_tenant) \<in> set ps"
proof -
  have el: "eligible (- 1000) 5000 demo_expanded (demo_endpoint, demo_tenant)"
    by (simp add: eligible_def demo_expanded_def demo_db_def demo_endpoint_def demo_tenant_def claimable_def
        lease_free_def ready_of_def ready_def demo_delivery_def)
  obtain ps where ps: "claim_candidates (- 1000) 5000 demo_expanded = map candidate_of ps"
    "\<forall>p\<in>set ps. eligible (- 1000) 5000 demo_expanded p"
    "(demo_endpoint, demo_tenant) \<in> set ps \<or> length ps = 20"
    using claim_candidates_fair [of "- 1000" 5000 demo_expanded] el by blast
  have "length ps = length (claim_candidates (- 1000) 5000 demo_expanded)" by (simp add: ps(1))
  also have "\<dots> \<le> 1"
    by (simp add: claim_candidates_def candidate_pairs_def demo_expanded_def demo_db_def)
  finally show ?thesis using ps by auto
qed

section \<open>Who is served\<close>

lemma tenants_reclaim: "reclaim cand s = Some t \<Longrightarrow> tenants t = tenants s"
  by (auto simp: reclaim_def stmt_requeue_def elim!: stmt_expire_orphans_Some split: if_splits)

text \<open>
  Every claim that wins the lease moves the tenant to the back of the queue, and no other: the
  tenant's last service time becomes the time of the claim, whether the head was then sent, was still
  waiting for its retry, or could not be prepared.
\<close>

theorem claim_charges_tenant:
  assumes "tryClaimEndpoint dec clk cand cutoff s = (r, t)"
  shows "(t = s \<and> r = Inr None) \<or>
    tenants t = update_where (\<lambda>x. tn_id x = cand_tenant_id cand)
      (\<lambda>x. x\<lparr>tn_last_served_at := Some (at_serve clk)\<rparr>) (tenants s)"
proof -
  have serve: "tenants (stmt_serve (at_serve clk) (cand_tenant_id cand) s1) =
      update_where (\<lambda>x. tn_id x = cand_tenant_id cand) (\<lambda>x. x\<lparr>tn_last_served_at := Some (at_serve clk)\<rparr>) (tenants s)"
    if "stmt_claim (at_claim clk) cutoff (cand_id cand) s = (Some l, s1)" for l s1
    using stmt_claim_SomeD(2) [OF that] by (simp add: stmt_serve_def)
  have att: "tenants (record_attempt n d s1) = tenants s1" for n d s1
    by (simp add: record_attempt_def stmt_in_flight_def stmt_insert_attempt_def gen_random_uuid_def Let_def)
  from assms show ?thesis
    by (cases rule: tryClaimEndpoint_cases) (auto simp: serve att stmt_release_def dest!: tenants_reclaim)
qed

theorem claim_charges_tenant_witness:
  "tenants demo_claimed = update_where (\<lambda>x. tn_id x = 0) (\<lambda>x. x\<lparr>tn_last_served_at := Some 5000\<rparr>) (tenants demo_expanded)"
  using claim_charges_tenant [OF demo_try] by (simp add: demo_cand_def demo_clock_def)

section \<open>Retries\<close>



section \<open>Blocked deliveries\<close>

text \<open>
  C28. A delivery is reported as blocked exactly when it waits behind another: the id given is that of the
  oldest unresolved delivery of its endpoint, and it is given for a pending delivery that is not that
  one, and only then.
\<close>

theorem blocked_on_head:
  assumes "wf_db s" "d \<in> set (deliveries s)"
  shows "computeBlockedOnDeliveryId d (head_delivery_id s d) = Some i \<longleftrightarrow>
    d_state d = Pending \<and> (\<exists>h\<in>set (deliveries s). d_id h = i \<and> h \<noteq> d \<and> d_endpoint_id h = d_endpoint_id d \<and> unresolved h \<and>
      (\<forall>x\<in>set (deliveries s). d_endpoint_id x = d_endpoint_id d \<longrightarrow> unresolved x \<longrightarrow> d_seq h \<le> d_seq x))"
    (is "?blocked \<longleftrightarrow> ?behind")
proof -
  let ?Q = "filter (\<lambda>h. d_endpoint_id h = d_endpoint_id d \<and> unresolved h) (deliveries s)"
  have ids: "distinct (map d_id (deliveries s))" and seqs: "distinct (map d_seq (deliveries s))"
    using assms(1) by (auto simp: wf_db_def keys_ok_def seqs_ok_def intro: sorted_wrt_less_distinct)
  show ?thesis
  proof
    assume ?blocked
    then obtain h where h: "d_state d = Pending" "head_option (sort_key d_seq ?Q) = Some h" "d_id h = i" "h \<noteq> d"
      by (auto simp: computeBlockedOnDeliveryId_def head_delivery_id_def split: if_splits)
    with head_sort_key_in [OF h(2)] head_sort_key_le [OF h(2)] show ?behind by auto
  next
    assume ?behind
    then obtain h where h: "d_state d = Pending" "h \<in> set ?Q" "d_id h = i" "h \<noteq> d" "\<forall>x\<in>set ?Q. d_seq h \<le> d_seq x"
      by auto
    obtain g where g: "head_option (sort_key d_seq ?Q) = Some g"
      using h(2) by (cases "head_option (sort_key d_seq ?Q)") (auto dest: arg_cong [where f = set])
    have "d_seq g = d_seq h" using head_sort_key_in [OF g] head_sort_key_le [OF g h(2)] h(5) by (simp add: order_antisym)
    moreover have "g \<in> set (deliveries s)" "h \<in> set (deliveries s)" using head_sort_key_in [OF g] h(2) by auto
    ultimately have "g = h" using distinct_map_eq [OF seqs] by blast
    moreover have "d_id h \<noteq> d_id d" using h(2,4) assms(2) distinct_map_eq [OF ids] by auto
    ultimately show ?blocked using h(1,3) g by (simp add: computeBlockedOnDeliveryId_def head_delivery_id_def)
  qed
qed

theorem blocked_on_head_witness:
  "computeBlockedOnDeliveryId demo_delivery2 (head_delivery_id demo_queued demo_delivery2) = Some 3"
proof -
  have wf: "wf_db demo_queued" using reachable_parts(1) [OF demo_two_reachable [of demo_cfg]] by (simp add: demo_two_def)
  show ?thesis
    by (subst blocked_on_head [OF wf])
       (auto simp: demo_queued_def demo_db_def demo_delivery_def demo_delivery2_def unresolved_def)
qed

section \<open>Signatures\<close>

lemma active_secret:
  assumes "claim_secrets dec now e = Some (c_signingSecret c, c_secondarySecret c)"
    and "dec (ep_signing_secret e) = Some secret \<or> (\<exists>stored expiry. ep_secondary_secret e = Some stored \<and>
       ep_secondary_secret_expires_at e = Some expiry \<and> now < js_of_ts expiry \<and> dec stored = Some secret \<and> secret \<noteq> [])"
  shows "secret \<in> set (active_secrets c)"
  using assms(2)
proof (elim disjE exE conjE)
  assume "dec (ep_signing_secret e) = Some secret"
  with assms(1) have "c_signingSecret c = secret" by (auto simp: claim_secrets_def split: option.splits if_splits)
  then show ?thesis by (simp add: active_secrets_def split: option.split)
next
  fix stored expiry
  assume sec: "ep_secondary_secret e = Some stored" "ep_secondary_secret_expires_at e = Some expiry" "now < js_of_ts expiry"
    "dec stored = Some secret" "secret \<noteq> []"
  then have "hasActiveSecondary now e" by (simp add: hasActiveSecondary_def)
  with assms(1) sec(1,4) have "c_secondarySecret c = Some secret" by (auto simp: claim_secrets_def split: option.splits)
  with sec(5) show ?thesis by (simp add: active_secrets_def)
qed

text \<open>
  C30. A receiver holding an active secret of the endpoint can verify the request, and reads the published payload: the
  signing secret is always active, the secondary one when it is stored, not empty and expires after the moment of the claim;
  for either, one of the signatures in the header is the HMAC under it of the timestamp header, a dot and
  the body as sent, and the body parses to the payload.
\<close>

theorem receiver_verifies:
  assumes "hex_digests (we_crypto W)" "json_ok (c_payload c)"
    and "claim_secrets dec now e = Some (c_signingSecret c, c_secondarySecret c)"
    and "dec (ep_signing_secret e) = Some secret \<or> (\<exists>stored expiry. ep_secondary_secret e = Some stored \<and>
       ep_secondary_secret_expires_at e = Some expiry \<and> now < js_of_ts expiry \<and> dec stored = Some secret \<and> secret \<noteq> [])"
  shows "(\<exists>stamp sig. map_of (delivery_headers W c t (stringify (c_payload c))) ''webhook-timestamp'' = Some stamp \<and>
      map_of (delivery_headers W c t (stringify (c_payload c))) ''webhook-signature'' = Some sig \<and>
      hmac_sha256_hex (we_crypto W) secret (stamp @ ''.'' @ stringify (c_payload c)) \<in> set (js_split (CHR '','') sig)) \<and>
    json_parse (stringify (c_payload c)) = Some (c_payload c)"
  using assms(2) active_secret [OF assms(3,4)] signPayload_split [OF assms(1) active_secrets_not_Nil] json_parse_print
  by (auto simp: delivery_headers_def signed_string_def)

definition demo_worker :: worker_env where
  "demo_worker = \<lparr>we_vars = demo_vars, we_crypto = toy_crypto, we_url = (\<lambda>_. Some demo_url),
     we_resolver = (\<lambda>_. Some [''2001:db8::1'']), we_network = (\<lambda>_ _. [(40, Response_headers (Some 200)), (50, Response_end)]),
     we_utf8 = id, we_uuid_text = show_nat\<rparr>"

text \<open>The previous secret of an endpoint whose secret was rotated.\<close>

definition demo_rotated :: endpoint where
  "demo_rotated = demo_endpoint\<lparr>ep_secondary_secret := Some (ep_signing_secret demo_endpoint), ep_secondary_secret_expires_at := Some 90000000\<rparr>"

theorem receiver_verifies_witness:
  "\<exists>stamp sig. map_of (delivery_headers demo_worker (demo_claim\<lparr>c_secondarySecret := Some (c_signingSecret demo_claim)\<rparr>) 5
       (stringify (c_payload demo_claim))) ''webhook-signature'' = Some sig \<and>
     hmac_sha256_hex toy_crypto (c_signingSecret demo_claim) (stamp @ ''.'' @ stringify (c_payload demo_claim)) \<in> set (js_split (CHR '','') sig)"
proof -
  have dec: "demo_dec (ep_signing_secret demo_endpoint) = Some (c_signingSecret demo_claim)"
    using demo_decrypt by (simp add: demo_claim_def demo_endpoint_def)
  have "c_signingSecret demo_claim \<noteq> []" by (simp add: demo_claim_def generateSecret_def)
  with dec show ?thesis
    using receiver_verifies [of demo_worker "demo_claim\<lparr>c_secondarySecret := Some (c_signingSecret demo_claim)\<rparr>" demo_dec 80000
        demo_rotated "c_signingSecret demo_claim" 5] toy_hex_digests
    by (auto simp: demo_worker_def demo_claim_def scan_number_def num_sign_def num_fraction_def claim_secrets_def hasActiveSecondary_def
        demo_rotated_def js_of_ts_def num_exponent_def is_digit_def split: option.split)
qed

lemma head_update_where_hit: "head_option (update_where P f (filter P xs)) = map_option f (head_option (filter P xs))"
  by (induction xs) auto

text \<open>
  C29. Rotation overlaps: after a rotation a claim signs with the new secret alone once the answered
  expiry has come, and with the new and the previous secret, in this order, before it.
\<close>

theorem rotation_overlap:
  assumes "gcm_correct (crypt E)" "keyBuffer (env_vars E) = Inr key" "overlapHours (env_vars E) = Inr hours"
    "expires = js_Date (of_int date_now + hours * 60 * 60 * 1000)" "\<bar>expires\<bar> \<le> js_max_date" "length iv = 12"
    "uuid_in E raw = Some eid" "owned_endpoint tid eid s = Some e"
    "decryptSecret (crypt E) key (ep_signing_secret e) = Some old"
  shows "\<exists>t e'. rotate_secret E date_now rnd iv tid raw s = (Inr (200, R_rotated (generateSecret rnd ''whsec'') expires), t) \<and>
    owned_endpoint tid eid t = Some e' \<and>
    claim_secrets (decryptSecret (crypt E) key) now e' =
      Some (generateSecret rnd ''whsec'', if now < expires then Some old else None)"
proof -
  let ?new = "generateSecret rnd ''whsec''" and ?own = "\<lambda>e. ep_id e = eid \<and> ep_tenant_id e = tid"
  let ?f = "rotate_row (ts_of_js expires) (encryptSecret (crypt E) key iv ?new)"
  let ?t = "s\<lparr>endpoints := update_where ?own ?f (endpoints s)\<rparr>"
  have fid: "?own (?f x) = ?own x" for x by (simp add: rotate_row_def)
  have "owned_endpoint tid eid ?t = map_option ?f (owned_endpoint tid eid s)"
    unfolding owned_endpoint_def by (simp add: filter_update_where fid head_update_where_hit)
  then have e': "owned_endpoint tid eid ?t = Some (?f e)" by (simp add: assms(8))
  have "claim_secrets (decryptSecret (crypt E) key) now (?f e) = Some (?new, if now < expires then Some old else None)"
    using decrypt_encrypt [OF assms(1,6)] assms(9)
    by (simp add: claim_secrets_def hasActiveSecondary_def rotate_row_def)
  moreover have "rotate_secret E date_now rnd iv tid raw s = (Inr (200, R_rotated ?new expires), ?t)"
    unfolding rotate_secret_def Let_def assms(2,3) sum.case assms(4) [symmetric]
    using e' assms(5) by (simp add: with_uuid_def assms(7))
  ultimately show ?thesis using e' by blast
qed

theorem rotation_overlap_witness:
  "\<exists>t e'. rotate_secret demo_env 10 demo_bytes (replicate 12 (CHR ''i'')) 0 ''1'' demo_expanded =
      (Inr (200, R_rotated (generateSecret demo_bytes ''whsec'') 86400010), t) \<and> owned_endpoint 0 1 t = Some e' \<and>
    claim_secrets demo_dec 20 e' = Some (generateSecret demo_bytes ''whsec'', Some (generateSecret demo_bytes ''whsec''))"
proof -
  have "\<exists>t e'. rotate_secret demo_env 10 demo_bytes (replicate 12 (CHR ''i'')) 0 ''1'' demo_expanded =
      (Inr (200, R_rotated (generateSecret demo_bytes ''whsec'') 86400010), t) \<and> owned_endpoint 0 1 t = Some e' \<and>
    claim_secrets (decryptSecret (crypt demo_env) (replicate 32 (CHR ''k''))) 20 e' =
      Some (generateSecret demo_bytes ''whsec'', if 20 < (86400010::int) then Some (generateSecret demo_bytes ''whsec'') else None)"
  proof (rule rotation_overlap [where e = demo_endpoint and hours = 24])
    show "keyBuffer (env_vars demo_env) = Inr (replicate 32 (CHR ''k''))" by (rule demo_keyBuffer)
    show "decryptSecret (crypt demo_env) (replicate 32 (CHR ''k'')) (ep_signing_secret demo_endpoint) =
        Some (generateSecret demo_bytes ''whsec'')"
      using demo_decrypt by (simp add: demo_crypt demo_dec_def demo_endpoint_def)
  qed (simp_all add: demo_crypt toy_gcm_correct overlapHours_def demo_env_def demo_vars_def js_Date_def js_max_date_def
      nat_of_digits_def digit_val_def owned_endpoint_def demo_expanded_def demo_db_def demo_endpoint_def)
  then show ?thesis by (simp add: demo_crypt demo_dec_def)
qed

section \<open>A pass of the worker loop is a run of the system\<close>

text \<open>A claim that came to nothing leaves no endpoint claimed that was not.\<close>

lemma idle_claim_frees:
  assumes "tryClaimEndpoint dec clk cand cutoff s = (Inr None, t)" "e \<in> set (endpoints t)" "ep_busy e"
  shows "\<exists>e'\<in>set (endpoints s). ep_id e' = ep_id e \<and> ep_busy e'"
  using assms(1)
proof (cases rule: tryClaimEndpoint_cases)
  case (idle l s1 s3)
  let ?P = "\<lambda>e. ep_id e = cand_id cand \<and> claimable cutoff e"
  have ends: "endpoints s3 = update_where ?P (take_lease (at_claim clk) l) (endpoints s)"
    using stmt_claim_SomeD(2) [OF idle(1)] idle(2)
    by (auto simp: reclaim_def stmt_requeue_def stmt_serve_def elim!: stmt_expire_orphans_Some split: if_splits)
  from assms(2) have "e \<in> set (update_where (\<lambda>e. ep_id e = cand_id cand \<and> ep_lease_id e = Some l) free_lease (endpoints s3))"
    by (simp add: idle(5) stmt_release_def)
  then show ?thesis
  proof (cases rule: update_where_inE)
    case miss
    from miss(1) [unfolded ends] show ?thesis
      by (cases rule: update_where_inE) (use miss(2) assms(3) in auto)
  qed (use assms(3) in simp)
qed (use assms in auto)

lemma fresh_after_idle:
  "fresh_candidate c s \<Longrightarrow> tryClaimEndpoint dec clk cand cutoff s = (Inr None, t) \<Longrightarrow> fresh_candidate c t"
  unfolding fresh_candidate_def by (metis idle_claim_frees)

lemma fresh_selected:
  assumes "wf_db s" "c \<in> set (claim_candidates cutoff now s)"
  shows "fresh_candidate c s"
proof -
  from assms(2) obtain p where p: "c = candidate_of p" "p \<in> set (sort_key (candidate_order now s) (candidate_pairs cutoff now s))"
    unfolding claim_candidates_def by (auto dest: in_set_takeD)
  then have "fst p \<in> set (endpoints s)" by (simp add: set_candidate_pairs eligible_def)
  then show ?thesis
    using assms(1) distinct_map_eq [of ep_id "endpoints s"]
    by (auto simp: fresh_candidate_def p(1) candidate_of_def wf_db_def keys_ok_def)
qed

lemma claim_loop_run:
  "\<forall>c\<in>set cands. fresh_candidate c s \<Longrightarrow> claim_loop dec clks cutoff cands s = (r, t) \<Longrightarrow>
     sys_run cfg \<lparr>s_db = s, s_hands = hs\<rparr> \<lparr>s_db = t, s_hands = hands_after r hs\<rparr>"
proof (induction cands arbitrary: s)
  case Nil
  then have "r = Inr None" "t = s" by simp_all
  then show ?case by (simp add: sys_run_def hands_after_def)
next
  case (Cons c cs)
  obtain x u where tr: "tryClaimEndpoint dec (clks c) c cutoff s = (x, u)" by fastforce
  have one: "sys_step cfg \<lparr>s_db = s, s_hands = hs\<rparr> \<lparr>s_db = u, s_hands = hands_after x hs\<rparr>"
    using step_claim [of dec "clks c" c cutoff "\<lparr>s_db = s, s_hands = hs\<rparr>" x u cfg] tr Cons.prems(1) by simp
  show ?case
  proof (cases "x = Inr None")
    case True
    with tr Cons.prems have "sys_run cfg \<lparr>s_db = u, s_hands = hs\<rparr> \<lparr>s_db = t, s_hands = hands_after r hs\<rparr>"
      by (intro Cons.IH) (auto intro: fresh_after_idle)
    with one True show ?thesis by (simp add: sys_run_def hands_after_def converse_rtranclp_into_rtranclp)
  next
    case False
    with tr Cons.prems(2) have "r = x" "t = u" by (auto split: sum.splits option.splits)
    with one show ?thesis by (simp add: sys_run_def)
  qed
qed

lemma claimDelivery_run:
  assumes "wf_db s" "claimDelivery dec date_now now clks ms s = (r, t)"
  shows "sys_run cfg \<lparr>s_db = s, s_hands = hs\<rparr> \<lparr>s_db = t, s_hands = hands_after r hs\<rparr>"
  by (rule claim_loop_run) (use assms fresh_selected in \<open>auto simp: claimDelivery_def Let_def\<close>)


text \<open>\<open>statuses_known\<close>: Node gives every response it reports a status code.\<close>

definition statuses_known :: "worker_env \<Rightarrow> bool" where
  "statuses_known W \<longleftrightarrow> (\<forall>opts body. \<forall>ev\<in>set (we_network W opts body). snd ev \<noteq> Response_headers None)"

lemma known_status_run:
  "\<forall>ev\<in>set evs. snd ev \<noteq> Response_headers None \<Longrightarrow> n_response s \<noteq> Some None \<Longrightarrow>
     n_response (net_run utf8 m evs s) \<noteq> Some None"
proof (induction evs arbitrary: s)
  case (Cons ev evs)
  have fin: "n_response (finish r x) = n_response x" for r x by (simp add: finish_def)
  have dat: "n_response (on_data utf8 m d st chunk x) = n_response x" for d st chunk x
    by (simp add: on_data_def Let_def fin)
  have "n_response (net_step utf8 m ev s) \<noteq> Some None"
    using Cons.prems by (cases ev) (auto simp: net_step_def fin dat split: net_event.split option.split)
  with Cons show ?case by (simp add: net_run_def)
qed (simp add: net_run_def)

lemma sent_closed:
  assumes "statuses_known W" "sendOutboundRequest utf8 m (sent_events W y opts body) = Some r"
  shows "outcome_closed (outcome_of_result r)"
proof -
  let ?s = "net_run utf8 m (sent_events W y opts body) net_start"
  have "net_inv utf8 m ?s" by (rule net_inv_run [OF net_inv_start])
  then have "result_ok utf8 m ?s r" using assms(2) by (simp add: sendOutboundRequest_def net_inv_def)
  moreover have "n_response ?s \<noteq> Some None"
    by (rule known_status_run) (use assms(1) in \<open>auto simp: sent_events_def statuses_known_def net_start_def\<close>)
  ultimately show ?thesis
    by (auto simp: result_ok_def outcome_closed_def outcome_of_result_def split: if_splits)
qed

lemma attempt_closed:
  assumes "statuses_known W" "attempt_delivery deps W y c url = Inr r"
  shows "outcome_closed r"
proof -
  have "outcome_closed (outcome_of_result (the (sendOutboundRequest utf8 m (sent_events W y opts body))))" for utf8 m opts body
    using sent_result [of utf8 m W y opts body] sent_closed [OF assms(1)] by auto
  with assms(2) show ?thesis
    by (auto simp: attempt_delivery_def Let_def try_bind_Inr split: pin_result.splits)
       (simp add: url_not_allowed_outcome_def outcome_closed_def)
qed

text \<open>\<open>interferes\<close>: what happens during the request is done by the system's own steps.\<close>

definition interferes :: "backoff_config \<Rightarrow> (db \<Rightarrow> db) \<Rightarrow> bool" where
  "interferes cfg f \<longleftrightarrow> (\<forall>u. sys_run cfg u (u\<lparr>s_db := f (s_db u)\<rparr>))"

lemma delivery_cycle_run:
  assumes "wf_db s" "backoff (we_vars W) = Inr cfg" "statuses_known W" "interferes cfg meanwhile"
    "runDeliveryCycle deps W y meanwhile s = (r, t)"
  shows "\<exists>hs'. sys_run cfg \<lparr>s_db = s, s_hands = hs\<rparr> \<lparr>s_db = t, s_hands = hs'\<rparr>"
proof (cases "try_bind (outboundHttp (we_vars W)) (lease_durationMs (we_vars W))")
  case (Inl e)
  with assms(5) show ?thesis by (auto simp: runDeliveryCycle_def sys_run_def)
next
  case (Inr ms)
  obtain x u where c: "claimDelivery (worker_dec W) (cy_date_now y) (cy_now y) (cy_clocks y) ms s = (x, u)" by fastforce
  note run = claimDelivery_run [OF assms(1) c, of cfg hs]
  have mean: "sys_run cfg \<lparr>s_db = u, s_hands = h\<rparr> \<lparr>s_db = meanwhile u, s_hands = h\<rparr>" for h
    using assms(4) by (simp add: interferes_def) (metis sys.select_convs(1) sys.update_convs(1))
  show ?thesis
  proof (cases "\<exists>c url o'. x = Inr (Some c) \<and> we_url W (c_url c) = Some url \<and> attempt_delivery deps W y c url = Inr o'")
    case False
    with assms(5) Inr c have "t = u \<or> t = meanwhile u"
      by (auto simp: runDeliveryCycle_def split: sum.splits option.splits)
    with run run_trans [OF run mean] show ?thesis by blast
  next
    case True
    then obtain k url o' where k: "x = Inr (Some k)" "we_url W (c_url k) = Some url" "attempt_delivery deps W y k url = Inr o'"
      by blast
    obtain z where z: "completeDelivery (cy_done y) (cy_random y) k o' cfg (meanwhile u) = (z, t)"
      using assms(2,5) Inr c k by (auto simp: runDeliveryCycle_def split: prod.splits sum.splits)
    have "sys_step cfg \<lparr>s_db = meanwhile u, s_hands = k # hs\<rparr> \<lparr>s_db = t, s_hands = hs\<rparr>"
      using step_complete [of k "\<lparr>s_db = meanwhile u, s_hands = k # hs\<rparr>" o'] z attempt_closed [OF assms(3) k(3)] by simp
    then have "sys_run cfg \<lparr>s_db = meanwhile u, s_hands = k # hs\<rparr> \<lparr>s_db = t, s_hands = hs\<rparr>" by (simp add: sys_run_def)
    with run_trans [OF run mean] k(1) run_trans show ?thesis by (fastforce simp: hands_after_def)
  qed
qed

text \<open>The three cycles of a pass, with any way to resolve and pin.\<close>

lemma cycles_run:
  assumes "wf_db s" "backoff (we_vars W) = Inr cfg" "statuses_known W" "interferes cfg meanwhile"
    and e: "runExpansionCycle xlocked xnow s = (b1, s1)" and r: "runReplayExpansionCycle rlocked rnow s1 = (b2, s2)"
    and d: "runDeliveryCycle deps W y meanwhile s2 = (q, t)"
  shows "\<exists>hs'. sys_run cfg \<lparr>s_db = s, s_hands = hs\<rparr> \<lparr>s_db = t, s_hands = hs'\<rparr>"
proof -
  let ?u = "\<lparr>s_db = s, s_hands = hs\<rparr>"
  have 1: "sys_run cfg ?u \<lparr>s_db = s1, s_hands = hs\<rparr>"
    using step_expand [of xlocked xnow ?u b1 s1 cfg] e by (simp add: sys_run_def)
  have 2: "sys_run cfg \<lparr>s_db = s1, s_hands = hs\<rparr> \<lparr>s_db = s2, s_hands = hs\<rparr>"
    using step_replay [of rlocked rnow "\<lparr>s_db = s1, s_hands = hs\<rparr>" b2 s2 cfg] r by (simp add: sys_run_def)
  have "wf_db s2" by (rule wf_runReplayExpansionCycle [OF r wf_runExpansionCycle [OF e assms(1)]])
  then show ?thesis using delivery_cycle_run [OF _ assms(2,3,4) d] run_trans [OF run_trans [OF 1 2]] by blast
qed

text \<open>
  C25. The worker refines the step relation: one pass of its loop, from any reachable state and with any
  steps of the other processes while its request is under way, is a run of the system, so it ends in a
  reachable state, in which everything proved of reachable states holds.
\<close>

theorem worker_pass_refines:
  assumes "reachable cfg \<lparr>s_db = s, s_hands = hs\<rparr>" "backoff (we_vars W) = Inr cfg" "statuses_known W"
    "interferes cfg meanwhile" "worker_pass xlocked xnow rlocked rnow W y meanwhile s = (b, t)"
  shows "\<exists>hs'. sys_run cfg \<lparr>s_db = s, s_hands = hs\<rparr> \<lparr>s_db = t, s_hands = hs'\<rparr> \<and>
    reachable cfg \<lparr>s_db = t, s_hands = hs'\<rparr>"
proof -
  obtain b1 s1 where e: "runExpansionCycle xlocked xnow s = (b1, s1)" by fastforce
  obtain b2 s2 where r: "runReplayExpansionCycle rlocked rnow s1 = (b2, s2)" by fastforce
  obtain q s3 where d: "runDeliveryCycle None W y meanwhile s2 = (q, s3)" by fastforce
  have "t = s3" using assms(5) e r d by (auto simp: worker_pass_def try_cycle_def split: sum.splits)
  with cycles_run [OF _ assms(2-4) e r d] reachable_db [OF assms(1)] run_reachable [OF assms(1)] show ?thesis by force
qed

theorem worker_pass_refines_witness:
  "\<forall>y. \<exists>b t hs'. worker_pass (\<lambda>_. True) (\<lambda>_. 4000) (\<lambda>_. True) (\<lambda>_. 4000) demo_worker y id demo_published = (b, t) \<and>
     reachable demo_cfg \<lparr>s_db = t, s_hands = hs'\<rparr>"
proof
  fix y
  obtain b t where w: "worker_pass (\<lambda>_. True) (\<lambda>_. 4000) (\<lambda>_. True) (\<lambda>_. 4000) demo_worker y id demo_published = (b, t)"
    by fastforce
  have "\<exists>hs'. sys_run demo_cfg \<lparr>s_db = demo_published, s_hands = []\<rparr> \<lparr>s_db = t, s_hands = hs'\<rparr> \<and>
      reachable demo_cfg \<lparr>s_db = t, s_hands = hs'\<rparr>"
    by (rule worker_pass_refines [OF demo_waiting_reachable [unfolded demo_waiting_def] _ _ _ w])
       (simp_all add: demo_worker_def demo_vars_def backoff_def demo_cfg_def statuses_known_def interferes_def sys_run_def)
  with w show "\<exists>b t hs'. worker_pass (\<lambda>_. True) (\<lambda>_. 4000) (\<lambda>_. True) (\<lambda>_. 4000) demo_worker y id demo_published = (b, t) \<and>
     reachable demo_cfg \<lparr>s_db = t, s_hands = hs'\<rparr>" by blast
qed

end
