(* ===== verification/Wire.thy ===== *)
theory Wire
  imports App
begin

text \<open>
  The JSON bodies of the API's responses: what \<^verbatim>\<open>res.json\<close> is given for each typed \<open>reply\<close> of the routes.
  \<open>num\<close> prints a non-integral number as \<^verbatim>\<open>JSON.stringify\<close> does; integers are printed by \<open>show_int\<close>.
\<close>

section \<open>Names\<close>

definition endpoint_status_text :: "endpoint_status \<Rightarrow> string" where
  "endpoint_status_text st = (case st of Active \<Rightarrow> ''active'' | Paused \<Rightarrow> ''paused'' | Halted \<Rightarrow> ''halted'')"

definition expansion_status_text :: "expansion_status \<Rightarrow> string" where
  "expansion_status_text st = (case st of Pending_expansion \<Rightarrow> ''pending_expansion'' | Expanded \<Rightarrow> ''expanded'')"

definition delivery_state_text :: "delivery_state \<Rightarrow> string" where
  "delivery_state_text st = (case st of Pending \<Rightarrow> ''pending'' | In_flight \<Rightarrow> ''in_flight''
     | Succeeded \<Rightarrow> ''succeeded'' | Failed \<Rightarrow> ''failed'')"

definition network_error_text :: "network_error_class \<Rightarrow> string" where
  "network_error_text c = (case c of Connect_timeout \<Rightarrow> ''connect_timeout'' | Total_timeout \<Rightarrow> ''total_timeout''
     | Connection_refused \<Rightarrow> ''connection_refused'' | Dns_error \<Rightarrow> ''dns_error''
     | Connection_reset \<Rightarrow> ''connection_reset'' | Connection_error \<Rightarrow> ''connection_error'')"

definition error_class_text :: "attempt_error_class \<Rightarrow> string" where
  "error_class_text c = (case c of Network n \<Rightarrow> network_error_text n | Url_not_allowed \<Rightarrow> ''url_not_allowed''
     | Worker_lease_expired \<Rightarrow> ''worker_lease_expired'')"

section \<open>Values\<close>

definition j_nat :: "nat \<Rightarrow> json" where
  "j_nat n = JNum (show_nat n)"

definition j_int :: "int \<Rightarrow> json" where
  "j_int n = JNum (show_int n)"

definition j_time :: "js_ms \<Rightarrow> json" where
  "j_time t = JStr (toISOString t)"

definition j_opt :: "('a \<Rightarrow> json) \<Rightarrow> 'a option \<Rightarrow> json" where
  "j_opt f x = (case x of None \<Rightarrow> JNull | Some a \<Rightarrow> f a)"

definition j_uuid :: "api_env \<Rightarrow> uuid \<Rightarrow> json" where
  "j_uuid E i = JStr (uuid_out E i)"

section \<open>Objects\<close>

definition endpoint_fields :: "api_env \<Rightarrow> 'a endpoint_view_scheme \<Rightarrow> (string \<times> json) list" where
  "endpoint_fields E v =
     [(''id'', j_uuid E (v_id v)), (''url'', JStr (v_url v)), (''event_types'', JArr (map JStr (v_event_types v))),
      (''status'', JStr (endpoint_status_text (v_status v))), (''created_at'', j_time (v_created_at v))]"

definition health_fields :: "api_env \<Rightarrow> (rat \<Rightarrow> string) \<Rightarrow> health_view \<Rightarrow> (string \<times> json) list" where
  "health_fields E num v = endpoint_fields E v @
     [(''queue_depth'', j_nat (v_queue_depth v)), (''oldest_pending_at'', j_opt j_time (v_oldest_pending_at v)),
      (''recent_success_rate'', j_opt (\<lambda>q. JNum (num q)) (v_recent_success_rate v))]"

definition summary_fields :: "api_env \<Rightarrow> delivery_summary \<Rightarrow> (string \<times> json) list" where
  "summary_fields E d =
     [(''id'', j_uuid E (s_id d)), (''event_id'', j_uuid E (s_event_id d)),
      (''state'', JStr (delivery_state_text (s_state d))), (''attempt_count'', j_nat (s_attempt_count d)),
      (''next_attempt_at'', j_time (s_next_attempt_at d)),
      (''blocked_on_delivery_id'', j_opt (j_uuid E) (s_blocked_on_delivery_id d))]"

definition attempt_json :: "attempt_view \<Rightarrow> json" where
  "attempt_json a = JObj
     [(''attempt_number'', j_nat (t_attempt_number a)), (''sent_at'', j_opt j_time (t_sent_at a)),
      (''response_status'', j_opt j_int (t_response_status a)),
      (''response_body_truncated'', j_opt JStr (t_response_body_truncated a)),
      (''duration_ms'', j_opt j_int (t_duration_ms a)),
      (''error_class'', j_opt (\<lambda>c. JStr (error_class_text c)) (t_error_class a))]"

definition response_json :: "response_view \<Rightarrow> json" where
  "response_json r = JObj
     [(''response_status'', j_opt j_int (l_response_status r)),
      (''response_body_truncated'', j_opt JStr (l_response_body_truncated r)),
      (''duration_ms'', j_opt j_int (l_duration_ms r)),
      (''error_class'', j_opt (\<lambda>c. JStr (error_class_text c)) (l_error_class r))]"

definition event_fields :: "api_env \<Rightarrow> event_view \<Rightarrow> (string \<times> json) list" where
  "event_fields E v =
     [(''id'', j_uuid E (w_id v)), (''type'', JStr (w_type v)), (''payload'', w_payload v),
      (''status'', JStr (expansion_status_text (w_status v))), (''created_at'', j_time (w_created_at v))]"

definition fanout_json :: "api_env \<Rightarrow> fanout_view \<Rightarrow> json" where
  "fanout_json E f = JObj
     [(''id'', j_uuid E (f_id f)), (''endpoint_id'', j_uuid E (f_endpoint_id f)),
      (''state'', JStr (delivery_state_text (f_state f))), (''attempt_count'', j_nat (f_attempt_count f)),
      (''next_attempt_at'', j_time (f_next_attempt_at f))]"

definition page_json :: "string \<Rightarrow> json list \<Rightarrow> string option \<Rightarrow> json" where
  "page_json name rows c = JObj [(name, JArr rows), (''next_cursor'', j_opt JStr c)]"

text \<open>The body of a response.\<close>

definition reply_json :: "api_env \<Rightarrow> (rat \<Rightarrow> string) \<Rightarrow> reply \<Rightarrow> json" where
  "reply_json E num r =
     (case r of
        R_error c m \<Rightarrow> JObj [(''error'', JObj [(''code'', JStr c), (''message'', JStr m)])]
      | R_ok \<Rightarrow> JObj [(''ok'', JBool True)]
      | R_endpoint_created v secret \<Rightarrow> JObj (endpoint_fields E v @ [(''signing_secret'', JStr secret)])
      | R_endpoints vs c \<Rightarrow> page_json ''endpoints'' (map (\<lambda>v. JObj (health_fields E num v)) vs) c
      | R_endpoint_health v \<Rightarrow> JObj (health_fields E num v)
      | R_endpoint v \<Rightarrow> JObj (endpoint_fields E v)
      | R_resumed v n ids \<Rightarrow> JObj (endpoint_fields E v @
          [(''pending_delivery_count'', j_nat n), (''skipped_failed_delivery_ids'', JArr (map (j_uuid E) ids))])
      | R_rotated secret t \<Rightarrow> JObj [(''signing_secret'', JStr secret), (''overlap_expires_at'', j_time t)]
      | R_queue ds c \<Rightarrow> page_json ''deliveries'' (map (\<lambda>d. JObj (summary_fields E d)) ds) c
      | R_accepted i st \<Rightarrow> JObj [(''id'', j_uuid E i), (''status'', JStr (expansion_status_text st))]
      | R_events vs c \<Rightarrow> page_json ''events'' (map (\<lambda>v. JObj (event_fields E v)) vs) c
      | R_event_detail v ds \<Rightarrow> JObj (event_fields E v @ [(''deliveries'', JArr (map (fanout_json E) ds))])
      | R_delivery_detail d eid l xs \<Rightarrow> JObj (summary_fields E d @
          [(''endpoint_id'', j_uuid E eid), (''last_response'', j_opt response_json l),
           (''attempts'', JArr (map attempt_json xs))]))"

end
