(* ===== verification/Console_Types.thy ===== *)
theory Console_Types
  imports Wire
begin

text \<open>
  \<^verbatim>\<open>frontend/src/api/types.ts\<close>: the interfaces the console declares for the API's bodies, as predicates
  on JSON values.  A property an interface requires must be there with its type; others may be.
\<close>

section \<open>TypeScript's structural types\<close>

definition t_string :: "json \<Rightarrow> bool" where
  "t_string j \<longleftrightarrow> (case j of JStr _ \<Rightarrow> True | _ \<Rightarrow> False)"

definition t_number :: "json \<Rightarrow> bool" where
  "t_number j \<longleftrightarrow> (case j of JNum _ \<Rightarrow> True | _ \<Rightarrow> False)"

definition t_unknown :: "json \<Rightarrow> bool" where
  "t_unknown j \<longleftrightarrow> True"

definition t_literal :: "string list \<Rightarrow> json \<Rightarrow> bool" where
  "t_literal ws j \<longleftrightarrow> (case j of JStr s \<Rightarrow> s \<in> set ws | _ \<Rightarrow> False)"

definition t_null_or :: "(json \<Rightarrow> bool) \<Rightarrow> json \<Rightarrow> bool" where
  "t_null_or p j \<longleftrightarrow> j = JNull \<or> p j"

definition t_array :: "(json \<Rightarrow> bool) \<Rightarrow> json \<Rightarrow> bool" where
  "t_array p j \<longleftrightarrow> (case j of JArr js \<Rightarrow> list_all p js | _ \<Rightarrow> False)"

definition t_field :: "string \<Rightarrow> (json \<Rightarrow> bool) \<Rightarrow> json \<Rightarrow> bool" where
  "t_field k p j \<longleftrightarrow> (case get_prop k j of None \<Rightarrow> False | Some v \<Rightarrow> p v)"

definition t_object :: "(string \<times> (json \<Rightarrow> bool)) list \<Rightarrow> json \<Rightarrow> bool" where
  "t_object fs j \<longleftrightarrow> list_all (\<lambda>f. t_field (fst f) (snd f) j) fs"

section \<open>The interfaces\<close>

definition t_Endpoint :: "json \<Rightarrow> bool" where
  "t_Endpoint = t_object [(''id'', t_string), (''url'', t_string), (''event_types'', t_array t_string),
     (''status'', t_literal [''active'', ''paused'', ''halted'']), (''created_at'', t_string)]"

definition t_EndpointHealth :: "json \<Rightarrow> bool" where
  "t_EndpointHealth = t_object [(''queue_depth'', t_number), (''oldest_pending_at'', t_null_or t_string),
     (''recent_success_rate'', t_null_or t_number)]"

definition t_EndpointWithHealth :: "json \<Rightarrow> bool" where
  "t_EndpointWithHealth j \<longleftrightarrow> t_Endpoint j \<and> t_EndpointHealth j"

definition t_RegisterEndpointResponse :: "json \<Rightarrow> bool" where
  "t_RegisterEndpointResponse j \<longleftrightarrow> t_Endpoint j \<and> t_object [(''signing_secret'', t_string)] j"

definition t_ResumeEndpointResponse :: "json \<Rightarrow> bool" where
  "t_ResumeEndpointResponse j \<longleftrightarrow> t_Endpoint j \<and>
     t_object [(''pending_delivery_count'', t_number), (''skipped_failed_delivery_ids'', t_array t_string)] j"

definition t_RotateSecretResponse :: "json \<Rightarrow> bool" where
  "t_RotateSecretResponse = t_object [(''signing_secret'', t_string), (''overlap_expires_at'', t_string)]"

definition t_EndpointListResponse :: "json \<Rightarrow> bool" where
  "t_EndpointListResponse = t_object [(''endpoints'', t_array t_EndpointWithHealth), (''next_cursor'', t_null_or t_string)]"

definition t_Event :: "json \<Rightarrow> bool" where
  "t_Event = t_object [(''id'', t_string), (''type'', t_string), (''payload'', t_unknown),
     (''status'', t_literal [''pending_expansion'', ''expanded'']), (''created_at'', t_string)]"

definition t_DeliveryState :: "json \<Rightarrow> bool" where
  "t_DeliveryState = t_literal [''pending'', ''in_flight'', ''succeeded'', ''failed'']"

definition t_DeliveryFanoutSummary :: "json \<Rightarrow> bool" where
  "t_DeliveryFanoutSummary = t_object [(''id'', t_string), (''endpoint_id'', t_string), (''state'', t_DeliveryState),
     (''attempt_count'', t_number), (''next_attempt_at'', t_string)]"

definition t_EventDetail :: "json \<Rightarrow> bool" where
  "t_EventDetail j \<longleftrightarrow> t_Event j \<and> t_object [(''deliveries'', t_array t_DeliveryFanoutSummary)] j"

definition t_EventListResponse :: "json \<Rightarrow> bool" where
  "t_EventListResponse = t_object [(''events'', t_array t_Event), (''next_cursor'', t_null_or t_string)]"

definition t_DeliverySummary :: "json \<Rightarrow> bool" where
  "t_DeliverySummary = t_object [(''id'', t_string), (''event_id'', t_string), (''state'', t_DeliveryState),
     (''attempt_count'', t_number), (''next_attempt_at'', t_string), (''blocked_on_delivery_id'', t_null_or t_string)]"

definition t_LastResponse :: "json \<Rightarrow> bool" where
  "t_LastResponse = t_object [(''response_status'', t_null_or t_number), (''response_body_truncated'', t_null_or t_string),
     (''duration_ms'', t_null_or t_number), (''error_class'', t_null_or t_string)]"

definition t_Attempt :: "json \<Rightarrow> bool" where
  "t_Attempt j \<longleftrightarrow> t_object [(''attempt_number'', t_number), (''sent_at'', t_null_or t_string)] j \<and> t_LastResponse j"

definition t_DeliveryDetail :: "json \<Rightarrow> bool" where
  "t_DeliveryDetail j \<longleftrightarrow> t_DeliverySummary j \<and> t_object [(''endpoint_id'', t_string),
     (''last_response'', t_null_or t_LastResponse), (''attempts'', t_array t_Attempt)] j"

definition t_EndpointDeliveriesResponse :: "json \<Rightarrow> bool" where
  "t_EndpointDeliveriesResponse = t_object [(''deliveries'', t_array t_DeliverySummary), (''next_cursor'', t_null_or t_string)]"

definition t_AsyncAcceptedResponse :: "json \<Rightarrow> bool" where
  "t_AsyncAcceptedResponse = t_object [(''id'', t_string), (''status'', t_string)]"

definition t_ApiErrorBody :: "json \<Rightarrow> bool" where
  "t_ApiErrorBody = t_object [(''error'', t_object [(''code'', t_string), (''message'', t_string)])]"

section \<open>What the API sends has these types\<close>

named_theorems wire_types \<open>the bodies of the API have the console's types\<close>

lemmas t_defs = t_string_def t_number_def t_unknown_def t_literal_def t_null_or_def t_array_def t_field_def t_object_def
  get_prop_def j_nat_def j_int_def j_time_def j_uuid_def

lemma t_endpoint_fields: "t_Endpoint (JObj (endpoint_fields E v @ fs))"
  by (cases "v_status v") (simp_all add: t_Endpoint_def endpoint_fields_def t_defs endpoint_status_text_def list_all_iff)

lemma t_endpoint [wire_types]: "t_Endpoint (JObj (endpoint_fields E v))"
  using t_endpoint_fields [of E v "[]"] by simp

lemma t_health [wire_types]: "t_EndpointWithHealth (JObj (health_fields E num v))"
  unfolding t_EndpointWithHealth_def
  by (simp add: health_fields_def t_endpoint_fields)
     (simp add: t_EndpointHealth_def endpoint_fields_def t_defs j_opt_def split: option.split)

lemma t_state: "t_DeliveryState (JStr (delivery_state_text st))"
  by (cases st) (simp_all add: t_DeliveryState_def t_literal_def delivery_state_text_def)

lemma t_summary_fields: "t_DeliverySummary (JObj (summary_fields E d @ fs))"
  by (simp add: t_DeliverySummary_def summary_fields_def t_defs t_state j_opt_def split: option.split)

lemma t_summary [wire_types]: "t_DeliverySummary (JObj (summary_fields E d))"
  using t_summary_fields [of E d "[]"] by simp

lemma t_response [wire_types]: "t_LastResponse (response_json r)"
  by (simp add: t_LastResponse_def response_json_def t_defs j_opt_def split: option.split)

lemma t_attempt [wire_types]: "t_Attempt (attempt_json a)"
  by (simp add: t_Attempt_def t_LastResponse_def attempt_json_def t_defs j_opt_def split: option.split)

lemma t_event_fields: "t_Event (JObj (event_fields E v @ fs))"
  by (cases "w_status v") (simp_all add: t_Event_def event_fields_def t_defs expansion_status_text_def)

lemma t_event [wire_types]: "t_Event (JObj (event_fields E v))"
  using t_event_fields [of E v "[]"] by simp

lemma t_fanout [wire_types]: "t_DeliveryFanoutSummary (fanout_json E f)"
  by (simp add: t_DeliveryFanoutSummary_def fanout_json_def t_defs t_state)

lemma t_page: "\<forall>x\<in>set xs. p (f x) \<Longrightarrow>
    t_object [(name, t_array p), (''next_cursor'', t_null_or t_string)] (page_json name (map f xs) c) \<longleftrightarrow> name \<noteq> ''next_cursor''"
  by (auto simp: page_json_def t_defs j_opt_def list_all_iff split: option.split)

lemma reply_types [wire_types]:
  "t_ApiErrorBody (reply_json E num (R_error c m))"
  "t_RegisterEndpointResponse (reply_json E num (R_endpoint_created v secret))"
  "t_EndpointListResponse (reply_json E num (R_endpoints hs cu))"
  "t_EndpointWithHealth (reply_json E num (R_endpoint_health h))"
  "t_Endpoint (reply_json E num (R_endpoint v))"
  "t_ResumeEndpointResponse (reply_json E num (R_resumed v n ids))"
  "t_RotateSecretResponse (reply_json E num (R_rotated secret t))"
  "t_EndpointDeliveriesResponse (reply_json E num (R_queue ds cu))"
  "t_AsyncAcceptedResponse (reply_json E num (R_accepted i st))"
  "t_EventListResponse (reply_json E num (R_events vs cu))"
  "t_EventDetail (reply_json E num (R_event_detail w fs))"
  "t_DeliveryDetail (reply_json E num (R_delivery_detail d eid l xs))"
  by (simp_all add: reply_json_def wire_types t_RegisterEndpointResponse_def t_ResumeEndpointResponse_def
      t_EventDetail_def t_DeliveryDetail_def t_endpoint_fields t_event_fields t_summary_fields
      t_EndpointListResponse_def t_EndpointDeliveriesResponse_def t_EventListResponse_def t_page)
    (simp_all add: t_ApiErrorBody_def t_RotateSecretResponse_def t_AsyncAcceptedResponse_def t_defs endpoint_fields_def
      event_fields_def summary_fields_def list_all_iff t_fanout t_attempt t_response j_opt_def split: option.split)

end
