(* ===== verification/Console_Client.thy ===== *)
theory Console_Client
  imports Console_Types Tenancy
begin

text \<open>
  \<^verbatim>\<open>frontend/src/api/client.ts\<close>: the console's API client.  A call of one of its methods is an
  \<open>api_call\<close>; \<open>call_request\<close> is the \<^verbatim>\<open>fetch\<close> it makes and \<open>call_result\<close> what it does with the response.
  The last section puts client and server together: what Express makes of a request is a parameter,
  \<open>express_reads\<close> says how it reads the URL, the headers and the body it was sent.
\<close>

section \<open>Query strings\<close>

text \<open>\<^verbatim>\<open>URLSearchParams\<close>: \<open>set\<close> replaces a value or appends a pair, \<open>toString\<close> percent-encodes.\<close>

fun params_set :: "string \<Rightarrow> string \<Rightarrow> (string \<times> string) list \<Rightarrow> (string \<times> string) list" where
  "params_set k v [] = [(k, v)]"
| "params_set k v (p # ps) = (if fst p = k then (k, v) # filter (\<lambda>q. fst q \<noteq> k) ps else p # params_set k v ps)"

definition form_safe :: "char \<Rightarrow> bool" where
  "form_safe c \<longleftrightarrow> (let n = of_char c :: nat in
     is_digit c \<or> (65 \<le> n \<and> n \<le> 90) \<or> (97 \<le> n \<and> n \<le> 122) \<or> n \<in> {42, 45, 46, 95})"

definition upper_hex :: "nat \<Rightarrow> char" where
  "upper_hex n = (if n < 10 then char_of (48 + n) else char_of (55 + n))"

definition form_char :: "char \<Rightarrow> string" where
  "form_char c =
     (if form_safe c then [c] else if c = CHR '' '' then ''+''
      else [CHR ''%'', upper_hex (of_char c div 16), upper_hex (of_char c mod 16)])"

definition form_encode :: "string \<Rightarrow> string" where
  "form_encode s = concat (map form_char s)"

definition params_toString :: "(string \<times> string) list \<Rightarrow> string" where
  "params_toString ps = js_join ''&'' (map (\<lambda>p. form_encode (fst p) @ ''='' @ form_encode (snd p)) ps)"

record page_params =
  pp_limit :: "nat option"
  pp_cursor :: "string option"

record search_params = page_params +
  sp_id :: "string option"
  sp_type :: "string option"
  sp_endpoint_id :: "string option"
  sp_from :: "string option"
  sp_to :: "string option"

text \<open>\<open>set_truthy\<close>: a parameter is set when its value is given and not empty.\<close>

definition set_truthy :: "string \<Rightarrow> string option \<Rightarrow> (string \<times> string) list \<Rightarrow> (string \<times> string) list" where
  "set_truthy k v q = (case v of None \<Rightarrow> q | Some s \<Rightarrow> if s = [] then q else params_set k s q)"

definition pageQueryParams :: "string \<Rightarrow> 'a page_params_scheme option \<Rightarrow> (string \<times> string) list" where
  "pageQueryParams cursorParam params =
     (case params of None \<Rightarrow> []
      | Some p \<Rightarrow>
          set_truthy cursorParam (pp_cursor p)
            (case pp_limit p of None \<Rightarrow> [] | Some n \<Rightarrow> params_set ''limit'' (show_nat n) []))"

definition toQueryString :: "(string \<times> string) list \<Rightarrow> string" where
  "toQueryString q = (let qs = params_toString q in if qs = [] then [] else ''?'' @ qs)"

definition eventSearchParams :: "search_params option \<Rightarrow> (string \<times> string) list" where
  "eventSearchParams params =
     (case params of None \<Rightarrow> []
      | Some p \<Rightarrow>
          set_truthy ''to'' (sp_to p) (set_truthy ''from'' (sp_from p)
            (set_truthy ''endpoint_id'' (sp_endpoint_id p) (set_truthy ''type'' (sp_type p)
              (set_truthy ''id'' (sp_id p) (pageQueryParams ''before'' params))))))"

definition eventSearchQuery :: "search_params option \<Rightarrow> string" where
  "eventSearchQuery params = toQueryString (eventSearchParams params)"

section \<open>The methods\<close>

datatype api_call =
    RegisterEndpoint string "string list"
  | ListEndpoints "page_params option"
  | PublishEvent string "(string \<times> json) list" string
  | GetEndpoint string
  | PauseEndpoint string
  | ResumeEndpoint string
  | RotateSecret string
  | ListEvents "search_params option"
  | GetEvent string
  | GetDelivery string
  | ListEndpointDeliveries string "page_params option"
  | TriggerReplay string string string string

record http_call =
  hc_method :: string
  hc_url :: string
  hc_headers :: "(string \<times> string) list"
  hc_body :: "string option"

record request_init =
  ci_method :: string
  ci_body :: "json option"
  ci_headers :: "(string \<times> string) list"

definition get_init :: request_init where
  "get_init = \<lparr>ci_method = ''GET'', ci_body = None, ci_headers = []\<rparr>"

definition post_init :: "json option \<Rightarrow> (string \<times> string) list \<Rightarrow> request_init" where
  "post_init b hs = \<lparr>ci_method = ''POST'', ci_body = b, ci_headers = hs\<rparr>"

text \<open>What each method passes to \<^verbatim>\<open>call\<close>: the path and the init.\<close>

definition call_init :: "api_call \<Rightarrow> string \<times> request_init" where
  "call_init c =
     (case c of
        RegisterEndpoint url types \<Rightarrow>
          (''/endpoints'', post_init (Some (JObj [(''url'', JStr url), (''event_types'', JArr (map JStr types))])) [])
      | ListEndpoints params \<Rightarrow> (''/endpoints'' @ toQueryString (pageQueryParams ''before'' params), get_init)
      | PublishEvent ty payload key \<Rightarrow>
          (''/events'', post_init (Some (JObj [(''type'', JStr ty), (''payload'', JObj payload)])) [(''idempotency-key'', key)])
      | GetEndpoint i \<Rightarrow> (''/endpoints/'' @ i, get_init)
      | PauseEndpoint i \<Rightarrow> (''/endpoints/'' @ i @ ''/pause'', post_init None [])
      | ResumeEndpoint i \<Rightarrow> (''/endpoints/'' @ i @ ''/resume'', post_init None [])
      | RotateSecret i \<Rightarrow> (''/endpoints/'' @ i @ ''/secret/rotate'', post_init None [])
      | ListEvents params \<Rightarrow> (''/events'' @ eventSearchQuery params, get_init)
      | GetEvent i \<Rightarrow> (''/events/'' @ i, get_init)
      | GetDelivery i \<Rightarrow> (''/deliveries/'' @ i, get_init)
      | ListEndpointDeliveries i params \<Rightarrow>
          (''/endpoints/'' @ i @ ''/deliveries'' @ toQueryString (pageQueryParams ''after'' params), get_init)
      | TriggerReplay i a b key \<Rightarrow>
          (''/endpoints/'' @ i @ ''/replays'',
           post_init (Some (JObj [(''range_start'', JStr a), (''range_end'', JStr b)])) [(''idempotency-key'', key)]))"

definition put_header :: "string \<Rightarrow> string \<Rightarrow> (string \<times> string) list \<Rightarrow> (string \<times> string) list" where
  "put_header k v hs = params_set k v hs"

definition api_request :: "string \<Rightarrow> string \<Rightarrow> string \<Rightarrow> request_init \<Rightarrow> http_call" where
  "api_request baseUrl apiKey path init =
     (let headers = fold (\<lambda>h. put_header (fst h) (snd h)) (ci_headers init) [(''authorization'', ''Bearer '' @ apiKey)]
      in \<lparr>hc_method = ci_method init, hc_url = baseUrl @ path,
          hc_headers = (if ci_body init = None then headers else put_header ''content-type'' ''application/json'' headers),
          hc_body = map_option stringify (ci_body init)\<rparr>)"

definition call_request :: "string \<Rightarrow> string \<Rightarrow> api_call \<Rightarrow> http_call" where
  "call_request baseUrl apiKey c = api_request baseUrl apiKey (fst (call_init c)) (snd (call_init c))"

section \<open>Responses\<close>

record http_response =
  hr_status :: nat
  hr_statusText :: string
  hr_body :: "json option"

text \<open>\<open>ApiError\<close>, or what \<^verbatim>\<open>fetch\<close>, a property access or \<^verbatim>\<open>res.json()\<close> throws by itself.\<close>

datatype client_error = Api_error json json nat | Type_error | Syntax_error

text \<open>\<^verbatim>\<open>x ?? y\<close> on a property that may be missing or null.\<close>

definition prop_or :: "json \<Rightarrow> string \<Rightarrow> json \<Rightarrow> json" where
  "prop_or dflt k j = (case get_prop k j of None \<Rightarrow> dflt | Some v \<Rightarrow> if v = JNull then dflt else v)"

definition error_of_body :: "nat \<Rightarrow> string \<Rightarrow> json option \<Rightarrow> client_error" where
  "error_of_body status statusText body =
     (case body of
        None \<Rightarrow> Api_error (JStr ''unknown_error'') (JStr statusText) status
      | Some j \<Rightarrow>
          if j = JNull then Api_error (JStr ''unknown_error'') (JStr statusText) status
          else case get_prop ''error'' j of
                 None \<Rightarrow> Type_error
               | Some e \<Rightarrow>
                   if e = JNull then Type_error
                   else Api_error (prop_or (JStr ''unknown_error'') ''code'' e)
                          (prop_or (JStr statusText) ''message'' e) status)"

definition call_result :: "http_response \<Rightarrow> client_error + json option" where
  "call_result r =
     (if \<not> (200 \<le> hr_status r \<and> hr_status r \<le> 299) then Inl (error_of_body (hr_status r) (hr_statusText r) (hr_body r))
      else if hr_status r = 204 then Inr None
      else case hr_body r of None \<Rightarrow> Inl Syntax_error | Some j \<Rightarrow> Inr (Some j))"

text \<open>The type each method declares for its result.\<close>

definition call_type :: "api_call \<Rightarrow> json \<Rightarrow> bool" where
  "call_type c =
     (case c of
        RegisterEndpoint _ _ \<Rightarrow> t_RegisterEndpointResponse
      | ListEndpoints _ \<Rightarrow> t_EndpointListResponse
      | PublishEvent _ _ _ \<Rightarrow> t_AsyncAcceptedResponse
      | GetEndpoint _ \<Rightarrow> t_EndpointWithHealth
      | PauseEndpoint _ \<Rightarrow> t_Endpoint
      | ResumeEndpoint _ \<Rightarrow> t_ResumeEndpointResponse
      | RotateSecret _ \<Rightarrow> t_RotateSecretResponse
      | ListEvents _ \<Rightarrow> t_EventListResponse
      | GetEvent _ \<Rightarrow> t_EventDetail
      | GetDelivery _ \<Rightarrow> t_DeliveryDetail
      | ListEndpointDeliveries _ _ \<Rightarrow> t_EndpointDeliveriesResponse
      | TriggerReplay _ _ _ _ \<Rightarrow> t_AsyncAcceptedResponse)"

section \<open>Client and server\<close>

text \<open>Where a call is meant to go, and the segments and parameters of its URL.\<close>

definition call_route :: "api_call \<Rightarrow> route" where
  "call_route c =
     (case c of
        RegisterEndpoint _ _ \<Rightarrow> Post_endpoint
      | ListEndpoints _ \<Rightarrow> Get_endpoints
      | PublishEvent _ _ _ \<Rightarrow> Post_event
      | GetEndpoint i \<Rightarrow> Get_endpoint i
      | PauseEndpoint i \<Rightarrow> Pause_endpoint i
      | ResumeEndpoint i \<Rightarrow> Resume_endpoint i
      | RotateSecret i \<Rightarrow> Rotate_secret i
      | ListEvents _ \<Rightarrow> Get_events
      | GetEvent i \<Rightarrow> Get_event i
      | GetDelivery i \<Rightarrow> Get_delivery i
      | ListEndpointDeliveries i _ \<Rightarrow> Get_queue i
      | TriggerReplay i _ _ _ \<Rightarrow> Post_replay i)"

definition call_segments :: "api_call \<Rightarrow> string list" where
  "call_segments c =
     (case c of
        RegisterEndpoint _ _ \<Rightarrow> [''endpoints'']
      | ListEndpoints _ \<Rightarrow> [''endpoints'']
      | PublishEvent _ _ _ \<Rightarrow> [''events'']
      | GetEndpoint i \<Rightarrow> [''endpoints'', i]
      | PauseEndpoint i \<Rightarrow> [''endpoints'', i, ''pause'']
      | ResumeEndpoint i \<Rightarrow> [''endpoints'', i, ''resume'']
      | RotateSecret i \<Rightarrow> [''endpoints'', i, ''secret'', ''rotate'']
      | ListEvents _ \<Rightarrow> [''events'']
      | GetEvent i \<Rightarrow> [''events'', i]
      | GetDelivery i \<Rightarrow> [''deliveries'', i]
      | ListEndpointDeliveries i _ \<Rightarrow> [''endpoints'', i, ''deliveries'']
      | TriggerReplay i _ _ _ \<Rightarrow> [''endpoints'', i, ''replays''])"

definition call_params :: "api_call \<Rightarrow> (string \<times> string) list" where
  "call_params c =
     (case c of
        ListEndpoints params \<Rightarrow> pageQueryParams ''before'' params
      | ListEvents params \<Rightarrow> eventSearchParams params
      | ListEndpointDeliveries _ params \<Rightarrow> pageQueryParams ''after'' params
      | _ \<Rightarrow> [])"

text \<open>The URL of a call is its segments and its parameters, written out.\<close>

lemma call_url: "fst (call_init c) = concat (map (\<lambda>w. ''/'' @ w) (call_segments c)) @ toQueryString (call_params c)"
  by (cases c) (simp_all add: call_init_def call_segments_def call_params_def toQueryString_def params_toString_def
      eventSearchQuery_def)

subsection \<open>Reading a URL\<close>

definition url_path :: "string \<Rightarrow> string" where
  "url_path target = takeWhile (\<lambda>c. c \<noteq> CHR ''?'') target"

definition url_query :: "string \<Rightarrow> string" where
  "url_query target = drop 1 (dropWhile (\<lambda>c. c \<noteq> CHR ''?'') target)"

definition path_segments :: "string \<Rightarrow> string list" where
  "path_segments path = filter (\<lambda>w. w \<noteq> []) (js_split (CHR ''/'') path)"

text \<open>A parameter of a query: a plus sign is a space, \<^verbatim>\<open>%XX\<close> a byte.\<close>

definition hex_value :: "char \<Rightarrow> nat" where
  "hex_value c = (if is_digit c then of_char c - 48 else if of_char c < (97 :: nat) then of_char c - 55 else of_char c - 87)"

fun form_decode :: "string \<Rightarrow> string" where
  "form_decode (c # a # b # s) =
     (if c = CHR ''%'' then char_of (16 * hex_value a + hex_value b) # form_decode s
      else (if c = CHR ''+'' then CHR '' '' else c) # form_decode (a # b # s))"
| "form_decode s = map (\<lambda>c. if c = CHR ''+'' then CHR '' '' else c) s"

definition query_pair :: "string \<Rightarrow> string \<times> string" where
  "query_pair w = (form_decode (takeWhile (\<lambda>c. c \<noteq> CHR ''='') w), form_decode (drop 1 (dropWhile (\<lambda>c. c \<noteq> CHR ''='') w)))"

definition query_pairs :: "string \<Rightarrow> (string \<times> string) list" where
  "query_pairs q = (if q = [] then [] else map query_pair (js_split (CHR ''&'') q))"

text \<open>What the client writes is read back.\<close>

lemma hex_value_upper: "n < 16 \<Longrightarrow> hex_value (upper_hex n) = n"
  by (auto simp: hex_value_def upper_hex_def is_digit_def)

lemma form_decode_plain: "c \<noteq> CHR ''%'' \<Longrightarrow> form_decode (c # s) = (if c = CHR ''+'' then CHR '' '' else c) # form_decode s"
  by (cases s rule: remdups_adj.cases) auto

lemma form_decode_char: "form_decode (form_char c @ s) = c # form_decode s"
proof -
  have "of_char c div 16 < (16 :: nat)" "of_char c mod 16 < (16 :: nat)" using nat_of_char_less_256 [of c] by linarith+
  then have code: "char_of (16 * hex_value (upper_hex (of_char c div 16)) + hex_value (upper_hex (of_char c mod 16))) = c"
    by (simp add: hex_value_upper)
  have "\<not> form_safe (CHR ''%'')" "\<not> form_safe (CHR ''+'')" by (simp_all add: form_safe_def is_digit_def)
  then have "form_safe c \<Longrightarrow> c \<noteq> CHR ''%'' \<and> c \<noteq> CHR ''+''" by auto
  with code show ?thesis by (auto simp: form_char_def form_decode_plain)
qed

lemma form_decode_encode: "form_decode (form_encode w) = w"
proof (induction w)
  case (Cons c w)
  then show ?case using form_decode_char [of c "form_encode w"] by (simp add: form_encode_def)
qed (simp add: form_encode_def)

lemma form_encode_chars: "c \<in> set (form_encode w) \<Longrightarrow> form_safe c \<or> c \<in> {CHR ''+'', CHR ''%''}"
proof -
  have "n < 16 \<Longrightarrow> form_safe (upper_hex n)" for n by (auto simp: form_safe_def upper_hex_def is_digit_def Let_def)
  moreover have "of_char d div 16 < (16 :: nat)" "of_char d mod 16 < (16 :: nat)" for d :: char
    using nat_of_char_less_256 [of d] by linarith+
  ultimately have "c \<in> set (form_char d) \<Longrightarrow> form_safe c \<or> c \<in> {CHR ''+'', CHR ''%''}" for d
    by (auto simp: form_char_def split: if_splits)
  then show "c \<in> set (form_encode w) \<Longrightarrow> form_safe c \<or> c \<in> {CHR ''+'', CHR ''%''}" by (auto simp: form_encode_def)
qed

lemma query_pair_written: "query_pair (form_encode k @ ''='' @ form_encode v) = (k, v)"
proof -
  have "CHR ''='' \<notin> set (form_encode k)" using form_encode_chars [of "CHR ''=''" k] by (auto simp: form_safe_def is_digit_def)
  then have "takeWhile (\<lambda>c. c \<noteq> CHR ''='') (form_encode k @ ''='' @ form_encode v) = form_encode k"
    "dropWhile (\<lambda>c. c \<noteq> CHR ''='') (form_encode k @ ''='' @ form_encode v) = ''='' @ form_encode v"
    by (auto simp: takeWhile_append dropWhile_append)
  then show ?thesis by (simp add: query_pair_def form_decode_encode)
qed

lemma query_pairs_written: "query_pairs (params_toString ps) = ps"
proof (cases ps)
  case (Cons p qs)
  let ?ws = "map (\<lambda>p. form_encode (fst p) @ ''='' @ form_encode (snd p)) ps"
  have "CHR ''&'' \<notin> set w" if "w \<in> set ?ws" for w
    using that form_encode_chars [of "CHR ''&''"] by (auto simp: form_safe_def is_digit_def)
  then have "js_split (CHR ''&'') (params_toString ps) = ?ws"
    unfolding params_toString_def by (intro js_split_join) (simp_all add: Cons)
  moreover have "params_toString ps \<noteq> []" by (cases qs) (simp_all add: Cons params_toString_def)
  ultimately show ?thesis by (simp add: query_pairs_def query_pair_written [simplified] comp_def)
qed (simp add: query_pairs_def params_toString_def)

text \<open>The parameters the client sets are distinct words.\<close>

lemma params_set_keys:
  "set (map fst (params_set k v ps)) \<subseteq> insert k (set (map fst ps))"
  "distinct (map fst ps) \<Longrightarrow> distinct (map fst (params_set k v ps))"
proof -
  show keys: "set (map fst (params_set k v ps)) \<subseteq> insert k (set (map fst ps))" for ps
    by (induction ps) auto
  show "distinct (map fst ps) \<Longrightarrow> distinct (map fst (params_set k v ps))"
  proof (induction ps)
    case (Cons p ps)
    then show ?case using keys [of ps] by (auto simp: distinct_map_filter)
  qed simp
qed

lemma set_truthy_keys:
  "distinct (map fst q) \<Longrightarrow> distinct (map fst (set_truthy k v q))"
  "k \<in> K \<Longrightarrow> fst ` set q \<subseteq> K \<Longrightarrow> fst ` set (set_truthy k v q) \<subseteq> K"
proof -
  note keys = params_set_keys [where k = k and v = "the v" and ps = q]
  show "distinct (map fst q) \<Longrightarrow> distinct (map fst (set_truthy k v q))"
    using keys(2) by (auto simp: set_truthy_def split: option.split)
  show "k \<in> K \<Longrightarrow> fst ` set q \<subseteq> K \<Longrightarrow> fst ` set (set_truthy k v q) \<subseteq> K"
    using keys(1) unfolding set_truthy_def list.set_map by (cases v) (simp_all del: image_subset_iff, blast)
qed

lemma page_keys:
  "distinct (map fst (pageQueryParams cur params))" "{''limit'', cur} \<subseteq> K \<Longrightarrow> fst ` set (pageQueryParams cur params) \<subseteq> K"
  by (cases params; simp add: pageQueryParams_def set_truthy_keys del: image_subset_iff split: option.split)+

lemma search_keys:
  "distinct (map fst (eventSearchParams params))"
  "{''limit'', ''before'', ''id'', ''type'', ''endpoint_id'', ''from'', ''to''} \<subseteq> K \<Longrightarrow> fst ` set (eventSearchParams params) \<subseteq> K"
  by (cases params; simp add: eventSearchParams_def set_truthy_keys page_keys del: image_subset_iff)+

lemma call_params_keys: "distinct (map fst (call_params c))" "\<forall>p\<in>set (call_params c). list_all form_safe (fst p)"
proof -
  let ?K = "{''limit'', ''before'', ''after'', ''id'', ''type'', ''endpoint_id'', ''from'', ''to''}"
  show "distinct (map fst (call_params c))" by (cases c) (simp_all add: call_params_def page_keys search_keys)
  have "fst ` set (call_params c) \<subseteq> ?K"
    by (cases c) (simp_all add: call_params_def page_keys search_keys del: image_subset_iff)
  moreover have "\<forall>k\<in>?K. list_all form_safe k" by (simp add: form_safe_def is_digit_def)
  ultimately show "\<forall>p\<in>set (call_params c). list_all form_safe (fst p)" by blast
qed

lemma split_segments:
  "\<forall>w\<in>set ws. sep \<notin> set w \<Longrightarrow> js_split sep (concat (map (\<lambda>w. sep # w) ws)) = [] # ws"
proof (induction ws)
  case (Cons w ws)
  then have ih: "js_split sep (concat (map (\<lambda>w. sep # w) ws)) = [] # ws" and w: "sep \<notin> set w" by simp_all
  show ?case
  proof (cases ws)
    case Nil
    with w show ?thesis by (simp add: js_split_no_sep)
  next
    case (Cons v vs)
    with ih w show ?thesis by (simp add: js_split_append_sep)
  qed
qed simp

subsection \<open>What Express makes of a request\<close>

text \<open>
  \<open>X\<close> is what reaches the application of a \<^verbatim>\<open>fetch\<close>.  Express cuts the target at the first question mark, splits the path at its
  slashes (\<open>url_plain\<close>: characters that neither the URL parser nor the router rewrites), reads the parameters
  of the query when no name is given twice, keeps the headers, and parses a JSON body of at most 100kb (no body leaves
  an empty object).
\<close>

definition url_plain :: "char \<Rightarrow> bool" where
  "url_plain c \<longleftrightarrow> form_safe c \<and> c \<noteq> CHR ''.''"

definition visible :: "char \<Rightarrow> bool" where
  "visible c \<longleftrightarrow> (let n = of_char c :: nat in 33 \<le> n \<and> n \<le> 126)"

definition query_reads :: "(string \<times> string) list \<Rightarrow> (string \<Rightarrow> query_value) \<Rightarrow> bool" where
  "query_reads ps q \<longleftrightarrow> (\<forall>k. q k = (case map_of ps k of None \<Rightarrow> Q_undefined | Some v \<Rightarrow> Q_string v))"

definition express_reads :: "(http_call \<Rightarrow> request) \<Rightarrow> string \<Rightarrow> bool" where
  "express_reads X baseUrl \<longleftrightarrow> (\<forall>h target. hc_url h = baseUrl @ target \<longrightarrow>
     list_all (\<lambda>c. url_plain c \<or> c = CHR ''/'') (url_path target) \<longrightarrow>
     rq_method (X h) = hc_method h \<and> rq_path (X h) = path_segments (url_path target) \<and>
     (let ps = query_pairs (url_query target) in
        distinct (map fst ps) \<longrightarrow> (\<forall>p\<in>set ps. list_all form_safe (fst p)) \<longrightarrow> query_reads ps (rq_query (X h))) \<and>
     (\<forall>k v. map_of (hc_headers h) k = Some v \<longrightarrow> list_all (\<lambda>c. visible c \<or> c = CHR '' '') v \<longrightarrow> rq_header (X h) k = Some v) \<and>
     (case hc_body h of
        None \<Rightarrow> rq_body (X h) = Some (JObj [])
      | Some t \<Rightarrow> map_of (hc_headers h) ''content-type'' = Some ''application/json'' \<longrightarrow> length t \<le> 102400 \<longrightarrow> rq_body (X h) = json_parse t))"

definition respond :: "api_env \<Rightarrow> (rat \<Rightarrow> string) \<Rightarrow> (nat \<Rightarrow> string) \<Rightarrow> nat \<times> reply \<Rightarrow> http_response" where
  "respond E num txt x =
     \<lparr>hr_status = fst x, hr_statusText = txt (fst x), hr_body = Some (reply_json E num (snd x))\<rparr>"

definition route_reply :: "route \<Rightarrow> nat \<Rightarrow> reply \<Rightarrow> bool" where
  "route_reply rt st r \<longleftrightarrow> (st = 400 \<or> st = 404) \<and> (\<exists>c m. r = R_error c m) \<or>
     (st = 200 \<or> st = 201 \<or> st = 202) \<and>
     (case rt of
        Post_endpoint \<Rightarrow> \<exists>v k. r = R_endpoint_created v k
      | Get_endpoints \<Rightarrow> \<exists>vs c. r = R_endpoints vs c
      | Get_endpoint _ \<Rightarrow> \<exists>v. r = R_endpoint_health v
      | Pause_endpoint _ \<Rightarrow> \<exists>v. r = R_endpoint v
      | Resume_endpoint _ \<Rightarrow> \<exists>v n ids. r = R_resumed v n ids
      | Rotate_secret _ \<Rightarrow> \<exists>k t. r = R_rotated k t
      | Get_queue _ \<Rightarrow> \<exists>ds c. r = R_queue ds c
      | Post_event \<Rightarrow> \<exists>i e. r = R_accepted i e
      | Get_events \<Rightarrow> \<exists>vs c. r = R_events vs c
      | Get_event _ \<Rightarrow> \<exists>v ds. r = R_event_detail v ds
      | Post_replay _ \<Rightarrow> \<exists>i e. r = R_accepted i e
      | Get_delivery _ \<Rightarrow> \<exists>d e l xs. r = R_delivery_detail d e l xs)"

lemma run_route_reply:
  "fst (run_route E i r body tid rt s) = Inr (st, rep) \<Longrightarrow> route_reply rt st rep"
  by (cases rt)
    (auto simp: run_route_def route_reply_def post_endpoint_def get_endpoints_def get_endpoint_def pause_endpoint_def
      resume_endpoint_def rotate_secret_def get_endpoint_deliveries_def post_event_def get_events_def get_event_def
      post_replay_def get_delivery_def with_uuid_def invalid_request_def not_found_def Let_def case_prod_beta
      split: option.splits sum.splits url_check.splits if_splits)

lemma call_reply_type:
  "route_reply (call_route c) st rep \<Longrightarrow> st = 200 \<or> st = 201 \<or> st = 202 \<Longrightarrow> call_type c (reply_json E num rep)"
  by (cases c) (auto simp: route_reply_def call_route_def call_type_def wire_types)

lemma fold_put_other:
  "\<forall>h\<in>set hs. fst h \<noteq> k \<Longrightarrow> map_of (fold (\<lambda>h. put_header (fst h) (snd h)) hs ps) k = map_of ps k"
proof (induction hs arbitrary: ps)
  case (Cons h hs)
  have "map_of (filter (\<lambda>q. fst q \<noteq> a) ps) k = map_of ps k" if "a \<noteq> k" for a and ps :: "(string \<times> string) list"
    using that by (induction ps) auto
  then have "map_of (params_set a b ps) k = map_of ps k" if "a \<noteq> k" for a b and ps :: "(string \<times> string) list"
    using that by (induction a b ps rule: params_set.induct) auto
  with Cons show ?case by (simp add: put_header_def)
qed simp

lemma call_authorization: "map_of (hc_headers (call_request baseUrl key c)) ''authorization'' = Some (''Bearer '' @ key)"
proof -
  have "map_of (put_header ''content-type'' v ps) ''authorization'' = map_of ps ''authorization''" for v ps
    using fold_put_other [of "[(''content-type'', v)]" "''authorization''" ps] by simp
  moreover have "\<forall>h\<in>set (ci_headers (snd (call_init c))). fst h \<noteq> ''authorization''"
    by (cases c) (simp_all add: call_init_def post_init_def get_init_def)
  ultimately show ?thesis
    by (simp add: call_request_def api_request_def Let_def fold_put_other)
qed

lemma key_authenticates:
  assumes "wf_db s" "t \<in> set (tenants s)" "tn_api_key_hash t = hashApiKey (crypt E) key"
    "bearer_token (rq_header r ''authorization'') = Some key"
  shows "requireTenant E r s = Tenant (tn_id t)"
proof -
  let ?us = "filter (\<lambda>u. tn_api_key_hash u = hashApiKey (crypt E) key) (tenants s)"
  have "t \<in> set ?us" using assms(2,3) by simp
  then obtain u us where us: "?us = u # us" by (cases ?us) (auto simp: filter_empty_conv)
  then have "u \<in> set ?us" by (simp only: list.set_intros)
  then have "u = t"
    using assms(1,2,3) distinct_map_eq [of tn_api_key_hash "tenants s" u t] by (auto simp: wf_db_def uniques_ok_def)
  with us show ?thesis using assms(4) by (simp add: requireTenant_def)
qed

text \<open>The request a method of the client makes, as the application sees it.\<close>

definition call_id :: "api_call \<Rightarrow> string option" where
  "call_id c =
     (case c of
        GetEndpoint i \<Rightarrow> Some i
      | PauseEndpoint i \<Rightarrow> Some i
      | ResumeEndpoint i \<Rightarrow> Some i
      | RotateSecret i \<Rightarrow> Some i
      | GetEvent i \<Rightarrow> Some i
      | GetDelivery i \<Rightarrow> Some i
      | ListEndpointDeliveries i _ \<Rightarrow> Some i
      | TriggerReplay i _ _ _ \<Rightarrow> Some i
      | _ \<Rightarrow> None)"

lemma url_parts:
  assumes "CHR ''?'' \<notin> set p"
  shows "url_path (p @ toQueryString ps) = p" "url_query (p @ toQueryString ps) = params_toString ps"
proof -
  have p: "\<forall>c\<in>set p. c \<noteq> CHR ''?''" using assms by auto
  then show "url_path (p @ toQueryString ps) = p" "url_query (p @ toQueryString ps) = params_toString ps"
    by (simp_all add: url_path_def url_query_def toQueryString_def Let_def takeWhile_append2 dropWhile_append2 del: takeWhile_eq_all_conv)
qed

lemma call_target:
  assumes "\<forall>i. call_id c = Some i \<longrightarrow> i \<noteq> [] \<and> list_all url_plain i"
  shows "list_all (\<lambda>c. url_plain c \<or> c = CHR ''/'') (url_path (fst (call_init c)))"
    "path_segments (url_path (fst (call_init c))) = call_segments c"
    "query_pairs (url_query (fst (call_init c))) = call_params c"
proof -
  let ?p = "concat (map (\<lambda>w. ''/'' @ w) (call_segments c))"
  have seg: "\<forall>w\<in>set (call_segments c). w \<noteq> [] \<and> list_all url_plain w"
    using assms by (cases c) (simp_all add: call_segments_def call_id_def url_plain_def form_safe_def is_digit_def)
  then have plain: "list_all (\<lambda>c. url_plain c \<or> c = CHR ''/'') ?p" by (auto simp: list_all_iff)
  have no: "\<not> url_plain (CHR ''/'')" "\<not> url_plain (CHR ''?'')" by (simp_all add: url_plain_def form_safe_def is_digit_def)
  then have mark: "CHR ''?'' \<notin> set ?p" using plain by (auto simp: list_all_iff)
  note parts = url_parts [OF mark, of "call_params c", folded call_url]
  show "list_all (\<lambda>c. url_plain c \<or> c = CHR ''/'') (url_path (fst (call_init c)))" unfolding parts(1) by (rule plain)
  have "\<forall>w\<in>set (call_segments c). CHR ''/'' \<notin> set w" using seg no by (auto simp: list_all_iff)
  note split = split_segments [OF this]
  have "filter (\<lambda>w. w \<noteq> []) (call_segments c) = call_segments c" by (rule filter_True) (use seg in blast)
  moreover have "(@) ''/'' = (#) (CHR ''/'')" by (simp add: fun_eq_iff)
  ultimately show "path_segments (url_path (fst (call_init c))) = call_segments c"
    unfolding parts(1) path_segments_def using split by simp
  show "query_pairs (url_query (fst (call_init c))) = call_params c" by (simp add: parts(2) query_pairs_written)
qed

lemma put_header_map: "map_of (put_header k v ps) x = (if x = k then Some v else map_of ps x)"
proof -
  have "map_of (filter (\<lambda>q. fst q \<noteq> k) ps) x = map_of ps x" if "x \<noteq> k" for ps :: "(string \<times> string) list"
    using that by (induction ps) auto
  then show ?thesis unfolding put_header_def by (induction ps) auto
qed

lemma call_headers:
  "map_of (ci_headers (snd (call_init c))) k = Some v \<Longrightarrow> map_of (hc_headers (call_request baseUrl key c)) k = Some v"
  "hc_body (call_request baseUrl key c) = Some w \<Longrightarrow> map_of (hc_headers (call_request baseUrl key c)) ''content-type'' = Some ''application/json''"
proof -
  have "ci_headers (snd (call_init c)) = [] \<or> (\<exists>w. ci_headers (snd (call_init c)) = [(''idempotency-key'', w)])"
    by (cases c) (simp_all add: call_init_def post_init_def get_init_def)
  then show "map_of (ci_headers (snd (call_init c))) k = Some v \<Longrightarrow> map_of (hc_headers (call_request baseUrl key c)) k = Some v"
    by (auto simp: call_request_def api_request_def Let_def put_header_map split: if_splits)
  show "hc_body (call_request baseUrl key c) = Some w \<Longrightarrow> map_of (hc_headers (call_request baseUrl key c)) ''content-type'' = Some ''application/json''"
    by (auto simp: call_request_def api_request_def Let_def put_header_map)
qed

text \<open>
  What a method was given: its query parameters (one that is missing or empty is not sent), its body (an empty
  object when it has none) and its idempotency key.
\<close>

definition given :: "string option \<Rightarrow> query_value" where
  "given v = (case v of None \<Rightarrow> Q_undefined | Some w \<Rightarrow> if w = [] then Q_undefined else Q_string w)"

definition page_query_of :: "string \<Rightarrow> 'a page_params_scheme option \<Rightarrow> string \<Rightarrow> query_value" where
  "page_query_of cursor params k =
     (case params of None \<Rightarrow> Q_undefined
      | Some p \<Rightarrow> if k = cursor then given (pp_cursor p) else if k = ''limit'' then given (map_option show_nat (pp_limit p)) else Q_undefined)"

definition call_query :: "api_call \<Rightarrow> string \<Rightarrow> query_value" where
  "call_query c k =
     (case c of
        ListEndpoints params \<Rightarrow> page_query_of ''before'' params k
      | ListEndpointDeliveries _ params \<Rightarrow> page_query_of ''after'' params k
      | ListEvents None \<Rightarrow> Q_undefined
      | ListEvents (Some p) \<Rightarrow>
          if k = ''id'' then given (sp_id p) else if k = ''type'' then given (sp_type p) else if k = ''endpoint_id'' then given (sp_endpoint_id p)
          else if k = ''from'' then given (sp_from p) else if k = ''to'' then given (sp_to p) else page_query_of ''before'' (Some p) k
      | _ \<Rightarrow> Q_undefined)"

definition call_body :: "api_call \<Rightarrow> json" where
  "call_body c =
     (case c of
        RegisterEndpoint url types \<Rightarrow> JObj [(''url'', JStr url), (''event_types'', JArr (map JStr types))]
      | PublishEvent ty payload _ \<Rightarrow> JObj [(''type'', JStr ty), (''payload'', JObj payload)]
      | TriggerReplay _ a b _ \<Rightarrow> JObj [(''range_start'', JStr a), (''range_end'', JStr b)]
      | _ \<Rightarrow> JObj [])"

definition call_key :: "api_call \<Rightarrow> string option" where
  "call_key c = (case c of PublishEvent _ _ key \<Rightarrow> Some key | TriggerReplay _ _ _ key \<Rightarrow> Some key | _ \<Rightarrow> None)"

lemma call_given:
  "call_body c = (case ci_body (snd (call_init c)) of None \<Rightarrow> JObj [] | Some j \<Rightarrow> j)"
  "call_key c = map_of (ci_headers (snd (call_init c))) ''idempotency-key''"
  by (cases c; simp add: call_body_def call_key_def call_init_def post_init_def get_init_def)+

definition reading :: "(string \<times> string) list \<Rightarrow> string \<Rightarrow> query_value" where
  "reading ps k = (case map_of ps k of None \<Rightarrow> Q_undefined | Some v \<Rightarrow> Q_string v)"

lemma reading_set: "reading (set_truthy k v ps) x = (if x = k \<and> given v \<noteq> Q_undefined then given v else reading ps x)"
  using put_header_map [of k _ ps x] by (auto simp: reading_def set_truthy_def given_def put_header_def split: option.split)

lemma reading_page: "cursor \<noteq> ''limit'' \<Longrightarrow> reading (pageQueryParams cursor params) k = page_query_of cursor params k"
  by (cases params)
     (auto simp: pageQueryParams_def page_query_of_def reading_set, auto simp: reading_def given_def split: option.split)

lemma reading_search:
  "reading (eventSearchParams params) k = call_query (ListEvents params) k"
proof (cases params)
  case (Some p)
  have before: "reading (pageQueryParams ''before'' (Some p)) x = page_query_of ''before'' (Some p) x" for x by (rule reading_page) simp
  have other: "page_query_of ''before'' (Some p) x = Q_undefined" if "x \<noteq> ''before''" "x \<noteq> ''limit''" for x
    using that by (simp add: page_query_of_def)
  show ?thesis
    by (simp add: other Some eventSearchParams_def call_query_def reading_set before)
qed (simp add: eventSearchParams_def call_query_def reading_def)

lemma call_query_read: "query_reads (call_params c) q \<Longrightarrow> q = call_query c"
proof (rule ext)
  fix k assume "query_reads (call_params c) q"
  then have q: "q k = reading (call_params c) k" by (simp add: query_reads_def reading_def)
  have none: "reading [] k = Q_undefined" by (simp add: reading_def)
  show "q k = call_query c k"
    unfolding q by (cases c) (simp_all add: call_params_def reading_page reading_search none, simp_all add: call_query_def)
qed

lemma call_arrives:
  assumes X: "express_reads X baseUrl" and id: "\<forall>i. call_id c = Some i \<longrightarrow> i \<noteq> [] \<and> list_all url_plain i"
    and body: "json_ok (call_body c)" "length (stringify (call_body c)) \<le> 102400" and key: "list_all visible key"
  defines "r \<equiv> X (call_request baseUrl key c)"
  shows "rq_method r = ci_method (snd (call_init c))" "rq_path r = call_segments c" "rq_query r = call_query c"
    "rq_header r ''authorization'' = Some (''Bearer '' @ key)" "rq_body r = Some (call_body c)"
    "\<forall>k. call_key c = Some k \<longrightarrow> list_all (\<lambda>c. visible c \<or> c = CHR '' '') k \<longrightarrow> rq_header r ''idempotency-key'' = Some k"
proof -
  let ?h = "call_request baseUrl key c"
  have h: "hc_url ?h = baseUrl @ fst (call_init c)" "hc_method ?h = ci_method (snd (call_init c))"
    "hc_body ?h = map_option stringify (ci_body (snd (call_init c)))"
    by (simp_all add: call_request_def api_request_def Let_def)
  note target = call_target [OF id]
  note reads = X [unfolded express_reads_def, rule_format, OF h(1) target(1), folded r_def, unfolded Let_def target(2,3)]
  show "rq_method r = ci_method (snd (call_init c))" "rq_path r = call_segments c" using reads h(2) by simp_all
  show "rq_query r = call_query c" by (rule call_query_read) (use reads call_params_keys [of c] in simp)
  have head: "rq_header r k = Some v" if "map_of (hc_headers ?h) k = Some v" "list_all (\<lambda>c. visible c \<or> c = CHR '' '') v" for k v
    using reads that by blast
  have "list_all (\<lambda>c. visible c \<or> c = CHR '' '') (''Bearer '' @ key)" using key by (auto simp: visible_def list_all_iff)
  with call_authorization show "rq_header r ''authorization'' = Some (''Bearer '' @ key)" by (rule head)
  show "\<forall>k. call_key c = Some k \<longrightarrow> list_all (\<lambda>c. visible c \<or> c = CHR '' '') k \<longrightarrow> rq_header r ''idempotency-key'' = Some k"
    using head call_headers(1) unfolding call_given(2) by blast
  show "rq_body r = Some (call_body c)"
  proof (cases "ci_body (snd (call_init c))")
    case None
    with reads h(3) show ?thesis by (simp add: call_given(1))
  next
    case (Some j)
    then have w: "hc_body ?h = Some (stringify j)" by (simp add: h(3))
    with reads call_headers(2) [OF w] body Some json_parse_print [of j] show ?thesis by (simp add: call_given(1))
  qed
qed

text \<open>
  C35. Every method of the console's client reaches the route it stands for, as the tenant whose key it
  carries, with the parameters, the idempotency key and the body it was given, and gets what it declares: on success the body answered,
  which has the TypeScript type of the method's result, otherwise an \<open>ApiError\<close> with the code, the message and the status
  the API answered.  The client never fails with a TypeError or on a malformed body.  Ids are plain characters
  (a UUID is), the key is visible ASCII and a body stays below the limit of the JSON parser.
\<close>

theorem console_calls_sound:
  assumes "wf_db s" "t \<in> set (tenants s)" "tn_api_key_hash t = hashApiKey (crypt E) key"
    "key \<noteq> []" "list_all visible key" "express_reads X baseUrl"
    "\<forall>i. call_id c = Some i \<longrightarrow> i \<noteq> [] \<and> list_all url_plain i"
    "json_ok (call_body c)" "length (stringify (call_body c)) \<le> 102400"
    "r = X (call_request baseUrl key c)" "fst (handle_request E i r s) = (st, rep)"
  shows "handle_request E i r s = with_error_handler (run_route E i r (call_body c) (tn_id t) (call_route c) s) \<and>
    rq_query r = call_query c \<and>
    (\<forall>k. call_key c = Some k \<longrightarrow> list_all (\<lambda>c. visible c \<or> c = CHR '' '') k \<longrightarrow> rq_header r ''idempotency-key'' = Some k) \<and>
    (case call_result (respond E num txt (st, rep)) of
       Inr (Some j) \<Rightarrow> j = reply_json E num rep \<and> call_type c j
     | Inl (Api_error code message status) \<Rightarrow>
         (\<exists>a b. rep = R_error a b \<and> code = JStr a \<and> message = JStr b) \<and> status = st \<and> st \<in> {400, 404, 500}
     | _ \<Rightarrow> False)"
proof -
  note arr = call_arrives [OF assms(6-9,5), folded assms(10)]
  have meth: "rq_method r = (case call_route c of Get_endpoints \<Rightarrow> ''GET'' | Get_endpoint _ \<Rightarrow> ''GET'' | Get_queue _ \<Rightarrow> ''GET''
      | Get_events \<Rightarrow> ''GET'' | Get_event _ \<Rightarrow> ''GET'' | Get_delivery _ \<Rightarrow> ''GET'' | _ \<Rightarrow> ''POST'')"
    unfolding arr(1) by (cases c) (simp_all add: call_init_def post_init_def get_init_def call_route_def)
  have route: "route_of (rq_method r) (rq_path r) = Some (call_route c)"
    unfolding meth arr(2) by (cases c) (simp_all add: call_segments_def call_route_def route_of_def is_get_def)
  have plain: "rq_method r \<noteq> ''OPTIONS''" "rq_path r \<noteq> [''healthz'']"
    unfolding meth arr(2) by (cases c; simp add: call_segments_def call_route_def)+
  have "CHR '' '' \<notin> set key" using assms(5) by (auto simp: visible_def list_all_iff)
  then have auth: "requireTenant E r s = Tenant (tn_id t)"
    by (intro key_authenticates [OF assms(1-3)]) (simp add: arr(4) bearer_of_key [OF assms(4)] del: append.simps)
  have run: "handle_request E i r s = with_error_handler (run_route E i r (call_body c) (tn_id t) (call_route c) s)"
    using plain auth route arr(5) by (simp add: handle_request_def)
  have err: "call_result (respond E num txt (st, R_error a b)) = Inl (Api_error (JStr a) (JStr b) st)"
    if "st \<in> {400, 404, 500}" for st a b
    using that by (auto simp: call_result_def respond_def error_of_body_def reply_json_def get_prop_def prop_or_def)
  have "case call_result (respond E num txt (st, rep)) of
       Inr (Some j) \<Rightarrow> j = reply_json E num rep \<and> call_type c j
     | Inl (Api_error code message status) \<Rightarrow>
         (\<exists>a b. rep = R_error a b \<and> code = JStr a \<and> message = JStr b) \<and> status = st \<and> st \<in> {400, 404, 500}
     | _ \<Rightarrow> False"
  proof (cases "fst (run_route E i r (call_body c) (tn_id t) (call_route c) s)")
    case (Inl e)
    then show ?thesis using err [of 500] assms(11) by (auto simp: run with_error_handler_def)
  next
    case (Inr x)
    then have x: "x = (st, rep)" using assms(11) by (simp add: run with_error_handler_def)
    have rr: "route_reply (call_route c) st rep" using run_route_reply Inr x by metis
    then consider a b where "st = 400 \<or> st = 404" "rep = R_error a b" | "st = 200 \<or> st = 201 \<or> st = 202"
      unfolding route_reply_def by blast
    then show ?thesis
    proof cases
      case 1
      then show ?thesis using err [of st a b] by auto
    next
      case 2
      with call_reply_type [OF rr 2] have "call_result (respond E num txt (st, rep)) = Inr (Some (reply_json E num rep))"
        by (auto simp: call_result_def respond_def)
      with call_reply_type [OF rr 2] show ?thesis by simp
    qed
  qed
  with run arr(3,6) show ?thesis by simp
qed

text \<open>An application that reads requests in this way.\<close>

definition demo_express :: "string \<Rightarrow> http_call \<Rightarrow> request" where
  "demo_express baseUrl h = (let target = drop (length baseUrl) (hc_url h) in
     \<lparr>rq_method = hc_method h, rq_path = path_segments (url_path target),
      rq_query = (\<lambda>k. case map_of (query_pairs (url_query target)) k of None \<Rightarrow> Q_undefined | Some v \<Rightarrow> Q_string v),
      rq_header = map_of (hc_headers h), rq_body = (case hc_body h of None \<Rightarrow> Some (JObj []) | Some t \<Rightarrow> json_parse t)\<rparr>)"

lemma demo_express_reads: "express_reads (demo_express baseUrl) baseUrl"
  by (simp add: express_reads_def demo_express_def query_reads_def Let_def split: option.split)

lemma key_visible: "list_all visible (generateSecret rnd ''tenant'')"
proof -
  have "visible (hex_char n)" if "n < 16" for n using that by (auto simp: visible_def hex_char_def)
  moreover have "(of_char c :: nat) div 16 < 16" for c :: char using nat_of_char_less_256 [of c] by linarith
  moreover have "list_all visible ''tenant_''" by (simp add: visible_def)
  ultimately show ?thesis by (auto simp: generateSecret_def hex_of_bytes_def list_all_iff)
qed

theorem console_calls_sound_witness:
  "rq_path (demo_express ''http://api'' (call_request ''http://api'' demo_key (PauseEndpoint ''1''))) = [''endpoints'', ''1'', ''pause''] \<and>
   fst (handle_request demo_env (demo_inputs 1) (demo_express ''http://api'' (call_request ''http://api'' demo_key (PauseEndpoint ''1''))) demo_registered) =
     fst (with_error_handler (run_route demo_env (demo_inputs 1) (demo_express ''http://api'' (call_request ''http://api'' demo_key (PauseEndpoint ''1'')))
       (JObj []) 0 (Pause_endpoint ''1'') demo_registered))"
proof -
  let ?r = "demo_express ''http://api'' (call_request ''http://api'' demo_key (PauseEndpoint ''1''))"
  obtain st rep where reply: "fst (handle_request demo_env (demo_inputs 1) ?r demo_registered) = (st, rep)" by fastforce
  have "wf_db demo_registered"
    using reachable_parts(1) [OF demo_registered_reachable [of demo_cfg]] by simp
  moreover have "demo_key \<noteq> []" by (simp add: demo_key_def generateSecret_def)
  moreover have "list_all visible demo_key" unfolding demo_key_def by (rule key_visible)
  ultimately have "handle_request demo_env (demo_inputs 1) ?r demo_registered = with_error_handler
      (run_route demo_env (demo_inputs 1) ?r (call_body (PauseEndpoint ''1'')) (tn_id demo_tenant) (call_route (PauseEndpoint ''1'')) demo_registered)"
    by (intro console_calls_sound [THEN conjunct1, OF _ _ _ _ _ demo_express_reads _ _ _ refl reply])
       (simp_all add: demo_registered_def demo_db_def demo_tenant_def demo_env_def demo_key_def [symmetric] call_id_def url_plain_def
          form_safe_def is_digit_def call_body_def)
  moreover have "rq_path ?r = [''endpoints'', ''1'', ''pause'']"
    by (simp add: demo_express_def call_request_def api_request_def call_init_def post_init_def Let_def url_path_def path_segments_def)
  ultimately show ?thesis
    by (simp add: call_body_def call_route_def demo_tenant_def)
qed

end
