(* ===== verification/Console_View.thy ===== *)
theory Console_View
  imports Console_Client
begin

text \<open>
  What the console shows: the formatters of \<^verbatim>\<open>frontend/src/lib\<close>, the aggregates of \<^verbatim>\<open>Overview.tsx\<close>, the
  queue table of \<^verbatim>\<open>EndpointDetail.tsx\<close> and the explanations of \<^verbatim>\<open>DeliveryDetail.tsx\<close>.  The fetched objects
  are the typed views the routes reply with.  \<open>date_of\<close> is \<^verbatim>\<open>new Date(s).getTime()\<close> (None: NaN), \<open>now\<close> is
  \<^verbatim>\<open>Date.now()\<close>, \<open>dbl\<close> rounds an exact sum, product or quotient to the double JavaScript computes with.
\<close>

section \<open>lib/format.ts\<close>

text \<open>The em dash, the middle dot and the ellipsis in UTF-8.\<close>

definition em_dash :: string where
  "em_dash = map char_of [226, 128, 148 :: nat]"

definition middle_dot :: string where
  "middle_dot = map char_of [194, 183 :: nat]"

definition js_Math_round :: "rat \<Rightarrow> int" where
  "js_Math_round q = \<lfloor>q + 1 / 2\<rfloor>"

definition magnitudeLabel :: "int \<Rightarrow> string" where
  "magnitudeLabel seconds =
     (if seconds < 60 then show_int seconds @ ''s''
      else let minutes = js_Math_round (of_int seconds / 60) in
        if minutes < 60 then show_int minutes @ ''m''
        else let hours = js_Math_round (of_int minutes / 60) in
          if hours < 24 then show_int hours @ ''h''
          else let days = js_Math_round (of_int hours / 24) in show_int days @ ''d'')"

definition formatRelativeTime :: "(string \<Rightarrow> js_ms option) \<Rightarrow> js_ms \<Rightarrow> string option \<Rightarrow> string" where
  "formatRelativeTime date_of now stamp =
     (case stamp of
        None \<Rightarrow> em_dash
      | Some s \<Rightarrow>
          if s = [] then em_dash
          else case date_of s of
            None \<Rightarrow> ''NaNd ago''
          | Some t \<Rightarrow>
              (let deltaMs = now - t;
                   isFuture = deltaMs < 0;
                   magnitude = magnitudeLabel (js_Math_round (of_int \<bar>deltaMs\<bar> / 1000))
               in if isFuture then ''in '' @ magnitude else magnitude @ '' ago''))"

definition formatPercent :: "(rat \<Rightarrow> rat) \<Rightarrow> rat option \<Rightarrow> string" where
  "formatPercent dbl fraction =
     (case fraction of None \<Rightarrow> em_dash | Some f \<Rightarrow> show_int (js_Math_round (dbl (f * 100))) @ ''%'')"

text \<open>\<^verbatim>\<open>replace("T", " ")\<close> on the first T; the pattern \<^verbatim>\<open>/\.\d+Z$/\<close> at the end.\<close>

fun replace_first :: "char \<Rightarrow> string \<Rightarrow> string \<Rightarrow> string" where
  "replace_first c r [] = []"
| "replace_first c r (x # xs) = (if x = c then r @ xs else x # replace_first c r xs)"

definition fraction_at :: "string \<Rightarrow> bool" where
  "fraction_at s \<longleftrightarrow> (case s of
      [] \<Rightarrow> False
    | c # r \<Rightarrow> c = CHR ''.'' \<and> takeWhile is_digit r \<noteq> [] \<and> dropWhile is_digit r = ''Z'')"

fun strip_fraction :: "string \<Rightarrow> string" where
  "strip_fraction [] = []"
| "strip_fraction (c # cs) = (if fraction_at (c # cs) then ''Z'' else c # strip_fraction cs)"

definition formatDateTime :: "(string \<Rightarrow> js_ms option) \<Rightarrow> string \<Rightarrow> string option" where
  "formatDateTime date_of stamp =
     map_option (\<lambda>t. strip_fraction (replace_first (CHR ''T'') '' '' (toISOString t))) (date_of stamp)"

section \<open>lib/deliveryDisplay.ts and DeliveryDetail.tsx\<close>

datatype tone = Neutral | Accent | Danger

definition deliveryTone :: "delivery_state \<Rightarrow> tone" where
  "deliveryTone state =
     (if state = Failed then Danger
      else if state = In_flight \<or> state = Succeeded then Accent
      else Neutral)"

definition nextAttemptDisplay :: "(string \<Rightarrow> js_ms option) \<Rightarrow> js_ms \<Rightarrow> delivery_state \<Rightarrow> string \<Rightarrow> string" where
  "nextAttemptDisplay date_of now state nextAttemptAt =
     (if state = Pending \<or> state = In_flight then formatRelativeTime date_of now (Some nextAttemptAt) else em_dash)"

definition endpointTone :: "endpoint_status \<Rightarrow> tone" where
  "endpointTone status = (if status = Halted then Danger else if status = Active then Accent else Neutral)"

definition DEFAULT_MAX_ATTEMPTS :: nat where
  "DEFAULT_MAX_ATTEMPTS = 6"

definition attemptsField :: "nat \<Rightarrow> string" where
  "attemptsField attempt_count = show_nat attempt_count @ '' of '' @ show_nat DEFAULT_MAX_ATTEMPTS"

datatype outstanding =
    Attempt_ceiling_endpoint_halted
  | Request_outstanding
  | Blocked_behind_earlier
  | Scheduled_for_next_attempt

definition outstandingReason :: "delivery_state \<Rightarrow> uuid option \<Rightarrow> outstanding option" where
  "outstandingReason state blockedOnDeliveryId =
     (if state = Succeeded then None
      else if state = Failed then Some Attempt_ceiling_endpoint_halted
      else if state = In_flight then Some Request_outstanding
      else if blockedOnDeliveryId \<noteq> None then Some Blocked_behind_earlier
      else Some Scheduled_for_next_attempt)"

section \<open>Overview.tsx\<close>

definition countLabel :: "nat \<Rightarrow> bool \<Rightarrow> string" where
  "countLabel count hasMore = (if hasMore then show_nat count @ ''+'' else show_nat count)"

definition severity :: "endpoint_status \<Rightarrow> nat" where
  "severity status = (case status of Halted \<Rightarrow> 0 | Paused \<Rightarrow> 1 | Active \<Rightarrow> 2)"

definition pendingTotal :: "health_view list \<Rightarrow> nat" where
  "pendingTotal es = fold (\<lambda>e sum. sum + v_queue_depth e) es 0"

definition withSuccessRate :: "health_view list \<Rightarrow> health_view list" where
  "withSuccessRate es = filter (\<lambda>e. v_recent_success_rate e \<noteq> None) es"

definition avgSuccessRate :: "(rat \<Rightarrow> rat) \<Rightarrow> health_view list \<Rightarrow> rat option" where
  "avgSuccessRate dbl es =
     (let withRate = withSuccessRate es
      in if withRate = [] then None
         else Some (dbl (fold (\<lambda>e sum. dbl (sum + the (v_recent_success_rate e))) withRate 0 / of_nat (length withRate))))"

definition haltedCount :: "health_view list \<Rightarrow> nat" where
  "haltedCount es = length (filter (\<lambda>e. v_status e = Halted) es)"

definition pausedCount :: "health_view list \<Rightarrow> nat" where
  "pausedCount es = length (filter (\<lambda>e. v_status e = Paused) es)"

definition needingAttention :: "health_view list \<Rightarrow> health_view list" where
  "needingAttention es =
     sort_key (\<lambda>e. severity (v_status e)) (filter (\<lambda>e. v_status e = Halted \<or> v_status e = Paused) es)"

definition overviewSuccess :: "(rat \<Rightarrow> rat) \<Rightarrow> health_view list \<Rightarrow> string" where
  "overviewSuccess dbl es =
     (case avgSuccessRate dbl es of None \<Rightarrow> em_dash | Some q \<Rightarrow> show_int (js_Math_round (dbl (q * 100))) @ ''%'')"

definition overviewAttention :: "health_view list \<Rightarrow> nat \<times> tone \<times> string option" where
  "overviewAttention es =
     (let n = length (needingAttention es)
      in (n, if 0 < n then Danger else Neutral,
          if 0 < n then Some (show_nat (haltedCount es) @ '' halted '' @ middle_dot @ '' '' @ show_nat (pausedCount es) @ '' paused'')
          else None))"

section \<open>The queue table of EndpointDetail.tsx\<close>

record queue_line =
  qr_number :: string
  qr_id :: uuid
  qr_state :: delivery_state
  qr_tone :: tone
  qr_head :: bool
  qr_highlight :: bool
  qr_blocked_on :: "uuid option"
  qr_next :: string

definition queue_row :: "(string \<Rightarrow> js_ms option) \<Rightarrow> js_ms \<Rightarrow> endpoint_status option \<Rightarrow> nat \<Rightarrow> delivery_summary \<Rightarrow> queue_line" where
  "queue_row date_of now status i d =
     (let isHead = (i = 0);
          highlight = (isHead \<and> status = Some Halted)
      in \<lparr>qr_number = pad_nat 2 (int i + 1), qr_id = s_id d, qr_state = s_state d, qr_tone = deliveryTone (s_state d),
          qr_head = isHead, qr_highlight = highlight, qr_blocked_on = s_blocked_on_delivery_id d,
          qr_next = nextAttemptDisplay date_of now (s_state d) (toISOString (s_next_attempt_at d))\<rparr>)"

definition queue_table :: "(string \<Rightarrow> js_ms option) \<Rightarrow> js_ms \<Rightarrow> endpoint_status option \<Rightarrow> delivery_summary list \<Rightarrow> queue_line list" where
  "queue_table date_of now status ds = map (\<lambda>p. queue_row date_of now status (fst p) (snd p)) (enumerate 0 ds)"

section \<open>Facts\<close>

lemma js_Math_round_div: "0 < k \<Longrightarrow> js_Math_round (of_int s / of_int k) = (2 * s + k) div (2 * k)"
proof -
  assume k: "0 < k"
  then have "of_int s / of_int k + 1 / 2 = (of_int (2 * s + k) / of_int (2 * k) :: rat)" by (simp add: field_simps)
  then show ?thesis by (simp only: js_Math_round_def floor_divide_of_int_eq)
qed

lemma js_Math_round_near:
  assumes "0 < k"
  shows "2 * \<bar>k * js_Math_round (of_int s / of_int k) - s\<bar> \<le> k"
proof -
  define q r where "q = (2 * s + k) div (2 * k)" and "r = (2 * s + k) mod (2 * k)"
  define x where "x = k * q"
  have "2 * s + k = 2 * x + r"
    using div_mult_mod_eq [of "2 * s + k" "2 * k"] by (simp add: q_def r_def x_def algebra_simps)
  moreover have "0 \<le> r" "r < 2 * k" using assms by (simp_all add: r_def)
  ultimately have "2 * \<bar>x - s\<bar> \<le> k" by arith
  then show ?thesis unfolding js_Math_round_div [OF assms] x_def q_def .
qed

text \<open>
  A relative time is labelled with a number of its unit that cannot be confused with the next
  one (below 60 seconds, 1 to 59 minutes, 1 to 23 hours, at least one day), and although it is
  rounded up to three times in a row it is off by at most half a minute in minutes, 30.5 minutes in
  hours and 12 hours 30.5 minutes in days.
\<close>

theorem magnitude_label_accurate:
  assumes "0 \<le> s"
  shows "(s < 60 \<and> magnitudeLabel s = show_int s @ ''s'') \<or>
    (\<exists>n. 1 \<le> n \<and> n < 60 \<and> magnitudeLabel s = show_int n @ ''m'' \<and> \<bar>60 * n - s\<bar> \<le> 30) \<or>
    (\<exists>n. 1 \<le> n \<and> n < 24 \<and> magnitudeLabel s = show_int n @ ''h'' \<and> \<bar>3600 * n - s\<bar> \<le> 1830) \<or>
    (\<exists>n. 1 \<le> n \<and> magnitudeLabel s = show_int n @ ''d'' \<and> \<bar>86400 * n - s\<bar> \<le> 45030)"
proof -
  define m where "m = js_Math_round (of_int s / 60)"
  define h where "h = js_Math_round (of_int m / 60)"
  define d where "d = js_Math_round (of_int h / 24)"
  have near: "2 * \<bar>60 * m - s\<bar> \<le> 60" "2 * \<bar>60 * h - m\<bar> \<le> 60" "2 * \<bar>24 * d - h\<bar> \<le> 24"
    using js_Math_round_near [of 60 s] js_Math_round_near [of 60 m] js_Math_round_near [of 24 h] by (simp_all add: m_def h_def d_def)
  then have b: "60 * m \<le> s + 30" "s \<le> 60 * m + 30" "60 * h \<le> m + 30" "m \<le> 60 * h + 30" "24 * d \<le> h + 12" "h \<le> 24 * d + 12"
    by (simp_all add: abs_le_iff)
  consider "s < 60" | "60 \<le> s" "m < 60" | "60 \<le> s" "60 \<le> m" "h < 24" | "60 \<le> s" "60 \<le> m" "24 \<le> h" by linarith
  then show ?thesis
  proof cases
    case 1
    then show ?thesis by (simp add: magnitudeLabel_def)
  next
    case 2
    then have "magnitudeLabel s = show_int m @ ''m''" by (simp add: magnitudeLabel_def Let_def m_def)
    moreover have "1 \<le> m" "\<bar>60 * m - s\<bar> \<le> 30" using 2 b by (simp_all add: abs_le_iff)
    ultimately show ?thesis using 2 by blast
  next
    case 3
    then have "magnitudeLabel s = show_int h @ ''h''" by (simp add: magnitudeLabel_def Let_def m_def h_def)
    moreover have "1 \<le> h" "\<bar>3600 * h - s\<bar> \<le> 1830" using 3 b by (simp_all add: abs_le_iff)
    ultimately show ?thesis using 3 by blast
  next
    case 4
    then have "magnitudeLabel s = show_int d @ ''d''" by (simp add: magnitudeLabel_def Let_def m_def h_def d_def)
    moreover have "1 \<le> d" "\<bar>86400 * d - s\<bar> \<le> 45030" using 4 b by (simp_all add: abs_le_iff)
    ultimately show ?thesis by blast
  qed
qed

theorem magnitude_label_accurate_witness:
  "(5399 < (60::int) \<and> magnitudeLabel 5399 = show_int 5399 @ ''s'') \<or>
    (\<exists>n. 1 \<le> n \<and> n < 60 \<and> magnitudeLabel 5399 = show_int n @ ''m'' \<and> \<bar>60 * n - 5399\<bar> \<le> 30) \<or>
    (\<exists>n. 1 \<le> n \<and> n < 24 \<and> magnitudeLabel 5399 = show_int n @ ''h'' \<and> \<bar>3600 * n - 5399\<bar> \<le> 1830) \<or>
    (\<exists>n. 1 \<le> n \<and> magnitudeLabel 5399 = show_int n @ ''d'' \<and> \<bar>86400 * n - 5399\<bar> \<le> 45030)"
  by (rule magnitude_label_accurate) simp

subsection \<open>Timestamps\<close>

lemma replace_first_at: "c \<notin> set xs \<Longrightarrow> replace_first c r (xs @ c # ys) = xs @ r @ ys"
  by (induction xs) auto

lemma strip_fraction_at:
  assumes "CHR ''.'' \<notin> set xs" "ds \<noteq> []" "\<forall>c\<in>set ds. is_digit c"
  shows "strip_fraction (xs @ ''.'' @ ds @ ''Z'') = xs @ ''Z''"
  using assms(1)
proof (induction xs)
  case Nil
  have "\<not> is_digit (CHR ''Z'')" by (simp add: is_digit_def)
  then have "takeWhile is_digit (ds @ ''Z'') = ds" "dropWhile is_digit (ds @ ''Z'') = ''Z''"
    using assms(3) by (simp_all add: takeWhile_append dropWhile_append)
  then show ?case using assms(2) by (simp add: fraction_at_def)
next
  case (Cons x xs)
  then show ?case by (auto simp: fraction_at_def)
qed

lemma pad_nat_digits: "c \<in> set (pad_nat w i) \<Longrightarrow> is_digit c"
  using show_nat_digits by (auto simp: pad_nat_def Let_def is_digit_def split: if_splits)

lemma pad_nat_mark: "\<not> is_digit c \<Longrightarrow> c \<notin> set (pad_nat w i)"
  using pad_nat_digits by blast

lemma iso_year_mark: "\<not> is_digit c \<Longrightarrow> c \<noteq> CHR ''+'' \<Longrightarrow> c \<noteq> CHR ''-'' \<Longrightarrow> c \<notin> set (iso_year y)"
  by (auto simp: iso_year_def pad_nat_mark)

text \<open>The console shows a timestamp to the second: the day, a space, the time of day and a Z.\<close>

theorem date_time_shown:
  assumes "date_of stamp = Some t"
  shows "formatDateTime date_of stamp = Some
    (let (y, m, d) = civil_of_days (t div 86400000); r = t mod 86400000
     in iso_year y @ ''-'' @ pad_nat 2 m @ ''-'' @ pad_nat 2 d @ '' '' @ pad_nat 2 (r div 3600000) @
        '':'' @ pad_nat 2 (r div 60000 mod 60) @ '':'' @ pad_nat 2 (r div 1000 mod 60) @ ''Z'')"
proof -
  obtain y m d where c: "civil_of_days (t div 86400000) = (y, m, d)" by (cases "civil_of_days (t div 86400000)")
  define r where "r = t mod 86400000"
  let ?day = "iso_year y @ ''-'' @ pad_nat 2 m @ ''-'' @ pad_nat 2 d"
  let ?time = "pad_nat 2 (r div 3600000) @ '':'' @ pad_nat 2 (r div 60000 mod 60) @ '':'' @ pad_nat 2 (r div 1000 mod 60)"
  have iso: "toISOString t = ?day @ CHR ''T'' # (?time @ ''.'' @ pad_nat 3 (r mod 1000) @ ''Z'')"
    by (simp add: toISOString_def c r_def Let_def)
  have mark: "\<not> is_digit (CHR ''T'')" "\<not> is_digit (CHR ''.'')" by (simp_all add: is_digit_def)
  have "replace_first (CHR ''T'') '' '' (toISOString t) = ?day @ '' '' @ ?time @ ''.'' @ pad_nat 3 (r mod 1000) @ ''Z''"
    unfolding iso by (rule replace_first_at) (simp add: pad_nat_mark iso_year_mark mark)
  also have "\<dots> = (?day @ '' '' @ ?time) @ ''.'' @ pad_nat 3 (r mod 1000) @ ''Z''" by simp
  finally have shown: "replace_first (CHR ''T'') '' '' (toISOString t) = (?day @ '' '' @ ?time) @ ''.'' @ pad_nat 3 (r mod 1000) @ ''Z''" .
  have "CHR ''.'' \<notin> set (?day @ '' '' @ ?time)" by (simp add: pad_nat_mark iso_year_mark mark)
  moreover have "pad_nat 3 (r mod 1000) \<noteq> []" by (simp add: pad_nat_def Let_def)
  moreover have "\<forall>c\<in>set (pad_nat 3 (r mod 1000)). is_digit c" using pad_nat_digits by blast
  ultimately have "strip_fraction (replace_first (CHR ''T'') '' '' (toISOString t)) = (?day @ '' '' @ ?time) @ ''Z''"
    unfolding shown by (rule strip_fraction_at)
  then show ?thesis using assms by (simp add: formatDateTime_def c r_def Let_def)
qed

subsection \<open>The overview\<close>

lemma insort_severity:
  assumes "\<forall>y\<in>set hs. severity (v_status y) = 0" "\<forall>y\<in>set ps. severity (v_status y) = 1"
  shows "insort_key (\<lambda>e. severity (v_status e)) x (hs @ ps) =
    (if severity (v_status x) = 0 then x # hs @ ps else if severity (v_status x) = 1 then hs @ x # ps
     else hs @ ps @ [x])"
  using assms
proof (induction hs)
  case Nil
  then show ?case
  proof (induction ps)
    case (Cons p ps)
    then show ?case by (cases "v_status x") (simp_all add: severity_def)
  qed simp
next
  case (Cons h hs)
  then show ?case by auto
qed

text \<open>
  The overview agrees with the list it was given: the endpoints needing attention are the halted
  ones followed by the paused ones, each group in the order of the list, their number is the sum of
  the two counts of the caption, and the pending deliveries are the sum of the queue depths.
\<close>

theorem overview_faithful:
  "needingAttention es = filter (\<lambda>e. v_status e = Halted) es @ filter (\<lambda>e. v_status e = Paused) es \<and>
   fst (overviewAttention es) = haltedCount es + pausedCount es \<and> pendingTotal es = (\<Sum>e\<leftarrow>es. v_queue_depth e)"
proof -
  have att: "needingAttention es = filter (\<lambda>e. v_status e = Halted) es @ filter (\<lambda>e. v_status e = Paused) es"
    unfolding needingAttention_def
  proof (induction es)
    case (Cons e es)
    have "insort_key (\<lambda>e. severity (v_status e)) e (filter (\<lambda>e. v_status e = Halted) es @ filter (\<lambda>e. v_status e = Paused) es) =
      (if severity (v_status e) = 0 then e # filter (\<lambda>e. v_status e = Halted) es @ filter (\<lambda>e. v_status e = Paused) es
       else if severity (v_status e) = 1 then filter (\<lambda>e. v_status e = Halted) es @ e # filter (\<lambda>e. v_status e = Paused) es
       else filter (\<lambda>e. v_status e = Halted) es @ filter (\<lambda>e. v_status e = Paused) es @ [e])"
      by (rule insort_severity) (simp_all add: severity_def)
    with Cons show ?case by (cases "v_status e") (simp_all add: severity_def)
  qed simp
  have "fold (\<lambda>e sum. sum + v_queue_depth e) es n = n + (\<Sum>e\<leftarrow>es. v_queue_depth e)" for n
    by (induction es arbitrary: n) simp_all
  with att show ?thesis by (simp add: overviewAttention_def haltedCount_def pausedCount_def pendingTotal_def Let_def)
qed

lemma fold_rates:
  fixes dbl :: "rat \<Rightarrow> rat"
  assumes "mono dbl" "\<And>n. n \<le> 2 ^ 53 \<Longrightarrow> dbl (of_nat n) = of_nat n" "k + length es \<le> 2 ^ 53"
    and "\<forall>e\<in>set es. 0 \<le> the (v_recent_success_rate e) \<and> the (v_recent_success_rate e) \<le> 1" "0 \<le> a" "a \<le> of_nat k"
  shows "0 \<le> fold (\<lambda>e sum. dbl (sum + the (v_recent_success_rate e))) es a \<and>
    fold (\<lambda>e sum. dbl (sum + the (v_recent_success_rate e))) es a \<le> of_nat (k + length es)"
  using assms(3-6)
proof (induction es arbitrary: a k)
  case (Cons e es)
  let ?a = "dbl (a + the (v_recent_success_rate e))"
  have r: "0 \<le> the (v_recent_success_rate e)" "the (v_recent_success_rate e) \<le> 1" using Cons.prems(2) by simp_all
  have "dbl 0 \<le> ?a" using r Cons.prems(3) by (intro monoD [OF assms(1)]) simp
  then have "0 \<le> ?a" using assms(2) [of 0] by simp
  moreover have "?a \<le> dbl (of_nat (Suc k))" using r Cons.prems(4) by (intro monoD [OF assms(1)]) simp
  then have "?a \<le> of_nat (Suc k)" using assms(2) [of "Suc k"] Cons.prems(1) by simp
  ultimately show ?case using Cons.IH [of "Suc k" ?a] Cons.prems(1,2) by simp
qed simp

text \<open>
  The success rate shown is a percentage between 0% and 100%, or a dash when no endpoint reports one,
  however the machine rounds (monotonically, and integers up to 2^53 exactly).
\<close>

theorem overview_percentage:
  fixes dbl :: "rat \<Rightarrow> rat"
  assumes "mono dbl" "\<And>n. n \<le> 2 ^ 53 \<Longrightarrow> dbl (of_nat n) = of_nat n" "length es \<le> 100"
    and "\<forall>e\<in>set es. \<forall>q. v_recent_success_rate e = Some q \<longrightarrow> 0 \<le> q \<and> q \<le> 1"
  shows "overviewSuccess dbl es = em_dash \<or> (\<exists>p. 0 \<le> p \<and> p \<le> 100 \<and> overviewSuccess dbl es = show_int p @ ''%'')"
proof (cases "withSuccessRate es = []")
  case True
  then show ?thesis by (simp add: overviewSuccess_def avgSuccessRate_def)
next
  case False
  let ?ws = "withSuccessRate es"
  define total where "total = fold (\<lambda>e sum. dbl (sum + the (v_recent_success_rate e))) ?ws 0"
  have len: "length ?ws \<le> 100" using assms(3) length_filter_le [of _ es] unfolding withSuccessRate_def by (rule order_trans [rotated])
  have "0 \<le> total \<and> total \<le> of_nat (0 + length ?ws)"
    unfolding total_def by (rule fold_rates [OF assms(1,2)]) (use len assms(4) in \<open>auto simp: withSuccessRate_def\<close>)
  then have t: "0 \<le> total / of_nat (length ?ws)" "total / of_nat (length ?ws) \<le> 1"
    using False by (simp_all add: divide_le_eq)
  define q where "q = dbl (total / of_nat (length ?ws))"
  have int: "dbl 0 = 0" "dbl 1 = 1" "dbl 100 = 100" using assms(2) [of 0] assms(2) [of 1] assms(2) [of 100] by simp_all
  have "0 \<le> q" "q \<le> 1" using monoD [OF assms(1) t(1)] monoD [OF assms(1) t(2)] int by (simp_all add: q_def)
  then have "0 \<le> dbl (q * 100)" "dbl (q * 100) \<le> 100"
    using monoD [OF assms(1), of 0 "q * 100"] monoD [OF assms(1), of "q * 100" 100] int by simp_all
  then have "0 \<le> js_Math_round (dbl (q * 100))" "js_Math_round (dbl (q * 100)) \<le> 100"
    by (simp_all add: js_Math_round_def floor_le_iff le_floor_iff)
  moreover have "overviewSuccess dbl es = show_int (js_Math_round (dbl (q * 100))) @ ''%''"
    using False by (simp add: overviewSuccess_def avgSuccessRate_def Let_def q_def total_def)
  ultimately show ?thesis by blast
qed

subsection \<open>The queue table\<close>

text \<open>
  What the row labelled "head of queue" really is: the page starts with the oldest delivery of the
  endpoint whatever its state, so the labelled row is the endpoint's head exactly when that delivery
  is unresolved. Once it has succeeded or failed the label, and the highlight of a halted endpoint,
  stand on a delivery that left the queue.
\<close>

theorem queue_head_label:
  assumes "wf_db s" "uuid_in E raw = Some eid" "owned_endpoint tid eid s = Some e" "0 < parseLimit limit_q 20 100"
    and "deliveries_of eid s = d # rest"
  shows "\<exists>ds c r rs. get_endpoint_deliveries E tid raw limit_q Q_undefined s = (Inr (200, R_queue ds c), s) \<and>
    queue_table date_of now status ds = r # rs \<and> qr_id r = d_id d \<and> qr_state r = d_state d \<and> qr_head r \<and>
    (\<forall>x\<in>set rs. \<not> qr_head x \<and> \<not> qr_highlight x) \<and> (qr_highlight r \<longleftrightarrow> status = Some Halted) \<and>
    (head_delivery_id s d = Some (qr_id r) \<longleftrightarrow> unresolved d)"
proof -
  let ?lim = "parseLimit limit_q 20 100" and ?g = "\<lambda>d. serializeDeliverySummary d (head_delivery_id s d)"
  have seqs: "sorted_wrt (<) (map d_seq (deliveries s))" and ids: "distinct (map d_id (deliveries s))"
    using assms(1) by (auto simp: wf_db_def seqs_ok_def keys_ok_def)
  have "queue_rows eid None s = deliveries_of eid s"
    using strict_sorted_sort_key [OF seqs] by (simp add: queue_rows_def deliveries_of_def)
  then have rows: "queue_rows eid None s = d # rest" unfolding assms(5) .
  obtain k where k: "?lim = Suc k" using assms(4) by (cases ?lim) auto
  have pg: "fst (paginate ?lim (d # take ?lim rest)) = d # take k rest"
  proof -
    have "fst (paginate ?lim (take (?lim + 1) (d # rest))) = take ?lim (d # rest)" by (simp only: paginate_fetch fst_conv)
    then show ?thesis by (simp add: k)
  qed
  have reply: "get_endpoint_deliveries E tid raw limit_q Q_undefined s =
      (Inr (200, R_queue (?g d # map ?g (take k rest)) (map_option (\<lambda>d. encodeSeqCursor (d_seq d))
         (snd (paginate ?lim (take (?lim + 1) (d # rest)))))), s)"
    using assms(2,3) rows by (simp add: get_endpoint_deliveries_def with_uuid_def cursor_param_def after_bound_def Let_def
        case_prod_beta pg)
  have table: "queue_table date_of now status (?g d # map ?g (take k rest)) =
      queue_row date_of now status 0 (?g d) #
      map (\<lambda>p. queue_row date_of now status (fst p) (snd p)) (enumerate 1 (map ?g (take k rest)))"
    by (simp add: queue_table_def)
  have tail: "\<not> qr_head x \<and> \<not> qr_highlight x"
    if "x \<in> set (map (\<lambda>p. queue_row date_of now status (fst p) (snd p)) (enumerate 1 ys))" for x and ys :: "delivery_summary list"
    using that by (auto simp: queue_row_def Let_def in_set_enumerate_eq)
  have eid: "d_endpoint_id d = eid"
    using arg_cong [OF assms(5), of set] by (auto simp: deliveries_of_def)
  have flt: "filter (\<lambda>h. d_endpoint_id h = eid \<and> unresolved h) (deliveries s) = filter unresolved (d # rest)"
    unfolding assms(5) [symmetric] deliveries_of_def by (simp add: conj_commute)
  have head: "head_delivery_id s d = map_option d_id (head_option (filter unresolved (d # rest)))"
    unfolding head_delivery_id_def eid by (subst strict_sorted_sort_key [OF seqs]) (simp only: flt)
  have "head_delivery_id s d = Some (d_id d) \<longleftrightarrow> unresolved d"
  proof (cases "unresolved d")
    case True
    then show ?thesis by (simp add: head head_option_def)
  next
    case False
    have "distinct (map d_id (deliveries_of eid s))" unfolding deliveries_of_def by (rule distinct_map_filter [OF ids])
    then have "d_id x \<noteq> d_id d" if "x \<in> set rest" for x using that unfolding assms(5) by (force simp: image_iff)
    then show ?thesis using False by (auto simp: head head_option_def split: list.split dest: filter_eq_ConsD)
  qed
  then show ?thesis
    using reply table tail by (fastforce simp: queue_row_def serializeDeliverySummary_def Let_def)
qed

theorem queue_head_label_witness:
  "\<exists>ds c r rs. get_endpoint_deliveries demo_env 0 ''1'' (Q_undefined) Q_undefined demo_expanded = (Inr (200, R_queue ds c), demo_expanded) \<and>
    queue_table (\<lambda>_. None) 0 (Some Halted) ds = r # rs \<and> qr_id r = 3 \<and> qr_state r = Pending \<and> qr_head r \<and>
    (\<forall>x\<in>set rs. \<not> qr_head x \<and> \<not> qr_highlight x) \<and> (qr_highlight r \<longleftrightarrow> Some Halted = Some Halted) \<and>
    (head_delivery_id demo_expanded (demo_delivery Pending 0) = Some (qr_id r) \<longleftrightarrow> unresolved (demo_delivery Pending 0))"
proof -
  have wf: "wf_db demo_expanded"
    by (simp add: demo_expanded_def demo_db_def demo_tenant_def demo_endpoint_def demo_event_def demo_delivery_def wf_db_def
        wf_defs drawn_ids_def lease_cols_def lessThan_Suc numeral_eq_Suc)
  have q: "uuid_in demo_env ''1'' = Some 1" by (simp add: demo_env_def nat_of_digits_def digit_val_def)
  have o: "owned_endpoint 0 1 demo_expanded = Some demo_endpoint"
    by (simp add: owned_endpoint_def demo_expanded_def demo_db_def demo_endpoint_def)
  have l: "0 < parseLimit Q_undefined 20 100" by (simp add: parseLimit_def number_of_query_def)
  have d: "deliveries_of 1 demo_expanded = demo_delivery Pending 0 # []"
    by (simp add: deliveries_of_def demo_expanded_def demo_db_def demo_delivery_def)
  show ?thesis
    using queue_head_label [OF wf q o l d, of "\<lambda>_. None" 0 "Some Halted"] by (simp add: demo_delivery_def)
qed

end
