(* ===== verification/Console_Session.thy ===== *)
theory Console_Session
  imports Console_View
begin

text \<open>
  What the console keeps: the signed-in key and the backend (\<^verbatim>\<open>lib/auth.tsx\<close>, \<^verbatim>\<open>lib/backend.tsx\<close>) mirrored in
  \<^verbatim>\<open>localStorage\<close>, the client made from them (\<^verbatim>\<open>api/useApiClient.ts\<close>), the routes (\<^verbatim>\<open>App.tsx\<close>), and the
  state of the endpoint actions (\<^verbatim>\<open>useEndpointActions.ts\<close>, \<^verbatim>\<open>useReplayAction.ts\<close>).  React and TanStack Query
  are not modelled: a state update is a function on the component's state, and the callbacks the
  source registers run when the environment says so.
\<close>

section \<open>Sign-in and backend\<close>

datatype backend_id = Node_backend | Go_backend

record backend_option =
  bo_id :: backend_id
  bo_label :: string
  bo_baseUrl :: string

definition BACKENDS :: "env \<Rightarrow> backend_option list" where
  "BACKENDS env =
     [\<lparr>bo_id = Node_backend, bo_label = ''Node / TS'',
        bo_baseUrl = (case env ''VITE_NODE_API_URL'' of None \<Rightarrow> ''http://localhost:3000'' | Some u \<Rightarrow> u)\<rparr>,
      \<lparr>bo_id = Go_backend, bo_label = ''Go'',
        bo_baseUrl = (case env ''VITE_GO_API_URL'' of None \<Rightarrow> ''http://localhost:8090'' | Some u \<Rightarrow> u)\<rparr>]"

definition backend_text :: "backend_id \<Rightarrow> string" where
  "backend_text b = (case b of Node_backend \<Rightarrow> ''node'' | Go_backend \<Rightarrow> ''go'')"

definition auth_storage_key :: string where
  "auth_storage_key = ''gauntlet-relay:api-key''"

definition backend_storage_key :: string where
  "backend_storage_key = ''gauntlet-relay:backend''"

record console =
  cs_storage :: "string \<rightharpoonup> string"
  cs_apiKey :: "string option"
  cs_backendId :: backend_id

definition loadInitialBackendId :: "(string \<rightharpoonup> string) \<Rightarrow> backend_id" where
  "loadInitialBackendId storage = (if storage backend_storage_key = Some ''go'' then Go_backend else Node_backend)"

text \<open>Opening or reloading the page: the initial states of the two providers.\<close>

definition load_console :: "(string \<rightharpoonup> string) \<Rightarrow> console" where
  "load_console storage =
     \<lparr>cs_storage = storage, cs_apiKey = storage auth_storage_key, cs_backendId = loadInitialBackendId storage\<rparr>"

definition signIn :: "string \<Rightarrow> console \<Rightarrow> console" where
  "signIn key c = c\<lparr>cs_storage := (cs_storage c)(auth_storage_key \<mapsto> key), cs_apiKey := Some key\<rparr>"

definition signOut :: "console \<Rightarrow> console" where
  "signOut c = c\<lparr>cs_storage := (cs_storage c)(auth_storage_key := None), cs_apiKey := None\<rparr>"

definition setBackendId :: "backend_id \<Rightarrow> console \<Rightarrow> console" where
  "setBackendId b c = c\<lparr>cs_storage := (cs_storage c)(backend_storage_key \<mapsto> backend_text b), cs_backendId := b\<rparr>"

definition current_backend :: "env \<Rightarrow> console \<Rightarrow> backend_option" where
  "current_backend env c =
     (case find (\<lambda>b. bo_id b = cs_backendId c) (BACKENDS env) of Some b \<Rightarrow> b | None \<Rightarrow> hd (BACKENDS env))"

text \<open>The sign-in form; the shell shows it instead of the pages while there is no key.\<close>

definition submit_sign_in :: "string \<Rightarrow> console \<Rightarrow> console" where
  "submit_sign_in input c = (let trimmed = js_trim input in if trimmed \<noteq> [] then signIn trimmed c else c)"

definition shows_sign_in :: "console \<Rightarrow> bool" where
  "shows_sign_in c \<longleftrightarrow> (case cs_apiKey c of None \<Rightarrow> True | Some k \<Rightarrow> k = [])"

text \<open>The client: None without a key, else the base URL and key every request is made with.\<close>

definition useApiClient :: "env \<Rightarrow> console \<Rightarrow> (string \<times> string) option" where
  "useApiClient env c =
     (case cs_apiKey c of
        None \<Rightarrow> None
      | Some k \<Rightarrow> if k = [] then None else Some (bo_baseUrl (current_backend env c), k))"

inductive console_step :: "console \<Rightarrow> console \<Rightarrow> bool" where
  cs_sign_in: "console_step c (submit_sign_in input c)"
| cs_sign_out: "console_step c (signOut c)"
| cs_backend: "console_step c (setBackendId b c)"
| cs_reload: "console_step c (load_console (cs_storage c))"

inductive console_run :: "(string \<rightharpoonup> string) \<Rightarrow> console \<Rightarrow> bool" for storage where
  run_open: "console_run storage (load_console storage)"
| run_step: "console_run storage c \<Longrightarrow> console_step c c' \<Longrightarrow> console_run storage c'"

definition mirrored :: "console \<Rightarrow> bool" where
  "mirrored c \<longleftrightarrow> load_console (cs_storage c) = c"

lemma storage_keys_distinct [simp]: "auth_storage_key \<noteq> backend_storage_key" "backend_storage_key \<noteq> auth_storage_key"
  by (simp_all add: auth_storage_key_def backend_storage_key_def)

lemma mirrored_steps:
  assumes "mirrored c"
  shows "mirrored (signIn key c)" "mirrored (signOut c)" "mirrored (setBackendId b c)"
  using assms by (auto simp: mirrored_def load_console_def signIn_def signOut_def setBackendId_def loadInitialBackendId_def
      backend_text_def split: backend_id.split intro!: console.equality dest: arg_cong [where f = cs_backendId] arg_cong [where f = cs_apiKey])

text \<open>
  Whatever the storage held when the console was opened, after any signing in and out, switching
  and reloading a reload changes nothing: key and backend are what the storage says. And a client,
  when there is one, sends every call to the selected backend with a key that is not empty in its
  authorization header.
\<close>

theorem session_survives_reload:
  assumes "console_run storage c"
  shows "load_console (cs_storage c) = c \<and>
    (shows_sign_in c \<longleftrightarrow> useApiClient env c = None) \<and>
    (\<forall>base key call. useApiClient env c = Some (base, key) \<longrightarrow>
       key \<noteq> [] \<and> cs_apiKey c = Some key \<and> (\<exists>b\<in>set (BACKENDS env). bo_id b = cs_backendId c \<and> bo_baseUrl b = base) \<and>
       (\<exists>path. hc_url (call_request base key call) = base @ path) \<and>
       map_of (hc_headers (call_request base key call)) ''authorization'' = Some (''Bearer '' @ key))"
proof -
  have "mirrored c" using assms
  proof induction
    case run_open
    then show ?case by (simp add: mirrored_def load_console_def)
  next
    case (run_step c c')
    from run_step(2) show ?case
    proof (cases rule: console_step.cases)
      case (cs_sign_in input)
      then show ?thesis using mirrored_steps(1) [OF run_step(3)] run_step(3) by (simp add: submit_sign_in_def Let_def)
    next
      case cs_reload
      then show ?thesis using run_step(3) by (simp add: mirrored_def)
    qed (use mirrored_steps(2,3) [OF run_step(3)] in simp_all)
  qed
  moreover have "\<exists>b\<in>set (BACKENDS env). bo_id b = cs_backendId c \<and> bo_baseUrl b = bo_baseUrl (current_backend env c)"
    by (cases "cs_backendId c") (simp_all add: current_backend_def BACKENDS_def)
  moreover have "\<exists>path. hc_url (call_request base key call) = base @ path" for base key call
    by (simp add: call_request_def api_request_def Let_def)
  ultimately show ?thesis
    by (auto simp: mirrored_def shows_sign_in_def useApiClient_def call_authorization split: option.splits if_splits)
qed

theorem session_survives_reload_witness:
  "load_console (cs_storage (submit_sign_in '' tenant_1 '' (load_console (\<lambda>_. None)))) = submit_sign_in '' tenant_1 '' (load_console (\<lambda>_. None)) \<and>
    (shows_sign_in (submit_sign_in '' tenant_1 '' (load_console (\<lambda>_. None))) \<longleftrightarrow>
       useApiClient (\<lambda>_. None) (submit_sign_in '' tenant_1 '' (load_console (\<lambda>_. None))) = None)"
proof -
  have "console_run (\<lambda>_. None) (submit_sign_in '' tenant_1 '' (load_console (\<lambda>_. None)))" by (rule run_step [OF run_open cs_sign_in])
  from session_survives_reload [OF this, of "\<lambda>_. None"] show ?thesis by blast
qed

section \<open>Routes\<close>

datatype page =
    Landing_page
  | Overview_page
  | Endpoints_page
  | Endpoint_page string
  | Events_page
  | Event_page string
  | Delivery_page string
  | Not_found_page

datatype routed = Show page | Redirect "string list"

text \<open>The segments of the path.\<close>

fun app_route :: "string list \<Rightarrow> routed" where
  "app_route [] = Show Landing_page"
| "app_route (seg # path) =
     (if seg \<noteq> ''console'' then Redirect []
      else case path of
        [] \<Rightarrow> Redirect [''console'', ''overview'']
      | [w] \<Rightarrow>
          if w = ''overview'' then Show Overview_page
          else if w = ''endpoints'' then Show Endpoints_page
          else if w = ''events'' then Show Events_page
          else Show Not_found_page
      | [w, i] \<Rightarrow>
          if w = ''endpoints'' then Show (Endpoint_page i)
          else if w = ''events'' then Show (Event_page i)
          else if w = ''deliveries'' then Show (Delivery_page i)
          else Show Not_found_page
      | _ \<Rightarrow> Show Not_found_page)"

text \<open>A redirect leads to a page at once.\<close>

lemma redirect_lands: "app_route path = Redirect q \<Longrightarrow> \<exists>p. app_route q = Show p"
  by (cases path rule: app_route.cases) (auto split: list.splits if_splits)

section \<open>Forms\<close>

definition parse_event_types :: "string \<Rightarrow> string list" where
  "parse_event_types eventTypes = filter (\<lambda>t. t \<noteq> []) (map js_trim (js_split (CHR '','') eventTypes))"

definition register_input :: "string \<Rightarrow> string \<Rightarrow> string \<times> string list" where
  "register_input url eventTypes = (js_trim url, parse_event_types eventTypes)"

text \<open>None: \<^verbatim>\<open>toISOString\<close> of an invalid date throws.\<close>

definition replay_range :: "(string \<Rightarrow> js_ms option) \<Rightarrow> string \<Rightarrow> string \<Rightarrow> (string \<times> string) option" where
  "replay_range date_of rangeStart rangeEnd =
     (case (date_of rangeStart, date_of rangeEnd) of
        (Some a, Some b) \<Rightarrow> Some (toISOString a, toISOString b)
      | _ \<Rightarrow> None)"

text \<open>The filter of the events page: the type field and the endpoint of the address bar.\<close>

definition events_search :: "string \<Rightarrow> string option \<Rightarrow> search_params" where
  "events_search type endpointId =
     \<lparr>pp_limit = Some 50, pp_cursor = None, sp_id = None, sp_type = (if type = [] then None else Some type),
      sp_endpoint_id = endpointId, sp_from = None, sp_to = None\<rparr>"

text \<open>The form reads back every list of event types that were written with commas and spaces between them.\<close>

theorem event_types_read_back:
  assumes "\<forall>t\<in>set types. t \<noteq> [] \<and> js_trim t = t \<and> CHR '','' \<notin> set t" and pad: "\<forall>c\<in>set pad. js_white c"
  shows "parse_event_types (js_join '','' (map (\<lambda>t. pad @ t) types)) = types"
proof (cases "types = []")
  case True
  then show ?thesis by (simp add: parse_event_types_def js_trim_def)
next
  case False
  have comma: "CHR '','' \<notin> set pad" using pad by (auto simp: js_white_def)
  have drop: "dropWhile js_white (pad @ xs) = dropWhile js_white xs" for xs using pad by (induction pad) auto
  have trim: "js_trim (pad @ t) = js_trim t" for t by (simp add: js_trim_def drop)
  have "js_split (CHR '','') (js_join [CHR '',''] (map (\<lambda>t. pad @ t) types)) = map (\<lambda>t. pad @ t) types"
    by (rule js_split_join) (use False assms comma in auto)
  then have "parse_event_types (js_join '','' (map (\<lambda>t. pad @ t) types)) = filter (\<lambda>t. t \<noteq> []) (map js_trim types)"
    by (simp add: parse_event_types_def trim o_def)
  also have "map js_trim types = types" using assms by (simp add: map_idI)
  finally show ?thesis using assms by (simp add: filter_id_conv)
qed

section \<open>Endpoint actions\<close>

record revealed_secret =
  rs_url :: string
  rs_secret :: string
  rs_overlapExpiresAt :: "string option"

record endpoint_ref =
  er_id :: string
  er_url :: string

text \<open>The state of the hook and of the registration dialog; \<open>ac_invalidated\<close> logs the invalidated queries.\<close>

record action_state =
  ac_revealed :: "revealed_secret option"
  ac_disclosure :: "json option"
  ac_error :: "string option"
  ac_showRegister :: bool
  ac_invalidated :: "string list list"

text \<open>A failure carries the message of an Error, or none.\<close>

datatype action_event =
    Paused_ok
  | Resumed_ok json
  | Rotated_ok endpoint_ref string string
  | Registered_ok string string
  | Action_failed "string option"
  | Register_opened
  | Register_closed
  | Secret_closed
  | Disclosure_closed
  | Error_dismissed

definition invalidate :: "string list list \<Rightarrow> action_state \<Rightarrow> action_state" where
  "invalidate queryKeys st = st\<lparr>ac_invalidated := ac_invalidated st @ queryKeys\<rparr>"

definition onActionError :: "string option \<Rightarrow> action_state \<Rightarrow> action_state" where
  "onActionError err st = st\<lparr>ac_error := Some (case err of Some message \<Rightarrow> message | None \<Rightarrow> ''Action failed'')\<rparr>"

definition rotate_onSuccess :: "string list list \<Rightarrow> endpoint_ref \<Rightarrow> string \<Rightarrow> string \<Rightarrow> action_state \<Rightarrow> action_state" where
  "rotate_onSuccess queryKeys vars signing_secret overlap_expires_at st =
     invalidate queryKeys (st\<lparr>ac_revealed :=
       Some \<lparr>rs_url = er_url vars, rs_secret = signing_secret, rs_overlapExpiresAt = Some overlap_expires_at\<rparr>\<rparr>)"

definition resume_onSuccess :: "string list list \<Rightarrow> json \<Rightarrow> action_state \<Rightarrow> action_state" where
  "resume_onSuccess queryKeys result st = invalidate queryKeys (st\<lparr>ac_disclosure := Some result\<rparr>)"

definition register_onSuccess :: "string list list \<Rightarrow> string \<Rightarrow> string \<Rightarrow> action_state \<Rightarrow> action_state" where
  "register_onSuccess queryKeys url signing_secret st =
     invalidate queryKeys (st\<lparr>ac_showRegister := False,
       ac_revealed := Some \<lparr>rs_url = url, rs_secret = signing_secret, rs_overlapExpiresAt = None\<rparr>\<rparr>)"

fun action_step :: "string list list \<Rightarrow> action_event \<Rightarrow> action_state \<Rightarrow> action_state" where
  "action_step keys Paused_ok st = invalidate keys st"
| "action_step keys (Resumed_ok result) st = resume_onSuccess keys result st"
| "action_step keys (Rotated_ok vars secret overlap) st = rotate_onSuccess keys vars secret overlap st"
| "action_step keys (Registered_ok url secret) st = register_onSuccess keys url secret st"
| "action_step keys (Action_failed err) st = onActionError err st"
| "action_step keys Register_opened st = st\<lparr>ac_showRegister := True\<rparr>"
| "action_step keys Register_closed st = st\<lparr>ac_showRegister := False\<rparr>"
| "action_step keys Secret_closed st = st\<lparr>ac_revealed := None\<rparr>"
| "action_step keys Disclosure_closed st = st\<lparr>ac_disclosure := None\<rparr>"
| "action_step keys Error_dismissed st = st\<lparr>ac_error := None\<rparr>"

definition action_start :: action_state where
  "action_start = \<lparr>ac_revealed = None, ac_disclosure = None, ac_error = None, ac_showRegister = False, ac_invalidated = []\<rparr>"

text \<open>The abstract view: the last event that revealed a secret or closed the dialog decides.\<close>

definition reveals :: "action_event \<Rightarrow> revealed_secret option" where
  "reveals ev =
     (case ev of
        Rotated_ok vars secret overlap \<Rightarrow> Some \<lparr>rs_url = er_url vars, rs_secret = secret, rs_overlapExpiresAt = Some overlap\<rparr>
      | Registered_ok url secret \<Rightarrow> Some \<lparr>rs_url = url, rs_secret = secret, rs_overlapExpiresAt = None\<rparr>
      | _ \<Rightarrow> None)"

definition shown_secret :: "action_event list \<Rightarrow> revealed_secret option" where
  "shown_secret evs = (case find (\<lambda>ev. reveals ev \<noteq> None \<or> ev = Secret_closed) (rev evs) of None \<Rightarrow> None | Some ev \<Rightarrow> reveals ev)"

definition succeeds :: "action_event \<Rightarrow> bool" where
  "succeeds ev \<longleftrightarrow> (case ev of Paused_ok \<Rightarrow> True | Resumed_ok _ \<Rightarrow> True | Rotated_ok _ _ _ \<Rightarrow> True | Registered_ok _ _ \<Rightarrow> True | _ \<Rightarrow> False)"

text \<open>
  After any sequence of actions, failures and dismissals the secret on the screen is the one of the
  last rotation or registration that was not closed since, under the URL of the endpoint that very
  call was made for, and every successful action has invalidated all queries of its page once.
\<close>

theorem revealed_secret_labelled:
  "ac_revealed (fold (action_step keys) evs action_start) = shown_secret evs \<and>
   ac_invalidated (fold (action_step keys) evs action_start) = concat (map (\<lambda>_. keys) (filter succeeds evs))"
proof (induction evs rule: rev_induct)
  case Nil
  then show ?case by (simp add: action_start_def shown_secret_def)
next
  case (snoc ev evs)
  then show ?case
    by (cases ev) (simp_all add: shown_secret_def reveals_def succeeds_def invalidate_def onActionError_def rotate_onSuccess_def
        resume_onSuccess_def register_onSuccess_def)
qed

section \<open>Busy buttons\<close>

record 'v mutation =
  mu_isPending :: bool
  mu_variables :: "'v option"

text \<open>\<^verbatim>\<open>m.isPending && id\<close>, and the chain of \<^verbatim>\<open>||\<close> that takes the first truthy value.\<close>

definition pending_id :: "('v \<Rightarrow> string) \<Rightarrow> 'v mutation \<Rightarrow> string option" where
  "pending_id f m =
     (if mu_isPending m then (case mu_variables m of None \<Rightarrow> None | Some v \<Rightarrow> if f v = [] then None else Some (f v)) else None)"

definition first_truthy :: "string option list \<Rightarrow> string option" where
  "first_truthy vs = (case filter (\<lambda>v. v \<noteq> None) vs of [] \<Rightarrow> None | v # _ \<Rightarrow> v)"

definition busyEndpointId :: "string mutation \<Rightarrow> string mutation \<Rightarrow> endpoint_ref mutation \<Rightarrow> string option" where
  "busyEndpointId pauseMutation resumeMutation rotateMutation =
     first_truthy [pending_id id pauseMutation, pending_id id resumeMutation, pending_id er_id rotateMutation]"

definition row_busy :: "string mutation \<Rightarrow> string mutation \<Rightarrow> endpoint_ref mutation \<Rightarrow> endpoint_ref mutation \<Rightarrow> string \<Rightarrow> bool" where
  "row_busy pauseMutation resumeMutation rotateMutation replayMutation i \<longleftrightarrow>
     busyEndpointId pauseMutation resumeMutation rotateMutation = Some i \<or>
     (mu_isPending replayMutation \<and> map_option er_id (mu_variables replayMutation) = Some i)"

definition detail_busy :: "string mutation \<Rightarrow> string mutation \<Rightarrow> endpoint_ref mutation \<Rightarrow> endpoint_ref mutation \<Rightarrow> bool" where
  "detail_busy pauseMutation resumeMutation rotateMutation replayMutation \<longleftrightarrow>
     mu_isPending pauseMutation \<or> mu_isPending resumeMutation \<or> mu_isPending rotateMutation \<or> mu_isPending replayMutation"

text \<open>
  Only one action at a time disables a row of the list: while a pause of one endpoint is outstanding,
  the buttons of another endpoint whose rotation is outstanding too stay enabled.
\<close>

theorem row_busy_masked:
  assumes "mu_isPending p" "mu_variables p = Some i" "i \<noteq> []" "i \<noteq> j"
    and "mu_isPending ro" "mu_variables ro = Some \<lparr>er_id = j, er_url = u\<rparr>" "\<not> mu_isPending rp"
  shows "\<not> row_busy p r ro rp j \<and> row_busy p r ro rp i \<and> detail_busy p r ro rp"
  using assms by (simp add: row_busy_def busyEndpointId_def pending_id_def first_truthy_def detail_busy_def)

section \<open>Replays\<close>

record replay_dialog =
  ra_target :: "endpoint_ref option"
  ra_result :: "json option"
  ra_invalidated :: "string list list"

definition replay_call :: "string \<Rightarrow> string \<Rightarrow> string \<Rightarrow> string \<Rightarrow> api_call" where
  "replay_call randomUUID endpointId range_start range_end = TriggerReplay endpointId range_start range_end randomUUID"

definition replay_onSuccess :: "string list list \<Rightarrow> json \<Rightarrow> replay_dialog \<Rightarrow> replay_dialog" where
  "replay_onSuccess queryKeys result st =
     st\<lparr>ra_target := None, ra_result := Some result, ra_invalidated := ra_invalidated st @ queryKeys\<rparr>"

text \<open>Submitting the dialog: the call it makes for the endpoint it was opened for.\<close>

definition submit_replay :: "(string \<Rightarrow> js_ms option) \<Rightarrow> string \<Rightarrow> string \<Rightarrow> string \<Rightarrow> replay_dialog \<Rightarrow> api_call option" where
  "submit_replay date_of randomUUID rangeStart rangeEnd st =
     (case (ra_target st, replay_range date_of rangeStart rangeEnd) of
        (Some ref, Some (a, b)) \<Rightarrow> Some (replay_call randomUUID (er_id ref) a b)
      | _ \<Rightarrow> None)"

end
