(* ===== verification/Console_Markup.thy ===== *)
theory Console_Markup
  imports Console_Session
begin

text \<open>
  What the console renders: a tree of elements with their attributes, styles and handlers, and the
  building blocks of \<^verbatim>\<open>frontend/src/design\<close>.  \<open>Link\<close> and \<open>NavLink\<close> are elements of the router.  A style is the list
  of its properties, of which the last of a name counts, as in an object spread; numbers are written
  as React prints them, without the unit.  The \<^verbatim>\<open>key\<close> of a list item is not rendered and left out.
\<close>

section \<open>Trees\<close>

type_synonym css = "(string \<times> string) list"

text \<open>
  \<open>At\<close> and \<open>Flag\<close> are attributes, \<open>On\<close> is the handler of an event with what it does, \<open>Stops\<close> a handler that only
  stops the propagation.  \<open>Throws\<close> stands for a child whose expression throws, which takes the whole page down.
\<close>

datatype 'a attr = Css css | At string string | Flag string bool | On string 'a | Stops string

datatype 'a ui = Txt string | El string "'a attr list" "'a ui list" | Throws

definition dated :: "string option \<Rightarrow> (string \<Rightarrow> 'a ui) \<Rightarrow> 'a ui" where
  "dated s f = (case s of None \<Rightarrow> Throws | Some v \<Rightarrow> f v)"

definition ellipsis :: string where
  "ellipsis = map char_of [226, 128, 166 :: nat]"

definition left_quote :: string where
  "left_quote = map char_of [226, 128, 156 :: nat]"

definition right_quote :: string where
  "right_quote = map char_of [226, 128, 157 :: nat]"

definition right_arrow :: string where
  "right_arrow = map char_of [226, 134, 146 :: nat]"

definition apostrophe :: string where
  "apostrophe = [CHR 0x27]"

text \<open>A JSX child that is a number, a string that may be null, and a condition on a string that may be empty.\<close>

definition truthy :: "string option \<Rightarrow> string option" where
  "truthy s = (case s of None \<Rightarrow> None | Some v \<Rightarrow> if v = [] then None else Some v)"

section \<open>design/Badge.tsx, Breadcrumb.tsx, Card.tsx, Field.tsx, LoadingState.tsx, ErrorState.tsx\<close>

definition toneColor :: "tone \<Rightarrow> string" where
  "toneColor t = (case t of Neutral \<Rightarrow> ''var(--color-text-muted)'' | Accent \<Rightarrow> ''var(--color-accent-700)'' | Danger \<Rightarrow> ''var(--color-danger-700)'')"

definition Badge :: "tone \<Rightarrow> 'a ui list \<Rightarrow> 'a ui" where
  "Badge t children =
     El ''span'' [Css [(''display'', ''inline-block''), (''fontFamily'', ''var(--font-body)''), (''fontSize'', ''11''),
         (''letterSpacing'', ''0.2''), (''padding'', ''3px 10px''), (''background'', ''var(--color-badge-bg)''),
         (''color'', toneColor t), (''borderRadius'', ''var(--radius)'')]] children"

definition Breadcrumb :: "'a ui list \<Rightarrow> 'a ui" where
  "Breadcrumb children =
     El ''p'' [Css [(''fontSize'', ''13''), (''color'', ''var(--color-text-muted)''), (''marginBottom'', ''8'')]] children"

definition cornerStyle :: css where
  "cornerStyle = [(''position'', ''absolute''), (''fontFamily'', ''var(--font-body)''), (''fontSize'', ''12''), (''lineHeight'', ''1''),
     (''color'', ''var(--color-divider)''), (''userSelect'', ''none'')]"

definition Card :: "bool \<Rightarrow> css \<Rightarrow> 'a ui list \<Rightarrow> 'a ui" where
  "Card cornerMarks style children =
     El ''div'' [Css ([(''position'', ''relative''), (''border'', ''1px solid var(--color-divider)''), (''borderRadius'', ''var(--radius)''),
         (''padding'', ''16px 18px''), (''background'', ''var(--color-surface)'')] @ style)]
       ((if cornerMarks then
           [El ''span'' [Flag ''aria-hidden'' True, Css (cornerStyle @ [(''top'', ''-7''), (''left'', ''-7'')])] [Txt ''+''],
            El ''span'' [Flag ''aria-hidden'' True, Css (cornerStyle @ [(''top'', ''-7''), (''right'', ''-7'')])] [Txt ''+''],
            El ''span'' [Flag ''aria-hidden'' True, Css (cornerStyle @ [(''bottom'', ''-7''), (''left'', ''-7'')])] [Txt ''+''],
            El ''span'' [Flag ''aria-hidden'' True, Css (cornerStyle @ [(''bottom'', ''-7''), (''right'', ''-7'')])] [Txt ''+'']]
         else []) @ children)"

definition Field :: "string \<Rightarrow> string \<Rightarrow> bool \<Rightarrow> 'a ui" where
  "Field label val monospaced =
     El ''div'' []
       [El ''div'' [Css [(''fontSize'', ''11''), (''letterSpacing'', ''0.4''), (''textTransform'', ''uppercase''),
            (''color'', ''var(--color-text-muted)'')]] [Txt label],
        El ''div'' ((if monospaced then [At ''className'' ''app-mono''] else []) @ [Css [(''fontSize'', ''14'')]]) [Txt val]]"

definition LoadingState :: "string \<Rightarrow> 'a ui" where
  "LoadingState label = El ''p'' [Css [(''fontSize'', ''13''), (''color'', ''var(--color-text-muted)'')]] [Txt label]"

definition ErrorState :: "string \<Rightarrow> 'a ui" where
  "ErrorState message =
     Card False [(''borderColor'', ''var(--color-danger)'')]
       [El ''p'' [Css [(''margin'', ''0''), (''fontSize'', ''13''), (''color'', ''var(--color-danger)'')]] [Txt message]]"

section \<open>design/Button.tsx, Modal.tsx, StatCard.tsx, TextInput.tsx\<close>

datatype variant = Primary | Secondary

definition button_base :: css where
  "button_base = [(''fontFamily'', ''var(--font-body)''), (''fontSize'', ''14''), (''fontWeight'', ''600''), (''padding'', ''7px 12px''),
     (''borderRadius'', ''var(--radius)''), (''borderWidth'', ''1''), (''borderStyle'', ''solid''), (''cursor'', ''pointer'')]"

definition button_variants :: "variant \<Rightarrow> css" where
  "button_variants v = (case v of
     Primary \<Rightarrow> [(''background'', ''var(--color-accent)''), (''borderColor'', ''var(--color-accent)''), (''color'', ''var(--color-bg)'')]
   | Secondary \<Rightarrow> [(''background'', ''transparent''), (''borderColor'', ''var(--color-divider)''), (''color'', ''var(--color-text)'')])"

definition Button :: "variant \<Rightarrow> 'a attr list \<Rightarrow> bool \<Rightarrow> css \<Rightarrow> 'a ui list \<Rightarrow> 'a ui" where
  "Button v props disabled style children =
     El ''button'' (props @ [Flag ''disabled'' disabled,
         Css (button_base @ button_variants v @ (if disabled then [(''opacity'', ''0.5''), (''cursor'', ''not-allowed'')] else []) @ style)]) children"

definition Modal :: "'a \<Rightarrow> 'a ui list \<Rightarrow> 'a ui" where
  "Modal onClose children =
     El ''div'' [At ''role'' ''presentation'', On ''click'' onClose,
         Css [(''position'', ''fixed''), (''inset'', ''0''), (''background'', ''rgba(29, 31, 32, 0.4)''), (''display'', ''flex''),
           (''alignItems'', ''center''), (''justifyContent'', ''center''), (''zIndex'', ''100'')]]
       [El ''div'' [At ''role'' ''dialog'', At ''aria-modal'' ''true'', Stops ''click'']
          [Card False [(''width'', ''460''), (''background'', ''var(--color-surface)'')] children]]"

definition statColor :: "tone \<Rightarrow> string" where
  "statColor t = (if t = Danger then ''var(--color-danger-700)'' else ''var(--color-text)'')"

definition StatCard :: "string \<Rightarrow> string \<Rightarrow> string option \<Rightarrow> tone \<Rightarrow> 'a ui" where
  "StatCard label val caption t =
     Card False [(''display'', ''flex''), (''flexDirection'', ''column''), (''gap'', ''6'')]
       ([El ''span'' [Css [(''fontFamily'', ''var(--font-body)''), (''fontSize'', ''11''), (''letterSpacing'', ''0.6''),
            (''textTransform'', ''uppercase''), (''color'', ''var(--color-text-muted)'')]] [Txt label],
         El ''span'' [Css [(''fontFamily'', ''var(--font-heading)''), (''fontSize'', ''34''), (''fontWeight'', ''400''), (''color'', statColor t)]]
           [Txt val]] @
        (case truthy caption of
           None \<Rightarrow> []
         | Some c \<Rightarrow> [El ''span'' [Css [(''fontFamily'', ''var(--font-body)''), (''fontSize'', ''12''), (''color'', ''var(--color-text-muted)'')]] [Txt c]]))"

definition input_style :: css where
  "input_style = [(''fontFamily'', ''var(--font-body)''), (''fontSize'', ''14''), (''padding'', ''8px 10px''),
     (''border'', ''1px solid var(--color-divider)''), (''borderRadius'', ''var(--radius)'')]"

definition TextInput :: "'a attr list \<Rightarrow> css \<Rightarrow> 'a ui" where
  "TextInput props style = El ''input'' (props @ [Css (input_style @ style)]) []"

section \<open>What can be read off a tree\<close>

text \<open>The texts on the screen, the children that throw, and the handlers of the controls that are not disabled.\<close>

fun texts :: "'a ui \<Rightarrow> string list" where
  "texts (Txt s) = [s]"
| "texts Throws = []"
| "texts (El tag as cs) = concat (map texts cs)"

fun throws :: "'a ui \<Rightarrow> bool" where
  "throws (Txt s) = False"
| "throws Throws = True"
| "throws (El tag as cs) = list_ex throws cs"

definition is_disabled :: "'a attr list \<Rightarrow> bool" where
  "is_disabled as = list_ex (\<lambda>a. case a of Flag n b \<Rightarrow> n = ''disabled'' \<and> b | _ \<Rightarrow> False) as"

definition clicks :: "'a attr list \<Rightarrow> 'a list" where
  "clicks as = concat (map (\<lambda>a. case a of On ev f \<Rightarrow> if ev = ''click'' then [f] else [] | _ \<Rightarrow> []) as)"

fun enabled :: "'a ui \<Rightarrow> 'a list" where
  "enabled (Txt s) = []"
| "enabled Throws = []"
| "enabled (El tag as cs) = (if is_disabled as then [] else clicks as @ concat (map enabled cs))"

text \<open>Where the links of a tree lead.\<close>

definition link_attrs :: "string \<Rightarrow> 'a attr list \<Rightarrow> string list" where
  "link_attrs tag as =
     (if tag = ''Link'' \<or> tag = ''NavLink'' then concat (map (\<lambda>a. case a of At n p \<Rightarrow> if n = ''to'' then [p] else [] | _ \<Rightarrow> []) as) else [])"

fun links :: "'a ui \<Rightarrow> string list" where
  "links (Txt s) = []"
| "links Throws = []"
| "links (El tag as cs) = link_attrs tag as @ concat (map links cs)"

fun tagged :: "string \<Rightarrow> 'a ui \<Rightarrow> 'a ui list" where
  "tagged t (Txt s) = []"
| "tagged t Throws = []"
| "tagged t (El tag as cs) = (if tag = t then [El tag as cs] else []) @ concat (map (tagged t) cs)"

named_theorems ui_parts

text \<open>A conditional child is looked at case by case.\<close>

lemma child_cases [ui_parts]:
  "concat (map f (case r of None \<Rightarrow> xs | Some y \<Rightarrow> g y)) = (case r of None \<Rightarrow> concat (map f xs) | Some y \<Rightarrow> concat (map f (g y)))"
  "concat (map f (if b then xs else ys)) = (if b then concat (map f xs) else concat (map f ys))"
  "list_ex p (case r of None \<Rightarrow> vs | Some y \<Rightarrow> h y) = (case r of None \<Rightarrow> list_ex p vs | Some y \<Rightarrow> list_ex p (h y))"
  "list_ex p (if b then vs else ws) = (if b then list_ex p vs else list_ex p ws)"
  by (simp_all split: option.split)

lemma concat_none [ui_parts]: "concat (map (\<lambda>x. []) xs) = []"
  by (induction xs) simp_all

lemma if_rows [ui_parts]: "(if zs = [] then [] else map f zs) = map f zs"
  by simp

lemma case_same [ui_parts]: "(case r of None \<Rightarrow> a | Some y \<Rightarrow> a) = a"
  by (cases r) simp_all

lemma attr_parts [ui_parts]:
  "is_disabled [] = False" "is_disabled (Css c # as) = is_disabled as" "is_disabled (At n v # as) = is_disabled as"
  "is_disabled (Flag n b # as) = (n = ''disabled'' \<and> b \<or> is_disabled as)" "is_disabled (On ev f # as) = is_disabled as"
  "is_disabled (Stops ev # as) = is_disabled as"
  "clicks [] = []" "clicks (Css c # as) = clicks as" "clicks (At n v # as) = clicks as" "clicks (Flag n b # as) = clicks as"
  "clicks (On ev f # as) = (if ev = ''click'' then [f] else []) @ clicks as" "clicks (Stops ev # as) = clicks as"
  "link_attrs ''Link'' (At n p # as) = (if n = ''to'' then [p] else []) @ link_attrs ''Link'' as"
  "link_attrs ''Link'' (Css c # as) = link_attrs ''Link'' as" "link_attrs t [] = []"
  "link_attrs ''NavLink'' (At n p # as) = (if n = ''to'' then [p] else []) @ link_attrs ''NavLink'' as"
  "link_attrs ''NavLink'' (Css c # as) = link_attrs ''NavLink'' as"
  by (auto simp: is_disabled_def clicks_def link_attrs_def)

lemma attr_append [ui_parts]:
  "is_disabled (as @ bs) = (is_disabled as \<or> is_disabled bs)" "clicks (as @ bs) = clicks as @ clicks bs"
  by (simp_all add: is_disabled_def clicks_def)

lemma other_links [ui_parts]: "tag \<noteq> ''Link'' \<Longrightarrow> tag \<noteq> ''NavLink'' \<Longrightarrow> link_attrs tag as = []"
  by (simp add: link_attrs_def)

lemma node_cases [ui_parts]:
  "links (case r of None \<Rightarrow> v | Some y \<Rightarrow> g y) = (case r of None \<Rightarrow> links v | Some y \<Rightarrow> links (g y))"
  "enabled (case r of None \<Rightarrow> v | Some y \<Rightarrow> g y) = (case r of None \<Rightarrow> enabled v | Some y \<Rightarrow> enabled (g y))"
  "throws (case r of None \<Rightarrow> v | Some y \<Rightarrow> g y) = (case r of None \<Rightarrow> throws v | Some y \<Rightarrow> throws (g y))"
  "texts (case r of None \<Rightarrow> v | Some y \<Rightarrow> g y) = (case r of None \<Rightarrow> texts v | Some y \<Rightarrow> texts (g y))"
  by (simp_all split: option.split)

lemma card_parts [ui_parts]:
  "links (Card m st cs) = concat (map links cs)" "enabled (Card m st cs) = concat (map enabled cs)"
  "throws (Card m st cs) = list_ex throws cs" "texts (Card m st cs) = (if m then [''+'', ''+'', ''+'', ''+''] else []) @ concat (map texts cs)"
  "tagged ''tr'' (Card m st cs) = concat (map (tagged ''tr'') cs)"
  by (cases m; simp add: Card_def other_links is_disabled_def clicks_def)+

lemma block_parts [ui_parts]:
  "links (Badge t cs) = concat (map links cs)" "enabled (Badge t cs) = concat (map enabled cs)" "throws (Badge t cs) = list_ex throws cs"
  "links (Breadcrumb cs) = concat (map links cs)" "enabled (Breadcrumb cs) = concat (map enabled cs)" "throws (Breadcrumb cs) = list_ex throws cs"
  "links (Modal f cs) = concat (map links cs)" "enabled (Modal f cs) = f # concat (map enabled cs)" "throws (Modal f cs) = list_ex throws cs"
  "texts (Badge t cs) = concat (map texts cs)" "texts (Breadcrumb cs) = concat (map texts cs)" "texts (Modal f cs) = concat (map texts cs)"
  "tagged ''tr'' (Badge t cs) = concat (map (tagged ''tr'') cs)" "tagged ''tr'' (Breadcrumb cs) = concat (map (tagged ''tr'') cs)"
  "tagged ''tr'' (Modal f cs) = concat (map (tagged ''tr'') cs)"
  by (simp_all add: Badge_def Breadcrumb_def Modal_def card_parts other_links is_disabled_def clicks_def)

lemma leaf_parts [ui_parts]:
  "links (LoadingState l) = []" "enabled (LoadingState l) = []" "throws (LoadingState l) = False" "texts (LoadingState l) = [l]"
  "links (ErrorState l) = []" "enabled (ErrorState l) = []" "throws (ErrorState l) = False" "texts (ErrorState l) = [l]"
  "links (Field l v m) = []" "enabled (Field l v m) = []" "throws (Field l v m) = False" "texts (Field l v m) = [l, v]"
  "tagged ''tr'' (LoadingState l) = []" "tagged ''tr'' (ErrorState l) = []" "tagged ''tr'' (Field l v m) = []"
  by (simp_all add: LoadingState_def ErrorState_def Field_def card_parts other_links is_disabled_def clicks_def)

lemma control_parts [ui_parts]:
  "links (StatCard l v c t) = []" "enabled (StatCard l v c t) = []" "throws (StatCard l v c t) = False"
  "links (Button va ps dis st cs) = concat (map links cs)"
  "enabled (Button va ps dis st cs) = (if dis \<or> is_disabled ps then [] else clicks ps @ concat (map enabled cs))"
  "throws (Button va ps dis st cs) = list_ex throws cs" "texts (Button va ps dis st cs) = concat (map texts cs)"
  "links (TextInput ps st) = []" "throws (TextInput ps st) = False" "texts (TextInput ps st) = []"
  "enabled (TextInput ps st) = (if is_disabled ps then [] else clicks ps)"
  "tagged ''tr'' (StatCard l v c t) = []" "tagged ''tr'' (TextInput ps st) = []" "tagged ''tr'' (Button va ps dis st cs) = concat (map (tagged ''tr'') cs)"
  by (auto simp: StatCard_def Button_def TextInput_def card_parts other_links is_disabled_def clicks_def split: option.split)

lemma dated_parts [ui_parts]:
  "links (dated s f) = (case s of None \<Rightarrow> [] | Some v \<Rightarrow> links (f v))" "enabled (dated s f) = (case s of None \<Rightarrow> [] | Some v \<Rightarrow> enabled (f v))"
  "throws (dated s f) = (case s of None \<Rightarrow> True | Some v \<Rightarrow> throws (f v))" "texts (dated s f) = (case s of None \<Rightarrow> [] | Some v \<Rightarrow> texts (f v))"
  "tagged ''tr'' (dated s f) = (case s of None \<Rightarrow> [] | Some v \<Rightarrow> tagged ''tr'' (f v))"
  by (simp_all add: dated_def split: option.split)

end
