(* ===== verification/Console_Pages.thy ===== *)
theory Console_Pages
  imports Console_Markup
begin

text \<open>
  The pages of the console as trees: \<^verbatim>\<open>frontend/src/pages/console\<close>.  A page is a function of what its hooks give it:
  the states of its queries (TanStack Query), of its mutations and of its own \<^verbatim>\<open>useState\<close> variables.  The fetched
  objects are the typed views of the routes, whose identifiers \<open>ue_id\<close> prints.
\<close>

section \<open>What a page is rendered from\<close>

record ui_env =
  ue_id :: "uuid \<Rightarrow> string"
  ue_date :: "string \<Rightarrow> js_ms option"
  ue_now :: js_ms
  ue_dbl :: "rat \<Rightarrow> rat"

text \<open>\<^verbatim>\<open>isError\<close> says that there is an error; \<^verbatim>\<open>isLoading\<close>, the error and the data are independent of each other.\<close>

record 'd query_state =
  qs_isLoading :: bool
  qs_error :: "string option"
  qs_data :: "'d option"

record hooks_state =
  hu_pause :: "string mutation"
  hu_resume :: "string mutation"
  hu_rotate :: "endpoint_ref mutation"
  hu_replay :: "endpoint_ref mutation"
  hu_replayError :: "string option"
  hu_actions :: action_state
  hu_dialog :: replay_dialog
  hu_rangeStart :: string
  hu_rangeEnd :: string

record register_state =
  rg_isPending :: bool
  rg_error :: "string option"
  rg_url :: string
  rg_eventTypes :: string

record delivery_view =
  dv_summary :: delivery_summary
  dv_endpoint_id :: uuid
  dv_last_response :: "response_view option"
  dv_attempts :: "attempt_view list"

text \<open>
  What a handler does: navigate, call a setter of the hooks, start a mutation with its variables, or set a state
  variable to the value of its input.  \<open>Invalid_range\<close> is the exception of \<^verbatim>\<open>toISOString\<close>.
\<close>

datatype page_act =
    Go string
  | Hook action_event
  | Pause string
  | Resume string
  | Rotate endpoint_ref
  | Register "string \<times> string list"
  | Replay_open endpoint_ref
  | Replay_close
  | Replay_result_close
  | Replay string "string \<times> string"
  | Invalid_range
  | Edit string
  | Submit_key string
  | Choose_backend
  | Sign_out
  | Clear_search

definition relative :: "ui_env \<Rightarrow> js_ms option \<Rightarrow> string" where
  "relative U t = formatRelativeTime (ue_date U) (ue_now U) (map_option toISOString t)"

definition date_time :: "ui_env \<Rightarrow> js_ms \<Rightarrow> string option" where
  "date_time U t = formatDateTime (ue_date U) (toISOString t)"

definition endpoint_ref_of :: "ui_env \<Rightarrow> health_view \<Rightarrow> endpoint_ref" where
  "endpoint_ref_of U e = \<lparr>er_id = ue_id U (v_id e), er_url = v_url e\<rparr>"

definition number_or_dash :: "int option \<Rightarrow> string" where
  "number_or_dash n = (case n of None \<Rightarrow> em_dash | Some i \<Rightarrow> show_int i)"

definition ms_or_dash :: "int option \<Rightarrow> string" where
  "ms_or_dash n = (case n of None \<Rightarrow> em_dash | Some i \<Rightarrow> show_int i @ ''ms'')"

definition class_or_dash :: "attempt_error_class option \<Rightarrow> string" where
  "class_or_dash c = (case c of None \<Rightarrow> em_dash | Some k \<Rightarrow> error_class_text k)"

definition some_rows :: "'r list option \<Rightarrow> 'r list option" where
  "some_rows rs = (case rs of Some (x # xs) \<Rightarrow> Some (x # xs) | _ \<Rightarrow> None)"

definition outstanding_text :: "outstanding \<Rightarrow> string" where
  "outstanding_text r = (case r of
     Attempt_ceiling_endpoint_halted \<Rightarrow> ''Reached the attempt ceiling '' @ em_dash @ '' this endpoint is now halted.''
   | Request_outstanding \<Rightarrow> ''A worker holds the claim and the request is outstanding right now.''
   | Blocked_behind_earlier \<Rightarrow> ''Blocked: waiting for an earlier delivery on this endpoint'' @ apostrophe @ ''s queue to resolve first.''
   | Scheduled_for_next_attempt \<Rightarrow> ''Pending '' @ em_dash @ '' scheduled for its next attempt.'')"

text \<open>The replies the dialogs keep as JSON, read by their declared types; a missing array throws.\<close>

definition json_text :: "string \<Rightarrow> json \<Rightarrow> string" where
  "json_text k j = (case j of
     JObj ps \<Rightarrow> (case map_of ps k of Some (JStr s) \<Rightarrow> s | Some (JNum n) \<Rightarrow> n | _ \<Rightarrow> [])
   | _ \<Rightarrow> [])"

definition resume_result :: "json \<Rightarrow> (string \<times> string list) option" where
  "resume_result j = (case j of
     JObj ps \<Rightarrow>
       (case map_of ps ''skipped_failed_delivery_ids'' of
          Some (JArr ids) \<Rightarrow> Some (json_text ''pending_delivery_count'' j, map (\<lambda>i. case i of JStr s \<Rightarrow> s | _ \<Rightarrow> []) ids)
        | _ \<Rightarrow> None)
   | _ \<Rightarrow> None)"

definition accepted_result :: "json \<Rightarrow> string \<times> string" where
  "accepted_result j = (json_text ''id'' j, json_text ''status'' j)"

definition decoded :: "'r option \<Rightarrow> ('r \<Rightarrow> 'a ui) \<Rightarrow> 'a ui" where
  "decoded r f = (case r of None \<Rightarrow> Throws | Some x \<Rightarrow> f x)"

text \<open>\<^verbatim>\<open>JSON.stringify(v, null, 2)\<close>; \<open>gap\<close> is the indentation of the line the value is on.\<close>

fun stringify_indented :: "string \<Rightarrow> json \<Rightarrow> string" where
  "stringify_indented gap (JArr js) =
     (if js = [] then ''[]''
      else ''['' @ [CHR 0x0A] @ gap @ ''  '' @ js_join ('','' @ [CHR 0x0A] @ gap @ ''  '') (map (stringify_indented (gap @ ''  '')) js) @
        [CHR 0x0A] @ gap @ '']'')"
| "stringify_indented gap (JObj ps) =
     (if ps = [] then ''{}''
      else ''{'' @ [CHR 0x0A] @ gap @ ''  '' @
        js_join ('','' @ [CHR 0x0A] @ gap @ ''  '') (map (\<lambda>p. json_quote (fst p) @ '': '' @ stringify_indented (gap @ ''  '') (snd p)) ps) @
        [CHR 0x0A] @ gap @ ''}'')"
| "stringify_indented gap j = stringify j"

text \<open>Submitting the replay form.\<close>

definition handle_range :: "ui_env \<Rightarrow> (string \<times> string \<Rightarrow> page_act) \<Rightarrow> string \<Rightarrow> string \<Rightarrow> page_act" where
  "handle_range U onSubmit rangeStart rangeEnd =
     (case replay_range (ue_date U) rangeStart rangeEnd of None \<Rightarrow> Invalid_range | Some r \<Rightarrow> onSubmit r)"

section \<open>The dialogs\<close>

definition RevealedSecretModal :: "ui_env \<Rightarrow> revealed_secret \<Rightarrow> page_act \<Rightarrow> page_act ui" where
  "RevealedSecretModal U secret onClose =
     Modal onClose
       [El ''h2'' [Css [(''fontSize'', ''18''), (''marginBottom'', ''8'')]] [Txt ''Signing secret''],
        El ''p'' [Css [(''fontSize'', ''13''), (''color'', ''var(--color-text-muted)'')]]
          ([Txt ''Shown once for '',
            El ''strong'' [] [Txt (rs_url secret)],
            Txt ('' '' @ em_dash @ '' copy it now, it will not be shown again.'')] @
           (case truthy (rs_overlapExpiresAt secret) of
             None \<Rightarrow> []
           | Some stamp \<Rightarrow>
               [Txt '' The previous secret keeps verifying until '',
                dated (formatDateTime (ue_date U) stamp) Txt,
                Txt ''.''])),
        El ''code'' [Css [(''display'', ''block''), (''fontFamily'', ''var(--font-mono)''), (''fontSize'', ''13''), (''padding'', ''10px 12px''),
            (''background'', ''var(--color-badge-bg)''), (''wordBreak'', ''break-all''), (''margin'', ''12px 0'')]]
          [Txt (rs_secret secret)],
        Button Primary [On ''click'' onClose] False [] [Txt ''Done'']]"

definition ResumeDisclosureModal :: "string \<times> string list \<Rightarrow> page_act \<Rightarrow> page_act ui" where
  "ResumeDisclosureModal res onClose =
     Modal onClose
       ([El ''h2'' [Css [(''fontSize'', ''18''), (''marginBottom'', ''8'')]] [Txt ''Resumed''],
         El ''p'' [Css [(''fontSize'', ''13'')]]
           [Txt (fst res),
            Txt '' deliveries are pending and will drain in publication order.'']] @
        (if snd res \<noteq> [] then
           [El ''p'' [Css [(''fontSize'', ''13''), (''color'', ''var(--color-danger)'')]]
              [Txt (show_nat (length (snd res))),
               Txt ('' previously-failed deliveries are permanently skipped (never retried by resume '' @ em_dash @ '' only replay would): ''),
               Txt (js_join '', '' (snd res))]]
         else []) @
        [Button Primary [On ''click'' onClose] False [] [Txt ''Done'']])"

definition ActionErrorBanner :: "string \<Rightarrow> page_act \<Rightarrow> page_act ui" where
  "ActionErrorBanner message onDismiss =
     El ''p'' [Css [(''color'', ''var(--color-danger)'')]]
       [Txt message,
        Txt '' '',
        El ''button'' [On ''click'' onDismiss, Css [(''background'', ''none''), (''border'', ''none''), (''cursor'', ''pointer''), (''color'',
            ''var(--color-accent-700)''), (''padding'', ''0'')]]
          [Txt ''Dismiss'']]"

definition ReplayForm :: 
    "ui_env \<Rightarrow> string \<Rightarrow> (string \<times> string \<Rightarrow> page_act) \<Rightarrow> string option \<Rightarrow> bool \<Rightarrow> string \<Rightarrow> string \<Rightarrow> page_act \<Rightarrow> page_act ui" where
  "ReplayForm U endpointUrl onSubmit error submitting rangeStart rangeEnd onClose =
     Modal onClose
       [El ''form'' [On ''submit'' (handle_range U onSubmit rangeStart rangeEnd), Css [(''display'', ''flex''), (''flexDirection'', ''column''),
           (''gap'', ''12'')]]
          ([El ''h2'' [Css [(''fontSize'', ''18'')]] [Txt ''Replay''],
            El ''p'' [Css [(''fontSize'', ''13''), (''color'', ''var(--color-text-muted)''), (''margin'', ''0'')]]
              [Txt ''Re-deliver every resolved delivery on '',
               El ''strong'' [] [Txt endpointUrl],
               Txt ('' published in this range, appended to the end of its live queue '' @ em_dash @
                   '' other endpoints are unaffected, but a large replay can delay this endpoint'' @ apostrophe @ ''s own upcoming traffic.'')],
            El ''label'' [Css [(''fontSize'', ''13''), (''display'', ''flex''), (''flexDirection'', ''column''), (''gap'', ''4'')]]
              [Txt ''From'',
               TextInput [At ''type'' ''datetime-local'', Flag ''required'' True, At ''value'' rangeStart, On ''change'' (Edit ''rangeStart'')] []],
            El ''label'' [Css [(''fontSize'', ''13''), (''display'', ''flex''), (''flexDirection'', ''column''), (''gap'', ''4'')]]
              [Txt ''To'',
               TextInput [At ''type'' ''datetime-local'', Flag ''required'' True, At ''value'' rangeEnd, On ''change'' (Edit ''rangeEnd'')] []]] @
           (case truthy error of
             None \<Rightarrow> []
           | Some message \<Rightarrow>
               [El ''p'' [Css [(''color'', ''var(--color-danger)''), (''fontSize'', ''13''), (''margin'', ''0'')]]
                  [Txt message]]) @
           [Button Primary [At ''type'' ''submit''] submitting [] [Txt (if submitting then ''Submitting'' @ ellipsis else ''Start replay'')]])]"

definition ReplayResultModal :: "string \<times> string \<Rightarrow> page_act \<Rightarrow> page_act ui" where
  "ReplayResultModal res onClose =
     Modal onClose
       [El ''h2'' [Css [(''fontSize'', ''18''), (''marginBottom'', ''8'')]] [Txt ''Replay started''],
        El ''p'' [Css [(''fontSize'', ''13'')]]
          [Txt ''Replay '',
           El ''span'' [At ''className'' ''app-mono''] [Txt (fst res)],
           Txt '' is '',
           El ''strong'' [] [Txt (snd res)],
           Txt (''. The worker will scan the window and queue matching deliveries shortly '' @ em_dash @ '' check the endpoint'' @ apostrophe @
               ''s queue to watch them arrive.'')],
        Button Primary [On ''click'' onClose] False [] [Txt ''Done'']]"

section \<open>The list of endpoints\<close>

definition EndpointRow :: 
    "ui_env \<Rightarrow> health_view \<Rightarrow> page_act \<Rightarrow> page_act \<Rightarrow> page_act \<Rightarrow> page_act \<Rightarrow> bool \<Rightarrow> page_act ui" where
  "EndpointRow U e onPause onResume onRotate onReplay busy =
     El ''tr'' []
       [El ''td'' []
          [El ''Link'' [At ''to'' (''/console/endpoints/'' @ ue_id U (v_id e)), Css [(''fontWeight'', ''600''), (''color'', ''var(--color-text)'')]]
             [Txt (v_url e)],
           El ''div'' [Css [(''fontSize'', ''12''), (''color'', ''var(--color-text-muted)'')]]
             [Txt (js_join '', '' (v_event_types e))]],
        El ''td'' [] [Badge (endpointTone (v_status e)) [Txt (endpoint_status_text (v_status e))]],
        El ''td'' [] [Txt (show_nat (v_queue_depth e))],
        El ''td'' [] [Txt (relative U (v_oldest_pending_at e))],
        El ''td'' [] [Txt (formatPercent (ue_dbl U) (v_recent_success_rate e))],
        El ''td'' []
          [El ''div'' [Css [(''display'', ''flex''), (''gap'', ''8'')]]
             ((if v_status e = Active then
                 [Button Secondary [On ''click'' onPause] busy [] [Txt ''Pause'']]
               else
                 [Button Secondary [On ''click'' onResume] busy [] [Txt (''Resume'' @ ellipsis)]]) @
              [Button Secondary [On ''click'' onRotate] busy [] [Txt ''Rotate secret''],
               Button Secondary [On ''click'' onReplay] busy [] [Txt (''Replay'' @ ellipsis)]])]]"

definition RegisterForm :: 
    "(string \<times> string list \<Rightarrow> page_act) \<Rightarrow> string option \<Rightarrow> bool \<Rightarrow> string \<Rightarrow> string \<Rightarrow> page_act ui" where
  "RegisterForm onSubmit error submitting url eventTypes =
     El ''form'' [On ''submit'' (onSubmit (register_input url eventTypes)), Css [(''display'', ''flex''), (''flexDirection'', ''column''), (''gap'',
    ''12'')]]
       ([El ''h2'' [Css [(''fontSize'', ''18'')]] [Txt ''Register endpoint''],
         El ''label'' [Css [(''fontSize'', ''13''), (''display'', ''flex''), (''flexDirection'', ''column''), (''gap'', ''4'')]]
           [Txt ''URL'',
            TextInput [At ''type'' ''url'', Flag ''required'' True, At ''placeholder'' ''https://example.com/hook'', At ''value'' url,
                On ''change'' (Edit ''url'')] []],
         El ''label'' [Css [(''fontSize'', ''13''), (''display'', ''flex''), (''flexDirection'', ''column''), (''gap'', ''4'')]]
           [Txt ''Event types (comma-separated)'',
            TextInput [At ''type'' ''text'', Flag ''required'' True, At ''placeholder'' ''order.created, invoice.paid'', At ''value'' eventTypes,
                On ''change'' (Edit ''eventTypes'')] []]] @
        (case truthy error of
          None \<Rightarrow> []
        | Some message \<Rightarrow>
            [El ''p'' [Css [(''color'', ''var(--color-danger)''), (''fontSize'', ''13''), (''margin'', ''0'')]]
               [Txt message]]) @
        [Button Primary [At ''type'' ''submit''] submitting [] [Txt (if submitting then ''Registering'' @ ellipsis else ''Register'')]])"

definition Endpoints :: 
    "ui_env \<Rightarrow> string \<Rightarrow> bool \<Rightarrow> health_view list query_state \<Rightarrow> hooks_state \<Rightarrow> register_state \<Rightarrow> page_act ui list" where
  "Endpoints U backend_label client q H R =
     (if \<not> client then [] else
      [El ''div'' []
        ([El ''div'' [Css [(''display'', ''flex''), (''alignItems'', ''center''), (''justifyContent'', ''space-between''), (''marginBottom'',
            ''20'')]]
            [El ''h1'' [Css [(''fontSize'', ''28'')]] [Txt ''Endpoints''],
             Button Primary [On ''click'' (Hook Register_opened)] False [] [Txt ''Register endpoint'']]] @
         (if qs_isLoading q then [LoadingState (''Loading'' @ ellipsis)] else []) @
         (if qs_error q \<noteq> None then [ErrorState (''Failed to load endpoints: '' @ the (qs_error q))] else []) @
         (case truthy (ac_error (hu_actions H)) of
           None \<Rightarrow> []
         | Some message \<Rightarrow>
             [ActionErrorBanner message (Hook Error_dismissed)]) @
         (if qs_data q = Some [] then
            [Card False []
               [El ''p'' [Css [(''margin'', ''0''), (''color'', ''var(--color-text-muted)'')]]
                  [Txt ''No endpoints registered yet on '',
                   Txt backend_label,
                   Txt ''. Register one to start receiving deliveries.'']]]
          else []) @
         (case some_rows (qs_data q) of
           None \<Rightarrow> []
         | Some es \<Rightarrow>
             [Card True [(''padding'', ''0'')]
                [El ''table'' [At ''className'' ''app-table'']
                   [El ''thead'' []
                      [El ''tr'' []
                         [El ''th'' [] [Txt ''Endpoint''],
                          El ''th'' [] [Txt ''Status''],
                          El ''th'' [] [Txt ''Queue depth''],
                          El ''th'' [] [Txt ''Oldest pending''],
                          El ''th'' [] [Txt ''Success (last 50)''],
                          El ''th'' [] [Txt ''Actions'']]],
                    El ''tbody'' []
                      (map (\<lambda>endpoint. EndpointRow U endpoint (Pause (ue_id U (v_id endpoint))) (Resume (ue_id U (v_id
                          endpoint))) (Rotate (endpoint_ref_of U endpoint))
                              (Replay_open (endpoint_ref_of U endpoint))
                              (row_busy (hu_pause H) (hu_resume H) (hu_rotate H) (hu_replay H) (ue_id U (v_id endpoint)))) es)]]]) @
         (if ac_showRegister (hu_actions H) then
            [Modal (Hook Register_closed)
               [RegisterForm Register (rg_error R) (rg_isPending R) (rg_url R) (rg_eventTypes R)]]
          else []) @
         (case ac_revealed (hu_actions H) of
           None \<Rightarrow> []
         | Some secret \<Rightarrow>
             [RevealedSecretModal U secret (Hook Secret_closed)]) @
         (case ac_disclosure (hu_actions H) of
           None \<Rightarrow> []
         | Some disclosure \<Rightarrow>
             [decoded (resume_result disclosure) (\<lambda>r. ResumeDisclosureModal r (Hook Disclosure_closed))]) @
         (case ra_target (hu_dialog H) of
           None \<Rightarrow> []
         | Some target \<Rightarrow>
             [ReplayForm U (er_url target) (Replay (er_id target)) (hu_replayError H) (mu_isPending (hu_replay H)) (hu_rangeStart
                 H) (hu_rangeEnd H) Replay_close]) @
         (case ra_result (hu_dialog H) of
           None \<Rightarrow> []
         | Some result \<Rightarrow>
             [ReplayResultModal (accepted_result result) Replay_result_close]))])"

section \<open>An endpoint and its queue\<close>

definition EndpointDetail :: 
    "ui_env \<Rightarrow> bool \<Rightarrow> health_view query_state \<Rightarrow> delivery_summary list query_state \<Rightarrow> hooks_state \<Rightarrow> page_act ui list" where
  "EndpointDetail U client eq qq H =
     (if \<not> client then [] else
      [El ''div'' []
        ([Breadcrumb
            [El ''Link'' [At ''to'' ''/console/endpoints''] [Txt ''Endpoints'']]] @
         (if qs_isLoading eq then [LoadingState (''Loading'' @ ellipsis)] else []) @
         (if qs_error eq \<noteq> None then [ErrorState (''Failed to load endpoint: '' @ the (qs_error eq))] else []) @
         (case truthy (ac_error (hu_actions H)) of
           None \<Rightarrow> []
         | Some message \<Rightarrow>
             [ActionErrorBanner message (Hook Error_dismissed)]) @
         (case qs_data eq of
           None \<Rightarrow> []
         | Some endpoint \<Rightarrow>
             [El ''div'' [Css [(''display'', ''flex''), (''alignItems'', ''center''), (''justifyContent'', ''space-between''), (''marginBottom'',
                 ''8'')]]
                [El ''div'' [Css [(''display'', ''flex''), (''alignItems'', ''center''), (''gap'', ''12'')]]
                   [El ''h1'' [Css [(''fontSize'', ''24'')]] [Txt (v_url endpoint)],
                    Badge (endpointTone (v_status endpoint)) [Txt (endpoint_status_text (v_status endpoint))]],
                 El ''div'' [Css [(''display'', ''flex''), (''gap'', ''8'')]]
                   ([El ''Link'' [At ''to'' (''/console/events?endpoint_id='' @ ue_id U (v_id endpoint))]
                       [Button Secondary [] (detail_busy (hu_pause H) (hu_resume H) (hu_rotate H) (hu_replay H)) [] [Txt ''Event history'']],
                     Button Secondary [On ''click'' (Replay_open (endpoint_ref_of U endpoint))] (detail_busy (hu_pause H) (hu_resume
                         H) (hu_rotate H) (hu_replay H)) [] [Txt (''Replay'' @ ellipsis)]] @
                    (if v_status endpoint = Active then
                       [Button Secondary [On ''click'' (Pause (ue_id U (v_id endpoint)))] (detail_busy (hu_pause H) (hu_resume
                           H) (hu_rotate H) (hu_replay H)) [] [Txt ''Pause'']]
                     else
                       [Button Secondary [On ''click'' (Resume (ue_id U (v_id endpoint)))] (detail_busy (hu_pause H) (hu_resume
                           H) (hu_rotate H) (hu_replay H)) [] [Txt (''Resume'' @ ellipsis)]]) @
                    [Button Secondary [On ''click'' (Rotate (endpoint_ref_of U endpoint))] (detail_busy (hu_pause H) (hu_resume H) (hu_rotate
                        H) (hu_replay H)) [] [Txt ''Rotate secret'']])],
              El ''p'' [Css [(''fontSize'', ''13''), (''color'', ''var(--color-text-muted)''), (''marginBottom'', ''20'')]]
                [Txt (js_join '', '' (v_event_types endpoint))]] @
             (if v_status endpoint = Halted then
                [Card False [(''marginBottom'', ''20''), (''borderColor'', ''var(--color-danger)'')]
                   [El ''h3'' [Css [(''fontSize'', ''13''), (''marginBottom'', ''8''), (''color'', ''var(--color-danger)'')]]
                      [Txt ''HALTED AT THE ATTEMPT CEILING''],
                    El ''p'' [Css [(''fontSize'', ''13''), (''margin'', ''0'')]]
                      [Txt (''The head delivery (highlighted below) exhausted its attempts, so this endpoint halted and everything'' @
                          '' behind it reports Blocked. Nothing was discarded '' @ em_dash @
                              '' Resume skips the failed head permanently and drains the rest, or Replay re-delivers past events'' @
                                  '' without disturbing the live queue.'')]]]
              else []) @
             [El ''div'' [At ''className'' ''app-grid-auto'', Css [(''marginBottom'', ''20'')]]
                [Field ''Queue depth'' (show_nat (v_queue_depth endpoint)) False,
                 Field ''Oldest pending'' (relative U (v_oldest_pending_at endpoint)) False,
                 Field ''Success rate (last 50)'' (formatPercent (ue_dbl U) (v_recent_success_rate endpoint)) False,
                 dated (date_time U (v_created_at endpoint)) (\<lambda>v. Field ''Registered'' v False)]]) @
         [El ''h2'' [Css [(''fontSize'', ''18''), (''marginBottom'', ''12'')]]
            [Txt ''Pending deliveries, in publication order'']] @
         (if qs_isLoading qq then [LoadingState (''Loading'' @ ellipsis)] else []) @
         (if qs_error qq \<noteq> None then [ErrorState (''Failed to load the queue: '' @ the (qs_error qq))] else []) @
         (if qs_data qq = Some [] then
            [Card False []
               [El ''p'' [Css [(''margin'', ''0''), (''color'', ''var(--color-text-muted)'')]]
                  [Txt (''Nothing in this endpoint'' @ apostrophe @ ''s queue right now.'')]]]
          else []) @
         (case some_rows (qs_data qq) of
           None \<Rightarrow> []
         | Some ds \<Rightarrow>
             [Card True [(''padding'', ''0'')]
                [El ''table'' [At ''className'' ''app-table'']
                   [El ''thead'' []
                      [El ''tr'' []
                         [El ''th'' [] [Txt ''#''],
                          El ''th'' [] [Txt ''Delivery''],
                          El ''th'' [] [Txt ''State''],
                          El ''th'' [] [Txt ''Next attempt'']]],
                    El ''tbody'' []
                      (map (\<lambda>d. El ''tr'' [Css (if qr_highlight d then [(''background'', ''var(--color-accent-100)'')] else [])]
                              [El ''td'' [] [Txt (qr_number d)],
                               El ''td'' []
                                 [El ''Link'' [At ''to'' (''/console/deliveries/'' @ ue_id U (qr_id d)), At ''className'' ''app-mono'']
                                    [Txt (ue_id U (qr_id d))]],
                               El ''td'' []
                                 ([Badge (qr_tone d) [Txt (delivery_state_text (qr_state d))]] @
                                  (if qr_head d then
                                     [El ''span'' [Css [(''fontSize'', ''12''), (''fontWeight'', if qr_highlight d then ''600'' else ''400''),
                                         (''marginLeft'', ''8'')]]
                                        [Txt ''head of queue'']]
                                   else []) @
                                  (case qr_blocked_on d of
                                    None \<Rightarrow> []
                                  | Some blocker \<Rightarrow>
                                      [El ''span'' [Css [(''fontSize'', ''12''), (''color'', ''var(--color-text-muted)''), (''marginLeft'', ''8'')]]
                                         [Txt ''blocked on'',
                                          Txt '' '',
                                          El ''Link'' [At ''to'' (''/console/deliveries/'' @ ue_id U blocker), At ''className'' ''app-mono'']
                                            [Txt (ue_id U blocker)]]])),
                               El ''td'' [] [Txt (qr_next d)]]) (queue_table (ue_date U) (ue_now U) (map_option v_status (qs_data
                                   eq)) ds))]]]) @
         (case ac_revealed (hu_actions H) of
           None \<Rightarrow> []
         | Some secret \<Rightarrow>
             [RevealedSecretModal U secret (Hook Secret_closed)]) @
         (case ac_disclosure (hu_actions H) of
           None \<Rightarrow> []
         | Some disclosure \<Rightarrow>
             [decoded (resume_result disclosure) (\<lambda>r. ResumeDisclosureModal r (Hook Disclosure_closed))]) @
         (case ra_target (hu_dialog H) of
           None \<Rightarrow> []
         | Some target \<Rightarrow>
             [ReplayForm U (er_url target) (Replay (er_id target)) (hu_replayError H) (mu_isPending (hu_replay H)) (hu_rangeStart
                 H) (hu_rangeEnd H) Replay_close]) @
         (case ra_result (hu_dialog H) of
           None \<Rightarrow> []
         | Some result \<Rightarrow>
             [ReplayResultModal (accepted_result result) Replay_result_close]))])"

section \<open>The overview\<close>

definition Overview :: 
    "ui_env \<Rightarrow> string \<Rightarrow> bool \<Rightarrow> health_view list query_state \<Rightarrow> event_view list query_state \<Rightarrow> (event_view list \<times> bool) query_state \<Rightarrow> page_act ui list" where
  "Overview U backend_label client endq evq recq =
     (if \<not> client then [] else
       let loading = (qs_isLoading endq \<or> qs_isLoading evq \<or> qs_isLoading recq);
           firstError = first_truthy [qs_error endq, qs_error evq, qs_error recq];
           es = (case qs_data endq of None \<Rightarrow> [] | Some es \<Rightarrow> es)
       in
        [El ''div'' []
           ([El ''h1'' [Css [(''fontSize'', ''28''), (''marginBottom'', ''4'')]] [Txt ''Delivery health''],
             El ''p'' [Css [(''fontSize'', ''13''), (''color'', ''var(--color-text-muted)''), (''marginBottom'', ''20'')]]
               [Txt (''Polling every 3s '' @ middle_dot @ '' ''),
                El ''strong'' [Css [(''fontWeight'', ''600'')]] [Txt backend_label]]] @
            (if loading then [LoadingState (''Loading'' @ ellipsis)] else []) @
            (case firstError of
              None \<Rightarrow> []
            | Some message \<Rightarrow>
                [ErrorState (''Failed to load overview: '' @ message)]) @
            (if \<not> loading \<and> firstError = None then
                (case (qs_data recq, qs_data evq) of
                  (Some (recent, hasMore), Some vs) \<Rightarrow>
                [El ''div'' [At ''className'' ''app-grid-auto'', Css [(''marginBottom'', ''24'')]]
                   [StatCard ''Events published (1h)'' (countLabel (length recent) hasMore) None Neutral,
                    StatCard ''Deliveries pending'' (show_nat (pendingTotal es)) (Some (''across '' @ show_nat (length es) @
                        '' endpoint'' @ (if length es = 1 then [] else ''s''))) Neutral,
                    StatCard ''Success rate (endpoint avg)'' (overviewSuccess (ue_dbl U) es) (Some (show_nat (length
                        (withSuccessRate es)) @ '' of '' @ show_nat (length es) @ '' reporting'')) Neutral,
                    StatCard ''Endpoints needing you'' (show_nat (fst (overviewAttention es))) (snd (snd (overviewAttention
                        es))) (fst (snd (overviewAttention es)))],
                 El ''div'' [At ''className'' ''app-grid-split'']
                   [El ''div'' []
                      ([El ''h2'' [Css [(''fontSize'', ''18''), (''marginBottom'', ''12'')]] [Txt ''Needs attention'']] @
                       (if needingAttention es = [] then
                          [Card False []
                             [El ''p'' [Css [(''margin'', ''0''), (''color'', ''var(--color-text-muted)''), (''fontSize'', ''13'')]]
                                [Txt (''Every endpoint is active '' @ em_dash @ '' nothing needs a look right now.'')]]]
                        else
                          [El ''div'' [Css [(''display'', ''flex''), (''flexDirection'', ''column''), (''gap'', ''12'')]]
                             (map (\<lambda>e. Card False []
                                     [Badge (if v_status e = Halted then Danger else Neutral) [Txt (endpoint_status_text (v_status e))],
                                      El ''Link'' [At ''to'' (''/console/endpoints/'' @ ue_id U (v_id e)), Css [(''display'', ''block''),
                                          (''fontWeight'', ''600''), (''marginTop'', ''8'')]]
                                        [Txt (v_url e)],
                                      El ''p'' [Css [(''fontSize'', ''12''), (''color'', ''var(--color-text-muted)''), (''margin'', ''4px 0 0'')]]
                                        [Txt (show_nat (v_queue_depth e)),
                                         Txt ('' pending '' @ middle_dot @ '' oldest ''),
                                         Txt (relative U (v_oldest_pending_at e))]]) (needingAttention es))])),
                    El ''div'' []
                      ([El ''h2'' [Css [(''fontSize'', ''18''), (''marginBottom'', ''12'')]] [Txt ''Recent events'']] @
                       (if vs = [] then
                          [Card False []
                             [El ''p'' [Css [(''margin'', ''0''), (''color'', ''var(--color-text-muted)''), (''fontSize'', ''13'')]]
                                [Txt ''Nothing published yet.'']]]
                        else
                          [Card True [(''padding'', ''0'')]
                             [El ''table'' [At ''className'' ''app-table'']
                                [El ''thead'' []
                                   [El ''tr'' []
                                      [El ''th'' [] [Txt ''Event''],
                                       El ''th'' [] [Txt ''Type''],
                                       El ''th'' [] [Txt ''Published''],
                                       El ''th'' [] [Txt ''Status'']]],
                                 El ''tbody'' []
                                   (map (\<lambda>event. El ''tr'' [At ''className'' ''clickable'', On ''click'' (Go (''/console/events/'' @
                                       ue_id U (w_id event)))]
                                           [El ''td'' [At ''className'' ''app-mono''] [Txt (ue_id U (w_id event))],
                                            El ''td'' [] [Txt (w_type event)],
                                            El ''td'' [] [dated (date_time U (w_created_at event)) Txt],
                                            El ''td'' []
                                              [Badge (if w_status event = Expanded then Accent else Neutral) [Txt (expansion_status_text
                                                  (w_status event))]]]) vs)]]]))]]
                | _ \<Rightarrow> [Throws])
              else []))])"

section \<open>A delivery\<close>

definition DeliveryDetail :: "ui_env \<Rightarrow> bool \<Rightarrow> delivery_view query_state \<Rightarrow> page_act ui list" where
  "DeliveryDetail U client q =
     (if \<not> client then [] else
      [El ''div'' []
        ([Breadcrumb
            ((case qs_data q of
               None \<Rightarrow> [El ''Link'' [At ''to'' ''/console/events''] [Txt ''Events'']]
             | Some delivery \<Rightarrow>
                 [El ''Link'' [At ''to'' (''/console/events/'' @ ue_id U (s_event_id (dv_summary delivery)))]
                    [Txt ''Event '',
                     Txt (ue_id U (s_event_id (dv_summary delivery)))],
                  Txt '' /'',
                  Txt '' '',
                  El ''Link'' [At ''to'' (''/console/endpoints/'' @ ue_id U (dv_endpoint_id delivery))]
                    [Txt ''Endpoint queue'']]))] @
         (if qs_isLoading q then [LoadingState (''Loading'' @ ellipsis)] else []) @
         (if qs_error q \<noteq> None then [ErrorState (''Failed to load delivery: '' @ the (qs_error q))] else []) @
         (case qs_data q of
           None \<Rightarrow> []
         | Some delivery \<Rightarrow>
             [El ''div'' [Css [(''display'', ''flex''), (''alignItems'', ''center''), (''gap'', ''12''), (''marginBottom'', ''8'')]]
                [El ''h1'' [Css [(''fontSize'', ''24'')], At ''className'' ''app-mono'']
                   [Txt (ue_id U (s_id (dv_summary delivery)))],
                 Badge (deliveryTone (s_state (dv_summary delivery))) [Txt (delivery_state_text (s_state (dv_summary delivery)))]],
              El ''p'' [Css [(''fontSize'', ''14''), (''marginBottom'', ''20'')]]
                ((case outstandingReason (s_state (dv_summary delivery)) (s_blocked_on_delivery_id (dv_summary delivery)) of
                    None \<Rightarrow> [] | Some r \<Rightarrow> [Txt (outstanding_text r)])),
              El ''div'' [At ''className'' ''app-grid-auto'', Css [(''marginBottom'', ''20'')]]
                [Field ''Event ID'' (ue_id U (s_event_id (dv_summary delivery))) True,
                 Field ''Endpoint ID'' (ue_id U (dv_endpoint_id delivery)) True,
                 Field ''Attempts'' (attemptsField (s_attempt_count (dv_summary delivery))) False,
                 Field ''Next attempt'' (nextAttemptDisplay (ue_date U) (ue_now U) (s_state (dv_summary delivery)) (toISOString (s_next_attempt_at
                     (dv_summary delivery)))) False]] @
             (case s_blocked_on_delivery_id (dv_summary delivery) of
               None \<Rightarrow> []
             | Some blocker \<Rightarrow>
                 [El ''p'' [Css [(''fontSize'', ''13''), (''marginBottom'', ''20'')]]
                    [Txt ''Blocked on'',
                     Txt '' '',
                     El ''Link'' [At ''to'' (''/console/deliveries/'' @ ue_id U blocker), At ''className'' ''app-mono'']
                       [Txt (ue_id U blocker)]]]) @
             (case dv_last_response delivery of
               None \<Rightarrow> []
             | Some response \<Rightarrow>
                 [Card False [(''marginBottom'', ''20'')]
                    ([El ''h3'' [Css [(''fontSize'', ''13''), (''marginBottom'', ''12''), (''color'', ''var(--color-text-muted)'')]]
                        [Txt ''LAST RESPONSE''],
                      El ''div'' [At ''className'' ''app-grid-auto'']
                        [Field ''Status'' (number_or_dash (l_response_status response)) False,
                         Field ''Duration'' (ms_or_dash (l_duration_ms response)) False,
                         Field ''Error class'' (class_or_dash (l_error_class response)) False]] @
                     (case truthy (l_response_body_truncated response) of
                       None \<Rightarrow> []
                     | Some body \<Rightarrow>
                         [El ''pre'' [Css [(''marginTop'', ''12''), (''fontFamily'', ''var(--font-mono)''), (''fontSize'', ''12''), (''whiteSpace'',
                             ''pre-wrap''), (''wordBreak'', ''break-word''), (''background'', ''var(--color-badge-bg)''), (''padding'', ''10'')]]
                            [Txt body]]))]) @
             [El ''h2'' [Css [(''fontSize'', ''18''), (''marginBottom'', ''12'')]] [Txt ''Attempt timeline'']] @
             (if dv_attempts delivery = [] then
                [Card False []
                   [El ''p'' [Css [(''margin'', ''0''), (''color'', ''var(--color-text-muted)'')]]
                      [Txt ''No attempts yet.'']]]
              else
                [Card True [(''padding'', ''0'')]
                   [El ''table'' [At ''className'' ''app-table'']
                      [El ''thead'' []
                         [El ''tr'' []
                            [El ''th'' [] [Txt ''#''],
                             El ''th'' [] [Txt ''Sent''],
                             El ''th'' [] [Txt ''Status''],
                             El ''th'' [] [Txt ''Duration''],
                             El ''th'' [] [Txt ''Error'']]],
                       El ''tbody'' []
                         (map (\<lambda>a. El ''tr'' []
                                 [El ''td'' [] [Txt (show_nat (t_attempt_number a))],
                                  El ''td'' []
                                    [(case t_sent_at a of None \<Rightarrow> Txt ''outstanding'' | Some t \<Rightarrow> dated (date_time U t) Txt)],
                                  El ''td'' [] [Txt (number_or_dash (t_response_status a))],
                                  El ''td'' [] [Txt (ms_or_dash (t_duration_ms a))],
                                  El ''td'' [] [Txt (class_or_dash (t_error_class a))]]) (dv_attempts delivery))]]])))])"

section \<open>Events\<close>

definition EventDetail :: 
    "ui_env \<Rightarrow> bool \<Rightarrow> string \<Rightarrow> (event_view \<times> fanout_view list) query_state \<Rightarrow> page_act ui list" where
  "EventDetail U client i q =
     (if \<not> client then [] else
      [El ''div'' []
        ([Breadcrumb
            [El ''Link'' [At ''to'' ''/console/events''] [Txt ''Events''],
             Txt '' / '',
             El ''span'' [At ''className'' ''app-mono''] [Txt i]]] @
         (if qs_isLoading q then [LoadingState (''Loading'' @ ellipsis)] else []) @
         (if qs_error q \<noteq> None then [ErrorState (''Failed to load event: '' @ the (qs_error q))] else []) @
         (case qs_data q of
           None \<Rightarrow> []
         | Some p \<Rightarrow>
             [El ''div'' [Css [(''display'', ''flex''), (''alignItems'', ''center''), (''gap'', ''12''), (''marginBottom'', ''20'')]]
                [El ''h1'' [Css [(''fontSize'', ''28'')]] [Txt (w_type (fst p))],
                 Badge (if w_status (fst p) = Expanded then Accent else Neutral) [Txt (expansion_status_text (w_status (fst p)))]],
              El ''div'' [At ''className'' ''app-grid-auto'', Css [(''marginBottom'', ''20'')]]
                [Field ''Event ID'' (ue_id U (w_id (fst p))) True,
                 dated (date_time U (w_created_at (fst p))) (\<lambda>v. Field ''Published'' v False),
                 Field ''Status'' (expansion_status_text (w_status (fst p))) False],
              Card False [(''marginBottom'', ''20'')]
                [El ''h3'' [Css [(''fontSize'', ''13''), (''marginBottom'', ''8''), (''color'', ''var(--color-text-muted)'')]]
                   [Txt ''PAYLOAD''],
                 El ''pre'' [Css [(''margin'', ''0''), (''fontFamily'', ''var(--font-mono)''), (''fontSize'', ''12''), (''whiteSpace'', ''pre-wrap''),
                     (''wordBreak'', ''break-word'')]]
                   [Txt (stringify_indented [] (w_payload (fst p)))]],
              El ''h2'' [Css [(''fontSize'', ''18''), (''marginBottom'', ''12'')]] [Txt ''Fan-out across endpoints'']] @
             (if snd p = [] then
                [Card False []
                   [El ''p'' [Css [(''margin'', ''0''), (''color'', ''var(--color-text-muted)'')]]
                      [Txt (''Not expanded yet '' @ em_dash @
                          '' deliveries will appear here once the worker fans this event out to subscribed endpoints.'')]]]
              else
                [Card True [(''padding'', ''0'')]
                   [El ''table'' [At ''className'' ''app-table'']
                      [El ''thead'' []
                         [El ''tr'' []
                            [El ''th'' [] [Txt ''Delivery''],
                             El ''th'' [] [Txt ''Endpoint''],
                             El ''th'' [] [Txt ''State''],
                             El ''th'' [] [Txt ''Attempts''],
                             El ''th'' [] [Txt ''Next attempt'']]],
                       El ''tbody'' []
                         (map (\<lambda>d. El ''tr'' [At ''className'' ''clickable'', On ''click'' (Go (''/console/deliveries/'' @ ue_id U (f_id d)))]
                                 [El ''td'' [At ''className'' ''app-mono''] [Txt (ue_id U (f_id d))],
                                  El ''td'' [At ''className'' ''app-mono''] [Txt (ue_id U (f_endpoint_id d))],
                                  El ''td'' [] [Badge (deliveryTone (f_state d)) [Txt (delivery_state_text (f_state d))]],
                                  El ''td'' [] [Txt (show_nat (f_attempt_count d))],
                                  El ''td'' []
                                    [Txt (nextAttemptDisplay (ue_date U) (ue_now U) (f_state d) (toISOString (f_next_attempt_at d)))]]) (snd p))]]])))])"

definition Events :: 
    "ui_env \<Rightarrow> string \<Rightarrow> bool \<Rightarrow> string \<Rightarrow> string option \<Rightarrow> event_view list query_state \<Rightarrow> page_act ui list" where
  "Events U backend_label client type endpointId q =
     (if \<not> client then [] else
      [El ''div'' []
        ([El ''div'' [Css [(''display'', ''flex''), (''alignItems'', ''center''), (''justifyContent'', ''space-between''), (''marginBottom'',
            ''20'')]]
            [El ''h1'' [Css [(''fontSize'', ''28'')]] [Txt ''Events''],
             TextInput [At ''type'' ''text'', At ''placeholder'' (''Filter by type'' @ ellipsis), At ''value'' type,
                 On ''change'' (Edit ''type'')] []]] @
         (case truthy endpointId of
           None \<Rightarrow> []
         | Some i \<Rightarrow>
             [El ''p'' [Css [(''fontSize'', ''13''), (''color'', ''var(--color-text-muted)''), (''marginBottom'', ''12'')]]
                [Txt ''Filtered to endpoint '',
                 El ''span'' [At ''className'' ''app-mono''] [Txt i],
                 Txt ('' '' @ em_dash),
                 Txt '' '',
                 El ''button'' [On ''click'' Clear_search, Css [(''background'', ''none''), (''border'', ''none''), (''cursor'', ''pointer''),
                     (''color'', ''var(--color-accent-700)''), (''padding'', ''0'')]]
                   [Txt ''clear'']]]) @
         (if qs_isLoading q then [LoadingState (''Loading'' @ ellipsis)] else []) @
         (if qs_error q \<noteq> None then [ErrorState (''Failed to load events: '' @ the (qs_error q))] else []) @
         (if qs_data q = Some [] then
            [Card False []
               [El ''p'' [Css [(''margin'', ''0''), (''color'', ''var(--color-text-muted)'')]]
                  [Txt ''No events published yet on '',
                   Txt backend_label,
                   Txt ''.'']]]
          else []) @
         (case some_rows (qs_data q) of
           None \<Rightarrow> []
         | Some vs \<Rightarrow>
             [Card True [(''padding'', ''0'')]
                [El ''table'' [At ''className'' ''app-table'']
                   [El ''thead'' []
                      [El ''tr'' []
                         [El ''th'' [] [Txt ''Event''],
                          El ''th'' [] [Txt ''Type''],
                          El ''th'' [] [Txt ''Published''],
                          El ''th'' [] [Txt ''Status'']]],
                    El ''tbody'' []
                      (map (\<lambda>event. El ''tr'' [At ''className'' ''clickable'', On ''click'' (Go (''/console/events/'' @
                          ue_id U (w_id event)))]
                              [El ''td'' [At ''className'' ''app-mono''] [Txt (ue_id U (w_id event))],
                               El ''td'' [] [Txt (w_type event)],
                               El ''td'' [] [dated (date_time U (w_created_at event)) Txt],
                               El ''td'' [] [Txt (expansion_status_text (w_status event))]]) vs)]]]))])"

section \<open>The shell\<close>

text \<open>\<open>isActive\<close> is what \<open>NavLink\<close> knows: whether the address is at or below a path.\<close>

definition SignIn :: "string \<Rightarrow> page_act ui" where
  "SignIn val =
     El ''div'' [Css [(''display'', ''flex''), (''justifyContent'', ''center''), (''paddingTop'', ''80'')]]
       [Card False [(''width'', ''420'')]
          [El ''h2'' [Css [(''fontSize'', ''20''), (''marginBottom'', ''12'')]] [Txt ''Sign in''],
           El ''p'' [Css [(''fontSize'', ''14''), (''color'', ''var(--color-text-muted)''), (''marginBottom'', ''20'')]]
             [Txt (''Paste your tenant API key. Keys are seeded out-of-band '' @ em_dash @ '' run''),
              Txt '' '',
              El ''code'' [Css [(''fontFamily'', ''var(--font-mono)'')]] [Txt ''npm run seed''],
              Txt '' (Node) or'',
              Txt '' '',
              El ''code'' [Css [(''fontFamily'', ''var(--font-mono)'')]] [Txt ''go run ./cmd/seed''],
              Txt '' (Go) against the backend you want to use, then paste the printed key here.''],
           El ''form'' [On ''submit'' (Submit_key val), Css [(''display'', ''flex''), (''flexDirection'', ''column''), (''gap'', ''12'')]]
             [El ''input'' [At ''type'' ''password'', Flag ''autoFocus'' True, At ''placeholder'' ''tenant_...'', At ''value'' val,
                 On ''change'' (Edit ''value''), Css [(''fontFamily'', ''var(--font-mono)''), (''fontSize'', ''13''), (''padding'', ''8px 10px''),
                     (''border'', ''1px solid var(--color-divider)''), (''borderRadius'', ''var(--radius)'')]]
                [],
              Button Primary [At ''type'' ''submit''] (js_trim val = []) [] [Txt ''Continue'']]]]"

definition NotFound :: "page_act ui" where
  "NotFound =
     Card False []
       [El ''h1'' [Css [(''fontSize'', ''20''), (''marginBottom'', ''8'')]] [Txt ''Not found''],
        El ''p'' [Css [(''fontSize'', ''13''), (''color'', ''var(--color-text-muted)''), (''margin'', ''0'')]]
          [Txt ''Nothing here. '',
           El ''Link'' [At ''to'' ''/console/overview''] [Txt ''Back to overview''],
           Txt ''.'']]"

definition navLinkStyle :: "bool \<Rightarrow> css" where
  "navLinkStyle isActive =
     [(''display'', ''inline-block''), (''padding'', ''10px 20px''), (''fontFamily'', ''var(--font-body)''), (''fontSize'', ''15''),
      (''color'', ''var(--color-text)''), (''background'', if isActive then ''var(--color-accent)'' else ''transparent'')] @
     (if isActive then [(''color'', ''var(--color-bg)'')] else [])"

definition ConsoleShell :: 
    "env \<Rightarrow> (string \<Rightarrow> bool) \<Rightarrow> console \<Rightarrow> string \<Rightarrow> page_act ui list \<Rightarrow> page_act ui" where
  "ConsoleShell env isActive c input outlet =
     El ''div'' [Css [(''minHeight'', ''100vh''), (''background'', ''var(--color-bg)'')]]
       [El ''header'' [Css [(''display'', ''flex''), (''alignItems'', ''center''), (''justifyContent'', ''space-between''), (''borderBottom'',
           ''1px solid var(--color-divider)''), (''padding'', ''0 24px'')]]
          [El ''div'' [Css [(''display'', ''flex''), (''alignItems'', ''center''), (''gap'', ''24'')]]
             [El ''NavLink'' [At ''to'' ''/'', Css [(''color'', ''var(--color-text)'')]]
                [El ''span'' [Css [(''fontFamily'', ''var(--font-heading)''), (''fontWeight'', ''700''), (''fontSize'', ''20''), (''letterSpacing'',
                    ''0.8'')]]
                   [Txt ''Gauntlet Relay'']],
              El ''span'' [Css [(''color'', ''var(--color-divider)'')]] [Txt ''|''],
              El ''span'' [Css [(''fontFamily'', ''var(--font-body)''), (''fontSize'', ''12''), (''letterSpacing'', ''1''), (''color'',
                  ''var(--color-text-muted)'')]]
                [Txt ''CONSOLE''],
              El ''nav'' [Css [(''display'', ''flex'')]]
                [El ''NavLink'' [At ''to'' ''/console/overview'', Css (navLinkStyle (isActive ''/console/overview''))]
                   [Txt ''Overview''],
                 El ''NavLink'' [At ''to'' ''/console/endpoints'', Css (navLinkStyle (isActive ''/console/endpoints''))]
                   [Txt ''Endpoints''],
                 El ''NavLink'' [At ''to'' ''/console/events'', Css (navLinkStyle (isActive ''/console/events''))]
                   [Txt ''Events'']]],
           El ''div'' [Css [(''display'', ''flex''), (''alignItems'', ''center''), (''gap'', ''16'')]]
             ([El ''label'' [Css [(''fontFamily'', ''var(--font-body)''), (''fontSize'', ''12''), (''letterSpacing'', ''1''), (''color'',
                 ''var(--color-text-muted)'')]]
                 [Txt ''BACKEND''],
               El ''select'' [At ''value'' (backend_text (bo_id (current_backend env c))), On ''change'' Choose_backend, Css [(''border'',
                   ''1px solid var(--color-divider)''), (''borderRadius'', ''var(--radius)''), (''padding'', ''6px 8px''), (''background'',
                       ''var(--color-surface)'')]]
                 (map (\<lambda>b. El ''option'' [At ''value'' (backend_text (bo_id b))] [Txt (bo_label b)]) (BACKENDS env))] @
              (case truthy (cs_apiKey c) of
                None \<Rightarrow> []
              | Some key \<Rightarrow>
                  [El ''button'' [On ''click'' Sign_out, Css [(''background'', ''none''), (''border'', ''none''), (''cursor'', ''pointer''),
                      (''color'', ''var(--color-accent-700)''), (''fontSize'', ''13'')]]
                     [Txt ''Sign out'']]))],
        El ''main'' [Css [(''padding'', ''24px 32px'')]]
          ((case truthy (cs_apiKey c) of
             None \<Rightarrow> [SignIn input]
           | Some key \<Rightarrow>
               outlet))]"

section \<open>The routes\<close>

text \<open>What each page is rendered from, and the page under a path of \<^verbatim>\<open>App.tsx\<close>.\<close>

record console_data =
  cd_label :: string
  cd_client :: bool
  cd_endpoints :: "health_view list query_state"
  cd_recent :: "event_view list query_state"
  cd_hour :: "(event_view list \<times> bool) query_state"
  cd_endpoint :: "health_view query_state"
  cd_queue :: "delivery_summary list query_state"
  cd_events :: "event_view list query_state"
  cd_event :: "(event_view \<times> fanout_view list) query_state"
  cd_delivery :: "delivery_view query_state"
  cd_hooks :: hooks_state
  cd_register :: register_state
  cd_type :: string
  cd_endpoint_id :: "string option"

definition console_outlet :: "ui_env \<Rightarrow> console_data \<Rightarrow> page \<Rightarrow> page_act ui list" where
  "console_outlet U D p = (case p of
     Landing_page \<Rightarrow> []
   | Overview_page \<Rightarrow> Overview U (cd_label D) (cd_client D) (cd_endpoints D) (cd_recent D) (cd_hour D)
   | Endpoints_page \<Rightarrow> Endpoints U (cd_label D) (cd_client D) (cd_endpoints D) (cd_hooks D) (cd_register D)
   | Endpoint_page i \<Rightarrow> EndpointDetail U (cd_client D) (cd_endpoint D) (cd_queue D) (cd_hooks D)
   | Events_page \<Rightarrow> Events U (cd_label D) (cd_client D) (cd_type D) (cd_endpoint_id D) (cd_events D)
   | Event_page i \<Rightarrow> EventDetail U (cd_client D) i (cd_event D)
   | Delivery_page i \<Rightarrow> DeliveryDetail U (cd_client D) (cd_delivery D)
   | Not_found_page \<Rightarrow> [NotFound])"

end
