(* ===== verification/Interleaving.thy ===== *)
theory Interleaving
  imports Guarantees
begin

text \<open>
  Claims statement by statement.  \<open>System\<close> takes \<^verbatim>\<open>tryClaimEndpoint\<close> as one step; here every SQL statement
  of it is a step of its own, as it is a transaction of its own in the code, and anything may happen
  between two of them, the worker's death included.  A claim under way is its candidate row, its lease
  and the statement it has to run next (\<open>claim_stage\<close>), with what its local variables hold.

  Every step of \<open>System\<close> is a run of these (\<open>fine_system_step\<close>), but not the other way round: there is more
  to be seen between two statements.  \<open>Interleaving_Facts\<close> and \<open>Claim_Guarantees\<close> have what is promised there,
  provided that a claim does not outlast its lease (\<open>prompt\<close>); \<open>Stalled_Claim\<close> shows that the proviso is needed.
\<close>

section \<open>Claims under way\<close>

datatype claim_stage =
    To_serve
  | To_expire
  | To_requeue
  | To_select
  | To_release
  | To_insert "delivery \<times> event \<times> endpoint"
  | To_mark "delivery \<times> event \<times> endpoint" uuid

record claiming =
  cm_cand :: candidate_row
  cm_lease :: uuid
  cm_stage :: claim_stage

abbreviation cm_endpoint :: "claiming \<Rightarrow> uuid" where
  "cm_endpoint cm \<equiv> cand_id (cm_cand cm)"

datatype claim_progress =
    Continues claim_stage
  | Ends "worker_error + claimed_delivery option"

definition claim_stmt ::
    "(string \<Rightarrow> string option) \<Rightarrow> claim_clock \<Rightarrow> claiming \<Rightarrow> db \<Rightarrow> claim_progress \<times> db" where
  "claim_stmt dec clk cm s =
     (let cand = cm_cand cm; l = cm_lease cm in
      case cm_stage cm of
        To_serve \<Rightarrow>
          (Continues (if cand_busy cand then To_expire else To_select), stmt_serve (at_serve clk) (cand_tenant_id cand) s)
      | To_expire \<Rightarrow>
          (case stmt_expire_orphans (cand_id cand) s of
             None \<Rightarrow> (Ends (Inl Cardinality_violation), s)
           | Some s' \<Rightarrow> (Continues To_requeue, s'))
      | To_requeue \<Rightarrow> (Continues To_select, stmt_requeue (cand_id cand) s)
      | To_select \<Rightarrow>
          (case select_head (cand_id cand) s of
             None \<Rightarrow> (Continues To_release, s)
           | Some row \<Rightarrow>
               if js_of_ts (d_next_attempt_at (fst row)) > at_head clk then (Continues To_release, s)
               else (Continues (To_insert row), s))
      | To_release \<Rightarrow> (Ends (Inr None), stmt_release (cand_id cand) l s)
      | To_insert (d, v, e) \<Rightarrow>
          (let (aid, s') = stmt_insert_attempt (at_sent clk) (d_id d) (d_attempt_count d + 1) s
           in (Continues (To_mark (d, v, e) aid), s'))
      | To_mark (d, v, e) aid \<Rightarrow>
          (Ends (case claim_secrets dec (at_secret clk) e of
                   None \<Rightarrow> Inl Secret_unreadable
                 | Some (p, q) \<Rightarrow> Inr (Some (new_claim cand l d v e aid p q))),
           stmt_in_flight (d_id d) (d_attempt_count d + 1) s))"

record fine =
  fs_db :: db
  fs_hands :: "claimed_delivery list"
  fs_claims :: "claiming list"

text \<open>
  \<open>prompt\<close>: whenever a worker takes a lease, by its own cutoff the leases of the claims under way have not
  expired.
\<close>

definition lease_fresh :: "ts \<Rightarrow> uuid \<Rightarrow> db \<Rightarrow> bool" where
  "lease_fresh cutoff eid s \<longleftrightarrow> (\<forall>e\<in>set (endpoints s). ep_id e = eid \<longrightarrow>
     (case ep_busy_since e of None \<Rightarrow> True | Some b \<Rightarrow> cutoff \<le> b))"

inductive fine_step :: "backoff_config \<Rightarrow> bool \<Rightarrow> fine \<Rightarrow> fine \<Rightarrow> bool" for cfg prompt where
  fine_seed: "seed_tenant X now rnd name (fs_db u) = Some (i, key, t) \<Longrightarrow> fine_step cfg prompt u (u\<lparr>fs_db := t\<rparr>)"
| fine_request: "handle_request E i r (fs_db u) = (resp, t) \<Longrightarrow> fine_step cfg prompt u (u\<lparr>fs_db := t\<rparr>)"
| fine_expand: "runExpansionCycle locked now (fs_db u) = (b, t) \<Longrightarrow> fine_step cfg prompt u (u\<lparr>fs_db := t\<rparr>)"
| fine_replay: "runReplayExpansionCycle locked now (fs_db u) = (b, t) \<Longrightarrow> fine_step cfg prompt u (u\<lparr>fs_db := t\<rparr>)"
| fine_complete: "c \<in> set (fs_hands u) \<Longrightarrow> outcome_closed r \<Longrightarrow>
    completeDelivery now rnd c r cfg (fs_db u) = (res, t) \<Longrightarrow>
    fine_step cfg prompt u (u\<lparr>fs_db := t, fs_hands := remove1 c (fs_hands u)\<rparr>)"
| fine_crash: "c \<in> set (fs_hands u) \<Longrightarrow> fine_step cfg prompt u (u\<lparr>fs_hands := remove1 c (fs_hands u)\<rparr>)"
| fine_take: "stmt_claim now cutoff (cand_id cand) (fs_db u) = (Some l, t) \<Longrightarrow> fresh_candidate cand (fs_db u) \<Longrightarrow>
    (prompt \<Longrightarrow> \<forall>cm\<in>set (fs_claims u). lease_fresh cutoff (cm_endpoint cm) (fs_db u)) \<Longrightarrow>
    fine_step cfg prompt u (u\<lparr>fs_db := t,
      fs_claims := \<lparr>cm_cand = cand, cm_lease = l, cm_stage = To_serve\<rparr> # fs_claims u\<rparr>)"
| fine_statement: "cm \<in> set (fs_claims u) \<Longrightarrow> claim_stmt dec clk cm (fs_db u) = (Continues st, t) \<Longrightarrow>
    fine_step cfg prompt u (u\<lparr>fs_db := t, fs_claims := cm\<lparr>cm_stage := st\<rparr> # remove1 cm (fs_claims u)\<rparr>)"
| fine_end: "cm \<in> set (fs_claims u) \<Longrightarrow> claim_stmt dec clk cm (fs_db u) = (Ends res, t) \<Longrightarrow>
    fine_step cfg prompt u \<lparr>fs_db = t, fs_hands = hands_after res (fs_hands u), fs_claims = remove1 cm (fs_claims u)\<rparr>"
| fine_abort: "cm \<in> set (fs_claims u) \<Longrightarrow> fine_step cfg prompt u (u\<lparr>fs_claims := remove1 cm (fs_claims u)\<rparr>)"

definition fine_run :: "backoff_config \<Rightarrow> bool \<Rightarrow> fine \<Rightarrow> fine \<Rightarrow> bool" where
  "fine_run cfg prompt = (fine_step cfg prompt)\<^sup>*\<^sup>*"

definition fine_of :: "sys \<Rightarrow> fine" where
  "fine_of u = \<lparr>fs_db = s_db u, fs_hands = s_hands u, fs_claims = []\<rparr>"

inductive fine_reachable :: "backoff_config \<Rightarrow> bool \<Rightarrow> fine \<Rightarrow> bool" for cfg prompt where
  fine_start: "inj g \<Longrightarrow> fine_reachable cfg prompt (fine_of (sys_start g))"
| fine_next: "fine_reachable cfg prompt u \<Longrightarrow> fine_step cfg prompt u u' \<Longrightarrow> fine_reachable cfg prompt u'"

section \<open>The coarse steps are runs of these\<close>

lemma fine_run_refl [simp]: "fine_run cfg prompt u u"
  by (simp add: fine_run_def)

lemma fine_run_step: "fine_step cfg prompt u v \<Longrightarrow> fine_run cfg prompt v w \<Longrightarrow> fine_run cfg prompt u w"
  unfolding fine_run_def by (rule converse_rtranclp_into_rtranclp)

lemma fine_run_trans: "fine_run cfg prompt u v \<Longrightarrow> fine_run cfg prompt v w \<Longrightarrow> fine_run cfg prompt u w"
  unfolding fine_run_def by (rule rtranclp_trans)

lemma fine_continue:
  assumes "claim_stmt dec clk \<lparr>cm_cand = cand, cm_lease = l, cm_stage = st\<rparr> s = (Continues st', t)"
  shows "fine_step cfg prompt \<lparr>fs_db = s, fs_hands = hs, fs_claims = [\<lparr>cm_cand = cand, cm_lease = l, cm_stage = st\<rparr>]\<rparr>
    \<lparr>fs_db = t, fs_hands = hs, fs_claims = [\<lparr>cm_cand = cand, cm_lease = l, cm_stage = st'\<rparr>]\<rparr>"
  using fine_statement [of "\<lparr>cm_cand = cand, cm_lease = l, cm_stage = st\<rparr>"
      "\<lparr>fs_db = s, fs_hands = hs, fs_claims = [\<lparr>cm_cand = cand, cm_lease = l, cm_stage = st\<rparr>]\<rparr>"] assms
  by simp

lemma fine_finish:
  assumes "claim_stmt dec clk \<lparr>cm_cand = cand, cm_lease = l, cm_stage = st\<rparr> s = (Ends res, t)"
  shows "fine_run cfg prompt \<lparr>fs_db = s, fs_hands = hs, fs_claims = [\<lparr>cm_cand = cand, cm_lease = l, cm_stage = st\<rparr>]\<rparr>
    \<lparr>fs_db = t, fs_hands = hands_after res hs, fs_claims = []\<rparr>"
  using fine_end [of "\<lparr>cm_cand = cand, cm_lease = l, cm_stage = st\<rparr>"
      "\<lparr>fs_db = s, fs_hands = hs, fs_claims = [\<lparr>cm_cand = cand, cm_lease = l, cm_stage = st\<rparr>]\<rparr>"] assms
  by (fastforce intro: fine_run_step [OF _ fine_run_refl])

lemma fine_attempt:
  fixes clk :: claim_clock
  assumes "select_head (cand_id cand) s = Some (d, v, e)" "js_of_ts (d_next_attempt_at d) \<le> at_head clk"
  shows "fine_run cfg prompt \<lparr>fs_db = s, fs_hands = hs, fs_claims = [\<lparr>cm_cand = cand, cm_lease = l, cm_stage = To_select\<rparr>]\<rparr>
    \<lparr>fs_db = record_attempt (at_sent clk) d s,
     fs_hands = hands_after (case claim_secrets dec (at_secret clk) e of
         None \<Rightarrow> Inl Secret_unreadable
       | Some (p, q) \<Rightarrow> Inr (Some (new_claim cand l d v e (uuid_src s (uuid_draws s)) p q))) hs, fs_claims = []\<rparr>"
proof -
  let ?st = "\<lambda>s st. \<lparr>fs_db = s, fs_hands = hs, fs_claims = [\<lparr>cm_cand = cand, cm_lease = l, cm_stage = st\<rparr>]\<rparr>"
  let ?s1 = "snd (stmt_insert_attempt (at_sent clk) (d_id d) (d_attempt_count d + 1) s)"
    and ?aid = "uuid_src s (uuid_draws s)"
  have "fine_step cfg prompt (?st s To_select) (?st s (To_insert (d, v, e)))"
    by (rule fine_continue [where dec = dec and clk = clk]) (use assms in \<open>simp add: claim_stmt_def\<close>)
  moreover have "fine_step cfg prompt (?st s (To_insert (d, v, e))) (?st ?s1 (To_mark (d, v, e) ?aid))"
    by (rule fine_continue [where dec = dec and clk = clk])
       (simp add: claim_stmt_def stmt_insert_attempt_def gen_random_uuid_def Let_def)
  moreover have "fine_run cfg prompt (?st ?s1 (To_mark (d, v, e) ?aid))
      \<lparr>fs_db = record_attempt (at_sent clk) d s,
       fs_hands = hands_after (case claim_secrets dec (at_secret clk) e of
           None \<Rightarrow> Inl Secret_unreadable
         | Some (p, q) \<Rightarrow> Inr (Some (new_claim cand l d v e ?aid p q))) hs, fs_claims = []\<rparr>"
    by (rule fine_finish [where dec = dec and clk = clk]) (simp add: claim_stmt_def record_attempt_def)
  ultimately show ?thesis by (blast intro: fine_run_step)
qed

lemma fine_reclaim:
  fixes clk :: claim_clock
  assumes "reclaim cand (stmt_serve (at_serve clk) (cand_tenant_id cand) s) = Some t"
  shows "fine_run cfg prompt \<lparr>fs_db = s, fs_hands = hs, fs_claims = [\<lparr>cm_cand = cand, cm_lease = l, cm_stage = To_serve\<rparr>]\<rparr>
    \<lparr>fs_db = t, fs_hands = hs, fs_claims = [\<lparr>cm_cand = cand, cm_lease = l, cm_stage = To_select\<rparr>]\<rparr>"
proof -
  let ?st = "\<lambda>s st. \<lparr>fs_db = s, fs_hands = hs, fs_claims = [\<lparr>cm_cand = cand, cm_lease = l, cm_stage = st\<rparr>]\<rparr>"
  let ?s1 = "stmt_serve (at_serve clk) (cand_tenant_id cand) s"
  note step = fine_continue [where clk = clk]
  show ?thesis
  proof (cases "cand_busy cand")
    case True
    then obtain u where u: "stmt_expire_orphans (cand_id cand) ?s1 = Some u" "t = stmt_requeue (cand_id cand) u"
      using assms by (auto simp: reclaim_def)
    have "fine_step cfg prompt (?st s To_serve) (?st ?s1 To_expire)" by (rule step) (simp add: claim_stmt_def True)
    moreover have "fine_step cfg prompt (?st ?s1 To_expire) (?st u To_requeue)" by (rule step) (simp add: claim_stmt_def u)
    moreover have "fine_step cfg prompt (?st u To_requeue) (?st t To_select)" by (rule step) (simp add: claim_stmt_def u)
    ultimately show ?thesis by (blast intro: fine_run_step fine_run_refl)
  next
    case False
    have "fine_step cfg prompt (?st s To_serve) (?st t To_select)"
      by (rule step) (use assms False in \<open>simp add: claim_stmt_def reclaim_def\<close>)
    then show ?thesis by (blast intro: fine_run_step fine_run_refl)
  qed
qed

lemma fine_claim:
  assumes "tryClaimEndpoint dec clk cand cutoff s = (r, t)" "fresh_candidate cand s"
  shows "fine_run cfg prompt \<lparr>fs_db = s, fs_hands = hs, fs_claims = []\<rparr>
    \<lparr>fs_db = t, fs_hands = hands_after r hs, fs_claims = []\<rparr>"
proof -
  let ?st = "\<lambda>l s st. \<lparr>fs_db = s, fs_hands = hs, fs_claims = [\<lparr>cm_cand = cand, cm_lease = l, cm_stage = st\<rparr>]\<rparr>"
  have take: "fine_run cfg prompt (?st l s1 To_serve) w \<Longrightarrow> fine_run cfg prompt \<lparr>fs_db = s, fs_hands = hs, fs_claims = []\<rparr> w"
    if "stmt_claim (at_claim clk) cutoff (cand_id cand) s = (Some l, s1)" for l s1 w
    using fine_take [of "at_claim clk" cutoff cand "\<lparr>fs_db = s, fs_hands = hs, fs_claims = []\<rparr>" l s1] that assms(2)
    by (auto intro: fine_run_step)
  have select: "fine_run cfg prompt (?st l s3 To_select) w \<Longrightarrow> fine_run cfg prompt \<lparr>fs_db = s, fs_hands = hs, fs_claims = []\<rparr> w"
    if "stmt_claim (at_claim clk) cutoff (cand_id cand) s = (Some l, s1)"
      "reclaim cand (stmt_serve (at_serve clk) (cand_tenant_id cand) s1) = Some s3" for l s1 s3 w
    using take [OF that(1)] fine_reclaim [OF that(2)] fine_run_trans by blast
  from assms(1) show ?thesis
  proof (cases rule: tryClaimEndpoint_cases)
    case lost
    then show ?thesis by (simp add: hands_after_def)
  next
    case (ambiguous l s1)
    let ?s2 = "stmt_serve (at_serve clk) (cand_tenant_id cand) s1"
    have b: "cand_busy cand" "stmt_expire_orphans (cand_id cand) ?s2 = None"
      using ambiguous(2) by (auto simp: reclaim_def split: if_splits)
    have "fine_step cfg prompt (?st l s1 To_serve) (?st l ?s2 To_expire)"
      by (rule fine_continue [where clk = clk]) (simp add: claim_stmt_def b)
    moreover have "fine_run cfg prompt (?st l ?s2 To_expire) \<lparr>fs_db = t, fs_hands = hands_after r hs, fs_claims = []\<rparr>"
      by (rule fine_finish [where clk = clk]) (simp add: claim_stmt_def b ambiguous)
    ultimately show ?thesis by (blast intro: fine_run_step take [OF ambiguous(1)])
  next
    case (idle l s1 s3)
    have "fine_step cfg prompt (?st l s3 To_select) (?st l s3 To_release)"
      by (rule fine_continue [where clk = clk]) (use idle(3) in \<open>auto simp: claim_stmt_def split: option.splits\<close>)
    moreover have "fine_run cfg prompt (?st l s3 To_release) \<lparr>fs_db = t, fs_hands = hands_after r hs, fs_claims = []\<rparr>"
      by (rule fine_finish [where clk = clk]) (simp add: claim_stmt_def idle)
    ultimately show ?thesis by (blast intro: fine_run_step select [OF idle(1,2)])
  next
    case (unreadable l s1 s3 d v e)
    show ?thesis
      using select [OF unreadable(1,2) fine_attempt [OF unreadable(3,4), of cfg prompt hs l dec]] unreadable(5-7) by simp
  next
    case (claimed l s1 s3 d v e p q)
    show ?thesis
      using select [OF claimed(1,2) fine_attempt [OF claimed(3,4), of cfg prompt hs l dec]] claimed(5-7) by simp
  qed
qed

lemma fine_system_step:
  assumes "sys_step cfg u u'"
  shows "fine_run cfg prompt (fine_of u) (fine_of u')"
  using assms
proof (cases rule: sys_step.cases)
  case (step_claim dec clk cand cutoff res t)
  then show ?thesis using fine_claim [OF step_claim(2,3)] by (simp add: fine_of_def)
next
  case (step_complete c r now rnd res t)
  then show ?thesis
    using fine_complete [of c "fine_of u" r now rnd cfg res t prompt] by (auto simp: fine_of_def intro: fine_run_step)
next
  case (step_crash c)
  then show ?thesis
    using fine_crash [of c "fine_of u" cfg prompt] by (auto simp: fine_of_def intro: fine_run_step)
next
  case (step_seed X now rnd name i key t)
  then show ?thesis
    using fine_seed [of X now rnd name "fine_of u" i key t cfg prompt] by (auto simp: fine_of_def intro: fine_run_step)
next
  case (step_request E i r resp t)
  then show ?thesis
    using fine_request [of E i r "fine_of u" resp t cfg prompt] by (auto simp: fine_of_def intro: fine_run_step)
next
  case (step_expand locked now b t)
  then show ?thesis
    using fine_expand [of locked now "fine_of u" b t cfg prompt] by (auto simp: fine_of_def intro: fine_run_step)
next
  case (step_replay locked now b t)
  then show ?thesis
    using fine_replay [of locked now "fine_of u" b t cfg prompt] by (auto simp: fine_of_def intro: fine_run_step)
qed

end
