(* ===== verification/Interleaving_Facts.thy ===== *)
theory Interleaving_Facts
  imports Interleaving
begin

text \<open>
  The promises of the delivery worker between the statements of a claim: \<open>fine_ok\<close> says where each claim
  under way is and what it relies on, every statement keeps it, and it touches no endpoint but its own
  (\<open>undisturbed\<close>).
\<close>

section \<open>The invariant between the statements\<close>

text \<open>What a worker relies on does not change when an endpoint is left undisturbed.\<close>

definition undisturbed :: "uuid \<Rightarrow> db \<Rightarrow> db \<Rightarrow> bool" where
  "undisturbed x s t \<longleftrightarrow> fence x t = fence x s \<and> in_flight_of x t = in_flight_of x s \<and>
     (\<forall>d\<in>set (deliveries s). d_endpoint_id d = x \<longrightarrow> d \<in> set (deliveries t))"

definition hand_ok :: "db \<Rightarrow> claimed_delivery \<Rightarrow> bool" where
  "hand_ok s c \<longleftrightarrow> c_leaseId c \<in> drawn_ids s \<and> (holds c s \<longrightarrow> claim_row s c)"

definition head_waits :: "uuid \<Rightarrow> delivery \<Rightarrow> db \<Rightarrow> bool" where
  "head_waits eid d s \<longleftrightarrow> in_flight_of eid s = [] \<and> (\<exists>d'\<in>set (deliveries s). d_id d' = d_id d \<and>
     d_endpoint_id d' = eid \<and> d_state d' = Pending \<and> d_attempt_count d' = d_attempt_count d)"

definition stage_ok :: "candidate_row \<Rightarrow> claim_stage \<Rightarrow> db \<Rightarrow> bool" where
  "stage_ok cand st s =
     (case st of
        To_serve \<Rightarrow> cand_busy cand \<or> in_flight_of (cand_id cand) s = []
      | To_expire \<Rightarrow> True
      | To_requeue \<Rightarrow> True
      | To_select \<Rightarrow> in_flight_of (cand_id cand) s = []
      | To_release \<Rightarrow> in_flight_of (cand_id cand) s = []
      | To_insert (d, v, e) \<Rightarrow> head_waits (cand_id cand) d s
      | To_mark (d, v, e) aid \<Rightarrow> head_waits (cand_id cand) d s)"

definition claiming_ok :: "db \<Rightarrow> claiming \<Rightarrow> bool" where
  "claiming_ok s cm \<longleftrightarrow> cm_lease cm \<in> drawn_ids s \<and> fence (cm_endpoint cm) s = Some (cm_lease cm) \<and>
     stage_ok (cm_cand cm) (cm_stage cm) s"

definition leases_of :: "claimed_delivery list \<Rightarrow> claiming list \<Rightarrow> uuid list" where
  "leases_of hs cms = map c_leaseId hs @ map cm_lease cms"

definition fine_ok :: "db \<Rightarrow> claimed_delivery list \<Rightarrow> claiming list \<Rightarrow> bool" where
  "fine_ok s hs cms \<longleftrightarrow> wf_db s \<and> single_flight s \<and> (\<forall>c\<in>set hs. hand_ok s c) \<and> (\<forall>cm\<in>set cms. claiming_ok s cm) \<and>
     distinct (leases_of hs cms)"

lemma undisturbed_refl [simp]: "undisturbed x s s"
  by (simp add: undisturbed_def)

lemma undisturbed_appended:
  assumes "deliveries t = deliveries s @ ns" "\<forall>d\<in>set ns. new_row now d" "fence x t = fence x s"
  shows "undisturbed x s t"
  using in_flight_append [OF assms(1,2), of x] assms(1,3) by (simp add: undisturbed_def)

lemma hand_undisturbed:
  assumes "hand_ok s c" "undisturbed (c_endpointId c) s t" "drawn_ids s \<subseteq> drawn_ids t"
  shows "hand_ok t c"
  using assms by (auto simp: hand_ok_def undisturbed_def holds_def claim_row_def)

lemma claiming_undisturbed:
  assumes "claiming_ok s cm" "undisturbed (cm_endpoint cm) s t" "drawn_ids s \<subseteq> drawn_ids t"
  shows "claiming_ok t cm"
  using assms
  by (cases "cm_stage cm") (auto simp: claiming_ok_def undisturbed_def stage_ok_def head_waits_def)

lemma single_flight_fence:
  assumes "wf_db s"
  shows "single_flight s \<longleftrightarrow>
    (\<forall>x. length (in_flight_of x s) \<le> 1 \<and> (in_flight_of x s \<noteq> [] \<longrightarrow> fence x s \<noteq> None))"
proof -
  have busy: "ep_busy e \<longleftrightarrow> fence (ep_id e) s \<noteq> None" if "e \<in> set (endpoints s)" for e
  proof -
    have "find_by ep_id (ep_id e) (endpoints s) = Some e"
      by (rule find_by_eq_Some) (use assms that in \<open>simp_all add: wf_db_def keys_ok_def\<close>)
    with assms that show ?thesis by (auto simp: fence_def wf_db_def lease_ok_def lease_cols_def)
  qed
  have "in_flight_of x s = []" if "x \<notin> ep_id ` set (endpoints s)" for x
    using in_flight_known [OF assms] that by blast
  with busy show ?thesis
    unfolding single_flight_def by (metis imageE le0 list.size(3))
qed

text \<open>A step that leaves every endpoint undisturbed but the one its lease is on.\<close>

lemma fine_ok_local:
  assumes ok: "fine_ok s hs cms" and wf: "wf_db t" and drawn: "drawn_ids s \<subseteq> drawn_ids t"
    and mine: "fence eid s = Some l" "l \<notin> set (leases_of hs cms)"
    and far: "\<And>x. x \<noteq> eid \<Longrightarrow> undisturbed x s t"
    and near: "length (in_flight_of eid t) \<le> 1" "in_flight_of eid t \<noteq> [] \<Longrightarrow> fence eid t = Some l"
      "fence eid t = Some l \<or> fence eid t = None"
  shows "fine_ok t hs cms"
proof -
  have "single_flight t"
    unfolding single_flight_fence [OF wf]
  proof
    fix x
    show "length (in_flight_of x t) \<le> 1 \<and> (in_flight_of x t \<noteq> [] \<longrightarrow> fence x t \<noteq> None)"
      using ok near far [of x] single_flight_fence [of s] by (cases "x = eid") (auto simp: fine_ok_def undisturbed_def)
  qed
  moreover have "hand_ok t c" if c: "c \<in> set hs" for c
  proof (cases "c_endpointId c = eid")
    case True
    have "c_leaseId c \<noteq> l" using mine(2) c by (auto simp: leases_of_def)
    with True near(3) have "\<not> holds c t" by (auto simp: holds_def)
    with ok c drawn show ?thesis by (auto simp: fine_ok_def hand_ok_def)
  next
    case False
    with ok c show ?thesis by (auto simp: fine_ok_def intro: hand_undisturbed [OF _ far drawn])
  qed
  moreover have "claiming_ok t cm" if cm: "cm \<in> set cms" for cm
  proof -
    have "cm_lease cm \<noteq> l" using mine(2) cm by (auto simp: leases_of_def)
    with ok cm mine(1) have "cm_endpoint cm \<noteq> eid" by (auto simp: fine_ok_def claiming_ok_def)
    with ok cm show ?thesis by (auto simp: fine_ok_def intro: claiming_undisturbed [OF _ far drawn])
  qed
  ultimately show ?thesis using ok wf by (simp add: fine_ok_def)
qed

text \<open>A step that leaves all of them undisturbed.\<close>

lemma fine_ok_frame:
  assumes ok: "fine_ok s hs cms" and wf: "wf_db t" and drawn: "drawn_ids s \<subseteq> drawn_ids t"
    and all: "\<And>x. undisturbed x s t"
  shows "fine_ok t hs cms"
proof -
  have "single_flight t"
    using ok all single_flight_fence [of s] unfolding single_flight_fence [OF wf]
    by (simp add: fine_ok_def undisturbed_def)
  with ok wf show ?thesis
    using hand_undisturbed [OF _ all drawn] claiming_undisturbed [OF _ all drawn] by (auto simp: fine_ok_def)
qed

lemma removed: "y \<in> set (remove1 x xs) \<Longrightarrow> y \<in> set xs"
  using set_remove1_subset by fast

lemma removed_key: "distinct (map f xs) \<Longrightarrow> x \<in> set xs \<Longrightarrow> f x \<notin> f ` set (remove1 x xs)"
  by (induction xs) (auto dest: removed simp: rev_image_eqI)

lemma fine_ok_drop_hand: "fine_ok s hs cms \<Longrightarrow> fine_ok s (remove1 c hs) cms"
  using distinct_map_remove1 [of c_leaseId hs c] image_mono [OF set_remove1_subset, of c_leaseId c hs]
  unfolding fine_ok_def leases_of_def distinct_append set_map by (blast dest: removed)

lemma fine_ok_drop_claim: "fine_ok s hs cms \<Longrightarrow> fine_ok s hs (remove1 cm cms)"
  using distinct_map_remove1 [of cm_lease cms cm] image_mono [OF set_remove1_subset, of cm_lease cm cms]
  unfolding fine_ok_def leases_of_def distinct_append set_map by (blast dest: removed)

lemma dropped_lease:
  assumes "fine_ok s hs cms"
  shows "c \<in> set hs \<Longrightarrow> c_leaseId c \<notin> set (leases_of (remove1 c hs) cms)"
    "cm \<in> set cms \<Longrightarrow> cm_lease cm \<notin> set (leases_of hs (remove1 cm cms))"
  using assms removed_key [of c_leaseId hs c] removed_key [of cm_lease cms cm]
  by (auto simp: fine_ok_def leases_of_def)

section \<open>The statements of a claim\<close>

definition local_step :: "uuid \<Rightarrow> uuid \<Rightarrow> db \<Rightarrow> db \<Rightarrow> bool" where
  "local_step eid l s t \<longleftrightarrow> wf_db t \<and> kept s t \<and> drawn_ids s \<subseteq> drawn_ids t \<and> (\<forall>x. x \<noteq> eid \<longrightarrow> undisturbed x s t) \<and>
     length (in_flight_of eid t) \<le> 1 \<and> (in_flight_of eid t \<noteq> [] \<longrightarrow> fence eid t = Some l) \<and>
     (fence eid t = Some l \<or> fence eid t = None)"

definition progress_ok :: "claiming \<Rightarrow> claim_progress \<Rightarrow> db \<Rightarrow> bool" where
  "progress_ok cm p t \<longleftrightarrow>
     (case p of
        Continues st \<Rightarrow> claiming_ok t (cm\<lparr>cm_stage := st\<rparr>)
      | Ends res \<Rightarrow> res \<noteq> Inl Cardinality_violation \<and>
          (\<forall>c. res = Inr (Some c) \<longrightarrow> c_leaseId c = cm_lease cm \<and> hand_ok t c))"

lemma at_most_one: "wf_db s \<Longrightarrow> single_flight s \<Longrightarrow> length (in_flight_of x s) \<le> 1"
  by (simp add: single_flight_fence)

text \<open>A statement that touches neither a delivery nor an endpoint.\<close>

lemma local_same:
  assumes "wf_db s" "single_flight s" "fence eid s = Some l"
    and "wf_db t" "deliveries t = deliveries s" "endpoints t = endpoints s" "drawn_ids s \<subseteq> drawn_ids t"
  shows "local_step eid l s t"
  using assms at_most_one [OF assms(1,2), of eid]
  by (simp add: local_step_def kept_cong undisturbed_def fence_def in_flight_of_def)

lemma claiming_stage:
  assumes "claiming_ok s cm" "deliveries t = deliveries s" "endpoints t = endpoints s" "drawn_ids s \<subseteq> drawn_ids t"
    and "stage_ok (cm_cand cm) st t"
  shows "claiming_ok t (cm\<lparr>cm_stage := st\<rparr>)"
  using assms by (auto simp: claiming_ok_def fence_def)

lemma stmt_expire_orphans_total:
  assumes "length (in_flight_of eid s) \<le> 1"
  obtains t where "stmt_expire_orphans eid s = Some t" "deliveries t = deliveries s" "endpoints t = endpoints s"
    "drawn_ids t = drawn_ids s"
proof (cases "in_flight_of eid s")
  case Nil
  then show thesis by (intro that [of s]) (simp_all add: stmt_expire_orphans_def)
next
  case (Cons d ds)
  with assms have "ds = []" by simp
  with Cons show thesis
    by (intro that [of "s\<lparr>attempts := update_where (orphan (d_id d))
        (\<lambda>a. a\<lparr>a_error_class := Some Worker_lease_expired\<rparr>) (attempts s)\<rparr>"])
       (simp_all add: stmt_expire_orphans_def drawn_ids_def)
qed

lemma local_requeue:
  assumes "wf_db s" "fence eid s = Some l"
  shows "local_step eid l s (stmt_requeue eid s)"
proof -
  have "d \<in> set (deliveries (stmt_requeue eid s))" if "d \<in> set (deliveries s)" "d_endpoint_id d \<noteq> eid" for d
    using requeue_mem [OF that(1), of eid] that(2) by metis
  moreover have "fence x (stmt_requeue eid s) = fence x s" for x by (simp add: fence_def)
  moreover have "drawn_ids (stmt_requeue eid s) = drawn_ids s" by (simp add: drawn_ids_def)
  ultimately show ?thesis
    using assms kept_requeue
    by (simp add: local_step_def undisturbed_def requeue_in_flight requeue_in_flight_other wf_stmt_requeue)
qed

lemma local_release:
  assumes "wf_db s" "fence eid s = Some l" "in_flight_of eid s = []"
  shows "local_step eid l s (stmt_release eid l s)"
proof -
  let ?P = "\<lambda>e. ep_id e = eid \<and> ep_lease_id e = Some l"
  obtain e where e: "find_by ep_id eid (endpoints s) = Some e" "ep_lease_id e = Some l"
    using assms(2) by (auto simp: fence_def split: option.splits)
  have "fence eid (stmt_release eid l s) = None"
    using fence_take [OF assms(1), of e eid ?P free_lease] e find_by_Some [OF e(1)] by (simp add: stmt_release_def)
  moreover have "fence x (stmt_release eid l s) = fence x s" if "x \<noteq> eid" for x
    unfolding stmt_release_def by (rule fence_update_other [of ?P]) (use that in auto)
  ultimately show ?thesis
    using assms
    by (simp add: local_step_def undisturbed_def wf_stmt_release kept_cong in_flight_of_def drawn_ids_def)
qed

lemma length_filter_key:
  assumes "distinct (map f xs)" "\<And>x. x \<in> set xs \<Longrightarrow> P x \<Longrightarrow> f x = k"
  shows "length (filter P xs) \<le> 1"
proof -
  have "distinct (map f (filter P xs))" using assms(1) by (induction xs) auto
  then have "length (filter P xs) = card (set (map f (filter P xs)))" by (metis distinct_card length_map)
  also have "\<dots> \<le> card {k}" using assms(2) by (intro card_mono) auto
  finally show ?thesis by simp
qed

lemma local_mark:
  assumes wf: "wf_db s" and l: "fence eid s = Some l" and head: "head_waits eid d s"
  shows "local_step eid l s (stmt_in_flight (d_id d) (Suc (d_attempt_count d)) s)"
    "\<exists>d'\<in>set (deliveries (stmt_in_flight (d_id d) (Suc (d_attempt_count d)) s)). d_id d' = d_id d \<and>
       d_endpoint_id d' = eid \<and> d_state d' = In_flight \<and> d_attempt_count d' = Suc (d_attempt_count d)"
proof -
  let ?n = "Suc (d_attempt_count d)" and ?t = "stmt_in_flight (d_id d) (Suc (d_attempt_count d)) s"
  let ?f = "\<lambda>d'. d'\<lparr>d_state := In_flight, d_attempt_count := ?n\<rparr>"
  obtain x where x: "x \<in> set (deliveries s)" "d_id x = d_id d" "d_endpoint_id x = eid" "d_state x = Pending"
    "d_attempt_count x = d_attempt_count d" and none: "in_flight_of eid s = []"
    using head by (auto simp: head_waits_def)
  have "d_id y = d_id d \<longleftrightarrow> y = x" if "y \<in> set (deliveries s)" for y
    using d_id_eq [OF wf that x(1)] x(2) by auto
  then have upd: "deliveries ?t = update_where (\<lambda>y. y = x) ?f (deliveries s)"
    unfolding stmt_in_flight_def update_where_def by simp
  have wft: "wf_db ?t" using wf by (rule wf_stmt_in_flight)
  have ends: "endpoints (stmt_in_flight i n s) = endpoints s" "drawn_ids (stmt_in_flight i n s) = drawn_ids s" for i n
    by (simp_all add: stmt_in_flight_def drawn_ids_def)
  have fences: "fence y ?t = fence y s" for y by (simp add: fence_def ends)
  have "d_id y = d_id d" if "y \<in> set (deliveries ?t)" "d_endpoint_id y = eid \<and> d_state y = In_flight" for y
    using that(1) unfolding upd
  proof (cases rule: update_where_inE)
    case miss
    with none that(2) show ?thesis by (auto simp: in_flight_of_def filter_empty_conv)
  qed (simp add: x(2))
  then have "length (in_flight_of eid ?t) \<le> 1"
    unfolding in_flight_of_def
    by (intro length_filter_key [of d_id _ _ "d_id d"]) (use wft in \<open>simp_all add: wf_db_def keys_ok_def\<close>)
  moreover have "in_flight_of y ?t = in_flight_of y s" if "y \<noteq> eid" for y
    unfolding in_flight_of_def upd by (rule filter_update_where_disjoint) (use that x(3) in auto)
  moreover have "z \<in> set (deliveries ?t)" if "z \<in> set (deliveries s)" "d_endpoint_id z \<noteq> eid" for z
    using that x(3) by (auto simp: upd set_update_where)
  moreover have "kept s ?t"
    by (rule kept_update [OF upd]) (use x in \<open>simp add: same_row_def\<close>)
  ultimately show "local_step eid l s ?t"
    using l wft by (auto simp: local_step_def undisturbed_def ends fences)
  show "\<exists>d'\<in>set (deliveries ?t). d_id d' = d_id d \<and> d_endpoint_id d' = eid \<and> d_state d' = In_flight \<and> d_attempt_count d' = ?n"
    by (rule bexI [of _ "?f x"]) (use x in \<open>auto simp: upd set_update_where\<close>)
qed

lemma claim_stmt_ok:
  assumes run: "claim_stmt dec clk cm s = (p, t)" and wf: "wf_db s" and sf: "single_flight s" and ok: "claiming_ok s cm"
  shows "local_step (cm_endpoint cm) (cm_lease cm) s t" "progress_ok cm p t"
proof -
  let ?eid = "cm_endpoint cm"
  have l: "fence ?eid s = Some (cm_lease cm)" and dr: "cm_lease cm \<in> drawn_ids s"
    and st: "stage_ok (cm_cand cm) (cm_stage cm) s" using ok by (simp_all add: claiming_ok_def)
  note same = local_same [OF wf sf l] and stage = claiming_stage [OF ok]
  have "local_step ?eid (cm_lease cm) s t \<and> progress_ok cm p t"
  proof (cases "cm_stage cm")
    case To_serve
    then have "t = stmt_serve (at_serve clk) (cand_tenant_id (cm_cand cm)) s"
      "p = Continues (if cand_busy (cm_cand cm) then To_expire else To_select)"
      using run by (auto simp: claim_stmt_def Let_def)
    moreover have "in_flight_of ?eid s = []" if "\<not> cand_busy (cm_cand cm)"
      using st To_serve that by (simp add: stage_ok_def)
    ultimately show ?thesis
      using same [of t] stage [of t] wf by (simp add: progress_ok_def stage_ok_def wf_stmt_serve)
  next
    case To_expire
    obtain u where u: "stmt_expire_orphans ?eid s = Some u" "deliveries u = deliveries s" "endpoints u = endpoints s"
      "drawn_ids u = drawn_ids s" by (rule stmt_expire_orphans_total [OF at_most_one [OF wf sf]])
    with run To_expire have "p = Continues To_requeue" "t = u" by (simp_all add: claim_stmt_def Let_def)
    then show ?thesis
      using same [of u] stage [of u To_requeue] u wf_stmt_expire_orphans [OF u(1) wf] by (simp add: progress_ok_def stage_ok_def)
  next
    case To_requeue
    with run have p: "p = Continues To_select" "t = stmt_requeue ?eid s" by (simp_all add: claim_stmt_def Let_def)
    have "claiming_ok t (cm\<lparr>cm_stage := To_select\<rparr>)"
      using l dr by (simp add: claiming_ok_def stage_ok_def p requeue_in_flight fence_def drawn_ids_def)
    with local_requeue [OF wf l] p show ?thesis by (simp add: progress_ok_def)
  next
    case To_select
    then have none: "in_flight_of ?eid s = []" using st by (simp add: stage_ok_def)
    have "t = s \<and> (p = Continues To_release \<or>
        (\<exists>row. select_head ?eid s = Some row \<and> p = Continues (To_insert row)))"
      using run To_select by (auto simp: claim_stmt_def Let_def split: option.splits if_splits)
    moreover have "head_waits ?eid d s" if "select_head ?eid s = Some (d, v, e)" for d v e
      using select_head_SomeD(1-3) [OF wf that] none by (auto simp: head_waits_def)
    ultimately show ?thesis
      using same [of s] stage [of s] wf none by (auto simp: progress_ok_def stage_ok_def)
  next
    case To_release
    then have "in_flight_of ?eid s = []" using st by (simp add: stage_ok_def)
    with run To_release local_release [OF wf l] show ?thesis
      by (auto simp: claim_stmt_def progress_ok_def Let_def)
  next
    case (To_insert row)
    obtain d v e where row: "row = (d, v, e)" by (cases row)
    then have head: "head_waits ?eid d s" using st To_insert by (simp add: stage_ok_def)
    then have "d_id d \<in> d_id ` set (deliveries s)" by (metis head_waits_def image_eqI)
    note w = wf_stmt_insert_attempt [OF wf this, of "at_sent clk" "d_attempt_count d + 1"]
    let ?u = "snd (stmt_insert_attempt (at_sent clk) (d_id d) (d_attempt_count d + 1) s)"
    have u: "deliveries ?u = deliveries s" "endpoints ?u = endpoints s" "drawn_ids s \<subseteq> drawn_ids ?u"
      by (auto simp: stmt_insert_attempt_def gen_random_uuid_def Let_def drawn_ids_def)
    have t: "t = ?u" and "\<exists>aid. p = Continues (To_mark (d, v, e) aid)"
      using run To_insert row by (auto simp: claim_stmt_def Let_def split: prod.splits)
    then obtain aid where p: "p = Continues (To_mark (d, v, e) aid)" by blast
    have "head_waits ?eid d ?u" using head by (simp only: head_waits_def in_flight_of_def u(1))
    then have "claiming_ok ?u (cm\<lparr>cm_stage := To_mark (d, v, e) aid\<rparr>)" by (intro stage [OF u]) (simp add: stage_ok_def)
    with same [OF w u] show ?thesis by (simp only: progress_ok_def t p claim_progress.case)
  next
    case (To_mark row aid)
    obtain d v e where row: "row = (d, v, e)" by (cases row)
    then have head: "head_waits ?eid d s" using st To_mark by (simp add: stage_ok_def)
    let ?u = "stmt_in_flight (d_id d) (Suc (d_attempt_count d)) s"
    have t: "t = ?u" and p: "p = Ends (case claim_secrets dec (at_secret clk) e of
        None \<Rightarrow> Inl Secret_unreadable
      | Some (q, q') \<Rightarrow> Inr (Some (new_claim (cm_cand cm) (cm_lease cm) d v e aid q q')))"
      using run To_mark row by (simp_all add: claim_stmt_def Let_def)
    have "drawn_ids ?u = drawn_ids s" by (simp add: stmt_in_flight_def drawn_ids_def)
    with local_mark [OF wf l head] dr show ?thesis
      by (auto simp: t p progress_ok_def hand_ok_def claim_row_def new_claim_def split: option.split)
  qed
  then show "local_step ?eid (cm_lease cm) s t" "progress_ok cm p t" by simp_all
qed

section \<open>Every step keeps the invariant\<close>

text \<open>A lease that is held and has not expired is not taken.\<close>

lemma fresh_lease_kept:
  assumes "wf_db s" "fence eid s = Some l" "lease_fresh cutoff eid s"
  shows "stmt_claim now cutoff eid s = (None, s)"
proof -
  obtain e where e: "find_by ep_id eid (endpoints s) = Some e" "ep_lease_id e = Some l"
    using assms(2) by (auto simp: fence_def split: option.splits)
  have "\<not> claimable cutoff e'" if e': "e' \<in> set (endpoints s)" "ep_id e' = eid" for e'
  proof -
    have "e' = e" using endpoint_eq [OF assms(1) e'(1), of e] e' find_by_Some [OF e(1)] by simp
    with e assms(1,3) e' show ?thesis
      by (auto simp: claimable_def lease_free_def lease_fresh_def wf_db_def lease_ok_def lease_cols_def split: option.splits)
  qed
  then have "\<not> list_ex (\<lambda>e. ep_id e = eid \<and> claimable cutoff e) (endpoints s)" by (auto simp: list_ex_iff)
  then show ?thesis by (simp add: stmt_claim_def)
qed

lemma fine_ok_take:
  assumes cl: "stmt_claim now cutoff (cand_id cand) s = (Some l, t)" and fresh: "fresh_candidate cand s"
    and ok: "fine_ok s hs cms" and prompt: "\<forall>cm\<in>set cms. lease_fresh cutoff (cm_endpoint cm) s"
  shows "fine_ok t hs (\<lparr>cm_cand = cand, cm_lease = l, cm_stage = To_serve\<rparr> # cms)" "kept s t"
proof -
  let ?eid = "cand_id cand"
  have wf: "wf_db s" and sf: "single_flight s" using ok by (simp_all add: fine_ok_def)
  have wft: "wf_db t" using wf_stmt_claim [OF wf, of now cutoff ?eid] cl by simp
  note st = stmt_claim_state [OF cl wf sf]
  have "claimed_state ?eid l s t" by (rule claimed_state_cong [OF st(1)]) simp_all
  then have lease: "l \<notin> drawn_ids s" "l \<in> drawn_ids t" "drawn_ids s \<subseteq> drawn_ids t" "fence ?eid t = Some l"
    and far: "\<And>x. x \<noteq> ?eid \<Longrightarrow> fence x t = fence x s"
    by (auto simp: claimed_state_def)
  have flight: "in_flight_of x t = in_flight_of x s" for x by (simp add: in_flight_of_def st(3))
  have undis: "undisturbed x s t" if "x \<noteq> ?eid" for x using far [OF that] flight st(3) by (simp add: undisturbed_def)
  have "single_flight t"
    using sf lease(4) far unfolding single_flight_fence [OF wf] single_flight_fence [OF wft] flight by (metis option.distinct(1))
  moreover have "hand_ok t c" if c: "c \<in> set hs" for c
  proof (cases "c_endpointId c = ?eid")
    case True
    with ok c lease show ?thesis by (auto simp: fine_ok_def hand_ok_def holds_def)
  next
    case False
    with ok c show ?thesis by (auto simp: fine_ok_def intro: hand_undisturbed [OF _ undis lease(3)])
  qed
  moreover have "claiming_ok t cm" if cm: "cm \<in> set cms" for cm
  proof -
    have "cm_endpoint cm \<noteq> ?eid"
      using fresh_lease_kept [OF wf, of "cm_endpoint cm" _ cutoff now] ok cm prompt cl
      by (auto simp: fine_ok_def claiming_ok_def)
    with ok cm show ?thesis by (intro claiming_undisturbed [OF _ undis lease(3)]) (simp_all add: fine_ok_def)
  qed
  moreover have "claiming_ok t \<lparr>cm_cand = cand, cm_lease = l, cm_stage = To_serve\<rparr>"
    using lease st(7) [OF fresh refl] flight by (auto simp: claiming_ok_def stage_ok_def)
  moreover have "l \<notin> set (leases_of hs cms)"
    using ok lease(1) by (auto simp: fine_ok_def leases_of_def hand_ok_def claiming_ok_def)
  ultimately show "fine_ok t hs (\<lparr>cm_cand = cand, cm_lease = l, cm_stage = To_serve\<rparr> # cms)"
    using ok wft by (auto simp: fine_ok_def leases_of_def)
  show "kept s t" by (rule kept_cong) (rule st(3))
qed

lemma settled_undisturbed:
  assumes wf: "wf_db s" and sf: "single_flight s" and row: "claim_row s c" and st: "settled_as mxa c r s t" and wft: "wf_db t"
    and x: "x \<noteq> c_endpointId c"
  shows "undisturbed x s t"
proof -
  note fl = settled_in_flight [OF wf sf row st wft]
  obtain f where f: "deliveries t = update_where (\<lambda>x. d_id x = c_deliveryId c) f (deliveries s)"
    and fe: "\<And>x. x \<noteq> c_endpointId c \<Longrightarrow> fence x t = fence x s"
    using st by (auto simp: settled_as_def)
  obtain d where d: "d \<in> set (deliveries s)" "d_id d = c_deliveryId c" "d_endpoint_id d = c_endpointId c"
    using row by (auto simp: claim_row_def)
  have "y \<in> set (deliveries t)" if "y \<in> set (deliveries s)" "d_endpoint_id y \<noteq> c_endpointId c" for y
  proof -
    have "d_id y \<noteq> c_deliveryId c" using d_id_eq [OF wf that(1) d(1)] d(2,3) that(2) by metis
    with that(1) show ?thesis by (auto simp: f set_update_where)
  qed
  then show ?thesis using fl(2) fe x by (auto simp: undisturbed_def)
qed

lemma fine_ok_complete:
  assumes run: "completeDelivery now rnd c r cfg s = (res, t)" and ok: "fine_ok s hs cms" and c: "c \<in> set hs"
  shows "fine_ok t (remove1 c hs) cms" "kept s t"
proof -
  have wf: "wf_db s" and sf: "single_flight s" and hand: "hand_ok s c" using ok c by (simp_all add: fine_ok_def)
  note dropped = fine_ok_drop_hand [OF ok, of c]
  show "kept s t" by (rule kept_write_back [OF run wf]) (use hand in \<open>simp add: hand_ok_def\<close>)
  from run show "fine_ok t (remove1 c hs) cms"
  proof (cases rule: completeDelivery_cases)
    case written
    let ?eid = "c_endpointId c"
    have row: "claim_row s c" using hand written(1) by (simp add: hand_ok_def holds_def)
    have wft: "wf_db t" by (rule wf_completeDelivery [OF run wf])
    have st: "settled_as (maxAttempts cfg) c r s t" unfolding written(4) by (rule written_settled)
    note fl = settled_in_flight [OF wf sf row st wft]
    have drawn: "drawn_ids t = drawn_ids s" and free: "fence ?eid t = None" using st by (auto simp: settled_as_def)
    show ?thesis
      using fine_ok_local [OF dropped wft _ written(1) dropped_lease(1) [OF ok c] settled_undisturbed [OF wf sf row st wft]]
        drawn fl(1) free by simp
  qed (use dropped in simp_all)
qed

lemma fine_ok_claim_stmt:
  assumes run: "claim_stmt dec clk cm s = (p, t)" and ok: "fine_ok s hs cms" and cm: "cm \<in> set cms"
  shows "kept s t"
    "p = Continues st \<Longrightarrow> fine_ok t hs (cm\<lparr>cm_stage := st\<rparr> # remove1 cm cms)"
    "p = Ends res \<Longrightarrow> res \<noteq> Inl Cardinality_violation \<and> fine_ok t (hands_after res hs) (remove1 cm cms)"
proof -
  have wf: "wf_db s" and sf: "single_flight s" and cok: "claiming_ok s cm" using ok cm by (simp_all add: fine_ok_def)
  note step = claim_stmt_ok [OF run wf sf cok]
  show "kept s t" using step(1) by (simp add: local_step_def)
  note fresh = dropped_lease(2) [OF ok cm]
  have rest: "fine_ok t hs (remove1 cm cms)"
    using fine_ok_local [OF fine_ok_drop_claim [OF ok] _ _ _ fresh, of t "cm_endpoint cm"] step(1) cok
    by (simp add: local_step_def claiming_ok_def)
  show "fine_ok t hs (cm\<lparr>cm_stage := st\<rparr> # remove1 cm cms)" if "p = Continues st"
    using rest fresh step(2) that by (simp add: fine_ok_def leases_of_def progress_ok_def)
  show "res \<noteq> Inl Cardinality_violation \<and> fine_ok t (hands_after res hs) (remove1 cm cms)" if p: "p = Ends res"
  proof (cases "\<exists>c. res = Inr (Some c)")
    case True
    then obtain c where c: "res = Inr (Some c)" by blast
    with step(2) p have "c_leaseId c = cm_lease cm" "hand_ok t c" by (simp_all add: progress_ok_def)
    with rest fresh c show ?thesis by (simp add: fine_ok_def leases_of_def hands_after_def)
  next
    case False
    then have "hands_after res hs = hs" by (cases res) (simp_all add: hands_after_def split: option.split)
    with rest step(2) p show ?thesis by (simp add: progress_ok_def)
  qed
qed

lemma fine_ok_api_write:
  assumes "api_write tid s t" "tid \<in> tn_id ` set (tenants s)" "fine_ok s hs cms"
  shows "fine_ok t hs cms"
proof -
  have wf: "wf_db s" using assms(3) by (simp add: fine_ok_def)
  have wft: "wf_db t" by (rule wf_api_write [OF assms(1) wf assms(2)])
  note frame = api_write_frame [OF assms(1)]
  obtain es where es: "map lease_view (endpoints t) = map lease_view (endpoints s) @ es"
    "\<forall>v\<in>set es. \<exists>i. v = (i, False, None, None)"
    using api_write_leases [OF assms(1)] by blast
  have drawn: "drawn_ids s \<subseteq> drawn_ids t" using frame(5,6) by (auto simp: drawn_ids_def)
  show ?thesis
    by (rule fine_ok_frame [OF assms(3) wft drawn])
       (simp add: undisturbed_def in_flight_of_def frame(1) lease_frame(2) [OF wf wft es frame(1)])
qed

lemma fine_ok_expanded:
  assumes "fine_ok s hs cms" "wf_db t" "deliveries t = deliveries (insert_deliveries now ps s)"
    and "endpoints t = endpoints s" "drawn_ids t = drawn_ids (insert_deliveries now ps s)"
  shows "fine_ok t hs cms"
proof -
  obtain ns where ns: "deliveries (insert_deliveries now ps s) = deliveries s @ ns" "\<forall>d\<in>set ns. new_row now d"
    by (rule insert_deliveries_obtain)
  show ?thesis
    using drawn_insert_deliveries [of s now ps] assms ns
    by (intro fine_ok_frame [OF assms(1,2)] undisturbed_appended [of _ _ ns]) (simp_all add: fence_def)
qed

lemma fine_ok_step:
  assumes step: "fine_step cfg True u u'" and ok: "fine_ok (fs_db u) (fs_hands u) (fs_claims u)"
  shows "fine_ok (fs_db u') (fs_hands u') (fs_claims u') \<and> evolves (fs_db u) (fs_db u')"
  using step
proof (cases rule: fine_step.cases)
  case (fine_seed X now rnd name i key t)
  note fr = seed_tenant_frame [OF fine_seed(2)]
  have "wf_db t" using wf_seed_tenant [OF fine_seed(2)] ok by (simp add: fine_ok_def)
  from fine_ok_frame [OF ok this fr(5)] show ?thesis
    by (simp add: fine_seed(1) fr undisturbed_def fence_def in_flight_of_def kept_cong kept_evolves)
next
  case (fine_request E i r resp t)
  show ?thesis
  proof (cases "t = fs_db u")
    case True
    with ok show ?thesis by (simp add: fine_request(1))
  next
    case False
    with handle_request_write [of E i r "fs_db u"] fine_request(2) obtain tn where tn:
      "tn \<in> set (tenants (fs_db u))" "api_write (tn_id tn) (fs_db u) t" by auto
    then have "fine_ok t (fs_hands u) (fs_claims u)" by (intro fine_ok_api_write [OF tn(2) _ ok]) simp
    with evolves_api_write [OF tn(2)] show ?thesis by (simp add: fine_request(1))
  qed
next
  case (fine_expand locked now b t)
  from fine_expand(2) show ?thesis
    unfolding fine_expand(1)
  proof (cases rule: runExpansionCycle_cases)
    case (work v)
    have "wf_db (expand_event (now (ev_tenant_id v)) v (fs_db u))"
      using ok work(2) by (simp add: fine_ok_def wf_expand_event)
    from fine_ok_expanded [OF ok this] evolves_expand_event
    show "fine_ok (fs_db (u\<lparr>fs_db := t\<rparr>)) (fs_hands (u\<lparr>fs_db := t\<rparr>)) (fs_claims (u\<lparr>fs_db := t\<rparr>)) \<and>
        evolves (fs_db u) (fs_db (u\<lparr>fs_db := t\<rparr>))"
      unfolding work(5) by (simp add: expand_event_def mark_event_expanded_def drawn_ids_def)
  qed (use ok in simp_all)
next
  case (fine_replay locked now b t)
  from fine_replay(2) show ?thesis
    unfolding fine_replay(1)
  proof (cases rule: runReplayExpansionCycle_cases)
    case (work r)
    have "wf_db (expand_replay_row (now (rp_id r)) r (fs_db u))"
      using ok work(2) by (simp add: fine_ok_def wf_expand_replay_row)
    from fine_ok_expanded [OF ok this] evolves_expand_replay_row
    show "fine_ok (fs_db (u\<lparr>fs_db := t\<rparr>)) (fs_hands (u\<lparr>fs_db := t\<rparr>)) (fs_claims (u\<lparr>fs_db := t\<rparr>)) \<and>
        evolves (fs_db u) (fs_db (u\<lparr>fs_db := t\<rparr>))"
      unfolding work(5) by (simp add: expand_replay_row_def mark_replay_expanded_def drawn_ids_def)
  qed (use ok in simp_all)
next
  case (fine_complete c r now rnd res t)
  then show ?thesis using fine_ok_complete [OF fine_complete(4) ok fine_complete(2)] by (simp add: kept_evolves)
next
  case (fine_crash c)
  with ok show ?thesis by (simp add: fine_ok_drop_hand)
next
  case (fine_take now cutoff cand l t)
  then show ?thesis using fine_ok_take [OF fine_take(2,3) ok] by (simp add: kept_evolves)
next
  case (fine_statement cm dec clk st t)
  then show ?thesis using fine_ok_claim_stmt(1,2) [OF fine_statement(3) ok fine_statement(2)] by (simp add: kept_evolves)
next
  case (fine_end cm dec clk res t)
  then show ?thesis using fine_ok_claim_stmt(1,3) [OF fine_end(3) ok fine_end(2)] by (simp add: kept_evolves)
next
  case (fine_abort cm)
  with ok show ?thesis by (simp add: fine_ok_drop_claim)
qed

lemma fine_reachable_ok: "fine_reachable cfg True u \<Longrightarrow> fine_ok (fs_db u) (fs_hands u) (fs_claims u)"
proof (induction rule: fine_reachable.induct)
  case (fine_start g)
  then show ?case
    using sys_ok_start [of g] by (simp add: fine_of_def sys_start_def fine_ok_def leases_of_def sys_ok_def db_ok_def)
next
  case (fine_next u u')
  then show ?case using fine_ok_step by blast
qed

lemma fine_run_evolves:
  assumes "fine_reachable cfg True u" "fine_run cfg True u v"
  shows "fine_reachable cfg True v \<and> evolves (fs_db u) (fs_db v)"
  using assms(2,1) unfolding fine_run_def
proof (induction rule: rtranclp_induct)
  case (step v w)
  then have "fine_reachable cfg True v" "evolves (fs_db u) (fs_db v)" by blast+
  with step.hyps(2) fine_ok_step [OF step.hyps(2) fine_reachable_ok] show ?case
    by (blast intro: fine_next evolves_trans)
qed simp

section \<open>What holds between any two statements\<close>

text \<open>The coarse system is part of this one.\<close>

lemma fine_reachable_run: "fine_reachable cfg prompt u \<Longrightarrow> fine_run cfg prompt u v \<Longrightarrow> fine_reachable cfg prompt v"
  unfolding fine_run_def by (rotate_tac, induction rule: rtranclp_induct) (auto intro: fine_next)

lemma reachable_fine: "reachable cfg u \<Longrightarrow> fine_reachable cfg prompt (fine_of u)"
proof (induction rule: reachable.induct)
  case (reach_start g)
  then show ?case by (rule fine_start)
next
  case (reach_step u u')
  then show ?case using fine_system_step fine_reachable_run by blast
qed

text \<open>
  C12. Promises at the granularity of the code's statements: whatever happens between two statements of
  a claim, the death of its worker included, and provided no claim outlasts its lease, an endpoint has at most one delivery in flight, a claim under way still holds
  its lease, and none of its statements fails.
\<close>

theorem one_in_flight_between_statements:
  assumes "fine_reachable cfg True u"
  shows "length (in_flight_of eid (fs_db u)) \<le> 1 \<and>
    (\<forall>cm\<in>set (fs_claims u). fence (cm_endpoint cm) (fs_db u) = Some (cm_lease cm) \<and>
       fst (claim_stmt dec clk cm (fs_db u)) \<noteq> Ends (Inl Cardinality_violation))"
proof -
  note ok = fine_reachable_ok [OF assms]
  have "fst (claim_stmt dec clk cm (fs_db u)) \<noteq> Ends (Inl Cardinality_violation)" if "cm \<in> set (fs_claims u)" for cm
    using fine_ok_claim_stmt(3) [OF _ ok that] by (metis prod.collapse)
  with ok at_most_one show ?thesis by (auto simp: fine_ok_def claiming_ok_def)
qed

text \<open>
  C13. Under the same proviso a result is final for a run of single statements: a delivery that
  succeeded or failed keeps its row, whoever is between two statements of a claim.
\<close>

theorem results_final_between_statements:
  assumes "fine_reachable cfg True u" "fine_run cfg True u v"
    and "d \<in> set (deliveries (fs_db u))" "d_state d \<in> {Succeeded, Failed}"
  shows "d \<in> set (deliveries (fs_db v))"
  using evolves_row [OF conjunct2 [OF fine_run_evolves [OF assms(1,2)]] assms(3)] assms(4)
  by (metis same_row_def)

theorem one_in_flight_between_statements_witness:
  "length (in_flight_of 1 (fs_db (fine_of demo_sys))) \<le> 1"
  using one_in_flight_between_statements [OF reachable_fine [OF demo_reachable [of demo_cfg]]] by blast

theorem results_final_between_statements_witness:
  "demo_delivery Failed 1 \<in> set (deliveries (fs_db (fine_of demo_halted)))"
  by (rule results_final_between_statements [OF reachable_fine [OF demo_halted_reachable] fine_run_refl])
     (simp_all add: fine_of_def demo_halted_eq demo_delivery_def)

end
