(* ===== verification/Outcomes.thy ===== *)
theory Outcomes
  imports Guarantees
begin

text \<open>
  What the attempts say about a delivery along the runs of \<open>System\<close>, in which a claim is one step: a delivery has
  succeeded exactly when its last attempt was answered with 2xx, and then no other attempt was; an
  endpoint is busy exactly while one of its deliveries is in flight; and the attempt of a worker that
  never writes back stays without a response, and is closed with \<^verbatim>\<open>worker_lease_expired\<close> when its delivery goes on.
  The scenarios of the chaos scripts run from such states; \<open>Claim_Guarantees\<close> has what is left of this between the
  statements of a claim.
\<close>

section \<open>The kinds of step\<close>

definition quiet :: "db \<Rightarrow> db \<Rightarrow> bool" where
  "quiet s t \<longleftrightarrow> attempts t = attempts s \<and> drawn_ids s \<subseteq> drawn_ids t \<and>
     (\<exists>ns now. deliveries t = deliveries s @ ns \<and> (\<forall>d\<in>set ns. new_row now d)) \<and>
     (\<exists>es. map lease_view (endpoints t) = map lease_view (endpoints s) @ es \<and>
        (\<forall>v\<in>set es. \<exists>i. v = (i, False, None, None)))"

lemma quiet_same: "attempts t = attempts s \<Longrightarrow> drawn_ids s \<subseteq> drawn_ids t \<Longrightarrow> deliveries t = deliveries s @ ns \<Longrightarrow>
    \<forall>d\<in>set ns. new_row now d \<Longrightarrow> endpoints t = endpoints s \<Longrightarrow> quiet s t"
  unfolding quiet_def by auto

lemma quiet_refl [simp]: "quiet s s"
  by (rule quiet_same [of _ _ "[]"]) simp_all

lemma quiet_api_write:
  assumes "api_write tid s t"
  shows "quiet s t"
proof -
  have "drawn_ids s \<subseteq> drawn_ids t" using api_write_frame(5,6) [OF assms] by (auto simp: drawn_ids_def)
  with api_write_frame(1,2) [OF assms] api_write_leases [OF assms] show ?thesis
    unfolding quiet_def by auto
qed

lemma quiet_expand_event: "quiet s (expand_event now v s)"
proof -
  obtain ns where ns: "deliveries (insert_deliveries now (fan_out v s) s) = deliveries s @ ns" "\<forall>d\<in>set ns. new_row now d"
    by (rule insert_deliveries_obtain)
  have "drawn_ids (expand_event now v s) = drawn_ids (insert_deliveries now (fan_out v s) s)"
    by (simp add: drawn_ids_def expand_event_def mark_event_expanded_def)
  with ns drawn_insert_deliveries [of s now "fan_out v s"] show ?thesis
    by (intro quiet_same [of _ _ ns now]) (simp_all add: expand_event_def mark_event_expanded_def)
qed

lemma quiet_expand_replay_row: "quiet s (expand_replay_row now r s)"
proof -
  obtain ns where ns: "deliveries (insert_deliveries now (replay_rows r s) s) = deliveries s @ ns" "\<forall>d\<in>set ns. new_row now d"
    by (rule insert_deliveries_obtain)
  have "drawn_ids (expand_replay_row now r s) = drawn_ids (insert_deliveries now (replay_rows r s) s)"
    by (simp add: drawn_ids_def expand_replay_row_def mark_replay_expanded_def)
  with ns drawn_insert_deliveries [of s now "replay_rows r s"] show ?thesis
    by (intro quiet_same [of _ _ ns now]) (simp_all add: expand_replay_row_def mark_replay_expanded_def)
qed

lemma sys_step_kinds:
  assumes "sys_step cfg u u'"
  obtains (quiet) "quiet (s_db u) (s_db u')" "s_hands u' = s_hands u"
  | (claim) dec clk cand cutoff res where
      "tryClaimEndpoint dec clk cand cutoff (s_db u) = (res, s_db u')" "fresh_candidate cand (s_db u)"
      "s_hands u' = hands_after res (s_hands u)"
  | (complete) c r now rnd res where "c \<in> set (s_hands u)" "outcome_closed r"
      "completeDelivery now rnd c r cfg (s_db u) = (res, s_db u')" "s_hands u' = remove1 c (s_hands u)"
  | (crash) c where "c \<in> set (s_hands u)" "s_db u' = s_db u" "s_hands u' = remove1 c (s_hands u)"
  using assms
proof (cases rule: sys_step.cases)
  case (step_seed X now rnd name i key t)
  then show thesis using seed_tenant_frame [OF step_seed(2)] by (intro quiet quiet_same [of _ _ "[]"]) simp_all
next
  case (step_request E i r resp t)
  then show thesis using handle_request_write [of E i r "s_db u"] quiet_api_write by (intro quiet) auto
next
  case (step_expand locked now b t)
  from step_expand(2) have "quiet (s_db u) t" by (cases rule: runExpansionCycle_cases) (simp_all add: quiet_expand_event)
  with step_expand(1) show thesis by (intro quiet) simp_all
next
  case (step_replay locked now b t)
  from step_replay(2) have "quiet (s_db u) t"
    by (cases rule: runReplayExpansionCycle_cases) (simp_all add: quiet_expand_replay_row)
  with step_replay(1) show thesis by (intro quiet) simp_all
next
  case (step_claim dec clk cand cutoff res t)
  then show thesis by (intro claim [of dec clk cand cutoff res]) simp_all
next
  case (step_complete c r now rnd res t)
  then show thesis by (intro complete [of c r now rnd res]) simp_all
next
  case (step_crash c)
  then show thesis by (intro crash [of c]) simp_all
qed

section \<open>What a claim does to the attempts\<close>

text \<open>Closing the attempt a dead worker left open.\<close>

definition closing :: "(attempt \<Rightarrow> attempt) \<Rightarrow> bool" where
  "closing f \<longleftrightarrow> (\<forall>a. f a = a \<or> (attempt_open a \<and> f a = a\<lparr>a_error_class := Some Worker_lease_expired\<rparr>))"

lemma closing_simps:
  assumes "closing f"
  shows "a_id (f a) = a_id a" "a_delivery_id (f a) = a_delivery_id a" "a_attempt_number (f a) = a_attempt_number a"
    "a_response_status (f a) = a_response_status a"
  using assms [unfolded closing_def, rule_format, of a] by auto

lemma closing_id: "closing (\<lambda>a. a)"
  by (simp add: closing_def)

lemma closing_expired: "closing (expired did)"
  by (simp add: closing_def expired_def orphan_def attempt_open_def)

lemma reclaim_attempts:
  assumes "reclaim cand s = Some t"
  obtains f where "closing f" "attempts t = map f (attempts s)"
proof (cases "cand_busy cand")
  case True
  then obtain u where u: "stmt_expire_orphans (cand_id cand) s = Some u" "t = stmt_requeue (cand_id cand) u"
    using assms by (auto simp: reclaim_def)
  have e: "update_where (orphan did) (\<lambda>a. a\<lparr>a_error_class := Some Worker_lease_expired\<rparr>) as = map (expired did) as" for did as
    by (simp add: update_where_def expired_def [abs_def])
  from u(1) consider "u = s" | did where "attempts u = map (expired did) (attempts s)"
    by (auto simp: stmt_expire_orphans_def e simp del: map_eq_conv split: list.splits)
  then show thesis using u(2) that closing_id closing_expired by cases auto
qed (use assms that closing_id in \<open>auto simp: reclaim_def\<close>)

lemma reclaim_succeeded:
  "reclaim cand s = Some t \<Longrightarrow> d \<in> set (deliveries t) \<Longrightarrow> d_state d = Succeeded \<Longrightarrow> d \<in> set (deliveries s)"
  by (drule reclaim_deliveries) (auto simp: set_update_where split: if_splits)

definition claim_effect :: "db \<Rightarrow> worker_error + claimed_delivery option \<Rightarrow> db \<Rightarrow> bool" where
  "claim_effect s r t \<longleftrightarrow> (\<exists>f ns. closing f \<and> attempts t = map f (attempts s) @ ns \<and>
     (\<forall>a\<in>set ns. attempt_open a \<and> a_id a \<notin> drawn_ids s \<and> a_id a \<in> drawn_ids t \<and>
        (\<exists>d\<in>set (deliveries t). d_id d = a_delivery_id a \<and> d_state d = In_flight)) \<and>
     (\<forall>c. r = Inr (Some c) \<longrightarrow> (\<exists>a. ns = [a] \<and> a_id a = c_attemptId c \<and> a_delivery_id a = c_deliveryId c \<and>
        a_attempt_number a = c_attemptNumber c \<and> attempt_open a))) \<and>
     (\<forall>d\<in>set (deliveries t). d_state d = Succeeded \<longrightarrow> d \<in> set (deliveries s)) \<and>
     (\<forall>e\<in>set (endpoints t). ep_busy e \<longrightarrow> in_flight_of (ep_id e) t \<noteq> [] \<or>
        (e \<in> set (endpoints s) \<and> in_flight_of (ep_id e) t = in_flight_of (ep_id e) s))"

lemma claim_effectE:
  assumes "claim_effect s r t"
  obtains f ns where "closing f" "attempts t = map f (attempts s) @ ns"
    "\<And>a. a \<in> set ns \<Longrightarrow> attempt_open a" "\<And>a. a \<in> set ns \<Longrightarrow> a_id a \<notin> drawn_ids s"
    "\<And>a. a \<in> set ns \<Longrightarrow> \<exists>d\<in>set (deliveries t). d_id d = a_delivery_id a \<and> d_state d = In_flight"
    "\<And>c. r = Inr (Some c) \<Longrightarrow> \<exists>a. ns = [a] \<and> a_id a = c_attemptId c \<and> a_delivery_id a = c_deliveryId c \<and>
        a_attempt_number a = c_attemptNumber c \<and> attempt_open a"
    "\<And>d. d \<in> set (deliveries t) \<Longrightarrow> d_state d = Succeeded \<Longrightarrow> d \<in> set (deliveries s)"
  using assms unfolding claim_effect_def by (elim conjE exE) (rule that, (assumption | blast)+)

lemma stmt_claim_endpoints:
  assumes "stmt_claim now cutoff eid s = (Some l, s1)" "e \<in> set (endpoints s1)" "ep_id e \<noteq> eid"
  shows "e \<in> set (endpoints s)"
  using assms(2,3) by (auto simp: stmt_claim_SomeD(2) [OF assms(1)] set_update_where split: if_splits)

lemma claim_effect_started:
  assumes cl: "stmt_claim (at_claim clk) cutoff (cand_id cand) s = (Some l, s1)"
    and re: "reclaim cand (stmt_serve (at_serve clk) (cand_tenant_id cand) s1) = Some t"
    and ok: "db_ok mxa s" "fresh_candidate cand s"
    and hd: "select_head (cand_id cand) t = Some (d, v, e)"
    and r: "\<And>c. r = Inr (Some c) \<Longrightarrow> c_deliveryId c = d_id d \<and> c_attemptNumber c = d_attempt_count d + 1 \<and>
         c_attemptId c = uuid_src t (uuid_draws t)"
  shows "claim_effect s r (record_attempt now d t)"
proof -
  let ?eid = "cand_id cand" and ?t = "record_attempt now d t" and ?a = "new_attempt now d t"
  have m: "claimed_state ?eid l s t" "wf_db t" "in_flight_of ?eid t = []" "endpoints t = endpoints s1"
    "\<And>x. x \<noteq> ?eid \<Longrightarrow> in_flight_of x t = in_flight_of x s"
    by (rule claim_prepared [OF cl ok]; use re in simp)+
  note h = select_head_SomeD(1-3) [OF m(2) hd]
  note ds = record_attempt_deliveries [OF m(2) h(1), of now]
  note one = record_attempt_one [OF m(2) h(1,3), unfolded h(2), OF m(3), where now = now]
  have s1: "attempts s1 = attempts s" "deliveries s1 = deliveries s" using stmt_claim_SomeD(2) [OF cl] by simp_all
  obtain f where f: "closing f" "attempts t = map f (attempts s)" using reclaim_attempts [OF re] s1(1) by auto
  have id: "a_id ?a \<notin> drawn_ids s" "a_id ?a \<in> drawn_ids ?t"
  proof -
    have "uuid_src t (uuid_draws t) \<notin> drawn_ids t" using draw_fresh [of t] m(2) by (simp add: wf_db_def)
    moreover have "drawn_ids s \<subseteq> drawn_ids t" using m(1) by (simp add: claimed_state_def)
    ultimately show "a_id ?a \<notin> drawn_ids s" by (auto simp: new_attempt_def)
    show "a_id ?a \<in> drawn_ids ?t" by (simp add: new_attempt_def drawn_ids_def record_attempt_simps)
  qed
  have new: "attempts ?t = map f (attempts s) @ [?a]" "attempt_open ?a"
    by (simp_all add: record_attempt_simps f(2) attempt_open_def new_attempt_def)
  have "started d \<in> set (deliveries ?t)" using h(1) by (auto simp: ds)
  then have fl: "\<exists>x\<in>set (deliveries ?t). d_id x = a_delivery_id ?a \<and> d_state x = In_flight"
    by (rule bexI [rotated]) (simp add: new_attempt_def)
  have succ: "x \<in> set (deliveries s)" if "x \<in> set (deliveries ?t)" "d_state x = Succeeded" for x
  proof -
    have "x \<in> set (deliveries t)" using that by (auto simp: ds split: if_splits)
    then show ?thesis using reclaim_succeeded [OF re _ that(2)] s1(2) by simp
  qed
  have busy: "in_flight_of (ep_id x) ?t \<noteq> [] \<or> (x \<in> set (endpoints s) \<and> in_flight_of (ep_id x) ?t = in_flight_of (ep_id x) s)"
    if "x \<in> set (endpoints ?t)" for x
  proof (cases "ep_id x = ?eid")
    case True
    then show ?thesis using one(1) by simp
  next
    case False
    then show ?thesis using that one(2) m(4,5) stmt_claim_endpoints [OF cl] by (simp add: record_attempt_simps)
  qed
  show ?thesis
    unfolding claim_effect_def
  proof (intro conjI exI [of _ f] exI [of _ "[?a]"])
    show "\<forall>c. r = Inr (Some c) \<longrightarrow> (\<exists>a. [?a] = [a] \<and> a_id a = c_attemptId c \<and> a_delivery_id a = c_deliveryId c \<and>
        a_attempt_number a = c_attemptNumber c \<and> attempt_open a)"
      using r new(2) by (auto simp: new_attempt_def)
  qed (use f(1) new id fl succ busy in auto)
qed

lemma claim_effect_same: "claim_effect s (Inr None) s"
  unfolding claim_effect_def by (intro conjI exI [of _ "\<lambda>a. a"] exI [of _ "[]"]) (simp_all add: closing_id)

lemma tryClaimEndpoint_effect:
  assumes run: "tryClaimEndpoint dec clk cand cutoff s = (r, t)" and ok: "db_ok mxa s" "fresh_candidate cand s"
  shows "claim_effect s r t"
  using run
proof (cases rule: tryClaimEndpoint_cases)
  case lost
  then show ?thesis by (simp add: claim_effect_same)
next
  case (ambiguous l s1)
  show ?thesis by (rule claim_prepared [OF ambiguous(1) ok]) (use ambiguous(2) in simp)
next
  case (idle l s1 u)
  let ?eid = "cand_id cand"
  have m: "claimed_state ?eid l s u" "wf_db u" "endpoints u = endpoints s1" "\<And>x. x \<noteq> ?eid \<Longrightarrow> in_flight_of x u = in_flight_of x s"
    by (rule claim_prepared [OF idle(1) ok]; use idle(2) in simp)+
  have s1: "attempts s1 = attempts s" "deliveries s1 = deliveries s" using stmt_claim_SomeD(2) [OF idle(1)] by simp_all
  obtain f where f: "closing f" "attempts u = map f (attempts s)" using reclaim_attempts [OF idle(2)] s1(1) by auto
  have fl: "in_flight_of x t = in_flight_of x u" for x using idle(5) by (simp add: in_flight_of_def)
  have busy: "e \<in> set (endpoints s) \<and> in_flight_of (ep_id e) t = in_flight_of (ep_id e) s"
    if e: "e \<in> set (endpoints t)" "ep_busy e" for e
  proof -
    have "e \<in> set (update_where (\<lambda>e. ep_id e = ?eid \<and> ep_lease_id e = Some l) free_lease (endpoints u))"
      using e(1) by (simp add: idle(5) stmt_release_def)
    then have eu: "e \<in> set (endpoints u)" "\<not> (ep_id e = ?eid \<and> ep_lease_id e = Some l)"
      by (rule update_where_inE; use e(2) in auto)+
    have "ep_lease_id e = Some l" if "ep_id e = ?eid"
    proof -
      have "find_by ep_id ?eid (endpoints u) = Some e"
        using m(2) by (intro find_by_eq_Some eu(1) that) (simp add: wf_db_def keys_ok_def)
      moreover have "fence ?eid u = Some l" using m(1) by (simp add: claimed_state_def)
      ultimately show ?thesis by (simp add: fence_def)
    qed
    with eu m(3,4) fl stmt_claim_endpoints [OF idle(1)] show ?thesis by metis
  qed
  have succ: "x \<in> set (deliveries s)" if "x \<in> set (deliveries t)" "d_state x = Succeeded" for x
    using reclaim_succeeded [OF idle(2) _ that(2)] that(1) s1(2) by (simp add: idle(5))
  show ?thesis
    unfolding claim_effect_def
    by (intro conjI exI [of _ f] exI [of _ "[]"]) (use f busy succ idle(4,5) in auto)
next
  case (unreadable l s1 u d v e)
  show ?thesis
    unfolding unreadable(7) by (rule claim_effect_started [OF unreadable(1,2) ok unreadable(3)]) (simp add: unreadable(6))
next
  case (claimed l s1 u d v e p q)
  show ?thesis
    unfolding claimed(7)
    by (rule claim_effect_started [OF claimed(1,2) ok claimed(3)]) (use claimed(6) in \<open>auto simp: new_claim_def\<close>)
qed

section \<open>The invariant\<close>

definition answered_ok :: "attempt \<Rightarrow> bool" where
  "answered_ok a \<longleftrightarrow> (case a_response_status a of None \<Rightarrow> False | Some st \<Rightarrow> 200 \<le> st \<and> st < 300)"

definition answers_ok :: "db \<Rightarrow> bool" where
  "answers_ok s \<longleftrightarrow> (\<forall>d\<in>set (deliveries s). (d_state d = Succeeded \<longrightarrow> d_attempt_count d \<noteq> 0) \<and>
     (\<forall>a\<in>set (attempts s). a_delivery_id a = d_id d \<longrightarrow>
        (answered_ok a \<longleftrightarrow> d_state d = Succeeded \<and> a_attempt_number a = d_attempt_count d)))"

definition busy_ok :: "db \<Rightarrow> bool" where
  "busy_ok s \<longleftrightarrow> (\<forall>e\<in>set (endpoints s). ep_busy e \<longrightarrow> in_flight_of (ep_id e) s \<noteq> [])"

text \<open>The attempt of a claim has no response yet, and if it was closed then by a reclaim.\<close>

definition unanswered :: "db \<Rightarrow> claimed_delivery \<Rightarrow> bool" where
  "unanswered s c \<longleftrightarrow> (\<exists>a\<in>set (attempts s). a_id a = c_attemptId c \<and> a_delivery_id a = c_deliveryId c \<and>
     a_attempt_number a = c_attemptNumber c \<and> a_response_status a = None \<and>
     a_error_class a \<in> {None, Some Worker_lease_expired})"

definition hands_ok :: "sys \<Rightarrow> bool" where
  "hands_ok u \<longleftrightarrow> distinct (map c_attemptId (s_hands u)) \<and> (\<forall>c\<in>set (s_hands u). unanswered (s_db u) c)"

lemma attempt_drawn: "wf_db s \<Longrightarrow> a \<in> set (attempts s) \<Longrightarrow> a_id a \<in> drawn_ids s"
  by (auto simp: wf_db_def drawn_ok_def)

lemma attempt_eq:
  "wf_db s \<Longrightarrow> a \<in> set (attempts s) \<Longrightarrow> b \<in> set (attempts s) \<Longrightarrow> a_id a = a_id b \<Longrightarrow> a = b"
  by (rule distinct_map_eq [of a_id "attempts s"]) (simp_all add: wf_db_def keys_ok_def)

lemma unanswered_drawn: "wf_db s \<Longrightarrow> unanswered s c \<Longrightarrow> c_attemptId c \<in> drawn_ids s"
  unfolding unanswered_def using attempt_drawn by metis

lemma open_unanswered: "attempt_open a \<Longrightarrow> \<not> answered_ok a"
  by (simp add: attempt_open_def answered_ok_def)

subsection \<open>Quiet steps\<close>

lemma quiet_answers:
  assumes "quiet s t" "wf_db s" "wf_db t" "answers_ok s"
  shows "answers_ok t"
proof -
  obtain ns now where t: "deliveries t = deliveries s @ ns" "\<forall>d\<in>set ns. new_row now d" "attempts t = attempts s"
    using assms(1) by (auto simp: quiet_def)
  have "a_delivery_id a \<noteq> d_id d" if "d \<in> set ns" "a \<in> set (attempts s)" for a d
  proof -
    have "a_delivery_id a \<in> d_id ` set (deliveries s)" using assms(2) that(2) by (simp add: wf_db_def refs_ok_def)
    moreover have "distinct (map d_id (deliveries s @ ns))" using assms(3) t(1) by (simp add: wf_db_def keys_ok_def)
    ultimately show ?thesis using that(1) by auto
  qed
  with assms(4) t show ?thesis by (auto simp: answers_ok_def new_row_def)
qed

lemma quiet_busy:
  assumes "quiet s t" "busy_ok s"
  shows "busy_ok t"
proof -
  obtain ns now where t: "deliveries t = deliveries s @ ns" "\<forall>d\<in>set ns. new_row now d"
    using assms(1) by (auto simp: quiet_def)
  obtain es where es: "map lease_view (endpoints t) = map lease_view (endpoints s) @ es"
    "\<forall>v\<in>set es. \<exists>i. v = (i, False, None, None)" using assms(1) by (auto simp: quiet_def)
  have view: "busy_ok s' \<longleftrightarrow> (\<forall>v\<in>set (map lease_view (endpoints s')). fst (snd v) \<longrightarrow> in_flight_of (fst v) s' \<noteq> [])" for s'
    by (simp add: busy_ok_def lease_view_def)
  show ?thesis
    using assms(2) es(2) unfolding view es(1) in_flight_append [OF t] by auto
qed

lemma quiet_unanswered: "quiet s t \<Longrightarrow> unanswered s c \<Longrightarrow> unanswered t c"
  by (simp add: quiet_def unanswered_def)

subsection \<open>Claims\<close>

lemma claim_answers:
  assumes "claim_effect s r t" "kept s t" "wf_db s" "wf_db t" "answers_ok s"
  shows "answers_ok t"
  unfolding answers_ok_def
proof (intro ballI conjI impI)
  obtain f ns where f: "closing f" and at: "attempts t = map f (attempts s) @ ns"
    and ns: "\<And>a. a \<in> set ns \<Longrightarrow> attempt_open a"
      "\<And>a. a \<in> set ns \<Longrightarrow> \<exists>d\<in>set (deliveries t). d_id d = a_delivery_id a \<and> d_state d = In_flight"
    and succ: "\<And>d. d \<in> set (deliveries t) \<Longrightarrow> d_state d = Succeeded \<Longrightarrow> d \<in> set (deliveries s)"
    by (rule claim_effectE [OF assms(1)]) blast
  fix d assume d: "d \<in> set (deliveries t)"
  show "d_attempt_count d \<noteq> 0" if "d_state d = Succeeded" using succ d that assms(5) by (auto simp: answers_ok_def)
  obtain d0 where d0: "d0 \<in> set (deliveries s)" "same_row d0 d"
  proof -
    obtain i where "i < length (deliveries t)" "d = deliveries t ! i" using d by (auto simp: in_set_conv_nth)
    then show thesis using assms(2) that [of "deliveries s ! i"] by (auto simp: kept_def list_all2_conv_all_nth)
  qed
  fix a assume a: "a \<in> set (attempts t)" "a_delivery_id a = d_id d"
  then consider b where "b \<in> set (attempts s)" "a = f b" | "a \<in> set ns" by (auto simp: at)
  then show "answered_ok a \<longleftrightarrow> d_state d = Succeeded \<and> a_attempt_number a = d_attempt_count d"
  proof cases
    case (1 b)
    have b: "a_delivery_id b = d_id d" "answered_ok a = answered_ok b" "a_attempt_number b = a_attempt_number a"
      using a(2) closing_simps [OF f] by (simp_all add: 1(2) answered_ok_def)
    have "answered_ok b \<longleftrightarrow> d_state d0 = Succeeded \<and> a_attempt_number b = d_attempt_count d0"
      using assms(5) d0 1(1) b(1) by (simp add: answers_ok_def same_row_def)
    moreover have "d = d0" if "d_state d = Succeeded"
      using succ d that d0 d_id_eq [OF assms(3), of d d0] by (simp add: same_row_def)
    moreover have "d = d0" if "d_state d0 = Succeeded" using d0(2) that by (simp add: same_row_def)
    ultimately show ?thesis using b(2,3) by auto
  next
    case 2
    with ns obtain x where x: "x \<in> set (deliveries t)" "d_id x = a_delivery_id a" "d_state x = In_flight" "attempt_open a" by blast
    then have "x = d" using d_id_eq [OF assms(4) x(1) d] a(2) by simp
    with x(3,4) show ?thesis by (simp add: open_unanswered)
  qed
qed

lemma claim_busy: "claim_effect s r t \<Longrightarrow> busy_ok s \<Longrightarrow> busy_ok t"
  unfolding claim_effect_def busy_ok_def by metis

lemma claim_unanswered:
  assumes "claim_effect s r t"
  shows "unanswered s c \<Longrightarrow> unanswered t c" "r = Inr (Some c) \<Longrightarrow> unanswered t c \<and> c_attemptId c \<notin> drawn_ids s"
proof -
  obtain f ns where f: "closing f" and at: "attempts t = map f (attempts s) @ ns"
    and ns: "\<And>a. a \<in> set ns \<Longrightarrow> a_id a \<notin> drawn_ids s"
    and new: "\<And>c. r = Inr (Some c) \<Longrightarrow> \<exists>a. ns = [a] \<and> a_id a = c_attemptId c \<and> a_delivery_id a = c_deliveryId c \<and>
        a_attempt_number a = c_attemptNumber c \<and> attempt_open a"
    by (rule claim_effectE [OF assms]) blast
  show "unanswered t c" if "unanswered s c"
  proof -
    obtain a where a: "a \<in> set (attempts s)" "a_id a = c_attemptId c" "a_delivery_id a = c_deliveryId c"
      "a_attempt_number a = c_attemptNumber c" "a_response_status a = None" "a_error_class a \<in> {None, Some Worker_lease_expired}"
      using \<open>unanswered s c\<close> by (auto simp: unanswered_def)
    have "a_error_class (f a) \<in> {None, Some Worker_lease_expired}"
      using f [unfolded closing_def, rule_format, of a] a(6) by auto
    with a closing_simps [OF f] show ?thesis by (auto simp: unanswered_def at intro!: bexI [of _ "f a"])
  qed
  show "unanswered t c \<and> c_attemptId c \<notin> drawn_ids s" if r: "r = Inr (Some c)"
  proof -
    obtain a where "ns = [a]" "a_id a = c_attemptId c" "a_delivery_id a = c_deliveryId c"
      "a_attempt_number a = c_attemptNumber c" "attempt_open a" using new [OF r] by blast
    with ns show ?thesis by (auto simp: unanswered_def at attempt_open_def)
  qed
qed

subsection \<open>Write-backs\<close>

lemma complete_rows:
  assumes run: "completeDelivery now rnd c r cfg s = (res, t)" and ok: "db_ok mxa s" "claim_ok s c"
  obtains (nothing) "t = s"
  | (written) d a where "d \<in> set (deliveries s)" "d_id d = c_deliveryId c" "d_state d = In_flight"
      "d_attempt_count d = c_attemptNumber c" "a \<in> set (attempts s)" "a_id a = c_attemptId c"
      "a_delivery_id a = d_id d" "a_attempt_number a = d_attempt_count d" "attempt_open a"
      "attempts t = map (recorded c r) (attempts s)"
      "\<And>x. x \<in> set (deliveries t) \<Longrightarrow> x = d \<or> d_id x \<noteq> d_id d \<and> x \<in> set (deliveries s) \<or>
         d_id x = d_id d \<and> d_attempt_count x = d_attempt_count d \<and> (d_state x = Succeeded \<longleftrightarrow> http_success r)"
      "\<And>x. x \<in> set (deliveries t) \<Longrightarrow> d_id x = d_id d \<Longrightarrow> d_state x = Succeeded \<longleftrightarrow> http_success r"
      "busy_ok s \<Longrightarrow> busy_ok t"
proof -
  have wf: "wf_db s" and sf: "single_flight s" using ok(1) by (simp_all add: db_ok_def)
  have wft: "wf_db t" by (rule wf_completeDelivery [OF run wf])
  from run show thesis
  proof (cases rule: completeDelivery_cases)
    case written
    have live: "claim_live s c" using ok(2) written(1) by (simp add: claim_ok_live holds_def)
    then obtain d a where d: "d \<in> set (deliveries s)" "d_id d = c_deliveryId c" "d_endpoint_id d = c_endpointId c"
        "d_state d = In_flight" "d_attempt_count d = c_attemptNumber c"
      and a: "a \<in> set (attempts s)" "a_id a = c_attemptId c" "a_delivery_id a = c_deliveryId c"
        "a_attempt_number a = c_attemptNumber c" "attempt_open a"
      by (auto simp: claim_live_def)
    have st: "settled_as (maxAttempts cfg) c r s t" unfolding written(4) by (rule written_settled)
    note fl = settled_in_flight [OF wf sf claim_live_row [OF live] st wft]
    have at: "attempts t = map (recorded c r) (attempts s)" using st by (simp add: settled_as_def)
    have res: "res = Inr (fst (settle_delivery now rnd c r cfg (stmt_record_outcome (c_attemptId c) r s)))"
      and oc: "fst (settle_delivery now rnd c r cfg (stmt_record_outcome (c_attemptId c) r s)) \<noteq> Oc_lease_lost"
      using written(3) by (simp_all add: settle_delivery_def)
    note rows = completion_rows [OF run [unfolded res] oc wf d(1,2)]
    have x: "d_id x \<noteq> d_id d \<and> x \<in> set (deliveries s) \<or> d_id x = d_id d \<and> d_attempt_count x = d_attempt_count d \<and>
        (d_state x = Succeeded \<longleftrightarrow> http_success r)" if "x \<in> set (deliveries t)" for x
    proof -
      obtain y where y: "y \<in> set (deliveries s)" "x = (if y = d then (if http_success r then d\<lparr>d_state := Succeeded\<rparr>
         else if maxAttempts cfg \<le> of_nat (c_attemptNumber c) then d\<lparr>d_state := Failed\<rparr>
         else d\<lparr>d_state := Pending, d_next_attempt_at := now + computeBackoffDelayMs rnd (c_attemptNumber c) cfg * 1000\<rparr>) else y)"
        using \<open>x \<in> set (deliveries t)\<close> unfolding rows [THEN conjunct1] set_map by blast
      then show ?thesis using d_id_eq [OF wf y(1) d(1)] by auto
    qed
    have busy: "busy_ok t" if "busy_ok s"
      unfolding busy_ok_def
    proof (intro ballI impI)
      fix e assume e: "e \<in> set (endpoints t)" "ep_busy e"
      have "ep_id e \<noteq> c_endpointId c"
      proof
        assume id: "ep_id e = c_endpointId c"
        have "e \<in> set (update_where (\<lambda>e. ep_id e = c_endpointId c) free_lease
            (endpoints (snd (settle_delivery now rnd c r cfg (stmt_record_outcome (c_attemptId c) r s)))))"
          using e(1) by (simp add: written(4) stmt_free_def)
        then show False by (rule update_where_inE) (use e(2) id in auto)
      qed
      moreover from this have "e \<in> set (endpoints s)" using st e(1) by (simp add: settled_as_def)
      ultimately show "in_flight_of (ep_id e) t \<noteq> []" using fl(2) \<open>busy_ok s\<close> e(2) by (simp add: busy_ok_def)
    qed
    show thesis
      by (rule that(2) [of d a]) (use d a at x busy in auto)
  qed (rule that(1), assumption)+
qed

lemma recorded_answer:
  "a_id a = c_attemptId c \<Longrightarrow> answered_ok (recorded c r a) \<longleftrightarrow> http_success r"
  "a_id a \<noteq> c_attemptId c \<Longrightarrow> recorded c r a = a"
  by (simp_all add: recorded_def answered_ok_def http_success_def)

lemma complete_answers:
  assumes run: "completeDelivery now rnd c r cfg s = (res, t)" and ok: "db_ok mxa s" "claim_ok s c" and ans: "answers_ok s"
  shows "answers_ok t"
proof (rule complete_rows [OF run ok])
  assume "t = s"
  with ans show ?thesis by simp
next
  fix d a
  assume d: "d \<in> set (deliveries s)" "d_id d = c_deliveryId c" "d_state d = In_flight" "d_attempt_count d = c_attemptNumber c"
    and a: "a \<in> set (attempts s)" "a_id a = c_attemptId c" "a_delivery_id a = d_id d" "a_attempt_number a = d_attempt_count d"
      "attempt_open a"
    and at: "attempts t = map (recorded c r) (attempts s)"
    and x: "\<And>x. x \<in> set (deliveries t) \<Longrightarrow> x = d \<or> d_id x \<noteq> d_id d \<and> x \<in> set (deliveries s) \<or>
         d_id x = d_id d \<and> d_attempt_count x = d_attempt_count d \<and> (d_state x = Succeeded \<longleftrightarrow> http_success r)"
    and succ: "\<And>x. x \<in> set (deliveries t) \<Longrightarrow> d_id x = d_id d \<Longrightarrow> d_state x = Succeeded \<longleftrightarrow> http_success r"
  have wf: "wf_db s" and num: "attempts_numbered s" using ok(1) by (simp_all add: db_ok_def)
  have count: "d_attempt_count d \<noteq> 0"
  proof -
    have "a \<in> set (attempts_of (d_id d) s)" using a by (simp add: attempts_of_def)
    then have "0 < length (attempts_of (d_id d) s)" by (auto simp: length_pos_if_in_set)
    then show ?thesis using arg_cong [where f = length, OF attempts_of_count [OF num d(1)]] by (simp del: upt_Suc length_greater_0_conv)
  qed
  show ?thesis
    unfolding answers_ok_def
  proof (intro ballI conjI impI)
    fix y assume y: "y \<in> set (deliveries t)"
    show "d_attempt_count y \<noteq> 0" if "d_state y = Succeeded" using x [OF y] that ans count by (auto simp: answers_ok_def)
    fix b assume b: "b \<in> set (attempts t)" "a_delivery_id b = d_id y"
    then obtain b0 where b0: "b0 \<in> set (attempts s)" "b = recorded c r b0" by (auto simp: at)
    show "answered_ok b \<longleftrightarrow> d_state y = Succeeded \<and> a_attempt_number b = d_attempt_count y"
    proof (cases "d_id y = d_id d")
      case False
      then have "a_id b0 \<noteq> c_attemptId c" using attempt_eq [OF wf b0(1) a(1)] a(2,3) b(2) b0(2) by auto
      then have "b = b0" using b0(2) recorded_answer(2) by simp
      then show ?thesis using x [OF y] False ans b(2) b0(1) by (auto simp: answers_ok_def)
    next
      case True
      have cnt: "d_attempt_count y = d_attempt_count d" using x [OF y] True by auto
      show ?thesis
      proof (cases "a_id b0 = c_attemptId c")
        case True
        then have "b0 = a" using attempt_eq [OF wf b0(1) a(1)] a(2) by simp
        then show ?thesis using succ [OF y] \<open>d_id y = d_id d\<close> True b0(2) a(4) cnt by (simp add: recorded_answer)
      next
        case False
        then have bb: "b = b0" using b0(2) recorded_answer(2) by simp
        then have "\<not> answered_ok b0" using ans d(1,3) b0(1) b(2) True by (auto simp: answers_ok_def)
        moreover have "a_attempt_number b0 \<noteq> d_attempt_count d"
        proof
          assume "a_attempt_number b0 = d_attempt_count d"
          then have "b0 = a" using numbered_unique [OF num d(1) b0(1) a(1)] b(2) bb True a(3,4) by simp
          with False a(2) show False by simp
        qed
        ultimately show ?thesis using bb cnt by simp
      qed
    qed
  qed
qed

lemma complete_unanswered:
  assumes run: "completeDelivery now rnd c r cfg s = (res, t)" and ok: "db_ok mxa s" "claim_ok s c"
    and c': "unanswered s c'" "c_attemptId c' \<noteq> c_attemptId c"
  shows "unanswered t c'"
proof (rule complete_rows [OF run ok])
  assume "t = s"
  with c' show ?thesis by simp
next
  assume at: "attempts t = map (recorded c r) (attempts s)"
  obtain a where a: "a \<in> set (attempts s)" "a_id a = c_attemptId c'" "a_delivery_id a = c_deliveryId c'"
      "a_attempt_number a = c_attemptNumber c'" "a_response_status a = None" "a_error_class a \<in> {None, Some Worker_lease_expired}"
    using c'(1) by (auto simp: unanswered_def)
  then have "recorded c r a = a" using c'(2) by (simp add: recorded_answer(2))
  then have "a \<in> set (attempts t)" using a(1) by (force simp: at)
  with a show ?thesis by (auto simp: unanswered_def)
qed

section \<open>Along runs\<close>

definition outcomes_ok :: "sys \<Rightarrow> bool" where
  "outcomes_ok u \<longleftrightarrow> answers_ok (s_db u) \<and> busy_ok (s_db u) \<and> hands_ok u"

lemma remove1_in: "x \<in> set (remove1 y xs) \<Longrightarrow> x \<in> set xs"
  by (metis notin_set_remove1)

lemma hands_remove1:
  assumes "hands_ok u" "s_db v = s_db u" "s_hands v = remove1 c (s_hands u)"
  shows "hands_ok v"
proof -
  have "distinct (map c_attemptId (s_hands u))" "\<And>c. c \<in> set (s_hands u) \<Longrightarrow> unanswered (s_db u) c"
    using assms(1) by (simp_all add: hands_ok_def)
  then show ?thesis
    unfolding hands_ok_def assms(2,3) by (blast intro: distinct_map_remove1 dest: remove1_in)
qed

lemma other_attempt:
  assumes "distinct (map c_attemptId hs)" "c \<in> set hs" "c' \<in> set (remove1 c hs)"
  shows "c_attemptId c' \<noteq> c_attemptId c"
proof
  assume "c_attemptId c' = c_attemptId c"
  moreover have "c' \<in> set hs" by (rule remove1_in [OF assms(3)])
  ultimately have "c' = c" by (rule distinct_map_eq [OF assms(1) _ assms(2), rotated])
  with assms(1,3) show False by (simp add: distinct_map)
qed

lemma outcomes_step:
  assumes step: "sys_step cfg u u'" and ok: "sys_ok cfg u" "outcomes_ok u"
  shows "outcomes_ok u'"
proof -
  have db: "db_ok (maxAttempts cfg) (s_db u)" and wf: "wf_db (s_db u)"
    and hands: "\<And>c. c \<in> set (s_hands u) \<Longrightarrow> claim_ok (s_db u) c"
    using ok(1) by (simp_all add: sys_ok_def db_ok_def)
  have wft: "wf_db (s_db u')" using sys_ok_step [OF step ok(1)] by (simp add: sys_ok_def db_ok_def)
  have ans: "answers_ok (s_db u)" "busy_ok (s_db u)" and dist: "distinct (map c_attemptId (s_hands u))"
    and un: "\<And>c. c \<in> set (s_hands u) \<Longrightarrow> unanswered (s_db u) c"
    using ok(2) by (simp_all add: outcomes_ok_def hands_ok_def)
  from step show ?thesis
  proof (cases rule: sys_step_kinds)
    case quiet
    then show ?thesis
      using quiet_answers [OF _ wf wft ans(1)] quiet_busy [OF _ ans(2)] quiet_unanswered un dist
      by (simp add: outcomes_ok_def hands_ok_def)
  next
    case (claim dec clk cand cutoff res)
    note eff = tryClaimEndpoint_effect [OF claim(1) db claim(2)]
    have "hands_ok u'"
    proof (cases "\<exists>c. res = Inr (Some c)")
      case True
      then obtain c where c: "res = Inr (Some c)" by blast
      have "c_attemptId c' \<noteq> c_attemptId c" if c': "c' \<in> set (s_hands u)" for c'
      proof -
        have "c_attemptId c' \<in> drawn_ids (s_db u)" by (rule unanswered_drawn [OF wf un [OF c']])
        with claim_unanswered(2) [OF eff c] show ?thesis by auto
      qed
      then have "c_attemptId c \<notin> c_attemptId ` set (s_hands u)" by (metis imageE)
      then show ?thesis
        using claim_unanswered [OF eff] c un dist by (simp add: hands_ok_def claim(3) hands_after_def)
    next
      case False
      then have "s_hands u' = s_hands u" by (cases res) (simp_all add: claim(3) hands_after_def split: option.split)
      then show ?thesis using claim_unanswered(1) [OF eff] un dist by (simp add: hands_ok_def)
    qed
    moreover have "kept (s_db u) (s_db u')" by (rule kept_tryClaim [OF claim(1) wf])
    ultimately show ?thesis
      using claim_answers [OF eff _ wf wft ans(1)] claim_busy [OF eff ans(2)] by (simp add: outcomes_ok_def)
  next
    case (complete c r now rnd res)
    note post = complete(3) and c = hands [OF complete(1)]
    have "busy_ok (s_db u')" by (rule complete_rows [OF post db c]) (use ans(2) in simp_all)
    moreover have "unanswered (s_db u') c'" if "c' \<in> set (s_hands u')" for c'
      by (rule complete_unanswered [OF post db c])
         (use that un other_attempt [OF dist complete(1), of c'] set_remove1_subset [of c "s_hands u"] in
           \<open>auto simp: complete(4)\<close>)
    ultimately show ?thesis
      using complete_answers [OF post db c ans(1)] dist by (simp add: outcomes_ok_def hands_ok_def complete(4) distinct_map_remove1)
  next
    case (crash c)
    then show ?thesis using ok(2) hands_remove1 [of u u' c] by (simp add: outcomes_ok_def)
  qed
qed

text \<open>
  Everything that is invariant under the steps.  It holds in every reachable state, and in any other
  state a test sets up with it.
\<close>

definition safe :: "backoff_config \<Rightarrow> sys \<Rightarrow> bool" where
  "safe cfg u \<longleftrightarrow> sys_ok cfg u \<and> outcomes_ok u"

lemma safe_step: "sys_step cfg u u' \<Longrightarrow> safe cfg u \<Longrightarrow> safe cfg u'"
  unfolding safe_def using sys_ok_step outcomes_step by blast

lemma reachable_safe: "reachable cfg u \<Longrightarrow> safe cfg u"
proof (induction rule: reachable.induct)
  case (reach_start g)
  then have "sys_ok cfg (sys_start g)" by (rule sys_ok_start)
  then show ?case
    by (simp add: safe_def outcomes_ok_def answers_ok_def busy_ok_def hands_ok_def sys_start_def empty_db_def)
qed (rule safe_step)

lemma safe_parts:
  assumes "safe cfg u"
  shows "db_ok (maxAttempts cfg) (s_db u)" "wf_db (s_db u)" "single_flight (s_db u)" "attempts_numbered (s_db u)"
    "open_current (s_db u)" "c \<in> set (s_hands u) \<Longrightarrow> claim_ok (s_db u) c" "answers_ok (s_db u)" "busy_ok (s_db u)"
    "distinct (map c_attemptId (s_hands u))" "c \<in> set (s_hands u) \<Longrightarrow> unanswered (s_db u) c"
  using assms by (auto simp: safe_def sys_ok_def db_ok_def outcomes_ok_def hands_ok_def)

lemma run_induct:
  assumes "sys_run cfg u v" "safe cfg u" "P u"
    and "\<And>w w'. safe cfg w \<Longrightarrow> sys_step cfg w w' \<Longrightarrow> P w \<Longrightarrow> P w'"
  shows "P v \<and> safe cfg v"
  using assms(1) unfolding sys_run_def
  by (induction rule: rtranclp_induct) (use assms(2-4) safe_step in blast)+

lemma run_refl [simp]: "sys_run cfg u u"
  by (simp add: sys_run_def)

lemma run_step: "sys_step cfg u v \<Longrightarrow> sys_run cfg v w \<Longrightarrow> sys_run cfg u w"
  unfolding sys_run_def by (rule converse_rtranclp_into_rtranclp)

lemma safe_run: "sys_run cfg u v \<Longrightarrow> safe cfg u \<Longrightarrow> safe cfg v"
  using run_induct [where P = "\<lambda>_. True"] by blast

lemma safe_evolves: "sys_run cfg u v \<Longrightarrow> safe cfg u \<Longrightarrow> evolves (s_db u) (s_db v)"
  by (drule run_induct [where P = "\<lambda>w. evolves (s_db u) (s_db w)"]) (auto simp: safe_def intro: evolves_trans evolves_step)

text \<open>A lease that was lost never comes back: leases are fresh UUIDs.\<close>

lemma not_held_again:
  assumes keep: "\<And>c. claim_ok s c \<Longrightarrow> claim_ok t c" and c: "c_leaseId c \<in> drawn_ids s" "\<not> holds c s"
  shows "\<not> holds c t"
proof -
  obtain i where i: "i \<notin> a_id ` set (attempts t)" using ex_new_if_finite [OF infinite_UNIV_nat] by (metis List.finite_set finite_imageI)
  let ?c = "c\<lparr>c_attemptId := i\<rparr>"
  have "claim_ok t ?c" by (rule keep) (use c in \<open>simp add: claim_ok_def holds_def\<close>)
  with i show ?thesis by (auto simp: claim_ok_def holds_def)
qed

lemma quiet_fence:
  assumes "quiet s t"
  shows "fence eid t = fence eid s"
proof -
  obtain es where es: "map lease_view (endpoints t) = map lease_view (endpoints s) @ es"
    "\<forall>v\<in>set es. \<exists>i. v = (i, False, None, None)" using assms by (auto simp: quiet_def)
  show ?thesis
    unfolding fence_lease_view es(1) find_by_append using es(2) by (auto split: option.split dest: find_by_Some)
qed

lemma not_held_step:
  assumes "sys_step cfg u u'" "safe cfg u" "c_leaseId c \<in> drawn_ids (s_db u)" "\<not> holds c (s_db u)"
  shows "\<not> holds c (s_db u') \<and> c_leaseId c \<in> drawn_ids (s_db u')"
proof -
  note db = safe_parts(1) [OF assms(2)] and hands = safe_parts(6) [OF assms(2)]
  from assms(1) show ?thesis
  proof (cases rule: sys_step_kinds)
    case quiet
    then show ?thesis using assms(3,4) quiet_fence [OF quiet(1)] by (auto simp: holds_def quiet_def)
  next
    case (claim dec clk cand cutoff res)
    have "claim_post (maxAttempts cfg) (s_db u) res (s_db u')" by (rule tryClaimEndpoint_post [OF claim(1) db claim(2)])
    then show ?thesis using not_held_again [OF _ assms(3,4)] assms(3) unfolding claim_post_def by blast
  next
    case (complete c' r now rnd res)
    note post = completeDelivery_post [OF complete(3) db hands [OF complete(1)] complete(2)]
    then show ?thesis using not_held_again [OF _ assms(3,4)] assms(3) by blast
  next
    case (crash c')
    then show ?thesis using assms(3,4) by simp
  qed
qed

lemma not_held_run:
  assumes "sys_run cfg u v" "safe cfg u" "c_leaseId c \<in> drawn_ids (s_db u)" "\<not> holds c (s_db u)"
  shows "\<not> holds c (s_db v)"
proof -
  have "(\<not> holds c (s_db v) \<and> c_leaseId c \<in> drawn_ids (s_db v)) \<and> safe cfg v"
    by (rule run_induct [OF assms(1,2)]) (use assms(3,4) not_held_step in blast)+
  then show ?thesis by blast
qed

text \<open>The attempt of a worker that is gone is answered by nobody.\<close>

lemma abandoned_step:
  assumes step: "sys_step cfg u u'" and ok: "safe cfg u"
    and c: "unanswered (s_db u) c" "c_attemptId c \<notin> c_attemptId ` set (s_hands u)"
  shows "unanswered (s_db u') c \<and> c_attemptId c \<notin> c_attemptId ` set (s_hands u')"
proof -
  note db = safe_parts(1) [OF ok] and wf = safe_parts(2) [OF ok] and hands = safe_parts(6) [OF ok]
  have drawn: "c_attemptId c \<in> drawn_ids (s_db u)" by (rule unanswered_drawn [OF wf c(1)])
  from step show ?thesis
  proof (cases rule: sys_step_kinds)
    case quiet
    then show ?thesis using c quiet_unanswered by simp
  next
    case (claim dec clk cand cutoff res)
    note eff = tryClaimEndpoint_effect [OF claim(1) db claim(2)]
    have "c_attemptId c \<notin> c_attemptId ` set (s_hands u')"
      using c(2) claim_unanswered(2) [OF eff] drawn by (auto simp: claim(3) hands_after_def split: sum.splits option.splits)
    with claim_unanswered(1) [OF eff c(1)] show ?thesis by blast
  next
    case (complete c' r now rnd res)
    have "unanswered (s_db u') c"
      by (rule complete_unanswered [OF complete(3) db hands [OF complete(1)] c(1)]) (use c(2) complete(1) in auto)
    with c(2) set_remove1_subset [of c' "s_hands u"] show ?thesis by (auto simp: complete(4))
  next
    case (crash c')
    with c set_remove1_subset [of c' "s_hands u"] show ?thesis by auto
  qed
qed

lemma abandoned_run:
  assumes "safe cfg u" "c \<in> set (s_hands u)" "sys_run cfg (u\<lparr>s_hands := remove1 c (s_hands u)\<rparr>) v"
  shows "unanswered (s_db v) c" "safe cfg v"
proof -
  let ?u = "u\<lparr>s_hands := remove1 c (s_hands u)\<rparr>"
  have r: "safe cfg ?u" by (rule safe_step [OF step_crash [OF assms(2)] assms(1)])
  have "unanswered (s_db ?u) c \<and> c_attemptId c \<notin> c_attemptId ` set (s_hands ?u)"
    using safe_parts(10) [OF assms(1,2)] other_attempt [OF safe_parts(9) [OF assms(1)] assms(2)]
    by (simp add: image_iff) metis
  with assms(3) r have "(unanswered (s_db v) c \<and> c_attemptId c \<notin> c_attemptId ` set (s_hands v)) \<and> safe cfg v"
    by (rule run_induct) (use abandoned_step in blast)
  then show "unanswered (s_db v) c" "safe cfg v" by simp_all
qed

section \<open>A concrete takeover\<close>

text \<open>The lease of \<open>demo_claim\<close> runs out, a second worker reclaims the delivery and has it answered with 200.\<close>

definition solo_reclaimed :: db where
  "solo_reclaimed = demo_db [demo_tenant\<lparr>tn_last_served_at := Some 90000000\<rparr>] [take_lease 90000000 6 demo_endpoint]
     [demo_event Expanded] [demo_delivery In_flight 2]
     [demo_attempt\<lparr>a_error_class := Some Worker_lease_expired\<rparr>,
      demo_attempt\<lparr>a_id := 7, a_attempt_number := 2, a_sent_at := Some 90000000, a_created_at := 90000000\<rparr>] 2 2 8"

definition solo_claim2 :: claimed_delivery where
  "solo_claim2 = demo_claim\<lparr>c_leaseId := 6, c_attemptNumber := 2, c_attemptId := 7\<rparr>"

definition demo_answer :: attempt_outcome where
  "demo_answer = \<lparr>o_responseStatus = Some 200, o_responseBodyTruncated = [], o_durationMs = 5, o_errorClass = None\<rparr>"

lemma demo_answer_closed: "outcome_closed demo_answer"
  by (simp add: demo_answer_def outcome_closed_def)

definition solo_done :: db where
  "solo_done = demo_db [demo_tenant\<lparr>tn_last_served_at := Some 90000000\<rparr>] [demo_endpoint]
     [demo_event Expanded] [demo_delivery Succeeded 2]
     [demo_attempt\<lparr>a_error_class := Some Worker_lease_expired\<rparr>,
      demo_attempt\<lparr>a_id := 7, a_attempt_number := 2, a_sent_at := Some 90000000, a_created_at := 90000000,
        a_response_status := Some 200, a_response_body_truncated := Some [], a_duration_ms := Some 5\<rparr>] 2 2 8"

lemma solo_reclaim:
  "tryClaimEndpoint demo_dec (demo_clock 90000000) demo_stale 50000000 demo_claimed = (Inr (Some solo_claim2), solo_reclaimed)"
proof -
  have secrets: "claim_secrets demo_dec n (take_lease 90000000 6 demo_endpoint) = Some (generateSecret demo_bytes ''whsec'', None)" for n
    using demo_decrypt by (simp add: claim_secrets_def hasActiveSecondary_def take_lease_def demo_endpoint_def)
  show ?thesis
    using secrets
    by (simp add: tryClaimEndpoint_def stmt_claim_def demo_clock_def demo_stale_def demo_claimed_def demo_db_def
        claimable_def lease_free_def gen_random_uuid_def Let_def stmt_serve_def reclaim_def claim_head_def
        stmt_expire_orphans_def in_flight_of_def stmt_requeue_def orphan_def
        select_head_def pending_of_def demo_delivery_def demo_event_def js_of_ts_def
        start_attempt_def stmt_insert_attempt_def stmt_in_flight_def demo_claim_def solo_claim2_def solo_reclaimed_def
        demo_attempt_def demo_tenant_def demo_endpoint_def take_lease_def)
qed

lemma solo_complete: "completeDelivery now rnd solo_claim2 demo_answer cfg solo_reclaimed = (Inr Oc_succeeded, solo_done)"
  by (simp add: completeDelivery_def solo_reclaimed_def solo_done_def demo_db_def demo_rows take_lease_def fence_def
      solo_claim2_def demo_claim_def demo_answer_def pg_text_ok_def stmt_record_outcome_def settle_delivery_def
      http_success_def stmt_resolve_def stmt_free_def free_lease_def)

text \<open>With and without the first worker still holding its claim.\<close>

lemma solo_run:
  assumes "hs \<in> {[], [demo_claim]}"
  shows "sys_run cfg \<lparr>s_db = demo_claimed, s_hands = hs\<rparr> \<lparr>s_db = solo_done, s_hands = hs\<rparr>"
proof -
  have "sys_step cfg \<lparr>s_db = demo_claimed, s_hands = hs\<rparr> \<lparr>s_db = solo_reclaimed, s_hands = hands_after (Inr (Some solo_claim2)) hs\<rparr>"
    using step_claim [of demo_dec "demo_clock 90000000" demo_stale 50000000 "\<lparr>s_db = demo_claimed, s_hands = hs\<rparr>"]
    by (simp add: solo_reclaim demo_stale_fresh)
  moreover have "sys_step cfg \<lparr>s_db = solo_reclaimed, s_hands = hands_after (Inr (Some solo_claim2)) hs\<rparr> \<lparr>s_db = solo_done, s_hands = hs\<rparr>"
    using step_complete [of solo_claim2 "\<lparr>s_db = solo_reclaimed, s_hands = hands_after (Inr (Some solo_claim2)) hs\<rparr>" demo_answer 0 0 cfg]
    by (simp add: hands_after_def demo_answer_def outcome_closed_def solo_complete [unfolded demo_answer_def])
  ultimately show ?thesis
    by (blast intro: run_step run_refl)
qed

lemma solo_reachable: "reachable cfg \<lparr>s_db = solo_done, s_hands = [demo_claim]\<rparr>"
  by (rule run_reachable [OF demo_reachable [unfolded demo_sys_def]]) (simp add: solo_run)

section \<open>In a safe state\<close>

lemma filter_last:
  assumes "map g xs = [1..<Suc n]" "n \<noteq> 0"
  shows "filter (\<lambda>x. g x = n) xs = [last xs]"
proof (cases xs rule: rev_cases)
  case Nil
  with assms show ?thesis by simp
next
  case (snoc ys y)
  have "map g ys = [1..<n]" "g y = n" using assms by (simp_all add: snoc)
  then have "\<forall>x\<in>set ys. g x \<noteq> n" by (metis atLeastLessThan_iff image_eqI less_irrefl set_map set_upt)
  then show ?thesis using \<open>g y = n\<close> by (simp add: snoc filter_empty_conv)
qed

lemma answers_of:
  assumes "safe cfg u" "d \<in> set (deliveries (s_db u))"
  shows "filter answered_ok (attempts_of (d_id d) (s_db u)) =
    (if d_state d = Succeeded then [last (attempts_of (d_id d) (s_db u))] else [])"
proof -
  have "answers_ok (s_db u)" by (rule safe_parts(7) [OF assms(1)])
  then have a: "\<And>a. a \<in> set (attempts_of (d_id d) (s_db u)) \<Longrightarrow>
      answered_ok a \<longleftrightarrow> d_state d = Succeeded \<and> a_attempt_number a = d_attempt_count d"
    and n: "d_state d = Succeeded \<Longrightarrow> d_attempt_count d \<noteq> 0"
    using assms(2) by (auto simp: answers_ok_def attempts_of_def)
  show ?thesis
  proof (cases "d_state d = Succeeded")
    case True
    have "filter answered_ok (attempts_of (d_id d) (s_db u)) =
        filter (\<lambda>a. a_attempt_number a = d_attempt_count d) (attempts_of (d_id d) (s_db u))"
      by (rule filter_cong) (use a True in auto)
    then show ?thesis
      using filter_last [OF attempts_of_count [OF safe_parts(4) [OF assms(1)] assms(2)] n [OF True]] True by simp
  next
    case False
    then show ?thesis using a by (simp add: filter_empty_conv)
  qed
qed

lemma in_flight_count:
  assumes "safe cfg u" "e \<in> set (endpoints (s_db u))"
  shows "length (in_flight_of (ep_id e) (s_db u)) = (if ep_busy e then 1 else 0)"
proof -
  have "busy_ok (s_db u)" by (rule safe_parts(8) [OF assms(1)])
  then have "ep_busy e \<Longrightarrow> in_flight_of (ep_id e) (s_db u) \<noteq> []" using assms(2) by (simp add: busy_ok_def)
  moreover have "length (in_flight_of (ep_id e) (s_db u)) \<le> 1"
    "in_flight_of (ep_id e) (s_db u) \<noteq> [] \<Longrightarrow> ep_busy e"
    using safe_parts(3) [OF assms(1)] assms(2) by (auto simp: single_flight_def)
  ultimately show ?thesis by (cases "in_flight_of (ep_id e) (s_db u)") auto
qed

lemma busy_working:
  "safe cfg u \<Longrightarrow> e \<in> set (endpoints (s_db u)) \<Longrightarrow> ep_busy e \<longleftrightarrow> length (in_flight_of (ep_id e) (s_db u)) = 1"
  using in_flight_count [of cfg u e] by simp

lemma closed_unless_current:
  assumes "safe cfg u" "unanswered (s_db u) c"
  shows "\<exists>a\<in>set (attempts (s_db u)). a_id a = c_attemptId c \<and> a_delivery_id a = c_deliveryId c \<and>
    a_attempt_number a = c_attemptNumber c \<and> a_response_status a = None \<and>
    (a_error_class a = Some Worker_lease_expired \<or>
     a_error_class a = None \<and> (\<exists>d\<in>set (deliveries (s_db u)). d_id d = c_deliveryId c \<and> d_state d = In_flight \<and>
       d_attempt_count d = c_attemptNumber c))"
proof -
  obtain a where a: "a \<in> set (attempts (s_db u))" "a_id a = c_attemptId c" "a_delivery_id a = c_deliveryId c"
      "a_attempt_number a = c_attemptNumber c" "a_response_status a = None" "a_error_class a \<in> {None, Some Worker_lease_expired}"
    using assms(2) by (auto simp: unanswered_def)
  moreover have "\<exists>d\<in>set (deliveries (s_db u)). d_id d = c_deliveryId c \<and> d_state d = In_flight \<and>
      d_attempt_count d = c_attemptNumber c" if "a_error_class a = None"
  proof -
    have "attempt_open a" using a(5) that by (simp add: attempt_open_def)
    then show ?thesis using safe_parts(5) [OF assms(1)] a(1-4) unfolding open_current_def by metis
  qed
  ultimately show ?thesis by (intro bexI [of _ a]) auto
qed

end
