(* ===== verification/Head_Of_Line.thy ===== *)
theory Head_Of_Line
  imports Outcomes
begin

text \<open>
  Head-of-line blocking as an invariant of \<open>System\<close>, whose claims are one step each: while a delivery of an endpoint
  is unresolved, no later one of the endpoint has been attempted, so the attempts of an endpoint are made in the order of its queue.
  \<open>Claim_Guarantees\<close> has both between the statements of a claim.
\<close>

section \<open>The invariant\<close>

definition fifo_ok :: "db \<Rightarrow> bool" where
  "fifo_ok s \<longleftrightarrow> (\<forall>d\<in>set (deliveries s). \<forall>d'\<in>set (deliveries s). d_endpoint_id d' = d_endpoint_id d \<longrightarrow>
     d_seq d < d_seq d' \<longrightarrow> unresolved d \<longrightarrow> d_state d' = Pending \<and> d_attempt_count d' = 0)"

definition in_queue_order :: "db \<Rightarrow> attempt \<Rightarrow> attempt \<Rightarrow> bool" where
  "in_queue_order s a b \<longleftrightarrow> (\<forall>d\<in>set (deliveries s). \<forall>d'\<in>set (deliveries s).
     d_id d = a_delivery_id a \<longrightarrow> d_id d' = a_delivery_id b \<longrightarrow> d_endpoint_id d' = d_endpoint_id d \<longrightarrow> d_seq d \<le> d_seq d')"

definition lined_up :: "db \<Rightarrow> bool" where
  "lined_up s \<longleftrightarrow> fifo_ok s \<and> sorted_wrt (in_queue_order s) (attempts s)"

lemma kept_back:
  assumes "kept s t" "d \<in> set (deliveries t)"
  obtains d0 where "d0 \<in> set (deliveries s)" "same_row d0 d"
proof -
  obtain i where "i < length (deliveries t)" "d = deliveries t ! i" using assms(2) by (auto simp: in_set_conv_nth)
  then show thesis using assms(1) that [of "deliveries s ! i"] by (auto simp: kept_def list_all2_conv_all_nth)
qed

lemma same_row_unresolved: "same_row d0 d \<Longrightarrow> unresolved d \<Longrightarrow> unresolved d0"
  by (cases "d_state d0") (auto simp: same_row_def unresolved_def)

text \<open>A step that only changes rows: a waiting row must stay untouched.\<close>

definition waiting :: "db \<Rightarrow> delivery \<Rightarrow> bool" where
  "waiting s d \<longleftrightarrow> d_state d = Pending \<and> d_attempt_count d = 0 \<and>
     (\<exists>x\<in>set (deliveries s). d_endpoint_id x = d_endpoint_id d \<and> d_seq x < d_seq d \<and> unresolved x)"

lemma fifo_kept:
  assumes "kept s t" "fifo_ok s"
    and "\<And>d0 d. d0 \<in> set (deliveries s) \<Longrightarrow> waiting s d0 \<Longrightarrow> d \<in> set (deliveries t) \<Longrightarrow> same_row d0 d \<Longrightarrow>
      d_state d = Pending \<and> d_attempt_count d = 0"
  shows "fifo_ok t"
  unfolding fifo_ok_def
proof (intro ballI impI)
  fix d d' assume d: "d \<in> set (deliveries t)" "d' \<in> set (deliveries t)" "d_endpoint_id d' = d_endpoint_id d"
    "d_seq d < d_seq d'" "unresolved d"
  obtain d0 where d0: "d0 \<in> set (deliveries s)" "same_row d0 d" by (rule kept_back [OF assms(1) d(1)])
  obtain d0' where d0': "d0' \<in> set (deliveries s)" "same_row d0' d'" by (rule kept_back [OF assms(1) d(2)])
  have eq: "d_endpoint_id d0' = d_endpoint_id d0" "d_seq d0 < d_seq d0'" using d(3,4) d0(2) d0'(2) by (simp_all add: same_row_def)
  have "unresolved d0" by (rule same_row_unresolved [OF d0(2) d(5)])
  with assms(2) d0(1) d0'(1) eq have "waiting s d0'" by (auto simp: waiting_def fifo_ok_def)
  then show "d_state d' = Pending \<and> d_attempt_count d' = 0" by (rule assms(3) [OF d0'(1) _ d(2) d0'(2)])
qed

lemma in_queue_order_kept:
  assumes "kept s t" "in_queue_order s a b" "a_delivery_id a' = a_delivery_id a" "a_delivery_id b' = a_delivery_id b"
  shows "in_queue_order t a' b'"
  unfolding in_queue_order_def
proof (intro ballI impI)
  fix d d' assume d: "d \<in> set (deliveries t)" "d' \<in> set (deliveries t)" "d_id d = a_delivery_id a'" "d_id d' = a_delivery_id b'"
    "d_endpoint_id d' = d_endpoint_id d"
  obtain d0 where d0: "d0 \<in> set (deliveries s)" "same_row d0 d" by (rule kept_back [OF assms(1) d(1)])
  obtain d0' where d0': "d0' \<in> set (deliveries s)" "same_row d0' d'" by (rule kept_back [OF assms(1) d(2)])
  show "d_seq d \<le> d_seq d'" using assms(2-4) d d0 d0' unfolding in_queue_order_def same_row_def by metis
qed

lemma ordered_map:
  assumes "kept s t" "sorted_wrt (in_queue_order s) xs" "\<And>a. a_delivery_id (f a) = a_delivery_id a"
  shows "sorted_wrt (in_queue_order t) (map f xs)"
  unfolding sorted_wrt_map
  by (rule sorted_wrt_mono_rel [OF _ assms(2)]) (rule in_queue_order_kept [OF assms(1)], assumption, simp_all add: assms(3))

section \<open>Every step keeps it\<close>

lemma quiet_ordered:
  assumes q: "quiet s t" and wf: "wf_db s" "wf_db t" and l: "sorted_wrt (in_queue_order s) (attempts s)"
  shows "sorted_wrt (in_queue_order t) (attempts t)"
proof (rule sorted_wrt_mono_rel [of _ "in_queue_order s"])
  obtain ns where t: "deliveries t = deliveries s @ ns" "attempts t = attempts s" using q by (auto simp: quiet_def)
  show "sorted_wrt (in_queue_order s) (attempts t)" using l t(2) by simp
  fix a b assume ab: "a \<in> set (attempts t)" "b \<in> set (attempts t)" "in_queue_order s a b"
  have old: "d \<in> set (deliveries s)" if dx: "d \<in> set (deliveries t)" "d_id d = a_delivery_id x" "x \<in> set (attempts t)" for d x
  proof -
    obtain d0 where "d0 \<in> set (deliveries s)" "d_id d0 = a_delivery_id x"
      using wf(1) dx(3) t(2) by (force simp: wf_db_def refs_ok_def)
    with dx(1,2) t(1) d_id_eq [OF wf(2), of d d0] show ?thesis by simp
  qed
  show "in_queue_order t a b" using ab old unfolding in_queue_order_def by blast
qed

lemma quiet_lined_up:
  assumes q: "quiet s t" and wf: "wf_db s" "wf_db t" and l: "lined_up s"
  shows "lined_up t"
proof -
  obtain ns now where t: "deliveries t = deliveries s @ ns" "\<forall>d\<in>set ns. new_row now d"
    using q by (auto simp: quiet_def)
  have seq: "\<forall>d\<in>set (deliveries s). \<forall>d'\<in>set ns. d_seq d < d_seq d'"
    using wf(2) t(1) by (auto simp: wf_db_def seqs_ok_def sorted_wrt_append sorted_wrt_map)
  have "fifo_ok t"
    using l t(1,2) seq by (auto simp: lined_up_def fifo_ok_def new_row_def dest: less_asym)
  with quiet_ordered [OF q wf] l show ?thesis by (simp add: lined_up_def)
qed

lemma reclaim_row:
  assumes "reclaim cand s = Some u" "wf_db s" "d0 \<in> set (deliveries s)" "d_state d0 = Pending" "d \<in> set (deliveries u)" "d_id d = d_id d0"
  shows "d = d0"
  using reclaim_deliveries [OF assms(1)]
proof
  assume "deliveries u = deliveries s"
  with assms d_id_eq [OF assms(2)] show ?thesis by simp
next
  let ?P = "\<lambda>d. d_endpoint_id d = cand_id cand \<and> d_state d = In_flight"
  assume "deliveries u = update_where ?P (\<lambda>d. d\<lparr>d_state := Pending\<rparr>) (deliveries s)"
  with assms(5) have "d \<in> set (update_where ?P (\<lambda>d. d\<lparr>d_state := Pending\<rparr>) (deliveries s))" by simp
  then show ?thesis
    by (rule update_where_inE) (use assms(3,4,6) d_id_eq [OF assms(2)] in force)+
qed

lemma started_lined_up:
  assumes cl: "stmt_claim (at_claim clk) cutoff (cand_id cand) s = (Some l, s1)"
    and re: "reclaim cand (stmt_serve (at_serve clk) (cand_tenant_id cand) s1) = Some u"
    and hd: "select_head (cand_id cand) u = Some (d, v, e)" and ok: "db_ok mxa s" "fresh_candidate cand s"
    and kept: "kept s (record_attempt now d u)" and lined: "lined_up s"
  shows "lined_up (record_attempt now d u)"
proof -
  let ?s2 = "stmt_serve (at_serve clk) (cand_tenant_id cand) s1" and ?t = "record_attempt now d u"
  have wf: "wf_db s" and num: "attempts_numbered s" using ok(1) by (simp_all add: db_ok_def)
  have s1: "attempts ?s2 = attempts s" "deliveries ?s2 = deliveries s" using stmt_claim_SomeD(2) [OF cl] by simp_all
  have wf2: "wf_db ?s2" by (rule stmt_claim_state(2) [OF cl wf]) (use ok(1) in \<open>simp add: db_ok_def\<close>)
  have wfu: "wf_db u" by (rule wf_reclaim [OF re wf2])
  note ds = record_attempt_deliveries [OF wfu select_head_SomeD(1) [OF wfu hd], of now]
  obtain d0 where d0: "d0 \<in> set (deliveries s)" "d_id d0 = d_id d" "d_endpoint_id d0 = cand_id cand" "d_endpoint_id d = cand_id cand"
      "unresolved d0" "d_attempt_count d0 = d_attempt_count d" "d_seq d0 = d_seq d"
      "\<forall>d'\<in>set (deliveries s). d_endpoint_id d' = cand_id cand \<longrightarrow> unresolved d' \<longrightarrow> d_seq d0 \<le> d_seq d'"
    by (rule claim_head_oldest [OF cl re hd ok])
  have wait: "y = x" if x: "x \<in> set (deliveries s)" "waiting s x" "y \<in> set (deliveries ?t)" "same_row x y" for x y
  proof -
    have "d_id x \<noteq> d_id d"
    proof
      assume "d_id x = d_id d"
      then have "x = d0" using d_id_eq [OF wf x(1) d0(1)] d0(2) by simp
      with x(2) d0(3,8) show False by (auto simp: waiting_def)
    qed
    then have "y \<in> set (deliveries u)" using x(3,4) by (auto simp: ds same_row_def split: if_splits)
    then show ?thesis using reclaim_row [OF re wf2, of x y] x s1(2) by (simp add: waiting_def same_row_def)
  qed
  have fifo: "fifo_ok ?t"
    by (rule fifo_kept [OF kept]) (use lined wait in \<open>auto simp: lined_up_def waiting_def\<close>)
  obtain f where f: "closing f" "attempts u = map f (attempts s)" using reclaim_attempts [OF re] s1(1) by auto
  have old: "sorted_wrt (in_queue_order ?t) (map f (attempts s))"
    by (rule ordered_map [OF kept]) (use lined closing_simps [OF f(1)] in \<open>simp_all add: lined_up_def\<close>)
  have new: "in_queue_order ?t a (new_attempt now d u)" if a: "a \<in> set (map f (attempts s))" for a
    unfolding in_queue_order_def
  proof (intro ballI impI)
    fix y y' assume y: "y \<in> set (deliveries ?t)" "y' \<in> set (deliveries ?t)" "d_id y = a_delivery_id a"
      "d_id y' = a_delivery_id (new_attempt now d u)" "d_endpoint_id y' = d_endpoint_id y"
    obtain y0 where y0: "y0 \<in> set (deliveries s)" "same_row y0 y" by (rule kept_back [OF kept y(1)])
    obtain y0' where y0': "y0' \<in> set (deliveries s)" "same_row y0' y'" by (rule kept_back [OF kept y(2)])
    have "y0' = d0" using d_id_eq [OF wf y0'(1) d0(1)] d0(2) y(4) y0'(2) by (simp add: same_row_def new_attempt_def)
    obtain b where b: "b \<in> set (attempts s)" "a_delivery_id b = d_id y0"
      using a y(3) y0(2) closing_simps [OF f(1)] by (auto simp: same_row_def)
    have "\<not> d_seq d0 < d_seq y0"
    proof
      assume "d_seq d0 < d_seq y0"
      moreover have "d_endpoint_id y0 = d_endpoint_id d0" using \<open>y0' = d0\<close> y(5) y0(2) y0'(2) by (simp add: same_row_def)
      ultimately have "d_attempt_count y0 = 0" using lined d0(1,5) y0(1) by (simp add: lined_up_def fifo_ok_def)
      then have "attempts_of (d_id y0) s = []" using attempts_of_count [OF num y0(1)] by simp
      with b show False by (auto simp: attempts_of_def filter_empty_conv)
    qed
    then show "d_seq y \<le> d_seq y'" using \<open>y0' = d0\<close> y0(2) y0'(2) by (simp add: same_row_def)
  qed
  show ?thesis
    using fifo old new by (auto simp: lined_up_def record_attempt_simps f(2) sorted_wrt_append)
qed

lemma claim_lined_up:
  assumes run: "tryClaimEndpoint dec clk cand cutoff s = (r, t)" and ok: "db_ok mxa s" "fresh_candidate cand s" and lined: "lined_up s"
  shows "lined_up t"
proof -
  have wf: "wf_db s" using ok(1) by (simp add: db_ok_def)
  note kept = kept_tryClaim [OF run wf]
  from run show ?thesis
  proof (cases rule: tryClaimEndpoint_cases)
    case lost
    with lined show ?thesis by simp
  next
    case (ambiguous l s1)
    show ?thesis by (rule claim_prepared [OF ambiguous(1) ok]) (use ambiguous(2) in simp)
  next
    case (idle l s1 u)
    let ?s2 = "stmt_serve (at_serve clk) (cand_tenant_id cand) s1"
    have s1: "attempts ?s2 = attempts s" "deliveries ?s2 = deliveries s" using stmt_claim_SomeD(2) [OF idle(1)] by simp_all
    have wf2: "wf_db ?s2" by (rule stmt_claim_state(2) [OF idle(1) wf]) (use ok(1) in \<open>simp add: db_ok_def\<close>)
    have "fifo_ok t"
      by (rule fifo_kept [OF kept])
         (use lined reclaim_row [OF idle(2) wf2] s1(2) idle(5) in \<open>auto simp: lined_up_def waiting_def same_row_def\<close>)
    moreover obtain f where f: "closing f" "attempts u = map f (attempts s)" using reclaim_attempts [OF idle(2)] s1(1) by auto
    have "sorted_wrt (in_queue_order t) (map f (attempts s))"
      by (rule ordered_map [OF kept]) (use lined closing_simps [OF f(1)] in \<open>simp_all add: lined_up_def\<close>)
    ultimately show ?thesis using f(2) idle(5) by (simp add: lined_up_def)
  next
    case (unreadable l s1 u d v e)
    show ?thesis
      unfolding unreadable(7) by (rule started_lined_up [OF unreadable(1-3) ok kept [unfolded unreadable(7)] lined])
  next
    case (claimed l s1 u d v e p q)
    show ?thesis
      unfolding claimed(7) by (rule started_lined_up [OF claimed(1-3) ok kept [unfolded claimed(7)] lined])
  qed
qed

lemma complete_lined_up:
  assumes run: "completeDelivery now rnd c r cfg s = (res, t)" and ok: "db_ok mxa s" "claim_ok s c" and lined: "lined_up s"
  shows "lined_up t"
proof (rule complete_rows [OF run ok])
  assume "t = s"
  with lined show ?thesis by simp
next
  fix d a
  assume d: "d \<in> set (deliveries s)" "d_state d = In_flight"
    and at: "attempts t = map (recorded c r) (attempts s)"
    and x: "\<And>x. x \<in> set (deliveries t) \<Longrightarrow> x = d \<or> d_id x \<noteq> d_id d \<and> x \<in> set (deliveries s) \<or>
         d_id x = d_id d \<and> d_attempt_count x = d_attempt_count d \<and> (d_state x = Succeeded \<longleftrightarrow> http_success r)"
  have wf: "wf_db s" using ok(1) by (simp add: db_ok_def)
  note kept = kept_complete [OF run wf ok(2)]
  have "fifo_ok t"
  proof (rule fifo_kept [OF kept])
    show "fifo_ok s" using lined by (simp add: lined_up_def)
    fix y0 y assume y: "y0 \<in> set (deliveries s)" "waiting s y0" "y \<in> set (deliveries t)" "same_row y0 y"
    have "y0 \<noteq> d" using y(2) d(2) by (auto simp: waiting_def)
    then have "d_id y \<noteq> d_id d" using d_id_eq [OF wf y(1) d(1)] y(4) by (auto simp: same_row_def)
    then have "y \<in> set (deliveries s)" using x [OF y(3)] by auto
    then have "y = y0" using d_id_eq [OF wf _ y(1)] y(4) by (simp add: same_row_def)
    with y(2) show "d_state y = Pending \<and> d_attempt_count y = 0" by (simp add: waiting_def)
  qed
  moreover have "sorted_wrt (in_queue_order t) (attempts t)"
    unfolding at by (rule ordered_map [OF kept]) (use lined in \<open>simp_all add: lined_up_def\<close>)
  ultimately show ?thesis by (simp add: lined_up_def)
qed

lemma lined_up_step:
  assumes step: "sys_step cfg u u'" and ok: "safe cfg u" and lined: "lined_up (s_db u)"
  shows "lined_up (s_db u')"
  using step
proof (cases rule: sys_step_kinds)
  case quiet
  show ?thesis by (rule quiet_lined_up [OF quiet(1) safe_parts(2) [OF ok] safe_parts(2) [OF safe_step [OF step ok]] lined])
next
  case (claim dec clk cand cutoff res)
  show ?thesis by (rule claim_lined_up [OF claim(1) safe_parts(1) [OF ok] claim(2) lined])
next
  case (complete c r now rnd res)
  show ?thesis by (rule complete_lined_up [OF complete(3) safe_parts(1) [OF ok] safe_parts(6) [OF ok complete(1)] lined])
next
  case (crash c)
  with lined show ?thesis by simp
qed

lemma lined_up_run: "sys_run cfg u v \<Longrightarrow> safe cfg u \<Longrightarrow> lined_up (s_db u) \<Longrightarrow> lined_up (s_db v)"
  by (drule run_induct [where P = "\<lambda>w. lined_up (s_db w)"]) (auto intro: lined_up_step)

lemma reachable_lined_up: "reachable cfg u \<Longrightarrow> lined_up (s_db u)"
proof (induction rule: reachable.induct)
  case (reach_start g)
  then show ?case by (simp add: lined_up_def fifo_ok_def sys_start_def empty_db_def)
next
  case (reach_step u u')
  then show ?case using lined_up_step reachable_safe by blast
qed

section \<open>In a safe state\<close>

lemma followers_untouched:
  assumes "safe cfg u" "lined_up (s_db u)" "d \<in> set (deliveries (s_db u))" "d' \<in> set (deliveries (s_db u))"
    "d_endpoint_id d' = d_endpoint_id d" "d_seq d < d_seq d'" "unresolved d"
  shows "d_state d' = Pending \<and> attempts_of (d_id d') (s_db u) = []"
proof -
  have "d_state d' = Pending" "d_attempt_count d' = 0" using assms(2-7) by (simp_all add: lined_up_def fifo_ok_def)
  then show ?thesis using attempts_of_count [OF safe_parts(4) [OF assms(1)] assms(4)] by simp
qed

text \<open>The first delivery of the demo queue succeeds in its second attempt, then the second one is claimed.\<close>

definition third_attempts :: "attempt list" where
  "third_attempts = [demo_attempt\<lparr>a_error_class := Some Worker_lease_expired\<rparr>,
      demo_attempt\<lparr>a_id := 9, a_attempt_number := 2, a_sent_at := Some 90000000, a_created_at := 90000000,
        a_response_status := Some 200, a_response_body_truncated := Some [], a_duration_ms := Some 5\<rparr>]"

definition third_ready :: db where
  "third_ready = demo_db [demo_tenant\<lparr>tn_last_served_at := Some 90000000\<rparr>] [demo_endpoint]
     [demo_event Expanded, demo_event2 Expanded] [demo_delivery Succeeded 2, demo_delivery2] third_attempts 3 3 10"

definition third_attempt :: attempt where
  "third_attempt = demo_attempt\<lparr>a_id := 11, a_delivery_id := 7, a_sent_at := Some 91000000, a_created_at := 91000000\<rparr>"

definition third_claimed :: db where
  "third_claimed = demo_db [demo_tenant\<lparr>tn_last_served_at := Some 91000000\<rparr>] [take_lease 91000000 10 demo_endpoint]
     [demo_event Expanded, demo_event2 Expanded]
     [demo_delivery Succeeded 2, demo_delivery2\<lparr>d_state := In_flight, d_attempt_count := 1\<rparr>] (third_attempts @ [third_attempt]) 3 3 12"

definition third_claim :: claimed_delivery where
  "third_claim = demo_claim\<lparr>c_leaseId := 10, c_deliveryId := 7, c_eventId := 6, c_attemptId := 11\<rparr>"

lemma hands_after_Some: "hands_after (Inr (Some c)) hs = c # hs"
  by (simp add: hands_after_def)

lemma third_complete: "completeDelivery now rnd demo_claim2 demo_answer cfg demo_reclaimed = (Inr Oc_succeeded, third_ready)"
  by (simp add: completeDelivery_def demo_reclaimed_def third_ready_def third_attempts_def demo_db_def demo_rows take_lease_def
      fence_def demo_claim2_def demo_claim_def demo_answer_def pg_text_ok_def stmt_record_outcome_def settle_delivery_def
      http_success_def stmt_resolve_def stmt_free_def free_lease_def demo_delivery2_def)

lemma third_try: "tryClaimEndpoint demo_dec (demo_clock 91000000) demo_cand 0 third_ready = (Inr (Some third_claim), third_claimed)"
proof -
  have secrets: "claim_secrets demo_dec n (take_lease 91000000 10 demo_endpoint) = Some (generateSecret demo_bytes ''whsec'', None)" for n
    using demo_decrypt by (simp add: claim_secrets_def hasActiveSecondary_def take_lease_def demo_endpoint_def)
  show ?thesis
    using secrets
    by (simp add: tryClaimEndpoint_def stmt_claim_def demo_clock_def demo_cand_def third_ready_def demo_db_def
        claimable_def lease_free_def gen_random_uuid_def Let_def stmt_serve_def reclaim_def claim_head_def
        select_head_def pending_of_def demo_delivery_def demo_delivery2_def demo_event_def demo_event2_def js_of_ts_def
        start_attempt_def stmt_insert_attempt_def stmt_in_flight_def demo_claim_def third_claim_def third_claimed_def
        third_attempts_def third_attempt_def demo_attempt_def demo_tenant_def demo_endpoint_def take_lease_def)
qed

lemma third_reachable: "reachable cfg \<lparr>s_db = third_claimed, s_hands = [third_claim, demo_claim]\<rparr>"
proof -
  have "sys_step cfg demo_rivals \<lparr>s_db = third_ready, s_hands = [demo_claim]\<rparr>"
    using step_complete [of demo_claim2 demo_rivals demo_answer 0 0 cfg]
    by (simp add: demo_rivals_def third_complete demo_answer_closed)
  moreover have "sys_step cfg \<lparr>s_db = third_ready, s_hands = [demo_claim]\<rparr>
      \<lparr>s_db = third_claimed, s_hands = hands_after (Inr (Some third_claim)) [demo_claim]\<rparr>"
    using step_claim [of demo_dec "demo_clock 91000000" demo_cand 0 "\<lparr>s_db = third_ready, s_hands = [demo_claim]\<rparr>"]
    by (simp add: third_try) (simp add: fresh_candidate_def third_ready_def demo_db_def demo_endpoint_def)
  ultimately show ?thesis using demo_rivals_reachable reach_step by (metis hands_after_Some)
qed

end
