(* ===== verification/Claim_Guarantees.thy ===== *)
theory Claim_Guarantees
  imports Interleaving_Facts Head_Of_Line "HOL-Library.Multiset"
begin

text \<open>
  What the queue, the attempts and the claims promise when claims are interleaved statement by statement, the
  proviso being that of \<open>Interleaving_Facts\<close>: no claim outlasts its lease.  A worker that has finished its claim may stall
  for as long as it likes before it writes back, and may die at any point.  \<open>lined\<close> is about the rows
  alone, \<open>hand_traced\<close> and \<open>stage_traced\<close> about the workers: a claim whose lease still stands has the newest attempt
  of its delivery in flight, and the attempt of any other was closed by a reclaim.  A statement of a claim
  and a write-back touch one delivery only, the first unresolved one of their endpoint (\<open>works_on\<close>).
\<close>

section \<open>The rows\<close>

definition waits :: "db \<Rightarrow> delivery \<Rightarrow> bool" where
  "waits s d \<longleftrightarrow> (\<exists>x\<in>set (deliveries s). d_endpoint_id x = d_endpoint_id d \<and> d_seq x < d_seq d \<and> unresolved x)"

definition line_ok :: "db \<Rightarrow> bool" where
  "line_ok s \<longleftrightarrow> (\<forall>d\<in>set (deliveries s). waits s d \<longrightarrow> d_state d = Pending \<and> attempts_of (d_id d) s = [])"

definition answers_of_row :: "db \<Rightarrow> delivery \<Rightarrow> bool" where
  "answers_of_row s d \<longleftrightarrow> filter answered_ok (attempts_of (d_id d) s) =
     (if d_state d = Succeeded then [last (attempts_of (d_id d) s)] else [])"

definition numbers_of :: "uuid \<Rightarrow> db \<Rightarrow> nat list" where
  "numbers_of i s = map a_attempt_number (attempts_of i s)"

text \<open>A crash between the two statements that record an attempt leaves the delivery one behind its attempts.\<close>

definition numbers_of_row :: "db \<Rightarrow> delivery \<Rightarrow> bool" where
  "numbers_of_row s d \<longleftrightarrow> sorted (numbers_of (d_id d) s) \<and> {1..d_attempt_count d} \<subseteq> set (numbers_of (d_id d) s) \<and>
     set (numbers_of (d_id d) s) \<subseteq> {1..Suc (d_attempt_count d)}"

definition row_ok :: "db \<Rightarrow> delivery \<Rightarrow> bool" where
  "row_ok s d \<longleftrightarrow> answers_of_row s d \<and> numbers_of_row s d \<and> (\<forall>a\<in>set (attempts_of (d_id d) s). a_sent_at a \<noteq> None)"

definition lined :: "db \<Rightarrow> bool" where
  "lined s \<longleftrightarrow> line_ok s \<and> sorted_wrt (in_queue_order s) (attempts s) \<and> (\<forall>d\<in>set (deliveries s). row_ok s d)"

lemma rows_cong:
  assumes "deliveries t = deliveries s" "attempts t = attempts s"
  shows "lined t \<longleftrightarrow> lined s" "attempts_of i t = attempts_of i s" "waits t d \<longleftrightarrow> waits s d"
proof -
  show "lined t \<longleftrightarrow> lined s"
    using assms by (simp add: lined_def line_ok_def waits_def attempts_of_def in_queue_order_def [abs_def] row_ok_def
        answers_of_row_def numbers_of_row_def numbers_of_def)
qed (use assms in \<open>simp_all add: attempts_of_def waits_def\<close>)

lemma waits_back:
  assumes "kept s t" "d0 \<in> set (deliveries s)" "same_row d0 d" "waits t d"
  shows "waits s d0"
proof -
  obtain x where x: "x \<in> set (deliveries t)" "d_endpoint_id x = d_endpoint_id d" "d_seq x < d_seq d" "unresolved x"
    using assms(4) by (auto simp: waits_def)
  obtain x0 where "x0 \<in> set (deliveries s)" "same_row x0 x" by (rule kept_back [OF assms(1) x(1)])
  with x assms(3) same_row_unresolved [of x0 x] show ?thesis by (auto simp: waits_def same_row_def)
qed

subsection \<open>Steps that touch one delivery\<close>

definition works_on :: "uuid \<Rightarrow> db \<Rightarrow> db \<Rightarrow> bool" where
  "works_on i s t \<longleftrightarrow> kept s t \<and> (\<forall>d\<in>set (deliveries t). d_id d \<noteq> i \<longrightarrow> d \<in> set (deliveries s)) \<and>
     (\<exists>f ns. attempts t = map f (attempts s) @ ns \<and> (\<forall>a. a_delivery_id (f a) = a_delivery_id a) \<and>
        (\<forall>a\<in>set (attempts s). a_delivery_id a \<noteq> i \<longrightarrow> f a = a) \<and> (\<forall>a\<in>set ns. a_delivery_id a = i))"

definition head_row :: "uuid \<Rightarrow> db \<Rightarrow> bool" where
  "head_row i s \<longleftrightarrow> (\<exists>d\<in>set (deliveries s). d_id d = i \<and> unresolved d \<and> \<not> waits s d)"

lemma works_onE:
  assumes "works_on i s t"
  obtains f ns where "attempts t = map f (attempts s) @ ns" "\<And>a. a_delivery_id (f a) = a_delivery_id a"
    "\<And>a. a \<in> set (attempts s) \<Longrightarrow> a_delivery_id a \<noteq> i \<Longrightarrow> f a = a" "\<And>a. a \<in> set ns \<Longrightarrow> a_delivery_id a = i"
  using assms unfolding works_on_def by blast

lemma works_attempts:
  assumes "works_on i s t" "j \<noteq> i"
  shows "attempts_of j t = attempts_of j s"
proof -
  obtain f ns where f: "attempts t = map f (attempts s) @ ns" "\<And>a. a_delivery_id (f a) = a_delivery_id a"
    "\<And>a. a \<in> set (attempts s) \<Longrightarrow> a_delivery_id a \<noteq> i \<Longrightarrow> f a = a" "\<And>a. a \<in> set ns \<Longrightarrow> a_delivery_id a = i"
    by (rule works_onE [OF assms(1)]) blast
  have "filter (\<lambda>a. a_delivery_id a = j) ns = []" using f(4) assms(2) by (auto simp: filter_empty_conv)
  moreover have "map f (filter (\<lambda>a. a_delivery_id a = j) (attempts s)) = filter (\<lambda>a. a_delivery_id a = j) (attempts s)"
    by (rule map_idI) (use f(3) assms(2) in auto)
  ultimately show ?thesis by (simp add: attempts_of_def f(1) filter_map comp_def f(2))
qed

lemma works_row:
  assumes "works_on i s t" "wf_db s" "d \<in> set (deliveries s)" "d_id d \<noteq> i"
  shows "d \<in> set (deliveries t)"
proof -
  obtain d' where d': "d' \<in> set (deliveries t)" "same_row d d'"
    using evolves_row [OF kept_evolves assms(3)] assms(1) by (auto simp: works_on_def)
  have id: "d_id d' = d_id d" using d'(2) by (simp add: same_row_def)
  then have "d' \<in> set (deliveries s)" using assms(1,4) d'(1) by (simp add: works_on_def)
  then have "d' = d" using id by (rule d_id_eq [OF assms(2) _ assms(3)])
  with d'(1) show ?thesis by simp
qed

lemma head_first:
  assumes "wf_db s" "head_row i s" "d \<in> set (deliveries s)" "d_id d = i"
  shows "unresolved d" "\<not> waits s d"
proof -
  obtain h where h: "h \<in> set (deliveries s)" "d_id h = i" "unresolved h" "\<not> waits s h"
    using assms(2) by (auto simp: head_row_def)
  have "d = h" by (rule d_id_eq [OF assms(1,3) h(1)]) (simp add: assms(4) h(2))
  with h(3,4) show "unresolved d" "\<not> waits s d" by simp_all
qed

lemma works_line:
  assumes w: "works_on i s t" "wf_db s" "head_row i s" and l: "line_ok s"
  shows "line_ok t"
  unfolding line_ok_def
proof (intro ballI impI)
  fix d assume d: "d \<in> set (deliveries t)" "waits t d"
  have kept: "kept s t" using w(1) by (simp add: works_on_def)
  obtain d0 where d0: "d0 \<in> set (deliveries s)" "same_row d0 d" by (rule kept_back [OF kept d(1)])
  have wait: "waits s d0" by (rule waits_back [OF kept d0 d(2)])
  then have "d_id d \<noteq> i" using head_first(2) [OF w(2,3) d0(1)] d0(2) by (auto simp: same_row_def)
  moreover from this have "d = d0" using w(1) d(1) d_id_eq [OF w(2) _ d0(1), of d] d0(2) by (auto simp: works_on_def same_row_def)
  ultimately show "d_state d = Pending \<and> attempts_of (d_id d) t = []"
    using l d0(1) wait works_attempts [OF w(1)] by (simp add: line_ok_def)
qed

lemma works_order:
  assumes w: "works_on i s t" "wf_db s" "head_row i s" and l: "line_ok s" "sorted_wrt (in_queue_order s) (attempts s)"
  shows "sorted_wrt (in_queue_order t) (attempts t)"
proof -
  obtain f ns where f: "attempts t = map f (attempts s) @ ns" "\<And>a. a_delivery_id (f a) = a_delivery_id a"
    "\<And>a. a \<in> set ns \<Longrightarrow> a_delivery_id a = i" by (rule works_onE [OF w(1)]) blast
  have kept: "kept s t" using w(1) by (simp add: works_on_def)
  obtain h where h: "h \<in> set (deliveries s)" "d_id h = i" "unresolved h" using w(3) by (auto simp: head_row_def)
  have late: "in_queue_order s a b" if a: "a \<in> set (attempts s) \<or> a_delivery_id a = i" and b: "a_delivery_id b = i" for a b
    unfolding in_queue_order_def
  proof (intro ballI impI)
    fix y y' assume y: "y \<in> set (deliveries s)" "y' \<in> set (deliveries s)" "d_id y = a_delivery_id a" "d_id y' = a_delivery_id b"
      "d_endpoint_id y' = d_endpoint_id y"
    have y': "y' = h" using d_id_eq [OF w(2) y(2) h(1)] y(4) b h(2) by simp
    show "d_seq y \<le> d_seq y'"
    proof (rule ccontr)
      assume "\<not> d_seq y \<le> d_seq y'"
      with y y' h have "waits s y" by (auto simp: waits_def)
      then have none: "attempts_of (d_id y) s = []" using l(1) y(1) by (simp add: line_ok_def)
      have "y \<noteq> h" using \<open>\<not> d_seq y \<le> d_seq y'\<close> y' by auto
      then have "a_delivery_id a \<noteq> i" using d_id_eq [OF w(2) y(1) h(1)] y(3) h(2) by auto
      with a y(3) none show False by (auto simp: attempts_of_def filter_empty_conv)
    qed
  qed
  have "sorted_wrt (in_queue_order t) (map f (attempts s))" by (rule ordered_map [OF kept l(2) f(2)])
  moreover have "in_queue_order t a b" if ab: "a \<in> set (map f (attempts s))" "b \<in> set ns" for a b
  proof -
    obtain a0 where "a0 \<in> set (attempts s)" "a = f a0" using ab(1) by auto
    then show ?thesis using in_queue_order_kept [OF kept late, of a0 b] f(2,3) ab(2) by simp
  qed
  moreover have "sorted_wrt (in_queue_order t) ns"
  proof (rule sorted_wrt_mono_rel [of _ "\<lambda>_ _. True"])
    show "in_queue_order t a b" if "a \<in> set ns" "b \<in> set ns" for a b
      using in_queue_order_kept [OF kept late, of a b] f(3) that by simp
  qed (simp add: sorted_wrt_iff_nth_less)
  ultimately show ?thesis by (simp add: f(1) sorted_wrt_append)
qed

lemma works_lined:
  assumes "works_on i s t" "wf_db s" "head_row i s" "lined s"
    and "\<And>d. d \<in> set (deliveries t) \<Longrightarrow> d_id d = i \<Longrightarrow> row_ok t d"
  shows "lined t"
proof -
  have "row_ok t d" if d: "d \<in> set (deliveries t)" for d
  proof (cases "d_id d = i")
    case False
    then have "d \<in> set (deliveries s)" using assms(1) d by (simp add: works_on_def)
    with assms(4) False works_attempts [OF assms(1) False] show ?thesis
      by (simp add: lined_def row_ok_def answers_of_row_def numbers_of_row_def numbers_of_def)
  qed (use assms(5) d in blast)
  with assms works_line works_order show ?thesis by (simp add: lined_def)
qed

lemma flight_head:
  assumes "line_ok s" "d \<in> set (deliveries s)" "d_state d = In_flight"
  shows "head_row (d_id d) s"
  using assms by (auto simp: head_row_def line_ok_def unresolved_def)

section \<open>The workers\<close>

definition newest :: "db \<Rightarrow> uuid \<Rightarrow> nat \<Rightarrow> uuid \<Rightarrow> bool" where
  "newest s did n aid \<longleftrightarrow> (\<exists>as a. attempts_of did s = as @ [a] \<and> a_id a = aid \<and> a_attempt_number a = n \<and>
     attempt_open a)"

definition in_hand :: "db \<Rightarrow> claimed_delivery \<Rightarrow> bool" where
  "in_hand s c \<longleftrightarrow> newest s (c_deliveryId c) (c_attemptNumber c) (c_attemptId c) \<and>
     (\<exists>d\<in>set (deliveries s). d_id d = c_deliveryId c \<and> d_state d = In_flight \<and> d_attempt_count d = c_attemptNumber c)"

definition given_up :: "db \<Rightarrow> claimed_delivery \<Rightarrow> bool" where
  "given_up s c \<longleftrightarrow> (\<exists>a\<in>set (attempts_of (c_deliveryId c) s). a_id a = c_attemptId c \<and>
     a_attempt_number a = c_attemptNumber c \<and> a_response_status a = None \<and> a_error_class a = Some Worker_lease_expired)"

definition traced :: "db \<Rightarrow> claimed_delivery \<Rightarrow> bool" where
  "traced s c \<longleftrightarrow> given_up s c \<or> in_hand s c"

definition hand_traced :: "db \<Rightarrow> claimed_delivery \<Rightarrow> bool" where
  "hand_traced s c \<longleftrightarrow> traced s c \<and> (holds c s \<longrightarrow> in_hand s c)"

definition first_in_line :: "uuid \<Rightarrow> db \<Rightarrow> bool" where
  "first_in_line i s \<longleftrightarrow> (\<forall>d\<in>set (deliveries s). d_id d = i \<longrightarrow> \<not> waits s d)"

definition stage_traced :: "db \<Rightarrow> claiming \<Rightarrow> bool" where
  "stage_traced s cm \<longleftrightarrow>
     (case cm_stage cm of
        To_requeue \<Rightarrow> \<forall>d\<in>set (in_flight_of (cm_endpoint cm) s). \<forall>a\<in>set (attempts_of (d_id d) s). \<not> attempt_open a
      | To_insert (d, v, e) \<Rightarrow> first_in_line (d_id d) s
      | To_mark (d, v, e) aid \<Rightarrow> first_in_line (d_id d) s \<and> newest s (d_id d) (Suc (d_attempt_count d)) aid
      | _ \<Rightarrow> True)"

definition marked_ids :: "claiming \<Rightarrow> uuid list" where
  "marked_ids cm = (case cm_stage cm of To_mark row aid \<Rightarrow> [aid] | _ \<Rightarrow> [])"

definition attempt_ids :: "claimed_delivery list \<Rightarrow> claiming list \<Rightarrow> uuid list" where
  "attempt_ids hs cms = map c_attemptId hs @ concat (map marked_ids cms)"

definition workers_ok :: "db \<Rightarrow> claimed_delivery list \<Rightarrow> claiming list \<Rightarrow> bool" where
  "workers_ok s hs cms \<longleftrightarrow> (\<forall>c\<in>set hs. hand_traced s c) \<and> (\<forall>cm\<in>set cms. stage_traced s cm) \<and>
     distinct (attempt_ids hs cms)"

text \<open>A step loses track of no claim but that of the worker who makes it.\<close>

definition carries :: "uuid set \<Rightarrow> db \<Rightarrow> db \<Rightarrow> bool" where
  "carries A s t \<longleftrightarrow> (\<forall>c. traced s c \<longrightarrow> c_attemptId c \<notin> A \<longrightarrow> traced t c)"

lemma in_attempts_of: "a \<in> set (attempts_of i s) \<longleftrightarrow> a \<in> set (attempts s) \<and> a_delivery_id a = i"
  by (auto simp: attempts_of_def)

lemma newest_attempt:
  assumes "newest s i n aid"
  obtains a where "a \<in> set (attempts s)" "a_delivery_id a = i" "a_id a = aid" "attempt_open a"
proof -
  obtain as a where a: "attempts_of i s = as @ [a]" "a_id a = aid" "attempt_open a" using assms by (auto simp: newest_def)
  then have "a \<in> set (attempts_of i s)" by simp
  with a(2,3) show thesis by (intro that [of a]) (simp_all add: in_attempts_of)
qed

lemma traced_attempt:
  assumes "traced s c"
  obtains a where "a \<in> set (attempts s)" "a_id a = c_attemptId c" "a_delivery_id a = c_deliveryId c"
  using assms unfolding traced_def
proof
  assume "in_hand s c"
  then have "newest s (c_deliveryId c) (c_attemptNumber c) (c_attemptId c)" by (simp add: in_hand_def)
  then show thesis by (rule newest_attempt) (rule that)
qed (auto simp: given_up_def in_attempts_of intro: that)

subsection \<open>Steps that leave the rows alone\<close>

lemma still_traced:
  assumes "deliveries t = deliveries s" "attempts t = attempts s"
  shows "traced t c \<longleftrightarrow> traced s c" "in_hand t c \<longleftrightarrow> in_hand s c" "stage_traced t cm \<longleftrightarrow> stage_traced s cm"
    "carries {} s t"
proof -
  note at = rows_cong(2) [OF assms] and wt = rows_cong(3) [OF assms]
  show in_hand: "in_hand t c \<longleftrightarrow> in_hand s c" for c by (simp add: in_hand_def newest_def at assms(1))
  show tr: "traced t c \<longleftrightarrow> traced s c" for c by (simp add: traced_def given_up_def at in_hand)
  show "stage_traced t cm \<longleftrightarrow> stage_traced s cm"
    by (simp add: stage_traced_def first_in_line_def newest_def at wt assms(1) in_flight_of_def split: claim_stage.split)
  show "carries {} s t" by (simp add: carries_def tr)
qed

lemma still_workers:
  assumes "workers_ok s hs cms" "deliveries t = deliveries s" "attempts t = attempts s"
    and "\<And>c. c \<in> set hs \<Longrightarrow> holds c t \<Longrightarrow> holds c s"
  shows "workers_ok t hs cms"
  using assms(1,4) by (simp add: workers_ok_def hand_traced_def still_traced [OF assms(2,3)])

subsection \<open>Steps that touch one delivery\<close>

lemma works_traced:
  assumes "works_on i s t" "wf_db s" "c_deliveryId c \<noteq> i"
  shows "traced s c \<Longrightarrow> traced t c" "in_hand s c \<Longrightarrow> in_hand t c"
proof -
  note at = works_attempts [OF assms(1,3)]
  show in_hand: "in_hand s c \<Longrightarrow> in_hand t c"
    using works_row [OF assms(1,2)] assms(3) by (auto simp: in_hand_def newest_def at)
  then show "traced s c \<Longrightarrow> traced t c" by (auto simp: traced_def given_up_def at)
qed

lemma kept_first: "kept s t \<Longrightarrow> first_in_line i s \<Longrightarrow> first_in_line i t"
  unfolding first_in_line_def
proof (intro ballI impI notI)
  assume kept: "kept s t" and first: "\<forall>d\<in>set (deliveries s). d_id d = i \<longrightarrow> \<not> waits s d"
  fix d assume d: "d \<in> set (deliveries t)" "d_id d = i" "waits t d"
  obtain d0 where d0: "d0 \<in> set (deliveries s)" "same_row d0 d" by (rule kept_back [OF kept d(1)])
  have "waits s d0" by (rule waits_back [OF kept d0 d(3)])
  with first d0 d(2) show False by (simp add: same_row_def)
qed

lemma works_workers:
  assumes ok: "fine_ok s hs cms" "workers_ok s hs cms"
    and w: "works_on i s t" "h \<in> set (deliveries s)" "d_id h = i" "d_endpoint_id h = eid"
    and l: "l \<notin> set (leases_of hs cms)" "fence eid s = Some l" "fence eid t = Some l \<or> fence eid t = None"
    and far: "\<And>x. x \<noteq> eid \<Longrightarrow> undisturbed x s t"
    and carry: "carries A s t" "A \<inter> c_attemptId ` set hs = {}"
  shows "workers_ok t hs cms"
proof -
  have wf: "wf_db s" using ok(1) by (simp add: fine_ok_def)
  have other: "d_id d \<noteq> i" if "d \<in> set (deliveries s)" "d_endpoint_id d \<noteq> eid" for d
    using d_id_eq [OF wf that(1) w(2)] w(3,4) that(2) by metis
  have kept: "kept s t" using w(1) by (simp add: works_on_def)
  have "hand_traced t c" if c: "c \<in> set hs" for c
  proof -
    have tr: "hand_traced s c" "hand_ok s c" using ok c by (simp_all add: workers_ok_def fine_ok_def)
    have "traced t c" using tr(1) carry c by (auto simp: hand_traced_def carries_def)
    moreover have "in_hand t c" if "holds c t"
    proof -
      have "c_leaseId c \<noteq> l" using l(1) c by (auto simp: leases_of_def)
      with that l(3) have ne: "c_endpointId c \<noteq> eid" by (auto simp: holds_def)
      then have "holds c s" using far that by (simp add: undisturbed_def holds_def)
      with tr have "in_hand s c" "claim_row s c" by (simp_all add: hand_traced_def hand_ok_def)
      then show ?thesis using works_traced(2) [OF w(1) wf] other ne unfolding claim_row_def by metis
    qed
    ultimately show ?thesis by (simp add: hand_traced_def)
  qed
  moreover have "stage_traced t cm" if cm: "cm \<in> set cms" for cm
  proof -
    have st: "stage_traced s cm" "claiming_ok s cm" using ok cm by (simp_all add: workers_ok_def fine_ok_def)
    have "cm_lease cm \<noteq> l" using l(1) cm by (auto simp: leases_of_def)
    with st(2) l(2) have ne: "cm_endpoint cm \<noteq> eid" by (auto simp: claiming_ok_def)
    note un = far [OF ne]
    show ?thesis
    proof (cases "cm_stage cm")
      case To_requeue
      have "attempts_of (d_id d) t = attempts_of (d_id d) s" if "d \<in> set (in_flight_of (cm_endpoint cm) s)" for d
        using that ne by (intro works_attempts [OF w(1)] other) (auto simp: in_flight_of_def)
      with st(1) un To_requeue show ?thesis by (simp add: stage_traced_def undisturbed_def)
    next
      case (To_insert row)
      then show ?thesis using st(1) kept_first [OF kept] by (simp add: stage_traced_def split: prod.splits)
    next
      case (To_mark row aid)
      obtain d v e where row: "row = (d, v, e)" by (cases row)
      have "d_id d \<noteq> i" using st(2) To_mark row other ne by (auto simp: claiming_ok_def stage_ok_def head_waits_def)
      then show ?thesis
        using st(1) To_mark row kept_first [OF kept] works_attempts [OF w(1)] by (simp add: stage_traced_def newest_def)
    qed (simp_all add: stage_traced_def)
  qed
  ultimately show ?thesis using ok(2) by (simp add: workers_ok_def)
qed

section \<open>The steps between claims\<close>

lemma quiet_lined:
  assumes q: "quiet s t" and wf: "wf_db s" "wf_db t" and l: "lined s"
  shows "lined t" "\<And>d. d \<in> set (deliveries s) \<Longrightarrow> waits t d \<Longrightarrow> waits s d"
proof -
  obtain ns now where t: "deliveries t = deliveries s @ ns" "\<forall>d\<in>set ns. new_row now d" "attempts t = attempts s"
    using q by (auto simp: quiet_def)
  have seq: "\<forall>d\<in>set (deliveries s). \<forall>d'\<in>set ns. d_seq d < d_seq d'"
    using wf(2) t(1) by (auto simp: wf_db_def seqs_ok_def sorted_wrt_append sorted_wrt_map)
  have at: "attempts_of i t = attempts_of i s" for i by (simp add: attempts_of_def t(3))
  have new: "d_state d = Pending \<and> d_attempt_count d = 0 \<and> attempts_of (d_id d) s = []" if "d \<in> set ns" for d
  proof -
    have "d_id d \<notin> d_id ` set (deliveries s)" using that wf(2) t(1) by (auto simp: wf_db_def keys_ok_def)
    with that t(2) attempts_of_Nil [OF wf(1)] show ?thesis by (simp add: new_row_def)
  qed
  show older: "\<And>d. d \<in> set (deliveries s) \<Longrightarrow> waits t d \<Longrightarrow> waits s d"
    using seq unfolding waits_def t(1) by (auto dest: less_asym)
  have "line_ok t"
    unfolding line_ok_def at t(1) using l new older by (auto simp: lined_def line_ok_def)
  moreover have "row_ok t d" if "d \<in> set (deliveries t)" for d
  proof (cases "d \<in> set ns")
    case True
    with new [OF True] show ?thesis by (simp add: row_ok_def answers_of_row_def numbers_of_row_def numbers_of_def at)
  next
    case False
    with that t(1) l show ?thesis
      by (simp add: lined_def row_ok_def answers_of_row_def numbers_of_row_def numbers_of_def at)
  qed
  moreover have "sorted_wrt (in_queue_order t) (attempts t)" by (rule quiet_ordered [OF q wf]) (use l in \<open>simp add: lined_def\<close>)
  ultimately show "lined t" by (simp add: lined_def)
qed

lemma quiet_workers:
  assumes q: "quiet s t" and ok: "fine_ok s hs cms" "wf_db t" "lined s" "workers_ok s hs cms"
  shows "workers_ok t hs cms" "carries {} s t"
proof -
  have wf: "wf_db s" using ok(1) by (simp add: fine_ok_def)
  obtain ns now where t: "deliveries t = deliveries s @ ns" "\<forall>d\<in>set ns. new_row now d" "attempts t = attempts s"
    using q by (auto simp: quiet_def)
  have at: "attempts_of i t = attempts_of i s" for i by (simp add: attempts_of_def t(3))
  have in_hand: "in_hand s c \<Longrightarrow> in_hand t c" for c by (auto simp: in_hand_def newest_def at t(1))
  have tr: "traced s c \<Longrightarrow> traced t c" for c using in_hand by (auto simp: traced_def given_up_def at)
  then show "carries {} s t" by (simp add: carries_def)
  have first: "first_in_line i t" if i: "first_in_line i s" "d0 \<in> set (deliveries s)" "d_id d0 = i" for i d0
    unfolding first_in_line_def
  proof (intro ballI impI notI)
    fix d assume d: "d \<in> set (deliveries t)" "d_id d = i" "waits t d"
    have "d = d0" using d_id_eq [OF ok(2) d(1), of d0] d(2) i(2,3) by (simp add: t(1))
    with d(3) i(2,3) quiet_lined(2) [OF q wf ok(2,3)] i(1) show False by (auto simp: first_in_line_def)
  qed
  have "stage_traced t cm" if cm: "cm \<in> set cms" for cm
  proof -
    have st: "stage_traced s cm" "claiming_ok s cm" using ok(1,4) cm by (simp_all add: workers_ok_def fine_ok_def)
    then show ?thesis
      using first in_flight_append [OF t(1,2)]
      by (cases "cm_stage cm") (auto simp: stage_traced_def newest_def at claiming_ok_def stage_ok_def head_waits_def)
  qed
  then show "workers_ok t hs cms"
    using ok(4) tr in_hand quiet_fence [OF q] by (auto simp: workers_ok_def hand_traced_def holds_def)
qed

lemma take_workers:
  assumes cl: "stmt_claim now cutoff (cand_id cand) s = (Some l, t)" and ok: "fine_ok s hs cms" "workers_ok s hs cms" "lined s"
  shows "lined t" "workers_ok t hs (\<lparr>cm_cand = cand, cm_lease = l, cm_stage = To_serve\<rparr> # cms)" "carries {} s t"
proof -
  have wf: "wf_db s" and sf: "single_flight s" using ok(1) by (simp_all add: fine_ok_def)
  have same: "deliveries t = deliveries s" "attempts t = attempts s" by (simp_all add: stmt_claim_SomeD(2) [OF cl])
  show "lined t" "carries {} s t" using ok(3) rows_cong(1) [OF same] still_traced(4) [OF same] by simp_all
  have "claimed_state (cand_id cand) l s t" by (rule claimed_state_cong [OF stmt_claim_state(1) [OF cl wf sf]]) simp_all
  then have lease: "l \<notin> drawn_ids s" "fence (cand_id cand) t = Some l" "\<And>x. x \<noteq> cand_id cand \<Longrightarrow> fence x t = fence x s"
    by (auto simp: claimed_state_def)
  have "holds c s" if c: "c \<in> set hs" "holds c t" for c
  proof (cases "c_endpointId c = cand_id cand")
    case True
    with c ok(1) lease show ?thesis by (auto simp: fine_ok_def hand_ok_def holds_def)
  next
    case False
    with c(2) lease(3) show ?thesis by (simp add: holds_def)
  qed
  then have "workers_ok t hs cms" by (rule still_workers [OF ok(2) same])
  then show "workers_ok t hs (\<lparr>cm_cand = cand, cm_lease = l, cm_stage = To_serve\<rparr> # cms)"
    by (simp add: workers_ok_def stage_traced_def attempt_ids_def marked_ids_def)
qed

section \<open>The statements of a claim\<close>

lemma statement_still:
  assumes ok: "lined s" "workers_ok s hs cms" and loc: "local_step eid l s t" "l \<notin> set (leases_of hs cms)"
    and same: "deliveries t = deliveries s" "attempts t = attempts s"
  shows "lined t" "workers_ok t hs cms" "carries {} s t"
proof -
  show "lined t" "carries {} s t" using ok(1) rows_cong(1) [OF same] still_traced(4) [OF same] by simp_all
  have "holds c s" if c: "c \<in> set hs" "holds c t" for c
  proof -
    have "c_leaseId c \<noteq> l" using loc(2) c(1) by (auto simp: leases_of_def)
    with c(2) loc(1) have "c_endpointId c \<noteq> eid" by (auto simp: holds_def local_step_def)
    with c(2) loc(1) show ?thesis by (auto simp: holds_def local_step_def undisturbed_def)
  qed
  then show "workers_ok t hs cms" by (rule still_workers [OF ok(2) same])
qed

lemma statement_works:
  assumes ok: "fine_ok s hs cms" "lined s" "workers_ok s hs cms"
    and loc: "local_step eid l s t" "l \<notin> set (leases_of hs cms)" "fence eid s = Some l"
    and w: "works_on (d_id h) s t" "h \<in> set (deliveries s)" "d_endpoint_id h = eid" "head_row (d_id h) s"
    and row: "\<And>d. d \<in> set (deliveries t) \<Longrightarrow> d_id d = d_id h \<Longrightarrow> row_ok t d"
    and carry: "\<And>c. c_deliveryId c = d_id h \<Longrightarrow> traced s c \<Longrightarrow> traced t c"
  shows "lined t" "workers_ok t hs cms" "carries {} s t"
proof -
  have wf: "wf_db s" using ok(1) by (simp add: fine_ok_def)
  show "lined t" by (rule works_lined [OF w(1) wf w(4) ok(2) row])
  show c: "carries {} s t" using carry works_traced(1) [OF w(1) wf] by (auto simp: carries_def)
  show "workers_ok t hs cms"
    by (rule works_workers [OF ok(1,3) w(1,2) refl w(3) loc(2,3) _ _ c]) (use loc(1) in \<open>simp_all add: local_step_def\<close>)
qed

lemma expired_answer [simp]: "a_response_status (expired i a) = a_response_status a" "answered_ok (expired i a) = answered_ok a"
  by (simp_all add: expired_def answered_ok_def)

lemma expire_traced:
  assumes ok: "fine_ok s hs cms" "lined s" "workers_ok s hs cms"
    and loc: "local_step eid l s t" "l \<notin> set (leases_of hs cms)" "fence eid s = Some l"
    and run: "stmt_expire_orphans eid s = Some t"
  shows "lined t" "workers_ok t hs cms" "carries {} s t"
    "\<forall>d\<in>set (in_flight_of eid t). \<forall>a\<in>set (attempts_of (d_id d) t). \<not> attempt_open a"
proof -
  have "lined t \<and> workers_ok t hs cms \<and> carries {} s t \<and>
    (\<forall>d\<in>set (in_flight_of eid t). \<forall>a\<in>set (attempts_of (d_id d) t). \<not> attempt_open a)"
  proof (cases "in_flight_of eid s")
    case Nil
    with run have "t = s" by (simp add: stmt_expire_orphans_def)
    with ok Nil show ?thesis by (simp add: carries_def)
  next
    case (Cons h hs')
    have "length (in_flight_of eid s) \<le> 1" using ok(1) at_most_one by (simp add: fine_ok_def)
    with Cons have one: "in_flight_of eid s = [h]" by simp
    then have "h \<in> set (in_flight_of eid s)" by simp
    then have h: "h \<in> set (deliveries s)" "d_endpoint_id h = eid" "d_state h = In_flight" by (simp_all add: in_flight_of_def)
    have t: "deliveries t = deliveries s" "attempts t = map (expired (d_id h)) (attempts s)"
      using run one by (auto simp: stmt_expire_orphans_def update_where_def expired_def)
    have at: "attempts_of i t = map (expired (d_id h)) (attempts_of i s)" for i
      by (simp add: attempts_of_def t(2) filter_map comp_def)
    have row: "row_ok s h" using ok(2) h(1) by (simp add: lined_def)
    have closed: "expired (d_id h) a = a\<lparr>a_error_class := Some Worker_lease_expired\<rparr>"
      if "a \<in> set (attempts_of (d_id h) s)" "attempt_open a" for a
      using that row by (auto simp: expired_def orphan_def attempt_open_def row_ok_def in_attempts_of)
    have w: "works_on (d_id h) s t"
      unfolding works_on_def
      by (intro conjI kept_cong exI [of _ "expired (d_id h)"] exI [of _ "[]"]) (simp_all add: t expired_def orphan_def)
    have hd: "head_row (d_id h) s" by (rule flight_head) (use ok(2) h in \<open>simp_all add: lined_def\<close>)
    have rows: "row_ok t d" if "d \<in> set (deliveries t)" "d_id d = d_id h" for d
    proof -
      have "d = h" using d_id_eq [of s d h] that h(1) ok(1) t(1) by (simp add: fine_ok_def)
      moreover have "filter answered_ok (attempts_of (d_id h) t) = []"
        using row h(3) by (simp add: row_ok_def answers_of_row_def at filter_map comp_def)
      moreover have "numbers_of (d_id h) t = numbers_of (d_id h) s" by (simp add: numbers_of_def at comp_def)
      ultimately show ?thesis using row h(3) by (auto simp: row_ok_def answers_of_row_def numbers_of_row_def at)
    qed
    have carry: "traced t c" if c: "c_deliveryId c = d_id h" "traced s c" for c
      using c(2) unfolding traced_def
    proof
      assume "given_up s c"
      then obtain a where a: "a \<in> set (attempts_of (c_deliveryId c) s)" "a_id a = c_attemptId c"
        "a_attempt_number a = c_attemptNumber c" "a_response_status a = None" "a_error_class a = Some Worker_lease_expired"
        by (auto simp: given_up_def)
      then have "expired (d_id h) a = a" by (simp add: expired_def orphan_def)
      with a show "given_up t c \<or> in_hand t c" by (force simp: given_up_def at)
    next
      assume "in_hand s c"
      then obtain as a where a: "attempts_of (c_deliveryId c) s = as @ [a]" "a_id a = c_attemptId c"
        "a_attempt_number a = c_attemptNumber c" "attempt_open a" by (auto simp: in_hand_def newest_def)
      then have "expired (d_id h) a = a\<lparr>a_error_class := Some Worker_lease_expired\<rparr>"
        using closed [of a] c(1) by (metis in_set_conv_decomp)
      with a show "given_up t c \<or> in_hand t c" by (simp add: given_up_def at attempt_open_def)
    qed
    note statement_works [OF ok loc w h(1,2) hd rows carry]
    moreover have "\<not> attempt_open a" if da: "d \<in> set (in_flight_of eid t)" "a \<in> set (attempts_of (d_id d) t)" for d a
    proof -
      have "in_flight_of eid t = [h]" using one by (simp add: in_flight_of_def t(1))
      with da(1) have "d = h" by simp
      then obtain b where b: "b \<in> set (attempts_of (d_id h) s)" "a = expired (d_id h) b" using da(2) by (auto simp: at)
      show ?thesis
      proof (cases "attempt_open b")
        case True
        with closed [OF b(1)] b(2) show ?thesis by (simp add: attempt_open_def)
      next
        case False
        with b(2) show ?thesis by (auto simp: expired_def attempt_open_def)
      qed
    qed
    ultimately show ?thesis by blast
  qed
  then show "lined t" "workers_ok t hs cms" "carries {} s t"
    "\<forall>d\<in>set (in_flight_of eid t). \<forall>a\<in>set (attempts_of (d_id d) t). \<not> attempt_open a" by blast+
qed

lemma requeue_traced:
  assumes ok: "fine_ok s hs cms" "lined s" "workers_ok s hs cms"
    and loc: "local_step eid l s (stmt_requeue eid s)" "l \<notin> set (leases_of hs cms)" "fence eid s = Some l"
    and closed: "\<forall>d\<in>set (in_flight_of eid s). \<forall>a\<in>set (attempts_of (d_id d) s). \<not> attempt_open a"
  shows "lined (stmt_requeue eid s) \<and> workers_ok (stmt_requeue eid s) hs cms \<and> carries {} s (stmt_requeue eid s)"
proof (cases "in_flight_of eid s")
  case Nil
  then have "\<forall>d\<in>set (deliveries s). \<not> (d_endpoint_id d = eid \<and> d_state d = In_flight)"
    by (simp add: in_flight_of_def filter_empty_conv)
  then have same: "deliveries (stmt_requeue eid s) = deliveries s" by (simp add: stmt_requeue_def update_where_def map_idI)
  have "attempts (stmt_requeue eid s) = attempts s" by simp
  from statement_still [OF ok(2,3) loc(1,2) same this] show ?thesis by blast
next
  case (Cons h hs')
  let ?t = "stmt_requeue eid s"
  have wf: "wf_db s" using ok(1) by (simp add: fine_ok_def)
  have "length (in_flight_of eid s) \<le> 1" using ok(1) at_most_one by (simp add: fine_ok_def)
  with Cons have one: "in_flight_of eid s = [h]" by simp
  then have "h \<in> set (in_flight_of eid s)" by simp
  then have h: "h \<in> set (deliveries s)" "d_endpoint_id h = eid" "d_state h = In_flight" by (simp_all add: in_flight_of_def)
  have at: "attempts_of i ?t = attempts_of i s" for i by (simp add: attempts_of_def)
  have rows: "d \<in> set (deliveries s) \<and> d_id d \<noteq> d_id h \<or> d = h\<lparr>d_state := Pending\<rparr>" if "d \<in> set (deliveries ?t)" for d
  proof -
    have "d \<in> set (update_where (\<lambda>d. d_endpoint_id d = eid \<and> d_state d = In_flight) (\<lambda>d. d\<lparr>d_state := Pending\<rparr>) (deliveries s))"
      using that by (simp add: stmt_requeue_def)
    then show ?thesis
    proof (cases rule: update_where_inE)
      case (hit y)
      then have "y \<in> set (in_flight_of eid s)" by (simp add: in_flight_of_def)
      with one hit(3) show ?thesis by simp
    next
      case miss
      then have "d \<noteq> h" using h by auto
      with miss(1) d_id_eq [OF wf miss(1) h(1)] show ?thesis by blast
    qed
  qed
  have w: "works_on (d_id h) s ?t"
    unfolding works_on_def
    by (intro conjI kept_requeue exI [of _ "\<lambda>a. a"] exI [of _ "[]"]) (use rows in force)+
  have hd: "head_row (d_id h) s" by (rule flight_head) (use ok(2) h in \<open>simp_all add: lined_def\<close>)
  have row: "row_ok ?t d" if "d \<in> set (deliveries ?t)" "d_id d = d_id h" for d
  proof -
    have "d = h\<lparr>d_state := Pending\<rparr>" using rows [OF that(1)] that(2) by blast
    moreover have "row_ok s h" using ok(2) h(1) by (simp add: lined_def)
    ultimately show ?thesis using h(3) by (simp add: row_ok_def answers_of_row_def numbers_of_row_def numbers_of_def at)
  qed
  have carry: "traced ?t c" if c: "c_deliveryId c = d_id h" "traced s c" for c
  proof -
    have "\<not> in_hand s c"
    proof
      assume "in_hand s c"
      then obtain as a where "attempts_of (d_id h) s = as @ [a]" "attempt_open a" using c(1) by (auto simp: in_hand_def newest_def)
      with closed one show False by auto
    qed
    with c(2) show ?thesis by (simp add: traced_def given_up_def at)
  qed
  from statement_works [OF ok loc w h(1,2) hd row carry] show ?thesis by blast
qed

text \<open>The row a claim has selected.\<close>

lemma waiting_head:
  assumes "fine_ok s hs cms" "head_waits eid d s" "first_in_line (d_id d) s"
  obtains h where "h \<in> set (deliveries s)" "d_id h = d_id d" "d_endpoint_id h = eid" "d_state h = Pending"
    "d_attempt_count h = d_attempt_count d" "head_row (d_id h) s" "\<And>x. x \<in> set (deliveries s) \<Longrightarrow> d_id x = d_id h \<Longrightarrow> x = h"
    "\<And>c. c_deliveryId c = d_id h \<Longrightarrow> \<not> in_hand s c"
proof -
  obtain h where h: "h \<in> set (deliveries s)" "d_id h = d_id d" "d_endpoint_id h = eid" "d_state h = Pending"
    "d_attempt_count h = d_attempt_count d" using assms(2) by (auto simp: head_waits_def)
  have wf: "wf_db s" using assms(1) by (simp add: fine_ok_def)
  have only: "x = h" if "x \<in> set (deliveries s)" "d_id x = d_id h" for x by (rule d_id_eq [OF wf that(1) h(1) that(2)])
  have "\<not> in_hand s c" if "c_deliveryId c = d_id h" for c
  proof
    assume "in_hand s c"
    then obtain x where x: "x \<in> set (deliveries s)" "d_id x = c_deliveryId c" "d_state x = In_flight" by (auto simp: in_hand_def)
    with only [OF x(1)] that h(4) show False by simp
  qed
  moreover have "head_row (d_id h) s"
    using h assms(3) unfolding head_row_def first_in_line_def by (intro bexI [of _ h]) (simp_all add: unresolved_def)
  ultimately show thesis using that [OF h _ only] by blast
qed

lemma insert_traced:
  assumes ok: "fine_ok s hs cms" "lined s" "workers_ok s hs cms"
    and run: "stmt_insert_attempt now (d_id d) (Suc (d_attempt_count d)) s = (aid, t)"
    and loc: "local_step eid l s t" "l \<notin> set (leases_of hs cms)" "fence eid s = Some l"
    and head: "head_waits eid d s" "first_in_line (d_id d) s"
  shows "lined t \<and> workers_ok t hs cms \<and> carries {} s t \<and> first_in_line (d_id d) t \<and>
    newest t (d_id d) (Suc (d_attempt_count d)) aid \<and> aid \<notin> drawn_ids s"
proof -
  have wf: "wf_db s" using ok(1) by (simp add: fine_ok_def)
  obtain h where h: "h \<in> set (deliveries s)" "d_id h = d_id d" "d_endpoint_id h = eid" "d_state h = Pending"
    "d_attempt_count h = d_attempt_count d" and hd: "head_row (d_id h) s"
    and only: "\<And>x. x \<in> set (deliveries s) \<Longrightarrow> d_id x = d_id h \<Longrightarrow> x = h"
    and idle: "\<And>c. c_deliveryId c = d_id h \<Longrightarrow> \<not> in_hand s c"
    by (rule waiting_head [OF ok(1) head]) blast
  define a where "a = \<lparr>a_id = uuid_src s (uuid_draws s), a_delivery_id = d_id d, a_attempt_number = Suc (d_attempt_count d),
    a_sent_at = Some now, a_response_status = None, a_response_body_truncated = None, a_duration_ms = None, a_error_class = None,
    a_created_at = now\<rparr>"
  have t: "attempts t = attempts s @ [a]" "deliveries t = deliveries s" "aid = uuid_src s (uuid_draws s)"
    using run by (auto simp: stmt_insert_attempt_def gen_random_uuid_def Let_def a_def)
  have a: "a_id a = aid" "a_delivery_id a = d_id h" "a_attempt_number a = Suc (d_attempt_count h)" "attempt_open a" "a_sent_at a \<noteq> None"
    by (simp_all add: a_def t(3) h(2,5) attempt_open_def)
  have at: "attempts_of (d_id h) t = attempts_of (d_id h) s @ [a]" by (simp add: attempts_of_def t(1) a(2))
  have w: "works_on (d_id h) s t"
    unfolding works_on_def by (intro conjI kept_cong exI [of _ "\<lambda>a. a"] exI [of _ "[a]"]) (simp_all add: t(1,2) a(2))
  have row: "row_ok t x" if "x \<in> set (deliveries t)" "d_id x = d_id h" for x
  proof -
    have "x = h" using only that t(2) by simp
    moreover have "row_ok s h" using ok(2) h(1) by (simp add: lined_def)
    moreover have "numbers_of (d_id h) t = numbers_of (d_id h) s @ [Suc (d_attempt_count h)]" by (simp add: numbers_of_def at a(3))
    ultimately show ?thesis
      using h(4) open_unanswered [OF a(4)] a(5)
      by (auto simp: row_ok_def answers_of_row_def numbers_of_row_def at sorted_append)
  qed
  have carry: "traced t c" if c: "c_deliveryId c = d_id h" "traced s c" for c
  proof -
    from idle [OF c(1)] c show ?thesis by (auto simp: traced_def given_up_def at)
  qed
  have "aid \<notin> drawn_ids s" using draw_fresh [of s] wf t(3) by (simp add: wf_db_def)
  moreover have "newest t (d_id d) (Suc (d_attempt_count d)) aid"
    using at a(1,3,4) h(2,5) by (auto simp: newest_def)
  moreover have "first_in_line (d_id d) t" by (rule kept_first [OF kept_cong [OF t(2)] head(2)])
  ultimately show ?thesis using statement_works [OF ok loc w h(1,3) hd row carry] by blast
qed

lemma mark_traced:
  assumes ok: "fine_ok s hs cms" "lined s" "workers_ok s hs cms"
    and t: "t = stmt_in_flight (d_id d) (Suc (d_attempt_count d)) s"
    and loc: "local_step eid l s t" "l \<notin> set (leases_of hs cms)" "fence eid s = Some l"
    and head: "head_waits eid d s" "first_in_line (d_id d) s" and new: "newest s (d_id d) (Suc (d_attempt_count d)) aid"
  shows "lined t \<and> workers_ok t hs cms \<and> carries {} s t \<and>
    (\<forall>c. c_deliveryId c = d_id d \<longrightarrow> c_attemptNumber c = Suc (d_attempt_count d) \<longrightarrow> c_attemptId c = aid \<longrightarrow> hand_traced t c)"
proof -
  obtain h where h: "h \<in> set (deliveries s)" "d_id h = d_id d" "d_endpoint_id h = eid" "d_state h = Pending"
    "d_attempt_count h = d_attempt_count d" and hd: "head_row (d_id h) s"
    and only: "\<And>x. x \<in> set (deliveries s) \<Longrightarrow> d_id x = d_id h \<Longrightarrow> x = h"
    and idle: "\<And>c. c_deliveryId c = d_id h \<Longrightarrow> \<not> in_hand s c"
    by (rule waiting_head [OF ok(1) head]) blast
  let ?h = "h\<lparr>d_state := In_flight, d_attempt_count := Suc (d_attempt_count h)\<rparr>"
  have at: "attempts t = attempts s" by (simp add: t stmt_in_flight_def)
  have "d_id x = d_id d \<longleftrightarrow> x = h" if "x \<in> set (deliveries s)" for x using only [OF that] h(2) by auto
  then have upd: "deliveries t = update_where (\<lambda>x. x = h) (\<lambda>_. ?h) (deliveries s)"
    using h(5) by (simp add: t stmt_in_flight_def update_where_def)
  have ats: "attempts_of i t = attempts_of i s" for i by (simp add: attempts_of_def at)
  have rows: "x = ?h" if "x \<in> set (deliveries t)" "d_id x = d_id h" for x
    using that only unfolding upd by (auto elim: update_where_inE)
  have "kept s t" using loc(1) by (simp add: local_step_def)
  then have w: "works_on (d_id h) s t"
    unfolding works_on_def
    by (intro conjI exI [of _ "\<lambda>a. a"] exI [of _ "[]"]) (auto simp: at upd elim!: update_where_inE)
  have row: "row_ok t x" if "x \<in> set (deliveries t)" "d_id x = d_id h" for x
  proof -
    have "row_ok s h" using ok(2) h(1) by (simp add: lined_def)
    moreover have "Suc (d_attempt_count h) \<in> set (numbers_of (d_id h) s)"
      using new h(2,5) by (auto simp: newest_def numbers_of_def)
    ultimately show ?thesis
      using h(4) by (auto simp: rows [OF that] row_ok_def answers_of_row_def numbers_of_row_def numbers_of_def ats atLeastAtMostSuc_conv)
  qed
  have carry: "traced t c" if c: "c_deliveryId c = d_id h" "traced s c" for c
  proof -
    from idle [OF c(1)] c show ?thesis by (auto simp: traced_def given_up_def ats)
  qed
  have "?h \<in> set (deliveries t)" using h(1) by (force simp: upd set_update_where)
  then have "in_hand t c" if "c_deliveryId c = d_id d" "c_attemptNumber c = Suc (d_attempt_count d)" "c_attemptId c = aid" for c
    using that new h(2,5) by (auto simp: in_hand_def newest_def ats intro!: bexI [of _ ?h])
  then show ?thesis
    using statement_works [OF ok loc w h(1,3) hd row carry] by (auto simp: hand_traced_def traced_def)
qed

section \<open>Every step\<close>

lemma attempt_ids_drop:
  assumes "distinct (attempt_ids hs cms)"
  shows "c \<in> set hs \<Longrightarrow> distinct (attempt_ids (remove1 c hs) cms) \<and> c_attemptId c \<notin> set (attempt_ids (remove1 c hs) cms)"
    "cm \<in> set cms \<Longrightarrow> distinct (marked_ids cm @ attempt_ids hs (remove1 cm cms))"
proof -
  have hs: "mset (map c_attemptId hs) = {#c_attemptId c#} + mset (map c_attemptId (remove1 c hs))" if "c \<in> set hs" for c
    using that by (simp flip: image_mset_add_mset)
  have "mset (concat (map marked_ids cms)) = mset (marked_ids cm) + mset (concat (map marked_ids (remove1 cm cms)))" if "cm \<in> set cms" for cm
    using that by (induction cms) auto
  then have "cm \<in> set cms \<Longrightarrow> mset (attempt_ids hs cms) = mset (marked_ids cm @ attempt_ids hs (remove1 cm cms))" for cm
    by (simp add: attempt_ids_def)
  then show "cm \<in> set cms \<Longrightarrow> distinct (marked_ids cm @ attempt_ids hs (remove1 cm cms))"
    using assms mset_eq_imp_distinct_iff by blast
  have "c \<in> set hs \<Longrightarrow> mset (attempt_ids hs cms) = mset (c_attemptId c # attempt_ids (remove1 c hs) cms)"
    using hs [of c] by (simp add: attempt_ids_def)
  then show "c \<in> set hs \<Longrightarrow> distinct (attempt_ids (remove1 c hs) cms) \<and> c_attemptId c \<notin> set (attempt_ids (remove1 c hs) cms)"
    using assms mset_eq_imp_distinct_iff [of "attempt_ids hs cms" "c_attemptId c # attempt_ids (remove1 c hs) cms"] by simp
qed

lemma workers_drop:
  assumes "workers_ok s hs cms"
  shows "c \<in> set hs \<Longrightarrow> workers_ok s (remove1 c hs) cms" "cm \<in> set cms \<Longrightarrow> workers_ok s hs (remove1 cm cms)"
  using assms attempt_ids_drop [of hs cms] by (auto simp: workers_ok_def dest: removed)

lemma attempt_ids_drawn:
  assumes "wf_db s" "workers_ok s hs cms"
  shows "set (attempt_ids hs cms) \<subseteq> drawn_ids s"
proof
  fix i assume "i \<in> set (attempt_ids hs cms)"
  then consider c where "c \<in> set hs" "i = c_attemptId c" | cm where "cm \<in> set cms" "i \<in> set (marked_ids cm)"
    by (auto simp: attempt_ids_def)
  then show "i \<in> drawn_ids s"
  proof cases
    case 1
    then have "traced s c" using assms(2) by (simp add: workers_ok_def hand_traced_def)
    then obtain a where "a \<in> set (attempts s)" "a_id a = c_attemptId c" by (rule traced_attempt)
    then show ?thesis using attempt_drawn [OF assms(1)] 1(2) by metis
  next
    case 2
    then obtain d v e where "cm_stage cm = To_mark (d, v, e) i"
      by (cases "cm_stage cm") (auto simp: marked_ids_def)
    with 2(1) assms(2) have "newest s (d_id d) (Suc (d_attempt_count d)) i" by (auto simp: workers_ok_def stage_traced_def)
    then obtain a where "a \<in> set (attempts s)" "a_id a = i" by (rule newest_attempt)
    then show ?thesis using attempt_drawn [OF assms(1)] by metis
  qed
qed

lemma recorded_other [simp]: "a_id a \<noteq> c_attemptId c \<Longrightarrow> recorded c r a = a"
  by (simp add: recorded_def)

lemma complete_traced:
  assumes run: "completeDelivery now rnd c r cfg s = (res, t)" and ok: "fine_ok s hs cms" "lined s" "workers_ok s hs cms"
    and c: "c \<in> set hs"
  shows "lined t \<and> workers_ok t (remove1 c hs) cms \<and> carries {c_attemptId c} s t"
proof -
  have wf: "wf_db s" and sf: "single_flight s" and hand: "hand_ok s c" "hand_traced s c"
    using ok c by (simp_all add: fine_ok_def workers_ok_def)
  note rest = workers_drop(1) [OF ok(3) c]
  from run show ?thesis
  proof (cases rule: completeDelivery_cases)
    case written
    let ?i = "c_deliveryId c"
    have row: "claim_row s c" and ih: "in_hand s c" using hand written(1) by (simp_all add: hand_ok_def hand_traced_def holds_def)
    have wft: "wf_db t" by (rule wf_completeDelivery [OF run wf])
    have st: "settled_as (maxAttempts cfg) c r s t" unfolding written(4) by (rule written_settled)
    obtain d where d: "d \<in> set (deliveries s)" "d_id d = ?i" "d_endpoint_id d = c_endpointId c" "d_state d = In_flight"
      "d_attempt_count d = c_attemptNumber c" using row by (auto simp: claim_row_def)
    obtain as a where a: "attempts_of ?i s = as @ [a]" "a_id a = c_attemptId c" "attempt_open a"
      using ih by (auto simp: in_hand_def newest_def)
    have "a \<in> set (attempts_of ?i s)" by (simp add: a(1))
    then have mem: "a \<in> set (attempts s)" "a_delivery_id a = ?i" by (simp_all add: in_attempts_of)
    have at: "attempts t = map (recorded c r) (attempts s)" using st by (simp add: settled_as_def)
    have own: "a_delivery_id b = ?i" if "b \<in> set (attempts s)" "a_id b = c_attemptId c" for b
      using attempt_eq [OF wf that(1) mem(1)] that(2) a(2) mem(2) by simp
    have before: "recorded c r b = b" if "b \<in> set as" for b
    proof -
      have "distinct (map a_id (as @ [a]))"
        unfolding a(1) [symmetric] using wf by (simp add: attempts_of_def wf_db_def keys_ok_def distinct_map_filter)
      then have "a_id b \<noteq> a_id a" using that by (auto simp: rev_image_eqI)
      with a(2) show ?thesis by simp
    qed
    have new: "attempts_of ?i t = as @ [recorded c r a]"
    proof -
      have "attempts_of ?i t = map (recorded c r) (attempts_of ?i s)" by (simp add: attempts_of_def at filter_map comp_def)
      also have "\<dots> = as @ [recorded c r a]" using before by (simp add: a(1) map_idI)
      finally show ?thesis .
    qed
    have oc: "res = Inr (fst (settle_delivery now rnd c r cfg (stmt_record_outcome (c_attemptId c) r s)))"
      "fst (settle_delivery now rnd c r cfg (stmt_record_outcome (c_attemptId c) r s)) \<noteq> Oc_lease_lost"
      using written(3) by (simp_all add: settle_delivery_def)
    note rows = completion_rows [OF run [unfolded oc(1)] oc(2) wf d(1,2), THEN conjunct1]
    have only: "x = d" if "x \<in> set (deliveries s)" "d_id x = ?i" for x by (rule d_id_eq [OF wf that(1) d(1)]) (simp add: that(2) d(2))
    have rowt: "x \<in> set (deliveries s) \<and> d_id x \<noteq> ?i \<or>
        d_id x = ?i \<and> d_attempt_count x = d_attempt_count d \<and> (d_state x = Succeeded \<longleftrightarrow> http_success r)"
      if hx: "x \<in> set (deliveries t)" for x
    proof -
      obtain y where y: "y \<in> set (deliveries s)" "x = (if y = d then (if http_success r then d\<lparr>d_state := Succeeded\<rparr>
         else if maxAttempts cfg \<le> of_nat (c_attemptNumber c) then d\<lparr>d_state := Failed\<rparr>
         else d\<lparr>d_state := Pending, d_next_attempt_at := now + computeBackoffDelayMs rnd (c_attemptNumber c) cfg * 1000\<rparr>) else y)"
        using hx unfolding rows set_map by blast
      with only [of y] d(2) show ?thesis by (cases "y = d") (auto split: if_splits)
    qed
    have kept: "kept s t" by (rule kept_write_back [OF run wf]) (use row in simp)
    have w: "works_on ?i s t"
      unfolding works_on_def
    proof (intro conjI exI [of _ "recorded c r"] exI [of _ "[]"] ballI impI allI)
      show "d \<in> set (deliveries s)" if "d \<in> set (deliveries t)" "d_id d \<noteq> ?i" for d using rowt [OF that(1)] that(2) by blast
      show "recorded c r b = b" if "b \<in> set (attempts s)" "a_delivery_id b \<noteq> ?i" for b using own [OF that(1)] that(2) recorded_other by metis
    qed (simp_all add: kept at)
    have hd: "head_row ?i s" using flight_head [of s d] ok(2) d by (simp add: lined_def)
    have "row_ok s d" using ok(2) d(1) by (simp add: lined_def)
    then have old: "filter answered_ok as = []" "\<forall>b\<in>set (as @ [a]). a_sent_at b \<noteq> None"
      and num: "sorted (numbers_of ?i s)" "{1..d_attempt_count d} \<subseteq> set (numbers_of ?i s)" "set (numbers_of ?i s) \<subseteq> {1..Suc (d_attempt_count d)}"
      using d(2,4) by (auto simp: row_ok_def answers_of_row_def numbers_of_row_def a(1) filter_empty_conv split: if_splits)
    have "numbers_of ?i t = numbers_of ?i s" by (simp add: numbers_of_def new a(1))
    then have "row_ok t x" if "x \<in> set (deliveries t)" "d_id x = ?i" for x
      using rowt [OF that(1)] that(2) old num a(2) recorded_answer(1) [of a c r]
      by (auto simp: row_ok_def answers_of_row_def numbers_of_row_def new)
    from works_lined [OF w wf hd ok(2) this] have lined: "lined t" .
    have "traced t c'" if c': "c_deliveryId c' = ?i" "traced s c'" "c_attemptId c' \<noteq> c_attemptId c" for c'
    proof -
      have "\<not> in_hand s c'" using c'(1,3) a(1,2) by (auto simp: in_hand_def newest_def)
      then obtain b where b: "b \<in> set (attempts_of ?i s)" "a_id b = c_attemptId c'" "a_attempt_number b = c_attemptNumber c'"
        "a_response_status b = None" "a_error_class b = Some Worker_lease_expired"
        using c'(1,2) by (auto simp: traced_def given_up_def)
      have "b \<in> set (attempts_of ?i t)" using b(1,2) c'(3) a(2) by (auto simp: new a(1))
      with b(2-5) c'(1) show ?thesis by (auto simp: traced_def given_up_def)
    qed
    then have carry: "carries {c_attemptId c} s t"
      using works_traced(1) [OF w wf] unfolding carries_def by blast
    have "fence (c_endpointId c) t = None" using st by (simp add: settled_as_def)
    moreover have "{c_attemptId c} \<inter> c_attemptId ` set (remove1 c hs) = {}"
      using attempt_ids_drop(1) [of hs cms c] ok(3) c by (auto simp: workers_ok_def attempt_ids_def)
    ultimately have "workers_ok t (remove1 c hs) cms"
      using works_workers [OF fine_ok_drop_hand [OF ok(1)] rest w d(1,2,3) dropped_lease(1) [OF ok(1) c] written(1) _
          settled_undisturbed [OF wf sf row st wft] carry] by blast
    with lined carry show ?thesis by blast
  qed (use ok(2) rest in \<open>simp_all add: carries_def\<close>)
qed

lemma claim_stmt_traced:
  assumes run: "claim_stmt dec clk cm s = (p, t)" and ok: "fine_ok s hs cms" "lined s" "workers_ok s hs cms" and cm: "cm \<in> set cms"
  shows "lined t \<and> carries {} s t \<and>
    (\<forall>st. p = Continues st \<longrightarrow> workers_ok t hs (cm\<lparr>cm_stage := st\<rparr> # remove1 cm cms)) \<and>
    (\<forall>res. p = Ends res \<longrightarrow> workers_ok t (hands_after res hs) (remove1 cm cms))"
proof -
  let ?eid = "cm_endpoint cm" and ?cms = "remove1 cm cms"
  have wf: "wf_db s" and sf: "single_flight s" and cok: "claiming_ok s cm" and st: "stage_traced s cm"
    using ok cm by (simp_all add: fine_ok_def workers_ok_def)
  have l: "fence ?eid s = Some (cm_lease cm)" and sok: "stage_ok (cm_cand cm) (cm_stage cm) s" using cok by (simp_all add: claiming_ok_def)
  note loc = claim_stmt_ok(1) [OF run wf sf cok] dropped_lease(2) [OF ok(1) cm]
  note rest = fine_ok_drop_claim [OF ok(1), of cm] ok(2) workers_drop(2) [OF ok(3) cm]
  note ids = attempt_ids_drop(2) [of hs cms cm]
  have cont: "workers_ok t hs (cm\<lparr>cm_stage := st'\<rparr> # ?cms)"
    if "workers_ok t hs ?cms" "stage_traced t (cm\<lparr>cm_stage := st'\<rparr>)" "set (marked_ids (cm\<lparr>cm_stage := st'\<rparr>)) \<inter> set (attempt_ids hs ?cms) = {}" for st'
    using that by (auto simp: workers_ok_def attempt_ids_def marked_ids_def split: claim_stage.split)
  show ?thesis
  proof (cases "cm_stage cm")
    case To_serve
    then have t: "t = stmt_serve (at_serve clk) (cand_tenant_id (cm_cand cm)) s"
      "p = Continues (if cand_busy (cm_cand cm) then To_expire else To_select)"
      using run by (auto simp: claim_stmt_def Let_def)
    have "deliveries t = deliveries s" "attempts t = attempts s" by (simp_all add: t(1))
    note statement_still [OF rest(2,3) loc this]
    then show ?thesis using cont by (simp add: t(2) stage_traced_def marked_ids_def)
  next
    case To_expire
    obtain u where u: "stmt_expire_orphans ?eid s = Some u" by (rule stmt_expire_orphans_total [OF at_most_one [OF wf sf]])
    with run To_expire have t: "p = Continues To_requeue" "t = u" by (simp_all add: claim_stmt_def Let_def)
    note expire_traced [OF rest loc l u [folded t(2)]]
    then show ?thesis using cont by (simp add: t(1) stage_traced_def marked_ids_def)
  next
    case To_requeue
    with run have t: "p = Continues To_select" "t = stmt_requeue ?eid s" by (simp_all add: claim_stmt_def Let_def)
    have "\<forall>d\<in>set (in_flight_of ?eid s). \<forall>a\<in>set (attempts_of (d_id d) s). \<not> attempt_open a"
      using st To_requeue by (simp add: stage_traced_def)
    note requeue_traced [OF rest loc(1) [unfolded t(2)] loc(2) l this]
    then show ?thesis using cont by (simp add: t stage_traced_def marked_ids_def)
  next
    case To_select
    have none: "in_flight_of ?eid s = []" using sok To_select by (simp add: stage_ok_def)
    have t: "t = s" and p: "p = Continues To_release \<or> (\<exists>row. select_head ?eid s = Some row \<and> p = Continues (To_insert row))"
      using run To_select by (auto simp: claim_stmt_def Let_def split: option.splits if_splits)
    have first: "first_in_line (d_id d) s" if h: "select_head ?eid s = Some (d, v, e)" for d v e
      unfolding first_in_line_def waits_def
    proof (intro ballI impI notI, elim bexE conjE)
      fix x y assume x: "x \<in> set (deliveries s)" "d_id x = d_id d"
        and y: "y \<in> set (deliveries s)" "d_endpoint_id y = d_endpoint_id x" "d_seq y < d_seq x" "unresolved y"
      note head = select_head_SomeD [OF wf h]
      have "x = d" by (rule d_id_eq [OF wf x(1) head(1) x(2)])
      moreover have "d_state y \<noteq> In_flight" using none y(1,2) head(2) \<open>x = d\<close> by (auto simp: in_flight_of_def filter_empty_conv)
      ultimately have "y \<in> set (pending_of ?eid s)" using y head(2) by (simp add: pending_of_def unresolved_def)
      with head(8) y(3) \<open>x = d\<close> show False by auto
    qed
    have "workers_ok s hs (cm\<lparr>cm_stage := st'\<rparr> # ?cms)" if "p = Continues st'" for st'
      using that p first rest(3) by (intro cont [unfolded t]) (auto simp: stage_traced_def marked_ids_def)
    moreover have "carries {} s s" by (simp add: carries_def)
    ultimately show ?thesis using ok(2) p unfolding t by auto
  next
    case To_release
    with run have t: "p = Ends (Inr None)" "t = stmt_release ?eid (cm_lease cm) s" by (simp_all add: claim_stmt_def Let_def)
    have "deliveries t = deliveries s" "attempts t = attempts s" by (simp_all add: t(2) stmt_release_def)
    note statement_still [OF rest(2,3) loc this]
    then show ?thesis by (simp add: t(1) hands_after_def)
  next
    case (To_insert row)
    obtain d v e where row: "row = (d, v, e)" by (cases row)
    have head: "head_waits ?eid d s" "first_in_line (d_id d) s" using sok st To_insert row by (simp_all add: stage_ok_def stage_traced_def)
    obtain aid where t: "stmt_insert_attempt (at_sent clk) (d_id d) (Suc (d_attempt_count d)) s = (aid, t)" "p = Continues (To_mark (d, v, e) aid)"
      using run To_insert row by (auto simp: claim_stmt_def Let_def split: prod.splits)
    note res = insert_traced [OF rest t(1) loc l head]
    moreover have "aid \<notin> set (attempt_ids hs ?cms)" using res attempt_ids_drawn [OF wf rest(3)] by blast
    ultimately show ?thesis using cont by (simp add: t(2) stage_traced_def marked_ids_def)
  next
    case (To_mark row aid)
    obtain d v e where row: "row = (d, v, e)" by (cases row)
    have head: "head_waits ?eid d s" "first_in_line (d_id d) s" "newest s (d_id d) (Suc (d_attempt_count d)) aid"
      using sok st To_mark row by (simp_all add: stage_ok_def stage_traced_def)
    have t: "t = stmt_in_flight (d_id d) (Suc (d_attempt_count d)) s" and p: "p = Ends (case claim_secrets dec (at_secret clk) e of
        None \<Rightarrow> Inl Secret_unreadable | Some (q, q') \<Rightarrow> Inr (Some (new_claim (cm_cand cm) (cm_lease cm) d v e aid q q')))"
      using run To_mark row by (simp_all add: claim_stmt_def Let_def)
    note res = mark_traced [OF rest t loc l head]
    have "aid \<notin> set (attempt_ids hs ?cms)" using ids ok(3) cm To_mark by (simp add: workers_ok_def marked_ids_def)
    then have "workers_ok t (new_claim (cm_cand cm) (cm_lease cm) d v e aid q q' # hs) ?cms" for q q'
      using res by (simp add: workers_ok_def attempt_ids_def new_claim_def)
    then show ?thesis using res by (auto simp: p hands_after_def split: option.split)
  qed
qed

text \<open>An attempt that no claim under way and no hand knows any more is known to none of them later.\<close>

lemma marked_rest: "set (attempt_ids hs (remove1 cm cms)) \<subseteq> set (attempt_ids hs cms)"
  by (auto simp: attempt_ids_def dest: removed)

lemma claim_stmt_ids:
  assumes run: "claim_stmt dec clk cm s = (p, t)" and wf: "wf_db s" and cm: "cm \<in> set cms"
  shows "p = Continues st \<Longrightarrow> set (attempt_ids hs (cm\<lparr>cm_stage := st\<rparr> # remove1 cm cms)) \<subseteq> set (attempt_ids hs cms) \<union> - drawn_ids s"
    "p = Ends res \<Longrightarrow> set (attempt_ids (hands_after res hs) (remove1 cm cms)) \<subseteq> set (attempt_ids hs cms)"
proof -
  have own: "set (marked_ids cm) \<subseteq> set (attempt_ids hs cms)" using cm by (auto simp: attempt_ids_def)
  have "set (marked_ids (cm\<lparr>cm_stage := st\<rparr>)) \<subseteq> - drawn_ids s" if hp: "p = Continues st"
  proof (cases st)
    case (To_mark row aid)
    then obtain d v e where "cm_stage cm = To_insert (d, v, e)" using run hp
      by (cases "cm_stage cm") (auto simp: claim_stmt_def Let_def split: option.splits if_splits)
    then have "aid = uuid_src s (uuid_draws s)"
      using run hp To_mark by (auto simp: claim_stmt_def Let_def stmt_insert_attempt_def gen_random_uuid_def)
    then show ?thesis using draw_fresh [of s] wf To_mark by (simp add: marked_ids_def wf_db_def)
  qed (simp_all add: marked_ids_def)
  then show "p = Continues st \<Longrightarrow> set (attempt_ids hs (cm\<lparr>cm_stage := st\<rparr> # remove1 cm cms)) \<subseteq> set (attempt_ids hs cms) \<union> - drawn_ids s"
    using marked_rest [of hs cm cms] by (auto simp: attempt_ids_def)
  have "c_attemptId c \<in> set (marked_ids cm)" if "p = Ends (Inr (Some c))" for c
    using run that by (cases "cm_stage cm") (auto simp: claim_stmt_def marked_ids_def new_claim_def Let_def split: option.splits if_splits prod.splits)
  then have "p = Ends res \<Longrightarrow> set (attempt_ids (hands_after res hs) (remove1 cm cms)) \<subseteq> set (marked_ids cm) \<union> set (attempt_ids hs (remove1 cm cms))"
    by (auto simp: attempt_ids_def hands_after_def split: sum.splits option.splits)
  then show "p = Ends res \<Longrightarrow> set (attempt_ids (hands_after res hs) (remove1 cm cms)) \<subseteq> set (attempt_ids hs cms)"
    using own marked_rest [of hs cm cms] by blast
qed

definition guarded :: "fine \<Rightarrow> bool" where
  "guarded u \<longleftrightarrow> fine_ok (fs_db u) (fs_hands u) (fs_claims u) \<and> lined (fs_db u) \<and>
     workers_ok (fs_db u) (fs_hands u) (fs_claims u)"

abbreviation fine_ids :: "fine \<Rightarrow> uuid set" where
  "fine_ids u \<equiv> set (attempt_ids (fs_hands u) (fs_claims u))"

lemma fine_step_quiet:
  assumes "fine_step cfg prompt u u'"
  obtains (quiet) t where "u' = u\<lparr>fs_db := t\<rparr>" "quiet (fs_db u) t"
  | (complete) c r now rnd res t where "u' = u\<lparr>fs_db := t, fs_hands := remove1 c (fs_hands u)\<rparr>" "c \<in> set (fs_hands u)"
      "completeDelivery now rnd c r cfg (fs_db u) = (res, t)"
  | (crash) c where "u' = u\<lparr>fs_hands := remove1 c (fs_hands u)\<rparr>" "c \<in> set (fs_hands u)"
  | (take) now cutoff cand l t where "stmt_claim now cutoff (cand_id cand) (fs_db u) = (Some l, t)"
      "u' = u\<lparr>fs_db := t, fs_claims := \<lparr>cm_cand = cand, cm_lease = l, cm_stage = To_serve\<rparr> # fs_claims u\<rparr>"
  | (statement) cm dec clk st t where "u' = u\<lparr>fs_db := t, fs_claims := cm\<lparr>cm_stage := st\<rparr> # remove1 cm (fs_claims u)\<rparr>"
      "cm \<in> set (fs_claims u)" "claim_stmt dec clk cm (fs_db u) = (Continues st, t)"
  | (ends) cm dec clk res t where "u' = \<lparr>fs_db = t, fs_hands = hands_after res (fs_hands u), fs_claims = remove1 cm (fs_claims u)\<rparr>"
      "cm \<in> set (fs_claims u)" "claim_stmt dec clk cm (fs_db u) = (Ends res, t)"
  | (abort) cm where "u' = u\<lparr>fs_claims := remove1 cm (fs_claims u)\<rparr>" "cm \<in> set (fs_claims u)"
  using assms
proof (cases rule: fine_step.cases)
  case (fine_seed X now rnd name i key t)
  have "quiet (fs_db u) t" using seed_tenant_frame [OF fine_seed(2)] by (intro quiet_same [of _ _ "[]"]) simp_all
  with fine_seed(1) show thesis by (intro quiet)
next
  case (fine_request E i r resp t)
  have "quiet (fs_db u) t" using handle_request_write [of E i r "fs_db u"] fine_request(2) quiet_api_write by auto
  with fine_request(1) show thesis by (intro quiet)
next
  case (fine_expand locked now b t)
  from fine_expand(2) have "quiet (fs_db u) t" by (cases rule: runExpansionCycle_cases) (simp_all add: quiet_expand_event)
  with fine_expand(1) show thesis by (intro quiet)
next
  case (fine_replay locked now b t)
  from fine_replay(2) have "quiet (fs_db u) t"
    by (cases rule: runReplayExpansionCycle_cases) (simp_all add: quiet_expand_replay_row)
  with fine_replay(1) show thesis by (intro quiet)
qed (rule complete crash take statement ends abort, assumption+)+

lemma guarded_step:
  assumes step: "fine_step cfg True u u'" and ok: "guarded u"
  shows "guarded u'" "\<exists>A. A \<subseteq> fine_ids u \<and> carries A (fs_db u) (fs_db u')" "fine_ids u' \<subseteq> fine_ids u \<union> - drawn_ids (fs_db u)"
proof -
  have f: "fine_ok (fs_db u) (fs_hands u) (fs_claims u)" and l: "lined (fs_db u)" and w: "workers_ok (fs_db u) (fs_hands u) (fs_claims u)"
    using ok by (simp_all add: guarded_def)
  have f': "fine_ok (fs_db u') (fs_hands u') (fs_claims u')" using fine_ok_step [OF step f] by simp
  have wf: "wf_db (fs_db u)" "wf_db (fs_db u')" using f f' by (simp_all add: fine_ok_def)
  have id: "carries A (fs_db u) (fs_db u)" for A by (simp add: carries_def)
  have hand: "c_attemptId c \<in> fine_ids u" if "c \<in> set (fs_hands u)" for c using that by (simp add: attempt_ids_def)
  from step have "(lined (fs_db u') \<and> workers_ok (fs_db u') (fs_hands u') (fs_claims u')) \<and>
      (\<exists>A. A \<subseteq> fine_ids u \<and> carries A (fs_db u) (fs_db u')) \<and> fine_ids u' \<subseteq> fine_ids u \<union> - drawn_ids (fs_db u)"
  proof (cases rule: fine_step_quiet)
    case (quiet t)
    with quiet_lined(1) [OF quiet(2) _ _ l] quiet_workers [OF quiet(2) f _ l w] wf show ?thesis by auto
  next
    case (complete c r now rnd res t)
    have "{c_attemptId c} \<subseteq> fine_ids u" using hand [OF complete(2)] by simp
    moreover have "fine_ids u' \<subseteq> fine_ids u" by (auto simp: complete(1) attempt_ids_def dest: removed)
    ultimately show ?thesis using complete_traced [OF complete(3) f l w complete(2)] complete(1) by auto
  next
    case (crash c)
    then show ?thesis using l workers_drop(1) [OF w] id by (auto simp: attempt_ids_def dest: removed)
  next
    case (take now cutoff cand l' t)
    then show ?thesis using take_workers [OF take(1) f w l] by (auto simp: attempt_ids_def marked_ids_def)
  next
    case (statement cm dec clk st t)
    then show ?thesis
      using claim_stmt_traced [OF statement(3) f l w statement(2)] claim_stmt_ids(1) [OF statement(3) wf(1) statement(2)] by auto
  next
    case (ends cm dec clk res t)
    then show ?thesis
      using claim_stmt_traced [OF ends(3) f l w ends(2)] claim_stmt_ids(2) [OF ends(3) wf(1) ends(2)] by auto
  next
    case (abort cm)
    moreover have "fine_ids u' \<subseteq> fine_ids u" using marked_rest by (simp add: abort(1))
    ultimately show ?thesis using l workers_drop(2) [OF w abort(2)] id by auto
  qed
  then show "guarded u'" "\<exists>A. A \<subseteq> fine_ids u \<and> carries A (fs_db u) (fs_db u')" "fine_ids u' \<subseteq> fine_ids u \<union> - drawn_ids (fs_db u)"
    using f' by (simp_all add: guarded_def)
qed

lemma reachable_guarded: "fine_reachable cfg True u \<Longrightarrow> guarded u"
proof (induction rule: fine_reachable.induct)
  case (fine_start g)
  then show ?case
    using fine_reachable_ok [OF fine_reachable.fine_start [of g cfg True]]
    by (simp add: guarded_def lined_def line_ok_def workers_ok_def attempt_ids_def fine_of_def sys_start_def empty_db_def)
next
  case (fine_next u u')
  then show ?case using guarded_step(1) by blast
qed

lemma dead_claim_traced:
  assumes "fine_reachable cfg True u" "c \<in> set (fs_hands u)" "fine_run cfg True (u\<lparr>fs_hands := remove1 c (fs_hands u)\<rparr>) v"
  shows "traced (fs_db v) c"
proof -
  let ?u = "u\<lparr>fs_hands := remove1 c (fs_hands u)\<rparr>"
  have g: "guarded u" by (rule reachable_guarded [OF assms(1)])
  then have tr: "traced (fs_db u) c" and ids: "distinct (attempt_ids (fs_hands u) (fs_claims u))"
    using assms(2) by (simp_all add: guarded_def workers_ok_def hand_traced_def)
  let ?P = "\<lambda>w. guarded w \<and> traced (fs_db w) c \<and> c_attemptId c \<notin> fine_ids w"
  have start: "?P ?u"
    using guarded_step(1) [OF fine_crash [OF assms(2)] g] tr attempt_ids_drop(1) [OF ids assms(2)] by simp
  have step: "?P w'" if w: "fine_step cfg True w w'" "?P w" for w w'
  proof -
    have "wf_db (fs_db w)" using w(2) by (simp add: guarded_def fine_ok_def)
    moreover obtain a where "a \<in> set (attempts (fs_db w))" "a_id a = c_attemptId c"
      using traced_attempt w(2) by metis
    ultimately have "c_attemptId c \<in> drawn_ids (fs_db w)" using attempt_drawn by metis
    then show ?thesis using guarded_step [OF w(1)] w(2) unfolding carries_def by blast
  qed
  have "?P v"
    using assms(3) unfolding fine_run_def by (induction rule: rtranclp_induct) (use start step in blast)+
  then show ?thesis by blast
qed

section \<open>Properties\<close>

lemma guarded_parts:
  assumes "fine_reachable cfg True u"
  shows "wf_db (fs_db u)" "single_flight (fs_db u)" "line_ok (fs_db u)" "sorted_wrt (in_queue_order (fs_db u)) (attempts (fs_db u))"
    "d \<in> set (deliveries (fs_db u)) \<Longrightarrow> answers_of_row (fs_db u) d" "d \<in> set (deliveries (fs_db u)) \<Longrightarrow> numbers_of_row (fs_db u) d"
    "c \<in> set (fs_hands u) \<Longrightarrow> hand_ok (fs_db u) c" "c \<in> set (fs_hands u) \<Longrightarrow> hand_traced (fs_db u) c"
  using reachable_guarded [OF assms] by (simp_all add: guarded_def fine_ok_def lined_def row_ok_def workers_ok_def)

lemma free_endpoint_idle: "single_flight s \<Longrightarrow> e \<in> set (endpoints s) \<Longrightarrow> \<not> ep_busy e \<Longrightarrow> in_flight_of (ep_id e) s = []"
  by (auto simp: single_flight_def)

lemma held_alone:
  assumes "wf_db s" "single_flight s" "claim_row s c"
  shows "map (\<lambda>d. (d_id d, d_attempt_count d)) (in_flight_of (c_endpointId c) s) = [(c_deliveryId c, c_attemptNumber c)]"
proof -
  obtain d where d: "d \<in> set (in_flight_of (c_endpointId c) s)" "d_id d = c_deliveryId c" "d_attempt_count d = c_attemptNumber c"
    using assms(3) by (auto simp: claim_row_def in_flight_of_def)
  moreover have "length (in_flight_of (c_endpointId c) s) \<le> 1" by (rule at_most_one [OF assms(1,2)])
  ultimately show ?thesis by (cases "in_flight_of (c_endpointId c) s") auto
qed

text \<open>
  C1. What a lease stands for, at every moment between two statements of any claim, as long as no claim outlasts
  its lease: a free endpoint has no delivery in flight; and while a worker that finished its claim still has the lease, the
  delivery it claimed is the only one in flight on the endpoint, its attempt count is the number of the claimed
  attempt, and that attempt is the last one of the delivery and has no outcome yet.  (Inside a claim, and after a crash
  there, an endpoint may be busy with nothing in flight.)
\<close>

theorem lease_stands_for_attempt:
  assumes "fine_reachable cfg True u"
  shows "(\<forall>e\<in>set (endpoints (fs_db u)). \<not> ep_busy e \<longrightarrow> in_flight_of (ep_id e) (fs_db u) = []) \<and>
    (\<forall>c\<in>set (fs_hands u). fence (c_endpointId c) (fs_db u) = Some (c_leaseId c) \<longrightarrow>
       map (\<lambda>d. (d_id d, d_attempt_count d)) (in_flight_of (c_endpointId c) (fs_db u)) = [(c_deliveryId c, c_attemptNumber c)] \<and>
       (\<exists>as a. attempts_of (c_deliveryId c) (fs_db u) = as @ [a] \<and> a_id a = c_attemptId c \<and>
          a_attempt_number a = c_attemptNumber c \<and> a_response_status a = None \<and> a_error_class a = None))"
proof (intro conjI ballI impI)
  show "in_flight_of (ep_id e) (fs_db u) = []" if "e \<in> set (endpoints (fs_db u))" "\<not> ep_busy e" for e
    by (rule free_endpoint_idle [OF guarded_parts(2) [OF assms] that])
  fix c assume c: "c \<in> set (fs_hands u)" "fence (c_endpointId c) (fs_db u) = Some (c_leaseId c)"
  then have "claim_row (fs_db u) c" "in_hand (fs_db u) c"
    using guarded_parts(7,8) [OF assms c(1)] by (simp_all add: hand_ok_def hand_traced_def holds_def)
  then show "map (\<lambda>d. (d_id d, d_attempt_count d)) (in_flight_of (c_endpointId c) (fs_db u)) = [(c_deliveryId c, c_attemptNumber c)]"
    "\<exists>as a. attempts_of (c_deliveryId c) (fs_db u) = as @ [a] \<and> a_id a = c_attemptId c \<and>
       a_attempt_number a = c_attemptNumber c \<and> a_response_status a = None \<and> a_error_class a = None"
    using held_alone [OF guarded_parts(1,2) [OF assms]] by (auto simp: in_hand_def newest_def attempt_open_def)
qed

theorem lease_stands_for_attempt_witness:
  "map (\<lambda>d. (d_id d, d_attempt_count d)) (in_flight_of 1 (s_db demo_sys)) = [(3, 1)]"
  using lease_stands_for_attempt [OF reachable_fine [OF demo_reachable [of demo_cfg]]]
  by (simp add: fine_of_def demo_sys_def demo_claimed_def demo_db_def demo_claim_def demo_endpoint_def take_lease_def fence_def)

text \<open>
  C3. Head-of-line blocking, at every moment between two statements of any claim, as long as no claim outlasts its lease:
  while a delivery of an endpoint is unresolved (pending, being retried, in flight or stranded), every later delivery of
  the endpoint is pending and has never been attempted.
\<close>

theorem followers_wait:
  assumes "fine_reachable cfg True u" "d \<in> set (deliveries (fs_db u))" "d' \<in> set (deliveries (fs_db u))"
    "d_endpoint_id d' = d_endpoint_id d" "d_seq d < d_seq d'" "d_state d = Pending \<or> d_state d = In_flight"
  shows "d_state d' = Pending \<and> attempts_of (d_id d') (fs_db u) = []"
  using guarded_parts(3) [OF assms(1)] assms(2-6) unfolding line_ok_def waits_def unresolved_def by metis

theorem followers_wait_witness: "attempts_of 7 demo_reclaimed = []"
  using followers_wait [OF reachable_fine [OF demo_rivals_reachable [of demo_cfg]], of "demo_delivery In_flight 2" demo_delivery2]
  by (simp add: fine_of_def demo_rivals_def demo_reclaimed_def demo_db_def demo_delivery_def demo_delivery2_def)

text \<open>
  C4. An endpoint sees its deliveries in queue order, as long as no claim outlasts its lease: at every moment between two
  statements of any claim, an attempt that was made later never belongs to a delivery that is earlier in the queue of the
  same endpoint.
\<close>

theorem attempts_in_queue_order:
  assumes "fine_reachable cfg True u" "attempts (fs_db u) = xs @ a # ys" "b \<in> set ys"
    "d \<in> set (deliveries (fs_db u))" "d' \<in> set (deliveries (fs_db u))"
    "d_id d = a_delivery_id a" "d_id d' = a_delivery_id b" "d_endpoint_id d' = d_endpoint_id d"
  shows "d_seq d \<le> d_seq d'"
  using guarded_parts(4) [OF assms(1)] assms(2-8) by (auto simp: in_queue_order_def sorted_wrt_append)

theorem attempts_in_queue_order_witness:
  "d_seq (demo_delivery Succeeded 2) \<le> d_seq (demo_delivery2\<lparr>d_state := In_flight, d_attempt_count := 1\<rparr>)"
  by (rule attempts_in_queue_order [OF reachable_fine [OF third_reachable [of demo_cfg]], of "[]" "hd third_attempts" "tl third_attempts @ [third_attempt]" third_attempt])
     (simp_all add: fine_of_def third_claimed_def third_attempts_def third_attempt_def demo_db_def demo_attempt_def demo_delivery_def demo_delivery2_def)

text \<open>
  C7. Success is what the receiver said: at every moment between two statements of any claim, as long as no claim outlasts
  its lease, a succeeded delivery has exactly one attempt that was answered with 2xx, its last one, and a delivery in any
  other state has none.  So an event is not delivered again once a 2xx answer to it was recorded.
\<close>

theorem one_success_per_delivery:
  assumes "fine_reachable cfg True u" "d \<in> set (deliveries (fs_db u))"
  shows "filter (\<lambda>a. \<exists>st. a_response_status a = Some st \<and> 200 \<le> st \<and> st < 300) (attempts_of (d_id d) (fs_db u)) =
    (if d_state d = Succeeded then [last (attempts_of (d_id d) (fs_db u))] else [])"
proof -
  have "answered_ok = (\<lambda>a. \<exists>st. a_response_status a = Some st \<and> 200 \<le> st \<and> st < 300)"
    by (auto simp: answered_ok_def fun_eq_iff split: option.split)
  with guarded_parts(5) [OF assms] show ?thesis by (simp add: answers_of_row_def)
qed

theorem one_success_per_delivery_witness:
  "filter (\<lambda>a. \<exists>st. a_response_status a = Some st \<and> 200 \<le> st \<and> st < 300) (attempts_of 3 solo_done) = [last (attempts_of 3 solo_done)]"
  using one_success_per_delivery [OF reachable_fine [OF solo_reachable [of demo_cfg]], of "demo_delivery Succeeded 2"]
  by (simp add: fine_of_def solo_done_def demo_db_def demo_delivery_def)

lemma run_fine:
  assumes "sys_run cfg u v"
  shows "fine_run cfg prompt (fine_of u) (fine_of v)"
  using assms unfolding sys_run_def
  by (induction rule: rtranclp_induct) (auto intro: fine_run_trans fine_system_step)

text \<open>
  C8. What becomes of the attempt of a worker that died after it had finished its claim, as long as no claim outlasts its lease:
  at every later moment the attempt has no response, and it is either closed as \<^verbatim>\<open>worker_lease_expired\<close>, or it is
  still the last attempt of its delivery, which is in flight with its number.  (A worker that dies between the two statements that record an attempt and mark the delivery leaves
  an attempt that nobody closes.)
\<close>

theorem abandoned_attempt_expires:
  assumes "fine_reachable cfg True u" "c \<in> set (fs_hands u)" "fine_run cfg True (u\<lparr>fs_hands := remove1 c (fs_hands u)\<rparr>) v"
  shows "\<exists>a\<in>set (attempts_of (c_deliveryId c) (fs_db v)). a_id a = c_attemptId c \<and>
    a_attempt_number a = c_attemptNumber c \<and> a_response_status a = None \<and>
    (a_error_class a = Some Worker_lease_expired \<or>
     a_error_class a = None \<and> a = last (attempts_of (c_deliveryId c) (fs_db v)) \<and>
       (\<exists>d\<in>set (deliveries (fs_db v)). d_id d = c_deliveryId c \<and> d_state d = In_flight \<and> d_attempt_count d = c_attemptNumber c))"
  using dead_claim_traced [OF assms] unfolding traced_def
proof
  assume "in_hand (fs_db v) c"
  then show ?thesis by (auto simp: in_hand_def newest_def attempt_open_def)
qed (auto simp: given_up_def)

theorem abandoned_attempt_expires_witness:
  "\<exists>a\<in>set (attempts_of 3 solo_done). a_id a = 5 \<and> a_response_status a = None \<and> a_error_class a = Some Worker_lease_expired"
proof -
  have run: "fine_run demo_cfg True ((fine_of demo_sys)\<lparr>fs_hands := remove1 demo_claim (fs_hands (fine_of demo_sys))\<rparr>)
      (fine_of \<lparr>s_db = solo_done, s_hands = []\<rparr>)"
    using run_fine [OF solo_run [of "[]" demo_cfg]] by (simp add: demo_sys_def fine_of_def)
  have "demo_claim \<in> set (fs_hands (fine_of demo_sys))" by (simp add: demo_sys_def fine_of_def)
  from abandoned_attempt_expires [OF reachable_fine [OF demo_reachable] this run]
  show ?thesis by (auto simp: fine_of_def demo_claim_def solo_done_def demo_db_def demo_delivery_def)
qed

text \<open>The numbers of the attempts of a delivery.\<close>

lemma attempt_numbers:
  assumes "fine_reachable cfg True u" "d \<in> set (deliveries (fs_db u))"
  shows "sorted (numbers_of (d_id d) (fs_db u)) \<and> {1..d_attempt_count d} \<subseteq> set (numbers_of (d_id d) (fs_db u)) \<and>
    set (numbers_of (d_id d) (fs_db u)) \<subseteq> {1..Suc (d_attempt_count d)}"
  using guarded_parts(6) [OF assms] by (simp add: numbers_of_row_def)

end
