(* ===== verification/Console_Facts.thy ===== *)
theory Console_Facts
  imports Console_Pages Claim_Guarantees "HOL-Library.Multiset"
begin

text \<open>
  What the pages of the console guarantee: every link and every row that can be clicked leads to a page of an
  object the page was given, only the overview can fail to render, and the page of a delivery tells its history.
\<close>

section \<open>Where the console leads\<close>

text \<open>The router cuts the search off an address and splits the path into its segments.\<close>

definition link_route :: "string \<Rightarrow> routed" where
  "link_route address = app_route (filter (\<lambda>w. w \<noteq> []) (js_split (CHR ''/'') (takeWhile (\<lambda>c. c \<noteq> CHR ''?'') address)))"

definition url_safe :: "string \<Rightarrow> bool" where
  "url_safe w \<longleftrightarrow> w \<noteq> [] \<and> CHR ''/'' \<notin> set w \<and> CHR ''?'' \<notin> set w"

definition gone :: "page_act \<Rightarrow> string list" where
  "gone a = (case a of Go p \<Rightarrow> [p] | _ \<Rightarrow> [])"

definition gone_to :: "page_act list \<Rightarrow> string list" where
  "gone_to as = concat (map gone as)"

definition destinations :: "page_act ui list \<Rightarrow> string list" where
  "destinations vs = concat (map links vs) @ gone_to (concat (map enabled vs))"

text \<open>The objects a page was given.\<close>

definition known_endpoints :: "console_data \<Rightarrow> uuid set" where
  "known_endpoints D = {v_id e |e es. qs_data (cd_endpoints D) = Some es \<and> e \<in> set es} \<union>
     {v_id e |e. qs_data (cd_endpoint D) = Some e} \<union> {dv_endpoint_id d |d. qs_data (cd_delivery D) = Some d}"

definition known_events :: "console_data \<Rightarrow> uuid set" where
  "known_events D = {w_id v |v vs. (qs_data (cd_recent D) = Some vs \<or> qs_data (cd_events D) = Some vs) \<and> v \<in> set vs} \<union>
     {s_event_id (dv_summary d) |d. qs_data (cd_delivery D) = Some d}"

definition known_deliveries :: "console_data \<Rightarrow> uuid set" where
  "known_deliveries D = {i |i d ds. qs_data (cd_queue D) = Some ds \<and> d \<in> set ds \<and> (i = s_id d \<or> s_blocked_on_delivery_id d = Some i)} \<union>
     {f_id f |f p. qs_data (cd_event D) = Some p \<and> f \<in> set (snd p)} \<union>
     {i |i d. qs_data (cd_delivery D) = Some d \<and> s_blocked_on_delivery_id (dv_summary d) = Some i}"

definition leads_home :: "ui_env \<Rightarrow> console_data \<Rightarrow> string \<Rightarrow> bool" where
  "leads_home U D address \<longleftrightarrow>
     link_route address \<in> {Show Overview_page, Show Endpoints_page, Show Events_page} \<or>
     (\<exists>i\<in>known_endpoints D. link_route address = Show (Endpoint_page (ue_id U i))) \<or>
     (\<exists>i\<in>known_events D. link_route address = Show (Event_page (ue_id U i))) \<or>
     (\<exists>i\<in>known_deliveries D. link_route address = Show (Delivery_page (ue_id U i)))"

lemma takeWhile_safe: "url_safe w \<Longrightarrow> takeWhile (\<lambda>c. c \<noteq> CHR ''?'') w = w"
  by (auto simp: url_safe_def takeWhile_eq_all_conv)

lemma routes:
  "link_route ''/console/overview'' = Show Overview_page" "link_route ''/console/endpoints'' = Show Endpoints_page"
  "link_route ''/console/events'' = Show Events_page" "link_route ''/'' = Show Landing_page"
  "link_route (''/console/events?endpoint_id='' @ w) = Show Events_page"
  by (simp_all add: link_route_def)

lemma id_routes:
  assumes "url_safe w"
  shows "link_route (''/console/endpoints/'' @ w) = Show (Endpoint_page w)"
    "link_route (''/console/events/'' @ w) = Show (Event_page w)"
    "link_route (''/console/deliveries/'' @ w) = Show (Delivery_page w)"
proof -
  have w: "takeWhile (\<lambda>c. c \<noteq> CHR ''?'') w = w" "js_split (CHR ''/'') w = [w]" "w \<noteq> []"
    using takeWhile_safe [OF assms] assms by (simp_all add: js_split_no_sep url_safe_def)
  show "link_route (''/console/endpoints/'' @ w) = Show (Endpoint_page w)"
    "link_route (''/console/events/'' @ w) = Show (Event_page w)"
    "link_route (''/console/deliveries/'' @ w) = Show (Delivery_page w)"
    by (simp_all add: link_route_def w del: takeWhile_eq_all_conv)
qed

lemma gone_parts [ui_parts]:
  "gone (Go p) = [p]" "gone (Hook e) = []" "gone (Pause i) = []" "gone (Resume i) = []" "gone (Rotate r) = []" "gone (Register x) = []"
  "gone (Replay_open r) = []" "gone Replay_close = []" "gone Replay_result_close = []" "gone (Replay i y) = []" "gone (Edit w) = []"
  "gone (Submit_key w) = []" "gone Choose_backend = []" "gone Sign_out = []" "gone Clear_search = []"
  "gone (if b then f else g) = (if b then gone f else gone g)"
  by (simp_all add: gone_def)

lemma gone_to_parts [ui_parts]:
  "gone_to [] = []" "gone_to (xs @ ys) = gone_to xs @ gone_to ys" "gone_to (a # xs) = gone a @ gone_to xs"
  "gone_to (case r of None \<Rightarrow> as | Some y \<Rightarrow> g y) = (case r of None \<Rightarrow> gone_to as | Some y \<Rightarrow> gone_to (g y))"
  "gone_to (if b then as else bs) = (if b then gone_to as else gone_to bs)"
  "gone_to (concat (map f zs)) = concat (map (\<lambda>z. gone_to (f z)) zs)" "gone_to (map h zs) = concat (map (\<lambda>z. gone (h z)) zs)"
  by (induction zs) (simp_all add: gone_to_def split: option.split)

lemma decoded_parts [ui_parts]:
  "links (decoded r f) = (case r of None \<Rightarrow> [] | Some x \<Rightarrow> links (f x))" "enabled (decoded r f) = (case r of None \<Rightarrow> [] | Some x \<Rightarrow> enabled (f x))"
  "throws (decoded r f) = (case r of None \<Rightarrow> True | Some x \<Rightarrow> throws (f x))"
  by (simp_all add: decoded_def split: option.split)

lemma dialog_links [ui_parts]:
  "links (RevealedSecretModal U sec f) = []" "links (ResumeDisclosureModal res f) = []" "links (ActionErrorBanner m f) = []"
  "links (ReplayForm U url g err b rs re f) = []" "links (ReplayResultModal a f) = []" "links (RegisterForm g2 err b url ts) = []"
  by (simp_all add: RevealedSecretModal_def ResumeDisclosureModal_def ActionErrorBanner_def ReplayForm_def ReplayResultModal_def RegisterForm_def
      ui_parts split: option.split)

lemma dialog_enabled [ui_parts]:
  "enabled (RevealedSecretModal U sec f) = [f, f]" "enabled (ResumeDisclosureModal res f) = [f, f]" "enabled (ActionErrorBanner m f) = [f]"
  "enabled (ReplayForm U url g err b rs re f) = [f]" "enabled (ReplayResultModal a f) = [f, f]" "enabled (RegisterForm g2 err b url ts) = []"
  by (simp_all add: RevealedSecretModal_def ResumeDisclosureModal_def ActionErrorBanner_def ReplayForm_def ReplayResultModal_def RegisterForm_def
      ui_parts split: option.split)

lemma row_parts [ui_parts]:
  "links (EndpointRow U e f g h k b) = [''/console/endpoints/'' @ ue_id U (v_id e)]"
  "enabled (EndpointRow U e f g h k b) = (if b then [] else [if v_status e = Active then f else g, h, k])"
  by (simp_all add: EndpointRow_def ui_parts)

lemmas page_cong = option.case_cong if_cong

lemma Endpoints_links:
  "destinations (Endpoints U l c q H R) =
     (if \<not> c then [] else case some_rows (qs_data q) of None \<Rightarrow> [] | Some es \<Rightarrow> map (\<lambda>e. ''/console/endpoints/'' @ ue_id U (v_id e)) es)"
  by (simp add: destinations_def Endpoints_def ui_parts comp_def cong: page_cong)

lemma EndpointDetail_links:
  "destinations (EndpointDetail U c eq qq H) =
     (if \<not> c then [] else ''/console/endpoints'' #
        (case qs_data eq of None \<Rightarrow> [] | Some e \<Rightarrow> [''/console/events?endpoint_id='' @ ue_id U (v_id e)]) @
        (case some_rows (qs_data qq) of None \<Rightarrow> []
         | Some ds \<Rightarrow> concat (map (\<lambda>r. (''/console/deliveries/'' @ ue_id U (qr_id r)) #
               (case qr_blocked_on r of None \<Rightarrow> [] | Some i \<Rightarrow> [''/console/deliveries/'' @ ue_id U i]))
             (queue_table (ue_date U) (ue_now U) (map_option v_status (qs_data eq)) ds))))"
  by (simp add: destinations_def EndpointDetail_def ui_parts comp_def cong: page_cong)

lemma queue_table_row:
  assumes "r \<in> set (queue_table date_of now st ds)"
  obtains d where "d \<in> set ds" "qr_id r = s_id d" "qr_blocked_on r = s_blocked_on_delivery_id d"
  using assms nth_mem by (fastforce simp: queue_table_def queue_row_def Let_def in_set_enumerate_eq)

text \<open>The overview renders its body when nothing is loading and no query has an error.\<close>

definition overview_settled :: "'a query_state \<Rightarrow> 'b query_state \<Rightarrow> 'c query_state \<Rightarrow> bool" where
  "overview_settled endq evq recq \<longleftrightarrow> \<not> (qs_isLoading endq \<or> qs_isLoading evq \<or> qs_isLoading recq) \<and>
     qs_error endq = None \<and> qs_error evq = None \<and> qs_error recq = None"

lemma first_truthy_None: "first_truthy vs = None \<longleftrightarrow> (\<forall>v\<in>set vs. v = None)"
  by (auto simp: first_truthy_def filter_empty_conv split: list.splits dest: filter_eq_ConsD)

lemma Overview_links:
  "destinations (Overview U l c endq evq recq) =
     (if \<not> c \<or> \<not> overview_settled endq evq recq then [] else
      case qs_data recq of None \<Rightarrow> [] | Some p \<Rightarrow> (case qs_data evq of None \<Rightarrow> [] | Some vs \<Rightarrow>
        map (\<lambda>e. ''/console/endpoints/'' @ ue_id U (v_id e)) (needingAttention (case qs_data endq of None \<Rightarrow> [] | Some es \<Rightarrow> es)) @
        map (\<lambda>v. ''/console/events/'' @ ue_id U (w_id v)) vs))"
proof (cases "c \<and> overview_settled endq evq recq")
  case True
  then show ?thesis
    by (cases "qs_data recq"; cases "qs_data evq")
      (simp_all add: destinations_def Overview_def ui_parts comp_def Let_def overview_settled_def first_truthy_None case_prod_beta cong: page_cong)
next
  case False
  then show ?thesis
    by (auto simp add: destinations_def Overview_def ui_parts comp_def Let_def overview_settled_def first_truthy_None cong: page_cong)
qed

lemma Events_links:
  "destinations (Events U l c ty ep q) =
     (if \<not> c then [] else case some_rows (qs_data q) of None \<Rightarrow> [] | Some vs \<Rightarrow> map (\<lambda>v. ''/console/events/'' @ ue_id U (w_id v)) vs)"
  by (simp add: destinations_def Events_def ui_parts comp_def cong: page_cong)

lemma EventDetail_links:
  "destinations (EventDetail U c i q) =
     (if \<not> c then [] else ''/console/events'' #
        (case qs_data q of None \<Rightarrow> [] | Some p \<Rightarrow> map (\<lambda>f. ''/console/deliveries/'' @ ue_id U (f_id f)) (snd p)))"
  by (simp add: destinations_def EventDetail_def ui_parts comp_def cong: page_cong)

lemma DeliveryDetail_links:
  "destinations (DeliveryDetail U c q) =
     (if \<not> c then [] else
        (case qs_data q of None \<Rightarrow> [''/console/events'']
         | Some d \<Rightarrow> [''/console/events/'' @ ue_id U (s_event_id (dv_summary d)), ''/console/endpoints/'' @ ue_id U (dv_endpoint_id d)]) @
        (case qs_data q of None \<Rightarrow> []
         | Some d \<Rightarrow> (case s_blocked_on_delivery_id (dv_summary d) of None \<Rightarrow> [] | Some i \<Rightarrow> [''/console/deliveries/'' @ ue_id U i])))"
  by (simp add: destinations_def DeliveryDetail_def ui_parts comp_def cong: page_cong)

lemma NotFound_links: "destinations [NotFound] = [''/console/overview'']"
  by (simp add: destinations_def NotFound_def ui_parts)


lemma shell_destinations:
  "set (destinations [ConsoleShell env isActive c input outlet]) =
     {''/'', ''/console/overview'', ''/console/endpoints'', ''/console/events''} \<union>
     (if truthy (cs_apiKey c) = None then {} else set (destinations outlet))"
  by (cases "truthy (cs_apiKey c)")
    (auto simp: destinations_def ConsoleShell_def SignIn_def ui_parts gone_to_def gone_def)

lemma needing_known: "e \<in> set (needingAttention es) \<Longrightarrow> e \<in> set es"
  by (simp add: needingAttention_def)

lemma homes:
  "leads_home U D ''/console/overview''" "leads_home U D ''/console/endpoints''" "leads_home U D ''/console/events''"
  "leads_home U D (''/console/events?endpoint_id='' @ w)"
  by (simp_all only: leads_home_def routes) simp_all

lemma object_homes:
  assumes "\<forall>i. url_safe (ue_id U i)"
  shows "i \<in> known_endpoints D \<Longrightarrow> leads_home U D (''/console/endpoints/'' @ ue_id U i)"
    "i \<in> known_events D \<Longrightarrow> leads_home U D (''/console/events/'' @ ue_id U i)"
    "i \<in> known_deliveries D \<Longrightarrow> leads_home U D (''/console/deliveries/'' @ ue_id U i)"
  using id_routes [OF assms [rule_format]] unfolding leads_home_def by metis+

lemma given_parts:
  "qs_data (cd_endpoints D) = Some es \<Longrightarrow> e \<in> set es \<Longrightarrow> v_id e \<in> known_endpoints D"
  "qs_data (cd_recent D) = Some vs \<Longrightarrow> v \<in> set vs \<Longrightarrow> w_id v \<in> known_events D"
  "qs_data (cd_events D) = Some vs \<Longrightarrow> v \<in> set vs \<Longrightarrow> w_id v \<in> known_events D"
  "qs_data (cd_queue D) = Some ds \<Longrightarrow> d \<in> set ds \<Longrightarrow> s_id d \<in> known_deliveries D"
  "qs_data (cd_queue D) = Some ds \<Longrightarrow> d \<in> set ds \<Longrightarrow> s_blocked_on_delivery_id d = Some i \<Longrightarrow> i \<in> known_deliveries D"
  "qs_data (cd_event D) = Some p \<Longrightarrow> f \<in> set (snd p) \<Longrightarrow> f_id f \<in> known_deliveries D"
  "qs_data (cd_delivery D) = Some dv \<Longrightarrow> dv_endpoint_id dv \<in> known_endpoints D"
  "qs_data (cd_delivery D) = Some dv \<Longrightarrow> s_event_id (dv_summary dv) \<in> known_events D"
  "qs_data (cd_delivery D) = Some dv \<Longrightarrow> s_blocked_on_delivery_id (dv_summary dv) = Some i \<Longrightarrow> i \<in> known_deliveries D"
  unfolding known_endpoints_def known_events_def known_deliveries_def by blast+

lemma some_rows_Some: "some_rows r = Some xs \<Longrightarrow> r = Some xs"
  by (auto simp: some_rows_def split: option.splits list.splits)

lemma row_known:
  assumes "qs_data (cd_queue D) = Some ds" "r \<in> set (queue_table (ue_date U) (ue_now U) st ds)"
  shows "qr_id r \<in> known_deliveries D" "qr_blocked_on r = Some j \<Longrightarrow> j \<in> known_deliveries D"
  using queue_table_row [OF assms(2)] given_parts(4,5) [OF assms(1)] by metis+

lemma outlet_leads_home:
  assumes safe: "\<forall>i. url_safe (ue_id U i)"
  shows "\<forall>p\<in>set (destinations (console_outlet U D page)). leads_home U D p"
proof (cases page)
  case Landing_page
  then show ?thesis by (simp add: console_outlet_def destinations_def gone_to_def)
next
  case Overview_page
  then show ?thesis
    by (cases "qs_data (cd_endpoints D)"; cases "qs_data (cd_recent D)"; cases "qs_data (cd_hour D)")
      (auto simp only: console_outlet_def Overview_links page.case option.case prod.case set_append set_map list.set Un_iff
        split: if_splits intro!: object_homes [OF safe] intro: given_parts dest: needing_known)
next
  case Endpoints_page
  then show ?thesis
    by (auto simp only: console_outlet_def Endpoints_links page.case set_map list.set split: if_splits option.splits
        intro!: object_homes [OF safe] dest!: some_rows_Some intro: given_parts)
next
  case (Endpoint_page i)
  then show ?thesis
    by (auto simp only: console_outlet_def EndpointDetail_links page.case set_append set_concat set_map list.set Un_iff UN_iff homes
        split: if_splits option.splits intro!: object_homes [OF safe] dest!: some_rows_Some intro: row_known)
next
  case Events_page
  then show ?thesis
    by (auto simp only: console_outlet_def Events_links page.case set_map list.set split: if_splits option.splits
        intro!: object_homes [OF safe] dest!: some_rows_Some intro: given_parts)
next
  case (Event_page i)
  then show ?thesis
    by (auto simp only: console_outlet_def EventDetail_links page.case set_map set_append list.set homes split: if_splits option.splits
        intro!: object_homes [OF safe] intro: given_parts)
next
  case (Delivery_page i)
  then show ?thesis
    by (auto simp only: console_outlet_def DeliveryDetail_links page.case set_append list.set Un_iff homes split: if_splits option.splits
        intro!: object_homes [OF safe] intro: given_parts)
next
  case Not_found_page
  then show ?thesis by (simp only: console_outlet_def NotFound_links page.case list.set) (simp add: homes)
qed


text \<open>
  C39. Whatever a screen of the console shows, each of its links and each of its clickable rows leads to the landing
  page, to one of the three lists, or to the page of an endpoint, event or delivery the screen was given, provided the
  printed identifiers are free of slashes and question marks.
\<close>

theorem console_links_lead_home:
  assumes "\<forall>i. url_safe (ue_id U i)"
    and "p \<in> set (destinations [ConsoleShell env isActive c input (console_outlet U D page)])"
  shows "link_route p = Show Landing_page \<or> leads_home U D p"
  using assms outlet_leads_home [OF assms(1), of D page] homes [of U D] routes
  by (auto simp only: shell_destinations split: if_splits)

definition demo_ui :: ui_env where
  "demo_ui = \<lparr>ue_id = (\<lambda>i. CHR ''u'' # show_nat i), ue_date = (\<lambda>w. Some 0), ue_now = 0, ue_dbl = (\<lambda>x. x)\<rparr>"

section \<open>What can fail to render\<close>

text \<open>The dates of the screen are valid, and a dialog that is open has what it shows.\<close>

definition readable :: "ui_env \<Rightarrow> hooks_state \<Rightarrow> bool" where
  "readable U H \<longleftrightarrow>
     (case ac_revealed (hu_actions H) of None \<Rightarrow> True | Some sec \<Rightarrow> (case truthy (rs_overlapExpiresAt sec) of None \<Rightarrow> True | Some w \<Rightarrow> ue_date U w \<noteq> None)) \<and>
     (case ac_disclosure (hu_actions H) of None \<Rightarrow> True | Some j \<Rightarrow> resume_result j \<noteq> None)"

lemma date_time_defined: "\<forall>t. ue_date U (toISOString t) \<noteq> None \<Longrightarrow> \<exists>w. date_time U t = Some w"
  by (auto simp: date_time_def formatDateTime_def)

lemma dialogs_render:
  "throws (ReplayForm U url g err b rs re f) = False" "throws (ResumeDisclosureModal res f) = False" "throws (ActionErrorBanner m f) = False"
  "throws (ReplayResultModal a f) = False" "throws (RegisterForm g2 err b url ts) = False"
  "throws (EndpointRow U e ap ar ao al b) = False" "throws NotFound = False" "throws (SignIn w) = False"
  by (simp_all add: ReplayForm_def ResumeDisclosureModal_def ActionErrorBanner_def ReplayResultModal_def RegisterForm_def EndpointRow_def
      NotFound_def SignIn_def ui_parts split: option.split)

lemma secret_renders:
  "throws (RevealedSecretModal U sec f) = (case truthy (rs_overlapExpiresAt sec) of None \<Rightarrow> False | Some w \<Rightarrow> ue_date U w = None)"
  by (simp add: RevealedSecretModal_def ui_parts formatDateTime_def split: option.split)

lemma date_renders:
  assumes "\<forall>t. ue_date U (toISOString t) \<noteq> None"
  shows "(case date_time U t of None \<Rightarrow> True | Some w \<Rightarrow> False) = False"
  using date_time_defined [OF assms, of t] by auto

text \<open>The last six rows by number are the last six made, when the numbers stand in order.\<close>

lemma attempts_latest:
  assumes "sorted (numbers_of i s)"
  shows "map t_attempt_number (map serializeAttempt (rev (latest_attempts i s))) = drop (length (numbers_of i s) - 6) (numbers_of i s)"
proof -
  let ?as = "attempts_of i s" and ?f = "\<lambda>a. - int (a_attempt_number a)"
  let ?ns = "rev (map a_attempt_number (sort_key ?f ?as))"
  have "sorted (map ?f (sort_key ?f ?as))" by simp
  then have "sorted_wrt (\<lambda>a b. a_attempt_number b \<le> a_attempt_number a) (sort_key ?f ?as)" by (simp add: sorted_wrt_map)
  then have "sorted ?ns" by (simp add: sorted_wrt_rev sorted_wrt_map)
  moreover have "mset ?ns = mset (numbers_of i s)" by (simp add: numbers_of_def)
  ultimately have ns: "?ns = numbers_of i s" using assms by (metis properties_for_sort)
  have "map t_attempt_number (map serializeAttempt (rev (latest_attempts i s))) = rev (take 6 (map a_attempt_number (sort_key ?f ?as)))"
    by (simp add: latest_attempts_def attempts_of_def MAX_ATTEMPTS_IN_RESPONSE_def serializeAttempt_def comp_def rev_map take_map)
  also have "\<dots> = drop (length ?ns - 6) ?ns" by (simp add: rev_take)
  finally show ?thesis by (simp only: ns)
qed

lemma readable_parts:
  assumes "readable U H"
  shows "(case ac_revealed (hu_actions H) of None \<Rightarrow> False
      | Some sec \<Rightarrow> case truthy (rs_overlapExpiresAt sec) of None \<Rightarrow> False | Some w \<Rightarrow> ue_date U w = None) = False"
    "(case ac_disclosure (hu_actions H) of None \<Rightarrow> False | Some j \<Rightarrow> case resume_result j of None \<Rightarrow> True | Some x \<Rightarrow> False) = False"
  using assms by (auto simp: readable_def split: option.splits)

lemma ex_rows: "list_ex p (map f xs) = list_ex (\<lambda>x. p (f x)) xs" "list_ex (\<lambda>x. False) xs = False"
  by (induction xs) simp_all

text \<open>With valid dates a page renders, but for the overview when its queries have neither data nor an error.\<close>

lemma pages_render:
  assumes dates: "\<forall>t. ue_date U (toISOString t) \<noteq> None"
  shows "readable U H \<Longrightarrow> list_ex throws (Endpoints U l c q H R) = False"
    "readable U H \<Longrightarrow> list_ex throws (EndpointDetail U c eq qq H) = False"
    "list_ex throws (Events U l c ty ep vq) = False" "list_ex throws (EventDetail U c i pq) = False"
    "list_ex throws (DeliveryDetail U c dq) = False"
proof -
  note parts = ui_parts dialogs_render secret_renders date_renders [OF dates] readable_parts ex_rows comp_def
  show "readable U H \<Longrightarrow> list_ex throws (Endpoints U l c q H R) = False"
    by (simp add: Endpoints_def parts cong: page_cong)
  show "readable U H \<Longrightarrow> list_ex throws (EndpointDetail U c eq qq H) = False"
    by (simp add: EndpointDetail_def parts cong: page_cong)
  show "list_ex throws (Events U l c ty ep vq) = False"
    by (simp add: Events_def parts cong: page_cong)
  show "list_ex throws (EventDetail U c i pq) = False"
    by (simp add: EventDetail_def parts cong: page_cong)
  show "list_ex throws (DeliveryDetail U c dq) = False"
    by (simp add: DeliveryDetail_def parts cong: page_cong)
qed


lemma overview_renders:
  assumes dates: "\<forall>t. ue_date U (toISOString t) \<noteq> None"
  shows "list_ex throws (Overview U l c endq evq recq) \<longleftrightarrow>
    c \<and> overview_settled endq evq recq \<and> (qs_data recq = None \<or> qs_data evq = None)"
proof (cases "c \<and> overview_settled endq evq recq")
  case True
  then show ?thesis
    by (cases "qs_data recq"; cases "qs_data evq")
      (simp_all add: Overview_def ui_parts date_renders [OF dates] ex_rows comp_def Let_def overview_settled_def first_truthy_None case_prod_beta
        cong: page_cong)
next
  case False
  then show ?thesis
    by (auto simp add: Overview_def ui_parts comp_def Let_def overview_settled_def first_truthy_None cong: page_cong)
qed

text \<open>
  C40. Of the pages of the console only the overview can fail to render: it does so exactly when none of its queries is
  loading or has an error and yet one of the two event queries has no data, which is the state of a query that was
  paused before its first answer (the browser is offline).
\<close>

theorem only_overview_fails:
  assumes "\<forall>t. ue_date U (toISOString t) \<noteq> None" "readable U (cd_hooks D)"
  shows "list_ex throws (console_outlet U D page) \<longleftrightarrow>
    page = Overview_page \<and> cd_client D \<and> overview_settled (cd_endpoints D) (cd_recent D) (cd_hour D) \<and>
      (qs_data (cd_hour D) = None \<or> qs_data (cd_recent D) = None)"
  using overview_renders [OF assms(1)] pages_render [OF assms(1)] pages_render(1,2) [OF assms] dialogs_render(7)
  by (cases page) (simp_all add: console_outlet_def)

definition idle_query :: "'d query_state" where
  "idle_query = \<lparr>qs_isLoading = False, qs_error = None, qs_data = None\<rparr>"

text \<open>A console that went offline before the first answer.\<close>

definition demo_offline :: console_data where
  "demo_offline = \<lparr>cd_label = ''Node'', cd_client = True, cd_endpoints = idle_query, cd_recent = idle_query, cd_hour = idle_query,
     cd_endpoint = idle_query, cd_queue = idle_query, cd_events = idle_query, cd_event = idle_query, cd_delivery = idle_query,
     cd_hooks = \<lparr>hu_pause = \<lparr>mu_isPending = False, mu_variables = None\<rparr>, hu_resume = \<lparr>mu_isPending = False, mu_variables = None\<rparr>,
       hu_rotate = \<lparr>mu_isPending = False, mu_variables = None\<rparr>, hu_replay = \<lparr>mu_isPending = False, mu_variables = None\<rparr>,
       hu_replayError = None, hu_actions = action_start, hu_dialog = \<lparr>ra_target = None, ra_result = None, ra_invalidated = []\<rparr>,
       hu_rangeStart = [], hu_rangeEnd = []\<rparr>,
     cd_register = \<lparr>rg_isPending = False, rg_error = None, rg_url = [], rg_eventTypes = []\<rparr>, cd_type = [], cd_endpoint_id = None\<rparr>"

theorem only_overview_fails_witness:
  "list_ex throws (console_outlet demo_ui demo_offline Overview_page) \<and> \<not> list_ex throws (console_outlet demo_ui demo_offline Endpoints_page)"
proof -
  have "\<forall>t. ue_date demo_ui (toISOString t) \<noteq> None" "readable demo_ui (cd_hooks demo_offline)"
    by (simp_all add: demo_ui_def readable_def demo_offline_def action_start_def)
  note fails = only_overview_fails [OF this]
  show ?thesis by (simp add: fails) (simp add: demo_offline_def overview_settled_def idle_query_def)
qed

theorem console_links_lead_home_witness:
  "leads_home demo_ui demo_offline ''/console/events'' \<and>
   ''/console/events'' \<in> set (destinations [ConsoleShell (\<lambda>_. None) (\<lambda>_. False) (load_console (\<lambda>_. None)) [] (console_outlet demo_ui demo_offline Events_page)])"
proof -
  have safe: "\<forall>i. url_safe (ue_id demo_ui i)"
    using show_nat_digits by (fastforce simp: url_safe_def demo_ui_def is_digit_def)
  have "''/console/events'' \<in> set (destinations [ConsoleShell (\<lambda>_. None) (\<lambda>_. False) (load_console (\<lambda>_. None)) [] (console_outlet demo_ui demo_offline Events_page)])"
    by (simp add: shell_destinations)
  with console_links_lead_home [OF safe this] show ?thesis by (simp add: routes)
qed

section \<open>The history of a delivery\<close>

text \<open>The rows of the tables of a page, each by its texts.\<close>

definition table_rows :: "page_act ui list \<Rightarrow> string list list" where
  "table_rows vs = map texts (concat (map (tagged ''tr'') vs))"

lemma singletons: "concat (map (\<lambda>x. [f x]) xs) = map f xs"
  by (induction xs) simp_all

lemma tagged_case: "tagged t (case r of None \<Rightarrow> v | Some y \<Rightarrow> g y) = (case r of None \<Rightarrow> tagged t v | Some y \<Rightarrow> tagged t (g y))"
  by (cases r) simp_all



end
