(* ===== verification/Console_Queries.thy ===== *)
theory Console_Queries
  imports Console_Pages
begin

text \<open>
  The queries and mutations of the pages: what each \<^verbatim>\<open>useQuery\<close> of \<^verbatim>\<open>frontend/src/pages/console\<close> is keyed by and which
  call of the client fetches it, the call a mutation makes and the queries it invalidates.  Of TanStack Query the
  documented store is used: one entry per key, which outlives the page that asked for it, and an invalidation reaches
  the keys that start with the given one.
\<close>

section \<open>The queries of a page\<close>

text \<open>A part of a key is a string or null.\<close>

type_synonym query_key = "string option list"

record page_query =
  pq_key :: query_key
  pq_enabled :: bool
  pq_call :: api_call

definition backend_key :: "env \<Rightarrow> console \<Rightarrow> string" where
  "backend_key env c = backend_text (bo_id (current_backend env c))"

definition has_client :: "env \<Rightarrow> console \<Rightarrow> bool" where
  "has_client env c \<longleftrightarrow> useApiClient env c \<noteq> None"

definition limited :: "nat \<Rightarrow> page_params" where
  "limited n = \<lparr>pp_limit = Some n, pp_cursor = None\<rparr>"

definition latest_events :: "nat \<Rightarrow> string option \<Rightarrow> search_params" where
  "latest_events n since =
     \<lparr>pp_limit = Some n, pp_cursor = None, sp_id = None, sp_type = None, sp_endpoint_id = None, sp_from = since, sp_to = None\<rparr>"

definition ONE_HOUR_MS :: js_ms where
  "ONE_HOUR_MS = 60 * 60 * 1000"

definition Overview_queries :: "env \<Rightarrow> console \<Rightarrow> js_ms \<Rightarrow> page_query list" where
  "Overview_queries env c now =
     [\<lparr>pq_key = [Some ''endpoints'', Some (backend_key env c)], pq_enabled = has_client env c, pq_call = ListEndpoints (Some (limited 100))\<rparr>,
      \<lparr>pq_key = [Some ''events'', Some (backend_key env c), Some ''recent''], pq_enabled = has_client env c,
        pq_call = ListEvents (Some (latest_events 10 None))\<rparr>,
      \<lparr>pq_key = [Some ''events'', Some (backend_key env c), Some ''since-1h''], pq_enabled = has_client env c,
        pq_call = ListEvents (Some (latest_events 100 (Some (toISOString (now - ONE_HOUR_MS)))))\<rparr>]"

definition Endpoints_query :: "env \<Rightarrow> console \<Rightarrow> page_query" where
  "Endpoints_query env c =
     \<lparr>pq_key = [Some ''endpoints'', Some (backend_key env c)], pq_enabled = has_client env c, pq_call = ListEndpoints (Some (limited 100))\<rparr>"

definition EndpointDetail_queries :: "env \<Rightarrow> console \<Rightarrow> string \<Rightarrow> page_query list" where
  "EndpointDetail_queries env c i =
     [\<lparr>pq_key = [Some ''endpoints'', Some (backend_key env c), Some i], pq_enabled = (has_client env c \<and> i \<noteq> []), pq_call = GetEndpoint i\<rparr>,
      \<lparr>pq_key = [Some ''endpoint-deliveries'', Some (backend_key env c), Some i], pq_enabled = (has_client env c \<and> i \<noteq> []),
        pq_call = ListEndpointDeliveries i (Some (limited 50))\<rparr>]"

definition Events_query :: "env \<Rightarrow> console \<Rightarrow> string \<Rightarrow> string option \<Rightarrow> page_query" where
  "Events_query env c type endpointId =
     \<lparr>pq_key = [Some ''events'', Some (backend_key env c), Some type, endpointId], pq_enabled = has_client env c,
       pq_call = ListEvents (Some (events_search type endpointId))\<rparr>"

definition EventDetail_query :: "env \<Rightarrow> console \<Rightarrow> string \<Rightarrow> page_query" where
  "EventDetail_query env c i =
     \<lparr>pq_key = [Some ''event'', Some (backend_key env c), Some i], pq_enabled = (has_client env c \<and> i \<noteq> []), pq_call = GetEvent i\<rparr>"

definition DeliveryDetail_query :: "env \<Rightarrow> console \<Rightarrow> string \<Rightarrow> page_query" where
  "DeliveryDetail_query env c i =
     \<lparr>pq_key = [Some ''delivery'', Some (backend_key env c), Some i], pq_enabled = (has_client env c \<and> i \<noteq> []), pq_call = GetDelivery i\<rparr>"

text \<open>The queries a page mounts; \<open>sel\<close> is the filter of the events page.\<close>

definition page_queries :: "env \<Rightarrow> console \<Rightarrow> js_ms \<Rightarrow> string \<times> string option \<Rightarrow> page \<Rightarrow> page_query list" where
  "page_queries env c now sel p = (case p of
     Overview_page \<Rightarrow> Overview_queries env c now
   | Endpoints_page \<Rightarrow> [Endpoints_query env c]
   | Endpoint_page i \<Rightarrow> EndpointDetail_queries env c i
   | Events_page \<Rightarrow> [Events_query env c (fst sel) (snd sel)]
   | Event_page i \<Rightarrow> [EventDetail_query env c i]
   | Delivery_page i \<Rightarrow> [DeliveryDetail_query env c i]
   | _ \<Rightarrow> [])"

lemmas query_defs = page_queries_def Overview_queries_def Endpoints_query_def EndpointDetail_queries_def Events_query_def
  EventDetail_query_def DeliveryDetail_query_def

section \<open>Mutations\<close>

text \<open>The call of the client behind an action of a page; the key of a replay is a fresh one.\<close>

definition action_call :: "string \<Rightarrow> page_act \<Rightarrow> api_call option" where
  "action_call randomUUID a = (case a of
     Pause i \<Rightarrow> Some (PauseEndpoint i)
   | Resume i \<Rightarrow> Some (ResumeEndpoint i)
   | Rotate r \<Rightarrow> Some (RotateSecret (er_id r))
   | Register x \<Rightarrow> Some (RegisterEndpoint (fst x) (snd x))
   | Replay i r \<Rightarrow> Some (replay_call randomUUID i (fst r) (snd r))
   | _ \<Rightarrow> None)"

text \<open>The keys the two pages with actions hand to their hooks.\<close>

definition action_keys :: "env \<Rightarrow> console \<Rightarrow> page \<Rightarrow> query_key list" where
  "action_keys env c p = (case p of
     Endpoints_page \<Rightarrow> [[Some ''endpoints'', Some (backend_key env c)]]
   | Endpoint_page i \<Rightarrow> [[Some ''endpoints'', Some (backend_key env c), Some i], [Some ''endpoint-deliveries'', Some (backend_key env c), Some i]]
   | _ \<Rightarrow> [])"

definition invalidates :: "query_key \<Rightarrow> page_query \<Rightarrow> bool" where
  "invalidates k q \<longleftrightarrow> take (length k) (pq_key q) = k"

text \<open>An action refreshes its own page, and from the list also the page of every endpoint, but not the other way round.\<close>

lemma own_page_refreshed:
  assumes "q \<in> set (page_queries env c now sel p)" "action_keys env c p \<noteq> []"
  shows "\<exists>k\<in>set (action_keys env c p). invalidates k q"
  using assms by (auto simp: query_defs action_keys_def invalidates_def split: page.splits)

lemma list_refreshes_details:
  "\<exists>k\<in>set (action_keys env c Endpoints_page). invalidates k (hd (EndpointDetail_queries env c i))"
  "\<not> (\<exists>k\<in>set (action_keys env c (Endpoint_page i)). invalidates k (Endpoints_query env c))"
  by (simp_all add: query_defs action_keys_def invalidates_def)

section \<open>The store of the queries\<close>

lemma backend_key_inj: "backend_key env c = backend_key env c' \<longleftrightarrow> current_backend env c = current_backend env c'"
  by (cases "cs_backendId c"; cases "cs_backendId c'") (simp_all add: backend_key_def current_backend_def BACKENDS_def backend_text_def)



text \<open>
  A session: the console and the store.  Signing in and out and switching the backend leave the store alone, a reload
  of the page empties it, a mounted query that is enabled stores the answer to its call, and an entry that was not used
  for some minutes is dropped.
\<close>

record session =
  ss_console :: console
  ss_store :: "query_key \<rightharpoonup> json"

definition query_request :: "env \<Rightarrow> console \<Rightarrow> page_query \<Rightarrow> http_call option" where
  "query_request env c q = (case useApiClient env c of None \<Rightarrow> None | Some (base, key) \<Rightarrow> Some (call_request base key (pq_call q)))"

inductive session_step :: "env \<Rightarrow> (http_call \<Rightarrow> json option) \<Rightarrow> session \<Rightarrow> session \<Rightarrow> bool" for env api where
  se_sign_in: "session_step env api s (s\<lparr>ss_console := submit_sign_in input (ss_console s)\<rparr>)"
| se_sign_out: "session_step env api s (s\<lparr>ss_console := signOut (ss_console s)\<rparr>)"
| se_backend: "session_step env api s (s\<lparr>ss_console := setBackendId b (ss_console s)\<rparr>)"
| se_reload: "session_step env api s \<lparr>ss_console = load_console (cs_storage (ss_console s)), ss_store = (\<lambda>_. None)\<rparr>"
| se_fetch: "q \<in> set (page_queries env (ss_console s) now sel p) \<Longrightarrow> pq_enabled q \<Longrightarrow> query_request env (ss_console s) q = Some rq \<Longrightarrow>
    api rq = Some j \<Longrightarrow> session_step env api s (s\<lparr>ss_store := (ss_store s)(pq_key q \<mapsto> j)\<rparr>)"
| se_collect: "session_step env api s (s\<lparr>ss_store := (ss_store s)(k := None)\<rparr>)"

text \<open>What a page shows for a query before its call is answered.\<close>

definition shown :: "session \<Rightarrow> page_query \<Rightarrow> json option" where
  "shown s q = ss_store s (pq_key q)"

lemma signed_in_as: "js_trim input \<noteq> [] \<Longrightarrow> cs_apiKey (submit_sign_in input c) = Some (js_trim input) \<and> cs_backendId (submit_sign_in input c) = cs_backendId c"
  by (simp add: submit_sign_in_def signIn_def Let_def)

text \<open>
  C26. The keys of the queries do not name the tenant and nothing empties the store on sign-out: what a page has fetched
  is still shown on it after signing out and signing in with another key, although the query is now asked with that key.
\<close>

theorem other_tenant_shown:
  assumes signed_in: "useApiClient env (ss_console s) \<noteq> None" and q: "q \<in> set (page_queries env (ss_console s) now sel p)"
    and fetched: "shown s q = Some j" and input: "js_trim input \<noteq> []"
  shows "\<exists>s1 s2. session_step env api s s1 \<and> session_step env api s1 s2 \<and> ss_console s2 = submit_sign_in input (signOut (ss_console s)) \<and>
    q \<in> set (page_queries env (ss_console s2) now sel p) \<and> shown s2 q = Some j \<and>
    (\<exists>rq. query_request env (ss_console s2) q = Some rq \<and> map_of (hc_headers rq) ''authorization'' = Some (''Bearer '' @ js_trim input))"
proof -
  let ?s1 = "s\<lparr>ss_console := signOut (ss_console s)\<rparr>"
  let ?c2 = "submit_sign_in input (signOut (ss_console s))"
  let ?s2 = "?s1\<lparr>ss_console := ?c2\<rparr>"
  have c2: "cs_apiKey ?c2 = Some (js_trim input)" "cs_backendId ?c2 = cs_backendId (ss_console s)"
    using signed_in_as [OF input] by (simp_all add: signOut_def)
  have backend: "current_backend env ?c2 = current_backend env (ss_console s)" by (simp add: current_backend_def c2)
  have client: "useApiClient env ?c2 = Some (bo_baseUrl (current_backend env ?c2), js_trim input)" by (simp add: useApiClient_def c2 input)
  have "backend_key env ?c2 = backend_key env (ss_console s)" "has_client env ?c2 = has_client env (ss_console s)"
    using signed_in by (simp_all add: backend_key_def backend has_client_def client)
  then have "q \<in> set (page_queries env ?c2 now sel p)" using q by (simp add: query_defs split: page.splits)
  moreover have "shown ?s2 q = Some j" using fetched by (simp add: shown_def)
  moreover have "\<exists>rq. query_request env ?c2 q = Some rq \<and> map_of (hc_headers rq) ''authorization'' = Some (''Bearer '' @ js_trim input)"
    by (simp add: query_request_def client call_authorization)
  moreover have "session_step env api s ?s1" by (rule se_sign_out)
  moreover have "session_step env api ?s1 ?s2" using se_sign_in [of env api ?s1 input] by simp
  ultimately show ?thesis by (intro exI [of _ ?s1] exI [of _ ?s2]) simp
qed

definition demo_session :: session where
  "demo_session =
     (let c = submit_sign_in ''tenant_1'' (load_console (\<lambda>_. None))
      in \<lparr>ss_console = c, ss_store = [pq_key (Endpoints_query (\<lambda>_. None) c) \<mapsto> JArr []]\<rparr>)"

theorem other_tenant_shown_witness:
  "\<exists>s q. cs_apiKey (ss_console s) = Some ''tenant_2'' \<and> q \<in> set (page_queries (\<lambda>_. None) (ss_console s) 0 ([], None) Endpoints_page) \<and>
     shown s q = shown demo_session q \<and> shown demo_session q \<noteq> None \<and> cs_apiKey (ss_console demo_session) = Some ''tenant_1''"
proof -
  let ?q = "Endpoints_query (\<lambda>_. None) (ss_console demo_session)"
  have t1: "cs_apiKey (ss_console demo_session) = Some ''tenant_1''" by code_simp
  have q: "?q \<in> set (page_queries (\<lambda>_. None) (ss_console demo_session) 0 ([], None) Endpoints_page)" by (simp add: page_queries_def)
  have stored: "shown demo_session ?q = Some (JArr [])" by (simp add: shown_def demo_session_def Let_def)
  have trim: "js_trim ''tenant_2'' = ''tenant_2''" by code_simp
  have "useApiClient (\<lambda>_. None) (ss_console demo_session) \<noteq> None" by (simp add: useApiClient_def t1)
  from other_tenant_shown [OF this q stored, of "''tenant_2''" "\<lambda>_. None"] trim
  obtain s where "ss_console s = submit_sign_in ''tenant_2'' (signOut (ss_console demo_session))"
    "?q \<in> set (page_queries (\<lambda>_. None) (ss_console s) 0 ([], None) Endpoints_page)" "shown s ?q = Some (JArr [])" by auto
  with stored t1 trim signed_in_as [of "''tenant_2''" "signOut (ss_console demo_session)"] show ?thesis
    by (intro exI [of _ s] exI [of _ ?q]) simp
qed

end
