(* ===== verification/Landing_Pipeline.thy ===== *)
theory Landing_Pipeline
  imports Console_Markup "HOL-Library.Signed_Division"
begin

text \<open>
  The animated diagram of \<^verbatim>\<open>frontend/src/pages/Landing.tsx\<close>: its layout, the path of a packet through it and the state
  of the component.  Positions are percentages and the clock is a number of stages; both are rationals here, so the
  rounding of a double is left out.  \<^verbatim>\<open>Math.hypot\<close> and \<^verbatim>\<open>Math.sin\<close> are parameters.
\<close>

section \<open>Constants and layout\<close>

datatype runtime = Node | Go_runtime

datatype band = Band_1K | Band_10K | Band_1M

definition RUNTIMES :: "runtime list" where
  "RUNTIMES = [Node, Go_runtime]"

definition BANDS :: "band list" where
  "BANDS = [Band_1K, Band_10K, Band_1M]"

definition runtime_text :: "runtime \<Rightarrow> string" where
  "runtime_text r = (case r of Node \<Rightarrow> ''Node'' | Go_runtime \<Rightarrow> ''Go'')"

definition band_text :: "band \<Rightarrow> string" where
  "band_text b = (case b of Band_1K \<Rightarrow> ''1K'' | Band_10K \<Rightarrow> ''10K'' | Band_1M \<Rightarrow> ''1M+'')"

text \<open>The milliseconds as they are printed.\<close>

definition PUBLISH_P99_MS :: "runtime \<Rightarrow> band \<Rightarrow> string" where
  "PUBLISH_P99_MS r b = (case r of
     Node \<Rightarrow> (case b of Band_1K \<Rightarrow> ''37.3'' | Band_10K \<Rightarrow> ''7.7'' | Band_1M \<Rightarrow> ''2.6'')
   | Go_runtime \<Rightarrow> (case b of Band_1K \<Rightarrow> ''27.7'' | Band_10K \<Rightarrow> ''1.6'' | Band_1M \<Rightarrow> ''3.2''))"

definition LANDING_WORKER_COUNT :: nat where
  "LANDING_WORKER_COUNT = 3"

definition SCENARIOS :: "(string \<times> string) list" where
  "SCENARIOS =
     [(''Steady state'', ''Events publish and expand continuously; nothing is failing.''),
      (''Noisy neighbor'', ''One tenant floods 20 endpoints at once; a quiet tenant'' @ apostrophe @ ''s own deliveries stay fast (real result: p99 226ms Node / 127ms Go '' @
          em_dash @ '' see Results below).''),
      (''Worker crash'', ''A worker is killed mid-delivery. Another worker resumes the claim '' @ em_dash @ '' the event still reaches exactly one outcome.''),
      (''Partition drains'', ''The head of an endpoint'' @ apostrophe @ ''s queue is blocked on a stuck delivery; it clears, then the rest of the queue drains in order.''),
      (''Tarpit fairness'', ''A slow-to-respond receiver holds only its own queue back '' @ em_dash @ '' other endpoints keep moving.''),
      (''Replay'', ''A past time window is re-delivered by inserting new rows into the same per-endpoint queue as live traffic.'')]"

record box =
  bx_left :: rat
  bx_top :: rat
  bx_width :: rat
  bx_height :: rat

record pipeline_node =
  pn_id :: string
  pn_label :: string
  pn_sub :: string
  pn_box :: box

definition node :: "string \<Rightarrow> string \<Rightarrow> string \<Rightarrow> rat \<Rightarrow> rat \<Rightarrow> rat \<Rightarrow> rat \<Rightarrow> pipeline_node" where
  "node i label sub x y w h =
     \<lparr>pn_id = i, pn_label = label, pn_sub = sub, pn_box = \<lparr>bx_left = x, bx_top = y, bx_width = w, bx_height = h\<rparr>\<rparr>"

definition PIPELINE_NODES :: "pipeline_node list" where
  "PIPELINE_NODES =
     [node ''publisher'' ''Publisher'' ''internal service'' 0 42.55 9.52 17.87,
      node ''api'' ''API process'' (''POST /events '' @ right_arrow @ '' 202'') 13.39 42.55 12.26 17.87,
      node ''events'' ''events'' ''status = pending_expansion'' 31.61 15.74 20.97 19.57,
      node ''expansion'' ''Expansion loop'' ''advisory lock / tenant'' 58.55 15.74 13.87 19.57,
      node ''deliveries'' ''deliveries'' ''one row per (event, endpoint)'' 31.61 64.26 20.97 19.57,
      node ''delivery-loop'' ''Delivery loop'' (show_nat LANDING_WORKER_COUNT @ '' workers, FOR UPDATE SKIP LOCKED'') 58.55 64.26 13.87 19.57]"

definition RECEIVER_LEFT :: rat where
  "RECEIVER_LEFT = 76.29"

definition RECEIVER_WIDTH :: rat where
  "RECEIVER_WIDTH = 23.71"

definition RECEIVER_HEIGHT :: rat where
  "RECEIVER_HEIGHT = 24.68"

record receiver_card =
  rv_name :: string
  rv_url :: string
  rv_top :: rat

definition RECEIVERS :: "receiver_card list" where
  "RECEIVERS =
     [\<lparr>rv_name = ''Billing service'', rv_url = ''https://billing.example.com/hooks'', rv_top = 5.96\<rparr>,
      \<lparr>rv_name = ''Inventory sync'', rv_url = ''https://inventory.example.com/hooks'', rv_top = 37.45\<rparr>,
      \<lparr>rv_name = ''Analytics pipe'', rv_url = ''https://analytics.example.com/hooks'', rv_top = 68.94\<rparr>]"

definition TICK_MS :: rat where
  "TICK_MS = 900"

definition FRAME_MS :: rat where
  "FRAME_MS = 60"

definition TOTAL_STAGES :: nat where
  "TOTAL_STAGES = length PIPELINE_NODES + 1"

definition BAND_MULTIPLIER :: "band \<Rightarrow> nat" where
  "BAND_MULTIPLIER b = (case b of Band_1K \<Rightarrow> 1 | Band_10K \<Rightarrow> 3 | Band_1M \<Rightarrow> 9)"

section \<open>Points and wires\<close>

record point =
  pt_x :: rat
  pt_y :: rat

definition boxCenter :: "box \<Rightarrow> point" where
  "boxCenter b = \<lparr>pt_x = bx_left b + bx_width b / 2, pt_y = bx_top b + bx_height b / 2\<rparr>"

definition rightEdge :: "box \<Rightarrow> point" where
  "rightEdge b = \<lparr>pt_x = bx_left b + bx_width b, pt_y = bx_top b + bx_height b / 2\<rparr>"

definition leftEdge :: "box \<Rightarrow> point" where
  "leftEdge b = \<lparr>pt_x = bx_left b, pt_y = bx_top b + bx_height b / 2\<rparr>"

definition bottomEdge :: "box \<Rightarrow> point" where
  "bottomEdge b = \<lparr>pt_x = bx_left b + bx_width b / 2, pt_y = bx_top b + bx_height b\<rparr>"

definition receiverBox :: "nat \<Rightarrow> box" where
  "receiverBox receiverIndex =
     \<lparr>bx_left = RECEIVER_LEFT, bx_top = rv_top (RECEIVERS ! receiverIndex), bx_width = RECEIVER_WIDTH, bx_height = RECEIVER_HEIGHT\<rparr>"

definition receiverCenter :: "nat \<Rightarrow> point" where
  "receiverCenter receiverIndex = boxCenter (receiverBox receiverIndex)"

definition lerp :: "point \<Rightarrow> point \<Rightarrow> rat \<Rightarrow> point" where
  "lerp a b t = \<lparr>pt_x = pt_x a + (pt_x b - pt_x a) * t, pt_y = pt_y a + (pt_y b - pt_y a) * t\<rparr>"

definition elbowH :: "point \<Rightarrow> point \<Rightarrow> point list" where
  "elbowH a b = (let midX = (pt_x a + pt_x b) / 2 in [a, \<lparr>pt_x = midX, pt_y = pt_y a\<rparr>, \<lparr>pt_x = midX, pt_y = pt_y b\<rparr>, b])"

definition elbowV :: "point \<Rightarrow> point \<Rightarrow> point list" where
  "elbowV a b = (let midY = (pt_y a + pt_y b) / 2 in [a, \<lparr>pt_x = pt_x a, pt_y = midY\<rparr>, \<lparr>pt_x = pt_x b, pt_y = midY\<rparr>, b])"

text \<open>The destructured list.\<close>

definition publisherBox :: box where
  "publisherBox = pn_box (PIPELINE_NODES ! 0)"

definition apiBox :: box where
  "apiBox = pn_box (PIPELINE_NODES ! 1)"

definition eventsBox :: box where
  "eventsBox = pn_box (PIPELINE_NODES ! 2)"

definition expansionBox :: box where
  "expansionBox = pn_box (PIPELINE_NODES ! 3)"

definition deliveriesBox :: box where
  "deliveriesBox = pn_box (PIPELINE_NODES ! 4)"

definition deliveryLoopBox :: box where
  "deliveryLoopBox = pn_box (PIPELINE_NODES ! 5)"

datatype arrow = No_arrow | End_arrow | Both_arrows

record wire =
  wr_points :: "point list"
  wr_dashed :: bool
  wr_arrow :: arrow

definition WIRES :: "wire list" where
  "WIRES =
     [\<lparr>wr_points = [rightEdge publisherBox, leftEdge apiBox], wr_dashed = False, wr_arrow = No_arrow\<rparr>,
      \<lparr>wr_points = elbowH (rightEdge apiBox) (leftEdge eventsBox), wr_dashed = False, wr_arrow = No_arrow\<rparr>,
      \<lparr>wr_points = [rightEdge eventsBox, leftEdge expansionBox], wr_dashed = True, wr_arrow = End_arrow\<rparr>,
      \<lparr>wr_points = elbowV (bottomEdge expansionBox) (rightEdge deliveriesBox), wr_dashed = True, wr_arrow = End_arrow\<rparr>,
      \<lparr>wr_points = [rightEdge deliveriesBox, leftEdge deliveryLoopBox], wr_dashed = True, wr_arrow = Both_arrows\<rparr>] @
     map (\<lambda>i. \<lparr>wr_points = elbowH (rightEdge deliveryLoopBox) (leftEdge (receiverBox i)), wr_dashed = False, wr_arrow = End_arrow\<rparr>)
       [0..<length RECEIVERS]"

definition HOP_PATHS :: "point list list" where
  "HOP_PATHS =
     [[boxCenter publisherBox] @ wr_points (WIRES ! 0) @ [boxCenter apiBox],
      [boxCenter apiBox] @ wr_points (WIRES ! 1) @ [boxCenter eventsBox],
      [boxCenter eventsBox] @ wr_points (WIRES ! 2) @ [boxCenter expansionBox],
      [boxCenter expansionBox] @ wr_points (WIRES ! 3) @ [boxCenter deliveriesBox],
      [boxCenter deliveriesBox] @ wr_points (WIRES ! 4) @ [boxCenter deliveryLoopBox]]"

definition receiverHopPoints :: "nat \<Rightarrow> point list" where
  "receiverHopPoints receiverIndex =
     (let wire = elbowH (rightEdge deliveryLoopBox) (leftEdge (receiverBox receiverIndex))
      in [boxCenter deliveryLoopBox] @ wire @ [receiverCenter receiverIndex])"

section \<open>Packets\<close>

fun segLengths :: "(rat \<Rightarrow> rat \<Rightarrow> rat) \<Rightarrow> point list \<Rightarrow> rat list" where
  "segLengths hypot (a # b # ps) = hypot (pt_x b - pt_x a) (pt_y b - pt_y a) # segLengths hypot (b # ps)"
| "segLengths hypot ps = []"

text \<open>The loop over the segments.\<close>

fun along :: "point list \<Rightarrow> rat list \<Rightarrow> rat \<Rightarrow> point" where
  "along (a # b # ps) (len # ls) remaining =
     (if remaining \<le> len \<or> ls = [] then lerp a b (if len = 0 then 0 else remaining / len)
      else along (b # ps) ls (remaining - len))"
| "along ps ls remaining = last ps"

definition pointAlongPath :: "(rat \<Rightarrow> rat \<Rightarrow> rat) \<Rightarrow> point list \<Rightarrow> rat \<Rightarrow> point" where
  "pointAlongPath hypot points t =
     (let total = sum_list (segLengths hypot points)
      in if total = 0 then hd points else along points (segLengths hypot points) (min 1 (max 0 t) * total))"

record packet_state =
  pk_stageIndex :: int
  pk_receiverIndex :: int
  pk_point :: point

text \<open>\<open>smod\<close> is the remainder of JavaScript, with the sign of the dividend.\<close>

definition packetState :: "(rat \<Rightarrow> rat \<Rightarrow> rat) \<Rightarrow> rat \<Rightarrow> packet_state" where
  "packetState hypot p =
     (let stageIndex = \<lfloor>p\<rfloor> smod int TOTAL_STAGES;
          lap = \<lfloor>p / of_nat TOTAL_STAGES\<rfloor>;
          receiverIndex = (lap smod int (length RECEIVERS) + int (length RECEIVERS)) smod int (length RECEIVERS);
          t = (if stageIndex < int (length PIPELINE_NODES) then p - of_int \<lfloor>p\<rfloor> else 0);
          point =
            (if stageIndex < int (length HOP_PATHS) then pointAlongPath hypot (HOP_PATHS ! nat stageIndex) t
             else if stageIndex = int (length PIPELINE_NODES) - 1 then pointAlongPath hypot (receiverHopPoints (nat receiverIndex)) t
             else receiverCenter (nat receiverIndex))
      in \<lparr>pk_stageIndex = stageIndex, pk_receiverIndex = receiverIndex, pk_point = point\<rparr>)"

section \<open>The component\<close>

record diagram =
  dg_runtime :: runtime
  dg_band :: band
  dg_scenarioIndex :: nat
  dg_playing :: bool
  dg_progress :: rat
  dg_published :: nat
  dg_delivered :: nat
  dg_tickCount :: nat

definition bandMultiplier :: "diagram \<Rightarrow> nat" where
  "bandMultiplier st = BAND_MULTIPLIER (dg_band st)"

definition stage_index :: "diagram \<Rightarrow> int" where
  "stage_index st = \<lfloor>dg_progress st\<rfloor> smod int TOTAL_STAGES"

text \<open>The interval of the clock, the tick of a stage crossing and the reset of a new selection.\<close>

definition frame :: "diagram \<Rightarrow> diagram" where
  "frame st = st\<lparr>dg_progress := dg_progress st + FRAME_MS / TICK_MS * of_nat (bandMultiplier st)\<rparr>"

definition tick :: "diagram \<Rightarrow> diagram" where
  "tick st = st\<lparr>dg_tickCount := dg_tickCount st + 1, dg_published := dg_published st + bandMultiplier st,
     dg_delivered := dg_delivered st + max 0 (bandMultiplier st - 1)\<rparr>"

definition reset_counters :: "diagram \<Rightarrow> diagram" where
  "reset_counters st = st\<lparr>dg_published := 0, dg_delivered := 0, dg_progress := 0\<rparr>"

definition selection :: "diagram \<Rightarrow> runtime \<times> band \<times> nat" where
  "selection st = (dg_runtime st, dg_band st, dg_scenarioIndex st)"

text \<open>
  After a render the effects whose dependencies changed run in their order; what they set is rendered again, and the
  second round can only be a tick, for the selection is the same.
\<close>

definition effects :: "diagram \<Rightarrow> diagram \<Rightarrow> diagram" where
  "effects prev st =
     (let st1 = (if stage_index st \<noteq> stage_index prev then tick st else st)
      in if selection st \<noteq> selection prev then reset_counters st1 else st1)"

definition commit :: "diagram \<Rightarrow> diagram \<Rightarrow> diagram" where
  "commit prev st = (let st' = effects prev st in effects st st')"

definition diagram_open :: diagram where
  "diagram_open = reset_counters (tick \<lparr>dg_runtime = Node, dg_band = Band_10K, dg_scenarioIndex = 0, dg_playing = True, dg_progress = 0,
     dg_published = 0, dg_delivered = 0, dg_tickCount = 0\<rparr>)"

definition findIndex :: "('a \<Rightarrow> bool) \<Rightarrow> 'a list \<Rightarrow> nat option" where
  "findIndex P xs = find (\<lambda>i. P (xs ! i)) [0..<length xs]"

datatype diagram_event = Frame | Pick_runtime runtime | Pick_band band | Pick_scenario string | Play_pause

text \<open>Frames come while the diagram plays; a label that is none of the options is not offered.\<close>

definition diagram_set :: "diagram_event \<Rightarrow> diagram \<Rightarrow> diagram" where
  "diagram_set ev st = (case ev of
     Frame \<Rightarrow> if dg_playing st then frame st else st
   | Pick_runtime r \<Rightarrow> st\<lparr>dg_runtime := r\<rparr>
   | Pick_band b \<Rightarrow> st\<lparr>dg_band := b\<rparr>
   | Pick_scenario label \<Rightarrow>
       (case findIndex (\<lambda>s. fst s = label) SCENARIOS of None \<Rightarrow> st | Some i \<Rightarrow> st\<lparr>dg_scenarioIndex := i\<rparr>)
   | Play_pause \<Rightarrow> st\<lparr>dg_playing := \<not> dg_playing st\<rparr>)"

definition diagram_step :: "diagram_event \<Rightarrow> diagram \<Rightarrow> diagram" where
  "diagram_step ev st = commit st (diagram_set ev st)"

text \<open>What the statistics and the boxes show.\<close>

definition queueDepth :: "(rat \<Rightarrow> rat) \<Rightarrow> diagram \<Rightarrow> int" where
  "queueDepth sin_of st =
     max 0 (js_Math_round (of_nat (bandMultiplier st) * 3 + sin_of (of_nat (dg_tickCount st) / 2) * of_nat (bandMultiplier st)))"

definition inFlight :: "diagram \<Rightarrow> nat" where
  "inFlight st = 1 + dg_tickCount st mod LANDING_WORKER_COUNT"

definition packetCount :: "diagram \<Rightarrow> nat" where
  "packetCount st = bandMultiplier st * 12"

definition packets :: "(rat \<Rightarrow> rat \<Rightarrow> rat) \<Rightarrow> diagram \<Rightarrow> packet_state list" where
  "packets hypot st =
     (let phaseStep = of_nat TOTAL_STAGES / of_nat (packetCount st)
      in map (\<lambda>i. packetState hypot (dg_progress st + of_nat i * phaseStep)) [0..<packetCount st])"

definition activeNodeStages :: "packet_state list \<Rightarrow> int set" where
  "activeNodeStages ps = set (map pk_stageIndex (filter (\<lambda>p. pk_stageIndex p < int (length PIPELINE_NODES)) ps))"

definition activeReceivers :: "packet_state list \<Rightarrow> int set" where
  "activeReceivers ps = set (map pk_receiverIndex (filter (\<lambda>p. \<not> pk_stageIndex p < int (length PIPELINE_NODES)) ps))"

end
