(* ===== verification/Landing_Page.thy ===== *)
theory Landing_Page
  imports Landing_Pipeline
begin

text \<open>
  The markup of \<^verbatim>\<open>frontend/src/pages/Landing.tsx\<close>: the segmented controls, the wires, boxes and packets of the diagram,
  and the sections of the page.  \<open>num\<close> prints a number as JavaScript does.
\<close>

section \<open>Parts\<close>

definition double_quote :: string where
  "double_quote = [CHR 0x22]"

definition percent :: "(rat \<Rightarrow> string) \<Rightarrow> rat \<Rightarrow> string" where
  "percent num x = num x @ ''%''"

text \<open>The options are strings of the source, here values with their text.\<close>

definition SegGroup :: 
    "string \<Rightarrow> 'o list \<Rightarrow> ('o \<Rightarrow> string) \<Rightarrow> 'o \<Rightarrow> ('o \<Rightarrow> 'a) \<Rightarrow> bool \<Rightarrow> 'a ui" where
  "SegGroup label options text_of val onChange wrap =
     El ''div'' []
       [El ''div'' [Css [(''fontSize'', ''11''), (''letterSpacing'', ''0.1em''), (''textTransform'', ''uppercase''), (''color'',
           ''var(--color-text-muted)''), (''marginBottom'', ''7'')]]
          [Txt label],
        El ''div'' [Css [(''display'', ''inline-flex''), (''flexWrap'', if wrap then ''wrap'' else ''nowrap''), (''overflow'', ''hidden''),
            (''border'', ''1px solid var(--color-divider)''), (''borderRadius'', ''4'')]]
          (map (\<lambda>(i, opt). El ''button'' [At ''type'' ''button'', On ''click'' (onChange opt), Css [(''fontFamily'', ''var(--font-body)''),
              (''fontSize'', ''13''), (''padding'', ''7px 12px''), (''border'', ''none''), (''borderLeft'',
                  if i > 0 then ''1px solid var(--color-divider)'' else ''none''), (''cursor'', ''pointer''), (''background'',
                      if opt = val then ''var(--color-accent)'' else ''transparent''), (''color'',
                          if opt = val then ''var(--color-bg)'' else ''var(--color-text)''), (''whiteSpace'', ''nowrap'')]]
                  [Txt (text_of opt)]) (enumerate 0 options))]"

definition Stat :: "string \<Rightarrow> string \<Rightarrow> 'a ui" where
  "Stat label val =
     El ''div'' [Css [(''background'', ''var(--color-bg)''), (''padding'', ''11px 12px'')]]
       [El ''div'' [Css [(''fontSize'', ''10''), (''letterSpacing'', ''0.1em''), (''textTransform'', ''uppercase''), (''color'',
           ''var(--color-text-muted)'')]]
          [Txt label],
        El ''div'' [Css [(''fontFamily'', ''var(--font-heading)''), (''fontSize'', ''24''), (''lineHeight'', ''28px'')]]
          [Txt val]]"

definition PipelineTag :: "bool \<Rightarrow> 'a ui" where
  "PipelineTag active =
     El ''span'' [Css ([(''display'', ''inline-block''), (''fontSize'', ''11''), (''letterSpacing'', ''0.2''), (''padding'', ''3px 10px''),
    (''borderRadius'', ''3'')] @ (if active then [(''background'', ''var(--color-accent-100)''), (''color'', ''var(--color-accent-800)'')]
            else [(''border'', ''1px solid var(--color-accent)''), (''color'', ''var(--color-accent)'')]))]
       [Txt (if active then ''delivering'' else ''idle'')]"

section \<open>The diagram\<close>

definition diagram_controls :: "diagram \<Rightarrow> diagram_event ui" where
  "diagram_controls st =
     El ''div'' [Css [(''display'', ''flex''), (''flexWrap'', ''wrap''), (''gap'', ''20px 32px''), (''alignItems'', ''flex-start''), (''marginBottom'',
    ''22'')]]
       [SegGroup ''Implementation'' RUNTIMES runtime_text (dg_runtime st) Pick_runtime False,
        SegGroup ''Traffic band'' BANDS band_text (dg_band st) Pick_band False,
        El ''div'' [Css [(''flex'', ''1''), (''minWidth'', ''320'')]]
          [SegGroup (''Scenario '' @ em_dash @ '' from the test suite'') (map fst SCENARIOS) (\<lambda>w. w)
              (fst (SCENARIOS ! dg_scenarioIndex st)) Pick_scenario True],
        Button Secondary [On ''click'' Play_pause] False [(''minWidth'', ''92''), (''alignSelf'',
            ''flex-end'')] [Txt (if dg_playing st then ''Pause'' else ''Play'')]]"

definition node_cards :: "(rat \<Rightarrow> string) \<Rightarrow> int set \<Rightarrow> diagram_event ui list" where
  "node_cards num active =
     map (\<lambda>(i, n). Card True [(''position'', ''absolute''), (''left'', percent num (bx_left (pn_box n))), (''top'',
    percent num (bx_top (pn_box n))), (''width'', percent num (bx_width (pn_box n))), (''height'', percent num (bx_height (pn_box n))), (''padding'',
        ''9px 11px''), (''display'', ''flex''), (''flexDirection'', ''column''), (''justifyContent'', ''center''), (''borderColor'',
            if int i \<in> active then ''var(--color-accent)'' else ''var(--color-divider)'')]
            [El ''div'' [Css [(''fontFamily'', ''var(--font-heading)''), (''fontSize'', ''14''), (''letterSpacing'', ''0.04em''), (''textTransform'',
                ''uppercase''), (''lineHeight'', ''1.1'')]]
               [Txt (pn_label n)],
             El ''div'' [Css [(''fontSize'', ''11''), (''lineHeight'', ''15px''), (''marginTop'', ''4''), (''color'', ''var(--color-text-muted)'')]]
               [Txt (pn_sub n)]]) (enumerate 0 PIPELINE_NODES)"

definition receiver_cards :: "(rat \<Rightarrow> string) \<Rightarrow> int set \<Rightarrow> diagram_event ui list" where
  "receiver_cards num active =
     map (\<lambda>(i, r). Card True [(''position'', ''absolute''), (''left'', percent num RECEIVER_LEFT), (''top'', percent num (rv_top r)), (''width'',
    percent num RECEIVER_WIDTH), (''height'', percent num RECEIVER_HEIGHT), (''padding'', ''9px 11px''), (''display'', ''flex''), (''flexDirection'',
        ''column''), (''gap'', ''3''), (''borderColor'', if int i \<in> active then ''var(--color-accent)'' else ''var(--color-divider)'')]
            [El ''div'' [Css [(''fontFamily'', ''var(--font-heading)''), (''fontSize'', ''14''), (''letterSpacing'', ''0.04em''), (''textTransform'',
                ''uppercase''), (''lineHeight'', ''1.1'')]]
               [Txt (rv_name r)],
             El ''div'' [Css [(''fontSize'', ''11''), (''lineHeight'', ''15px''), (''color'', ''var(--color-text-muted)'')]]
               [Txt (rv_url r)],
             El ''div'' [Css [(''marginTop'', ''auto'')]] [PipelineTag (int i \<in> active)]]) (enumerate 0 RECEIVERS)"

definition packet_dots :: "(rat \<Rightarrow> string) \<Rightarrow> packet_state list \<Rightarrow> diagram_event ui list" where
  "packet_dots num pks =
     map (\<lambda>p. El ''div'' [Flag ''aria-hidden'' True, Css [(''position'', ''absolute''), (''left'', percent num (pt_x (pk_point p))), (''top'',
    percent num (pt_y (pk_point p))), (''width'', ''6''), (''height'', ''6''), (''marginLeft'', ''-3''), (''marginTop'', ''-3''), (''borderRadius'',
        ''50%''), (''background'', ''var(--color-accent)'')]]
            []) pks"

definition diagram_figures :: "(rat \<Rightarrow> rat) \<Rightarrow> diagram \<Rightarrow> diagram_event ui" where
  "diagram_figures sin_of st =
     El ''div'' [Css [(''display'', ''grid''), (''gridTemplateColumns'', ''repeat(auto-fit, minmax(min(100%, 380px), 1fr))''), (''gap'',
    ''24px clamp(24px, 5vw, 64px)''), (''marginTop'', ''26''), (''alignItems'', ''start'')]]
       [Card True [(''padding'', ''16px 18px'')]
          [El ''div'' [Css [(''fontFamily'', ''var(--font-heading)''), (''fontSize'', ''19''), (''letterSpacing'', ''0.03em''), (''textTransform'',
              ''uppercase''), (''lineHeight'', ''1.15'')]]
             [Txt (fst (SCENARIOS ! dg_scenarioIndex st))],
           El ''p'' [Css [(''fontSize'', ''14''), (''lineHeight'', ''21px''), (''margin'', ''8px 0 0''), (''color'', ''var(--color-text-muted)''),
               (''maxWidth'', ''66ch'')]]
             [Txt (snd (SCENARIOS ! dg_scenarioIndex st))]],
        El ''div'' [Css [(''display'', ''grid''), (''gridTemplateColumns'', ''repeat(auto-fit, minmax(120px, 1fr))''), (''gap'', ''1''),
            (''background'', ''var(--color-divider)''), (''border'', ''1px solid var(--color-divider)'')]]
          [Stat ''Published'' (show_nat (dg_published st)),
           Stat ''Publish p99'' (PUBLISH_P99_MS (dg_runtime st) (dg_band st) @ ''ms''),
           Stat ''Workers'' (show_nat LANDING_WORKER_COUNT),
           Stat ''Queue depth'' (show_int (queueDepth sin_of st)),
           Stat ''In flight'' (show_nat (inFlight st)),
           Stat ''Delivered'' (show_nat (dg_delivered st))]]"

text \<open>The arrow heads of a wire: the tip, and the point it is reached from.\<close>

definition wire_tips :: "wire \<Rightarrow> (point \<times> point) list" where
  "wire_tips w =
     (let ps = wr_points w;
          at_end = [(last ps, ps ! (length ps - 2))];
          at_start = [(hd ps, ps ! 1)]
      in case wr_arrow w of No_arrow \<Rightarrow> [] | End_arrow \<Rightarrow> at_end | Both_arrows \<Rightarrow> at_start @ at_end)"

datatype direction = Right_arrow | Left_arrow | Down_arrow | Up_arrow

definition arrow_direction :: "point \<Rightarrow> point \<Rightarrow> direction" where
  "arrow_direction tip from_point =
     (let dx = pt_x tip - pt_x from_point; dy = pt_y tip - pt_y from_point
      in if \<bar>dx\<bar> > \<bar>dy\<bar> then (if dx > 0 then Right_arrow else Left_arrow) else if dy > 0 then Down_arrow else Up_arrow)"

definition arrow_points :: "point \<Rightarrow> direction \<Rightarrow> point list" where
  "arrow_points tip dir =
     (let horiz = (dir = Left_arrow \<or> dir = Right_arrow);
          depth = (if horiz then 0.56 else 1.49);
          half_width = (if horiz then 0.96 else 0.36);
          sign = (if dir = Right_arrow \<or> dir = Down_arrow then - 1 else 1);
          x = pt_x tip; y = pt_y tip
      in if horiz then [\<lparr>pt_x = x + sign * depth, pt_y = y - half_width\<rparr>, tip, \<lparr>pt_x = x + sign * depth, pt_y = y + half_width\<rparr>]
         else [\<lparr>pt_x = x - half_width, pt_y = y + sign * depth\<rparr>, tip, \<lparr>pt_x = x + half_width, pt_y = y + sign * depth\<rparr>])"

definition points_text :: "(rat \<Rightarrow> string) \<Rightarrow> point list \<Rightarrow> string" where
  "points_text num ps = js_join '' '' (map (\<lambda>p. num (pt_x p) @ '','' @ num (pt_y p)) ps)"

definition wire_group :: "(rat \<Rightarrow> string) \<Rightarrow> wire \<Rightarrow> 'a ui" where
  "wire_group num w =
     El ''g'' []
       ([El ''polyline'' ([At ''points'' (points_text num (wr_points w)), Css [(''stroke'', ''var(--color-divider)''), (''fill'', ''none'')],
           At ''strokeWidth'' ''0.3''] @ (if wr_dashed w then [At ''strokeDasharray'' ''1.4 1''] else [])) []] @
        map (\<lambda>(tip, from_point). El ''polygon'' [At ''points'' (points_text num (arrow_points tip (arrow_direction tip from_point))),
            Css [(''fill'', ''var(--color-text-muted)'')]] []) (wire_tips w))"

definition wire_backdrop :: "(rat \<Rightarrow> string) \<Rightarrow> 'a ui" where
  "wire_backdrop num =
     El ''svg'' [Flag ''aria-hidden'' True, At ''viewBox'' ''0 0 100 100'', At ''preserveAspectRatio'' ''none'',
         Css [(''position'', ''absolute''), (''inset'', ''0''), (''width'', ''100%''), (''height'', ''100%'')]]
       (map (wire_group num) WIRES)"

definition postgres_frame :: "'a ui list" where
  "postgres_frame =
     [El ''div'' [Css [(''position'', ''absolute''), (''left'', ''29.52%''), (''top'', ''5.96%''), (''width'', ''25.16%''), (''height'', ''88.09%''),
         (''border'', ''1px dashed var(--color-divider)'')]] [],
      El ''div'' [Css [(''position'', ''absolute''), (''left'', ''29.52%''), (''top'', ''5.96%''), (''width'', ''25.16%''),
          (''transform'', ''translateY(-100%)''), (''paddingBottom'', ''5''), (''fontSize'', ''11''), (''letterSpacing'', ''0.1em''),
          (''textTransform'', ''uppercase''), (''color'', ''var(--color-text-muted)'')]]
        [Txt (''Postgres '' @ em_dash @ '' the queue'')]]"

text \<open>The functions of \<^verbatim>\<open>Math\<close> and the printing of numbers.\<close>

record js_math =
  jm_hypot :: "rat \<Rightarrow> rat \<Rightarrow> rat"
  jm_sin :: "rat \<Rightarrow> rat"
  jm_num :: "rat \<Rightarrow> string"

definition PipelineDiagram :: "js_math \<Rightarrow> diagram \<Rightarrow> diagram_event ui" where
  "PipelineDiagram M st =
     (let pks = packets (jm_hypot M) st; num = jm_num M
      in El ''div'' []
           [diagram_controls st,
            El ''div'' [Css [(''overflowX'', ''auto''), (''padding'', ''10px 8px 6px'')]]
              [El ''div'' [Css [(''position'', ''relative''), (''minWidth'', ''1000''), (''width'', ''100%''), (''aspectRatio'', ''1240 / 470'')]]
                 (postgres_frame @ [wire_backdrop num] @ node_cards num (activeNodeStages pks) @ receiver_cards num (activeReceivers pks) @
                  packet_dots num pks)],
            diagram_figures (jm_sin M) st,
            El ''p'' [Css [(''fontSize'', ''12''), (''lineHeight'', ''18px''), (''margin'', ''14px 0 0''), (''color'', ''var(--color-text-muted)'')]]
              [Txt (''Time is compressed, and Published/Queue depth/In flight/Delivered are a representative simulation '' @ em_dash @
                 '' the pipeline stages, the runtime toggle, the worker count, and the publish-time number are the real ones.'')]])"

section \<open>The page\<close>

definition guarantee_cards :: "(string \<times> string) list" where
  "guarantee_cards =
     [(''Ordered'', ''One delivery in flight per endpoint at a time. A blocked delivery reports it, and why.''),
      (''Retried'', ''Full-jitter exponential backoff, six attempts, then the endpoint halts '' @ em_dash @ '' not silently dropped.''),
      (''Explainable'', ''Every delivery'' @ apostrophe @ ''s exact request and response history, on one screen, no engineer required.''),
      (''Replayable'', ''Re-deliver any past window without disturbing other endpoints'' @ apostrophe @ '' live traffic.'')]"

record run_result =
  ru_kicker :: string
  ru_value :: string
  ru_body :: string
  ru_command :: string

definition run_results :: "run_result list" where
  "run_results =
     [\<lparr>ru_kicker = ''Nothing lost'', ru_value = ''3 of 3 properties hold'',
        ru_body = ''Expansion order, repeated-key idempotency, and replay crash-safety '' @ em_dash @
          '' each re-run with a fresh random seed on every run, on both backends.'', ru_command = ''make properties''\<rparr>,
      \<lparr>ru_kicker = ''Nothing stranded'', ru_value = ''5 of 5 chaos scenarios pass'',
        ru_body = ''Workers crashed or stalled mid-delivery, a partition head blocked then drained '' @ em_dash @
          '' every scenario still resolved to exactly one outcome.'', ru_command = ''make chaos''\<rparr>,
      \<lparr>ru_kicker = ''Nobody starved'', ru_value = ''p99 226ms (Node) / 127ms (Go)'',
        ru_body = ''One tenant floods 20 endpoints at once; a quiet tenant'' @ apostrophe @ ''s own deliveries stay fast. The spec sets no fixed bound '' @
          em_dash @ '' we hold ourselves to p99 under 5s.'', ru_command = ''make load''\<rparr>]"

record example_attempt =
  xa_attempt :: nat
  xa_time :: string
  xa_status :: nat
  xa_note :: string
  xa_opacity :: string

definition exampleAttempts :: "example_attempt list" where
  "exampleAttempts =
     [\<lparr>xa_attempt = 1, xa_time = ''14:02:11'', xa_status = 503, xa_note = ''upstream busy'', xa_opacity = ''0.6''\<rparr>,
      \<lparr>xa_attempt = 2, xa_time = ''14:02:13'', xa_status = 504, xa_note = ''gateway timeout'', xa_opacity = ''0.75''\<rparr>,
      \<lparr>xa_attempt = 3, xa_time = ''14:02:19'', xa_status = 200, xa_note = ''delivered in 84 ms'', xa_opacity = ''1''\<rparr>]"

definition LATEST_RUN_DATE :: string where
  "LATEST_RUN_DATE = ''2026-08-07''"

definition LATEST_RUN_COMMIT :: string where
  "LATEST_RUN_COMMIT = ''bdd4537''"

definition landing_header :: "'a ui" where
  "landing_header =
     El ''header'' [Css [(''display'', ''flex''), (''alignItems'', ''center''), (''justifyContent'', ''space-between''), (''borderBottom'',
    ''1px solid var(--color-divider)''), (''padding'', ''0 24px''), (''height'', ''64'')]]
       [El ''span'' [Css [(''fontFamily'', ''var(--font-heading)''), (''fontWeight'', ''700''), (''fontSize'', ''20''), (''letterSpacing'',
           ''0.04em''), (''textTransform'', ''uppercase'')]]
          [Txt ''Gauntlet Relay''],
        El ''nav'' [Css [(''display'', ''flex''), (''alignItems'', ''center''), (''gap'', ''24'')]]
          [El ''a'' [At ''href'' ''#pipeline'', Css [(''color'', ''var(--color-text)''), (''fontSize'', ''14'')]]
             [Txt ''The pipeline''],
           El ''a'' [At ''href'' ''#results'', Css [(''color'', ''var(--color-text)''), (''fontSize'', ''14'')]]
             [Txt ''Results''],
           El ''a'' [At ''href'' ''#guarantees'', Css [(''color'', ''var(--color-text)''), (''fontSize'', ''14'')]]
             [Txt ''Guarantees''],
           El ''Link'' [At ''to'' ''/console/overview''] [Button Primary [] False [] [Txt ''Open the dashboard'']]]]"

definition landing_hero :: "'a ui" where
  "landing_hero =
     El ''section'' [Css [(''display'', ''flex''), (''gap'', ''48''), (''padding'', ''64px 24px''), (''maxWidth'', ''1100''), (''margin'', ''0 auto'')]]
       [El ''div'' [Css [(''flex'', ''1'')]]
          [El ''h1'' [Css [(''fontFamily'', ''var(--font-heading)''), (''fontWeight'', ''600''), (''fontSize'', ''clamp(36px, 5vw, 64px)''),
              (''lineHeight'', ''1.05''), (''letterSpacing'', ''0.01em''), (''textTransform'', ''uppercase''), (''marginBottom'', ''20'')]]
             [Txt ''Every webhook accounted for.'',
              El ''br'' [] [],
              El ''span'' [Css [(''color'', ''var(--color-accent)'')]] [Txt ''Out loud.'']],
           El ''p'' [Css [(''maxWidth'', ''420''), (''marginBottom'', ''24''), (''color'', ''var(--color-text-muted)'')]]
             [Txt (''Gauntlet Relay delivers your events in the order you published them, keeps retrying the ones that'' @
                 '' fail, and shows your team exactly what happened to any single event '' @ em_dash @ '' on one screen, no engineer required.'')],
           El ''div'' [Css [(''display'', ''flex''), (''gap'', ''12'')]]
             [El ''Link'' [At ''to'' ''/console/overview''] [Button Primary [] False [] [Txt ''Open the dashboard'']],
              El ''a'' [At ''href'' ''https://gitlab.com'', At ''target'' ''_blank'', At ''rel'' ''noreferrer'']
                [Button Secondary [] False [] [Txt ''Source code'']]]]]"

definition landing_pipeline :: "'a ui \<Rightarrow> 'a ui" where
  "landing_pipeline child =
     El ''section'' [At ''id'' ''pipeline'', Css [(''padding'', ''48px 24px 0''), (''maxWidth'', ''1100''), (''margin'', ''0 auto'')]]
       [El ''h2'' [Css [(''fontSize'', ''22''), (''marginBottom'', ''8'')]] [Txt ''The pipeline''],
        El ''p'' [Css [(''fontSize'', ''13''), (''color'', ''var(--color-text-muted)''), (''marginBottom'', ''24'')]]
          [Txt (''Pick a runtime, a traffic band, and a scenario from the test suite '' @ em_dash @
              '' the diagram below animates that scenario moving through the real pipeline.'')],
        child]"

definition landing_results :: "'a ui" where
  "landing_results =
     El ''section'' [At ''id'' ''results'', Css [(''padding'', ''8px 24px 48px''), (''maxWidth'', ''1100''), (''margin'', ''0 auto'')]]
       [El ''div'' [Css [(''display'', ''flex''), (''alignItems'', ''baseline''), (''gap'', ''14''), (''flexWrap'', ''wrap''), (''marginBottom'',
           ''14'')]]
          [El ''span'' [Css [(''fontSize'', ''13''), (''letterSpacing'', ''0.08em''), (''textTransform'', ''uppercase''), (''fontWeight'', ''600''),
              (''color'', ''var(--color-accent-700)'')]]
             [Txt ''Latest run''],
           El ''span'' [Css [(''fontSize'', ''13''), (''color'', ''var(--color-text-muted)'')]]
             [Txt LATEST_RUN_DATE,
              Txt ('' '' @ middle_dot @ '' commit ''),
              El ''code'' [Css [(''fontFamily'', ''var(--font-mono)''), (''fontSize'', ''12'')]]
                [Txt LATEST_RUN_COMMIT],
              Txt ('' '' @ middle_dot @ '' checked in under evidence/, not live-fetched'')]],
        El ''div'' [Css [(''display'', ''grid''), (''gridTemplateColumns'', ''repeat(3, 1fr)''), (''gap'', ''16'')]]
          (map (\<lambda>r. Card True [(''display'', ''flex''), (''flexDirection'', ''column''), (''gap'', ''6'')]
                  [El ''span'' [Css [(''fontSize'', ''10''), (''letterSpacing'', ''0.1em''), (''textTransform'', ''uppercase''), (''color'',
                      ''var(--color-text-muted)'')]]
                     [Txt (ru_kicker r)],
                   El ''span'' [Css [(''fontFamily'', ''var(--font-heading)''), (''fontSize'', ''clamp(22px, 2.2vw, 28px)''), (''lineHeight'',
                       ''1.05''), (''letterSpacing'', ''0.01em''), (''textTransform'', ''uppercase''), (''color'', ''var(--color-accent-800)'')]]
                     [Txt (ru_value r)],
                   El ''p'' [Css [(''fontSize'', ''13''), (''lineHeight'', ''20px''), (''margin'', ''2px 0 0''), (''color'',
                       ''var(--color-text-muted)'')]]
                     [Txt (ru_body r)],
                   El ''code'' [Css [(''marginTop'', ''auto''), (''paddingTop'', ''10''), (''fontFamily'', ''var(--font-mono)''), (''fontSize'',
                       ''12''), (''color'', ''var(--color-accent-700)'')]]
                     [Txt (ru_command r)]]) run_results)]"

definition landing_guarantees :: "'a ui" where
  "landing_guarantees =
     El ''section'' [At ''id'' ''guarantees'', Css [(''padding'', ''24px 24px 64px''), (''maxWidth'', ''1100''), (''margin'', ''0 auto'')]]
       [El ''h2'' [Css [(''fontSize'', ''22''), (''marginBottom'', ''24'')]] [Txt ''Guarantees''],
        El ''div'' [Css [(''display'', ''grid''), (''gridTemplateColumns'', ''repeat(2, 1fr)''), (''gap'', ''16'')]]
          (map (\<lambda>g. Card False []
                  [El ''h3'' [Css [(''fontSize'', ''15''), (''marginBottom'', ''6'')]] [Txt (fst g)],
                   El ''p'' [Css [(''fontSize'', ''13''), (''color'', ''var(--color-text-muted)''), (''margin'', ''0'')]]
                     [Txt (snd g)]]) guarantee_cards),
        El ''p'' [Css [(''fontSize'', ''13''), (''color'', ''var(--color-text-muted)''), (''marginTop'', ''16'')]]
          [Txt (''Every guarantee above has a test behind it that runs on every change '' @ em_dash @ '' see '' @ double_quote @ ''Results'' @
              double_quote @ '' above, not a claim made by eye.'')]]"

definition landing_example :: "'a ui" where
  "landing_example =
     El ''section'' [Css [(''padding'', ''24px 24px 56px''), (''maxWidth'', ''1100''), (''margin'', ''0 auto'')]]
       [Card True [(''display'', ''flex''), (''flexWrap'', ''wrap''), (''gap'', ''32''), (''alignItems'', ''center''), (''padding'', ''26px 30px'')]
          [El ''div'' [Css [(''flex'', ''1 1 300px'')]]
             [El ''h2'' [Css [(''fontFamily'', ''var(--font-heading)''), (''fontSize'', ''24''), (''letterSpacing'', ''0.02em''), (''textTransform'',
                 ''uppercase''), (''margin'', ''0'')]]
                [Txt (''One screen answers '' @ left_quote @ ''what happened?'' @ right_quote)],
              El ''p'' [Css [(''fontSize'', ''15''), (''lineHeight'', ''23px''), (''margin'', ''12px 0 0''), (''maxWidth'', ''46ch''), (''color'',
                  ''var(--color-text-muted)'')]]
                [Txt (''Every attempt, every response, every retry '' @ em_dash @
                    '' in the order they happened. If someone on your team cannot close a ticket from it, we have not finished.'')],
              El ''div'' [Css [(''display'', ''flex''), (''gap'', ''10''), (''flexWrap'', ''wrap''), (''marginTop'', ''20'')]]
                [El ''Link'' [At ''to'' ''/console/overview''] [Button Primary [] False [] [Txt ''Open the dashboard'']],
                 El ''a'' [At ''href'' ''https://gitlab.com'', At ''target'' ''_blank'', At ''rel'' ''noreferrer'']
                   [Button Secondary [] False [] [Txt ''Source code'']]]],
           El ''div'' [Css [(''flex'', ''1 1 340px''), (''minWidth'', ''300'')]]
             ([El ''div'' [Css [(''display'', ''flex''), (''alignItems'', ''baseline''), (''gap'', ''10''), (''paddingBottom'', ''8''),
                 (''borderBottom'', ''1px solid var(--color-text)'')]]
                 [El ''span'' [Css [(''fontSize'', ''10''), (''letterSpacing'', ''0.1em''), (''textTransform'', ''uppercase''), (''color'',
                     ''var(--color-text-muted)'')]]
                    [Txt ''Delivery (example)''],
                  El ''span'' [Css [(''fontFamily'', ''var(--font-mono)''), (''fontSize'', ''12''), (''color'', ''var(--color-accent-700)'')]]
                    [Txt ''dlv_8f21c4a0''],
                  El ''span'' [Css [(''marginLeft'', ''auto'')]] [Badge Accent [Txt ''Succeeded'']]]] @
              map (\<lambda>a. El ''div'' [Css [(''display'', ''flex''), (''alignItems'', ''center''), (''gap'', ''12''), (''padding'', ''8px 0''),
                  (''borderBottom'', ''1px solid var(--color-divider)''), (''opacity'', xa_opacity a)]]
                     [El ''span'' [Css [(''fontFamily'', ''var(--font-mono)''), (''fontSize'', ''11''), (''color'', ''var(--color-text-muted)''),
                         (''width'', ''58''), (''flex'', ''none'')]]
                        [Txt (xa_time a)],
                      El ''span'' [Css [(''fontSize'', ''12''), (''letterSpacing'', ''0.06em''), (''textTransform'', ''uppercase''), (''width'',
                          ''62''), (''flex'', ''none'')]]
                        [Txt ''Try '',
                         Txt (show_nat (xa_attempt a))],
                      Badge (if xa_status a = 200 then Accent else Neutral) [Txt (show_nat (xa_status a))],
                      El ''span'' [Css [(''fontSize'', ''12''), (''color'', ''var(--color-text-muted)''), (''marginLeft'', ''auto''), (''whiteSpace'',
                          ''nowrap'')]]
                        [Txt (xa_note a)]]) exampleAttempts)]]"

definition landing_footer :: "'a ui" where
  "landing_footer =
     El ''footer'' [Css [(''maxWidth'', ''1100''), (''margin'', ''0 auto''), (''padding'', ''24px 24px 48px''), (''borderTop'',
    ''1px solid var(--color-divider)''), (''fontSize'', ''13''), (''color'', ''var(--color-text-muted)'')]]
       [Txt (''Gauntlet Relay v0.2.0 '' @ em_dash @ '' Node/TypeScript and Go implementations, one schema, one REST contract.'')]"

definition Landing :: "'a ui \<Rightarrow> 'a ui" where
  "Landing child =
     El ''div'' [Css [(''minHeight'', ''100vh''), (''background'', ''var(--color-bg)'')]]
       [landing_header, landing_hero, landing_pipeline child, landing_results, landing_guarantees, landing_example, landing_footer]"

end
