(* ===== verification/Landing_Facts.thy ===== *)
theory Landing_Facts
  imports Landing_Page
begin

text \<open>
  What the diagram of the landing page guarantees: its packets stay on the diagram and do not jump between hops, its
  counters are multiples of the traffic band, and every box is highlighted all the time.
\<close>

section \<open>Paths\<close>

text \<open>What is asked of \<^verbatim>\<open>Math.hypot\<close>.\<close>

definition length_ok :: "(rat \<Rightarrow> rat \<Rightarrow> rat) \<Rightarrow> bool" where
  "length_ok hypot \<longleftrightarrow> (\<forall>x y. 0 \<le> hypot x y \<and> (hypot x y = 0 \<longleftrightarrow> x = 0 \<and> y = 0))"

definition on_screen :: "point \<Rightarrow> bool" where
  "on_screen p \<longleftrightarrow> 0 \<le> pt_x p \<and> pt_x p \<le> 100 \<and> 0 \<le> pt_y p \<and> pt_y p \<le> 100"

lemma between:
  fixes a b t :: rat
  assumes "0 \<le> t" "t \<le> 1" "0 \<le> a" "a \<le> c" "0 \<le> b" "b \<le> c"
  shows "0 \<le> a + (b - a) * t" "a + (b - a) * t \<le> c"
proof -
  have eq: "a + (b - a) * t = (1 - t) * a + t * b" by (simp add: algebra_simps)
  show "0 \<le> a + (b - a) * t" unfolding eq using assms by simp
  have "(1 - t) * a + t * b \<le> (1 - t) * c + t * c"
    using assms by (intro add_mono mult_left_mono) simp_all
  then show "a + (b - a) * t \<le> c" unfolding eq by (simp add: algebra_simps)
qed

lemma lerp_on_screen: "on_screen a \<Longrightarrow> on_screen b \<Longrightarrow> 0 \<le> t \<Longrightarrow> t \<le> 1 \<Longrightarrow> on_screen (lerp a b t)"
  using between [of t "pt_x a" 100 "pt_x b"] between [of t "pt_y a" 100 "pt_y b"] by (simp add: on_screen_def lerp_def)

lemma lerp_ends [simp]: "lerp a b 0 = a" "lerp a b 1 = b"
  by (simp_all add: lerp_def)

lemma segLengths_nonneg: "length_ok hypot \<Longrightarrow> \<forall>l\<in>set (segLengths hypot ps). 0 \<le> l"
  by (induction hypot ps rule: segLengths.induct) (simp_all add: length_ok_def)

lemma length_segLengths: "length (segLengths hypot ps) = length ps - 1"
  by (induction hypot ps rule: segLengths.induct) simp_all

lemma along_on_screen:
  assumes "length_ok hypot" "\<forall>p\<in>set ps. on_screen p" "ps \<noteq> []" "0 \<le> r" "r \<le> sum_list (segLengths hypot ps)"
  shows "on_screen (along ps (segLengths hypot ps) r)"
  using assms
proof (induction ps arbitrary: r rule: induct_list012)
  case (3 a b ps)
  let ?len = "hypot (pt_x b - pt_x a) (pt_y b - pt_y a)" and ?ls = "segLengths hypot (b # ps)"
  have len: "0 \<le> ?len" using 3(3) by (simp add: length_ok_def)
  show ?case
  proof (cases "r \<le> ?len \<or> ?ls = []")
    case True
    then have "r \<le> ?len" using 3(7) by auto
    then have "0 \<le> r / ?len \<and> r / ?len \<le> 1" if "?len \<noteq> 0" using that len 3(6) by (simp add: divide_le_eq)
    then show ?thesis using True 3(4) by (auto intro: lerp_on_screen)
  next
    case False
    with 3 show ?thesis by auto
  qed
qed simp_all

lemma path_on_screen:
  assumes "length_ok hypot" "\<forall>p\<in>set ps. on_screen p" "ps \<noteq> []"
  shows "on_screen (pointAlongPath hypot ps t)"
proof -
  let ?total = "sum_list (segLengths hypot ps)"
  have total: "0 \<le> ?total" using segLengths_nonneg [OF assms(1)] by (simp add: sum_list_nonneg)
  then have "0 \<le> min 1 (max 0 t) * ?total" "min 1 (max 0 t) * ?total \<le> ?total" using mult_right_mono [of "min 1 (max 0 t)" 1 ?total] by auto
  then have "on_screen (along ps (segLengths hypot ps) (min 1 (max 0 t) * ?total))" by (rule along_on_screen [OF assms])
  moreover have "on_screen (hd ps)" using assms by simp
  ultimately show ?thesis unfolding pointAlongPath_def Let_def by presburger
qed

lemma along_start:
  assumes "length_ok hypot" "ps \<noteq> []"
  shows "along ps (segLengths hypot ps) 0 = hd ps"
  using assms by (cases ps; cases "tl ps") (auto simp: length_ok_def)

lemma no_length: "length_ok hypot \<Longrightarrow> ps \<noteq> [] \<Longrightarrow> sum_list (segLengths hypot ps) = 0 \<Longrightarrow> hd ps = last ps"
proof (induction ps rule: induct_list012)
  case (3 a b ps)
  have "0 \<le> sum_list (segLengths hypot (b # ps))" using segLengths_nonneg [OF 3(3)] by (simp add: sum_list_nonneg)
  moreover have "0 \<le> hypot (pt_x b - pt_x a) (pt_y b - pt_y a)" using 3(3) by (simp add: length_ok_def)
  ultimately have "hypot (pt_x b - pt_x a) (pt_y b - pt_y a) = 0" "sum_list (segLengths hypot (b # ps)) = 0" using 3(5) by simp_all
  then show ?case using 3 by (simp add: length_ok_def)
qed simp_all

lemma along_end:
  assumes "length_ok hypot" "ps \<noteq> []"
  shows "along ps (segLengths hypot ps) (sum_list (segLengths hypot ps)) = last ps"
  using assms
proof (induction ps rule: induct_list012)
  case (3 a b ps)
  let ?len = "hypot (pt_x b - pt_x a) (pt_y b - pt_y a)" and ?rest = "segLengths hypot (b # ps)"
  have rest: "0 \<le> sum_list ?rest" using segLengths_nonneg [OF 3(3)] by (simp add: sum_list_nonneg)
  show ?case
  proof (cases "sum_list ?rest = 0")
    case True
    have "b = last (b # ps)" using no_length [OF 3(3) _ True] by simp
    moreover have "?len = 0 \<Longrightarrow> a = b" using 3(3) by (simp add: length_ok_def)
    ultimately show ?thesis using True by auto
  next
    case False
    then have "\<not> ?len + sum_list ?rest \<le> ?len" "?rest \<noteq> []" using rest by auto
    then show ?thesis using 3 by simp
  qed
qed simp_all

lemma path_ends:
  assumes "length_ok hypot" "ps \<noteq> []"
  shows "pointAlongPath hypot ps 0 = hd ps" "pointAlongPath hypot ps 1 = last ps"
  using along_start [OF assms] along_end [OF assms] no_length [OF assms] by (simp_all add: pointAlongPath_def Let_def)

section \<open>The packets of the diagram\<close>

lemmas layout = PIPELINE_NODES_def node_def publisherBox_def apiBox_def eventsBox_def expansionBox_def deliveriesBox_def deliveryLoopBox_def
  boxCenter_def rightEdge_def leftEdge_def bottomEdge_def elbowH_def elbowV_def receiverBox_def receiverCenter_def
  RECEIVER_LEFT_def RECEIVER_WIDTH_def RECEIVER_HEIGHT_def

lemma counts [simp]: "length PIPELINE_NODES = 6" "TOTAL_STAGES = 7" "length RECEIVERS = 3" "length HOP_PATHS = 5"
  by (simp_all add: TOTAL_STAGES_def PIPELINE_NODES_def RECEIVERS_def HOP_PATHS_def)

lemma wire_points:
  "map wr_points (take 5 WIRES) = [[rightEdge publisherBox, leftEdge apiBox], elbowH (rightEdge apiBox) (leftEdge eventsBox),
     [rightEdge eventsBox, leftEdge expansionBox], elbowV (bottomEdge expansionBox) (rightEdge deliveriesBox),
     [rightEdge deliveriesBox, leftEdge deliveryLoopBox]]"
  by (simp add: WIRES_def numeral_eq_Suc)

lemma hop_paths:
  "HOP_PATHS =
     [[boxCenter publisherBox, rightEdge publisherBox, leftEdge apiBox, boxCenter apiBox],
      [boxCenter apiBox] @ elbowH (rightEdge apiBox) (leftEdge eventsBox) @ [boxCenter eventsBox],
      [boxCenter eventsBox, rightEdge eventsBox, leftEdge expansionBox, boxCenter expansionBox],
      [boxCenter expansionBox] @ elbowV (bottomEdge expansionBox) (rightEdge deliveriesBox) @ [boxCenter deliveriesBox],
      [boxCenter deliveriesBox, rightEdge deliveriesBox, leftEdge deliveryLoopBox, boxCenter deliveryLoopBox]]"
  by (simp add: HOP_PATHS_def WIRES_def)

lemma hops_on_screen: "\<forall>ps\<in>set HOP_PATHS. ps \<noteq> [] \<and> (\<forall>p\<in>set ps. on_screen p)"
  by (simp add: hop_paths layout on_screen_def Let_def)

lemma receiver_cases: "r < 3 \<Longrightarrow> r = 0 \<or> r = Suc 0 \<or> r = (2 :: nat)"
  by auto

lemma receiver_on_screen:
  assumes "r < 3"
  shows "\<forall>p\<in>set (receiverHopPoints r). on_screen p" "on_screen (receiverCenter r)"
  using receiver_cases [OF assms] by (auto simp: receiverHopPoints_def layout on_screen_def Let_def RECEIVERS_def)

lemma smod_pos: "0 \<le> (x :: int) \<Longrightarrow> 0 < m \<Longrightarrow> x smod m = x mod m"
  by (cases "x = 0") (simp_all add: smod_int_alt_def)

lemma packet_indices:
  assumes "0 \<le> p"
  shows "pk_stageIndex (packetState hypot p) = \<lfloor>p\<rfloor> mod 7" "pk_receiverIndex (packetState hypot p) = \<lfloor>p\<rfloor> div 7 mod 3"
proof -
  have lap: "\<lfloor>p / 7\<rfloor> = \<lfloor>p\<rfloor> div 7"
  proof (rule floor_unique)
    have "7 * (\<lfloor>p\<rfloor> div 7) \<le> \<lfloor>p\<rfloor>" "\<lfloor>p\<rfloor> + 1 \<le> 7 * (\<lfloor>p\<rfloor> div 7) + 7" by simp_all
    then have "of_int (7 * (\<lfloor>p\<rfloor> div 7)) \<le> p" "p < of_int (7 * (\<lfloor>p\<rfloor> div 7) + 7)" by (simp_all add: le_floor_iff [symmetric] floor_less_iff [symmetric] del: of_int_mult of_int_add)
    then show "of_int (\<lfloor>p\<rfloor> div 7) \<le> p / 7" "p / 7 < of_int (\<lfloor>p\<rfloor> div 7) + 1" by simp_all
  qed
  show "pk_stageIndex (packetState hypot p) = \<lfloor>p\<rfloor> mod 7" by (simp add: packetState_def Let_def smod_pos assms)
  have "(\<lfloor>p / 7\<rfloor> smod 3 + 3) smod 3 = \<lfloor>p / 7\<rfloor> mod 3" using assms by (simp add: smod_pos)
  then show "pk_receiverIndex (packetState hypot p) = \<lfloor>p\<rfloor> div 7 mod 3" by (simp add: packetState_def Let_def lap)
qed


text \<open>A packet is always on the diagram.\<close>

lemma packet_on_screen:
  assumes hypot: "length_ok hypot" and p: "0 \<le> p"
  shows "on_screen (pk_point (packetState hypot p))"
proof -
  let ?s = "\<lfloor>p\<rfloor> mod 7" and ?r = "nat (\<lfloor>p\<rfloor> div 7 mod 3)"
  have s: "\<lfloor>p\<rfloor> smod 7 = ?s" by (simp add: smod_pos p)
  have r: "((\<lfloor>p / 7\<rfloor> smod 3 + 3) smod 3) = \<lfloor>p\<rfloor> div 7 mod 3" using packet_indices(2) [OF p, of hypot] by (simp add: packetState_def Let_def)
  have r3: "?r < 3" by simp
  have hop: "on_screen (pointAlongPath hypot (HOP_PATHS ! nat ?s) t)" if "?s < 5" for t
  proof -
    have "HOP_PATHS ! nat ?s \<in> set HOP_PATHS" using that by (intro nth_mem) simp
    with hops_on_screen show ?thesis by (intro path_on_screen [OF hypot]) auto
  qed
  have last: "on_screen (pointAlongPath hypot (receiverHopPoints ?r) t)" for t
    using path_on_screen [OF hypot receiver_on_screen(1) [OF r3]] by (simp add: receiverHopPoints_def Let_def)
  show ?thesis using hop last receiver_on_screen(2) [OF r3] by (simp add: packetState_def Let_def s r)
qed

text \<open>A packet does not jump: where it arrives at the end of a hop it is at the start of the next one.\<close>

lemma hops_join:
  assumes hypot: "length_ok hypot"
  shows "k < 4 \<Longrightarrow> pointAlongPath hypot (HOP_PATHS ! k) 1 = pointAlongPath hypot (HOP_PATHS ! Suc k) 0"
    "pointAlongPath hypot (HOP_PATHS ! 4) 1 = pointAlongPath hypot (receiverHopPoints r) 0"
    "pointAlongPath hypot (receiverHopPoints r) 1 = receiverCenter r"
proof -
  have nonempty: "HOP_PATHS ! k \<noteq> []" if "k < 5" for k using hops_on_screen that nth_mem [of k HOP_PATHS] by simp
  have "k < 4 \<Longrightarrow> last (HOP_PATHS ! k) = hd (HOP_PATHS ! Suc k)"
    by (auto simp: hop_paths elbowH_def elbowV_def Let_def less_Suc_eq numeral_eq_Suc)
  then show "k < 4 \<Longrightarrow> pointAlongPath hypot (HOP_PATHS ! k) 1 = pointAlongPath hypot (HOP_PATHS ! Suc k) 0"
    using path_ends [OF hypot nonempty] by simp
  show "pointAlongPath hypot (HOP_PATHS ! 4) 1 = pointAlongPath hypot (receiverHopPoints r) 0"
    using path_ends [OF hypot nonempty [of 4]] path_ends [OF hypot, of "receiverHopPoints r"]
    by (simp add: hop_paths receiverHopPoints_def Let_def)
  show "pointAlongPath hypot (receiverHopPoints r) 1 = receiverCenter r"
    using path_ends [OF hypot, of "receiverHopPoints r"] by (simp add: receiverHopPoints_def Let_def)
qed

section \<open>Runs of the component\<close>

text \<open>The states the component can be in, and the invariant of its counters.\<close>

inductive diagram_run :: "diagram \<Rightarrow> bool" where
  opened: "diagram_run diagram_open"
| stepped: "diagram_run st \<Longrightarrow> diagram_run (diagram_step ev st)"

definition diagram_ok :: "diagram \<Rightarrow> bool" where
  "diagram_ok st \<longleftrightarrow> 0 \<le> dg_progress st \<and> dg_scenarioIndex st < length SCENARIOS \<and>
     (\<exists>k. k \<le> dg_tickCount st \<and> dg_published st = k * bandMultiplier st \<and> dg_delivered st = k * (bandMultiplier st - 1))"

lemma band_pos: "1 \<le> bandMultiplier st"
  by (cases "dg_band st") (simp_all add: bandMultiplier_def BAND_MULTIPLIER_def)

lemma tick_ok: "diagram_ok st \<Longrightarrow> diagram_ok (tick st)"
proof -
  assume "diagram_ok st"
  then obtain k where "k \<le> dg_tickCount st" "dg_published st = k * bandMultiplier st" "dg_delivered st = k * (bandMultiplier st - 1)"
    "0 \<le> dg_progress st" "dg_scenarioIndex st < length SCENARIOS" by (auto simp: diagram_ok_def)
  then show ?thesis by (auto simp: diagram_ok_def tick_def bandMultiplier_def intro!: exI [of _ "Suc k"])
qed

lemma reset_ok: "dg_scenarioIndex st < length SCENARIOS \<Longrightarrow> diagram_ok (reset_counters st)"
  by (auto simp: diagram_ok_def reset_counters_def)

lemma tick_selection [simp]: "selection (tick st) = selection st" "dg_scenarioIndex (tick st) = dg_scenarioIndex st"
  by (simp_all add: tick_def selection_def)

lemma findIndex_less: "findIndex P xs = Some i \<Longrightarrow> i < length xs"
  unfolding findIndex_def find_Some_iff by auto

lemma effects_ok:
  assumes "dg_scenarioIndex st < length SCENARIOS" "selection st = selection prev \<Longrightarrow> diagram_ok st"
  shows "diagram_ok (effects prev st)"
  using assms tick_ok reset_ok by (simp add: effects_def Let_def)

lemma set_ok:
  assumes "diagram_ok st"
  shows "dg_scenarioIndex (diagram_set ev st) < length SCENARIOS"
    "selection (diagram_set ev st) = selection st \<Longrightarrow> diagram_ok (diagram_set ev st)"
  using assms
  by (auto simp: diagram_set_def diagram_ok_def frame_def bandMultiplier_def selection_def FRAME_MS_def TICK_MS_def
      split: diagram_event.splits option.splits dest: findIndex_less)

lemma run_ok: "diagram_run st \<Longrightarrow> diagram_ok st"
proof (induction rule: diagram_run.induct)
  case opened
  show ?case by (auto simp: diagram_open_def diagram_ok_def reset_counters_def tick_def SCENARIOS_def intro: exI [of _ 0])
next
  case (stepped st ev)
  have "diagram_ok (effects st (diagram_set ev st))" by (rule effects_ok) (use set_ok [OF stepped(2)] in auto)
  then have "dg_scenarioIndex (effects st (diagram_set ev st)) < length SCENARIOS" "diagram_ok (effects st (diagram_set ev st))"
    by (simp_all add: diagram_ok_def)
  then have "diagram_ok (effects (diagram_set ev st) (effects st (diagram_set ev st)))" by (rule effects_ok)
  then show ?case by (simp add: diagram_step_def commit_def Let_def)
qed

text \<open>At the lowest band nothing is ever delivered, however much is published.\<close>

theorem diagram_counters:
  assumes "diagram_run st"
  shows "bandMultiplier st * dg_delivered st = (bandMultiplier st - 1) * dg_published st \<and>
    (dg_band st = Band_1K \<longrightarrow> dg_delivered st = 0) \<and> dg_delivered st \<le> dg_published st"
  using run_ok [OF assms] by (auto simp: diagram_ok_def bandMultiplier_def BAND_MULTIPLIER_def)

text \<open>Every box of the pipeline and some receiver is highlighted at every moment, for there is a packet in every stage.\<close>

lemma stages_covered:
  fixes p :: rat and n :: nat
  assumes p: "0 \<le> p" and n: "7 \<le> n" and s: "0 \<le> s" "s < (7 :: int)"
  shows "\<exists>i<n. \<lfloor>p + of_nat i * (7 / of_nat n)\<rfloor> mod 7 = s"
proof -
  define d :: rat where "d = 7 / of_nat n"
  have step: "0 < d" "d \<le> 1" "6 / d + 1 \<le> of_nat n" using n by (simp_all add: d_def field_simps)
  define N where "N = \<lfloor>p\<rfloor> + (s - \<lfloor>p\<rfloor>) mod 7"
  have "N mod 7 = s" using s by (simp add: N_def mod_simps)
  moreover have "\<exists>i<n. \<lfloor>p + of_nat i * d\<rfloor> = N"
  proof (cases "N = \<lfloor>p\<rfloor>")
    case True
    then show ?thesis using n by (intro exI [of _ 0]) simp
  next
    case False
    have "0 \<le> (s - \<lfloor>p\<rfloor>) mod 7" "(s - \<lfloor>p\<rfloor>) mod 7 < 7" by simp_all
    with False have "\<lfloor>p\<rfloor> + 1 \<le> N" "N \<le> \<lfloor>p\<rfloor> + 6" unfolding N_def by linarith+
    then have above: "p < of_int N" "of_int N \<le> p + 6" by linarith+
    define x where "x = (of_int N - p) / d"
    have x: "0 < x" "x * d = of_int N - p" using above step by (simp_all add: x_def)
    have "x \<le> 6 / d" unfolding x_def using above step by (intro divide_right_mono) simp_all
    then have small: "x + 1 \<le> of_nat n" using step by simp
    define i where "i = nat \<lceil>x\<rceil>"
    have i: "of_nat i = (of_int \<lceil>x\<rceil> :: rat)" using x by (simp add: i_def)
    have near: "x \<le> of_nat i" "of_nat i < x + 1" unfolding i by linarith+
    then have "i < n" using small by (metis of_nat_less_iff order_less_le_trans)
    have "x * d \<le> of_nat i * d" by (rule mult_right_mono) (use near step in simp_all)
    moreover have "of_nat i * d < (x + 1) * d" by (rule mult_strict_right_mono) (use near step in simp_all)
    ultimately have "\<lfloor>p + of_nat i * d\<rfloor> = N" using x step by (intro floor_unique) (simp_all add: distrib_right)
    with \<open>i < n\<close> show ?thesis by blast
  qed
  ultimately show ?thesis unfolding d_def by blast
qed

theorem every_box_highlighted:
  assumes "diagram_run st"
  shows "activeNodeStages (packets hypot st) = {0..5} \<and> activeReceivers (packets hypot st) \<noteq> {}"
proof -
  let ?p = "\<lambda>i. dg_progress st + of_nat i * (7 / of_nat (packetCount st))"
  have pos: "0 \<le> ?p i" for i using run_ok [OF assms] by (simp add: diagram_ok_def)
  have n: "7 \<le> packetCount st" using band_pos [of st] by (simp add: packetCount_def)
  have packets: "packets hypot st = map (\<lambda>i. packetState hypot (?p i)) [0..<packetCount st]" by (simp add: packets_def)
  have hit: "\<exists>i<packetCount st. pk_stageIndex (packetState hypot (?p i)) = s" if "0 \<le> s" "s < 7" for s
    using stages_covered [OF pos [of 0, simplified] n that] packet_indices(1) [OF pos] by simp
  have "s < 6 \<Longrightarrow> 0 \<le> s \<Longrightarrow> s \<in> activeNodeStages (packets hypot st)" for s
    using hit [of s] by (auto simp: activeNodeStages_def packets)
  moreover have "0 \<le> pk_stageIndex (packetState hypot (?p i))" for i using packet_indices(1) [OF pos] by simp
  ultimately have "activeNodeStages (packets hypot st) = {0..5}" by (force simp: activeNodeStages_def packets)
  moreover have "activeReceivers (packets hypot st) \<noteq> {}"
    using hit [of 6] by (force simp: activeReceivers_def packets)
  ultimately show ?thesis by blast
qed

text \<open>All packets of a reachable state are on the diagram, and the other statistics stay near the band.\<close>

theorem packets_on_screen:
  assumes "diagram_run st" "length_ok hypot"
  shows "\<forall>pk\<in>set (packets hypot st). on_screen (pk_point pk)"
  using run_ok [OF assms(1)] packet_on_screen [OF assms(2)] by (auto simp: packets_def diagram_ok_def)

theorem statistics_bounds:
  assumes "\<forall>x. - 1 \<le> sin_of x \<and> sin_of x \<le> 1"
  shows "2 * int (bandMultiplier st) \<le> queueDepth sin_of st \<and> queueDepth sin_of st \<le> 4 * int (bandMultiplier st) \<and>
    1 \<le> inFlight st \<and> inFlight st \<le> LANDING_WORKER_COUNT"
proof -
  let ?m = "of_nat (bandMultiplier st) :: rat" and ?w = "sin_of (of_nat (dg_tickCount st) / 2)"
  have "- 1 * ?m \<le> ?w * ?m" "?w * ?m \<le> 1 * ?m" using assms by (intro mult_right_mono; simp)+
  then have "2 * ?m \<le> ?m * 3 + ?w * ?m" "?m * 3 + ?w * ?m \<le> 4 * ?m" by simp_all
  then have "2 * int (bandMultiplier st) \<le> js_Math_round (?m * 3 + ?w * ?m)" "js_Math_round (?m * 3 + ?w * ?m) \<le> 4 * int (bandMultiplier st)"
    by (simp_all add: js_Math_round_def le_floor_iff floor_le_iff)
  then show ?thesis by (simp add: queueDepth_def inFlight_def LANDING_WORKER_COUNT_def less_Suc_eq_le [symmetric])
qed


section \<open>The page\<close>

text \<open>The values of an attribute anywhere in a tree.\<close>

definition own_values :: "string \<Rightarrow> 'a attr list \<Rightarrow> string list" where
  "own_values n as = concat (map (\<lambda>a. case a of At m v \<Rightarrow> if m = n then [v] else [] | _ \<Rightarrow> []) as)"

fun attr_values :: "string \<Rightarrow> 'a ui \<Rightarrow> string list" where
  "attr_values n (Txt w) = []"
| "attr_values n Throws = []"
| "attr_values n (El tag as cs) = own_values n as @ concat (map (attr_values n) cs)"

lemmas landing_parts = Landing_def landing_header_def landing_hero_def landing_pipeline_def landing_results_def landing_guarantees_def
  landing_example_def landing_footer_def

lemma block_values:
  "attr_values n (Badge t cs) = concat (map (attr_values n) cs)" "attr_values n (Button v [] d st cs) = concat (map (attr_values n) cs)"
  "attr_values n (Card m st cs) = concat (map (attr_values n) cs)"
  by (cases m; simp add: Badge_def Button_def Card_def own_values_def)+

lemma own_values_parts:
  "own_values n [] = []" "own_values n (Css c # as) = own_values n as" "own_values n (At m v # as) = (if m = n then [v] else []) @ own_values n as"
  by (simp_all add: own_values_def)

text \<open>Every anchor of the page names one of its sections, and every link of the router leads to the overview.\<close>

theorem landing_anchors:
  assumes "attr_values ''href'' child = []" "links child = []"
  shows "(\<forall>w\<in>set (attr_values ''href'' (Landing child)). w = ''https://gitlab.com'' \<or> (\<exists>i\<in>set (attr_values ''id'' (Landing child)). w = CHR ''#'' # i)) \<and>
    set (links (Landing child)) = {''/console/overview''}"
  using assms
  by (simp add: landing_parts block_values own_values_parts ui_parts comp_def guarantee_cards_def run_results_def exampleAttempts_def)

text \<open>What the diagram offers, and that a scenario is selected by its label.\<close>

lemma diagram_offers:
  "enabled (PipelineDiagram M st) =
     [Pick_runtime Node, Pick_runtime Go_runtime, Pick_band Band_1K, Pick_band Band_10K, Pick_band Band_1M] @
     map (\<lambda>s. Pick_scenario (fst s)) SCENARIOS @ [Play_pause]"
proof -
  have "concat (map enabled (node_cards num active)) = []" "concat (map enabled (receiver_cards num active')) = []"
    "concat (map enabled (packet_dots num pks)) = []" for num active active' pks
    by (simp_all add: node_cards_def receiver_cards_def packet_dots_def PipelineTag_def ui_parts comp_def case_prod_beta)
  moreover have "enabled (wire_backdrop num :: diagram_event ui) = []" for num
    by (simp add: wire_backdrop_def wire_group_def ui_parts comp_def case_prod_beta)
  moreover have "concat (map enabled (postgres_frame :: diagram_event ui list)) = []" by (simp add: postgres_frame_def ui_parts)
  moreover have "enabled (diagram_figures sin_of st) = []" for sin_of by (simp add: diagram_figures_def Stat_def ui_parts)
  ultimately show ?thesis
    by (simp add: PipelineDiagram_def Let_def diagram_controls_def SegGroup_def ui_parts comp_def case_prod_beta RUNTIMES_def BANDS_def SCENARIOS_def)
qed

lemma scenario_selected:
  assumes "i < length SCENARIOS"
  shows "dg_scenarioIndex (diagram_step (Pick_scenario (fst (SCENARIOS ! i))) st) = i"
proof -
  have "distinct (map fst SCENARIOS)" by (simp add: SCENARIOS_def)
  then have "fst (SCENARIOS ! j) = fst (SCENARIOS ! i) \<longleftrightarrow> j = i" if "j < length SCENARIOS" for j
    using assms that by (metis length_map nth_eq_iff_index_eq nth_map)
  then have "findIndex (\<lambda>s. fst s = fst (SCENARIOS ! i)) SCENARIOS = Some i"
    using assms by (auto simp: findIndex_def find_Some_iff)
  moreover have "dg_scenarioIndex (effects p v) = dg_scenarioIndex v" for p v
    by (simp add: effects_def Let_def reset_counters_def tick_def)
  ultimately show ?thesis by (simp add: diagram_step_def commit_def Let_def diagram_set_def)
qed

end
