(* ===== verification/Migrations.thy ===== *)
theory Migrations
  imports Demo "HOL-Library.List_Lexorder" "HOL-Library.Char_ord"
begin

text \<open>
  The migration runners, \<^verbatim>\<open>node/src/db/migrate.ts\<close> and \<open>applyMigrations\<close> of
  \<^verbatim>\<open>node/scripts/scenarioHarness.ts\<close>, and the database setup of the scenario scripts.

  A database is its \<^verbatim>\<open>schema_migrations\<close> rows (None before the table exists) and its tables (None before
  the first migration creates them).  The effect of a migration file's SQL text on the tables is the
  parameter \<open>run\<close> (None: the server reports an error), the directory is the list \<open>dir\<close> of its file
  names, \<open>read\<close> gives their contents.
\<close>

section \<open>State\<close>

record pg_db =
  pg_migrations :: "string list option"
  pg_tables :: "db option"

datatype migrate_error = Read_failed string | Sql_failed string | No_such_table

definition create_migrations_table :: "pg_db \<Rightarrow> pg_db" where
  "create_migrations_table m = (case pg_migrations m of None \<Rightarrow> m\<lparr>pg_migrations := Some []\<rparr> | Some _ \<Rightarrow> m)"

definition applied_files :: "pg_db \<Rightarrow> string list" where
  "applied_files m = (case pg_migrations m of None \<Rightarrow> [] | Some fs \<Rightarrow> fs)"

definition ends_with :: "string \<Rightarrow> string \<Rightarrow> bool" where
  "ends_with sfx s \<longleftrightarrow> length sfx \<le> length s \<and> drop (length s - length sfx) s = sfx"

definition sql_files :: "string list \<Rightarrow> string list" where
  "sql_files dir = sort (filter (ends_with ''.sql'') dir)"

section \<open>The runner\<close>

text \<open>
  One transaction per file: the file's SQL, then the bookkeeping row, whose primary key may already be
  there; an error rolls both back.
\<close>

definition apply_file :: "(string \<Rightarrow> db option \<Rightarrow> db option option) \<Rightarrow> string \<Rightarrow> string \<Rightarrow> pg_db \<Rightarrow> pg_db option" where
  "apply_file run file sql m =
     (case run sql (pg_tables m) of
        None \<Rightarrow> None
      | Some tb \<Rightarrow>
          if file \<in> set (applied_files m) then None
          else Some (m\<lparr>pg_tables := tb, pg_migrations := Some (applied_files m @ [file])\<rparr>))"

fun migrate_loop ::
    "(string \<Rightarrow> string option) \<Rightarrow> (string \<Rightarrow> db option \<Rightarrow> db option option) \<Rightarrow> string set \<Rightarrow> string list \<Rightarrow> pg_db \<Rightarrow>
     migrate_error option \<times> pg_db" where
  "migrate_loop read run applied [] m = (None, m)"
| "migrate_loop read run applied (file # files) m =
     (if file \<in> applied then migrate_loop read run applied files m
      else case read file of
        None \<Rightarrow> (Some (Read_failed file), m)
      | Some sql \<Rightarrow>
          (case apply_file run file sql m of
             None \<Rightarrow> (Some (Sql_failed file), m)
           | Some m' \<Rightarrow> migrate_loop read run applied files m'))"

definition migrate ::
    "string list \<Rightarrow> (string \<Rightarrow> string option) \<Rightarrow> (string \<Rightarrow> db option \<Rightarrow> db option option) \<Rightarrow> pg_db \<Rightarrow>
     migrate_error option \<times> pg_db" where
  "migrate dir read run m =
     (let m1 = create_migrations_table m;
          files = sql_files dir;
          applied = set (applied_files m1)
      in migrate_loop read run applied files m1)"

text \<open>The exit code of \<^verbatim>\<open>npm run migrate\<close>.\<close>

definition migrate_exit :: "migrate_error option \<Rightarrow> nat" where
  "migrate_exit r = (case r of None \<Rightarrow> 0 | Some _ \<Rightarrow> 1)"

section \<open>Scenario databases\<close>

text \<open>\<open>cluster\<close>: the databases of the server by name.\<close>

definition ensureDatabase :: "string \<Rightarrow> (string \<rightharpoonup> pg_db) \<Rightarrow> (string \<rightharpoonup> pg_db)" where
  "ensureDatabase dbName cluster =
     (case cluster dbName of
        None \<Rightarrow> cluster(dbName \<mapsto> \<lparr>pg_migrations = None, pg_tables = None\<rparr>)
      | Some _ \<Rightarrow> cluster)"

definition applyMigrations ::
    "string list \<Rightarrow> (string \<Rightarrow> string option) \<Rightarrow> (string \<Rightarrow> db option \<Rightarrow> db option option) \<Rightarrow> pg_db \<Rightarrow>
     migrate_error option \<times> pg_db" where
  "applyMigrations dir read run m =
     (let m1 = create_migrations_table m;
          files = sql_files dir;
          applied = set (applied_files m1)
      in migrate_loop read run applied files m1)"

text \<open>\<^verbatim>\<open>TRUNCATE tenants, endpoints, events, deliveries, attempts, replays RESTART IDENTITY CASCADE\<close>.\<close>

definition truncate_tables :: "db \<Rightarrow> db" where
  "truncate_tables s = s\<lparr>tenants := [], endpoints := [], events := [], deliveries := [], attempts := [], replays := [],
     ev_next_seq := 1, d_next_seq := 1\<rparr>"

definition setupDatabase ::
    "string list \<Rightarrow> (string \<Rightarrow> string option) \<Rightarrow> (string \<Rightarrow> db option \<Rightarrow> db option option) \<Rightarrow> string \<Rightarrow>
     (string \<rightharpoonup> pg_db) \<Rightarrow> migrate_error option \<times> (string \<rightharpoonup> pg_db)" where
  "setupDatabase dir read run dbName cluster =
     (let cluster = ensureDatabase dbName cluster;
          (err, m) = applyMigrations dir read run (the (cluster dbName))
      in case err of
           Some e \<Rightarrow> (Some e, cluster(dbName \<mapsto> m))
         | None \<Rightarrow>
             (case pg_tables m of
                None \<Rightarrow> (Some No_such_table, cluster(dbName \<mapsto> m))
              | Some s \<Rightarrow> (None, cluster(dbName \<mapsto> m\<lparr>pg_tables := Some (truncate_tables s)\<rparr>))))"

text \<open>The tenant fixture of the scripts, with the same INSERT as \<open>seed_tenant\<close>.\<close>

definition createTenant :: "crypto \<Rightarrow> ts \<Rightarrow> bytes \<Rightarrow> string \<Rightarrow> db \<Rightarrow> (uuid \<times> string \<times> db) option" where
  "createTenant X now rnd name s =
     (let apiKey = generateSecret rnd ''tenant''; h = hashApiKey X apiKey;
          (i, s1) = gen_random_uuid s;
          row = \<lparr>tn_id = i, tn_name = name, tn_api_key_hash = h, tn_last_served_at = None, tn_created_at = now\<rparr>
      in if h \<in> tn_api_key_hash ` set (tenants s) then None
         else Some (i, apiKey, s1\<lparr>tenants := tenants s1 @ [row]\<rparr>))"

section \<open>Running the files one after another\<close>

text \<open>The reference: the SQL of a list of files, run in order; None when a file is missing or fails.\<close>

fun run_files ::
    "(string \<Rightarrow> string option) \<Rightarrow> (string \<Rightarrow> db option \<Rightarrow> db option option) \<Rightarrow> string list \<Rightarrow> db option \<Rightarrow> db option option" where
  "run_files read run [] tb = Some tb"
| "run_files read run (f # fs) tb =
     (case read f of None \<Rightarrow> None
      | Some sql \<Rightarrow> (case run sql tb of None \<Rightarrow> None | Some tb' \<Rightarrow> run_files read run fs tb'))"

lemma run_files_append:
  "run_files read run (xs @ ys) tb =
     (case run_files read run xs tb of None \<Rightarrow> None | Some tb' \<Rightarrow> run_files read run ys tb')"
  by (induction xs arbitrary: tb) (auto split: option.splits)

definition todo :: "string set \<Rightarrow> string list \<Rightarrow> string list" where
  "todo applied files = filter (\<lambda>f. f \<notin> applied) files"

lemma todo_simps [simp]:
  "todo A [] = []"
  "todo A (f # fs) = (if f \<in> A then todo A fs else f # todo A fs)"
  by (simp_all add: todo_def)

lemma set_todo [simp]: "set (todo A fs) = set fs - A"
  by (auto simp: todo_def)

lemma todo_done: "distinct fs \<Longrightarrow> k \<le> length (todo A fs) \<Longrightarrow> todo (A \<union> set (take k (todo A fs))) fs = drop k (todo A fs)"
proof -
  assume d: "distinct fs" "k \<le> length (todo A fs)"
  let ?t = "todo A fs"
  have "distinct ?t" using d(1) by (simp add: todo_def)
  then have disj: "set (take k ?t) \<inter> set (drop k ?t) = {}" by (simp add: set_take_disj_set_drop_if_distinct)
  have "todo (A \<union> set (take k ?t)) fs = filter (\<lambda>f. f \<notin> set (take k ?t)) ?t"
    by (auto simp: todo_def intro!: filter_cong)
  also have "\<dots> = filter (\<lambda>f. f \<notin> set (take k ?t)) (take k ?t @ drop k ?t)" by simp
  also have "\<dots> = drop k ?t" unfolding filter_append using disj by (auto simp: filter_empty_conv filter_id_conv)
  finally show ?thesis .
qed

text \<open>What a run leaves: a prefix of the files still to do is applied and recorded, in order.\<close>

definition ran :: "(string \<Rightarrow> string option) \<Rightarrow> (string \<Rightarrow> db option \<Rightarrow> db option option) \<Rightarrow> string list \<Rightarrow>
    pg_db \<Rightarrow> migrate_error option \<times> pg_db \<Rightarrow> nat \<Rightarrow> bool" where
  "ran read run fs m r k \<longleftrightarrow> k \<le> length fs \<and> (fst r = None \<longleftrightarrow> k = length fs) \<and>
     pg_migrations (snd r) = Some (applied_files m @ take k fs) \<and>
     run_files read run (take k fs) (pg_tables m) = Some (pg_tables (snd r)) \<and>
     (k < length fs \<longrightarrow> run_files read run (take (Suc k) fs) (pg_tables m) = None)"

lemma applied_files_Some [simp]: "pg_migrations m = Some fs \<Longrightarrow> applied_files m = fs"
  by (simp add: applied_files_def)

lemma migrate_loop_ran:
  assumes "pg_migrations m \<noteq> None" "distinct files" "set (applied_files m) \<inter> set files \<subseteq> A"
  shows "\<exists>k. ran read run (todo A files) m (migrate_loop read run A files m) k"
  using assms
proof (induction files arbitrary: m)
  case Nil
  then show ?case by (auto simp: ran_def applied_files_def intro!: exI [of _ 0])
next
  case (Cons f fs)
  show ?case
  proof (cases "f \<in> A")
    case True
    have "set (applied_files m) \<inter> set fs \<subseteq> A" "distinct fs" using Cons.prems by auto
    then show ?thesis using Cons.IH [of m] Cons.prems(1) True by simp
  next
    case False
    have stop: ?thesis if "run_files read run [f] (pg_tables m) = None" "\<exists>e. migrate_loop read run A (f # fs) m = (Some e, m)"
    proof -
      from that(2) obtain e where e: "migrate_loop read run A (f # fs) m = (Some e, m)" by blast
      have t: "todo A (f # fs) = f # todo A fs" using False by simp
      have "ran read run (f # todo A fs) m (Some e, m) 0"
        using that(1) Cons.prems(1) by (auto simp: ran_def applied_files_def simp del: run_files.simps(2))
      then show ?thesis unfolding e t by blast
    qed
    show ?thesis
    proof (cases "read f")
      case None
      then show ?thesis using False by (intro stop) simp_all
    next
      case (Some sql)
      show ?thesis
      proof (cases "run sql (pg_tables m)")
        case None
        then show ?thesis using Some False by (intro stop) (simp_all add: apply_file_def)
      next
        case r: (Some tb)
        let ?m = "m\<lparr>pg_tables := tb, pg_migrations := Some (applied_files m @ [f])\<rparr>"
        have ap: "apply_file run f sql m = Some ?m" using r False Cons.prems(3) by (auto simp: apply_file_def)
        have "set (applied_files ?m) \<inter> set fs \<subseteq> A" using Cons.prems(2,3) by auto
        then obtain k where k: "ran read run (todo A fs) ?m (migrate_loop read run A fs ?m) k"
          using Cons.IH [of ?m] Cons.prems(2) by auto
        have "ran read run (f # todo A fs) m (migrate_loop read run A fs ?m) (Suc k)"
          using k Some r by (auto simp: ran_def)
        then show ?thesis using False Some ap by auto
      qed
    qed
  qed
qed

lemma distinct_sql_files: "distinct dir \<Longrightarrow> distinct (sql_files dir)"
  by (simp add: sql_files_def)

lemma migrate_ran:
  assumes "distinct dir"
  obtains k where "ran read run (todo (set (applied_files m)) (sql_files dir)) m (migrate dir read run m) k"
proof -
  let ?m = "create_migrations_table m"
  have eq: "applied_files ?m = applied_files m" "pg_tables ?m = pg_tables m" "pg_migrations ?m \<noteq> None"
    by (auto simp: create_migrations_table_def applied_files_def split: option.splits)
  obtain k where "ran read run (todo (set (applied_files ?m)) (sql_files dir)) ?m
      (migrate_loop read run (set (applied_files ?m)) (sql_files dir) ?m) k"
    using migrate_loop_ran [OF eq(3) distinct_sql_files [OF assms], of "set (applied_files ?m)"] by auto
  then show thesis using that by (auto simp: migrate_def Let_def ran_def eq)
qed

section \<open>The properties\<close>

text \<open>
  C37. A migration run applies, in the sorted order of their names, the pending .sql files of the
  directory up to the first that fails, each once and together with its bookkeeping row, and answers
  no error exactly when none is left. A run that stopped leaves only the rest: after the next
  successful run every file is recorded once and the tables are what the pending files give when
  they are run one after another, whatever happened in between.
\<close>

theorem migrations_resume:
  assumes "distinct dir"
    and "migrate dir read run m = (err, m1)" and "migrate dir read' run' m1 = (None, m2)"
  shows "\<exists>k. let fs = filter (\<lambda>f. f \<notin> set (applied_files m)) (sort (filter (ends_with ''.sql'') dir)) in
      k \<le> length fs \<and> (err = None \<longleftrightarrow> k = length fs) \<and>
      pg_migrations m1 = Some (applied_files m @ take k fs) \<and>
      run_files read run (take k fs) (pg_tables m) = Some (pg_tables m1) \<and>
      pg_migrations m2 = Some (applied_files m @ fs) \<and>
      run_files read' run' (drop k fs) (pg_tables m1) = Some (pg_tables m2) \<and>
      migrate dir read' run' m2 = (None, m2)"
proof -
  define fs where "fs = todo (set (applied_files m)) (sql_files dir)"
  obtain k where k: "ran read run fs m (err, m1) k"
    using migrate_ran [OF assms(1), of read run m] assms(2) by (auto simp: fs_def)
  then have m1: "pg_migrations m1 = Some (applied_files m @ take k fs)" "k \<le> length fs" by (simp_all add: ran_def)
  have fs2: "todo (set (applied_files m1)) (sql_files dir) = drop k fs"
    using todo_done [OF distinct_sql_files [OF assms(1)]] m1 by (simp add: fs_def)
  then obtain k2 where k2: "ran read' run' (drop k fs) m1 (None, m2) k2"
    using migrate_ran [OF assms(1), of read' run' m1] assms(3) by auto
  then have "run_files read' run' (drop k fs) (pg_tables m1) = Some (pg_tables m2)" by (auto simp: ran_def)
  moreover have m2: "pg_migrations m2 = Some (applied_files m @ fs)" using k2 m1 by (simp add: ran_def)
  moreover have "migrate dir read' run' m2 = (None, m2)"
  proof -
    have "todo (set (applied_files m2)) (sql_files dir) = []"
      using m2 todo_done [OF distinct_sql_files [OF assms(1)], of "length fs" "set (applied_files m)"] by (simp add: fs_def)
    then obtain k3 where k3: "ran read' run' [] m2 (migrate dir read' run' m2) k3"
      using migrate_ran [OF assms(1), of read' run' m2] by auto
    then show ?thesis
      using m2 by (cases "migrate dir read' run' m2") (auto simp: ran_def applied_files_def intro!: pg_db.equality)
  qed
  ultimately show ?thesis
    using k m2 by (intro exI [of _ k]) (simp add: ran_def fs_def [unfolded todo_def sql_files_def, symmetric] Let_def)
qed

text \<open>The first file fails once, the next run applies both.\<close>

definition demo_dir :: "string list" where
  "demo_dir = [''002_b.sql'', ''notes.md'', ''001_a.sql'']"

theorem migrations_resume_witness:
  "\<exists>k. let fs = filter (\<lambda>f. f \<notin> set (applied_files \<lparr>pg_migrations = None, pg_tables = None\<rparr>))
        (sort (filter (ends_with ''.sql'') demo_dir)) in
      k \<le> length fs \<and> (Some (Sql_failed ''002_b.sql'') = None \<longleftrightarrow> k = length fs) \<and>
      Some [''001_a.sql''] = Some (applied_files \<lparr>pg_migrations = None, pg_tables = None\<rparr> @ take k fs) \<and>
      run_files Some (\<lambda>q t. if q = ''002_b.sql'' then None else Some t) (take k fs) None = Some None \<and>
      Some [''001_a.sql'', ''002_b.sql''] = Some (applied_files \<lparr>pg_migrations = None, pg_tables = None\<rparr> @ fs) \<and>
      run_files Some (\<lambda>_. Some) (drop k fs) None = Some None \<and>
      migrate demo_dir Some (\<lambda>_. Some) \<lparr>pg_migrations = Some [''001_a.sql'', ''002_b.sql''], pg_tables = None\<rparr> =
        (None, \<lparr>pg_migrations = Some [''001_a.sql'', ''002_b.sql''], pg_tables = None\<rparr>)"
proof -
  let ?m = "\<lparr>pg_migrations = None, pg_tables = None\<rparr>"
  have d: "distinct demo_dir" by (simp add: demo_dir_def)
  have fs: "sql_files demo_dir = [''001_a.sql'', ''002_b.sql'']" by code_simp
  have 1: "migrate demo_dir Some (\<lambda>q t. if q = ''002_b.sql'' then None else Some t) ?m =
      (Some (Sql_failed ''002_b.sql''), \<lparr>pg_migrations = Some [''001_a.sql''], pg_tables = None\<rparr>)"
    by (simp add: migrate_def fs create_migrations_table_def applied_files_def apply_file_def)
  have 2: "migrate demo_dir Some (\<lambda>_. Some) \<lparr>pg_migrations = Some [''001_a.sql''], pg_tables = None\<rparr> =
      (None, \<lparr>pg_migrations = Some [''001_a.sql'', ''002_b.sql''], pg_tables = None\<rparr>)"
    by (simp add: migrate_def fs create_migrations_table_def applied_files_def apply_file_def)
  show ?thesis
    using migrations_resume [OF d 1 2] by (simp only: pg_db.simps Let_def)
qed

lemma run_files_keeps:
  assumes "\<And>sql tb s. run sql tb = Some (Some s) \<Longrightarrow> P s"
    and "run_files read run fs tb = Some (Some s)" and "\<And>s. tb = Some s \<Longrightarrow> P s"
  shows "P s"
  using assms(2,3)
proof (induction fs arbitrary: tb)
  case (Cons f fs)
  from Cons.prems(1) obtain sql tb' where r: "read f = Some sql" "run sql tb = Some tb'" "run_files read run fs tb' = Some (Some s)"
    by (auto split: option.splits)
  show ?case using Cons.IH [OF r(3)] assms(1) r(2) by blast
qed simp

text \<open>
  A scenario database that was set up without an error has every .sql file of the directory
  recorded, and empty tables on which the invariant of the system holds, whatever an earlier run of the
  scripts left there; no other database of the server is touched. The first tenant created in it can
  always be created and is its only tenant.
\<close>

theorem scenario_starts_clean:
  assumes "distinct dir" and "setupDatabase dir read run dbName cluster = (None, cluster')"
    and "\<And>sql tb s. run sql tb = Some (Some s) \<Longrightarrow> inj (uuid_src s)"
    and "\<And>m s. cluster dbName = Some m \<Longrightarrow> pg_tables m = Some s \<Longrightarrow> inj (uuid_src s)"
  shows "\<exists>m s. cluster' dbName = Some m \<and> pg_tables m = Some s \<and>
      (\<forall>f\<in>set dir. ends_with ''.sql'' f \<longrightarrow> f \<in> set (applied_files m)) \<and>
      sys_ok cfg \<lparr>s_db = s, s_hands = []\<rparr> \<and> (\<forall>d. d \<noteq> dbName \<longrightarrow> cluster' d = cluster d) \<and>
      (\<exists>i key t. createTenant X now rnd name s = Some (i, key, t) \<and> map tn_id (tenants t) = [i] \<and>
         map tn_api_key_hash (tenants t) = [hashApiKey X key])"
proof -
  obtain c where c: "(ensureDatabase dbName cluster) dbName = Some c" "\<And>d. d \<noteq> dbName \<Longrightarrow> (ensureDatabase dbName cluster) d = cluster d"
      "\<And>s. pg_tables c = Some s \<Longrightarrow> inj (uuid_src s)"
    using assms(4) by (cases "cluster dbName") (auto simp: ensureDatabase_def)
  obtain err m where run: "migrate dir read run c = (err, m)" by fastforce
  then have "applyMigrations dir read run c = (err, m)" by (simp add: migrate_def applyMigrations_def)
  with assms(2) c(1) obtain s where ok: "err = None" "pg_tables m = Some s"
      "cluster' = (ensureDatabase dbName cluster)(dbName \<mapsto> m\<lparr>pg_tables := Some (truncate_tables s)\<rparr>)"
    by (auto simp: setupDatabase_def Let_def split: option.splits)
  obtain k where k: "ran read run (todo (set (applied_files c)) (sql_files dir)) c (err, m) k"
    using migrate_ran [OF assms(1), of read run c] run by metis
  then have recorded: "pg_migrations m = Some (applied_files c @ todo (set (applied_files c)) (sql_files dir))"
      and ran: "run_files read run (todo (set (applied_files c)) (sql_files dir)) (pg_tables c) = Some (Some s)"
    using ok(1,2) by (auto simp: ran_def)
  have inj: "inj (uuid_src s)" using run_files_keeps [OF assms(3) ran c(3)] .
  have start: "sys_ok cfg \<lparr>s_db = truncate_tables s, s_hands = []\<rparr>"
    using inj by (simp add: sys_ok_def db_ok_def order_ok_def wf_db_def wf_defs truncate_tables_def single_flight_def
        attempts_numbered_def open_current_def failed_spent_def front_ok_def sent_expanded_def queue_pairs_def first_in_order_def)
  show ?thesis
    unfolding ok(3) using recorded start c(2)
    by (auto simp: createTenant_def truncate_tables_def gen_random_uuid_def Let_def sql_files_def)
qed

text \<open>Migrations that create the tables, on a server without the database.\<close>

definition demo_cluster :: "string \<rightharpoonup> pg_db" where
  "demo_cluster = [''chaos'' \<mapsto> \<lparr>pg_migrations = Some [''001_a.sql'', ''002_b.sql''],
     pg_tables = Some (truncate_tables (empty_db (\<lambda>n. n)))\<rparr>]"

theorem scenario_starts_clean_witness:
  "\<exists>m s. demo_cluster ''chaos'' = Some m \<and> pg_tables m = Some s \<and>
      (\<forall>f\<in>set demo_dir. ends_with ''.sql'' f \<longrightarrow> f \<in> set (applied_files m)) \<and>
      sys_ok demo_cfg \<lparr>s_db = s, s_hands = []\<rparr> \<and> (\<forall>d. d \<noteq> ''chaos'' \<longrightarrow> demo_cluster d = None)"
proof -
  have fs: "sql_files demo_dir = [''001_a.sql'', ''002_b.sql'']" by code_simp
  have ok: "setupDatabase demo_dir Some (\<lambda>_ _. Some (Some (empty_db (\<lambda>n. n)))) ''chaos'' (\<lambda>_. None) = (None, demo_cluster)"
    by (simp add: setupDatabase_def applyMigrations_def ensureDatabase_def fs create_migrations_table_def applied_files_def
        apply_file_def demo_cluster_def)
  have d: "distinct demo_dir" by (simp add: demo_dir_def)
  have i: "inj (uuid_src s)" if "Some (Some (empty_db (\<lambda>n. n))) = Some (Some s)" for s
    using that by (auto simp: empty_db_def)
  show ?thesis
    using scenario_starts_clean [OF d ok i, of demo_cfg toy_crypto 0 "[]" "''chaos''"] by auto
qed

end
