(* ===== verification/Harness.thy ===== *)
theory Harness
  imports Migrations
begin

text \<open>
  The scripts beside the program: \<^verbatim>\<open>node/scripts/scenarioHarness.ts\<close>, \<^verbatim>\<open>node/load/harness.ts\<close> and
  \<^verbatim>\<open>node/chaos/harness.ts\<close>.

  \<^item> Polling: the loops that wait for a condition read it and the clock once per round; \<open>poll_loop\<close> is a
    partial function, that it returns is proved from a clock that advances.
  \<^item> Bulk inserts: the parameter array and the placeholder numbers are built as the code builds them;
    the server binds the placeholders and inserts row by row or fails as a whole.
  \<^item> Scenario results: exit code, log line and evidence file.
\<close>

section \<open>Polling\<close>

datatype 'e poll_end = Ready | Expired | Raised 'e

text \<open>
  Round \<open>i\<close> asks \<open>check i\<close>; \<open>late i\<close> is the comparison with the clock that follows. The answer
  comes with the number of the last round.
\<close>

partial_function (option) poll_loop :: "(nat \<Rightarrow> 'e + bool) \<Rightarrow> (nat \<Rightarrow> bool) \<Rightarrow> nat \<Rightarrow> ('e poll_end \<times> nat) option" where
  "poll_loop check late i =
     (case check i of
        Inl e \<Rightarrow> Some (Raised e, i)
      | Inr ok \<Rightarrow>
          if ok then Some (Ready, i)
          else if late i then Some (Expired, i)
          else poll_loop check late (Suc i))"

text \<open>
  \<open>clock ms i\<close> is \<^verbatim>\<open>Date.now()\<close> in round \<open>i\<close> of a loop that sleeps \<open>ms\<close> between two rounds,
  \<open>t0\<close> the time at its start.
\<close>

definition waitUntil ::
    "(nat \<Rightarrow> 'e + bool) \<Rightarrow> (int \<Rightarrow> nat \<Rightarrow> js_ms) \<Rightarrow> js_ms \<Rightarrow> int \<Rightarrow> int option \<Rightarrow> ('e poll_end \<times> nat) option" where
  "waitUntil check clock t0 timeoutMs intervalMs =
     (let interval = (case intervalMs of None \<Rightarrow> 50 | Some ms \<Rightarrow> ms);
          deadline = t0 + timeoutMs
      in poll_loop check (\<lambda>i. deadline \<le> clock interval i) 0)"

text \<open>\<open>fetch i\<close>: None when the connection is refused, else whether the status is 2xx.\<close>

definition waitForServer ::
    "(nat \<Rightarrow> bool option) \<Rightarrow> (int \<Rightarrow> nat \<Rightarrow> js_ms) \<Rightarrow> js_ms \<Rightarrow> int \<Rightarrow> (unit poll_end \<times> nat) option" where
  "waitForServer fetch clock t0 timeoutMs =
     (let deadline = t0 + timeoutMs
      in poll_loop (\<lambda>i. Inr (fetch i = Some True)) (\<lambda>i. deadline \<le> clock 100 i) 0)"

lemma poll_loop_from:
  assumes "late k" "i \<le> k"
  shows "\<exists>r n. poll_loop check late i = Some (r, n) \<and> i \<le> n \<and> n \<le> k \<and>
    (\<forall>j. i \<le> j \<and> j < n \<longrightarrow> check j = Inr False \<and> \<not> late j) \<and>
    (case r of Ready \<Rightarrow> check n = Inr True | Expired \<Rightarrow> check n = Inr False \<and> late n | Raised e \<Rightarrow> check n = Inl e)"
  using assms(2)
proof (induction "k - i" arbitrary: i)
  case 0
  with assms show ?case
    by (auto simp: poll_loop.simps [of check late i] split: sum.splits)
next
  case (Suc m)
  show ?case
  proof (cases "check i = Inr False \<and> \<not> late i")
    case True
    have "m = k - Suc i" "Suc i \<le> k" using Suc.hyps(2) by simp_all
    from Suc.hyps(1) [OF this] obtain r n where
      "poll_loop check late (Suc i) = Some (r, n)" "Suc i \<le> n" "n \<le> k"
      "\<forall>j. Suc i \<le> j \<and> j < n \<longrightarrow> check j = Inr False \<and> \<not> late j"
      "case r of Ready \<Rightarrow> check n = Inr True | Expired \<Rightarrow> check n = Inr False \<and> late n | Raised e \<Rightarrow> check n = Inl e"
      by blast
    moreover from this(4) True have "\<forall>j. i \<le> j \<and> j < n \<longrightarrow> check j = Inr False \<and> \<not> late j"
      by (metis Suc_leI le_neq_implies_less)
    ultimately show ?thesis using True by (auto simp: poll_loop.simps [of check late i])
  next
    case False
    then show ?thesis using Suc.prems by (auto simp: poll_loop.simps [of check late i] split: sum.splits)
  qed
qed

lemma steady_clock:
  fixes now :: "nat \<Rightarrow> int"
  assumes "\<And>i. now i + d \<le> now (Suc i)"
  shows "now 0 + int n * d \<le> now n"
proof (induction n)
  case (Suc n)
  then show ?case using assms [of n] by (simp add: algebra_simps)
qed simp

lemma poll_rounds:
  fixes now :: "nat \<Rightarrow> int"
  assumes "\<And>i. now i + d \<le> now (Suc i)" "0 < d" "t0 \<le> now 0"
  shows "t0 + limit \<le> now (nat (limit div d + 1))"
proof (cases "0 \<le> limit div d + 1")
  case True
  have "limit \<le> (limit div d + 1) * d" 
    using pos_mod_bound [OF assms(2), of limit] div_mult_mod_eq [of limit d] by (simp only: distrib_right)
  then show ?thesis using steady_clock [of now d "nat (limit div d + 1)"] assms True by simp
next
  case False
  then have "limit \<le> 0" using pos_imp_zdiv_nonneg_iff [OF assms(2), of limit] by linarith
  then show ?thesis using False assms(3) by simp
qed

text \<open>
  \<open>waitUntil\<close> always returns, on a clock on which every round takes at least \<open>d\<close> > 0
  milliseconds, after at most timeout / \<open>d\<close> + 2 checks. It succeeds with the first check that
  answered true; it times out only when every check so far answered false and the timeout has passed;
  it rethrows the error of a check.
\<close>

theorem waitUntil_returns:
  assumes "0 < d" and "\<And>i. clock (case intervalMs of None \<Rightarrow> 50 | Some ms \<Rightarrow> ms) i + d \<le> clock (case intervalMs of None \<Rightarrow> 50 | Some ms \<Rightarrow> ms) (Suc i)"
    and "t0 \<le> clock (case intervalMs of None \<Rightarrow> 50 | Some ms \<Rightarrow> ms) 0"
  shows "\<exists>r n. waitUntil check clock t0 timeoutMs intervalMs = Some (r, n) \<and> n \<le> nat (timeoutMs div d + 1) \<and>
    (\<forall>j<n. check j = Inr False) \<and>
    (case r of Ready \<Rightarrow> check n = Inr True
     | Expired \<Rightarrow> check n = Inr False \<and> t0 + timeoutMs \<le> clock (case intervalMs of None \<Rightarrow> 50 | Some ms \<Rightarrow> ms) n
     | Raised e \<Rightarrow> check n = Inl e)"
proof -
  let ?ms = "case intervalMs of None \<Rightarrow> 50 | Some ms \<Rightarrow> ms"
  have "t0 + timeoutMs \<le> clock ?ms (nat (timeoutMs div d + 1))"
    using poll_rounds [of "clock ?ms" d t0 timeoutMs] assms by blast
  then show ?thesis
    using poll_loop_from [where check = check and i = 0 and late = "\<lambda>i. t0 + timeoutMs \<le> clock ?ms i" and k = "nat (timeoutMs div d + 1)"]
    unfolding waitUntil_def Let_def by (fastforce split: poll_end.splits)
qed

text \<open>A condition that holds on the fourth check.\<close>

theorem waitUntil_returns_witness:
  "\<exists>r n. waitUntil (\<lambda>i. Inr (i = 3) :: string + bool) (\<lambda>ms i. int i * ms) 0 200 None = Some (r, n) \<and> n \<le> nat (200 div 50 + 1) \<and>
    (\<forall>j<n. (Inr (j = 3) :: string + bool) = Inr False) \<and>
    (case r of Ready \<Rightarrow> (Inr (n = 3) :: string + bool) = Inr True
     | Expired \<Rightarrow> (Inr (n = 3) :: string + bool) = Inr False \<and> 0 + 200 \<le> int n * (case None of None \<Rightarrow> 50 | Some ms \<Rightarrow> ms)
     | Raised e \<Rightarrow> (Inr (n = 3) :: string + bool) = Inl e)"
  by (rule waitUntil_returns) simp_all

section \<open>Processes and scenario results\<close>

record child =
  ch_exitCode :: "int option"
  ch_signalCode :: "string option"

text \<open>What a call does: nothing, send the signal and wait for \<^verbatim>\<open>exit\<close>, or send it only.\<close>

datatype kill_action = Already_gone | Kill_and_wait string | Kill_only string

definition killProcess :: "child \<Rightarrow> string \<Rightarrow> kill_action" where
  "killProcess c signal =
     (if ch_exitCode c \<noteq> None \<or> ch_signalCode c \<noteq> None then Already_gone
      else if signal = ''SIGKILL'' \<or> signal = ''SIGTERM'' then Kill_and_wait signal
      else Kill_only signal)"

datatype scenario_error = Scenario_assertion string | Scenario_error string

definition assertScenario :: "bool \<Rightarrow> string \<Rightarrow> scenario_error + unit" where
  "assertScenario condition message = (if \<not> condition then Inl (Scenario_assertion message) else Inr ())"

definition error_message :: "scenario_error \<Rightarrow> string" where
  "error_message e = (case e of Scenario_assertion m \<Rightarrow> m | Scenario_error m \<Rightarrow> m)"

text \<open>Assigning the properties of an object one by one (\<open>obj_put\<close> keeps the place of an old key); \<open>spread\<close> is \<^verbatim>\<open>{ ...o, ...data }\<close>.\<close>

definition spread :: "(string \<times> json) list \<Rightarrow> (string \<times> json) list \<Rightarrow> (string \<times> json) list" where
  "spread obj data = fold (\<lambda>p. obj_put (fst p) (snd p)) data obj"

text \<open>The files by path; \<open>disk path\<close> tells whether the directory and the file can be written.\<close>

definition writeEvidence ::
    "(string \<Rightarrow> bool) \<Rightarrow> string \<Rightarrow> string \<Rightarrow> string \<Rightarrow> (string \<times> json) list \<Rightarrow> (string \<rightharpoonup> json) \<Rightarrow> (string \<rightharpoonup> json) option" where
  "writeEvidence disk category scenario timestamp data files =
     (let path = ''evidence/'' @ category @ ''/'' @ scenario @ ''.json''
      in if disk path then Some (files(path \<mapsto> JObj (spread [(''scenario'', JStr scenario), (''timestamp'', JStr timestamp)] data)))
         else None)"

record scenario_run =
  sr_log :: "string list"
  sr_files :: "string \<rightharpoonup> json"
  sr_exit :: "nat option"

definition report_line :: "string \<Rightarrow> string \<Rightarrow> int \<Rightarrow> string" where
  "report_line tag name durationMs = ''['' @ tag @ ''] '' @ name @ '' ('' @ show_int durationMs @ ''ms)''"

text \<open>
  \<open>result\<close> is what the scenario's function does, \<open>failed_write\<close> the error of a refused write;
  \<open>sr_exit\<close> stays None when the error path itself cannot write and the promise rejects.
\<close>

definition report_failure ::
    "(string \<Rightarrow> bool) \<Rightarrow> string \<Rightarrow> string \<Rightarrow> string \<Rightarrow> int \<Rightarrow> scenario_error \<Rightarrow> scenario_run \<Rightarrow> scenario_run" where
  "report_failure disk category name timestamp durationMs e r =
     (let message = error_message e;
          r = r\<lparr>sr_log := sr_log r @ [report_line ''FAIL'' name durationMs @ '': '' @ message]\<rparr>
      in case writeEvidence disk category name timestamp
             [(''status'', JStr ''fail''), (''durationMs'', JNum (show_int durationMs)), (''error'', JStr message)] (sr_files r) of
           None \<Rightarrow> r
         | Some files \<Rightarrow> r\<lparr>sr_files := files, sr_exit := Some 1\<rparr>)"

definition runScenario ::
    "(string \<Rightarrow> bool) \<Rightarrow> scenario_error \<Rightarrow> string \<Rightarrow> string \<Rightarrow> string \<Rightarrow> int \<Rightarrow> scenario_error + (string \<times> json) list \<Rightarrow>
     (string \<rightharpoonup> json) \<Rightarrow> scenario_run" where
  "runScenario disk failed_write category name timestamp durationMs result files =
     (let r = \<lparr>sr_log = [], sr_files = files, sr_exit = None\<rparr>
      in case result of
           Inl e \<Rightarrow> report_failure disk category name timestamp durationMs e r
         | Inr obj \<Rightarrow>
             (let r = r\<lparr>sr_log := [report_line ''PASS'' name durationMs] @
                  (if category = ''load'' then [stringify (JObj obj)] else [])\<rparr>
              in case writeEvidence disk category name timestamp
                   (spread [(''status'', JStr ''pass''), (''durationMs'', JNum (show_int durationMs))] obj) (sr_files r) of
                   None \<Rightarrow> report_failure disk category name timestamp durationMs failed_write r
                 | Some files \<Rightarrow> r\<lparr>sr_files := files, sr_exit := Some 0\<rparr>))"

lemma obj_put_map_of: "map_of (obj_put k v ps) = (map_of ps)(k \<mapsto> v)"
  by (induction ps) auto

lemma spread_map_of: "map_of (spread obj data) k = (case map_of (rev data) k of None \<Rightarrow> map_of obj k | Some v \<Rightarrow> Some v)"
  unfolding spread_def
proof (induction data arbitrary: obj)
  case (Cons p data)
  then show ?case by (cases "map_of (rev data) k") (auto simp: obj_put_map_of map_add_def)
qed simp

lemma spread_keeps: "k \<notin> fst ` set data \<Longrightarrow> map_of (spread obj data) k = map_of obj k"
  by (simp add: spread_map_of map_of_eq_None_iff [THEN iffD2] split: option.splits)

lemma obj_put_keys: "fst ` set (obj_put k v ps) = insert k (fst ` set ps)"
  by (induction k v ps rule: obj_put.induct) (simp_all add: insert_commute)

lemma distinct_obj_put: "distinct (map fst ps) \<Longrightarrow> distinct (map fst (obj_put k v ps))"
  by (induction k v ps rule: obj_put.induct) (auto simp: obj_put_keys)

lemma distinct_spread: "distinct (map fst obj) \<Longrightarrow> distinct (map fst (spread obj data))"
  unfolding spread_def by (induction data arbitrary: obj) (simp_all add: distinct_obj_put)

lemma map_of_rev_Some:
  assumes "distinct (map fst xs)" "map_of xs k = Some v"
  shows "map_of (rev xs) k = Some v"
proof (rule map_of_is_SomeI)
  show "distinct (map fst (rev xs))" using assms(1) by (metis rev_map distinct_rev)
  show "(k, v) \<in> set (rev xs)" using map_of_SomeD [OF assms(2)] by simp
qed

text \<open>
  With a disk that can be written, the exit code and the evidence file tell whether the scenario
  passed, as long as its result has no key \<^verbatim>\<open>status\<close> of its own.
\<close>

theorem scenario_verdict:
  assumes "\<And>p. disk p" and "\<And>obj. result = Inr obj \<Longrightarrow> ''status'' \<notin> fst ` set obj"
  shows "\<exists>r obj. runScenario disk w category name timestamp durationMs result files = r \<and>
    sr_files r (''evidence/'' @ category @ ''/'' @ name @ ''.json'') = Some (JObj obj) \<and>
    map_of obj ''status'' = Some (JStr (if isl result then ''fail'' else ''pass'')) \<and>
    sr_exit r = Some (if isl result then 1 else 0)"
proof (cases result)
  case (Inl e)
  then show ?thesis
    using assms(1) by (simp add: runScenario_def report_failure_def writeEvidence_def Let_def spread_map_of)
next
  case (Inr obj)
  have "map_of (spread [(''status'', JStr ''pass''), (''durationMs'', JNum (show_int durationMs))] obj) ''status'' = Some (JStr ''pass'')"
    using assms(2) [OF Inr] by (simp add: spread_keeps)
  then have "map_of (rev (spread [(''status'', JStr ''pass''), (''durationMs'', JNum (show_int durationMs))] obj)) ''status'' =
      Some (JStr ''pass'')"
    by (rule map_of_rev_Some [rotated]) (simp add: distinct_spread)
  then show ?thesis
    using assms(1) Inr by (simp add: runScenario_def writeEvidence_def Let_def spread_map_of)
qed

end
