(* ===== verification/Seed_Traffic.thy ===== *)
theory Seed_Traffic
  imports Fixtures Expansion_Facts "HOL-Library.AList"
begin

text \<open>
  \<^verbatim>\<open>node/scripts/seedHeavyTraffic.ts\<close>: the endpoints and event streams it inserts for a tenant, the local
  receiver, the progress counts and the two waiting loops.  The clock of a statement is the function
  \<open>clk\<close> of the number of rows the script has inserted.
\<close>

section \<open>The mix\<close>

record endpoint_profile =
  pf_key :: string
  pf_path :: string
  pf_eventTypes :: "string list"
  pf_paused :: bool

definition profile :: "string \<Rightarrow> string list \<Rightarrow> bool \<Rightarrow> endpoint_profile" where
  "profile key types paused = \<lparr>pf_key = key, pf_path = ''/hooks/'' @ key, pf_eventTypes = types, pf_paused = paused\<rparr>"

definition PROFILES :: "endpoint_profile list" where
  "PROFILES =
     [profile ''billing'' [''order.placed'', ''invoice.paid''] False,
      profile ''inventory'' [''order.placed''] False,
      profile ''shipping'' [''order.placed'', ''invoice.paid''] False,
      profile ''notifications'' [''order.placed''] False,
      profile ''crm'' [''crm.contact-synced''] False,
      profile ''analytics'' [''analytics.pageview-batch''] False,
      profile ''fraud'' [''fraud.review-requested''] False,
      profile ''legacy'' [''order.placed''] False,
      profile ''reporting'' [''reports.nightly-summary''] False,
      profile ''partner'' [''order.placed''] True]"

text \<open>\<open>hundredths n\<close> is how JavaScript prints \<open>n / 100\<close> for \<open>n\<close> < 100.\<close>

definition hundredths :: "nat \<Rightarrow> string" where
  "hundredths n =
     (if n = 0 then ''0''
      else if n mod 10 = 0 then ''0.'' @ show_nat (n div 10)
      else if n < 10 then ''0.0'' @ show_nat n
      else ''0.'' @ show_nat n)"

record event_stream =
  st_type :: string
  st_count :: nat
  st_payload :: "nat \<Rightarrow> json"

definition EVENT_STREAMS :: "event_stream list" where
  "EVENT_STREAMS =
     [\<lparr>st_type = ''order.placed'', st_count = 17000, st_payload = (\<lambda>i. JObj [(''order_id'', JStr (''ord_'' @ show_nat i)),
         (''amount_cents'', JNum (show_nat (500 + i mod 9000))), (''currency'', JStr ''USD'')])\<rparr>,
      \<lparr>st_type = ''invoice.paid'', st_count = 3000, st_payload = (\<lambda>i. JObj [(''invoice_id'', JStr (''inv_'' @ show_nat i)),
         (''amount_cents'', JNum (show_nat (1000 + i mod 20000))), (''currency'', JStr ''USD'')])\<rparr>,
      \<lparr>st_type = ''crm.contact-synced'', st_count = 800, st_payload = (\<lambda>i. JObj [(''contact_id'', JStr (''cnt_'' @ show_nat i)),
         (''source'', JStr ''webform'')])\<rparr>,
      \<lparr>st_type = ''analytics.pageview-batch'', st_count = 600, st_payload = (\<lambda>i. JObj [(''batch_id'', JStr (''batch_'' @ show_nat i)),
         (''pageviews'', JNum (show_nat (40 + i mod 200)))])\<rparr>,
      \<lparr>st_type = ''fraud.review-requested'', st_count = 600, st_payload = (\<lambda>i. JObj [(''review_id'', JStr (''rev_'' @ show_nat i)),
         (''risk_score'', JNum (hundredths (i mod 100)))])\<rparr>,
      \<lparr>st_type = ''reports.nightly-summary'', st_count = 40, st_payload = (\<lambda>i. JObj [(''report_id'', JStr (''rpt_'' @ show_nat i)),
         (''rows'', JNum (show_nat (1000 + i * 37)))])\<rparr>]"

section \<open>Inserting\<close>

datatype seed_error = No_tenant | Sql_failure sql_error

definition findTenant :: "crypto \<Rightarrow> string \<Rightarrow> db \<Rightarrow> seed_error + uuid" where
  "findTenant X apiKey s =
     (case filter (\<lambda>t. tn_api_key_hash t = hashApiKey X apiKey) (tenants s) of
        [] \<Rightarrow> Inl No_tenant
      | t # _ \<Rightarrow> Inr (tn_id t))"

definition RECEIVER_BASE :: string where
  "RECEIVER_BASE = ''http://127.0.0.1:4900''"

text \<open>\<open>secret\<close> is \<^verbatim>\<open>encryptSecret("whsec_seed_heavy_traffic")\<close>.\<close>

definition profile_endpoint :: "uuid \<Rightarrow> ts \<Rightarrow> uuid \<Rightarrow> string \<Rightarrow> endpoint_profile \<Rightarrow> endpoint" where
  "profile_endpoint i now tid secret p =
     \<lparr>ep_id = i, ep_tenant_id = tid, ep_url = RECEIVER_BASE @ pf_path p, ep_event_types = pf_eventTypes p,
      ep_status = (if pf_paused p then Paused else Active), ep_signing_secret = secret, ep_secondary_secret = None,
      ep_secondary_secret_expires_at = None, ep_busy = False, ep_busy_since = None, ep_lease_id = None, ep_created_at = now\<rparr>"

fun insert_profiles :: "(nat \<Rightarrow> ts) \<Rightarrow> nat \<Rightarrow> uuid \<Rightarrow> string \<Rightarrow> endpoint_profile list \<Rightarrow> (string \<times> uuid) list \<Rightarrow> db \<Rightarrow>
    (string \<times> uuid) list \<times> db" where
  "insert_profiles clk n tid secret [] ids s = (ids, s)"
| "insert_profiles clk n tid secret (p # ps) ids s =
     (let (i, s1) = gen_random_uuid s;
          s2 = s1\<lparr>endpoints := endpoints s1 @ [profile_endpoint i (clk n) tid secret p]\<rparr>
      in insert_profiles clk (Suc n) tid secret ps (AList.update (pf_key p) i ids) s2)"

definition insertEndpoints :: "(nat \<Rightarrow> ts) \<Rightarrow> uuid \<Rightarrow> string \<Rightarrow> db \<Rightarrow> (string \<times> uuid) list \<times> db" where
  "insertEndpoints clk tid secret s = insert_profiles clk 0 tid secret PROFILES [] s"

definition seed_prefix :: "string \<Rightarrow> string" where
  "seed_prefix ty = ''seed-'' @ ty"

definition insertEventsBatch ::
    "ts \<Rightarrow> uuid \<Rightarrow> string \<Rightarrow> string \<Rightarrow> nat \<Rightarrow> nat \<Rightarrow> (nat \<Rightarrow> json) \<Rightarrow> db \<Rightarrow> sql_error + db" where
  "insertEventsBatch now tid ty keyPrefix start count payloadFn s =
     (let pv = bulk_values
            (map (\<lambda>i. [P_uuid tid, P_text (keyPrefix @ ''-'' @ show_nat i), P_text ty, P_text (stringify (payloadFn i))])
               [start..<start + count]) [] []
      in map_sum id snd (exec_insert (event_row Pending_expansion now) pv s))"

text \<open>The batches of a stream; those inserted before a failing one stay.\<close>

function insert_batches :: "(nat \<Rightarrow> ts) \<Rightarrow> uuid \<Rightarrow> event_stream \<Rightarrow> nat \<Rightarrow> db \<Rightarrow> (sql_error + unit) \<times> db" where
  "insert_batches clk tid stream start s =
     (if start < st_count stream
      then (let n = min 1000 (st_count stream - start)
            in case insertEventsBatch (clk start) tid (st_type stream) (seed_prefix (st_type stream)) start n (st_payload stream) s of
                 Inl e \<Rightarrow> (Inl e, s)
               | Inr t \<Rightarrow> insert_batches clk tid stream (start + 1000) t)
      else (Inr (), s))"
  by pat_completeness auto

termination
  by (relation "measure (\<lambda>(clk, tid, stream, start, s). st_count stream - start)") auto

declare insert_batches.simps [simp del]

definition insertEventStream :: "(nat \<Rightarrow> ts) \<Rightarrow> uuid \<Rightarrow> event_stream \<Rightarrow> db \<Rightarrow> (sql_error + unit) \<times> db" where
  "insertEventStream clk tid stream s = insert_batches clk tid stream 0 s"

fun insert_streams :: "(string \<Rightarrow> nat \<Rightarrow> ts) \<Rightarrow> uuid \<Rightarrow> event_stream list \<Rightarrow> db \<Rightarrow> (sql_error + unit) \<times> db" where
  "insert_streams clk tid [] s = (Inr (), s)"
| "insert_streams clk tid (st # sts) s =
     (case insertEventStream (clk (st_type st)) tid st s of
        (Inl e, t) \<Rightarrow> (Inl e, t)
      | (Inr _, t) \<Rightarrow> insert_streams clk tid sts t)"

text \<open>The seeding part of \<^verbatim>\<open>main\<close>, before it waits.\<close>

definition seed_traffic :: "crypto \<Rightarrow> (nat \<Rightarrow> ts) \<Rightarrow> (string \<Rightarrow> nat \<Rightarrow> ts) \<Rightarrow> string \<Rightarrow> string \<Rightarrow> db \<Rightarrow> (seed_error + uuid) \<times> db" where
  "seed_traffic X clk clks secret apiKey s =
     (case findTenant X apiKey s of
        Inl e \<Rightarrow> (Inl e, s)
      | Inr tid \<Rightarrow>
          (let (ids, s1) = insertEndpoints clk tid secret s
           in case insert_streams clks tid EVENT_STREAMS s1 of
                (Inl e, t) \<Rightarrow> (Inl (Sql_failure e), t)
              | (Inr _, t) \<Rightarrow> (Inr tid, t)))"

section \<open>The receiver\<close>

text \<open>
  The answer to a request: status, body and the delay before it in milliseconds; \<open>rnd\<close> is
  \<^verbatim>\<open>Math.random()\<close>.
\<close>

definition startsWith :: "string \<Rightarrow> string \<Rightarrow> bool" where
  "startsWith s pfx \<longleftrightarrow> take (length pfx) s = pfx"

definition js_less :: "js_num \<Rightarrow> rat \<Rightarrow> bool" where
  "js_less x q \<longleftrightarrow> (case x of Fin p \<Rightarrow> p < q | NInf \<Rightarrow> True | _ \<Rightarrow> False)"

definition seed_receiver :: "string option \<Rightarrow> string option \<Rightarrow> rat \<Rightarrow> nat \<times> string \<times> rat" where
  "seed_receiver url webhook_attempt rnd =
     (let path = (case url of None \<Rightarrow> [] | Some u \<Rightarrow> u);
          attempt = js_Number (case webhook_attempt of None \<Rightarrow> ''1'' | Some a \<Rightarrow> a)
      in if startsWith path ''/hooks/legacy'' then (500, ''{\"error\":\"upstream unavailable\"}'', 0)
         else if startsWith path ''/hooks/fraud''
           then (if js_less attempt 3 then (503, ''{\"error\":\"rate limited, try again\"}'', 0) else (200, ''{}'', 0))
         else if startsWith path ''/hooks/analytics''
           then (if rnd < 1 / 5 then (503, ''{\"error\":\"batch processor busy\"}'', 0) else (200, ''{}'', 0))
         else if startsWith path ''/hooks/reporting'' then (200, ''{}'', 2000 + rnd * 1500)
         else if startsWith path ''/hooks/crm'' then (200, ''{}'', 100 + rnd * 150)
         else (200, ''{}'', 2 + rnd * 8))"

section \<open>Progress\<close>

record progress =
  pendingExpansion :: nat
  claimablePending :: nat
  inFlight :: nat
  succeeded :: nat
  failed :: nat
  total :: nat

text \<open>The joined rows of the grouping query, its groups with their counts, and the loop over them.\<close>

definition delivery_groups :: "uuid \<Rightarrow> db \<Rightarrow> ((delivery_state \<times> endpoint_status) \<times> nat) list" where
  "delivery_groups tid s =
     (let rows = [(d_state d, ep_status e). d \<leftarrow> deliveries s, e \<leftarrow> endpoints s, ep_id e = d_endpoint_id d,
                    v \<leftarrow> events s, ev_id v = d_event_id d \<and> ev_tenant_id v = tid]
      in map (\<lambda>g. (g, length (filter (\<lambda>r. r = g) rows))) (remdups rows))"

definition add_group :: "(delivery_state \<times> endpoint_status) \<times> nat \<Rightarrow> progress \<Rightarrow> progress" where
  "add_group g counts =
     (let state = fst (fst g); status = snd (fst g); n = snd g;
          counts = counts\<lparr>total := total counts + n\<rparr>
      in if state = In_flight then counts\<lparr>inFlight := inFlight counts + n\<rparr>
         else if state = Succeeded then counts\<lparr>succeeded := succeeded counts + n\<rparr>
         else if state = Failed then counts\<lparr>failed := failed counts + n\<rparr>
         else if state = Pending \<and> status = Active then counts\<lparr>claimablePending := claimablePending counts + n\<rparr>
         else counts)"

definition fetchProgress :: "uuid \<Rightarrow> db \<Rightarrow> progress" where
  "fetchProgress tid s =
     fold add_group (delivery_groups tid s)
       \<lparr>pendingExpansion = length (filter (\<lambda>v. ev_tenant_id v = tid \<and> ev_status v = Pending_expansion) (events s)),
        claimablePending = 0, inFlight = 0, succeeded = 0, failed = 0, total = 0\<rparr>"

text \<open>
  The waiting loops: \<open>world i\<close> is the database in round \<open>i\<close>, \<open>clock ms i\<close> the time when each round
  sleeps \<open>ms\<close>.
\<close>

definition waitForExpansionDone :: "uuid \<Rightarrow> (nat \<Rightarrow> db) \<Rightarrow> (int \<Rightarrow> nat \<Rightarrow> js_ms) \<Rightarrow> js_ms \<Rightarrow> (sql_error poll_end \<times> nat) option" where
  "waitForExpansionDone tid world clock startedAt =
     poll_loop (\<lambda>i. Inr (pendingExpansion (fetchProgress tid (world i)) = 0))
       (\<lambda>i. 5 * 60 * 1000 < clock 3000 i - startedAt) 0"

definition runDeliveryWindow :: "uuid \<Rightarrow> int \<Rightarrow> (nat \<Rightarrow> db) \<Rightarrow> (int \<Rightarrow> nat \<Rightarrow> js_ms) \<Rightarrow> js_ms \<Rightarrow> (sql_error poll_end \<times> nat) option" where
  "runDeliveryWindow tid windowMs world clock startedAt =
     poll_loop (\<lambda>i. Inr (claimablePending (fetchProgress tid (world i)) + inFlight (fetchProgress tid (world i)) = 0))
       (\<lambda>i. windowMs < clock 5000 i - startedAt) 0"

section \<open>Batches and streams\<close>

definition seed_key :: "string \<Rightarrow> nat \<Rightarrow> string" where
  "seed_key ty i = seed_prefix ty @ ''-'' @ show_nat i"

lemma seed_key_inj [simp]: "seed_key ty i = seed_key ty j \<longleftrightarrow> i = j"
  by (simp add: seed_key_def show_nat_inj)

lemma seed_key_apart: "ty \<noteq> [] \<Longrightarrow> ty' \<noteq> [] \<Longrightarrow> hd ty \<noteq> hd ty' \<Longrightarrow> seed_key ty i \<noteq> seed_key ty' j"
  by (cases ty; cases ty') (simp_all add: seed_key_def seed_prefix_def)

text \<open>Events \<open>a .. b - 1\<close> of a stream, all pending.\<close>

definition streamed :: "uuid \<Rightarrow> string \<Rightarrow> nat \<Rightarrow> nat \<Rightarrow> event list \<Rightarrow> bool" where
  "streamed tid ty a b vs \<longleftrightarrow> map ev_idempotency_key vs = map (seed_key ty) [a..<b] \<and>
     (\<forall>v\<in>set vs. ev_tenant_id v = tid \<and> ev_type v = ty \<and> ev_status v = Pending_expansion)"

lemma streamed_length: "streamed tid ty a b vs \<Longrightarrow> length vs = b - a"
  unfolding streamed_def by (metis length_map length_upt)

lemma upt_append: "a \<le> b \<Longrightarrow> b \<le> c \<Longrightarrow> [a..<c] = [a..<b] @ [b..<c]" for a b c :: nat
  using upt_add_eq_append [of a b "c - b"] by simp

lemma streamed_append: "streamed tid ty a b vs \<Longrightarrow> streamed tid ty b c ws \<Longrightarrow> a \<le> b \<Longrightarrow> b \<le> c \<Longrightarrow> streamed tid ty a c (vs @ ws)"
  by (auto simp: streamed_def upt_append [of a b c])

lemma streamed_key:
  assumes "streamed tid ty a b vs"
  shows "v \<in> set vs \<Longrightarrow> \<exists>i. a \<le> i \<and> i < b \<and> ev_idempotency_key v = seed_key ty i"
    and "a \<le> i \<Longrightarrow> i < b \<Longrightarrow> \<exists>v\<in>set vs. ev_idempotency_key v = seed_key ty i"
proof -
  have keys: "ev_idempotency_key ` set vs = seed_key ty ` {a..<b}"
    using assms unfolding streamed_def by (metis set_map set_upt)
  show "\<exists>i. a \<le> i \<and> i < b \<and> ev_idempotency_key v = seed_key ty i" if "v \<in> set vs"
  proof -
    have "ev_idempotency_key v \<in> seed_key ty ` {a..<b}" unfolding keys [symmetric] using that by simp
    then show ?thesis by auto
  qed
  show "\<exists>v\<in>set vs. ev_idempotency_key v = seed_key ty i" if "a \<le> i" "i < b"
  proof -
    have "seed_key ty i \<in> ev_idempotency_key ` set vs" unfolding keys using that by simp
    then show ?thesis by auto
  qed
qed

definition key_free :: "uuid \<Rightarrow> string \<Rightarrow> db \<Rightarrow> bool" where
  "key_free tid k s \<longleftrightarrow> (\<forall>v\<in>set (events s). \<not> (ev_tenant_id v = tid \<and> ev_idempotency_key v = k))"

text \<open>A state that differs by appended events and the counters behind them.\<close>

definition with_events :: "event list \<Rightarrow> nat \<Rightarrow> nat \<Rightarrow> db \<Rightarrow> db" where
  "with_events vs n m s = s\<lparr>events := events s @ vs, ev_next_seq := n, uuid_draws := m\<rparr>"

lemma with_events_simps [simp]:
  "events (with_events vs n m s) = events s @ vs" "tenants (with_events vs n m s) = tenants s"
  "endpoints (with_events vs n m s) = endpoints s" "deliveries (with_events vs n m s) = deliveries s"
  "with_events ws n' m' (with_events vs n m s) = with_events (vs @ ws) n' m' s"
  by (simp_all add: with_events_def)

lemma batch_stores:
  assumes "wf_db s" "tid \<in> tn_id ` set (tenants s)" "\<forall>i. start \<le> i \<longrightarrow> key_free tid (seed_key ty i) s"
    and "\<forall>i. json_ok (payload i)" "0 < n" "n \<le> 1000"
  shows "\<exists>vs a b. insertEventsBatch now tid ty (seed_prefix ty) start n payload s = Inr (with_events vs a b s) \<and>
    streamed tid ty start (start + n) vs \<and> wf_db (with_events vs a b s)"
proof -
  let ?is = "[start..<start + n]"
  let ?rows = "map (event_params tid ty (seed_key ty) (\<lambda>i. stringify (payload i))) ?is"
  have d: "distinct (map (seed_key ty) ?is)" by (simp add: distinct_map inj_on_def)
  have j: "json_parse (stringify (payload i)) = Some (payload i)" for i using assms(4) by (simp add: json_parse_print)
  obtain vs a b where ins: "insert_rows (event_row Pending_expansion now) ?rows s = Inr (map ev_id vs, with_events vs a b s)"
      "list_all2 (stored_as Pending_expansion now tid ty (seed_key ty) (\<lambda>i. stringify (payload i))) ?is vs"
      "wf_db (with_events vs a b s)"
    using insert_event_rows [OF assms(1,2) d, of "\<lambda>i. stringify (payload i)" Pending_expansion now ty] assms(3) j
    by (auto simp: find_event_None key_free_def with_events_def)
  have "map ev_idempotency_key vs = map (seed_key ty) ?is"
    using list_all2_lengthD [OF ins(2)] ins(2) by (intro nth_equalityI) (auto simp: list_all2_conv_all_nth stored_as_def)
  moreover have "\<forall>v\<in>set vs. ev_tenant_id v = tid \<and> ev_type v = ty \<and> ev_status v = Pending_expansion"
    using ins(2) by (auto simp: list_all2_conv_all_nth stored_as_def in_set_conv_nth)
  ultimately have st: "streamed tid ty start (start + n) vs" by (simp add: streamed_def)
  have rows: "map (\<lambda>i. [P_uuid tid, P_text (seed_prefix ty @ ''-'' @ show_nat i), P_text ty, P_text (stringify (payload i))]) ?is = ?rows"
    by (simp add: event_params_def seed_key_def)
  have len: "length (concat ?rows) = 4 * n" by (simp add: length_concat o_def event_params_def sum_list_triv)
  have "insertEventsBatch now tid ty (seed_prefix ty) start n payload s = Inr (with_events vs a b s)"
    unfolding insertEventsBatch_def Let_def rows exec_bulk len using ins(1) assms(5,6) by simp
  with ins(3) st show ?thesis by blast
qed

lemma stream_stores:
  assumes "wf_db s" "tid \<in> tn_id ` set (tenants s)" "\<forall>i. start \<le> i \<longrightarrow> key_free tid (seed_key (st_type st) i) s"
    and "\<forall>i. json_ok (st_payload st i)" "start \<le> st_count st"
  shows "\<exists>vs a b. insert_batches clk tid st start s = (Inr (), with_events vs a b s) \<and>
    streamed tid (st_type st) start (st_count st) vs \<and> wf_db (with_events vs a b s)"
  using assms(1-3,5)
proof (induction "st_count st - start" arbitrary: start s rule: less_induct)
  case less
  show ?case
  proof (cases "start < st_count st")
    case False
    have "with_events [] (ev_next_seq s) (uuid_draws s) s = s" by (simp add: with_events_def)
    then show ?thesis
      using False less.prems(1) by (intro exI [of _ "[]"] exI [of _ "ev_next_seq s"] exI [of _ "uuid_draws s"])
        (simp add: insert_batches.simps streamed_def)
  next
    case True
    let ?n = "min 1000 (st_count st - start)"
    obtain vs a b where b: "insertEventsBatch (clk start) tid (st_type st) (seed_prefix (st_type st)) start ?n (st_payload st) s =
          Inr (with_events vs a b s)" "streamed tid (st_type st) start (start + ?n) vs" "wf_db (with_events vs a b s)"
      using batch_stores [OF less.prems(1-3) assms(4), of ?n "clk start"] True by auto
    show ?thesis
    proof (cases "start + 1000 \<le> st_count st")
      case full: True
      then have n: "?n = 1000" by simp
      have "\<forall>i. start + 1000 \<le> i \<longrightarrow> key_free tid (seed_key (st_type st) i) (with_events vs a b s)"
        using less.prems(3) streamed_key(1) [OF b(2) [unfolded n]] unfolding key_free_def by fastforce
      then obtain ws a' b' where w: "insert_batches clk tid st (start + 1000) (with_events vs a b s) = (Inr (), with_events (vs @ ws) a' b' s)"
          "streamed tid (st_type st) (start + 1000) (st_count st) ws" "wf_db (with_events (vs @ ws) a' b' s)"
        using less.hyps [of "start + 1000" "with_events vs a b s"] b(3) less.prems(2) full True
        by (auto simp: diff_less_mono2)
      moreover have "streamed tid (st_type st) start (st_count st) (vs @ ws)"
        using streamed_append [OF b(2) [unfolded n] w(2)] full by simp
      moreover have "insert_batches clk tid st start s = insert_batches clk tid st (start + 1000) (with_events vs a b s)"
        using b(1) True by (simp add: insert_batches.simps [of clk tid st start] n)
      ultimately show ?thesis by metis
    next
      case last: False
      then have n: "start + ?n = st_count st" using True by simp
      have "insert_batches clk tid st (start + 1000) (with_events vs a b s) = (Inr (), with_events vs a b s)"
        using last by (simp add: insert_batches.simps [of clk tid st "start + 1000"])
      moreover have "insert_batches clk tid st start s = insert_batches clk tid st (start + 1000) (with_events vs a b s)"
        using b(1) True by (simp add: insert_batches.simps [of clk tid st start] Let_def)
      ultimately show ?thesis using b(3) b(2) [unfolded n] by metis
    qed
  qed
qed

section \<open>The whole seeding\<close>

lemma sum_by_type: "streamed tid ty a b vs \<Longrightarrow> (\<Sum>v\<leftarrow>vs. f (ev_type v)) = (b - a) * (f ty :: nat)"
proof -
  assume st: "streamed tid ty a b vs"
  then have "map (\<lambda>v. f (ev_type v)) vs = map (\<lambda>_. f ty) vs" by (auto simp: streamed_def)
  then show ?thesis using streamed_length [OF st] by (simp only: map_replicate_const sum_list_replicate) simp
qed

lemma streams_store:
  assumes "wf_db s" "tid \<in> tn_id ` set (tenants s)" "\<forall>st\<in>set sts. \<forall>i. key_free tid (seed_key (st_type st) i) s"
    and "\<forall>st\<in>set sts. \<forall>i. json_ok (st_payload st i)" "\<forall>st\<in>set sts. st_type st \<noteq> []" "distinct (map (\<lambda>st. hd (st_type st)) sts)"
  shows "\<exists>vs a b. insert_streams clk tid sts s = (Inr (), with_events vs a b s) \<and> wf_db (with_events vs a b s) \<and>
    (\<forall>v\<in>set vs. ev_tenant_id v = tid \<and> ev_status v = Pending_expansion) \<and>
    (\<forall>f. (\<Sum>v\<leftarrow>vs. f (ev_type v)) = (\<Sum>st\<leftarrow>sts. st_count st * (f (st_type st) :: nat))) \<and>
    (\<forall>st\<in>set sts. \<forall>i < st_count st. \<exists>v\<in>set vs. ev_idempotency_key v = seed_key (st_type st) i)"
  using assms
proof (induction sts arbitrary: s)
  case Nil
  have "with_events [] (ev_next_seq s) (uuid_draws s) s = s" by (simp add: with_events_def)
  with Nil.prems(1) have "insert_streams clk tid [] s = (Inr (), with_events [] (ev_next_seq s) (uuid_draws s) s) \<and>
      wf_db (with_events [] (ev_next_seq s) (uuid_draws s) s)" by simp
  then show ?case
    using Nil.prems(1) by - (rule exI [of _ "[]"], rule exI [of _ "ev_next_seq s"], rule exI [of _ "uuid_draws s"], simp)
next
  case (Cons st sts)
  let ?ty = "st_type st"
  obtain vs a b where 1: "insertEventStream (clk ?ty) tid st s = (Inr (), with_events vs a b s)"
      "streamed tid ?ty 0 (st_count st) vs" "wf_db (with_events vs a b s)"
    using stream_stores [OF Cons.prems(1,2), of 0 st "clk ?ty"] Cons.prems(3,4) by (auto simp: insertEventStream_def)
  have free: "\<forall>st'\<in>set sts. \<forall>i. key_free tid (seed_key (st_type st') i) (with_events vs a b s)"
  proof (intro ballI allI)
    fix st' i
    assume st': "st' \<in> set sts"
    then have "hd (st_type st') \<noteq> hd ?ty" using Cons.prems(6) by (auto simp: image_iff)
    then have "ev_idempotency_key v \<noteq> seed_key (st_type st') i" if "v \<in> set vs" for v
      using streamed_key(1) [OF 1(2) that] seed_key_apart [of ?ty "st_type st'"] Cons.prems(5) st' by (metis list.set_intros)
    then show "key_free tid (seed_key (st_type st') i) (with_events vs a b s)"
      using Cons.prems(3) st' by (auto simp: key_free_def)
  qed
  obtain ws a' b' where 2: "insert_streams clk tid sts (with_events vs a b s) = (Inr (), with_events (vs @ ws) a' b' s)"
      "wf_db (with_events (vs @ ws) a' b' s)" "\<forall>v\<in>set ws. ev_tenant_id v = tid \<and> ev_status v = Pending_expansion"
      "\<And>f. (\<Sum>v\<leftarrow>ws. f (ev_type v)) = (\<Sum>st\<leftarrow>sts. st_count st * (f (st_type st) :: nat))"
      "\<forall>st\<in>set sts. \<forall>i < st_count st. \<exists>v\<in>set ws. ev_idempotency_key v = seed_key (st_type st) i"
    using Cons.IH [OF 1(3) _ free] Cons.prems(2,4,5,6) by (auto simp del: sum_list.Cons)
  have "insert_streams clk tid (st # sts) s = (Inr (), with_events (vs @ ws) a' b' s)" using 1(1) 2(1) by simp
  moreover have "\<forall>v\<in>set (vs @ ws). ev_tenant_id v = tid \<and> ev_status v = Pending_expansion"
    using 1(2) 2(3) by (auto simp: streamed_def)
  moreover have "(\<Sum>v\<leftarrow>vs @ ws. f (ev_type v)) = (\<Sum>st\<leftarrow>st # sts. st_count st * (f (st_type st) :: nat))" for f
    using sum_by_type [OF 1(2), of f] 2(4) [of f] by simp
  moreover have "\<forall>st'\<in>set (st # sts). \<forall>i < st_count st'. \<exists>v\<in>set (vs @ ws). ev_idempotency_key v = seed_key (st_type st') i"
    using streamed_key(2) [OF 1(2)] 2(5) by (simp add: bex_Un)
  ultimately show ?case using 2(2) by blast
qed

lemma scan_decimal:
  assumes "ds \<noteq> []" "\<forall>c\<in>set ds. is_digit c"
  shows "scan_number (''0.'' @ ds) = Some (''0.'' @ ds, [])"
proof -
  have tw: "takeWhile is_digit ds = ds" "dropWhile is_digit ds = []" using assms(2) by (simp_all add: takeWhile_eq_all_conv dropWhile_eq_Nil_conv)
  have dg: "is_digit (CHR ''0'')" "\<not> is_digit (CHR ''.'')" by (simp_all add: is_digit_def)
  show ?thesis
    using assms(1) by (simp add: tw dg scan_number_def num_sign_def num_fraction_def num_exponent_def Let_def)
qed

lemma hundredths_number: "scan_number (hundredths n) = Some (hundredths n, [])"
proof -
  have "is_digit (CHR ''0'')" by (simp add: is_digit_def)
  then show ?thesis
    using scan_decimal [of "show_nat (n div 10)"] scan_decimal [of "CHR ''0'' # show_nat n"] scan_decimal [of "show_nat n"]
      scan_show_nat [of 0] show_nat_digits by (simp add: hundredths_def show_nat_zero)
qed

lemma streams_printable:
  "\<forall>st\<in>set EVENT_STREAMS. \<forall>i. json_ok (st_payload st i)" "\<forall>st\<in>set EVENT_STREAMS. st_type st \<noteq> []"
  "distinct (map (\<lambda>st. hd (st_type st)) EVENT_STREAMS)"
  by (simp_all add: EVENT_STREAMS_def scan_show_nat hundredths_number)

lemma profiles_stored:
  assumes "wf_db s" "tid \<in> tn_id ` set (tenants s)"
  shows "\<exists>es b r. insert_profiles clk n tid secret ps ids s = (r, s\<lparr>endpoints := endpoints s @ es, uuid_draws := b\<rparr>) \<and>
    wf_db (s\<lparr>endpoints := endpoints s @ es, uuid_draws := b\<rparr>) \<and>
    map ep_event_types es = map pf_eventTypes ps \<and> (\<forall>e\<in>set es. ep_tenant_id e = tid)"
  using assms
proof (induction ps arbitrary: n ids s)
  case Nil
  have "s\<lparr>endpoints := endpoints s, uuid_draws := uuid_draws s\<rparr> = s" by simp
  with Nil.prems(1) show ?case
    by (intro exI [of _ "[]"] exI [of _ "uuid_draws s"] exI [of _ ids])
      (simp only: insert_profiles.simps append_Nil2 list.map list.set ball_empty simp_thms)
next
  case (Cons p ps)
  let ?i = "uuid_src s (uuid_draws s)" and ?s0 = "s\<lparr>uuid_draws := Suc (uuid_draws s)\<rparr>"
  let ?e = "profile_endpoint ?i (clk n) tid secret p"
  let ?s1 = "?s0\<lparr>endpoints := endpoints ?s0 @ [?e]\<rparr>"
  have wf: "wf_db ?s1"
    by (rule wf_append_endpoint)
      (use Cons.prems drawn_fresh_ids(2) [OF Cons.prems(1)] in
        \<open>simp_all add: wf_draw drawn_ids_Suc profile_endpoint_def lease_cols_def\<close>)
  obtain es b r where "insert_profiles clk (Suc n) tid secret ps (AList.update (pf_key p) ?i ids) ?s1 =
        (r, s\<lparr>endpoints := endpoints s @ ?e # es, uuid_draws := b\<rparr>)"
      "wf_db (s\<lparr>endpoints := endpoints s @ ?e # es, uuid_draws := b\<rparr>)"
      "map ep_event_types es = map pf_eventTypes ps" "\<forall>e\<in>set es. ep_tenant_id e = tid"
    using Cons.IH [OF wf, of "Suc n" "AList.update (pf_key p) ?i ids"] Cons.prems(2) by (simp del: ex_simps) blast
  then show ?case
    by (intro exI [of _ "?e # es"] exI [of _ b] exI [of _ r]) (simp add: gen_random_uuid_def profile_endpoint_def)
qed

section \<open>The volume\<close>

text \<open>The deliveries a database has or is going to have once its pending events are expanded.\<close>

definition delivery_volume :: "db \<Rightarrow> nat" where
  "delivery_volume s = length (deliveries s) +
     (\<Sum>v\<leftarrow>filter (\<lambda>v. ev_status v = Pending_expansion) (events s). length (subscribers (ev_tenant_id v) (ev_type v) s))"

lemma sum_filter_flip:
  assumes "distinct (map key xs)" "x \<in> set xs" "P x" "\<not> P (f x)"
    and "\<And>y. y \<in> set xs \<Longrightarrow> key y \<noteq> key x \<Longrightarrow> f y = y"
  shows "(\<Sum>y\<leftarrow>filter P xs. g y) = g x + (\<Sum>y\<leftarrow>filter P (map f xs). g y :: nat)"
  using assms(1,2,5)
proof (induction xs)
  case (Cons y ys)
  show ?case
  proof (cases "y = x")
    case True
    then have "map f ys = ys" using Cons.prems by (intro map_idI) (metis distinct.simps(2) image_eqI list.set_intros(2) list.set_map list.simps(9))
    then show ?thesis using True assms(3,4) by simp
  next
    case False
    then have "x \<in> set ys" "key y \<noteq> key x" using Cons.prems(1,2) by auto
    then have "f y = y" using Cons.prems(3) by simp
    with Cons \<open>x \<in> set ys\<close> show ?thesis by simp
  qed
qed simp

lemma subscribers_cong: "endpoints t = endpoints s \<Longrightarrow> subscribers tid ty t = subscribers tid ty s"
  by (simp add: subscribers_def)

lemma delivery_volume_cycle:
  assumes "wf_db s" "runExpansionCycle locked now s = (b, t)"
  shows "delivery_volume t = delivery_volume s"
  using assms(2)
proof (cases rule: runExpansionCycle_cases)
  case (work v)
  have "distinct (map ev_id (events s))" using assms(1) by (simp add: wf_db_def keys_ok_def)
  then have sum: "(\<Sum>w\<leftarrow>filter (\<lambda>v. ev_status v = Pending_expansion) (events s). length (subscribers (ev_tenant_id w) (ev_type w) s)) =
      length (subscribers (ev_tenant_id v) (ev_type v) s) +
      (\<Sum>w\<leftarrow>filter (\<lambda>v. ev_status v = Pending_expansion) (events t). length (subscribers (ev_tenant_id w) (ev_type w) s))"
    unfolding work(5) events_expand_event by (rule sum_filter_flip) (use work(2,3) in auto)
  obtain ns where ns: "deliveries t = deliveries s @ ns" "map (\<lambda>d. (d_event_id d, d_endpoint_id d)) ns = fan_out v s"
    unfolding work(5) tables_expand_event by (rule insert_deliveries_obtain)
  have "length ns = length (fan_out v s)" unfolding ns(2) [symmetric] by simp
  note ns(1) this
  then have "length (deliveries t) = length (deliveries s) + length (subscribers (ev_tenant_id v) (ev_type v) s)"
    by (simp add: fan_out_def)
  moreover have "subscribers tid ty t = subscribers tid ty s" for tid ty
    by (rule subscribers_cong) (simp add: work(5) tables_expand_event)
  ultimately show ?thesis using sum by (simp add: delivery_volume_def)
qed simp

context work_queue begin

lemma drain_keeps:
  assumes "\<And>i s b t. inv s \<Longrightarrow> cycle i s = (b, t) \<Longrightarrow> pot t = pot s"
  shows "inv s \<Longrightarrow> drain fuel i cycle s = (j, t) \<Longrightarrow> pot t = pot s"
proof (induction fuel arbitrary: i s)
  case (Suc fuel)
  obtain b u where c: "cycle i s = (b, u)" by fastforce
  show ?case
  proof (cases b)
    case True
    then have "inv u" using work [OF Suc.prems(1)] c by auto
    then show ?thesis using Suc.IH [of u "Suc i"] Suc.prems c True assms [OF Suc.prems(1) c] by simp
  next
    case False
    then show ?thesis using Suc.prems c assms [OF Suc.prems(1) c] by simp
  qed
qed simp

end

text \<open>A tenant the script has not been run for: it has no endpoints and no events.\<close>

definition unused_tenant :: "uuid \<Rightarrow> db \<Rightarrow> bool" where
  "unused_tenant tid s \<longleftrightarrow> (\<forall>e\<in>set (endpoints s). ep_tenant_id e \<noteq> tid) \<and> (\<forall>v\<in>set (events s). ev_tenant_id v \<noteq> tid)"

lemma findTenant_in: "findTenant X apiKey s = Inr tid \<Longrightarrow> tid \<in> tn_id ` set (tenants s)"
proof -
  assume "findTenant X apiKey s = Inr tid"
  then obtain t ts where "filter (\<lambda>t. tn_api_key_hash t = hashApiKey X apiKey) (tenants s) = t # ts" "tid = tn_id t"
    by (auto simp: findTenant_def split: list.splits)
  then show ?thesis by (metis filter_is_subset image_eqI list.set_intros(1) subsetD)
qed

lemma seed_traffic_stores:
  assumes "wf_db s" "findTenant X apiKey s = Inr tid" "unused_tenant tid s"
  obtains t es vs where "seed_traffic X clk clks secret apiKey s = (Inr tid, t)" "wf_db t"
    "endpoints t = endpoints s @ es" "map ep_event_types es = map pf_eventTypes PROFILES" "\<forall>e\<in>set es. ep_tenant_id e = tid"
    "events t = events s @ vs" "\<forall>v\<in>set vs. ev_tenant_id v = tid \<and> ev_status v = Pending_expansion"
    "\<forall>f. (\<Sum>v\<leftarrow>vs. f (ev_type v)) = (\<Sum>st\<leftarrow>EVENT_STREAMS. st_count st * (f (st_type st) :: nat))"
    "deliveries t = deliveries s" "tenants t = tenants s"
    "\<forall>st\<in>set EVENT_STREAMS. \<forall>i < st_count st. \<exists>v\<in>set vs. ev_idempotency_key v = seed_key (st_type st) i"
proof -
  note tid = findTenant_in [OF assms(2)]
  obtain es b r where e: "insertEndpoints clk tid secret s = (r, s\<lparr>endpoints := endpoints s @ es, uuid_draws := b\<rparr>)"
      "wf_db (s\<lparr>endpoints := endpoints s @ es, uuid_draws := b\<rparr>)" "map ep_event_types es = map pf_eventTypes PROFILES"
      "\<forall>e\<in>set es. ep_tenant_id e = tid"
    using profiles_stored [OF assms(1) tid] unfolding insertEndpoints_def by metis
  let ?s1 = "s\<lparr>endpoints := endpoints s @ es, uuid_draws := b\<rparr>"
  have free: "\<forall>st\<in>set EVENT_STREAMS. \<forall>i. key_free tid (seed_key (st_type st) i) ?s1"
    using assms(3) by (auto simp: key_free_def unused_tenant_def)
  obtain vs n m where v: "insert_streams clks tid EVENT_STREAMS ?s1 = (Inr (), with_events vs n m ?s1)" "wf_db (with_events vs n m ?s1)"
      "\<forall>v\<in>set vs. ev_tenant_id v = tid \<and> ev_status v = Pending_expansion"
      "\<forall>f. (\<Sum>v\<leftarrow>vs. f (ev_type v)) = (\<Sum>st\<leftarrow>EVENT_STREAMS. st_count st * (f (st_type st) :: nat))"
      "\<forall>st\<in>set EVENT_STREAMS. \<forall>i < st_count st. \<exists>v\<in>set vs. ev_idempotency_key v = seed_key (st_type st) i"
    using streams_store [OF e(2) _ free streams_printable, of clks] tid by auto
  have "seed_traffic X clk clks secret apiKey s = (Inr tid, with_events vs n m ?s1)"
    using assms(2) e(1) v(1) by (simp add: seed_traffic_def)
  then show thesis using that v(2-5) e(3,4) by (simp add: with_events_def)
qed

text \<open>
  Seeding a tenant without endpoints and events succeeds: it stores ten endpoints and 22040
  pending events, and when no other event is waiting, expansion then takes exactly 22040 cycles and
  adds 110040 deliveries, the "100k+" the script announces.
\<close>

theorem seed_volume:
  assumes "wf_db s" "findTenant X apiKey s = Inr tid" "unused_tenant tid s" "event_backlog s = 0" "22040 < fuel"
  shows "\<exists>t u. seed_traffic X clk clks secret apiKey s = (Inr tid, t) \<and> wf_db t \<and>
    length (endpoints t) = length (endpoints s) + 10 \<and> length (events t) = length (events s) + 22040 \<and>
    drain fuel 0 (\<lambda>i. runExpansionCycle (\<lambda>_. True) (now i)) t = (22040, u) \<and> event_backlog u = 0 \<and>
    length (deliveries u) = length (deliveries s) + 110040"
proof -
  obtain t es vs where t: "seed_traffic X clk clks secret apiKey s = (Inr tid, t)" "wf_db t"
    "endpoints t = endpoints s @ es" "map ep_event_types es = map pf_eventTypes PROFILES" "\<forall>e\<in>set es. ep_tenant_id e = tid"
    "events t = events s @ vs" "\<forall>v\<in>set vs. ev_tenant_id v = tid \<and> ev_status v = Pending_expansion"
    "\<forall>f. (\<Sum>v\<leftarrow>vs. f (ev_type v)) = (\<Sum>st\<leftarrow>EVENT_STREAMS. st_count st * (f (st_type st) :: nat))"
    "deliveries t = deliveries s" "tenants t = tenants s"
    "\<forall>st\<in>set EVENT_STREAMS. \<forall>i < st_count st. \<exists>v\<in>set vs. ev_idempotency_key v = seed_key (st_type st) i"
    by (rule seed_traffic_stores [OF assms(1-3), of clk clks secret])
  have idle: "filter (\<lambda>v. ev_status v = Pending_expansion) (events s) = []" using assms(4) by (simp add: event_backlog_def)
  have new: "filter (\<lambda>v. ev_status v = Pending_expansion) vs = vs" using t(7) by (simp add: filter_id_conv)
  have "length vs = (\<Sum>v\<leftarrow>vs. 1)" by (simp add: sum_list_triv)
  then have len: "length vs = 22040" using spec [OF t(8), of "\<lambda>_. 1"] by (simp add: EVENT_STREAMS_def)
  have subs: "length (subscribers tid ty t) = length (filter (\<lambda>p. ty \<in> set (pf_eventTypes p)) PROFILES)" for ty
  proof -
    have "subscribers tid ty t = filter (\<lambda>e. ty \<in> set (ep_event_types e)) es"
      using assms(3) t(5) by (auto simp: subscribers_def t(3) unused_tenant_def filter_empty_conv intro!: filter_cong)
    then have "length (subscribers tid ty t) = length (filter (\<lambda>ts. ty \<in> set ts) (map ep_event_types es))"
      by (simp add: filter_map o_def)
    then show ?thesis unfolding t(4) by (simp add: filter_map o_def)
  qed
  have "delivery_volume t = length (deliveries s) + (\<Sum>v\<leftarrow>vs. length (subscribers (ev_tenant_id v) (ev_type v) t))"
    by (simp add: delivery_volume_def t(6,9) idle new)
  also have "(\<Sum>v\<leftarrow>vs. length (subscribers (ev_tenant_id v) (ev_type v) t)) = (\<Sum>v\<leftarrow>vs. length (subscribers tid (ev_type v) t))"
    using t(7) by (intro arg_cong [where f = sum_list] map_cong refl) simp
  also have "\<dots> = (\<Sum>st\<leftarrow>EVENT_STREAMS. st_count st * length (subscribers tid (st_type st) t))"
    using t(8) by (rule spec)
  also have "\<dots> = 110040"
    unfolding subs by (simp add: EVENT_STREAMS_def PROFILES_def profile_def)
  finally have vol: "delivery_volume t = length (deliveries s) + 110040" .
  obtain j u where d: "drain fuel 0 (\<lambda>i. runExpansionCycle (\<lambda>_. True) (now i)) t = (j, u)" by fastforce
  have bl: "event_backlog t = 22040" by (simp add: event_backlog_def t(6) idle new len)
  then have u: "event_backlog u = 0" "j = 22040" using expansion.drain_empties [OF t(2) _ d] assms(5) by simp_all
  have "delivery_volume u = delivery_volume t"
    by (rule expansion.drain_keeps [where pot = delivery_volume, OF _ t(2) d]) (rule delivery_volume_cycle)
  then have "length (deliveries u) = length (deliveries s) + 110040"
    using vol u(1) by (simp add: delivery_volume_def event_backlog_def)
  moreover have "length es = 10" using arg_cong [OF t(4), of length] by (simp add: PROFILES_def)
  ultimately show ?thesis using t(1,2,3,6) len d u by (intro exI [of _ t] exI [of _ u]) simp
qed

theorem seed_volume_witness:
  "\<exists>t u. seed_traffic toy_crypto (\<lambda>_. 5000) (\<lambda>_ _. 6000) ''s'' demo_key demo_seeded = (Inr 0, t) \<and> wf_db t \<and>
    length (endpoints t) = length (endpoints demo_seeded) + 10 \<and> length (events t) = length (events demo_seeded) + 22040 \<and>
    drain 30000 0 (\<lambda>i. runExpansionCycle (\<lambda>_. True) (\<lambda>_. 7000)) t = (22040, u) \<and> event_backlog u = 0 \<and>
    length (deliveries u) = length (deliveries demo_seeded) + 110040"
proof (rule seed_volume)
  show "wf_db demo_seeded"
    by (simp add: demo_seeded_def demo_db_def demo_tenant_def wf_db_def wf_defs drawn_ids_def)
qed (simp_all add: demo_seeded_def demo_db_def demo_tenant_def findTenant_def unused_tenant_def event_backlog_def)

text \<open>
  The keys of the script are fixed, so it can be run once per tenant: when the tenant already has
  the first event of an earlier run, a second run answers a unique violation. It has stored ten more
  endpoints by then, which stay, and no event.
\<close>

theorem seed_rerun_fails:
  assumes "wf_db s" "findTenant X apiKey s = Inr tid"
    and "v \<in> set (events s)" "ev_tenant_id v = tid" "ev_idempotency_key v = ''seed-order.placed-0''"
  shows "\<exists>es b. seed_traffic X clk clks secret apiKey s =
    (Inl (Sql_failure Unique_violation), s\<lparr>endpoints := endpoints s @ es, uuid_draws := b\<rparr>) \<and> length es = 10"
proof -
  note tid = findTenant_in [OF assms(2)]
  obtain es b r where e: "insertEndpoints clk tid secret s = (r, s\<lparr>endpoints := endpoints s @ es, uuid_draws := b\<rparr>)"
      "map ep_event_types es = map pf_eventTypes PROFILES"
    using profiles_stored [OF assms(1) tid] unfolding insertEndpoints_def by metis
  let ?s1 = "s\<lparr>endpoints := endpoints s @ es, uuid_draws := b\<rparr>"
  let ?st = "hd EVENT_STREAMS"
  let ?row = "\<lambda>i. [P_uuid tid, P_text (seed_prefix (st_type ?st) @ ''-'' @ show_nat i), P_text (st_type ?st), P_text (stringify (st_payload ?st i))]"
  have st: "st_type ?st = ''order.placed''" "st_count ?st = 17000" by (simp_all add: EVENT_STREAMS_def)
  have pay: "json_parse (stringify (st_payload ?st 0)) = Some (st_payload ?st 0)"
    by (intro json_parse_print) (simp add: EVENT_STREAMS_def scan_show_nat)
  have taken: "find_event tid ''seed-order.placed-0'' ?s1 \<noteq> None"
    using assms(3-5) by (auto simp: find_event_None)
  have first: "event_row Pending_expansion now (?row 0) ?s1 = Inl Unique_violation" for now
    using pay tid taken by (simp add: event_row_def st(1) seed_prefix_def show_nat_zero)
  have "[0..<1000] = 0 # [Suc 0..<1000]" by (rule upt_conv_Cons) simp
  then have rows: "insert_rows (event_row Pending_expansion now) (map ?row [0..<1000]) ?s1 = Inl Unique_violation" for now
    by (simp only: list.map insert_rows.simps first sum.case)
  have "insertEventsBatch now tid (st_type ?st) (seed_prefix (st_type ?st)) 0 1000 (st_payload ?st) ?s1 = Inl Unique_violation" for now
    unfolding insertEventsBatch_def Let_def exec_bulk using rows [of now] by (simp add: length_concat o_def sum_list_triv)
  then have "insertEventStream (clks (st_type ?st)) tid ?st ?s1 = (Inl Unique_violation, ?s1)"
    unfolding insertEventStream_def by (subst insert_batches.simps) (simp add: st(2) Let_def)
  then have "insert_streams clks tid EVENT_STREAMS ?s1 = (Inl Unique_violation, ?s1)"
    by (simp add: EVENT_STREAMS_def)
  then have "seed_traffic X clk clks secret apiKey s = (Inl (Sql_failure Unique_violation), ?s1)"
    using assms(2) e(1) by (simp add: seed_traffic_def)
  moreover have "length es = 10" using arg_cong [OF e(2), of length] by (simp add: PROFILES_def)
  ultimately show ?thesis by blast
qed

definition demo_seeded_once :: db where
  "demo_seeded_once = demo_db [demo_tenant] [] [(demo_event Pending_expansion)\<lparr>ev_idempotency_key := ''seed-order.placed-0''\<rparr>] [] [] 2 1 3"

theorem seed_rerun_fails_witness:
  "\<exists>es b. seed_traffic toy_crypto (\<lambda>_. 5000) (\<lambda>_ _. 6000) ''s'' demo_key demo_seeded_once =
    (Inl (Sql_failure Unique_violation), demo_seeded_once\<lparr>endpoints := endpoints demo_seeded_once @ es, uuid_draws := b\<rparr>) \<and> length es = 10"
proof (rule seed_rerun_fails)
  show "wf_db demo_seeded_once"
    by (simp add: demo_seeded_once_def demo_db_def demo_event_def demo_tenant_def wf_db_def wf_defs drawn_ids_def)
  show "findTenant toy_crypto demo_key demo_seeded_once = Inr 0"
    by (simp add: findTenant_def demo_seeded_once_def demo_db_def demo_tenant_def)
  show "(demo_event Pending_expansion)\<lparr>ev_idempotency_key := ''seed-order.placed-0''\<rparr> \<in> set (events demo_seeded_once)"
    by (simp add: demo_seeded_once_def demo_db_def)
qed (simp_all add: demo_event_def)

section \<open>Progress and waiting\<close>

lemma sum_groups: "(\<Sum>g\<leftarrow>filter P (remdups xs). length (filter (\<lambda>r. r = g) xs)) = length (filter P xs)"
proof -
  have "(\<Sum>g\<leftarrow>filter P (remdups xs). length (filter (\<lambda>r. r = g) xs)) = (\<Sum>g\<in>{g \<in> set xs. P g}. length (filter (\<lambda>r. r = g) xs))"
    by (subst sum_list_distinct_conv_sum_set) simp_all
  also have "\<dots> = (\<Sum>g\<in>{g \<in> set xs. P g}. count_list (filter P xs) g)"
    by (intro sum.cong refl) (auto simp: count_list_eq_length_filter intro!: arg_cong [where f = length] filter_cong)
  also have "\<dots> = length (filter P xs)" by (rule sum_count_set) auto
  finally show ?thesis .
qed

lemma add_groups:
  fixes n :: "delivery_state \<times> endpoint_status \<Rightarrow> nat"
  shows "total (fold add_group (map (\<lambda>g. (g, n g)) gs) c) = total c + (\<Sum>g\<leftarrow>gs. n g)"
    and "inFlight (fold add_group (map (\<lambda>g. (g, n g)) gs) c) = inFlight c + (\<Sum>g\<leftarrow>filter (\<lambda>g. fst g = In_flight) gs. n g)"
    and "succeeded (fold add_group (map (\<lambda>g. (g, n g)) gs) c) = succeeded c + (\<Sum>g\<leftarrow>filter (\<lambda>g. fst g = Succeeded) gs. n g)"
    and "failed (fold add_group (map (\<lambda>g. (g, n g)) gs) c) = failed c + (\<Sum>g\<leftarrow>filter (\<lambda>g. fst g = Failed) gs. n g)"
    and "claimablePending (fold add_group (map (\<lambda>g. (g, n g)) gs) c) =
      claimablePending c + (\<Sum>g\<leftarrow>filter (\<lambda>g. fst g = Pending \<and> snd g = Active) gs. n g)"
    and "pendingExpansion (fold add_group (map (\<lambda>g. (g, n g)) gs) c) = pendingExpansion c"
  by (induction gs arbitrary: c) (auto simp: add_group_def Let_def)

lemma key_unique: "key x = key y \<Longrightarrow> distinct (map key xs) \<Longrightarrow> x \<in> set xs \<Longrightarrow> y \<in> set xs \<Longrightarrow> x = y"
  by (auto simp: distinct_map inj_on_def)

lemma concat_unique:
  assumes "distinct (map key xs)" "x \<in> set xs"
  shows "concat (map (\<lambda>y. if key y = key x then F y else []) xs) = F x"
  using assms
proof (induction xs)
  case (Cons y ys)
  show ?case
  proof (cases "y = x")
    case True
    then have "concat (map (\<lambda>y. if key y = key x then F y else []) ys) = []"
      using Cons.prems(1) by (auto simp: image_iff)
    then show ?thesis using True by simp
  next
    case False
    then have "key y \<noteq> key x" using Cons.prems by (auto simp: image_iff)
    then show ?thesis using Cons False by simp
  qed
qed simp

definition tenant_delivery :: "uuid \<Rightarrow> db \<Rightarrow> delivery \<Rightarrow> bool" where
  "tenant_delivery tid s d \<longleftrightarrow> (\<exists>v\<in>set (events s). ev_id v = d_event_id d \<and> ev_tenant_id v = tid)"

definition on_active :: "db \<Rightarrow> delivery \<Rightarrow> bool" where
  "on_active s d \<longleftrightarrow> (\<exists>e\<in>set (endpoints s). ep_id e = d_endpoint_id d \<and> ep_status e = Active)"

lemma joined_row:
  assumes "wf_db s" "d \<in> set (deliveries s)"
  obtains e where "e \<in> set (endpoints s)" "ep_id e = d_endpoint_id d"
    "concat (map (\<lambda>e. if ep_id e = d_endpoint_id d
        then concat (map (\<lambda>v. if ev_id v = d_event_id d \<and> ev_tenant_id v = tid then [(d_state d, ep_status e)] else []) (events s))
        else []) (endpoints s)) = (if tenant_delivery tid s d then [(d_state d, ep_status e)] else [])"
    "on_active s d \<longleftrightarrow> ep_status e = Active"
proof -
  from assms obtain e v where e: "e \<in> set (endpoints s)" "ep_id e = d_endpoint_id d" and v: "v \<in> set (events s)" "ev_id v = d_event_id d"
    by (auto simp: wf_db_def refs_ok_def)
  have dist: "distinct (map ep_id (endpoints s))" "distinct (map ev_id (events s))"
    using assms(1) by (auto simp: wf_db_def keys_ok_def)
  have td: "tenant_delivery tid s d \<longleftrightarrow> ev_tenant_id v = tid"
    using v key_unique [of ev_id _ v, OF _ dist(2)] unfolding tenant_delivery_def by metis
  have inner: "concat (map (\<lambda>w. if ev_id w = d_event_id d \<and> ev_tenant_id w = tid then [r] else []) (events s)) =
      (if ev_tenant_id v = tid then [r] else [])" for r :: "delivery_state \<times> endpoint_status"
  proof -
    have eq: "(\<lambda>w. if ev_id w = d_event_id d \<and> ev_tenant_id w = tid then [r] else []) =
        (\<lambda>w. if ev_id w = ev_id v then if ev_tenant_id w = tid then [r] else [] else [])" using v(2) by auto
    show ?thesis unfolding eq by (rule concat_unique [OF dist(2) v(1)])
  qed
  have "on_active s d \<longleftrightarrow> ep_status e = Active"
    using e key_unique [of ep_id _ e, OF _ dist(1)] unfolding on_active_def by metis
  moreover have "concat (map (\<lambda>e. if ep_id e = d_endpoint_id d
        then concat (map (\<lambda>v. if ev_id v = d_event_id d \<and> ev_tenant_id v = tid then [(d_state d, ep_status e)] else []) (events s))
        else []) (endpoints s)) = (if tenant_delivery tid s d then [(d_state d, ep_status e)] else [])"
    unfolding inner td e(2) [symmetric] by (rule concat_unique [OF dist(1) e(1)])
  ultimately show thesis using that [OF e] by blast
qed

text \<open>
  The progress counts are what they are named after: over the deliveries of the tenant's events,
  those in flight, succeeded, failed, pending at an active endpoint, and all of them; the events
  awaiting expansion are the tenant's pending ones.
\<close>

theorem progress_counts:
  assumes "wf_db s"
  shows "fetchProgress tid s =
    \<lparr>pendingExpansion = length (pending_events tid s),
     claimablePending = length (filter (\<lambda>d. tenant_delivery tid s d \<and> d_state d = Pending \<and> on_active s d) (deliveries s)),
     inFlight = length (filter (\<lambda>d. tenant_delivery tid s d \<and> d_state d = In_flight) (deliveries s)),
     succeeded = length (filter (\<lambda>d. tenant_delivery tid s d \<and> d_state d = Succeeded) (deliveries s)),
     failed = length (filter (\<lambda>d. tenant_delivery tid s d \<and> d_state d = Failed) (deliveries s)),
     total = length (filter (tenant_delivery tid s) (deliveries s))\<rparr>"
proof -
  let ?rows = "\<lambda>ds. concat (map (\<lambda>d. concat (map (\<lambda>e. if ep_id e = d_endpoint_id d
      then concat (map (\<lambda>v. if ev_id v = d_event_id d \<and> ev_tenant_id v = tid then [(d_state d, ep_status e)] else []) (events s))
      else []) (endpoints s))) ds)"
  have count: "length (filter P (?rows ds)) = length (filter Q ds)"
    if "set ds \<subseteq> set (deliveries s)"
      "\<And>d st. d \<in> set ds \<Longrightarrow> (st = Active \<longleftrightarrow> on_active s d) \<Longrightarrow> Q d \<longleftrightarrow> tenant_delivery tid s d \<and> P (d_state d, st)" for P Q ds
    using that
  proof (induction ds)
    case (Cons d ds)
    then have "d \<in> set (deliveries s)" by simp
    obtain e where e: "e \<in> set (endpoints s)" "ep_id e = d_endpoint_id d" "concat (map (\<lambda>e. if ep_id e = d_endpoint_id d
        then concat (map (\<lambda>v. if ev_id v = d_event_id d \<and> ev_tenant_id v = tid then [(d_state d, ep_status e)] else []) (events s))
        else []) (endpoints s)) = (if tenant_delivery tid s d then [(d_state d, ep_status e)] else [])"
        "on_active s d \<longleftrightarrow> ep_status e = Active"
      by (rule joined_row [OF assms \<open>d \<in> set (deliveries s)\<close>, of tid])
    have "length (filter P (?rows ds)) = length (filter Q ds)" using Cons by simp
    then show ?case using e(3,4) Cons.prems(2) [of d "ep_status e"] by simp
  qed simp
  define rows where "rows = ?rows (deliveries s)"
  note all = count [OF subset_refl, folded rows_def]
  have "length (filter (\<lambda>_. True) rows) = length (filter (tenant_delivery tid s) (deliveries s))" by (rule all) simp
  moreover have "length (filter (\<lambda>g. fst g = In_flight) rows) =
      length (filter (\<lambda>d. tenant_delivery tid s d \<and> d_state d = In_flight) (deliveries s))" by (rule all) simp
  moreover have "length (filter (\<lambda>g. fst g = Succeeded) rows) =
      length (filter (\<lambda>d. tenant_delivery tid s d \<and> d_state d = Succeeded) (deliveries s))" by (rule all) simp
  moreover have "length (filter (\<lambda>g. fst g = Failed) rows) =
      length (filter (\<lambda>d. tenant_delivery tid s d \<and> d_state d = Failed) (deliveries s))" by (rule all) simp
  moreover have "length (filter (\<lambda>g. fst g = Pending \<and> snd g = Active) rows) =
      length (filter (\<lambda>d. tenant_delivery tid s d \<and> d_state d = Pending \<and> on_active s d) (deliveries s))" by (rule all) auto
  moreover have "(\<Sum>g\<leftarrow>remdups rows. length (filter (\<lambda>r. r = g) rows)) = length (filter (\<lambda>_. True) rows)"
    using sum_groups [where P = "\<lambda>_. True" and xs = rows] by simp
  moreover have "delivery_groups tid s = map (\<lambda>g. (g, length (filter (\<lambda>r. r = g) rows))) (remdups rows)"
    unfolding delivery_groups_def rows_def Let_def ..
  ultimately show ?thesis
    by (intro progress.equality) (simp_all add: fetchProgress_def add_groups sum_groups pending_events_def)
qed

theorem progress_counts_witness:
  "fetchProgress 0 demo_queued =
    \<lparr>pendingExpansion = length (pending_events 0 demo_queued),
     claimablePending = length (filter (\<lambda>d. tenant_delivery 0 demo_queued d \<and> d_state d = Pending \<and> on_active demo_queued d) (deliveries demo_queued)),
     inFlight = length (filter (\<lambda>d. tenant_delivery 0 demo_queued d \<and> d_state d = In_flight) (deliveries demo_queued)),
     succeeded = length (filter (\<lambda>d. tenant_delivery 0 demo_queued d \<and> d_state d = Succeeded) (deliveries demo_queued)),
     failed = length (filter (\<lambda>d. tenant_delivery 0 demo_queued d \<and> d_state d = Failed) (deliveries demo_queued)),
     total = length (filter (tenant_delivery 0 demo_queued) (deliveries demo_queued))\<rparr>"
  using reachable_parts(1) [OF demo_two_reachable [of demo_cfg]] by (intro progress_counts) (simp add: demo_two_def)

end
