(* ===== verification/Stalled_Claim.thy ===== *)
theory Stalled_Claim
  imports Interleaving_Facts
begin

text \<open>
  A claim that was overtaken: without the proviso of \<open>Interleaving_Facts\<close> its promises fail.  A worker
  takes the lease, finds the head ready and stalls before it records the attempt.  The lease expires, another worker reclaims the endpoint, sends the
  delivery and records its success.  The first worker wakes up: the two statements it still has to run
  do not look at the lease, so it records an attempt with the same number and puts the delivery that
  succeeded back in flight.
\<close>

section \<open>The statements of the run\<close>

definition stall_db :: "ts option \<Rightarrow> endpoint \<Rightarrow> delivery \<Rightarrow> attempt list \<Rightarrow> nat \<Rightarrow> db" where
  "stall_db served e d xs n =
     demo_db [demo_tenant\<lparr>tn_last_served_at := served\<rparr>] [e] [demo_event Expanded] [d] xs 2 2 n"

definition stall_lease :: "ts \<Rightarrow> uuid \<Rightarrow> endpoint" where
  "stall_lease t l = take_lease t l demo_endpoint"

definition stall_row :: "ts \<Rightarrow> uuid \<Rightarrow> delivery \<times> event \<times> endpoint" where
  "stall_row t l = (demo_delivery Pending 0, demo_event Expanded, stall_lease t l)"

definition stall_attempt :: "uuid \<Rightarrow> ts \<Rightarrow> attempt" where
  "stall_attempt i t = \<lparr>a_id = i, a_delivery_id = 3, a_attempt_number = 1, a_sent_at = Some t,
     a_response_status = None, a_response_body_truncated = None, a_duration_ms = None, a_error_class = None,
     a_created_at = t\<rparr>"

definition stall_sent :: claimed_delivery where
  "stall_sent = new_claim demo_stale 5 (demo_delivery Pending 0) (demo_event Expanded) (stall_lease 90000000 5) 6
     (generateSecret demo_bytes ''whsec'') None"

definition stall_answer :: attempt_outcome where
  "stall_answer = \<lparr>o_responseStatus = Some 200, o_responseBodyTruncated = [], o_durationMs = 5, o_errorClass = None\<rparr>"

definition stall_recorded :: attempt where
  "stall_recorded = (stall_attempt 6 90000000)
     \<lparr>a_response_status := Some 200, a_response_body_truncated := Some [], a_duration_ms := Some 5\<rparr>"

lemmas stall_defs = stall_db_def stall_lease_def demo_db_def demo_rows take_lease_def demo_cand_def demo_stale_def
  demo_clock_def

lemma stall_take:
  "stmt_claim 5000 (- 1000) 1 demo_expanded = (Some 4, stall_db None (stall_lease 5000 4) (demo_delivery Pending 0) [] 5)"
  "stmt_claim 90000000 50000000 1 (stall_db (Some 5000) (stall_lease 5000 4) (demo_delivery Pending 0) [] 5) =
     (Some 5, stall_db (Some 5000) (stall_lease 90000000 5) (demo_delivery Pending 0) [] 6)"
  by (simp_all add: stmt_claim_def stall_defs demo_expanded_def claimable_def lease_free_def gen_random_uuid_def)

lemma stall_serve:
  "claim_stmt dec (demo_clock t) \<lparr>cm_cand = demo_cand, cm_lease = l, cm_stage = To_serve\<rparr> (stall_db served e d xs n) =
     (Continues To_select, stall_db (Some t) e d xs n)"
  "claim_stmt dec (demo_clock t) \<lparr>cm_cand = demo_stale, cm_lease = l, cm_stage = To_serve\<rparr> (stall_db served e d xs n) =
     (Continues To_expire, stall_db (Some t) e d xs n)"
  by (simp_all add: claim_stmt_def stall_defs stmt_serve_def)

lemma stall_reclaim:
  "claim_stmt dec clk \<lparr>cm_cand = demo_stale, cm_lease = l, cm_stage = To_expire\<rparr>
     (stall_db served e (demo_delivery Pending k) xs n) = (Continues To_requeue, stall_db served e (demo_delivery Pending k) xs n)"
  "claim_stmt dec clk \<lparr>cm_cand = demo_stale, cm_lease = l, cm_stage = To_requeue\<rparr>
     (stall_db served e (demo_delivery Pending k) xs n) = (Continues To_select, stall_db served e (demo_delivery Pending k) xs n)"
  by (simp_all add: claim_stmt_def stall_defs stmt_expire_orphans_def in_flight_of_def stmt_requeue_def)

lemma stall_select:
  assumes "cand_id cand = 1" "5000 \<le> t"
  shows "claim_stmt dec (demo_clock t) \<lparr>cm_cand = cand, cm_lease = l, cm_stage = To_select\<rparr>
     (stall_db served (stall_lease t' l') (demo_delivery Pending 0) xs n) =
     (Continues (To_insert (stall_row t' l')), stall_db served (stall_lease t' l') (demo_delivery Pending 0) xs n)"
  using assms by (simp add: claim_stmt_def stall_defs stall_row_def select_head_def pending_of_def js_of_ts_def)

lemma stall_insert:
  "claim_stmt dec (demo_clock t) \<lparr>cm_cand = cand, cm_lease = l, cm_stage = To_insert (stall_row t' l')\<rparr> (stall_db served e d xs n) =
     (Continues (To_mark (stall_row t' l') n), stall_db served e d (xs @ [stall_attempt n t]) (Suc n))"
  by (simp add: claim_stmt_def stall_defs stall_row_def stmt_insert_attempt_def gen_random_uuid_def stall_attempt_def)

lemma stall_mark:
  "snd (claim_stmt dec clk \<lparr>cm_cand = cand, cm_lease = l, cm_stage = To_mark (stall_row t' l') i\<rparr>
     (stall_db served e (demo_delivery st k) xs n)) = stall_db served e (demo_delivery In_flight 1) xs n"
  "claim_stmt demo_dec clk \<lparr>cm_cand = demo_stale, cm_lease = 5, cm_stage = To_mark (stall_row 90000000 5) 6\<rparr>
     (stall_db served e (demo_delivery Pending 0) xs n) =
     (Ends (Inr (Some stall_sent)), stall_db served e (demo_delivery In_flight 1) xs n)"
proof -
  show "snd (claim_stmt dec clk \<lparr>cm_cand = cand, cm_lease = l, cm_stage = To_mark (stall_row t' l') i\<rparr>
     (stall_db served e (demo_delivery st k) xs n)) = stall_db served e (demo_delivery In_flight 1) xs n"
    for dec :: "string \<Rightarrow> string option" and clk cand l t' l' i st k
    by (simp add: claim_stmt_def stall_defs stall_row_def stmt_in_flight_def)
  moreover have "claim_secrets demo_dec m (stall_lease 90000000 5) = Some (generateSecret demo_bytes ''whsec'', None)" for m
    using demo_decrypt by (simp add: claim_secrets_def hasActiveSecondary_def stall_lease_def take_lease_def demo_endpoint_def)
  then have "fst (claim_stmt demo_dec clk \<lparr>cm_cand = demo_stale, cm_lease = 5, cm_stage = To_mark (stall_row 90000000 5) 6\<rparr>
     (stall_db served e (demo_delivery Pending 0) xs n)) = Ends (Inr (Some stall_sent))"
    by (simp add: claim_stmt_def stall_row_def stall_sent_def)
  ultimately show "claim_stmt demo_dec clk \<lparr>cm_cand = demo_stale, cm_lease = 5, cm_stage = To_mark (stall_row 90000000 5) 6\<rparr>
     (stall_db served e (demo_delivery Pending 0) xs n) =
     (Ends (Inr (Some stall_sent)), stall_db served e (demo_delivery In_flight 1) xs n)"
    by (simp add: prod_eq_iff)
qed

lemma stall_complete:
  "completeDelivery now rnd stall_sent stall_answer cfg
     (stall_db served (stall_lease 90000000 5) (demo_delivery In_flight 1) [stall_attempt 6 90000000] 7) =
     (Inr Oc_succeeded, stall_db served demo_endpoint (demo_delivery Succeeded 1) [stall_recorded] 7)"
  by (simp add: completeDelivery_def stall_defs fence_def stall_sent_def new_claim_def stall_answer_def pg_text_ok_def
      stmt_record_outcome_def stall_attempt_def stall_recorded_def settle_delivery_def http_success_def stmt_resolve_def
      stmt_free_def free_lease_def)

text \<open>The first worker has found the head and stalls; the second one runs to its end.\<close>

definition stall_claim :: claiming where
  "stall_claim = \<lparr>cm_cand = demo_cand, cm_lease = 4, cm_stage = To_insert (stall_row 5000 4)\<rparr>"

lemma stalled_reachable:
  "fine_reachable cfg False \<lparr>fs_db = stall_db (Some 5000) (stall_lease 5000 4) (demo_delivery Pending 0) [] 5,
     fs_hands = [], fs_claims = [stall_claim]\<rparr>"
proof -
  let ?f = "\<lambda>s st. \<lparr>fs_db = s, fs_hands = [], fs_claims = [\<lparr>cm_cand = demo_cand, cm_lease = 4, cm_stage = st\<rparr>]\<rparr>"
  have "fine_reachable cfg False \<lparr>fs_db = demo_expanded, fs_hands = [], fs_claims = []\<rparr>"
    using reachable_fine [OF demo_ready_reachable] by (simp add: fine_of_def demo_ready_def)
  moreover have "fine_step cfg False \<lparr>fs_db = demo_expanded, fs_hands = [], fs_claims = []\<rparr>
      (?f (stall_db None (stall_lease 5000 4) (demo_delivery Pending 0) [] 5) To_serve)"
    using fine_take [of 5000 "- 1000" demo_cand "\<lparr>fs_db = demo_expanded, fs_hands = [], fs_claims = []\<rparr>" 4 _ False cfg]
      stall_take(1)
    by (simp add: fresh_candidate_def demo_cand_def demo_expanded_def demo_db_def demo_endpoint_def)
  moreover have "fine_step cfg False (?f (stall_db None (stall_lease 5000 4) (demo_delivery Pending 0) [] 5) To_serve)
      (?f (stall_db (Some 5000) (stall_lease 5000 4) (demo_delivery Pending 0) [] 5) To_select)"
    by (rule fine_continue) (rule stall_serve(1))
  moreover have "fine_step cfg False (?f (stall_db (Some 5000) (stall_lease 5000 4) (demo_delivery Pending 0) [] 5) To_select)
      (?f (stall_db (Some 5000) (stall_lease 5000 4) (demo_delivery Pending 0) [] 5) (To_insert (stall_row 5000 4)))"
    by (rule fine_continue, rule stall_select [of _ 5000]) (simp_all add: demo_cand_def)
  ultimately show ?thesis unfolding stall_claim_def by (meson fine_next)
qed

lemma overtaken_reachable:
  "fine_reachable cfg False \<lparr>fs_db = stall_db (Some 90000000) demo_endpoint (demo_delivery Succeeded 1) [stall_recorded] 7,
     fs_hands = [], fs_claims = [stall_claim]\<rparr>"
proof -
  let ?f = "\<lambda>s st. \<lparr>fs_db = s, fs_hands = [], fs_claims = [\<lparr>cm_cand = demo_stale, cm_lease = 5, cm_stage = st\<rparr>, stall_claim]\<rparr>"
    and ?d = "demo_delivery Pending 0" and ?e = "stall_lease 90000000 5"
  have step: "fine_step cfg False (?f s st) (?f t st')"
    if "claim_stmt dec clk \<lparr>cm_cand = demo_stale, cm_lease = 5, cm_stage = st\<rparr> s = (Continues st', t)" for dec clk s t st st'
    using fine_statement [of "\<lparr>cm_cand = demo_stale, cm_lease = 5, cm_stage = st\<rparr>" "?f s st" dec clk st' t cfg False] that
    by simp
  note stalled_reachable
  moreover have "fine_step cfg False \<lparr>fs_db = stall_db (Some 5000) (stall_lease 5000 4) ?d [] 5, fs_hands = [], fs_claims = [stall_claim]\<rparr>
      (?f (stall_db (Some 5000) ?e ?d [] 6) To_serve)"
    using fine_take [of 90000000 50000000 demo_stale
        "\<lparr>fs_db = stall_db (Some 5000) (stall_lease 5000 4) ?d [] 5, fs_hands = [], fs_claims = [stall_claim]\<rparr>" 5 _ False cfg]
      stall_take(2) demo_stale_fresh by (simp add: demo_stale_def)
  moreover have "fine_step cfg False (?f (stall_db (Some 5000) ?e ?d [] 6) To_serve) (?f (stall_db (Some 90000000) ?e ?d [] 6) To_expire)"
    by (rule step) (rule stall_serve(2))
  moreover have "fine_step cfg False (?f (stall_db (Some 90000000) ?e ?d [] 6) To_expire) (?f (stall_db (Some 90000000) ?e ?d [] 6) To_requeue)"
    "fine_step cfg False (?f (stall_db (Some 90000000) ?e ?d [] 6) To_requeue) (?f (stall_db (Some 90000000) ?e ?d [] 6) To_select)"
    by (rule step, rule stall_reclaim)+
  moreover have "fine_step cfg False (?f (stall_db (Some 90000000) ?e ?d [] 6) To_select)
      (?f (stall_db (Some 90000000) ?e ?d [] 6) (To_insert (stall_row 90000000 5)))"
    by (rule step, rule stall_select [of _ 90000000]) (simp_all add: demo_stale_def)
  moreover have "fine_step cfg False (?f (stall_db (Some 90000000) ?e ?d [] 6) (To_insert (stall_row 90000000 5)))
      (?f (stall_db (Some 90000000) ?e ?d [stall_attempt 6 90000000] 7) (To_mark (stall_row 90000000 5) 6))"
    by (rule step) (use stall_insert [of _ 90000000 _ _ _ _ _ _ _ "[]" 6] in simp)
  moreover have "fine_step cfg False (?f (stall_db (Some 90000000) ?e ?d [stall_attempt 6 90000000] 7) (To_mark (stall_row 90000000 5) 6))
      \<lparr>fs_db = stall_db (Some 90000000) ?e (demo_delivery In_flight 1) [stall_attempt 6 90000000] 7,
       fs_hands = [stall_sent], fs_claims = [stall_claim]\<rparr>"
    using fine_end [of "\<lparr>cm_cand = demo_stale, cm_lease = 5, cm_stage = To_mark (stall_row 90000000 5) 6\<rparr>"
        "?f (stall_db (Some 90000000) ?e ?d [stall_attempt 6 90000000] 7) (To_mark (stall_row 90000000 5) 6)"] stall_mark(2)
    by (fastforce simp: hands_after_def)
  moreover have "fine_step cfg False
      \<lparr>fs_db = stall_db (Some 90000000) ?e (demo_delivery In_flight 1) [stall_attempt 6 90000000] 7,
       fs_hands = [stall_sent], fs_claims = [stall_claim]\<rparr>
      \<lparr>fs_db = stall_db (Some 90000000) demo_endpoint (demo_delivery Succeeded 1) [stall_recorded] 7,
       fs_hands = [], fs_claims = [stall_claim]\<rparr>"
    using fine_complete [of stall_sent "\<lparr>fs_db = stall_db (Some 90000000) ?e (demo_delivery In_flight 1) [stall_attempt 6 90000000] 7,
       fs_hands = [stall_sent], fs_claims = [stall_claim]\<rparr>" stall_answer] stall_complete
    by (fastforce simp: outcome_closed_def stall_answer_def)
  ultimately show ?thesis by (meson fine_next)
qed

text \<open>
  C14. The proviso is needed.  Without it there is a run in which a delivery that has succeeded is put
  back in flight, with two attempts of the same number: a worker that stalls between selecting the
  head and recording the attempt for longer than its lease does both statements all the same.
\<close>

theorem overtaken_claim_resurrects:
  "\<exists>u v. fine_reachable cfg False u \<and> fine_run cfg False u v \<and>
     map (\<lambda>d. (d_id d, d_state d)) (deliveries (fs_db u)) = [(3, Succeeded)] \<and>
     map (\<lambda>d. (d_id d, d_state d)) (deliveries (fs_db v)) = [(3, In_flight)] \<and>
     map (\<lambda>a. (a_delivery_id a, a_attempt_number a)) (attempts (fs_db v)) = [(3, 1), (3, 1)]"
proof -
  let ?u = "\<lparr>fs_db = stall_db (Some 90000000) demo_endpoint (demo_delivery Succeeded 1) [stall_recorded] 7,
     fs_hands = [], fs_claims = [stall_claim]\<rparr>"
  let ?xs = "[stall_recorded, stall_attempt 7 99000000]"
  let ?cm = "\<lparr>cm_cand = demo_cand, cm_lease = 4, cm_stage = To_mark (stall_row 5000 4) 7\<rparr>"
  let ?w = "\<lparr>fs_db = stall_db (Some 90000000) demo_endpoint (demo_delivery Succeeded 1) ?xs 8, fs_hands = [], fs_claims = [?cm]\<rparr>"
  have 1: "fine_step cfg False ?u ?w"
    unfolding stall_claim_def
    by (rule fine_continue) (use stall_insert [of _ 99000000 _ _ _ _ _ _ _ "[stall_recorded]" 7] in simp)
  obtain res where "claim_stmt demo_dec (demo_clock 99000000) ?cm (fs_db ?w) =
      (Ends res, stall_db (Some 90000000) demo_endpoint (demo_delivery In_flight 1) ?xs 8)"
    using stall_mark(1) [of demo_dec "demo_clock 99000000" demo_cand 4 5000 4 7 "Some 90000000" demo_endpoint Succeeded 1 ?xs 8]
    by (fastforce simp: claim_stmt_def stall_row_def)
  then have "fine_run cfg False ?w \<lparr>fs_db = stall_db (Some 90000000) demo_endpoint (demo_delivery In_flight 1) ?xs 8,
      fs_hands = hands_after res [], fs_claims = []\<rparr>"
    using fine_finish by fastforce
  with 1 have "fine_run cfg False ?u \<lparr>fs_db = stall_db (Some 90000000) demo_endpoint (demo_delivery In_flight 1) ?xs 8,
      fs_hands = hands_after res [], fs_claims = []\<rparr>" by (rule fine_run_step)
  with overtaken_reachable show ?thesis
    by (intro exI conjI) (assumption, assumption, simp_all add: stall_db_def demo_db_def demo_delivery_def
        stall_recorded_def stall_attempt_def)
qed

end
