(* ===== verification/Chaos_Scenarios.thy ===== *)
theory Chaos_Scenarios
  imports Head_Of_Line Scheduling Fixtures Wire
begin

text \<open>
  The chaos scenarios of \<^verbatim>\<open>node/chaos\<close>: each script sets up a tenant, an endpoint and its deliveries, lets
  workers be killed or stopped, and asserts what it reads from the database.  A script is a function of
  what its queries see: \<open>poll\<close> is what one \<^verbatim>\<open>waitUntil\<close> sees round by round, every other query has
  the database it is answered from.  Spawning and signalling processes is the business of the run: the
  properties take any run of the system, with the worker's claim crashed or kept in its hands, and
  show that the assertions of the script hold.
\<close>

section \<open>What the scripts share\<close>

record fixture_inputs =
  fx_crypto :: crypto
  fx_rnd :: bytes
  fx_secret :: string
  fx_fresh :: "nat \<Rightarrow> string"
  fx_now :: "nat \<Rightarrow> ts"
  fx_port :: nat

fun pending_deliveries :: "fixture_inputs \<Rightarrow> uuid \<Rightarrow> uuid \<Rightarrow> json option list \<Rightarrow> nat \<Rightarrow> db \<Rightarrow> (uuid list \<times> db) option" where
  "pending_deliveries F tid eid [] n s = Some ([], s)"
| "pending_deliveries F tid eid (p # ps) n s =
     (case createPendingDelivery (fx_fresh F n) (fx_now F (2 + 2 * n)) (fx_now F (3 + 2 * n)) tid eid None p s of
        (Inl _, _) \<Rightarrow> None
      | (Inr (i, _), t) \<Rightarrow> map_option (\<lambda>(is, u). (i # is, u)) (pending_deliveries F tid eid ps (Suc n) t))"

text \<open>None when an insert fails, which makes the scenario fail.\<close>

definition scenario_setup :: "fixture_inputs \<Rightarrow> json option list \<Rightarrow> db \<Rightarrow> (uuid \<times> uuid list \<times> db) option" where
  "scenario_setup F payloads s =
     (case createTenant (fx_crypto F) (fx_now F 0) (fx_rnd F) ''chaos-tenant'' s of
        None \<Rightarrow> None
      | Some (tid, _, s1) \<Rightarrow>
          (case createEndpoint (fx_now F 1) tid [''order.created'']
                  (Some (''http://chaos-test.local:'' @ show_nat (fx_port F) @ ''/hook'')) (fx_secret F) s1 of
             Inl _ \<Rightarrow> None
           | Inr (eid, s2) \<Rightarrow> map_option (\<lambda>(is, t). (eid, is, t)) (pending_deliveries F tid eid payloads 0 s2)))"

definition js_quoted :: "string \<Rightarrow> string" where
  "js_quoted s = CHR 0x27 # s @ [CHR 0x27]"

text \<open>\<^verbatim>\<open>rows[i]!\<close> and the property read from it.\<close>

definition row_at :: "string \<Rightarrow> 'a list \<Rightarrow> nat \<Rightarrow> scenario_error + 'a" where
  "row_at prop rows i =
     (if i < length rows then Inr (rows ! i)
      else Inl (Scenario_error (''Cannot read properties of undefined (reading '' @ js_quoted prop @ '')'')))"

definition state_rows :: "uuid \<Rightarrow> db \<Rightarrow> string list" where
  "state_rows did s = map (\<lambda>d. delivery_state_text (d_state d)) (filter (\<lambda>d. d_id d = did) (deliveries s))"

definition attempt_rows :: "uuid \<Rightarrow> db \<Rightarrow> (string option \<times> int option) list" where
  "attempt_rows did s =
     map (\<lambda>a. (map_option error_class_text (a_error_class a), a_response_status a)) (sort_key a_attempt_number (attempts_of did s))"

definition js_null_text :: "string option \<Rightarrow> string" where
  "js_null_text v = (case v of None \<Rightarrow> ''null'' | Some s \<Rightarrow> s)"

record 'a poll =
  po_seen :: "nat \<Rightarrow> 'a"
  po_clock :: "int \<Rightarrow> nat \<Rightarrow> js_ms"
  po_start :: js_ms

definition await :: "('a \<Rightarrow> scenario_error + bool) \<Rightarrow> int \<Rightarrow> string \<Rightarrow> 'a poll \<Rightarrow> (scenario_error + unit) option" where
  "await check timeoutMs label p =
     (case waitUntil (\<lambda>i. check (po_seen p i)) (po_clock p) (po_start p) timeoutMs None of
        None \<Rightarrow> None
      | Some (Ready, _) \<Rightarrow> Some (Inr ())
      | Some (Expired, _) \<Rightarrow>
          Some (Inl (Scenario_error (''waitUntil timed out after '' @ show_int timeoutMs @ ''ms: '' @ label)))
      | Some (Raised e, _) \<Rightarrow> Some (Inl e))"

definition delivery_is :: "uuid \<Rightarrow> string \<Rightarrow> db \<Rightarrow> scenario_error + bool" where
  "delivery_is did want s = try_bind (row_at ''state'' (state_rows did s) 0) (\<lambda>st. Inr (st = want))"

text \<open>Going on after a wait; None when the wait never ends.\<close>

definition and_then :: "(scenario_error + 'a) option \<Rightarrow> ('a \<Rightarrow> (scenario_error + 'b) option) \<Rightarrow> (scenario_error + 'b) option" where
  "and_then r f = (case r of None \<Rightarrow> None | Some (Inl e) \<Rightarrow> Some (Inl e) | Some (Inr x) \<Rightarrow> f x)"

lemma and_then_simps [simp]:
  "and_then None f = None" "and_then (Some (Inl e)) f = Some (Inl e)" "and_then (Some (Inr x)) f = f x"
  by (simp_all add: and_then_def)

section \<open>The scripts\<close>

subsection \<open>worker-kill-mid-delivery.ts\<close>

text \<open>The receiver: the number of the request before, then after it, the delay and the status.\<close>

definition kill_receiver :: "nat \<Rightarrow> nat \<times> int \<times> int" where
  "kill_receiver requestCount =
     (let requestCount = requestCount + 1 in if requestCount = 1 then (requestCount, 4000, 200) else (requestCount, 0, 200))"

definition kill_checks :: "uuid \<Rightarrow> db \<Rightarrow> db \<Rightarrow> scenario_error + (string \<times> json) list" where
  "kill_checks did sa sd =
     (let attempts = attempt_rows did sa in
      try_bind (assertScenario (2 \<le> length attempts)
          (''expected at least 2 attempts (killed A'' @ [CHR 0x27] @ ''s orphan + B'' @ [CHR 0x27] @
            ''s successful one), got '' @ show_nat (length attempts))) (\<lambda>_.
      try_bind (row_at ''error_class'' attempts 0) (\<lambda>a.
      try_bind (assertScenario (fst a = Some ''worker_lease_expired'')
          (''expected the orphaned first attempt to be closed with worker_lease_expired, got '' @ js_null_text (fst a))) (\<lambda>_.
      try_bind (row_at ''response_status'' attempts (length attempts - 1)) (\<lambda>b.
      try_bind (assertScenario (snd b = Some 200) ''expected the final attempt to have succeeded with a 200'') (\<lambda>_.
      try_bind (row_at ''state'' (state_rows did sd) 0) (\<lambda>st.
      try_bind (assertScenario (st = ''succeeded'') ''delivery must end in exactly one terminal state: succeeded'') (\<lambda>_.
      Inr [(''attemptCount'', JNum (show_nat (length attempts))), (''finalState'', JStr st)]))))))))"

definition worker_kill_mid_delivery ::
    "uuid \<Rightarrow> db poll \<Rightarrow> db poll \<Rightarrow> db \<Rightarrow> db \<Rightarrow> (scenario_error + (string \<times> json) list) option" where
  "worker_kill_mid_delivery did p1 p2 sa sd =
     and_then (await (delivery_is did ''in_flight'') 5000 ''worker A claims the delivery (state -> in_flight)'' p1) (\<lambda>_.
     and_then (await (delivery_is did ''succeeded'') 15000 ''worker B reclaims after lease expiry and completes the delivery'' p2) (\<lambda>_.
     Some (kill_checks did sa sd)))"

subsection \<open>worker-stall-fencing.ts\<close>

definition stall_receiver :: "nat \<Rightarrow> nat \<times> int \<times> int" where
  "stall_receiver requestCount =
     (let requestCount = requestCount + 1 in if requestCount = 1 then (requestCount, 500, 200) else (requestCount, 0, 200))"

definition lease_rows :: "uuid \<Rightarrow> db \<Rightarrow> (uuid option \<times> bool) list" where
  "lease_rows eid s = map (\<lambda>e. (ep_lease_id e, ep_busy e)) (filter (\<lambda>e. ep_id e = eid) (endpoints s))"

definition orphan_check :: "string \<Rightarrow> uuid \<Rightarrow> db \<Rightarrow> scenario_error + unit" where
  "orphan_check message did s =
     try_bind (row_at ''error_class'' (attempt_rows did s) 0) (\<lambda>a.
       assertScenario (fst a = Some ''worker_lease_expired'') (message @ js_null_text (fst a)))"

definition stall_checks :: "uuid option \<Rightarrow> uuid \<Rightarrow> uuid \<Rightarrow> db \<Rightarrow> db \<Rightarrow> db \<Rightarrow> db \<Rightarrow> scenario_error + (string \<times> json) list" where
  "stall_checks staleLeaseId eid did s1 s2 s3 s4 =
     try_bind (orphan_check (''expected A'' @ [CHR 0x27] @
         ''s orphaned attempt to be closed with worker_lease_expired before resuming A, got '') did s1) (\<lambda>_.
     try_bind (row_at ''lease_id'' (lease_rows eid s2) 0) (\<lambda>e.
     try_bind (assertScenario (fst e \<noteq> staleLeaseId) (''the endpoint'' @ [CHR 0x27] @
         ''s lease_id must not have been reset back to A'' @ [CHR 0x27] @ ''s stale value by A'' @ [CHR 0x27] @ ''s late write'')) (\<lambda>_.
     try_bind (assertScenario (\<not> snd e) (''the endpoint must not be left busy by A'' @ [CHR 0x27] @ ''s dropped write'')) (\<lambda>_.
     (let finalAttempts = attempt_rows did s3; attemptsWithResponses = filter (\<lambda>a. snd a \<noteq> None) finalAttempts in
     try_bind (assertScenario (length attemptsWithResponses = 1)
         (''expected exactly one attempt with a recorded response (B'' @ [CHR 0x27] @ ''s), got '' @
           show_nat (length attemptsWithResponses))) (\<lambda>_.
     try_bind (row_at ''state'' (state_rows did s4) 0) (\<lambda>st.
     try_bind (assertScenario (st = ''succeeded'') ''delivery must remain in exactly one terminal state: succeeded'') (\<lambda>_.
     Inr [(''attemptCount'', JNum (show_nat (length finalAttempts))), (''finalState'', JStr st)]))))))))"

definition worker_stall_fencing ::
    "uuid \<Rightarrow> uuid \<Rightarrow> db poll \<Rightarrow> db \<Rightarrow> db poll \<Rightarrow> db \<Rightarrow> db \<Rightarrow> db \<Rightarrow> db \<Rightarrow> (scenario_error + (string \<times> json) list) option" where
  "worker_stall_fencing eid did p1 s0 p2 s1 s2 s3 s4 =
     and_then (await (delivery_is did ''in_flight'') 5000 ''worker A claims the delivery (state -> in_flight)'' p1) (\<lambda>_.
     and_then (Some (row_at ''lease_id'' (lease_rows eid s0) 0)) (\<lambda>e.
     and_then (await (delivery_is did ''succeeded'') 10000 ''worker B reclaims the stale lease and completes the delivery'' p2) (\<lambda>_.
     Some (stall_checks (fst e) eid did s1 s2 s3 s4))))"

subsection \<open>crash-after-successful-send.ts\<close>

text \<open>A request the receiver has seen is the list of its headers.\<close>

definition crash_receiver :: "(string \<times> string) list \<Rightarrow> nat \<times> string option list \<Rightarrow> (nat \<times> string option list) \<times> int \<times> int" where
  "crash_receiver headers st =
     (let requestCount = fst st + 1; receivedEventIds = snd st @ [map_of headers ''webhook-event-id'']
      in ((requestCount, receivedEventIds), if requestCount = 1 then 500 else 0, 200))"

definition received_event_ids :: "(string \<times> string) list list \<Rightarrow> string option list" where
  "received_event_ids requests = snd (fold (\<lambda>h st. fst (crash_receiver h st)) requests (0, []))"

definition js_undefined_text :: "string option \<Rightarrow> string" where
  "js_undefined_text v = (case v of None \<Rightarrow> ''undefined'' | Some s \<Rightarrow> s)"

definition crash_checks :: "string option list \<Rightarrow> uuid \<Rightarrow> db \<Rightarrow> db \<Rightarrow> scenario_error + (string \<times> json) list" where
  "crash_checks receivedEventIds did sa sd =
     try_bind (assertScenario (length receivedEventIds = 2)
         (''expected the receiver to have been hit exactly twice (A'' @ [CHR 0x27] @ ''s send, B'' @ [CHR 0x27] @ ''s retry), got '' @
           show_nat (length receivedEventIds))) (\<lambda>_.
     try_bind (assertScenario (receivedEventIds ! 0 = receivedEventIds ! 1)
         (''expected the same Webhook-Event-Id across both attempts, got '' @ js_undefined_text (receivedEventIds ! 0) @ '' then '' @
           js_undefined_text (receivedEventIds ! 1))) (\<lambda>_.
     (let attempts = attempt_rows did sa; attemptsWithResponses = filter (\<lambda>a. snd a \<noteq> None) attempts in
     try_bind (orphan_check (''expected A'' @ [CHR 0x27] @ ''s orphaned attempt closed with worker_lease_expired, got '') did sa) (\<lambda>_.
     try_bind (assertScenario (length attemptsWithResponses = 1)
         (''expected exactly one recorded terminal outcome despite two real sends, got '' @ show_nat (length attemptsWithResponses))) (\<lambda>_.
     try_bind (row_at ''state'' (state_rows did sd) 0) (\<lambda>st.
     try_bind (assertScenario (st = ''succeeded'') ''delivery must end in exactly one terminal state: succeeded'') (\<lambda>_.
     Inr [(''receivedEventIds'', JArr (map (j_opt JStr) receivedEventIds)), (''finalState'', JStr st)])))))))"

definition crash_after_successful_send ::
    "uuid \<Rightarrow> db poll \<Rightarrow> (string \<times> string) list list poll \<Rightarrow> db poll \<Rightarrow> (string \<times> string) list list \<Rightarrow> db \<Rightarrow> db \<Rightarrow>
     (scenario_error + (string \<times> json) list) option" where
  "crash_after_successful_send did p1 heard p2 requests sa sd =
     and_then (await (delivery_is did ''in_flight'') 5000 ''worker A claims the delivery (state -> in_flight)'' p1) (\<lambda>_.
     and_then (await (\<lambda>rs. Inr (1 \<le> length (received_event_ids rs))) 5000
         (''the receiver sends A'' @ [CHR 0x27] @ ''s response'') heard) (\<lambda>_.
     and_then (await (delivery_is did ''succeeded'') 10000 ''worker B reclaims and completes the delivery'' p2) (\<lambda>_.
     Some (crash_checks (received_event_ids requests) did sa sd))))"

section \<open>The state the scripts start from\<close>

text \<open>A queue before the first claim.\<close>

lemma untouched_safe:
  assumes "wf_db s" "order_ok s" "attempts s = []" "\<forall>d\<in>set (deliveries s). d_state d = Pending \<and> d_attempt_count d = 0"
    "\<forall>e\<in>set (endpoints s). \<not> ep_busy e"
  shows "safe cfg \<lparr>s_db = s, s_hands = []\<rparr>" "lined_up s"
proof -
  have "in_flight_of eid s = []" for eid using assms(4) by (auto simp: in_flight_of_def filter_empty_conv)
  then have "db_ok (maxAttempts cfg) s"
    using assms by (auto simp: db_ok_def single_flight_def attempts_numbered_def attempts_of_def open_current_def failed_spent_def)
  then show "safe cfg \<lparr>s_db = s, s_hands = []\<rparr>"
    using assms by (auto simp: safe_def sys_ok_def outcomes_ok_def answers_ok_def busy_ok_def hands_ok_def)
  show "lined_up s" using assms(3,4) by (auto simp: lined_up_def fifo_ok_def)
qed

definition fixture_ok :: "uuid \<Rightarrow> uuid \<Rightarrow> db \<Rightarrow> bool" where
  "fixture_ok tid eid s \<longleftrightarrow> wf_db s \<and> order_ok s \<and> attempts s = [] \<and> tid \<in> tn_id ` set (tenants s) \<and> eid \<in> ep_id ` set (endpoints s) \<and>
     (\<forall>v\<in>set (events s). ev_status v = Expanded \<and> ev_tenant_id v = tid) \<and>
     (\<forall>e\<in>set (endpoints s). \<not> ep_busy e \<and> ep_tenant_id e = tid) \<and>
     (\<forall>d\<in>set (deliveries s). d_state d = Pending \<and> d_attempt_count d = 0 \<and> d_endpoint_id d = eid)"

lemma fixture_event:
  assumes fx: "fixture_ok tid eid s" and run: "event_row Expanded now [P_uuid tid, P_text key, P_text ty, P_text payload] s = Inr (i, t)"
  shows "fixture_ok tid eid t" "deliveries t = deliveries s" "\<exists>v\<in>set (events t). ev_id v = i \<and> ev_seq v = ev_next_seq s"
    "i \<notin> d_event_id ` set (deliveries s)" "\<forall>w\<in>set (events t). ev_seq w \<le> ev_next_seq s"
proof -
  have wf: "wf_db s" using fx by (simp add: fixture_ok_def)
  obtain v where t: "t = s\<lparr>uuid_draws := Suc (uuid_draws s), events := events s @ [v], ev_next_seq := Suc (ev_next_seq s)\<rparr>"
      "ev_id v = i" "ev_tenant_id v = tid" "ev_status v = Expanded" "ev_seq v = ev_next_seq s"
    and fresh: "i \<notin> ev_id ` set (events s)" and wft: "wf_db t"
    by (rule event_rowE [OF run wf])
  have old: "\<forall>p\<in>set (queue_pairs s). snd p \<noteq> i" using pair_refs(1) [OF wf] fresh by force
  have "first_in_order (seq_of t) (queue_pairs t)"
  proof (rule first_in_order_cong [of "seq_of s"])
    show "first_in_order (seq_of s) (queue_pairs t)" using fx t(1) by (simp add: fixture_ok_def order_ok_def queue_pairs_def)
    show "\<forall>p\<in>set (queue_pairs t). seq_of s (snd p) = seq_of t (snd p)"
      using old t(2) by (auto simp: t(1) queue_pairs_def seq_of_def find_by_append split: option.split)
  qed
  moreover have "front_ok t" using fx t by (auto simp: fixture_ok_def front_ok_def)
  moreover have "sent_expanded t"
    using fx old t(2) by (auto simp: t(1) fixture_ok_def order_ok_def sent_expanded_def queue_pairs_def)
  ultimately have "order_ok t" by (simp add: order_ok_def)
  with fx wft t show "fixture_ok tid eid t" "deliveries t = deliveries s" "\<exists>v\<in>set (events t). ev_id v = i \<and> ev_seq v = ev_next_seq s"
    by (auto simp: fixture_ok_def)
  show "i \<notin> d_event_id ` set (deliveries s)" using fresh wf by (auto simp: wf_db_def refs_ok_def)
  show "\<forall>w\<in>set (events t). ev_seq w \<le> ev_next_seq s" using wf t by (auto simp: wf_db_def seqs_ok_def less_imp_le)
qed

lemma fixture_delivery_row:
  assumes fx: "fixture_ok tid eid s" and run: "delivery_row Pending now [P_uuid evid, P_uuid eid] s = Inr (i, t)"
    and new: "evid \<notin> d_event_id ` set (deliveries s)"
    and young: "v \<in> set (events s)" "ev_id v = evid" "\<forall>w\<in>set (events s). ev_seq w \<le> ev_seq v"
  shows "fixture_ok tid eid t" "\<exists>d. deliveries t = deliveries s @ [d] \<and> d_id d = i"
proof -
  have wf: "wf_db s" using fx by (simp add: fixture_ok_def)
  obtain d where t: "t = s\<lparr>uuid_draws := Suc (uuid_draws s), deliveries := deliveries s @ [d], d_next_seq := Suc (d_next_seq s)\<rparr>"
      "d_id d = i" "d_event_id d = evid" "d_endpoint_id d = eid" "d_state d = Pending" "d_attempt_count d = 0"
    and wft: "wf_db t"
    by (rule delivery_rowE [OF run wf]) simp_all
  have pairs: "queue_pairs t = queue_pairs s @ [(eid, evid)]" using t(3,4) by (simp add: t(1) queue_pairs_def)
  have seqs: "seq_of t = seq_of s" by (simp add: t(1) seq_of_def [abs_def])
  have "first_in_order (seq_of t) (queue_pairs t)"
    unfolding pairs seqs
  proof (rule first_in_order_append)
    show "first_in_order (seq_of s) (queue_pairs s)" using fx by (simp add: fixture_ok_def order_ok_def)
    fix xs e w ys assume "[(eid, evid)] = xs @ (e, w) # ys"
    then have e: "xs = []" "e = eid" "w = evid" by (auto simp: Cons_eq_append_conv)
    have "seq_of s u < seq_of s evid" if u: "(e, u) \<in> set (queue_pairs s)" for u
    proof -
      obtain y where y: "y \<in> set (events s)" "ev_id y = u" using pair_refs(1) [OF wf u] by auto
      have "u \<noteq> evid" using new u by (auto simp: queue_pairs_def)
      have "ev_seq y \<noteq> ev_seq v"
      proof
        assume "ev_seq y = ev_seq v"
        moreover have "distinct (map ev_seq (events s))" using wf by (simp add: wf_db_def seqs_ok_def strict_sorted_iff)
        ultimately have "y = v" using y(1) young(1) by (metis distinct_map_eq)
        with y(2) young(2) \<open>u \<noteq> evid\<close> show False by simp
      qed
      then show ?thesis
        using seq_of_in [OF wf y(1)] seq_of_in [OF wf young(1)] young(2,3) y by (metis nat_less_le)
    qed
    then show "\<forall>u. (e, u) \<in> set (queue_pairs s) \<or> (e, u) \<in> set xs \<longrightarrow> seq_of s u < seq_of s w" using e by simp
  qed
  moreover have "front_ok t" using fx t(1) by (auto simp: fixture_ok_def front_ok_def)
  moreover have "sent_expanded t"
    using fx unfolding sent_expanded_def pairs by (auto simp: t(1) fixture_ok_def order_ok_def sent_expanded_def)
  ultimately have "order_ok t" by (simp add: order_ok_def)
  with fx wft t show "fixture_ok tid eid t" by (auto simp: fixture_ok_def)
  show "\<exists>d. deliveries t = deliveries s @ [d] \<and> d_id d = i" using t(2) by (simp add: t(1))
qed

lemma fixture_pending:
  assumes "fixture_ok tid eid s" "pending_deliveries F tid eid ps n s = Some (ids, t)"
  shows "fixture_ok tid eid t \<and> map d_id (deliveries t) = map d_id (deliveries s) @ ids \<and> length ids = length ps"
  using assms
proof (induction ps arbitrary: n s ids)
  case (Cons p ps)
  obtain i evid s1 where c: "createPendingDelivery (fx_fresh F n) (fx_now F (2 + 2 * n)) (fx_now F (3 + 2 * n)) tid eid None p s =
      (Inr (i, evid), s1)"
    and rest: "\<exists>is. pending_deliveries F tid eid ps (Suc n) s1 = Some (is, t) \<and> ids = i # is"
    using Cons.prems(2) by (auto split: prod.splits sum.splits simp del: One_nat_def)
  obtain key ty payload s0 where ev: "event_row Expanded (fx_now F (2 + 2 * n)) [P_uuid tid, P_text key, P_text ty, P_text payload] s = Inr (evid, s0)"
    and row: "delivery_row Pending (fx_now F (3 + 2 * n)) [P_uuid evid, P_uuid eid] s0 = Inr (i, s1)"
    using c by (auto simp: createPendingDelivery_def split: sum.splits prod.splits)
  note e = fixture_event [OF Cons.prems(1) ev]
  obtain v where v: "v \<in> set (events s0)" "ev_id v = evid" "ev_seq v = ev_next_seq s" using e(3) by blast
  note r = fixture_delivery_row [OF e(1) row, of v]
  have "fixture_ok tid eid s1" "map d_id (deliveries s1) = map d_id (deliveries s) @ [i]"
    using r e v by auto
  with rest Cons.IH [of s1 "Suc n"] show ?case by auto
qed simp

lemma setup_safe:
  assumes "blank s" "scenario_setup F ps s = Some (eid, ids, t)"
  shows "safe cfg \<lparr>s_db = t, s_hands = []\<rparr>" "lined_up t" "map d_id (deliveries t) = ids" "length ids = length ps"
    "\<forall>d\<in>set (deliveries t). d_endpoint_id d = eid \<and> d_state d = Pending \<and> d_attempt_count d = 0"
proof -
  obtain tid key s1 s2 where c: "createTenant (fx_crypto F) (fx_now F 0) (fx_rnd F) ''chaos-tenant'' s = Some (tid, key, s1)"
      "createEndpoint (fx_now F 1) tid [''order.created'']
         (Some (''http://chaos-test.local:'' @ show_nat (fx_port F) @ ''/hook'')) (fx_secret F) s1 = Inr (eid, s2)"
      "pending_deliveries F tid eid ps 0 s2 = Some (ids, t)"
    using assms(2) by (auto simp: scenario_setup_def split: option.splits prod.splits sum.splits)
  have seed: "seed_tenant (fx_crypto F) (fx_now F 0) (fx_rnd F) ''chaos-tenant'' s = Some (tid, key, s1)"
    using c(1) by (simp add: createTenant_def seed_tenant_def)
  note empty = blank_wf [OF assms(1)]
  have s1: "wf_db s1" "tid \<in> tn_id ` set (tenants s1)" "endpoints s1 = []" "events s1 = []" "deliveries s1 = []" "attempts s1 = []"
    using wf_seed_tenant [OF seed empty] seed_tenant_frame [OF seed] assms(1) seed
    by (auto simp: blank_def seed_tenant_def gen_random_uuid_def Let_def split: if_splits)
  let ?ins = "insert_endpoint (fx_now F 1) tid (''http://chaos-test.local:'' @ show_nat (fx_port F) @ ''/hook'') [''order.created''] (fx_secret F) s1"
  have s2: "s2 = snd ?ins" "eid = ep_id (fst ?ins)" using c(2) s1(2) by (simp_all add: createEndpoint_def)
  have "wf_db s2" unfolding s2(1) by (rule wf_api_write [OF api_register s1(1,2)])
  moreover have "endpoints s2 = [fst ?ins]" "tenants s2 = tenants s1" "events s2 = []" "deliveries s2 = []" "attempts s2 = []"
    "\<not> ep_busy (fst ?ins)" "ep_tenant_id (fst ?ins) = tid"
    using s1 by (simp_all add: s2(1)) (simp_all add: insert_endpoint_def gen_random_uuid_def Let_def)
  ultimately have "fixture_ok tid eid s2"
    using s1(2) s2(2) by (simp add: fixture_ok_def order_ok_def front_ok_def sent_expanded_def queue_pairs_def first_in_order_def)
  note fx = fixture_pending [OF this c(3)]
  then show "safe cfg \<lparr>s_db = t, s_hands = []\<rparr>" "lined_up t" using untouched_safe [of t] by (auto simp: fixture_ok_def)
  show "map d_id (deliveries t) = ids" "length ids = length ps" using fx \<open>deliveries s2 = []\<close> by simp_all
  show "\<forall>d\<in>set (deliveries t). d_endpoint_id d = eid \<and> d_state d = Pending \<and> d_attempt_count d = 0"
    using fx by (simp add: fixture_ok_def)
qed

section \<open>What the queries see\<close>

lemma poll_ends:
  assumes "poll_loop check late i = Some y"
  shows "fst y = Ready \<longrightarrow> check (snd y) = Inr True"
proof (rule poll_loop.raw_induct [where P = "\<lambda>check late i y. fst y = Ready \<longrightarrow> check (snd y) = Inr True", OF _ assms])
  fix poll :: "(nat \<Rightarrow> 'a + bool) \<Rightarrow> (nat \<Rightarrow> bool) \<Rightarrow> nat \<Rightarrow> ('a poll_end \<times> nat) option" and check late i y
  assume "\<And>check late i y. poll check late i = Some y \<Longrightarrow> fst y = Ready \<longrightarrow> check (snd y) = Inr True"
    and "(case check i of Inl e \<Rightarrow> Some (Raised e, i)
      | Inr ok \<Rightarrow> if ok then Some (Ready, i) else if late i then Some (Expired, i) else poll check late (Suc i)) = Some y"
  then show "fst y = Ready \<longrightarrow> check (snd y) = Inr True" by (auto split: sum.splits if_splits)
qed

lemma poll_ready: "poll_loop check late i = Some (Ready, n) \<Longrightarrow> check n = Inr True"
  by (drule poll_ends) simp

lemma await_ready:
  assumes "await check timeoutMs label p = Some (Inr ())"
  shows "\<exists>i. check (po_seen p i) = Inr True"
  using assms by (auto simp: await_def waitUntil_def Let_def split: option.splits prod.splits poll_end.splits dest: poll_ready)

lemma state_rows_one:
  assumes "wf_db s" "d \<in> set (deliveries s)"
  shows "state_rows (d_id d) s = [delivery_state_text (d_state d)]"
  unfolding state_rows_def
  by (subst filter_key_unique) (use assms in \<open>simp_all add: wf_db_def keys_ok_def\<close>)

lemma delivery_is_succeeded:
  assumes "wf_db s" "d \<in> set (deliveries s)"
  shows "delivery_is (d_id d) ''succeeded'' s = Inr True \<longleftrightarrow> d_state d = Succeeded"
  by (simp add: delivery_is_def state_rows_one [OF assms] row_at_def try_bind_def delivery_state_text_def split: delivery_state.split)

lemma lease_rows_one:
  assumes "wf_db s" "e \<in> set (endpoints s)"
  shows "lease_rows (ep_id e) s = [(fence (ep_id e) s, ep_busy e)]"
proof -
  have dist: "distinct (map ep_id (endpoints s))" using assms(1) by (simp add: wf_db_def keys_ok_def)
  then have "filter (\<lambda>x. ep_id x = ep_id e) (endpoints s) = [e]" by (rule filter_key_unique [OF _ assms(2)])
  moreover have "fence (ep_id e) s = ep_lease_id e"
    using find_by_eq_Some [OF dist assms(2) refl] by (simp add: fence_def)
  ultimately show ?thesis by (simp add: lease_rows_def)
qed

lemma attempt_rows_map:
  assumes "safe cfg v" "d \<in> set (deliveries (s_db v))"
  shows "attempt_rows (d_id d) (s_db v) =
    map (\<lambda>a. (map_option error_class_text (a_error_class a), a_response_status a)) (attempts_of (d_id d) (s_db v))"
  unfolding attempt_rows_def
  using strict_sorted_sort_key [of a_attempt_number "attempts_of (d_id d) (s_db v)" "\<lambda>_. True"]
  by (simp add: attempts_of_count [OF safe_parts(4) [OF assms(1)] assms(2)] del: upt_Suc)

text \<open>The answers of a delivery that succeeded, from a receiver that always says 200.\<close>

lemma answered_rows:
  assumes ok: "safe cfg v" and d: "d \<in> set (deliveries (s_db v))" "d_state d = Succeeded"
    and answers: "\<forall>a\<in>set (attempts (s_db v)). a_response_status a \<in> {None, Some 200}"
  shows "snd (last (attempt_rows (d_id d) (s_db v))) = Some 200"
    "length (filter (\<lambda>a. snd a \<noteq> None) (attempt_rows (d_id d) (s_db v))) = 1"
proof -
  let ?xs = "attempts_of (d_id d) (s_db v)"
  have all: "answered_ok x \<longleftrightarrow> a_response_status x \<noteq> None" if "x \<in> set ?xs" for x
    using answers that by (auto simp: answered_ok_def attempts_of_def)
  have "filter (\<lambda>x. a_response_status x \<noteq> None) ?xs = filter answered_ok ?xs" by (rule filter_cong) (simp_all add: all)
  also have "\<dots> = [last ?xs]" using answers_of [OF ok d(1)] d(2) by simp
  finally have f: "filter (\<lambda>x. a_response_status x \<noteq> None) ?xs = [last ?xs]" .
  then have "last ?xs \<in> set (filter (\<lambda>x. a_response_status x \<noteq> None) ?xs)" by simp
  then have l: "last ?xs \<in> set ?xs" "a_response_status (last ?xs) = Some 200" using answers by (auto simp: attempts_of_def)
  then have "?xs \<noteq> []" by auto
  with l(2) show "snd (last (attempt_rows (d_id d) (s_db v))) = Some 200"
    by (simp add: attempt_rows_map [OF ok d(1)] last_map)
  show "length (filter (\<lambda>a. snd a \<noteq> None) (attempt_rows (d_id d) (s_db v))) = 1"
    using f by (simp add: attempt_rows_map [OF ok d(1)] filter_map comp_def)
qed

text \<open>The attempts of a delivery that succeeded after a first attempt that nobody wrote back.\<close>

lemma taken_over:
  assumes ok: "safe cfg v" and d: "d \<in> set (deliveries (s_db v))" "d_id d = c_deliveryId c" "d_state d = Succeeded"
    and c: "unanswered (s_db v) c" "c_attemptNumber c = 1"
    and answers: "\<forall>a\<in>set (attempts (s_db v)). a_response_status a \<in> {None, Some 200}"
  shows "2 \<le> length (attempt_rows (d_id d) (s_db v))"
    "fst (attempt_rows (d_id d) (s_db v) ! 0) = Some ''worker_lease_expired''"
    "snd (last (attempt_rows (d_id d) (s_db v))) = Some 200"
    "length (filter (\<lambda>a. snd a \<noteq> None) (attempt_rows (d_id d) (s_db v))) = 1"
proof -
  let ?xs = "attempts_of (d_id d) (s_db v)"
  note wf = safe_parts(2) [OF ok] and num = safe_parts(4) [OF ok] and ans = safe_parts(7) [OF ok]
  note count = attempts_of_count [OF num d(1)] and rows = attempt_rows_map [OF ok d(1)]
  obtain a where a: "a \<in> set (attempts (s_db v))" "a_delivery_id a = d_id d" "a_attempt_number a = 1" "a_response_status a = None"
      "a_error_class a = Some Worker_lease_expired"
  proof -
    have "\<not> (\<exists>x\<in>set (deliveries (s_db v)). d_id x = c_deliveryId c \<and> d_state x = In_flight \<and> d_attempt_count x = c_attemptNumber c)"
      using d_id_eq [OF wf _ d(1)] d(2,3) by auto
    with closed_unless_current [OF ok c(1)] obtain a where "a \<in> set (attempts (s_db v))" "a_delivery_id a = c_deliveryId c"
      "a_attempt_number a = c_attemptNumber c" "a_response_status a = None" "a_error_class a = Some Worker_lease_expired" by blast
    with d(2) c(2) show thesis by (intro that) simp_all
  qed
  have n: "d_attempt_count d \<noteq> 0" using ans d(1,3) by (simp add: answers_ok_def)
  have "answered_ok a \<longleftrightarrow> d_state d = Succeeded \<and> a_attempt_number a = d_attempt_count d"
    using ans d(1) a(1,2) unfolding answers_ok_def by blast
  then have one: "d_attempt_count d \<noteq> 1" using a(3,4) d(3) by (simp add: answered_ok_def)
  have len: "length ?xs = d_attempt_count d" using arg_cong [where f = length, OF count] by simp
  with n one show "2 \<le> length (attempt_rows (d_id d) (s_db v))" by (simp add: rows)
  have ne: "?xs \<noteq> []" using len n by auto
  have first: "?xs ! 0 = a"
  proof (rule numbered_unique [OF num d(1)])
    have "?xs ! 0 \<in> set ?xs" using ne by simp
    then show "?xs ! 0 \<in> set (attempts (s_db v))" "a_delivery_id (?xs ! 0) = d_id d" by (auto simp: attempts_of_def)
    have "map a_attempt_number ?xs ! 0 = 1" unfolding count using n by (simp del: upt_Suc)
    then show "a_attempt_number (?xs ! 0) = a_attempt_number a" using ne a(3) by simp
  qed (use a in simp_all)
  then show "fst (attempt_rows (d_id d) (s_db v) ! 0) = Some ''worker_lease_expired''"
    using ne a(5) by (simp add: rows error_class_text_def)
qed (rule answered_rows [OF ok d(1,3) answers])+

section \<open>The scenarios pass\<close>

text \<open>The rows of the fixture, in a later state.\<close>

lemma fixture_row:
  assumes "blank s" "scenario_setup F [p] s = Some (eid, [did], t)" "sys_run cfg \<lparr>s_db = t, s_hands = []\<rparr> v"
  obtains d where "d \<in> set (deliveries (s_db v))" "d_id d = did" "d_endpoint_id d = eid" "safe cfg v"
proof -
  note fx = setup_safe [OF assms(1,2)]
  obtain d0 where d0: "d0 \<in> set (deliveries t)" "d_id d0 = did" "d_endpoint_id d0 = eid"
    using fx(3,5) by (cases "deliveries t") auto
  obtain d where "d \<in> set (deliveries (s_db v))" "same_row d0 d"
    by (rule evolves_row [OF safe_evolves [OF assms(3) fx(1)]]) (use d0(1) in auto)
  with d0 safe_run [OF assms(3) fx(1)] show thesis by (intro that [of d]) (simp_all add: same_row_def)
qed

text \<open>What the second wait of every script tells about the states after it.\<close>

lemma succeeded_later:
  assumes "safe cfg u" "d \<in> set (deliveries (s_db v))" "sys_run cfg u v"
    and seen: "\<forall>i. \<exists>w. sys_run cfg u w \<and> sys_run cfg w v \<and> po_seen p i = s_db w"
    and ready: "await (delivery_is (d_id d) ''succeeded'') timeoutMs label p = Some (Inr ())"
  shows "d_state d = Succeeded"
proof -
  obtain w i where w: "sys_run cfg u w" "sys_run cfg w v" "delivery_is (d_id d) ''succeeded'' (s_db w) = Inr True"
    using await_ready [OF ready] seen by metis
  have ok: "safe cfg w" "safe cfg v" using safe_run w(1,2) assms(1) by blast+
  have "state_rows (d_id d) (s_db w) \<noteq> []" using w(3) by (auto simp: delivery_is_def row_at_def try_bind_def)
  then obtain x where x: "x \<in> set (deliveries (s_db w))" "d_id x = d_id d"
    by (auto simp: state_rows_def filter_empty_conv)
  have "d_state x = Succeeded" using w(3) delivery_is_succeeded [OF safe_parts(2) [OF ok(1)] x(1)] x(2) by simp
  moreover obtain y where y: "y \<in> set (deliveries (s_db v))" "same_row x y"
    by (rule evolves_row [OF safe_evolves [OF w(2) ok(1)] x(1)])
  moreover have "y = d" by (rule d_id_eq [OF safe_parts(2) [OF ok(2)] y(1) assms(2)]) (use x(2) y(2) in \<open>simp add: same_row_def\<close>)
  ultimately show ?thesis by (simp add: same_row_def)
qed

lemma still_succeeded:
  assumes "safe cfg v" "sys_run cfg v w" "d \<in> set (deliveries (s_db v))" "d_state d = Succeeded"
  shows "d \<in> set (deliveries (s_db w))" "state_rows (d_id d) (s_db w) = [''succeeded'']"
proof -
  obtain y where "y \<in> set (deliveries (s_db w))" "same_row d y" by (rule evolves_row [OF safe_evolves [OF assms(2,1)] assms(3)])
  with assms(4) show d: "d \<in> set (deliveries (s_db w))" by (simp add: same_row_def)
  show "state_rows (d_id d) (s_db w) = [''succeeded'']"
    using state_rows_one [OF safe_parts(2) [OF safe_run [OF assms(2,1)]] d] assms(4) by (simp add: delivery_state_text_def)
qed

lemma assert_holds [simp]: "c \<Longrightarrow> try_bind (assertScenario c m) f = f ()"
  by (simp add: assertScenario_def try_bind_def)

lemma row_found [simp]: "i < length xs \<Longrightarrow> try_bind (row_at prop xs i) f = f (xs ! i)"
  by (simp add: row_at_def try_bind_def)

lemma orphan_found:
  "0 < length (attempt_rows did s) \<Longrightarrow> fst (attempt_rows did s ! 0) = Some ''worker_lease_expired'' \<Longrightarrow> orphan_check m did s = Inr ()"
  by (simp add: orphan_check_def assertScenario_def)

text \<open>A claim names the event of its delivery, and so does every later one of that delivery.\<close>

definition named :: "sys \<Rightarrow> bool" where
  "named u \<longleftrightarrow> (\<forall>c\<in>set (s_hands u). \<exists>d\<in>set (deliveries (s_db u)). d_id d = c_deliveryId c \<and> d_event_id d = c_eventId c)"

lemma claim_named:
  assumes run: "tryClaimEndpoint dec clk cand cutoff s = (Inr (Some c), t)" and ok: "db_ok mxa s" "fresh_candidate cand s"
  shows "\<exists>d\<in>set (deliveries t). d_id d = c_deliveryId c \<and> d_event_id d = c_eventId c"
  using run
proof (cases rule: tryClaimEndpoint_cases)
  case (claimed l s1 u d v e p q)
  have wf: "wf_db u" by (rule claim_prepared [OF claimed(1) ok]) (use claimed(2) in simp)
  note h = select_head_SomeD(1) [OF wf claimed(3)]
  have "started d \<in> set (deliveries t)" using h by (auto simp: claimed(7) record_attempt_deliveries [OF wf h])
  moreover have "c_deliveryId c = d_id d" "c_eventId c = d_event_id d" using claimed(6) by (simp_all add: new_claim_def)
  ultimately show ?thesis by (intro bexI [of _ "started d"]) simp_all
qed simp_all

lemma named_step:
  assumes step: "sys_step cfg u u'" and ok: "safe cfg u" and n: "named u"
  shows "named u'"
proof -
  have ev: "evolves (s_db u) (s_db u')" using evolves_step [OF step] ok by (simp add: safe_def)
  have old: "\<exists>d\<in>set (deliveries (s_db u')). d_id d = c_deliveryId c \<and> d_event_id d = c_eventId c" if c: "c \<in> set (s_hands u)" for c
  proof -
    obtain d where d: "d \<in> set (deliveries (s_db u))" "d_id d = c_deliveryId c" "d_event_id d = c_eventId c"
      using n c by (auto simp: named_def)
    obtain d' where "d' \<in> set (deliveries (s_db u'))" "same_row d d'" by (rule evolves_row [OF ev d(1)])
    with d show ?thesis by (intro bexI [of _ d']) (simp_all add: same_row_def)
  qed
  from step show ?thesis
  proof (cases rule: sys_step_kinds)
    case quiet
    with old show ?thesis by (simp add: named_def)
  next
    case (claim dec clk cand cutoff res)
    then show ?thesis
      using old claim_named [OF _ safe_parts(1) [OF ok] claim(2)]
      by (auto simp: named_def hands_after_def split: sum.splits option.splits)
  next
    case (complete c r now rnd res)
    with old show ?thesis by (auto simp: named_def dest: remove1_in)
  next
    case (crash c)
    with old show ?thesis by (auto simp: named_def dest: remove1_in)
  qed
qed

lemma named_run: "sys_run cfg u v \<Longrightarrow> safe cfg u \<Longrightarrow> named u \<Longrightarrow> named v"
  by (drule run_induct [where P = named]) (auto intro: named_step)

lemma same_event:
  assumes "safe cfg u" "named u" "sys_run cfg u v" "c \<in> set (s_hands u)" "c' \<in> set (s_hands v)" "c_deliveryId c' = c_deliveryId c"
  shows "c_eventId c' = c_eventId c"
proof -
  note okv = safe_run [OF assms(3,1)]
  obtain d where d: "d \<in> set (deliveries (s_db u))" "d_id d = c_deliveryId c" "d_event_id d = c_eventId c"
    using assms(2,4) by (auto simp: named_def)
  obtain d1 where d1: "d1 \<in> set (deliveries (s_db v))" "same_row d d1" by (rule evolves_row [OF safe_evolves [OF assms(3,1)] d(1)])
  obtain d' where d': "d' \<in> set (deliveries (s_db v))" "d_id d' = c_deliveryId c'" "d_event_id d' = c_eventId c'"
    using named_run [OF assms(3,1,2)] assms(5) by (auto simp: named_def)
  have "d1 = d'" by (rule d_id_eq [OF safe_parts(2) [OF okv] d1(1) d'(1)]) (use d d1 d' assms(6) in \<open>simp add: same_row_def\<close>)
  with d(3) d1(2) d'(3) show ?thesis by (simp add: same_row_def)
qed

text \<open>A concrete run of the scripts: the set-up on an empty database, a claim, its takeover, a 200.\<close>

definition chaos_inputs :: fixture_inputs where
  "chaos_inputs = \<lparr>fx_crypto = toy_crypto, fx_rnd = demo_bytes, fx_secret = demo_secret, fx_fresh = show_nat,
     fx_now = (\<lambda>i. 1000 * (int i + 1)), fx_port = 8080\<rparr>"

definition chaos_endpoint :: endpoint where
  "chaos_endpoint = demo_endpoint\<lparr>ep_url := ''http://chaos-test.local:'' @ show_nat 8080 @ ''/hook'', ep_event_types := [''order.created'']\<rparr>"

definition chaos_event :: event where
  "chaos_event = (demo_event Expanded)\<lparr>ev_idempotency_key := ''chaos-fixture-'' @ show_nat 0, ev_type := ''order.created'',
     ev_payload := JObj [(''hello'', JStr ''chaos'')]\<rparr>"

definition chaos_db :: "ts option \<Rightarrow> endpoint \<Rightarrow> delivery \<Rightarrow> attempt list \<Rightarrow> nat \<Rightarrow> db" where
  "chaos_db served e d xs n = demo_db [demo_tenant\<lparr>tn_name := ''chaos-tenant'', tn_last_served_at := served\<rparr>] [e] [chaos_event] [d] xs 2 2 n"

definition chaos_claim :: "nat \<Rightarrow> nat \<Rightarrow> claimed_delivery" where
  "chaos_claim l n = demo_claim\<lparr>c_leaseId := l, c_attemptNumber := n, c_attemptId := Suc l, c_url := ep_url chaos_endpoint,
     c_eventType := ''order.created'', c_payload := ev_payload chaos_event\<rparr>"

definition chaos_attempts :: "attempt list" where
  "chaos_attempts = [demo_attempt\<lparr>a_error_class := Some Worker_lease_expired\<rparr>,
      demo_attempt\<lparr>a_id := 7, a_attempt_number := 2, a_sent_at := Some 90000000, a_created_at := 90000000,
        a_response_status := Some 200, a_response_body_truncated := Some [], a_duration_ms := Some 5\<rparr>]"

definition chaos_claimed :: db where
  "chaos_claimed = chaos_db (Some 5000) (take_lease 5000 4 chaos_endpoint) (demo_delivery In_flight 1) [demo_attempt] 6"

definition chaos_reclaimed :: db where
  "chaos_reclaimed = chaos_db (Some 90000000) (take_lease 90000000 6 chaos_endpoint) (demo_delivery In_flight 2)
     [demo_attempt\<lparr>a_error_class := Some Worker_lease_expired\<rparr>,
      demo_attempt\<lparr>a_id := 7, a_attempt_number := 2, a_sent_at := Some 90000000, a_created_at := 90000000\<rparr>] 8"

definition chaos_done :: db where
  "chaos_done = chaos_db (Some 90000000) chaos_endpoint (demo_delivery Succeeded 2) chaos_attempts 8"

lemmas chaos_rows = chaos_db_def demo_db_def chaos_endpoint_def chaos_event_def demo_rows

lemma chaos_blank: "blank (empty_db id)"
  by (simp add: blank_def empty_db_def)

lemma hello_chaos: "json_parse (stringify (JObj [(''hello'', JStr ''chaos'')])) = Some (JObj [(''hello'', JStr ''chaos'')])"
  by (rule json_parse_print) simp

lemma chaos_setup: "scenario_setup chaos_inputs [None] (empty_db id) = Some (1, [3], chaos_db None chaos_endpoint (demo_delivery Pending 0) [] 4)"
  using hello_chaos
  by (simp add: scenario_setup_def createTenant_def createEndpoint_def createPendingDelivery_def event_row_def delivery_row_def
      insert_endpoint_def gen_random_uuid_def Let_def find_event_def chaos_inputs_def empty_db_def chaos_rows demo_key_def)

lemma chaos_first: "tryClaimEndpoint demo_dec (demo_clock 5000) demo_cand (- 1000) (chaos_db None chaos_endpoint (demo_delivery Pending 0) [] 4) =
  (Inr (Some (chaos_claim 4 1)), chaos_claimed)"
proof -
  have secrets: "claim_secrets demo_dec n (take_lease 5000 4 chaos_endpoint) = Some (generateSecret demo_bytes ''whsec'', None)" for n
    using demo_decrypt by (simp add: claim_secrets_def hasActiveSecondary_def take_lease_def chaos_rows)
  show ?thesis
    using secrets
    by (simp add: tryClaimEndpoint_def stmt_claim_def demo_clock_def demo_cand_def chaos_claimed_def chaos_claim_def chaos_rows
        claimable_def lease_free_def gen_random_uuid_def Let_def stmt_serve_def reclaim_def claim_head_def select_head_def pending_of_def
        js_of_ts_def start_attempt_def stmt_insert_attempt_def stmt_in_flight_def demo_claim_def take_lease_def)
qed

lemma chaos_second: "tryClaimEndpoint demo_dec (demo_clock 90000000) demo_stale 50000000 chaos_claimed =
  (Inr (Some (chaos_claim 6 2)), chaos_reclaimed)"
proof -
  have secrets: "claim_secrets demo_dec n (take_lease 90000000 6 chaos_endpoint) = Some (generateSecret demo_bytes ''whsec'', None)" for n
    using demo_decrypt by (simp add: claim_secrets_def hasActiveSecondary_def take_lease_def chaos_rows)
  show ?thesis
    using secrets
    by (simp add: tryClaimEndpoint_def stmt_claim_def demo_clock_def demo_stale_def chaos_claimed_def chaos_reclaimed_def chaos_claim_def
        chaos_rows claimable_def lease_free_def gen_random_uuid_def Let_def stmt_serve_def reclaim_def claim_head_def
        stmt_expire_orphans_def in_flight_of_def stmt_requeue_def orphan_def select_head_def pending_of_def
        js_of_ts_def start_attempt_def stmt_insert_attempt_def stmt_in_flight_def demo_claim_def take_lease_def)
qed

lemma chaos_complete: "completeDelivery now rnd (chaos_claim 6 2) demo_answer cfg chaos_reclaimed = (Inr Oc_succeeded, chaos_done)"
  by (simp add: completeDelivery_def chaos_reclaimed_def chaos_done_def chaos_attempts_def chaos_rows take_lease_def fence_def
      chaos_claim_def demo_claim_def demo_answer_def pg_text_ok_def stmt_record_outcome_def settle_delivery_def
      http_success_def stmt_resolve_def stmt_free_def free_lease_def)

lemma chaos_start: "sys_run cfg \<lparr>s_db = chaos_db None chaos_endpoint (demo_delivery Pending 0) [] 4, s_hands = []\<rparr>
  \<lparr>s_db = chaos_claimed, s_hands = [chaos_claim 4 1]\<rparr>"
proof (rule run_step [OF _ run_refl])
  let ?u = "\<lparr>s_db = chaos_db None chaos_endpoint (demo_delivery Pending 0) [] 4, s_hands = []\<rparr>"
  have "fresh_candidate demo_cand (s_db ?u)"
    by (simp add: fresh_candidate_def demo_cand_def chaos_rows)
  then show "sys_step cfg ?u \<lparr>s_db = chaos_claimed, s_hands = [chaos_claim 4 1]\<rparr>"
    using step_claim [of demo_dec "demo_clock 5000" demo_cand "- 1000" ?u "Inr (Some (chaos_claim 4 1))" chaos_claimed]
    by (simp add: chaos_first hands_after_Some)
qed

lemma chaos_takeover: "sys_step cfg \<lparr>s_db = chaos_claimed, s_hands = hs\<rparr> \<lparr>s_db = chaos_reclaimed, s_hands = chaos_claim 6 2 # hs\<rparr>"
  using step_claim [of demo_dec "demo_clock 90000000" demo_stale 50000000 "\<lparr>s_db = chaos_claimed, s_hands = hs\<rparr>" "Inr (Some (chaos_claim 6 2))" chaos_reclaimed]
  by (simp add: chaos_second demo_stale_fresh hands_after_Some)

lemma chaos_finish: "sys_step cfg \<lparr>s_db = chaos_reclaimed, s_hands = chaos_claim 6 2 # hs\<rparr> \<lparr>s_db = chaos_done, s_hands = hs\<rparr>"
  using step_complete [of "chaos_claim 6 2" "\<lparr>s_db = chaos_reclaimed, s_hands = chaos_claim 6 2 # hs\<rparr>" demo_answer 0 0 cfg]
  by (simp add: demo_answer_closed chaos_complete)

lemma chaos_rest: "sys_run cfg \<lparr>s_db = chaos_claimed, s_hands = hs\<rparr> \<lparr>s_db = chaos_done, s_hands = hs\<rparr>"
  by (rule run_step [OF chaos_takeover run_step [OF chaos_finish run_refl]])

lemma chaos_states: "state_rows 3 chaos_claimed = [''in_flight'']" "state_rows 3 chaos_done = [''succeeded'']"
  by (simp_all add: state_rows_def chaos_claimed_def chaos_done_def chaos_rows delivery_state_text_def)

definition chaos_poll :: "'a \<Rightarrow> 'a poll" where
  "chaos_poll x = \<lparr>po_seen = (\<lambda>_. x), po_clock = (\<lambda>ms i. int i * ms), po_start = 0\<rparr>"

lemma chaos_await: "check x = Inr True \<Longrightarrow> 0 < n \<Longrightarrow> await check n m (chaos_poll x) = Some (Inr ())"
  by (simp add: await_def chaos_poll_def waitUntil_def poll_loop.simps)

text \<open>
  The scenario \<^verbatim>\<open>worker-kill-mid-delivery\<close> cannot fail on an assertion: after its set-up, in any run of the system
  in which the worker that made the first attempt dies holding its claim and both waits end well, the script
  finds at least two attempts, the orphan closed as \<^verbatim>\<open>worker_lease_expired\<close>, the last one answered with
  200, and the delivery succeeded.
\<close>

theorem kill_scenario_passes:
  assumes "blank s" "scenario_setup F [None] s = Some (eid, [did], t)"
    and "sys_run cfg \<lparr>s_db = t, s_hands = []\<rparr> u" "c \<in> set (s_hands u)" "c_deliveryId c = did" "c_attemptNumber c = 1"
    and "sys_run cfg (u\<lparr>s_hands := remove1 c (s_hands u)\<rparr>) v" "sys_run cfg v v'"
    and "\<forall>i. \<exists>w. sys_run cfg (u\<lparr>s_hands := remove1 c (s_hands u)\<rparr>) w \<and> sys_run cfg w v \<and> po_seen p2 i = s_db w"
    and "\<forall>a\<in>set (attempts (s_db v)). a_response_status a = None \<or> (\<exists>n. a_response_status a = Some (snd (snd (kill_receiver n))))"
    and "await (delivery_is did ''in_flight'') 5000 ''worker A claims the delivery (state -> in_flight)'' p1 = Some (Inr ())"
    and "await (delivery_is did ''succeeded'') 15000 ''worker B reclaims after lease expiry and completes the delivery'' p2 = Some (Inr ())"
  shows "\<exists>n\<ge>2. worker_kill_mid_delivery did p1 p2 (s_db v) (s_db v') =
    Some (Inr [(''attemptCount'', JNum (show_nat n)), (''finalState'', JStr ''succeeded'')])"
proof -
  let ?u = "u\<lparr>s_hands := remove1 c (s_hands u)\<rparr>"
  have ok: "safe cfg u" using safe_run [OF assms(3)] setup_safe(1) [OF assms(1,2)] by blast
  have oku: "safe cfg ?u" by (rule safe_step [OF step_crash [OF assms(4)] ok])
  have run: "sys_run cfg \<lparr>s_db = t, s_hands = []\<rparr> v"
    using run_trans [OF assms(3) run_step [OF step_crash [OF assms(4)] assms(7)]] .
  obtain d where d: "d \<in> set (deliveries (s_db v))" "d_id d = did" "safe cfg v" by (rule fixture_row [OF assms(1,2) run])
  have succ: "d_state d = Succeeded" by (rule succeeded_later [OF oku d(1) assms(7,9)]) (use assms(12) d(2) in simp)
  have ans: "\<forall>a\<in>set (attempts (s_db v)). a_response_status a \<in> {None, Some 200}"
    using assms(10) by (force simp: kill_receiver_def Let_def split: if_splits)
  note rows = taken_over [OF d(3,1) _ succ abandoned_run(1) [OF ok assms(4,7)] assms(6) ans, unfolded d(2) assms(5), OF refl]
  have ne: "attempt_rows did (s_db v) \<noteq> []" using rows(1) by auto
  then have "attempt_rows did (s_db v) ! (length (attempt_rows did (s_db v)) - 1) = last (attempt_rows did (s_db v))"
    by (simp add: last_conv_nth)
  then have "kill_checks did (s_db v) (s_db v') =
      Inr [(''attemptCount'', JNum (show_nat (length (attempt_rows did (s_db v))))), (''finalState'', JStr ''succeeded'')]"
    using rows ne still_succeeded(2) [OF d(3) assms(8) d(1) succ] d(2) by (simp add: kill_checks_def Let_def)
  then show ?thesis using rows(1) assms(11,12) by (auto simp: worker_kill_mid_delivery_def)
qed

theorem kill_scenario_passes_witness:
  "\<exists>n\<ge>2. worker_kill_mid_delivery 3 (chaos_poll chaos_claimed) (chaos_poll chaos_done) chaos_done chaos_done =
    Some (Inr [(''attemptCount'', JNum (show_nat n)), (''finalState'', JStr ''succeeded'')])"
proof -
  let ?u = "\<lparr>s_db = chaos_claimed, s_hands = [chaos_claim 4 1]\<rparr>" and ?v = "\<lparr>s_db = chaos_done, s_hands = []\<rparr>"
  have gone: "sys_run demo_cfg (?u\<lparr>s_hands := remove1 (chaos_claim 4 1) (s_hands ?u)\<rparr>) ?v" using chaos_rest [of demo_cfg "[]"] by simp
  have "\<exists>n\<ge>2. worker_kill_mid_delivery 3 (chaos_poll chaos_claimed) (chaos_poll chaos_done) (s_db ?v) (s_db ?v) =
    Some (Inr [(''attemptCount'', JNum (show_nat n)), (''finalState'', JStr ''succeeded'')])"
  proof (rule kill_scenario_passes [OF chaos_blank chaos_setup chaos_start _ _ _ gone run_refl])
    show "\<forall>i. \<exists>w. sys_run demo_cfg (?u\<lparr>s_hands := remove1 (chaos_claim 4 1) (s_hands ?u)\<rparr>) w \<and> sys_run demo_cfg w ?v \<and>
        po_seen (chaos_poll chaos_done) i = s_db w"
      using gone by (intro allI exI [of _ ?v]) (simp add: run_refl chaos_poll_def)
    show "\<forall>a\<in>set (attempts (s_db ?v)). a_response_status a = None \<or> (\<exists>n. a_response_status a = Some (snd (snd (kill_receiver n))))"
      by (simp add: chaos_done_def chaos_attempts_def chaos_rows kill_receiver_def Let_def)
  qed (simp_all add: chaos_await delivery_is_def row_at_def try_bind_def chaos_states chaos_claim_def demo_claim_def)
  then show ?thesis by simp
qed

text \<open>
  C16. The scenario \<^verbatim>\<open>crash-after-successful-send\<close> cannot fail on an assertion: in any run after its set-up in which the
  worker that made the first attempt dies holding its claim, the receiver got its request and one of a
  later claim of the delivery, and the waits end well, both requests carried the same event id, the
  orphaned attempt is closed, and one response is recorded.
\<close>

theorem crash_scenario_passes:
  assumes "blank s" "scenario_setup F [None] s = Some (eid, [did], t)"
    and "sys_run cfg \<lparr>s_db = t, s_hands = []\<rparr> u" "c \<in> set (s_hands u)" "c_deliveryId c = did" "c_attemptNumber c = 1"
    and "sys_run cfg (u\<lparr>s_hands := remove1 c (s_hands u)\<rparr>) v" "sys_run cfg v v'"
    and "\<forall>i. \<exists>w. sys_run cfg (u\<lparr>s_hands := remove1 c (s_hands u)\<rparr>) w \<and> sys_run cfg w v \<and> po_seen p2 i = s_db w"
    and "\<forall>a\<in>set (attempts (s_db v)). a_response_status a = None \<or> a_response_status a = Some (snd (snd (crash_receiver h0 r0)))"
    and "sys_run cfg (u\<lparr>s_hands := remove1 c (s_hands u)\<rparr>) w" "c' \<in> set (s_hands w)" "c_deliveryId c' = did"
    and "requests = [delivery_headers W c ts body, delivery_headers W c' ts' body']"
    and "await (delivery_is did ''in_flight'') 5000 ''worker A claims the delivery (state -> in_flight)'' p1 = Some (Inr ())"
    and "await (\<lambda>rs. Inr (1 \<le> length (received_event_ids rs))) 5000 (''the receiver sends A'' @ [CHR 0x27] @ ''s response'') heard = Some (Inr ())"
    and "await (delivery_is did ''succeeded'') 10000 ''worker B reclaims and completes the delivery'' p2 = Some (Inr ())"
  shows "crash_after_successful_send did p1 heard p2 requests (s_db v) (s_db v') =
    Some (Inr [(''receivedEventIds'', JArr (replicate 2 (JStr (we_uuid_text W (c_eventId c))))), (''finalState'', JStr ''succeeded'')])"
proof -
  let ?u = "u\<lparr>s_hands := remove1 c (s_hands u)\<rparr>"
  note fx = setup_safe(1) [OF assms(1,2), of cfg]
  have ok: "safe cfg u" by (rule safe_run [OF assms(3) fx])
  have oku: "safe cfg ?u" by (rule safe_step [OF step_crash [OF assms(4)] ok])
  have run: "sys_run cfg \<lparr>s_db = t, s_hands = []\<rparr> v"
    using run_trans [OF assms(3) run_step [OF step_crash [OF assms(4)] assms(7)]] .
  obtain d where d: "d \<in> set (deliveries (s_db v))" "d_id d = did" "safe cfg v" by (rule fixture_row [OF assms(1,2) run])
  have succ: "d_state d = Succeeded" by (rule succeeded_later [OF oku d(1) assms(7,9)]) (use assms(17) d(2) in simp)
  have ans: "\<forall>a\<in>set (attempts (s_db v)). a_response_status a \<in> {None, Some 200}"
    using assms(10) by (auto simp: crash_receiver_def Let_def)
  note rows = taken_over [OF d(3,1) _ succ abandoned_run(1) [OF ok assms(4,7)] assms(6) ans, unfolded d(2) assms(5), OF refl]
  have ne: "attempt_rows did (s_db v) \<noteq> []" using rows(1) by auto
  have "named u" by (rule named_run [OF assms(3) fx]) (simp add: named_def)
  then have "c_eventId c' = c_eventId c"
    by (rule same_event [OF ok _ run_step [OF step_crash [OF assms(4)] assms(11)] assms(4,12)]) (simp add: assms(5,13))
  then have ids: "received_event_ids requests = replicate 2 (Some (we_uuid_text W (c_eventId c)))"
    by (simp add: assms(14) received_event_ids_def crash_receiver_def delivery_headers_def Let_def numeral_2_eq_2)
  have orphan: "orphan_check m did (s_db v) = Inr ()" for m by (rule orphan_found) (use rows(2) ne in simp_all)
  have "crash_checks (received_event_ids requests) did (s_db v) (s_db v') =
      Inr [(''receivedEventIds'', JArr (replicate 2 (JStr (we_uuid_text W (c_eventId c))))), (''finalState'', JStr ''succeeded'')]"
    unfolding crash_checks_def ids orphan Let_def
    using rows(4) still_succeeded(2) [OF d(3) assms(8) d(1) succ] d(2)
    by (simp add: try_bind_def [of "Inr ()"] numeral_2_eq_2 j_opt_def)
  then show ?thesis using assms(15-17) by (simp add: crash_after_successful_send_def)
qed

theorem crash_scenario_passes_witness:
  "crash_after_successful_send 3 (chaos_poll chaos_claimed)
     (chaos_poll [delivery_headers demo_worker (chaos_claim 4 1) 5 [], delivery_headers demo_worker (chaos_claim 6 2) 9 []]) (chaos_poll chaos_done)
     [delivery_headers demo_worker (chaos_claim 4 1) 5 [], delivery_headers demo_worker (chaos_claim 6 2) 9 []] chaos_done chaos_done =
   Some (Inr [(''receivedEventIds'', JArr (replicate 2 (JStr (we_uuid_text demo_worker 2)))), (''finalState'', JStr ''succeeded'')])"
proof -
  let ?u = "\<lparr>s_db = chaos_claimed, s_hands = [chaos_claim 4 1]\<rparr>" and ?v = "\<lparr>s_db = chaos_done, s_hands = []\<rparr>"
    and ?w = "\<lparr>s_db = chaos_reclaimed, s_hands = [chaos_claim 6 2]\<rparr>"
    and ?rs = "[delivery_headers demo_worker (chaos_claim 4 1) 5 [], delivery_headers demo_worker (chaos_claim 6 2) 9 []]"
  have gone: "sys_run demo_cfg (?u\<lparr>s_hands := remove1 (chaos_claim 4 1) (s_hands ?u)\<rparr>) ?v" using chaos_rest [of demo_cfg "[]"] by simp
  have again: "sys_run demo_cfg (?u\<lparr>s_hands := remove1 (chaos_claim 4 1) (s_hands ?u)\<rparr>) ?w"
    using run_step [OF chaos_takeover [of demo_cfg "[]"] run_refl] by simp
  have "crash_after_successful_send 3 (chaos_poll chaos_claimed) (chaos_poll ?rs) (chaos_poll chaos_done) ?rs (s_db ?v) (s_db ?v) =
    Some (Inr [(''receivedEventIds'', JArr (replicate 2 (JStr (we_uuid_text demo_worker (c_eventId (chaos_claim 4 1)))))),
      (''finalState'', JStr ''succeeded'')])"
  proof (rule crash_scenario_passes [OF chaos_blank chaos_setup chaos_start _ _ _ gone run_refl _ _ again _ _ refl])
    show "\<forall>i. \<exists>w. sys_run demo_cfg (?u\<lparr>s_hands := remove1 (chaos_claim 4 1) (s_hands ?u)\<rparr>) w \<and> sys_run demo_cfg w ?v \<and>
        po_seen (chaos_poll chaos_done) i = s_db w"
      using gone by (intro allI exI [of _ ?v]) (simp add: run_refl chaos_poll_def)
    show "\<forall>a\<in>set (attempts (s_db ?v)). a_response_status a = None \<or> a_response_status a = Some (snd (snd (crash_receiver [] (0, []))))"
      by (simp add: chaos_done_def chaos_attempts_def chaos_rows crash_receiver_def Let_def)
  qed (simp_all add: chaos_await delivery_is_def row_at_def try_bind_def chaos_states chaos_claim_def demo_claim_def
      received_event_ids_def crash_receiver_def Let_def)
  then show ?thesis by (simp add: chaos_claim_def demo_claim_def)
qed

text \<open>What the holder of a claim knows, and the endpoint once nothing is in flight.\<close>

lemma held_delivery:
  assumes "safe cfg u" "c \<in> set (s_hands u)" "holds c (s_db u)" "d \<in> set (deliveries (s_db u))" "d_id d = c_deliveryId c"
  shows "d_endpoint_id d = c_endpointId c" "d_state d = In_flight"
proof -
  have "claim_live (s_db u) c" using safe_parts(6) [OF assms(1,2)] assms(3) by (simp add: claim_ok_live)
  then obtain x where x: "x \<in> set (deliveries (s_db u))" "d_id x = c_deliveryId c" "d_endpoint_id x = c_endpointId c" "d_state x = In_flight"
    by (auto simp: claim_live_def)
  have "x = d" by (rule d_id_eq [OF safe_parts(2) [OF assms(1)] x(1) assms(4)]) (simp add: x assms(5))
  with x show "d_endpoint_id d = c_endpointId c" "d_state d = In_flight" by simp_all
qed

lemma nothing_in_flight_idle:
  assumes "safe cfg u" "e \<in> set (endpoints (s_db u))"
    and "\<And>x. x \<in> set (deliveries (s_db u)) \<Longrightarrow> d_endpoint_id x = ep_id e \<Longrightarrow> d_state x \<noteq> In_flight"
  shows "\<not> ep_busy e"
proof -
  have "in_flight_of (ep_id e) (s_db u) = []" using assms(3) by (auto simp: in_flight_of_def filter_empty_conv)
  then show ?thesis using busy_working [OF assms(1,2)] by simp
qed

lemma endpoint_row:
  assumes "safe cfg u" "d \<in> set (deliveries (s_db u))"
  obtains e where "e \<in> set (endpoints (s_db u))" "ep_id e = d_endpoint_id d"
  using safe_parts(2) [OF assms(1)] assms(2) that by (auto simp: wf_db_def refs_ok_def)



section \<open>The worker of the scenarios\<close>

text \<open>
  \<^verbatim>\<open>chaos/worker-entrypoint.ts\<close>: the loop of the worker with a resolver that trusts every address, since
  the receivers listen on the loopback address.
\<close>

definition trustAnyAddress :: "string \<Rightarrow> pin_result" where
  "trustAnyAddress hostname = Pinned ''127.0.0.1''"

definition chaos_worker_pass ::
    "(uuid \<Rightarrow> bool) \<Rightarrow> (uuid \<Rightarrow> ts) \<Rightarrow> (uuid \<Rightarrow> bool) \<Rightarrow> (uuid \<Rightarrow> ts) \<Rightarrow> worker_env \<Rightarrow> cycle_inputs \<Rightarrow>
     (db \<Rightarrow> db) \<Rightarrow> db \<Rightarrow> bool \<times> db" where
  "chaos_worker_pass xlocked xnow rlocked rnow W y meanwhile s =
     try_cycle (runDeliveryCycle (Some trustAnyAddress) W y meanwhile)
       (try_cycle (map_prod Inr id \<circ> runReplayExpansionCycle rlocked rnow :: db \<Rightarrow> (unit + bool) \<times> db)
         (try_cycle (map_prod Inr id \<circ> runExpansionCycle xlocked xnow :: db \<Rightarrow> (unit + bool) \<times> db) (False, s)))"

text \<open>
  The worker of the scenarios takes the steps of the system and no others: in any state a run reaches after the set-up, a pass of its
  loop, with other workers going on during its request, prolongs the run; so the passes of such workers
  make up the runs the scenarios are proved for.
\<close>

theorem chaos_worker_runs:
  assumes "blank s" "scenario_setup F ps s = Some (eid, ids, t)" "sys_run cfg \<lparr>s_db = t, s_hands = []\<rparr> \<lparr>s_db = u, s_hands = hs\<rparr>"
    and "backoff (we_vars W) = Inr cfg" "statuses_known W" "interferes cfg meanwhile"
    and "chaos_worker_pass xlocked xnow rlocked rnow W y meanwhile u = (b, v)"
  shows "\<exists>hs'. sys_run cfg \<lparr>s_db = t, s_hands = []\<rparr> \<lparr>s_db = v, s_hands = hs'\<rparr>"
proof -
  obtain b1 s1 where e: "runExpansionCycle xlocked xnow u = (b1, s1)" by fastforce
  obtain b2 s2 where r: "runReplayExpansionCycle rlocked rnow s1 = (b2, s2)" by fastforce
  obtain q s3 where d: "runDeliveryCycle (Some trustAnyAddress) W y meanwhile s2 = (q, s3)" by fastforce
  have "v = s3" using assms(7) e r d by (auto simp: chaos_worker_pass_def try_cycle_def split: sum.splits)
  moreover have "wf_db u" using safe_parts(2) [OF safe_run [OF assms(3) setup_safe(1) [OF assms(1,2)]]] by simp
  ultimately obtain hs' where "sys_run cfg \<lparr>s_db = u, s_hands = hs\<rparr> \<lparr>s_db = v, s_hands = hs'\<rparr>"
    using cycles_run [OF _ assms(4-6) e r d, of hs] by blast
  with run_trans [OF assms(3)] show ?thesis by blast
qed

theorem chaos_worker_runs_witness:
  "\<forall>y. \<exists>v hs'. snd (chaos_worker_pass (\<lambda>_. True) (\<lambda>_. 7000) (\<lambda>_. True) (\<lambda>_. 7000) demo_worker y id chaos_claimed) = v \<and>
     sys_run demo_cfg \<lparr>s_db = chaos_db None chaos_endpoint (demo_delivery Pending 0) [] 4, s_hands = []\<rparr> \<lparr>s_db = v, s_hands = hs'\<rparr>"
proof
  fix y
  obtain b v where v: "chaos_worker_pass (\<lambda>_. True) (\<lambda>_. 7000) (\<lambda>_. True) (\<lambda>_. 7000) demo_worker y id chaos_claimed = (b, v)"
    by fastforce
  have "\<exists>hs'. sys_run demo_cfg \<lparr>s_db = chaos_db None chaos_endpoint (demo_delivery Pending 0) [] 4, s_hands = []\<rparr> \<lparr>s_db = v, s_hands = hs'\<rparr>"
    by (rule chaos_worker_runs [OF chaos_blank chaos_setup chaos_start _ _ _ v])
       (simp_all add: demo_worker_def demo_vars_def backoff_def demo_cfg_def statuses_known_def interferes_def run_refl)
  with v show "\<exists>v hs'. snd (chaos_worker_pass (\<lambda>_. True) (\<lambda>_. 7000) (\<lambda>_. True) (\<lambda>_. 7000) demo_worker y id chaos_claimed) = v \<and>
     sys_run demo_cfg \<lparr>s_db = chaos_db None chaos_endpoint (demo_delivery Pending 0) [] 4, s_hands = []\<rparr> \<lparr>s_db = v, s_hands = hs'\<rparr>"
    by simp
qed

end
