(* ===== verification/Chaos_Order.thy ===== *)
theory Chaos_Order
  imports Chaos_Scenarios
begin

text \<open>
  The chaos scenarios on ordering: \<^verbatim>\<open>partition-head-blocked-then-drains.ts\<close>, where the followers of a
  failing head report it and then drain in order, and \<^verbatim>\<open>expansion-crash-order.ts\<close> with the process
  \<^verbatim>\<open>expansion-holder.ts\<close>, where a session dies holding a tenant's expansion lock.
\<close>

section \<open>A failing head and its followers\<close>

definition partition_receiver :: "nat \<Rightarrow> nat \<times> int" where
  "partition_receiver requestCount = (let requestCount = requestCount + 1 in (requestCount, if requestCount = 1 then 500 else 200))"

definition awaiting_retry :: "uuid \<Rightarrow> db \<Rightarrow> scenario_error + bool" where
  "awaiting_retry did s =
     try_bind (row_at ''state'' (filter (\<lambda>d. d_id d = did) (deliveries s)) 0)
       (\<lambda>d. Inr (d_state d = Pending \<and> 1 \<le> d_attempt_count d))"

definition blocked_rows :: "uuid list \<Rightarrow> db \<Rightarrow> (delivery \<times> uuid option) list" where
  "blocked_rows ids s = map (\<lambda>d. (d, head_delivery_id s d)) (sort_key d_seq (filter (\<lambda>d. d_id d \<in> set ids) (deliveries s)))"

fun blocked_checks :: "(uuid \<Rightarrow> string) \<Rightarrow> uuid \<Rightarrow> (delivery \<times> uuid option) list \<Rightarrow> scenario_error + unit" where
  "blocked_checks ut e1 [] = Inr ()"
| "blocked_checks ut e1 ((d, head) # rows) =
     try_bind (assertScenario (computeBlockedOnDeliveryId d head = Some e1)
         (''expected delivery '' @ ut (d_id d) @ '' to report blocked_on_delivery_id = E1 ('' @ ut e1 @
           '') while E1 is unresolved, got '' @ js_null_text (map_option ut (computeBlockedOnDeliveryId d head)))) (\<lambda>_.
     try_bind (assertScenario (d_state d = Pending)
         (''expected follower '' @ ut (d_id d) @ '' to still be pending (never dequeued while blocked)'')) (\<lambda>_.
     blocked_checks ut e1 rows))"

definition all_drained :: "uuid list \<Rightarrow> db \<Rightarrow> scenario_error + bool" where
  "all_drained ids s = Inr (list_all (\<lambda>d. d_state d = Succeeded) (filter (\<lambda>d. d_id d \<in> set ids) (deliveries s)))"

text \<open>\<^verbatim>\<open>ORDER BY a.sent_at\<close> puts NULL last.\<close>

definition sent_order :: "uuid list \<Rightarrow> db \<Rightarrow> uuid list" where
  "sent_order ids s =
     map fst (sort_key (\<lambda>r. snd r = None) (sort_key (\<lambda>r. case snd r of None \<Rightarrow> 0 | Some t \<Rightarrow> t)
       (concat (map (\<lambda>d. map (\<lambda>a. (d_id d, a_sent_at a))
           (filter (\<lambda>a. a_delivery_id a = d_id d \<and> a_response_status a = Some 200) (attempts s)))
         (filter (\<lambda>d. d_id d \<in> set ids) (deliveries s))))))"

definition drain_checks :: "(uuid \<Rightarrow> string) \<Rightarrow> uuid list \<Rightarrow> db \<Rightarrow> scenario_error + (string \<times> json) list" where
  "drain_checks ut ids s =
     (let sentOrder = map ut (sent_order ids s) in
      try_bind (assertScenario (js_join '','' sentOrder = js_join '','' (map ut ids))
          (''expected the successful attempts to land in publish order E1,E2,E3, got '' @ js_join '','' sentOrder)) (\<lambda>_.
      Inr [(''drainOrder'', JArr (map JStr sentOrder))]))"

definition partition_head_blocked_then_drains ::
    "(uuid \<Rightarrow> string) \<Rightarrow> uuid \<Rightarrow> uuid \<Rightarrow> uuid \<Rightarrow> db poll \<Rightarrow> db \<Rightarrow> db poll \<Rightarrow> db \<Rightarrow> (scenario_error + (string \<times> json) list) option" where
  "partition_head_blocked_then_drains ut e1 e2 e3 p1 sb p2 sd =
     and_then (await (awaiting_retry e1) 5000 ''E1 fails its first attempt and is scheduled for retry'' p1) (\<lambda>_.
     and_then (Some (blocked_checks ut e1 (blocked_rows [e2, e3] sb))) (\<lambda>_.
     and_then (await (all_drained [e1, e2, e3]) 10000 ''E1, E2, and E3 all drain to succeeded after recovery'' p2) (\<lambda>_.
     Some (drain_checks ut [e1, e2, e3] sd))))"

definition partition_payload :: "nat \<Rightarrow> json option" where
  "partition_payload n = Some (JObj [(''seq'', JNum (show_nat n))])"

subsection \<open>Lemmas\<close>

lemma blocked_checks_pass:
  "\<forall>r\<in>set rows. computeBlockedOnDeliveryId (fst r) (snd r) = Some e1 \<and> d_state (fst r) = Pending \<Longrightarrow> blocked_checks ut e1 rows = Inr ()"
  by (induction ut e1 rows rule: blocked_checks.induct) simp_all

text \<open>The rows of a set-up keep their places at the front of the table.\<close>

lemma front_rows:
  assumes "evolves s t"
  obtains ds ns where "deliveries t = ds @ ns" "map d_id ds = map d_id (deliveries s)" "map d_endpoint_id ds = map d_endpoint_id (deliveries s)"
proof -
  obtain ds ns where *: "deliveries t = ds @ ns" "list_all2 same_row (deliveries s) ds" using assms by (auto simp: evolves_def)
  from *(2) have "map d_id ds = map d_id (deliveries s)" "map d_endpoint_id ds = map d_endpoint_id (deliveries s)"
    by (induction rule: list_all2_induct) (simp_all add: same_row_def)
  with *(1) show thesis by (rule that)
qed

lemma wf_seqs: "wf_db s \<Longrightarrow> sorted_wrt (<) (map d_seq (deliveries s))"
  by (simp add: wf_db_def seqs_ok_def)

lemma wf_ids: "wf_db s \<Longrightarrow> distinct (map d_id (deliveries s))"
  by (simp add: wf_db_def keys_ok_def)

lemma setup_queue:
  assumes "blank s" "scenario_setup F [q1, q2, q3] s = Some (eid, [e1, e2, e3], t)" "sys_run cfg \<lparr>s_db = t, s_hands = []\<rparr> v"
  obtains d1 d2 d3 ns where "deliveries (s_db v) = [d1, d2, d3] @ ns" "d_id d1 = e1" "d_id d2 = e2" "d_id d3 = e3"
    "\<forall>d\<in>{d1, d2, d3}. d_endpoint_id d = eid" "safe cfg v" "lined_up (s_db v)"
proof -
  note fx = setup_safe [OF assms(1,2)]
  obtain ds ns where v: "deliveries (s_db v) = ds @ ns" "map d_id ds = map d_id (deliveries t)"
      "map d_endpoint_id ds = map d_endpoint_id (deliveries t)"
    by (rule front_rows [OF safe_evolves [OF assms(3) fx(1)]]) simp
  have ids: "map d_id ds = [e1, e2, e3]" using v(2) fx(3) by simp
  then obtain d1 d2 d3 where d: "ds = [d1, d2, d3]" "d_id d1 = e1" "d_id d2 = e2" "d_id d3 = e3" by auto
  have "set (map d_endpoint_id ds) \<subseteq> {eid}" unfolding v(3) using fx(5) by auto
  then have "\<forall>d\<in>{d1, d2, d3}. d_endpoint_id d = eid" by (simp add: d(1))
  with d v(1) [unfolded d(1)] safe_run [OF assms(3) fx(1)] lined_up_run [OF assms(3) fx(1)] fx(2) show thesis
    by (intro that [of d1 d2 d3 ns]) simp_all
qed

subsection \<open>The blocked check\<close>

text \<open>While E1 is unresolved, the query reports every follower as pending and blocked on E1.\<close>

lemma blocked_on_front:
  assumes "wf_db s" "deliveries s = xs @ d # ys" "\<forall>x\<in>set xs. d_endpoint_id x \<noteq> d_endpoint_id d" "unresolved d"
    and "f \<in> set ys" "d_endpoint_id f = d_endpoint_id d" "d_state f = Pending"
  shows "computeBlockedOnDeliveryId f (head_delivery_id s f) = Some (d_id d)"
proof -
  have seqs: "sorted_wrt (<) (map d_seq (deliveries s))" by (rule wf_seqs [OF assms(1)])
  let ?P = "\<lambda>h. d_endpoint_id h = d_endpoint_id d \<and> unresolved h"
  have "sort_key d_seq (filter ?P (deliveries s)) = filter ?P (deliveries s)" by (rule strict_sorted_sort_key [OF seqs])
  also have "filter ?P (deliveries s) = filter ?P xs @ d # filter ?P ys" using assms(2,4) by simp
  also have "filter ?P xs = []" using assms(3) by (simp add: filter_empty_conv)
  finally have "head_delivery_id s f = Some (d_id d)" using assms(6) by (simp add: head_delivery_id_def)
  moreover have "d_id d \<noteq> d_id f" using wf_ids [OF assms(1)] imageI [OF assms(5), of d_id] by (auto simp: assms(2))
  ultimately show ?thesis using assms(7) by (simp add: computeBlockedOnDeliveryId_def)
qed

lemma followers_blocked:
  assumes "safe cfg v" "lined_up (s_db v)" "deliveries (s_db v) = [d1, d2, d3] @ ns" "\<forall>d\<in>{d1, d2, d3}. d_endpoint_id d = eid"
    and "unresolved d1"
  shows "blocked_checks ut (d_id d1) (blocked_rows [d_id d2, d_id d3] (s_db v)) = Inr ()"
proof (rule blocked_checks_pass, rule ballI)
  note wf = safe_parts(2) [OF assms(1)]
  fix r assume "r \<in> set (blocked_rows [d_id d2, d_id d3] (s_db v))"
  then obtain f where f: "r = (f, head_delivery_id (s_db v) f)" "f \<in> set (deliveries (s_db v))" "d_id f \<in> {d_id d2, d_id d3}"
    by (auto simp: blocked_rows_def)
  have "d2 \<in> set (deliveries (s_db v))" "d3 \<in> set (deliveries (s_db v))" using assms(3) by simp_all
  then have "f \<in> {d2, d3}" using f(3) d_id_eq [OF wf f(2)] by blast
  moreover have "d_seq d1 < d_seq d2" "d_seq d1 < d_seq d3" using wf_seqs [OF wf] assms(3) by auto
  ultimately have g: "f \<in> {d2, d3}" "d_endpoint_id f = d_endpoint_id d1" "d_seq d1 < d_seq f" using assms(4) by auto
  have p: "d_state f = Pending"
    using followers_untouched [OF assms(1,2) _ f(2) g(2,3) assms(5)] assms(3) by simp
  have "computeBlockedOnDeliveryId f (head_delivery_id (s_db v) f) = Some (d_id d1)"
    by (rule blocked_on_front [OF wf, of "[]" d1 "[d2, d3] @ ns"]) (use assms g p in auto)
  with p f(1) show "computeBlockedOnDeliveryId (fst r) (snd r) = Some (d_id d1) \<and> d_state (fst r) = Pending" by simp
qed

subsection \<open>The order of the successful attempts\<close>

definition sent_earlier :: "attempt \<Rightarrow> attempt \<Rightarrow> bool" where
  "sent_earlier a b \<longleftrightarrow> (case (a_sent_at a, a_sent_at b) of (Some t, Some t') \<Rightarrow> t < t' | _ \<Rightarrow> False)"

lemma sorted_wrt_pair:
  "sorted_wrt P xs \<Longrightarrow> sorted_wrt Q xs \<Longrightarrow> a \<in> set xs \<Longrightarrow> b \<in> set xs \<Longrightarrow> a \<noteq> b \<Longrightarrow> (P a b \<and> Q a b) \<or> (P b a \<and> Q b a)"
  by (induction xs) auto

lemma success_sent_order:
  assumes ok: "safe cfg v" and lu: "lined_up (s_db v)"
    and d: "d \<in> set (deliveries (s_db v))" "d' \<in> set (deliveries (s_db v))" "d_endpoint_id d' = d_endpoint_id d" "d_seq d < d_seq d'"
    and a: "a \<in> set (attempts (s_db v))" "a_delivery_id a = d_id d" "a' \<in> set (attempts (s_db v))" "a_delivery_id a' = d_id d'"
    and clock: "sorted_wrt sent_earlier (attempts (s_db v))"
  shows "sent_earlier a a'"
proof -
  have "d_id d \<noteq> d_id d'" using d_id_eq [OF safe_parts(2) [OF ok] d(1,2)] d(4) by auto
  then have "a \<noteq> a'" using a(2,4) by auto
  moreover have "\<not> in_queue_order (s_db v) a' a" using d a(2,4) by (fastforce simp: in_queue_order_def)
  ultimately show ?thesis
    using sorted_wrt_pair [of "in_queue_order (s_db v)" "attempts (s_db v)" sent_earlier a a'] lu clock a(1,3) by (auto simp: lined_up_def)
qed

lemma sent_in_order:
  assumes ok: "safe cfg v" and lu: "lined_up (s_db v)" and rows: "deliveries (s_db v) = [d1, d2, d3] @ ns"
    and eid: "\<forall>d\<in>{d1, d2, d3}. d_endpoint_id d = eid" and succ: "\<forall>d\<in>{d1, d2, d3}. d_state d = Succeeded"
    and answers: "\<forall>a\<in>set (attempts (s_db v)). a_response_status a \<in> {None, Some 200, Some 500}"
    and clock: "sorted_wrt sent_earlier (attempts (s_db v))"
  shows "sent_order [d_id d1, d_id d2, d_id d3] (s_db v) = [d_id d1, d_id d2, d_id d3]"
proof -
  note wf = safe_parts(2) [OF ok]
  have seqs: "d_seq d1 < d_seq d2" "d_seq d2 < d_seq d3" using wf_seqs [OF wf] rows by auto
  have ids: "distinct (map d_id (deliveries (s_db v)))" by (rule wf_ids [OF wf])
  have mine: "filter (\<lambda>d. d_id d \<in> set [d_id d1, d_id d2, d_id d3]) (deliveries (s_db v)) = [d1, d2, d3]"
    using ids by (simp add: rows filter_empty_conv) (metis imageI)
  define a where "a d = last (attempts_of (d_id d) (s_db v))" for d :: delivery
  have one: "filter (\<lambda>x. a_delivery_id x = d_id d \<and> a_response_status x = Some 200) (attempts (s_db v)) = [a d]"
    if "d \<in> {d1, d2, d3}" for d
  proof -
    have "filter answered_ok (attempts_of (d_id d) (s_db v)) = [a d]"
      using answers_of [OF ok, of d] that succ rows by (auto simp: a_def)
    moreover have "filter answered_ok (attempts_of (d_id d) (s_db v)) =
        filter (\<lambda>x. a_delivery_id x = d_id d \<and> a_response_status x = Some 200) (attempts (s_db v))"
      unfolding attempts_of_def filter_filter by (rule filter_cong) (use answers in \<open>auto simp: answered_ok_def\<close>)
    ultimately show ?thesis by simp
  qed
  have mem: "a d \<in> set (attempts (s_db v))" "a_delivery_id (a d) = d_id d" if "d \<in> {d1, d2, d3}" for d
    using arg_cong [where f = set, OF one [OF that]] by auto
  have early: "sent_earlier (a d) (a d')" if "d \<in> {d1, d2, d3}" "d' \<in> {d1, d2, d3}" "d_seq d < d_seq d'" for d d'
    by (rule success_sent_order [OF ok lu _ _ _ that(3) mem(1,2) [OF that(1)] mem(1,2) [OF that(2)] clock]) (use that rows eid in auto)
  obtain t1 t2 t3 where t: "a_sent_at (a d1) = Some t1" "a_sent_at (a d2) = Some t2" "a_sent_at (a d3) = Some t3" "t1 < t2" "t2 < t3"
    using early [of d1 d2] early [of d2 d3] seqs by (auto simp: sent_earlier_def split: option.splits)
  let ?rows = "[(d_id d1, Some t1), (d_id d2, Some t2), (d_id d3, Some t3)]"
  have "concat (map (\<lambda>d. map (\<lambda>x. (d_id d, a_sent_at x))
      (filter (\<lambda>x. a_delivery_id x = d_id d \<and> a_response_status x = Some 200) (attempts (s_db v)))) [d1, d2, d3]) = ?rows"
    using one t by simp
  then show ?thesis using t(4,5) unfolding sent_order_def mine by (simp add: sort_key_sorted_id)
qed

subsection \<open>A concrete run\<close>

text \<open>
  The set-up on an empty database; a round is a claim at \<open>t\<close> and its answer.  Row \<open>k\<close> of the queue is
  the one being worked on, those before it have succeeded.
\<close>

definition line_event :: "nat \<Rightarrow> event" where
  "line_event k = \<lparr>ev_id = 2 + 2 * k, ev_tenant_id = 0, ev_idempotency_key = ''chaos-fixture-'' @ show_nat k,
     ev_type = ''order.created'', ev_payload = JObj [(''seq'', JNum (show_nat (Suc k)))], ev_status = Expanded, ev_seq = Suc k,
     ev_created_at = 1000 * (int (2 + 2 * k) + 1)\<rparr>"

definition line_due :: "nat \<Rightarrow> ts" where
  "line_due k = 1000 * (int (3 + 2 * k) + 1)"

definition line_delivery :: "nat \<Rightarrow> delivery_state \<Rightarrow> nat \<Rightarrow> ts \<Rightarrow> delivery" where
  "line_delivery k st n w = \<lparr>d_id = 3 + 2 * k, d_event_id = 2 + 2 * k, d_endpoint_id = 1, d_state = st, d_attempt_count = n,
     d_next_attempt_at = w, d_created_at = line_due k, d_seq = Suc k\<rparr>"

definition line_queue :: "nat \<Rightarrow> delivery_state \<Rightarrow> nat \<Rightarrow> ts \<Rightarrow> delivery list" where
  "line_queue k st n w = map (\<lambda>i.
     if i = k then line_delivery i st n w
     else if k < i then line_delivery i Pending 0 (line_due i)
     else if i = 0 then line_delivery 0 Succeeded 2 10000000
     else line_delivery i Succeeded 1 (line_due i)) [0, 1, 2]"

definition line_attempt :: "nat \<Rightarrow> nat \<Rightarrow> nat \<Rightarrow> ts \<Rightarrow> int option \<Rightarrow> attempt" where
  "line_attempt i k n t st = \<lparr>a_id = i, a_delivery_id = 3 + 2 * k, a_attempt_number = n, a_sent_at = Some t, a_response_status = st,
     a_response_body_truncated = map_option (\<lambda>_. []) st, a_duration_ms = map_option (\<lambda>_. 5) st, a_error_class = None, a_created_at = t\<rparr>"

definition line_db :: "ts option \<Rightarrow> endpoint \<Rightarrow> delivery list \<Rightarrow> attempt list \<Rightarrow> nat \<Rightarrow> db" where
  "line_db served e ds xs n = demo_db [demo_tenant\<lparr>tn_name := ''chaos-tenant'', tn_last_served_at := served\<rparr>] [e]
     (map line_event [0, 1, 2]) ds xs 4 4 n"

definition line_claim :: "nat \<Rightarrow> nat \<Rightarrow> nat \<Rightarrow> claimed_delivery" where
  "line_claim k n m = demo_claim\<lparr>c_leaseId := m, c_deliveryId := 3 + 2 * k, c_eventId := 2 + 2 * k, c_eventType := ''order.created'',
     c_payload := ev_payload (line_event k), c_attemptNumber := n, c_attemptId := Suc m, c_url := ep_url chaos_endpoint\<rparr>"

definition line_answer :: "int \<Rightarrow> attempt_outcome" where
  "line_answer st = \<lparr>o_responseStatus = Some st, o_responseBodyTruncated = [], o_durationMs = 5, o_errorClass = None\<rparr>"

lemmas line_rows = line_db_def line_queue_def line_delivery_def line_event_def line_attempt_def demo_db_def chaos_endpoint_def demo_rows

lemma line_claimed:
  assumes "k < 3" "w \<le> t" "line_due k \<le> t"
  shows "tryClaimEndpoint demo_dec (demo_clock t) demo_cand cutoff (line_db served chaos_endpoint (line_queue k Pending n w) xs m) =
    (Inr (Some (line_claim k (Suc n) m)),
     line_db (Some t) (take_lease t m chaos_endpoint) (line_queue k In_flight (Suc n) w) (xs @ [line_attempt (Suc m) k (Suc n) t None]) (m + 2))"
proof -
  have secrets: "claim_secrets demo_dec n (take_lease t m chaos_endpoint) = Some (generateSecret demo_bytes ''whsec'', None)" for n
    using demo_decrypt by (simp add: claim_secrets_def hasActiveSecondary_def take_lease_def chaos_endpoint_def demo_endpoint_def)
  from assms(1) consider "k = 0" | "k = 1" | "k = 2" by linarith
  then show ?thesis
    by cases
      (use secrets assms(2,3) in \<open>simp add: tryClaimEndpoint_def stmt_claim_def demo_clock_def demo_cand_def line_claim_def line_rows
        claimable_def lease_free_def gen_random_uuid_def Let_def stmt_serve_def reclaim_def claim_head_def select_head_def pending_of_def
        js_of_ts_def start_attempt_def stmt_insert_attempt_def stmt_in_flight_def demo_claim_def take_lease_def\<close>)+
qed

lemma line_settled:
  assumes "k < 3" "n < 6" "\<forall>x\<in>set xs. a_id x \<noteq> Suc m" "(st, after, w') \<in> {(200, Succeeded, w), (500, Pending, t)}"
  shows "\<exists>oc. completeDelivery t 0 (line_claim k n m) (line_answer st) demo_cfg
      (line_db served (take_lease t' m chaos_endpoint) (line_queue k In_flight n w) (xs @ [line_attempt (Suc m) k n t' None]) m') =
    (Inr oc, line_db served chaos_endpoint (line_queue k after n w') (xs @ [line_attempt (Suc m) k n t' (Some st)]) m')"
proof -
  have "update_where (\<lambda>a. a_id a = Suc m) f xs = xs" for f
    using assms(3) by (simp add: update_where_def map_idI)
  moreover from assms(1) consider "k = 0" | "k = 1" | "k = 2" by linarith
  ultimately show ?thesis
    using assms(2,4)
    by cases
      (auto simp: completeDelivery_def line_rows take_lease_def fence_def line_claim_def demo_claim_def line_answer_def pg_text_ok_def
        stmt_record_outcome_def settle_delivery_def http_success_def stmt_resolve_def stmt_retry_def stmt_free_def free_lease_def
        computeBackoffDelayMs_def demo_cfg_def)
qed

text \<open>One round, in a run of the system.\<close>

lemma line_round:
  assumes "k < 3" "n < 5" "w \<le> t" "line_due k \<le> t" "\<forall>x\<in>set xs. a_id x \<noteq> Suc m"
    "(st, after, w') \<in> {(200, Succeeded, w), (500, Pending, t)}"
  shows "sys_run demo_cfg \<lparr>s_db = line_db served chaos_endpoint (line_queue k Pending n w) xs m, s_hands = []\<rparr>
    \<lparr>s_db = line_db (Some t) chaos_endpoint (line_queue k after (Suc n) w') (xs @ [line_attempt (Suc m) k (Suc n) t (Some st)]) (m + 2), s_hands = []\<rparr>"
proof -
  let ?s = "line_db served chaos_endpoint (line_queue k Pending n w) xs m" and ?c = "line_claim k (Suc n) m"
    and ?t = "line_db (Some t) (take_lease t m chaos_endpoint) (line_queue k In_flight (Suc n) w) (xs @ [line_attempt (Suc m) k (Suc n) t None]) (m + 2)"
  have fresh: "fresh_candidate demo_cand ?s" by (simp add: fresh_candidate_def demo_cand_def line_rows)
  have take: "sys_step demo_cfg \<lparr>s_db = ?s, s_hands = []\<rparr> \<lparr>s_db = ?t, s_hands = [?c]\<rparr>"
    using step_claim [of demo_dec "demo_clock t" demo_cand 0 "\<lparr>s_db = ?s, s_hands = []\<rparr>" "Inr (Some ?c)" ?t]
      line_claimed [OF assms(1,3,4)] fresh by (simp add: hands_after_Some)
  obtain oc where "completeDelivery t 0 ?c (line_answer st) demo_cfg ?t =
      (Inr oc, line_db (Some t) chaos_endpoint (line_queue k after (Suc n) w') (xs @ [line_attempt (Suc m) k (Suc n) t (Some st)]) (m + 2))"
    using line_settled [OF assms(1) _ assms(5,6), of "Suc n" "Some t" t "m + 2"] assms(2) by fastforce
  then have "sys_step demo_cfg \<lparr>s_db = ?t, s_hands = [?c]\<rparr>
      \<lparr>s_db = line_db (Some t) chaos_endpoint (line_queue k after (Suc n) w') (xs @ [line_attempt (Suc m) k (Suc n) t (Some st)]) (m + 2), s_hands = []\<rparr>"
    using step_complete [of ?c "\<lparr>s_db = ?t, s_hands = [?c]\<rparr>" "line_answer st" t 0 demo_cfg]
    by (simp add: line_answer_def outcome_closed_def)
  then show ?thesis by (rule run_step [OF take run_step [OF _ run_refl]])
qed

lemma line_due_values [simp]: "line_due 0 = 4000" "line_due (Suc 0) = 6000" "line_due 2 = 8000"
  by (simp_all add: line_due_def)

lemma line_attempt_id [simp]: "a_id (line_attempt i k n t st) = i"
  by (simp add: line_attempt_def)

lemma line_next:
  "line_queue 0 Succeeded 2 10000000 = line_queue (Suc 0) Pending 0 6000"
  "line_queue (Suc 0) Succeeded (Suc 0) 6000 = line_queue 2 Pending 0 8000"
  by (simp_all add: line_queue_def)

definition line_failed :: db where
  "line_failed = line_db (Some 10000000) chaos_endpoint (line_queue 0 Pending 1 10000000) [line_attempt 9 0 1 10000000 (Some 500)] 10"

definition line_done :: db where
  "line_done = line_db (Some 40000000) chaos_endpoint (line_queue 2 Succeeded 1 (line_due 2))
     [line_attempt 9 0 1 10000000 (Some 500), line_attempt 11 0 2 20000000 (Some 200), line_attempt 13 1 1 30000000 (Some 200),
      line_attempt 15 2 1 40000000 (Some 200)] 16"

lemma line_fails: "sys_run demo_cfg \<lparr>s_db = line_db None chaos_endpoint (line_queue 0 Pending 0 (line_due 0)) [] 8, s_hands = []\<rparr>
  \<lparr>s_db = line_failed, s_hands = []\<rparr>"
  using line_round [of 0 0 "line_due 0" 10000000 "[]" 8 500] by (simp add: line_failed_def)

lemma line_recovers: "sys_run demo_cfg \<lparr>s_db = line_failed, s_hands = []\<rparr> \<lparr>s_db = line_done, s_hands = []\<rparr>"
proof -
  let ?a = "line_attempt 9 0 1 10000000 (Some 500)" and ?b = "line_attempt 11 0 2 20000000 (Some 200)"
    and ?c = "line_attempt 13 1 1 30000000 (Some 200)" and ?d = "line_attempt 15 2 1 40000000 (Some 200)"
  let ?x = "line_db (Some 20000000) chaos_endpoint (line_queue 1 Pending 0 (line_due 1)) [?a, ?b] 12"
    and ?y = "line_db (Some 30000000) chaos_endpoint (line_queue 2 Pending 0 (line_due 2)) [?a, ?b, ?c] 14"
  have "sys_run demo_cfg \<lparr>s_db = line_failed, s_hands = []\<rparr> \<lparr>s_db = ?x, s_hands = []\<rparr>"
    using line_round [of 0 1 10000000 20000000 "[?a]" 10 200 Succeeded 10000000]
    by (simp add: line_failed_def line_next numeral_2_eq_2 [symmetric])
  also have "sys_run demo_cfg \<lparr>s_db = ?x, s_hands = []\<rparr> \<lparr>s_db = ?y, s_hands = []\<rparr>"
    using line_round [of 1 0 "line_due 1" 30000000 "[?a, ?b]" 12 200 Succeeded "line_due 1"]
    by (simp add: line_next)
  finally (run_trans) have "sys_run demo_cfg \<lparr>s_db = line_failed, s_hands = []\<rparr> \<lparr>s_db = ?y, s_hands = []\<rparr>" .
  also have "sys_run demo_cfg \<lparr>s_db = ?y, s_hands = []\<rparr> \<lparr>s_db = line_done, s_hands = []\<rparr>"
    using line_round [of 2 0 "line_due 2" 40000000 "[?a, ?b, ?c]" 14 200 Succeeded "line_due 2"]
    by (simp add: line_done_def)
  finally (run_trans) show ?thesis .
qed

lemma line_setup:
  "scenario_setup chaos_inputs [partition_payload 1, partition_payload 2, partition_payload 3] (empty_db id) =
    Some (1, [3, 5, 7], line_db None chaos_endpoint (line_queue 0 Pending 0 (line_due 0)) [] 8)"
proof -
  have "json_parse (stringify (JObj [(''seq'', JNum (show_nat n))])) = Some (JObj [(''seq'', JNum (show_nat n))])" for n
    by (rule json_parse_print) (simp add: scan_show_nat)
  then show ?thesis
    by (simp add: scenario_setup_def createTenant_def createEndpoint_def createPendingDelivery_def event_row_def delivery_row_def
      insert_endpoint_def gen_random_uuid_def Let_def find_event_def chaos_inputs_def empty_db_def partition_payload_def line_rows
      demo_key_def line_due_def show_nat_inj)
qed

subsection \<open>The scenario passes\<close>

lemma all_succeeded:
  assumes "all_drained ids s = Inr True" "d \<in> set (deliveries s)" "d_id d \<in> set ids"
  shows "d_state d = Succeeded"
  using assms by (simp add: all_drained_def list_all_iff)

text \<open>
  C17. The scenario \<^verbatim>\<open>partition-head-blocked-then-drains\<close> cannot fail on an assertion, if E1 is still unresolved when the
  blocked check reads the table (it could be retried and succeed before) and no two attempts are stamped with the same
  \<^verbatim>\<open>sent_at\<close>, a later one always with a later one (the script orders by that column alone): in any run after its set-up against its
  receiver in which the two waits succeed, both followers are pending and blocked on E1, and once all three have succeeded,
  their successful attempts were sent in the order E1, E2, E3.
\<close>

theorem partition_scenario_passes:
  assumes "blank s" "scenario_setup F [partition_payload 1, partition_payload 2, partition_payload 3] s = Some (eid, [e1, e2, e3], t)"
    and "sys_run cfg \<lparr>s_db = t, s_hands = []\<rparr> u" "\<exists>d\<in>set (deliveries (s_db u)). d_id d = e1 \<and> unresolved d"
    and "sys_run cfg u v" "\<forall>i. \<exists>w. sys_run cfg u w \<and> sys_run cfg w v \<and> po_seen p2 i = s_db w"
    and "\<forall>a\<in>set (attempts (s_db v)). a_response_status a = None \<or> (\<exists>n. a_response_status a = Some (snd (partition_receiver n)))"
    and "sorted_wrt sent_earlier (attempts (s_db v))"
    and "await (awaiting_retry e1) 5000 ''E1 fails its first attempt and is scheduled for retry'' p1 = Some (Inr ())"
    and "await (all_drained [e1, e2, e3]) 10000 ''E1, E2, and E3 all drain to succeeded after recovery'' p2 = Some (Inr ())"
  shows "partition_head_blocked_then_drains ut e1 e2 e3 p1 (s_db u) p2 (s_db v) =
    Some (Inr [(''drainOrder'', JArr [JStr (ut e1), JStr (ut e2), JStr (ut e3)])])"
proof -
  obtain b1 b2 b3 bs where b: "deliveries (s_db u) = [b1, b2, b3] @ bs" "d_id b1 = e1" "d_id b2 = e2" "d_id b3 = e3"
      "\<forall>d\<in>{b1, b2, b3}. d_endpoint_id d = eid" "safe cfg u" "lined_up (s_db u)"
    by (rule setup_queue [OF assms(1-3)])
  obtain h where h: "h \<in> set (deliveries (s_db u))" "d_id h = e1" "unresolved h" using assms(4) by blast
  have "h = b1" by (rule d_id_eq [OF safe_parts(2) [OF b(6)] h(1)]) (simp_all add: b(1,2) h(2))
  with h(3) have "unresolved b1" by simp
  note blocked = followers_blocked [OF b(6,7,1,5) this, of ut, unfolded b(2-4)]
  obtain i w where w: "sys_run cfg u w" "sys_run cfg w v" "all_drained [e1, e2, e3] (s_db w) = Inr True"
    using await_ready [OF assms(10)] assms(6) by metis
  obtain c1 c2 c3 cs where c: "deliveries (s_db w) = [c1, c2, c3] @ cs" "d_id c1 = e1" "d_id c2 = e2" "d_id c3 = e3"
      "\<forall>d\<in>{c1, c2, c3}. d_endpoint_id d = eid" "safe cfg w" "lined_up (s_db w)"
    by (rule setup_queue [OF assms(1,2) run_trans [OF assms(3) w(1)]])
  have succ: "d_state d = Succeeded" if "d \<in> {c1, c2, c3}" for d
    by (rule all_succeeded [OF w(3)]) (use that c in auto)
  obtain d1 d2 d3 ns where d: "deliveries (s_db v) = [d1, d2, d3] @ ns" "d_id d1 = e1" "d_id d2 = e2" "d_id d3 = e3"
      "\<forall>d\<in>{d1, d2, d3}. d_endpoint_id d = eid" "safe cfg v" "lined_up (s_db v)"
    by (rule setup_queue [OF assms(1,2) run_trans [OF assms(3,5)]])
  have there: "x \<in> set (deliveries (s_db v))" if "x \<in> {c1, c2, c3}" for x
    by (rule still_succeeded(1) [OF c(6) w(2) _ succ [OF that]]) (use that c(1) in auto)
  have "d1 = c1" "d2 = c2" "d3 = c3"
    by (rule d_id_eq [OF safe_parts(2) [OF d(6)]]; use there c(2-4) d(1-4) in simp)+
  with succ have "\<forall>d\<in>{d1, d2, d3}. d_state d = Succeeded" by simp
  moreover have "\<forall>a\<in>set (attempts (s_db v)). a_response_status a \<in> {None, Some 200, Some 500}"
    using assms(7) by (force simp: partition_receiver_def Let_def split: if_splits)
  ultimately have "sent_order [e1, e2, e3] (s_db v) = [e1, e2, e3]"
    using sent_in_order [OF d(6,7,1,5) _ _ assms(8)] d(2-4) by simp
  then show ?thesis
    using assms(9,10) blocked by (simp add: partition_head_blocked_then_drains_def drain_checks_def Let_def)
qed

theorem partition_scenario_passes_witness:
  "partition_head_blocked_then_drains show_nat 3 5 7 (chaos_poll line_failed) line_failed (chaos_poll line_done) line_done =
    Some (Inr [(''drainOrder'', JArr [JStr (show_nat 3), JStr (show_nat 5), JStr (show_nat 7)])])"
proof -
  let ?u = "\<lparr>s_db = line_failed, s_hands = []\<rparr>" and ?v = "\<lparr>s_db = line_done, s_hands = []\<rparr>"
  have "partition_head_blocked_then_drains show_nat 3 5 7 (chaos_poll line_failed) (s_db ?u) (chaos_poll line_done) (s_db ?v) =
    Some (Inr [(''drainOrder'', JArr [JStr (show_nat 3), JStr (show_nat 5), JStr (show_nat 7)])])"
  proof (rule partition_scenario_passes [OF chaos_blank line_setup line_fails _ line_recovers])
    show "\<forall>i. \<exists>w. sys_run demo_cfg ?u w \<and> sys_run demo_cfg w ?v \<and> po_seen (chaos_poll line_done) i = s_db w"
      using line_recovers by (intro allI exI [of _ ?v]) (simp add: run_refl chaos_poll_def)
    show "\<forall>a\<in>set (attempts (s_db ?v)). a_response_status a = None \<or> (\<exists>n. a_response_status a = Some (snd (partition_receiver n)))"
      by (auto simp: line_done_def line_rows partition_receiver_def Let_def intro: exI [of _ 0] exI [of _ 1])
  qed (simp_all add: chaos_await awaiting_retry_def all_drained_def row_at_def try_bind_def line_failed_def line_done_def line_rows
      unresolved_def sent_earlier_def)
  then show ?thesis by simp
qed

section \<open>A session that dies holding an expansion lock\<close>

text \<open>
  The transaction-level advisory locks of the server: the session holding each key.  They end with the
  transaction, so also with the session; \<^verbatim>\<open>pg_advisory_unlock\<close> releases session-level locks only.  \<open>hash\<close>
  is \<^verbatim>\<open>hashtext\<close>.
\<close>

type_synonym advisory = "int \<rightharpoonup> nat"

definition pg_try_advisory_xact_lock :: "nat \<Rightarrow> int \<Rightarrow> advisory \<Rightarrow> bool \<times> advisory" where
  "pg_try_advisory_xact_lock session key locks =
     (if locks key = None \<or> locks key = Some session then (True, locks(key \<mapsto> session)) else (False, locks))"

definition transaction_ends :: "nat \<Rightarrow> advisory \<Rightarrow> advisory" where
  "transaction_ends session locks = (\<lambda>key. if locks key = Some session then None else locks key)"

definition pg_advisory_unlock :: "nat \<Rightarrow> int \<Rightarrow> advisory \<Rightarrow> bool \<times> advisory" where
  "pg_advisory_unlock session key locks = (False, locks)"

text \<open>The process of \<^verbatim>\<open>expansion-holder.ts\<close>: what it prints before it exits with 1, or before it waits for ever.\<close>

definition expansion_holder :: "(string \<Rightarrow> int) \<Rightarrow> nat \<Rightarrow> string option \<Rightarrow> advisory \<Rightarrow> (string + string) \<times> advisory" where
  "expansion_holder hash session argv2 locks =
     (case argv2 of
        None \<Rightarrow> (Inl ''usage: expansion-holder.ts <tenantId>'', locks)
      | Some [] \<Rightarrow> (Inl ''usage: expansion-holder.ts <tenantId>'', locks)
      | Some tenantId \<Rightarrow>
          (case pg_try_advisory_xact_lock session (hash tenantId) locks of
             (False, _) \<Rightarrow> (Inl ''could not acquire the advisory lock'', locks)
           | (True, held) \<Rightarrow> (Inr ''LOCK_ACQUIRED'', held)))"

definition publishPendingExpansion :: "string \<Rightarrow> ts \<Rightarrow> uuid \<Rightarrow> db \<Rightarrow> sql_error + (uuid \<times> db)" where
  "publishPendingExpansion fresh now tid s =
     event_row Pending_expansion now [P_uuid tid, P_text (''expansion-crash-order-'' @ fresh), P_text ''order.created'', P_text ''{}''] s"

definition expansion_setup :: "fixture_inputs \<Rightarrow> db \<Rightarrow> (uuid \<times> uuid \<times> uuid \<times> uuid \<times> db) option" where
  "expansion_setup F s =
     (case createTenant (fx_crypto F) (fx_now F 0) (fx_rnd F) ''chaos-tenant'' s of
        None \<Rightarrow> None
      | Some (tid, _, s1) \<Rightarrow>
          (case createEndpoint (fx_now F 1) tid [''order.created''] None (fx_secret F) s1 of
             Inl _ \<Rightarrow> None
           | Inr (eid, s2) \<Rightarrow>
               (case publishPendingExpansion (fx_fresh F 0) (fx_now F 2) tid s2 of
                  Inl _ \<Rightarrow> None
                | Inr (e1, s3) \<Rightarrow>
                    (case publishPendingExpansion (fx_fresh F 1) (fx_now F 3) tid s3 of
                       Inl _ \<Rightarrow> None
                     | Inr (e2, s4) \<Rightarrow> Some (tid, eid, e1, e2, s4)))))"

text \<open>Session 0 runs the expansion, 1 is the holder, 2 asks for the contested lock in a transaction of one statement.\<close>

definition may_expand :: "(uuid \<Rightarrow> string) \<Rightarrow> (string \<Rightarrow> int) \<Rightarrow> advisory \<Rightarrow> uuid \<Rightarrow> bool" where
  "may_expand ut hash locks tid = fst (pg_try_advisory_xact_lock 0 (hash (ut tid)) locks)"

definition event_order :: "uuid \<Rightarrow> db \<Rightarrow> uuid list" where
  "event_order eid s = map d_event_id (sort_key d_seq (filter (\<lambda>d. d_endpoint_id d = eid) (deliveries s)))"

definition expansion_checks ::
    "(uuid \<Rightarrow> string) \<Rightarrow> (uuid \<Rightarrow> bool) \<Rightarrow> (nat \<Rightarrow> uuid \<Rightarrow> ts) \<Rightarrow> uuid \<Rightarrow> uuid \<Rightarrow> uuid \<Rightarrow> db \<Rightarrow> scenario_error + (string \<times> json) list" where
  "expansion_checks ut may now eid e1 e2 s =
     (let (firstExpanded, s1) = runExpansionCycle may (now 0) s in
      try_bind (assertScenario firstExpanded
          ''expected the first real expansion cycle after the crash to find and expand an event'') (\<lambda>_.
      (let (secondExpanded, s2) = runExpansionCycle may (now 1) s1 in
       try_bind (assertScenario secondExpanded ''expected the second real expansion cycle to expand the remaining event'') (\<lambda>_.
       (let order = map ut (event_order eid s2) in
        try_bind (assertScenario (js_join '','' order = js_join '','' (map ut [e1, e2]))
            (''expected deliveries in publish order [E1, E2], got ['' @ js_join '', '' order @ '']'')) (\<lambda>_.
        Inr [(''expandedOrder'', JArr (map JStr order))]))))))"

definition expansion_crash_order ::
    "(uuid \<Rightarrow> string) \<Rightarrow> (string \<Rightarrow> int) \<Rightarrow> (nat \<Rightarrow> uuid \<Rightarrow> ts) \<Rightarrow> uuid \<Rightarrow> uuid \<Rightarrow> uuid \<Rightarrow> uuid \<Rightarrow> advisory \<Rightarrow> db \<Rightarrow>
     scenario_error + (string \<times> json) list" where
  "expansion_crash_order ut hash now tid eid e1 e2 locks s =
     (case expansion_holder hash 1 (Some (ut tid)) locks of
        (Inl _, _) \<Rightarrow> Inl (Scenario_error ''expansion-holder did not report LOCK_ACQUIRED within 5s'')
      | (Inr _, locks1) \<Rightarrow>
          (let (contested, locks2) = pg_try_advisory_xact_lock 2 (hash (ut tid)) locks1;
               locks3 = transaction_ends 2 locks2
           in try_bind (assertScenario (\<not> contested)
                (''expected the tenant'' @ [CHR 0x27] @ ''s expansion lock to be genuinely held by the holder process'')) (\<lambda>_.
              (let locks4 = snd (pg_advisory_unlock 2 (hash (ut tid)) locks3);
                   locks5 = transaction_ends 1 locks4
               in expansion_checks ut (may_expand ut hash locks5) now eid e1 e2 s))))"

subsection \<open>The scenario passes\<close>

lemma published_pending:
  assumes "publishPendingExpansion fresh now tid s = Inr (i, t)"
  obtains v where "events t = events s @ [v]" "ev_id v = i" "ev_tenant_id v = tid" "ev_type v = ''order.created''"
    "ev_status v = Pending_expansion" "ev_seq v = ev_next_seq s" "i = uuid_src s (uuid_draws s)" "uuid_draws t = Suc (uuid_draws s)"
    "uuid_src t = uuid_src s" "ev_next_seq t = Suc (ev_next_seq s)" "endpoints t = endpoints s" "deliveries t = deliveries s"
proof -
  obtain j where t: "i = uuid_src s (uuid_draws s)"
    "t = s\<lparr>uuid_draws := Suc (uuid_draws s), events := events s @ [\<lparr>ev_id = i, ev_tenant_id = tid,
       ev_idempotency_key = ''expansion-crash-order-'' @ fresh, ev_type = ''order.created'', ev_payload = j,
       ev_status = Pending_expansion, ev_seq = ev_next_seq s, ev_created_at = now\<rparr>], ev_next_seq := Suc (ev_next_seq s)\<rparr>"
    using assms by (auto simp: publishPendingExpansion_def event_row_def gen_random_uuid_def Let_def split: option.splits if_splits)
  show thesis by (rule that [of "last (events t)", OF _ _ _ _ _ _ t(1)]) (simp_all add: t(2))
qed

lemma expansion_rows:
  assumes "blank s" "expansion_setup F s = Some (tid, eid, e1, e2, t)"
  obtains e v1 v2 where "endpoints t = [e]" "ep_id e = eid" "ep_tenant_id e = tid" "ep_event_types e = [''order.created'']"
    "events t = [v1, v2]" "\<forall>v\<in>{v1, v2}. ev_tenant_id v = tid \<and> ev_type v = ''order.created'' \<and> ev_status v = Pending_expansion"
    "ev_id v1 = e1" "ev_id v2 = e2" "ev_seq v1 = 1" "ev_seq v2 = 2" "e1 \<noteq> e2" "deliveries t = []"
proof -
  obtain key s1 s2 s3 where r: "createTenant (fx_crypto F) (fx_now F 0) (fx_rnd F) ''chaos-tenant'' s = Some (tid, key, s1)"
      "createEndpoint (fx_now F 1) tid [''order.created''] None (fx_secret F) s1 = Inr (eid, s2)"
      "publishPendingExpansion (fx_fresh F 0) (fx_now F 2) tid s2 = Inr (e1, s3)"
      "publishPendingExpansion (fx_fresh F 1) (fx_now F 3) tid s3 = Inr (e2, t)"
    using assms(2) by (auto simp: expansion_setup_def split: option.splits prod.splits sum.splits)
  have s1: "endpoints s1 = []" "events s1 = []" "deliveries s1 = []" "ev_next_seq s1 = 1" "inj (uuid_src s1)" "tid \<in> tn_id ` set (tenants s1)"
    using assms(1) r(1) by (auto simp: blank_def createTenant_def gen_random_uuid_def Let_def split: if_splits)
  let ?ins = "insert_endpoint (fx_now F 1) tid ''https://example.com/hook'' [''order.created''] (fx_secret F) s1"
  have "s2 = snd ?ins" "eid = ep_id (fst ?ins)" using r(2) s1(6) by (simp_all add: createEndpoint_def endpoint_row_def split: prod.splits)
  then have s2: "endpoints s2 = [fst ?ins]" "ep_id (fst ?ins) = eid" "ep_tenant_id (fst ?ins) = tid"
      "ep_event_types (fst ?ins) = [''order.created'']" "events s2 = []" "deliveries s2 = []" "ev_next_seq s2 = 1" "inj (uuid_src s2)"
    using s1 by (simp_all add: insert_endpoint_def gen_random_uuid_def Let_def)
  obtain v1 where v1: "events s3 = [v1]" "ev_id v1 = e1" "ev_tenant_id v1 = tid" "ev_type v1 = ''order.created''"
      "ev_status v1 = Pending_expansion" "ev_seq v1 = 1" "e1 = uuid_src s2 (uuid_draws s2)" "uuid_draws s3 = Suc (uuid_draws s2)"
      "uuid_src s3 = uuid_src s2" "ev_next_seq s3 = 2" "endpoints s3 = [fst ?ins]" "deliveries s3 = []"
    by (rule published_pending [OF r(3)]) (use s2 in simp)
  obtain v2 where v2: "events t = [v1, v2]" "ev_id v2 = e2" "ev_tenant_id v2 = tid" "ev_type v2 = ''order.created''"
      "ev_status v2 = Pending_expansion" "ev_seq v2 = 2" "e2 = uuid_src s3 (uuid_draws s3)" "endpoints t = [fst ?ins]" "deliveries t = []"
    by (rule published_pending [OF r(4)]) (use v1 in simp)
  have "e1 \<noteq> e2"
  proof
    assume same: "e1 = e2"
    have "uuid_draws s2 = Suc (uuid_draws s2)" by (rule injD [OF s2(8)]) (use same v1(7-9) v2(7) in metis)
    then show False by simp
  qed
  with s2(2-4) v1 v2 show thesis by (intro that [of "fst ?ins" v1 v2]) simp_all
qed

text \<open>
  The scenario \<^verbatim>\<open>expansion-crash-order\<close> passes: while the holder lives its lock makes an expansion cycle skip the tenant, and
  once it was killed, with nothing done, two cycles expand both events in publish order.
\<close>

theorem expansion_crash_passes:
  assumes "blank s" "expansion_setup F s = Some (tid, eid, e1, e2, t)" "ut tid \<noteq> []" "locks (hash (ut tid)) = None"
  shows "expansion_crash_order ut hash now tid eid e1 e2 locks t = Inr [(''expandedOrder'', JArr [JStr (ut e1), JStr (ut e2)])] \<and>
    runExpansionCycle (may_expand ut hash (snd (expansion_holder hash 1 (Some (ut tid)) locks))) (now 0) t = (False, t)"
proof -
  obtain e v1 v2 where t: "endpoints t = [e]" "ep_id e = eid" "ep_tenant_id e = tid" "ep_event_types e = [''order.created'']"
    "events t = [v1, v2]" "\<forall>v\<in>{v1, v2}. ev_tenant_id v = tid \<and> ev_type v = ''order.created'' \<and> ev_status v = Pending_expansion"
    "ev_id v1 = e1" "ev_id v2 = e2" "ev_seq v1 = 1" "ev_seq v2 = 2" "e1 \<noteq> e2" "deliveries t = []"
    by (rule expansion_rows [OF assms(1,2)])
  have held: "expansion_holder hash 1 (Some (ut tid)) locks = (Inr ''LOCK_ACQUIRED'', locks(hash (ut tid) \<mapsto> 1))"
    using assms(3,4) by (cases "ut tid") (simp_all add: expansion_holder_def pg_try_advisory_xact_lock_def)
  have free: "may_expand ut hash (transaction_ends 1 (transaction_ends 2 (locks(hash (ut tid) \<mapsto> 1)))) tid"
    using assms(4) by (simp add: may_expand_def pg_try_advisory_xact_lock_def transaction_ends_def)
  have "expansion_checks ut may now eid e1 e2 t = Inr [(''expandedOrder'', JArr [JStr (ut e1), JStr (ut e2)])]" if "may tid" for may
    using t that
    by (simp add: expansion_checks_def runExpansionCycle_def expansion_candidates_def pending_events_def expand_tenant_def
      expand_event_def mark_event_expanded_def fan_out_def subscribers_def insert_deliveries_def insert_delivery_def gen_random_uuid_def
      Let_def event_order_def)
  note checks = this [of "may_expand ut hash (transaction_ends 1 (transaction_ends 2 (locks(hash (ut tid) \<mapsto> 1))))", OF free]
  have "expansion_crash_order ut hash now tid eid e1 e2 locks t = Inr [(''expandedOrder'', JArr [JStr (ut e1), JStr (ut e2)])]"
    unfolding expansion_crash_order_def held
    using checks by (simp add: pg_try_advisory_xact_lock_def pg_advisory_unlock_def Let_def)
  moreover have "runExpansionCycle (may_expand ut hash (locks(hash (ut tid) \<mapsto> 1))) (now 0) t = (False, t)"
    using t by (simp add: runExpansionCycle_def expansion_candidates_def expand_tenant_def may_expand_def pg_try_advisory_xact_lock_def)
  ultimately show ?thesis unfolding held by simp
qed

definition crash_setup_db :: db where
  "crash_setup_db = snd (snd (snd (snd (the (expansion_setup chaos_inputs (empty_db id))))))"

lemma crash_setup: "expansion_setup chaos_inputs (empty_db id) = Some (0, 1, 2, 3, crash_setup_db)"
proof -
  have "json_parse ''{}'' = Some (JObj [])" using json_parse_print [of "JObj []"] by simp
  then show ?thesis
    unfolding crash_setup_db_def
    by (simp add: expansion_setup_def createTenant_def createEndpoint_def publishPendingExpansion_def event_row_def endpoint_row_def
      insert_endpoint_def gen_random_uuid_def Let_def find_event_def chaos_inputs_def empty_db_def show_nat_inj)
qed

theorem expansion_crash_passes_witness:
  "expansion_crash_order (\<lambda>i. show_nat i) (\<lambda>x. int (length x)) (\<lambda>_ _. 9000) 0 1 2 3 Map.empty crash_setup_db =
    Inr [(''expandedOrder'', JArr [JStr (show_nat 2), JStr (show_nat 3)])]"
  using expansion_crash_passes [OF chaos_blank crash_setup, of "\<lambda>i. show_nat i" Map.empty "\<lambda>x. int (length x)" "\<lambda>_ _. 9000"]
  by (simp add: show_nat_zero)

end
