(* ===== verification/Load_Scenarios.thy ===== *)
theory Load_Scenarios
  imports Fixtures Demo
begin

text \<open>
  The load scenarios of \<^verbatim>\<open>node/load\<close>: \<^verbatim>\<open>publish-latency-flat\<close> and \<^verbatim>\<open>replay-latency-flat\<close> run against one API
  server and nothing else, so a script is a function of the database it starts from and of the
  measured latencies.  Requests go through the whole application (\<open>handle_request\<close>).
\<close>

section \<open>Measuring a level\<close>

datatype load_error = Load_failed scenario_error | Load_sql sql_error

text \<open>A measured level: its size and the percentiles.\<close>

record level_result =
  lv_size :: nat
  lv_p50 :: "rat option"
  lv_p99 :: "rat option"

text \<open>
  \<open>msg\<close> is the message up to the status; \<open>elapsed i s\<close> is the latency of the i-th request, which finds the
  database \<open>s\<close>: nothing is assumed of how it depends on either.
\<close>

fun measure_requests ::
    "api_env \<Rightarrow> (nat \<Rightarrow> req_inputs) \<Rightarrow> (nat \<Rightarrow> request) \<Rightarrow> string \<Rightarrow> (nat \<Rightarrow> db \<Rightarrow> rat) \<Rightarrow> nat list \<Rightarrow> db \<Rightarrow> (load_error + rat list) \<times> db" where
  "measure_requests E inp req msg elapsed [] s = (Inr [], s)"
| "measure_requests E inp req msg elapsed (i # is) s =
     (let ((status, _), t) = handle_request E (inp i) (req i) s in
      case assertScenario (status = 202) (msg @ show_nat status) of
        Inl e \<Rightarrow> (Inl (Load_failed e), t)
      | Inr _ \<Rightarrow> map_prod (map_sum id (\<lambda>ls. elapsed i s # ls)) id (measure_requests E inp req msg elapsed is t))"

definition level_summary :: "(rat \<Rightarrow> rat) \<Rightarrow> nat \<Rightarrow> rat list \<Rightarrow> level_result" where
  "level_summary dbl level latenciesMs =
     (let sorted = sort latenciesMs in \<lparr>lv_size = level, lv_p50 = percentile dbl sorted 50, lv_p99 = percentile dbl sorted 99\<rparr>)"

text \<open>
  The loop over the levels: \<open>add\<close> brings the fixture up to a level, \<open>run\<close> measures it.
\<close>

fun measure_levels ::
    "(nat \<Rightarrow> nat \<Rightarrow> db \<Rightarrow> (sql_error + unit) \<times> db) \<Rightarrow> (nat \<Rightarrow> db \<Rightarrow> (load_error + rat list) \<times> db) \<Rightarrow> (rat \<Rightarrow> rat) \<Rightarrow>
     nat \<Rightarrow> nat list \<Rightarrow> db \<Rightarrow> (load_error + level_result list) \<times> db" where
  "measure_levels add run dbl cumulative [] s = (Inr [], s)"
| "measure_levels add run dbl cumulative (level # levels) s =
     (let toAdd = int level - int cumulative in
      case (if 0 < toAdd then add level (nat toAdd) s else (Inr (), s)) of
        (Inl e, s1) \<Rightarrow> (Inl (Load_sql e), s1)
      | (Inr _, s1) \<Rightarrow>
          (case run level s1 of
             (Inl e, s2) \<Rightarrow> (Inl e, s2)
           | (Inr ls, s2) \<Rightarrow>
               map_prod (map_sum id (\<lambda>rs. level_summary dbl level ls # rs)) id
                 (measure_levels add run dbl (if 0 < toAdd then level else cumulative) levels s2)))"

text \<open>A comparison with NaN is false.  \<open>fixed\<close> is \<^verbatim>\<open>toFixed(1)\<close>.\<close>

definition stays_flat :: "(rat \<Rightarrow> rat) \<Rightarrow> rat option \<Rightarrow> rat option \<Rightarrow> bool" where
  "stays_flat dbl largest baseline =
     (case (largest, baseline) of (Some l, Some b) \<Rightarrow> l \<le> dbl (dbl (b * 5) + 50) | _ \<Rightarrow> False)"

definition flat_verdict :: "(rat \<Rightarrow> rat) \<Rightarrow> (rat option \<Rightarrow> rat option \<Rightarrow> string) \<Rightarrow> level_result list \<Rightarrow> load_error + level_result list" where
  "flat_verdict dbl msg rs =
     (case assertScenario (stays_flat dbl (lv_p99 (last rs)) (lv_p99 (hd rs))) (msg (lv_p99 (last rs)) (lv_p99 (hd rs))) of
        Inl e \<Rightarrow> Inl (Load_failed e)
      | Inr _ \<Rightarrow> Inr rs)"

section \<open>publish-latency-flat.ts\<close>

definition SUBSCRIBER_LEVELS :: "nat list" where
  "SUBSCRIBER_LEVELS = [10, 100, 1000, 10000]"

definition json_request :: "string list \<Rightarrow> string \<Rightarrow> string \<Rightarrow> json \<Rightarrow> request" where
  "json_request path apiKey key body =
     \<lparr>rq_method = ''POST'', rq_path = path, rq_query = (\<lambda>_. Q_undefined),
      rq_header = [''content-type'' \<mapsto> ''application/json'', ''authorization'' \<mapsto> ''Bearer '' @ apiKey, ''idempotency-key'' \<mapsto> key],
      rq_body = Some body\<rparr>"

definition level_key :: "string \<Rightarrow> nat \<Rightarrow> nat \<Rightarrow> string" where
  "level_key prefix level i = prefix @ show_nat level @ ''-'' @ show_nat i"

definition publish_request :: "string \<Rightarrow> nat \<Rightarrow> nat \<Rightarrow> request" where
  "publish_request apiKey level i =
     json_request [''events''] apiKey (level_key ''publish-latency-'' level i)
       (JObj [(''type'', JStr ''order.created''), (''payload'', JObj [(''i'', JNum (show_nat i))])])"

definition more_subscribers :: "string \<Rightarrow> (nat \<Rightarrow> ts) \<Rightarrow> uuid \<Rightarrow> nat \<Rightarrow> nat \<Rightarrow> db \<Rightarrow> (sql_error + unit) \<times> db" where
  "more_subscribers secret now tid level count s =
     (case createEndpointsBulk secret (now level) tid count None None s of Inl e \<Rightarrow> (Inl e, s) | Inr t \<Rightarrow> (Inr (), t))"

definition publish_latency_flat ::
    "api_env \<Rightarrow> string \<Rightarrow> (nat \<Rightarrow> ts) \<Rightarrow> (nat \<Rightarrow> nat \<Rightarrow> req_inputs) \<Rightarrow> (nat \<Rightarrow> nat \<Rightarrow> db \<Rightarrow> rat) \<Rightarrow> (rat \<Rightarrow> rat) \<Rightarrow> (rat option \<Rightarrow> string) \<Rightarrow>
     uuid \<Rightarrow> string \<Rightarrow> db \<Rightarrow> (load_error + level_result list) \<times> db" where
  "publish_latency_flat E secret now inp elapsed dbl fixed tid apiKey s =
     (case measure_levels (more_subscribers secret now tid)
         (\<lambda>level. measure_requests E (inp level) (publish_request apiKey level)
            (''expected 202 from POST /events at subscriber level '' @ show_nat level @ '', got '') (elapsed level) [0..<30])
         dbl 0 SUBSCRIBER_LEVELS s of
        (Inl e, t) \<Rightarrow> (Inl e, t)
      | (Inr rs, t) \<Rightarrow>
          (flat_verdict dbl (\<lambda>largest baseline. ''expected p99 publish latency at 10000 subscribers ('' @ fixed largest @
             ''ms) to stay roughly flat versus 10 subscribers ('' @ fixed baseline @ ''ms)'') rs, t))"

section \<open>replay-latency-flat.ts\<close>

definition WINDOW_SIZES :: "nat list" where
  "WINDOW_SIZES = [100, 1000, 10000]"

definition replay_window :: json where
  "replay_window = JObj [(''range_start'', JStr ''2020-01-01T00:00:00.000Z''), (''range_end'', JStr ''2030-01-01T00:00:00.000Z'')]"

definition replay_request :: "string \<Rightarrow> string \<Rightarrow> nat \<Rightarrow> nat \<Rightarrow> request" where
  "replay_request apiKey endpointId level i =
     json_request [''endpoints'', endpointId, ''replays''] apiKey (level_key ''replay-latency-'' level i) replay_window"

text \<open>\<open>fresh level i\<close> are the random identifiers in the keys of the fixture; \<^verbatim>\<open>rows[0]!.id\<close> fails when there is no endpoint.\<close>

definition replay_latency_flat ::
    "api_env \<Rightarrow> string \<Rightarrow> ts \<Rightarrow> (nat \<Rightarrow> nat \<Rightarrow> string) \<Rightarrow> (nat \<Rightarrow> ts) \<Rightarrow> (nat \<Rightarrow> ts) \<Rightarrow> (nat \<Rightarrow> nat \<Rightarrow> req_inputs) \<Rightarrow> (nat \<Rightarrow> nat \<Rightarrow> db \<Rightarrow> rat) \<Rightarrow>
     (rat \<Rightarrow> rat) \<Rightarrow> (rat option \<Rightarrow> string) \<Rightarrow> uuid \<Rightarrow> string \<Rightarrow> db \<Rightarrow> (load_error + level_result list) \<times> db" where
  "replay_latency_flat E secret now0 fresh now1 now2 inp elapsed dbl fixed tid apiKey s =
     (case createEndpointsBulk secret now0 tid 1 None None s of
        Inl e \<Rightarrow> (Inl (Load_sql e), s)
      | Inr s0 \<Rightarrow>
          (case endpoints s0 of
             [] \<Rightarrow> (Inl (Load_failed (Scenario_error (''Cannot read properties of undefined (reading '' @ [CHR 0x27] @ ''id'' @ [CHR 0x27] @ '')''))), s0)
           | e # _ \<Rightarrow>
               (case measure_levels (\<lambda>level. createTerminalDeliveriesBulk (fresh level) (now1 level) (now2 level) tid (ep_id e))
                   (\<lambda>level. measure_requests E (inp level) (replay_request apiKey (uuid_out E (ep_id e)) level)
                      (''expected 202 from POST /endpoints/:id/replays at window size '' @ show_nat level @ '', got '') (elapsed level) [0..<15])
                   dbl 0 WINDOW_SIZES s0 of
                  (Inl e, t) \<Rightarrow> (Inl e, t)
                | (Inr rs, t) \<Rightarrow>
                    (flat_verdict dbl (\<lambda>largest baseline. ''expected p99 replay latency at window size 10000 ('' @ fixed largest @
                       ''ms) to stay roughly flat versus window size 100 ('' @ fixed baseline @ ''ms)'') rs, t))))"

section \<open>Scripts whose steps succeed\<close>

text \<open>
  What the loops need of a script: an invariant over the requests (or levels) still to come under which
  the next request is answered with 202 (the next level is set up and measured).
\<close>

locale accepted_requests =
  fixes E :: api_env and inp :: "nat \<Rightarrow> req_inputs" and req :: "nat \<Rightarrow> request" and inv :: "nat list \<Rightarrow> db \<Rightarrow> bool"
  assumes accepted: "inv (i # is) s \<Longrightarrow> \<exists>x t. handle_request E (inp i) (req i) s = ((202, x), t) \<and> inv is t"
begin

lemma measured:
  "inv is s \<Longrightarrow> \<exists>t ss. measure_requests E inp req msg elapsed is s = (Inr (map2 elapsed is ss), t) \<and> inv [] t \<and>
     list_all2 (\<lambda>i s. \<exists>js. inv (i # js) s) is ss"
proof (induction "is" arbitrary: s)
  case (Cons i "is")
  from accepted [OF Cons.prems] obtain x t where "handle_request E (inp i) (req i) s = ((202, x), t)" "inv is t" by blast
  moreover from this(2) Cons.IH obtain t' ss where "measure_requests E inp req msg elapsed is t = (Inr (map2 elapsed is ss), t')" "inv [] t'"
    "list_all2 (\<lambda>i s. \<exists>js. inv (i # js) s) is ss" by blast
  ultimately show ?case
    using Cons.prems by (intro exI [of _ t'] exI [of _ "s # ss"]) (auto simp: assertScenario_def)
qed simp

lemma measured_upto:
  assumes "inv [0..<n] s"
  obtains t f where "measure_requests E inp req msg elapsed [0..<n] s = (Inr (map (\<lambda>i. elapsed i (f i)) [0..<n]), t)" "inv [] t"
    "\<forall>i<n. \<exists>js. inv (i # js) (f i)"
proof -
  from measured [OF assms, of msg elapsed] obtain t ss where t: "measure_requests E inp req msg elapsed [0..<n] s = (Inr (map2 elapsed [0..<n] ss), t)"
      "inv [] t" "list_all2 (\<lambda>i s. \<exists>js. inv (i # js) s) [0..<n] ss" by blast
  have "length ss = n" "\<forall>i<n. \<exists>js. inv (i # js) (ss ! i)" using t(3) by (auto simp: list_all2_conv_all_nth)
  moreover from this(1) have "map2 elapsed [0..<n] ss = map (\<lambda>i. elapsed i (ss ! i)) [0..<n]" by (auto intro: nth_equalityI)
  ultimately show thesis using that [of "(!) ss" t] t(1,2) by simp
qed

end

locale measured_levels =
  fixes add :: "nat \<Rightarrow> nat \<Rightarrow> db \<Rightarrow> (sql_error + unit) \<times> db" and run :: "nat \<Rightarrow> db \<Rightarrow> (load_error + rat list) \<times> db"
    and good :: "nat \<Rightarrow> rat list \<Rightarrow> bool" and inv :: "nat \<Rightarrow> nat list \<Rightarrow> db \<Rightarrow> bool"
  assumes level: "inv c (l # ls) s \<Longrightarrow> c < l \<Longrightarrow>
    \<exists>s1 lats t. add l (l - c) s = (Inr (), s1) \<and> run l s1 = (Inr lats, t) \<and> good l lats \<and> inv l ls t"
begin

lemma summarised:
  "inv c ls s \<Longrightarrow> sorted_wrt (<) (c # ls) \<Longrightarrow>
     \<exists>t lat. measure_levels add run dbl c ls s = (Inr (map (\<lambda>l. level_summary dbl l (lat l)) ls), t) \<and>
       (\<forall>l\<in>set ls. good l (lat l)) \<and> inv (last (c # ls)) [] t"
proof (induction ls arbitrary: c s)
  case (Cons l ls)
  have lt: "c < l" "l \<notin> set ls" using Cons.prems(2) by auto
  from level [OF Cons.prems(1) lt(1)] obtain s1 lats t where
    st: "add l (l - c) s = (Inr (), s1)" "run l s1 = (Inr lats, t)" "good l lats" "inv l ls t" by blast
  have "nat (int l - int c) = l - c" using lt by simp
  moreover from Cons.IH [OF st(4)] Cons.prems(2) obtain u lat where
    u: "measure_levels add run dbl l ls t = (Inr (map (\<lambda>l. level_summary dbl l (lat l)) ls), u)" "\<forall>l\<in>set ls. good l (lat l)"
      "inv (last (l # ls)) [] u" by auto
  moreover have "map (\<lambda>l'. level_summary dbl l' ((lat(l := lats)) l')) ls = map (\<lambda>l. level_summary dbl l (lat l)) ls"
    using lt(2) by (auto simp: map_eq_conv)
  ultimately show ?case
    using st lt by (intro exI [of _ u] exI [of _ "lat(l := lats)"]) auto
qed simp

end

section \<open>The verdict on the slowest requests\<close>

text \<open>
  What the verdict relies on of floating point: a product and a quotient in the range of an index are rounded by at
  most one part in \<open>2 ^ 53\<close>.  Then the 99th percentile of fewer than a hundred measurements is the slowest one.
\<close>

definition rounds_index :: "(rat \<Rightarrow> rat) \<Rightarrow> bool" where
  "rounds_index dbl \<longleftrightarrow> (\<forall>x. 1 / 2 \<le> x \<longrightarrow> x \<le> 100 \<longrightarrow> \<bar>dbl x - x\<bar> \<le> x / 2 ^ 53)"

lemma p99_slowest:
  assumes "rounds_index dbl" "0 < n" "n < 100"
  shows "percentile dbl (sort (map f [0..<n])) 99 = Some (Max (f ` {..<n}))"
proof -
  let ?xs = "sort (map f [0..<n])" and ?y = "dbl (99 / 100) * of_nat n"
  have n: "1 \<le> rat_of_nat n" "rat_of_nat n \<le> 99" using assms(2,3) by simp_all
  have round: "x - x / 2 ^ 53 \<le> dbl x" "dbl x \<le> x + x / 2 ^ 53" if "1 / 2 \<le> x" "x \<le> 100" for x
  proof -
    have "\<bar>dbl x - x\<bar> \<le> x / 2 ^ 53" using assms(1) that by (simp add: rounds_index_def)
    then show "x - x / 2 ^ 53 \<le> dbl x" "dbl x \<le> x + x / 2 ^ 53" by linarith+
  qed
  have q: "99 / 100 - 1 / 1000000 \<le> dbl (99 / 100)" "dbl (99 / 100) \<le> 1"
    using round [of "99 / 100"] by simp_all
  have y: "(99 / 100 - 1 / 1000000) * of_nat n \<le> ?y" "?y \<le> of_nat n"
    using mult_right_mono [OF q(1), of "of_nat n"] mult_right_mono [OF q(2), of "of_nat n"] by simp_all
  have index: "1 / 2 \<le> z" "z \<le> 100" "r - 1 \<le> z - z / 2 ^ 53" if "1 \<le> r" "r \<le> 99" "(99 / 100 - 1 / 1000000) * r \<le> z" "z \<le> r" for r z :: rat
    using that by simp_all
  have "of_nat n - 1 \<le> dbl ?y" using round(1) [of ?y] index [OF n y] by linarith
  then have "int n - 1 \<le> \<lfloor>dbl ?y\<rfloor>" by (simp add: le_floor_iff)
  then have "percentile dbl ?xs 99 = Some (?xs ! (n - 1))"
    using assms(2) by (auto simp: percentile_def Let_def min_def nat_diff_distrib dest: arg_cong [where f = length])
  moreover have "?xs ! (n - 1) = Max (f ` {..<n})"
  proof (rule Max_eqI [symmetric])
    fix x assume "x \<in> f ` {..<n}"
    then have "x \<in> set ?xs" by auto
    then obtain k where "k < length ?xs" "x = ?xs ! k" unfolding in_set_conv_nth by blast
    then show "x \<le> ?xs ! (n - 1)" by (auto intro!: sorted_nth_mono)
  next
    have "?xs ! (n - 1) \<in> set ?xs" using assms(2) by (intro nth_mem) simp
    then show "?xs ! (n - 1) \<in> f ` {..<n}" by auto
  qed simp
  ultimately show ?thesis by simp
qed

text \<open>The verdict, over the latencies themselves: the slowest request of the last level against that of the first.\<close>

lemma verdict_slowest:
  assumes "rounds_index dbl" "0 < n" "n < 100"
  shows "flat_verdict dbl msg (map (\<lambda>level. level_summary dbl level (map (lat level) [0..<n])) (first # levels)) =
    (let slowest = \<lambda>level. Max (lat level ` {..<n}); largest = last (first # levels)
     in if slowest largest \<le> dbl (dbl (slowest first * 5) + 50)
        then Inr (map (\<lambda>level. \<lparr>lv_size = level, lv_p50 = percentile dbl (sort (map (lat level) [0..<n])) 50,
                                lv_p99 = Some (slowest level)\<rparr>) (first # levels))
        else Inl (Load_failed (Scenario_assertion (msg (Some (slowest largest)) (Some (slowest first))))))"
proof -
  have row: "level_summary dbl level (map (lat level) [0..<n]) =
      \<lparr>lv_size = level, lv_p50 = percentile dbl (sort (map (lat level) [0..<n])) 50, lv_p99 = Some (Max (lat level ` {..<n}))\<rparr>" for level
    by (simp add: level_summary_def Let_def p99_slowest [OF assms])
  have last: "lv_p99 (last (map (\<lambda>level. level_summary dbl level (map (lat level) [0..<n])) (first # levels))) =
      Some (Max (lat (last (first # levels)) ` {..<n}))"
    by (subst last_map) (simp_all only: list.distinct row level_result.simps not_False_eq_True)
  let ?c = "Max (lat (last (first # levels)) ` {..<n}) \<le> dbl (dbl (Max (lat first ` {..<n}) * 5) + 50)"
  have "stays_flat dbl (Some (Max (lat (last (first # levels)) ` {..<n}))) (Some (Max (lat first ` {..<n}))) = ?c"
    by (simp only: stays_flat_def option.case prod.case)
  then show ?thesis
    unfolding flat_verdict_def last unfolding list.map list.sel row level_result.simps
    by (cases ?c) (simp_all only: assertScenario_def Let_def not_True_eq_False not_False_eq_True if_True if_False sum.case)
qed

section \<open>Requests that succeed\<close>

lemma key_text:
  assumes "pg_text_ok p"
  shows "pg_text_ok (level_key p level i)"
proof -
  have "0 < (of_char c :: nat)" if "is_digit c" for c using that by (auto simp: is_digit_def)
  then have "0 < (of_char c :: nat)" if "c \<in> set (show_nat n)" for c n using show_nat_digits [of n] that by blast
  with assms show ?thesis by (auto simp: level_key_def pg_text_ok_def list_all_iff)
qed

lemma level_key_inj: "level_key p l i = level_key p l' j \<longleftrightarrow> l = l' \<and> i = j"
proof
  assume "level_key p l i = level_key p l' j"
  then have eq: "show_nat l @ ''-'' @ show_nat i = show_nat l' @ ''-'' @ show_nat j" by (simp add: level_key_def)
  have "takeWhile is_digit (show_nat n @ ''-'' @ xs) = show_nat n" for n xs
    using show_nat_digits [of n] by (simp add: is_digit_def)
  with arg_cong [where f = "takeWhile is_digit", OF eq] have "show_nat l = show_nat l'" by simp
  with eq show "l = l' \<and> i = j" by (simp add: show_nat_inj)
qed simp

lemma key_authorized:
  assumes "tenants s = [u]" "tn_api_key_hash u = hashApiKey (crypt E) apiKey" "bearer_token (Some (''Bearer '' @ apiKey)) = Some apiKey"
  shows "requireTenant E (json_request path apiKey key body) s = Tenant (tn_id u)"
  using assms by (simp add: requireTenant_def json_request_def)

lemma publish_accepted:
  assumes "tenants s = [u]" "tn_api_key_hash u = hashApiKey (crypt E) apiKey" "bearer_token (Some (''Bearer '' @ apiKey)) = Some apiKey"
    and "jsonb_in E = json_parse" "find_event (tn_id u) (level_key ''publish-latency-'' level i) s = None"
  shows "\<exists>x. handle_request E y (publish_request apiKey level i) s =
      ((202, x), s\<lparr>uuid_draws := Suc (uuid_draws s), events := events s @ [new_event (ri_now y) (tn_id u)
         (level_key ''publish-latency-'' level i) ''order.created'' (JObj [(''i'', JNum (show_nat i))]) s], ev_next_seq := Suc (ev_next_seq s)\<rparr>)"
proof -
  let ?key = "level_key ''publish-latency-'' level i"
  have auth: "requireTenant E (publish_request apiKey level i) s = Tenant (tn_id u)"
    unfolding publish_request_def by (rule key_authorized [OF assms(1-3)])
  have body: "json_parse (stringify (JObj [(''i'', JNum (show_nat i))])) = Some (JObj [(''i'', JNum (show_nat i))])"
    by (rule json_parse_print) (simp add: scan_show_nat)
  have chars: "pg_text_ok ?key" "?key \<noteq> []" by (rule key_text) (simp_all add: pg_text_ok_def level_key_def)
  have req: "rq_method (publish_request apiKey level i) = ''POST''" "rq_path (publish_request apiKey level i) = [''events'']"
      "rq_body (publish_request apiKey level i) = Some (JObj [(''type'', JStr ''order.created''), (''payload'', JObj [(''i'', JNum (show_nat i))])])"
      "rq_header (publish_request apiKey level i) ''idempotency-key'' = Some ?key"
    by (simp_all add: publish_request_def json_request_def)
  have schema: "publishSchema (JObj [(''type'', JStr ''order.created''), (''payload'', JObj [(''i'', JNum (show_nat i))])]) =
      Some (''order.created'', JObj [(''i'', JNum (show_nat i))])"
    by (simp add: publishSchema_def get_prop_def)
  have post: "post_event E now (tn_id u) (Some ?key) (JObj [(''type'', JStr ''order.created''), (''payload'', JObj [(''i'', JNum (show_nat i))])]) s =
      (let v = new_event now (tn_id u) ?key ''order.created'' (JObj [(''i'', JNum (show_nat i))]) s
       in (Inr (202, R_accepted (ev_id v) (ev_status v)),
           s\<lparr>uuid_draws := Suc (uuid_draws s), events := events s @ [v], ev_next_seq := Suc (ev_next_seq s)\<rparr>))" for now
    using chars body assms(4,5)
    by (simp add: post_event_def schema publish_event_eq pg_text_ok_def [of "''order.created''"] Let_def del: stringify.simps)
  have "handle_request E y (publish_request apiKey level i) s =
      with_error_handler (post_event E (ri_now y) (tn_id u) (Some ?key)
        (JObj [(''type'', JStr ''order.created''), (''payload'', JObj [(''i'', JNum (show_nat i))])]) s)"
    unfolding handle_request_def auth req by (simp add: route_of_def run_route_def req)
  then show ?thesis unfolding post Let_def by (simp add: with_error_handler_def)
qed

section \<open>Publish latency\<close>

text \<open>
  While the script runs: one tenant, whose key the requests carry, \<open>width\<close> endpoints, and an event for
  every request that was made; the keys of those to come (\<open>is\<close> of \<open>level\<close>, then the \<open>levels\<close>) are unused.
\<close>

definition publishing :: "api_env \<Rightarrow> string \<Rightarrow> uuid \<Rightarrow> nat \<Rightarrow> nat \<Rightarrow> nat \<Rightarrow> nat list \<Rightarrow> nat list \<Rightarrow> db \<Rightarrow> bool" where
  "publishing E apiKey tid amount width level levels is s \<longleftrightarrow>
     jsonb_in E = json_parse \<and> bearer_token (Some (''Bearer '' @ apiKey)) = Some apiKey \<and>
     (\<exists>u. tenants s = [u] \<and> tn_id u = tid \<and> tn_api_key_hash u = hashApiKey (crypt E) apiKey) \<and>
     distinct (level # levels) \<and> distinct is \<and> (\<forall>l\<in>set levels. l \<le> 16383) \<and>
     length (endpoints s) = width \<and> deliveries s = [] \<and> length (events s) + length is + 30 * length levels = amount \<and>
     (\<forall>v\<in>set (events s). ev_tenant_id v = tid \<and> ev_status v = Pending_expansion \<and>
        (\<exists>l j. ev_idempotency_key v = level_key ''publish-latency-'' l j \<and> l \<notin> set levels \<and> (l = level \<longrightarrow> j \<notin> set is)))"

lemma publishing_accepted:
  assumes "publishing E apiKey tid amount width level levels (i # is) s"
  shows "\<exists>x t. handle_request E y (publish_request apiKey level i) s = ((202, x), t) \<and> publishing E apiKey tid amount width level levels is t"
proof -
  obtain u where u: "tenants s = [u]" "tn_id u = tid" "tn_api_key_hash u = hashApiKey (crypt E) apiKey"
      "bearer_token (Some (''Bearer '' @ apiKey)) = Some apiKey" "jsonb_in E = json_parse"
    using assms by (auto simp: publishing_def)
  have "find_event tid (level_key ''publish-latency-'' level i) s = None"
    using assms by (auto simp: find_event_None publishing_def level_key_inj)
  then obtain x where x: "handle_request E y (publish_request apiKey level i) s =
      ((202, x), s\<lparr>uuid_draws := Suc (uuid_draws s), events := events s @ [new_event (ri_now y) tid
         (level_key ''publish-latency-'' level i) ''order.created'' (JObj [(''i'', JNum (show_nat i))]) s], ev_next_seq := Suc (ev_next_seq s)\<rparr>)"
    using publish_accepted [OF u(1,3-5), unfolded u(2)] by blast
  have "publishing E apiKey tid amount width level levels is (s\<lparr>uuid_draws := Suc (uuid_draws s), events := events s @ [new_event (ri_now y) tid
         (level_key ''publish-latency-'' level i) ''order.created'' (JObj [(''i'', JNum (show_nat i))]) s], ev_next_seq := Suc (ev_next_seq s)\<rparr>)"
    using assms unfolding publishing_def by (auto simp: new_event_def level_key_inj)
  with x show ?thesis by blast
qed

interpretation publish_requests: accepted_requests E "inp level" "publish_request apiKey level" "publishing E apiKey tid amount width level levels"
  for E inp apiKey tid amount width level levels
  by unfold_locales (rule publishing_accepted)

lemma more_endpoints:
  assumes "u \<in> set (tenants s)" "0 < n" "n \<le> 16383"
  shows "\<exists>t. createEndpointsBulk secret now (tn_id u) n url types s = Inr t \<and> length (endpoints t) = length (endpoints s) + n \<and>
    tenants t = tenants s \<and> events t = events s \<and> deliveries t = deliveries s"
proof -
  have "length (endpoints ((f ^^ n) s)) = length (endpoints s) + n \<and> tenants ((f ^^ n) s) = tenants s \<and>
      events ((f ^^ n) s) = events s \<and> deliveries ((f ^^ n) s) = deliveries s"
    if "f = (\<lambda>s. snd (insert_endpoint now tid url types secret s))" for f tid url types n
    by (induction n) (simp_all add: that insert_endpoint_def gen_random_uuid_def Let_def)
  with assms show ?thesis unfolding bulk_equals_singles by auto
qed

text \<open>The latencies of a level were measured on databases that held exactly as many endpoints, and no delivery.\<close>

definition measured_at :: "(nat \<Rightarrow> nat \<Rightarrow> db \<Rightarrow> rat) \<Rightarrow> nat \<Rightarrow> rat list \<Rightarrow> bool" where
  "measured_at elapsed l lats \<longleftrightarrow>
     (\<exists>f. lats = map (\<lambda>i. elapsed l i (f i)) [0..<30] \<and> (\<forall>i<30. length (endpoints (f i)) = l \<and> deliveries (f i) = []))"

lemma publishing_level:
  assumes "publishing E apiKey tid amount c c (l # ls) [] s" "c < l"
  shows "\<exists>s1 lats t. more_subscribers secret now tid l (l - c) s = (Inr (), s1) \<and>
    measure_requests E (inp l) (publish_request apiKey l) (msg l) (elapsed l) [0..<30] s1 = (Inr lats, t) \<and>
    measured_at elapsed l lats \<and> publishing E apiKey tid amount l l ls [] t"
proof -
  obtain u where u: "tenants s = [u]" "tn_id u = tid" using assms(1) by (auto simp: publishing_def)
  have "l \<le> 16383" using assms(1) by (simp add: publishing_def)
  then obtain s1 where s1: "createEndpointsBulk secret (now l) tid (l - c) None None s = Inr s1"
      "length (endpoints s1) = length (endpoints s) + (l - c)" "tenants s1 = tenants s" "events s1 = events s" "deliveries s1 = deliveries s"
    using more_endpoints [of u s "l - c" secret "now l" None None, unfolded u(2)] u(1) assms(2) by fastforce
  have "publishing E apiKey tid amount l l ls [0..<30] s1"
    using assms s1(2-5) by (fastforce simp: publishing_def)
  then obtain t f where t: "measure_requests E (inp l) (publish_request apiKey l) (msg l) (elapsed l) [0..<30] s1 =
        (Inr (map (\<lambda>i. elapsed l i (f i)) [0..<30]), t)"
      "publishing E apiKey tid amount l l ls [] t" "\<forall>i<30. \<exists>js. publishing E apiKey tid amount l l ls (i # js) (f i)"
    by (rule publish_requests.measured_upto)
  from t(3) have "measured_at elapsed l (map (\<lambda>i. elapsed l i (f i)) [0..<30])"
    unfolding measured_at_def by (intro exI [of _ f]) (auto simp: publishing_def)
  with s1(1) t show ?thesis unfolding more_subscribers_def by fastforce
qed

interpretation publish_levels: measured_levels
    "more_subscribers secret now tid"
    "\<lambda>level. measure_requests E (inp level) (publish_request apiKey level) (msg level) (elapsed level) [0..<30]"
    "measured_at elapsed" "\<lambda>c ls. publishing E apiKey tid amount c c ls []"
  for secret now tid E inp apiKey msg elapsed amount
  by unfold_locales (rule publishing_level)

lemma publish_levels_measured:
  assumes "publishing E apiKey tid 120 0 0 SUBSCRIBER_LEVELS [] s"
  obtains t f where "measure_levels (more_subscribers secret now tid)
      (\<lambda>level. measure_requests E (inp level) (publish_request apiKey level) (msg level) (elapsed level) [0..<30]) dbl 0 SUBSCRIBER_LEVELS s =
      (Inr (map (\<lambda>l. level_summary dbl l (map (\<lambda>i. elapsed l i (f l i)) [0..<30])) SUBSCRIBER_LEVELS), t)"
    "\<forall>l\<in>set SUBSCRIBER_LEVELS. \<forall>i<30. length (endpoints (f l i)) = l \<and> deliveries (f l i) = []"
    "publishing E apiKey tid 120 10000 10000 [] [] t"
proof -
  have levels: "sorted_wrt (<) (0 # SUBSCRIBER_LEVELS)" "last (0 # SUBSCRIBER_LEVELS) = 10000" by (simp_all add: SUBSCRIBER_LEVELS_def)
  from publish_levels.summarised [OF assms levels(1), of secret now inp msg elapsed dbl] obtain t lat where
    t: "measure_levels (more_subscribers secret now tid)
        (\<lambda>level. measure_requests E (inp level) (publish_request apiKey level) (msg level) (elapsed level) [0..<30]) dbl 0 SUBSCRIBER_LEVELS s =
        (Inr (map (\<lambda>l. level_summary dbl l (lat l)) SUBSCRIBER_LEVELS), t)"
      "\<forall>l\<in>set SUBSCRIBER_LEVELS. measured_at elapsed l (lat l)" "publishing E apiKey tid 120 10000 10000 [] [] t"
    unfolding levels(2) by blast
  from t(2) obtain f where f: "\<forall>l\<in>set SUBSCRIBER_LEVELS. lat l = map (\<lambda>i. elapsed l i (f l i)) [0..<30] \<and>
      (\<forall>i<30. length (endpoints (f l i)) = l \<and> deliveries (f l i) = [])"
    unfolding measured_at_def by metis
  have "map (\<lambda>l. level_summary dbl l (lat l)) SUBSCRIBER_LEVELS =
      map (\<lambda>l. level_summary dbl l (map (\<lambda>i. elapsed l i (f l i)) [0..<30])) SUBSCRIBER_LEVELS"
    using f by (intro map_cong refl) simp
  with that [of f t] t(1,3) f show thesis by simp
qed

text \<open>
  C36. The scenario \<^verbatim>\<open>publish-latency-flat\<close> measures what it claims to: on a fresh database every request is
  answered with 202, the 30 latencies of a level are those of requests that found exactly 10, 100, 1000 and 10000
  endpoints and no delivery, and the run passes exactly when the slowest request at 10000 endpoints took at most five times
  as long as the slowest at 10, and 50 ms (the 99th percentile of 30 is the slowest), with the error that names the two
  otherwise. After all four levels the endpoints have cost the publishing nothing: the database holds the 120 published
  events, all waiting for their expansion, and no delivery. \<open>rounds_index\<close> is what the percentile's index relies on of
  floating point.
\<close>

theorem publish_flat_verdict:
  assumes "blank s"
    and "createTenant (crypt E) now0 rnd ''load-tenant'' s = Some (tid, apiKey, s1)" "jsonb_in E = json_parse" "rounds_index dbl"
  shows "\<exists>t f. (\<forall>l\<in>{10, 100, 1000, 10000}. \<forall>i<30. length (endpoints (f l i)) = l \<and> deliveries (f l i) = []) \<and>
    publish_latency_flat E secret now inp elapsed dbl fixed tid apiKey s1 =
      (let slowest = \<lambda>l. Max ((\<lambda>i. elapsed l i (f l i)) ` {..<30})
       in if slowest 10000 \<le> dbl (dbl (slowest 10 * 5) + 50)
          then Inr (map (\<lambda>l. \<lparr>lv_size = l, lv_p50 = percentile dbl (sort (map (\<lambda>i. elapsed l i (f l i)) [0..<30])) 50,
                              lv_p99 = Some (slowest l)\<rparr>) [10, 100, 1000, 10000])
          else Inl (Load_failed (Scenario_assertion (''expected p99 publish latency at 10000 subscribers ('' @ fixed (Some (slowest 10000)) @
                 ''ms) to stay roughly flat versus 10 subscribers ('' @ fixed (Some (slowest 10)) @ ''ms)''))), t) \<and>
    length (endpoints t) = 10000 \<and> length (events t) = 120 \<and> (\<forall>v\<in>set (events t). ev_status v = Pending_expansion) \<and> deliveries t = []"
proof -
  have "publishing E apiKey tid 120 0 0 SUBSCRIBER_LEVELS [] s1"
    using assms(1-3) bearer_generated [of rnd]
    by (auto simp: blank_def publishing_def SUBSCRIBER_LEVELS_def createTenant_def gen_random_uuid_def Let_def split: if_splits)
  then obtain t f where t: "measure_levels (more_subscribers secret now tid)
         (\<lambda>level. measure_requests E (inp level) (publish_request apiKey level)
            (''expected 202 from POST /events at subscriber level '' @ show_nat level @ '', got '') (elapsed level) [0..<30])
         dbl 0 SUBSCRIBER_LEVELS s1 =
         (Inr (map (\<lambda>l. level_summary dbl l (map (\<lambda>i. elapsed l i (f l i)) [0..<30])) SUBSCRIBER_LEVELS), t)"
      "\<forall>l\<in>set SUBSCRIBER_LEVELS. \<forall>i<30. length (endpoints (f l i)) = l \<and> deliveries (f l i) = []"
      "publishing E apiKey tid 120 10000 10000 [] [] t"
    by (rule publish_levels_measured)
  have verdict: "publish_latency_flat E secret now inp elapsed dbl fixed tid apiKey s1 =
      (flat_verdict dbl (\<lambda>largest baseline. ''expected p99 publish latency at 10000 subscribers ('' @ fixed largest @
          ''ms) to stay roughly flat versus 10 subscribers ('' @ fixed baseline @ ''ms)'')
        (map (\<lambda>l. level_summary dbl l (map (\<lambda>i. elapsed l i (f l i)) [0..<30])) [10, 100, 1000, 10000]), t)"
    unfolding publish_latency_flat_def t(1) by (simp only: prod.case sum.case SUBSCRIBER_LEVELS_def)
  have range: "0 < (30 :: nat)" "(30 :: nat) < 100" by simp_all
  show ?thesis
    unfolding verdict verdict_slowest [OF assms(4) range] using t(2,3)
    by (intro exI [of _ t] exI [of _ f]) (simp add: publishing_def SUBSCRIBER_LEVELS_def Let_def del: upt.simps)
qed

lemma demo_load_seed: "createTenant (crypt demo_env) 1000 demo_bytes ''load-tenant'' (empty_db id) =
    Some (0, demo_key, demo_db [demo_tenant\<lparr>tn_name := ''load-tenant''\<rparr>] [] [] [] [] 1 1 1)"
  by (simp add: createTenant_def gen_random_uuid_def Let_def demo_env_def empty_db_def demo_db_def demo_tenant_def demo_key_def)

lemma rounds_index_id: "rounds_index id"
  by (simp add: rounds_index_def)

lemma slowest_index: "Max ((\<lambda>i. rat_of_nat i) ` {..<30}) = 29"
  by (rule Max_eqI) (auto intro: image_eqI [of _ _ 29])

text \<open>Latencies that grow with the index and not with the level pass; latencies that are the size of the database fail.\<close>

theorem publish_flat_verdict_witness:
  "(\<exists>rs t. publish_latency_flat demo_env demo_secret (\<lambda>_. 2000) (\<lambda>_ _. demo_inputs 3000) (\<lambda>level i _. of_nat i) id (\<lambda>_. []) 0 demo_key
      (demo_db [demo_tenant\<lparr>tn_name := ''load-tenant''\<rparr>] [] [] [] [] 1 1 1) = (Inr rs, t) \<and> map lv_p99 rs = [Some 29, Some 29, Some 29, Some 29]) \<and>
   (\<exists>e t. publish_latency_flat demo_env demo_secret (\<lambda>_. 2000) (\<lambda>_ _. demo_inputs 3000) (\<lambda>_ _ s. of_nat (length (endpoints s))) id (\<lambda>_. []) 0 demo_key
      (demo_db [demo_tenant\<lparr>tn_name := ''load-tenant''\<rparr>] [] [] [] [] 1 1 1) = (Inl (Load_failed e), t) \<and> length (events t) = 120)"
proof (rule conjI)
  note run = publish_flat_verdict [OF blank_empty demo_load_seed _ rounds_index_id, of demo_secret "\<lambda>_. 2000" "\<lambda>_ _. demo_inputs 3000" _ "\<lambda>_. []"]
  have env: "jsonb_in demo_env = json_parse" by (simp add: demo_env_def)
  show "\<exists>rs t. publish_latency_flat demo_env demo_secret (\<lambda>_. 2000) (\<lambda>_ _. demo_inputs 3000) (\<lambda>level i _. of_nat i) id (\<lambda>_. []) 0 demo_key
      (demo_db [demo_tenant\<lparr>tn_name := ''load-tenant''\<rparr>] [] [] [] [] 1 1 1) = (Inr rs, t) \<and> map lv_p99 rs = [Some 29, Some 29, Some 29, Some 29]"
    using run [OF env, of "\<lambda>level i _. of_nat i"] by (auto simp: slowest_index Let_def)
  obtain t and f :: "nat \<Rightarrow> nat \<Rightarrow> db" where t: "publish_latency_flat demo_env demo_secret (\<lambda>_. 2000) (\<lambda>_ _. demo_inputs 3000) (\<lambda>_ _ s. of_nat (length (endpoints s))) id (\<lambda>_. []) 0 demo_key
        (demo_db [demo_tenant\<lparr>tn_name := ''load-tenant''\<rparr>] [] [] [] [] 1 1 1) =
      (let slowest = \<lambda>l. Max ((\<lambda>i. rat_of_nat (length (endpoints (f l i)))) ` {..<30})
       in if slowest 10000 \<le> id (id (slowest 10 * 5) + 50)
          then Inr (map (\<lambda>l. \<lparr>lv_size = l, lv_p50 = percentile id (sort (map (\<lambda>i. of_nat (length (endpoints (f l i)))) [0..<30])) 50,
                              lv_p99 = Some (slowest l)\<rparr>) [10, 100, 1000, 10000])
          else Inl (Load_failed (Scenario_assertion (''expected p99 publish latency at 10000 subscribers ('' @ [] @
                 ''ms) to stay roughly flat versus 10 subscribers ('' @ [] @ ''ms)''))), t)" "length (events t) = 120"
    and f: "\<forall>l\<in>{10, 100, 1000, 10000}. \<forall>i<30. length (endpoints (f l i)) = l"
    using run [OF env, of "\<lambda>_ _ s. of_nat (length (endpoints s))"]  by (elim exE conjE) (rule that, assumption, assumption, simp)
  have size: "Max ((\<lambda>i. rat_of_nat (length (endpoints (f l i)))) ` {..<30}) = of_nat l" if "l \<in> {10, 100, 1000, 10000}" for l
  proof -
    have "(\<lambda>i. rat_of_nat (length (endpoints (f l i)))) ` {..<30} = (\<lambda>_. of_nat l) ` {..<30 :: nat}"
      using f that by (intro image_cong refl) auto
    also have "\<dots> = {of_nat l}" by (auto intro!: image_eqI [of _ _ 0])
    finally show ?thesis by simp
  qed
  show "\<exists>e t. publish_latency_flat demo_env demo_secret (\<lambda>_. 2000) (\<lambda>_ _. demo_inputs 3000) (\<lambda>_ _ s. of_nat (length (endpoints s))) id (\<lambda>_. []) 0 demo_key
      (demo_db [demo_tenant\<lparr>tn_name := ''load-tenant''\<rparr>] [] [] [] [] 1 1 1) = (Inl (Load_failed e), t) \<and> length (events t) = 120"
    using t by (simp add: size Let_def)
qed

section \<open>Replay latency\<close>

text \<open>What the script relies on of the environment: the two dates of its window are dates, uuids are read as they are printed.\<close>

definition reads_window :: "api_env \<Rightarrow> bool" where
  "reads_window E \<longleftrightarrow> (\<exists>x y a b. js_date E ''2020-01-01T00:00:00.000Z'' = Some x \<and> js_date E ''2030-01-01T00:00:00.000Z'' = Some y \<and> x \<le> y \<and>
     ts_in E ''2020-01-01T00:00:00.000Z'' = Some a \<and> ts_in E ''2030-01-01T00:00:00.000Z'' = Some b) \<and>
     zod_datetime E ''2020-01-01T00:00:00.000Z'' \<and> zod_datetime E ''2030-01-01T00:00:00.000Z'' \<and>
     (\<forall>i. uuid_in E (uuid_out E i) = Some i)"

lemma replay_accepted:
  assumes "tenants s = [u]" "tn_api_key_hash u = hashApiKey (crypt E) apiKey" "bearer_token (Some (''Bearer '' @ apiKey)) = Some apiKey"
    and "reads_window E" "endpoints s = [e]" "ep_tenant_id e = tn_id u"
    and "find_replay (ep_id e) (level_key ''replay-latency-'' level i) s = None"
  shows "\<exists>x a b. handle_request E y (replay_request apiKey (uuid_out E (ep_id e)) level i) s =
      ((202, x), s\<lparr>uuid_draws := Suc (uuid_draws s),
         replays := replays s @ [new_replay (ri_now y) (ep_id e) (level_key ''replay-latency-'' level i) a b s]\<rparr>)"
proof -
  let ?key = "level_key ''replay-latency-'' level i" and ?r = "replay_request apiKey (uuid_out E (ep_id e)) level i"
  have auth: "requireTenant E ?r s = Tenant (tn_id u)" unfolding replay_request_def by (rule key_authorized [OF assms(1-3)])
  have chars: "pg_text_ok ?key" "?key \<noteq> []" by (rule key_text) (simp_all add: pg_text_ok_def level_key_def)
  have req: "rq_method ?r = ''POST''" "rq_path ?r = [''endpoints'', uuid_out E (ep_id e), ''replays'']" "rq_body ?r = Some replay_window"
      "rq_header ?r ''idempotency-key'' = Some ?key"
    by (simp_all add: replay_request_def json_request_def)
  obtain x y a b where d: "js_date E ''2020-01-01T00:00:00.000Z'' = Some x" "js_date E ''2030-01-01T00:00:00.000Z'' = Some y" "x \<le> y"
      "ts_in E ''2020-01-01T00:00:00.000Z'' = Some a" "ts_in E ''2030-01-01T00:00:00.000Z'' = Some b"
      "zod_datetime E ''2020-01-01T00:00:00.000Z''" "zod_datetime E ''2030-01-01T00:00:00.000Z''" "\<And>i. uuid_in E (uuid_out E i) = Some i"
    using assms(4) by (auto simp: reads_window_def)
  have schema: "replaySchema E replay_window = Some (''2020-01-01T00:00:00.000Z'', ''2030-01-01T00:00:00.000Z'')"
    using d by (simp add: replaySchema_def replay_window_def get_prop_def)
  have own: "owned_endpoint (tn_id u) (ep_id e) s = Some e" using assms(5,6) by (simp add: owned_endpoint_def)
  have post: "post_replay E now (tn_id u) (uuid_out E (ep_id e)) (Some ?key) replay_window s =
      (let r = new_replay now (ep_id e) ?key a b s
       in (Inr (202, R_accepted (rp_id r) (rp_status r)), s\<lparr>uuid_draws := Suc (uuid_draws s), replays := replays s @ [r]\<rparr>))" for now
    using chars d(4,5,8) assms(7) by (simp add: post_replay_def schema with_uuid_def own create_replay_eq Let_def)
  have "handle_request E y (replay_request apiKey (uuid_out E (ep_id e)) level i) s =
      with_error_handler (post_replay E (ri_now y) (tn_id u) (uuid_out E (ep_id e)) (Some ?key) replay_window s)" for y
    unfolding handle_request_def auth req by (simp add: route_of_def run_route_def req)
  then show ?thesis unfolding post Let_def by (intro exI) (simp add: with_error_handler_def)
qed

text \<open>While the script runs: one endpoint with \<open>width\<close> deliveries of its history, and a replay for every request made.\<close>

definition replaying ::
    "api_env \<Rightarrow> string \<Rightarrow> (nat \<Rightarrow> nat \<Rightarrow> string) \<Rightarrow> uuid \<Rightarrow> uuid \<Rightarrow> nat \<Rightarrow> nat \<Rightarrow> nat \<Rightarrow> nat list \<Rightarrow> nat list \<Rightarrow> db \<Rightarrow> bool" where
  "replaying E apiKey fresh tid eid amount width level levels is s \<longleftrightarrow>
     reads_window E \<and> bearer_token (Some (''Bearer '' @ apiKey)) = Some apiKey \<and> wf_db s \<and> inj (\<lambda>(l, i). fresh l i) \<and>
     (\<exists>u. tenants s = [u] \<and> tn_id u = tid \<and> tn_api_key_hash u = hashApiKey (crypt E) apiKey) \<and>
     (\<exists>e. endpoints s = [e] \<and> ep_id e = eid \<and> ep_tenant_id e = tid) \<and>
     distinct (level # levels) \<and> distinct is \<and> (\<forall>l\<in>set levels. l \<le> 16383) \<and>
     length (deliveries s) = width \<and> (\<forall>d\<in>set (deliveries s). d_state d = Succeeded) \<and>
     length (replays s) + length is + 15 * length levels = amount \<and>
     (\<forall>v\<in>set (events s). \<exists>l j. ev_idempotency_key v = ''load-replay-fixture-'' @ fresh l j \<and> l \<notin> set levels) \<and>
     (\<forall>r\<in>set (replays s). rp_endpoint_id r = eid \<and> rp_status r = Pending_expansion \<and>
        (\<exists>l j. rp_idempotency_key r = level_key ''replay-latency-'' l j \<and> l \<notin> set levels \<and> (l = level \<longrightarrow> j \<notin> set is)))"

lemma replaying_accepted:
  assumes "replaying E apiKey fresh tid eid amount width level levels (i # is) s"
  shows "\<exists>x t. handle_request E y (replay_request apiKey (uuid_out E eid) level i) s = ((202, x), t) \<and>
    replaying E apiKey fresh tid eid amount width level levels is t"
proof -
  obtain u e where u: "tenants s = [u]" "tn_id u = tid" "tn_api_key_hash u = hashApiKey (crypt E) apiKey"
      "bearer_token (Some (''Bearer '' @ apiKey)) = Some apiKey" "reads_window E" "endpoints s = [e]" "ep_id e = eid" "ep_tenant_id e = tid"
    using assms by (auto simp: replaying_def)
  have none: "find_replay eid (level_key ''replay-latency-'' level i) s = None"
    using assms by (auto simp: find_replay_None replaying_def level_key_inj)
  then obtain x a b where x: "handle_request E y (replay_request apiKey (uuid_out E eid) level i) s =
      ((202, x), s\<lparr>uuid_draws := Suc (uuid_draws s),
         replays := replays s @ [new_replay (ri_now y) eid (level_key ''replay-latency-'' level i) a b s]\<rparr>)"
    using replay_accepted [OF u(1,3-6), unfolded u(2,7)] u(8) by blast
  let ?t = "s\<lparr>uuid_draws := Suc (uuid_draws s),
         replays := replays s @ [new_replay (ri_now y) eid (level_key ''replay-latency-'' level i) a b s]\<rparr>"
  have "owned_endpoint tid eid s = Some e" using u(6-8) by (simp add: owned_endpoint_def)
  then have "api_write tid s (snd (create_replay (ri_now y) eid (level_key ''replay-latency-'' level i) a b s))" by (rule api_replay)
  moreover have "wf_db s" "tid \<in> tn_id ` set (tenants s)" using assms u(1,2) by (simp_all add: replaying_def)
  ultimately have "wf_db (snd (create_replay (ri_now y) eid (level_key ''replay-latency-'' level i) a b s))" by (rule wf_api_write)
  then have "wf_db ?t" by (simp add: create_replay_eq none)
  then have "replaying E apiKey fresh tid eid amount width level levels is ?t"
    using assms unfolding replaying_def by (auto simp: new_replay_def level_key_inj)
  with x show ?thesis by blast
qed

interpretation replay_requests: accepted_requests E "inp level" "replay_request apiKey (uuid_out E eid) level"
    "replaying E apiKey fresh tid eid amount width level levels"
  for E inp apiKey fresh tid eid amount width level levels
  by unfold_locales (rule replaying_accepted)

text \<open>The latencies of a level were measured on databases with exactly as many succeeded deliveries.\<close>

definition window_measured :: "(nat \<Rightarrow> nat \<Rightarrow> db \<Rightarrow> rat) \<Rightarrow> nat \<Rightarrow> rat list \<Rightarrow> bool" where
  "window_measured elapsed l lats \<longleftrightarrow>
     (\<exists>f. lats = map (\<lambda>i. elapsed l i (f i)) [0..<15] \<and>
       (\<forall>i<15. length (deliveries (f i)) = l \<and> (\<forall>d\<in>set (deliveries (f i)). d_state d = Succeeded)))"

lemma replaying_level:
  assumes "replaying E apiKey fresh tid eid amount c c (l # ls) [] s" "c < l"
  shows "\<exists>s1 lats t. createTerminalDeliveriesBulk (fresh l) (now1 l) (now2 l) tid eid (l - c) s = (Inr (), s1) \<and>
    measure_requests E (inp l) (replay_request apiKey (uuid_out E eid) l) (msg l) (elapsed l) [0..<15] s1 = (Inr lats, t) \<and>
    window_measured elapsed l lats \<and> replaying E apiKey fresh tid eid amount l l ls [] t"
proof -
  have pre: "wf_db s" "tid \<in> tn_id ` set (tenants s)" "eid \<in> ep_id ` set (endpoints s)" "1 \<le> l - c" "l - c \<le> 16383"
    using assms by (auto simp: replaying_def)
  have inj: "fresh l1 i = fresh l2 j \<longleftrightarrow> l1 = l2 \<and> i = j" for l1 l2 i j
    using assms(1) injD [of "\<lambda>(l, i). fresh l i" "(l1, i)" "(l2, j)"] by (auto simp: replaying_def)
  have free: "inj_on (fresh l) {..<l - c}" "\<forall>i<l - c. find_event tid (''load-replay-fixture-'' @ fresh l i) s = None"
    using assms(1) by (auto simp: inj_on_def inj find_event_None replaying_def)
  obtain vs ds n m k where t: "createTerminalDeliveriesBulk (fresh l) (now1 l) (now2 l) tid eid (l - c) s =
      (Inr (), s\<lparr>events := events s @ vs, ev_next_seq := n, uuid_draws := m, deliveries := deliveries s @ ds, d_next_seq := k\<rparr>)"
      "wf_db (s\<lparr>events := events s @ vs, ev_next_seq := n, uuid_draws := m, deliveries := deliveries s @ ds, d_next_seq := k\<rparr>)"
      "list_all2 (stored_as Expanded (now1 l) tid ''order.created'' (\<lambda>i. ''load-replay-fixture-'' @ fresh l i) (\<lambda>_. ''{}'')) [0..<l - c] vs"
      "map d_event_id ds = map ev_id vs" "\<forall>d\<in>set ds. d_endpoint_id d = eid \<and> d_state d = Succeeded \<and> d_attempt_count d = 0 \<and> d_created_at d = now2 l"
    by (rule terminal_rows [OF pre free])
  have "length ds = l - c" using list_all2_lengthD [OF t(3)] arg_cong [where f = length, OF t(4)] by simp
  moreover have "\<forall>v\<in>set vs. \<exists>j. ev_idempotency_key v = ''load-replay-fixture-'' @ fresh l j"
    using t(3) by (auto simp: stored_as_def list_all2_conv_all_nth in_set_conv_nth) blast
  ultimately have "replaying E apiKey fresh tid eid amount l l ls [0..<15]
      (s\<lparr>events := events s @ vs, ev_next_seq := n, uuid_draws := m, deliveries := deliveries s @ ds, d_next_seq := k\<rparr>)"
    using assms t(2,5) unfolding replaying_def by fastforce
  then obtain u f where u: "measure_requests E (inp l) (replay_request apiKey (uuid_out E eid) l) (msg l) (elapsed l) [0..<15]
        (s\<lparr>events := events s @ vs, ev_next_seq := n, uuid_draws := m, deliveries := deliveries s @ ds, d_next_seq := k\<rparr>) =
        (Inr (map (\<lambda>i. elapsed l i (f i)) [0..<15]), u)"
      "replaying E apiKey fresh tid eid amount l l ls [] u" "\<forall>i<15. \<exists>js. replaying E apiKey fresh tid eid amount l l ls (i # js) (f i)"
    by (rule replay_requests.measured_upto)
  from u(3) have "window_measured elapsed l (map (\<lambda>i. elapsed l i (f i)) [0..<15])"
    unfolding window_measured_def by (intro exI [of _ f]) (auto simp: replaying_def)
  with t(1) u show ?thesis by fastforce
qed

interpretation replay_levels: measured_levels
    "\<lambda>level. createTerminalDeliveriesBulk (fresh level) (now1 level) (now2 level) tid eid"
    "\<lambda>level. measure_requests E (inp level) (replay_request apiKey (uuid_out E eid) level) (msg level) (elapsed level) [0..<15]"
    "window_measured elapsed" "\<lambda>c ls. replaying E apiKey fresh tid eid amount c c ls []"
  for fresh now1 now2 tid eid E inp apiKey msg elapsed amount
  by unfold_locales (rule replaying_level)

lemma replay_levels_measured:
  assumes "replaying E apiKey fresh tid eid 45 0 0 WINDOW_SIZES [] s"
  obtains t f where "measure_levels (\<lambda>level. createTerminalDeliveriesBulk (fresh level) (now1 level) (now2 level) tid eid)
      (\<lambda>level. measure_requests E (inp level) (replay_request apiKey (uuid_out E eid) level) (msg level) (elapsed level) [0..<15]) dbl 0 WINDOW_SIZES s =
      (Inr (map (\<lambda>l. level_summary dbl l (map (\<lambda>i. elapsed l i (f l i)) [0..<15])) WINDOW_SIZES), t)"
    "\<forall>l\<in>set WINDOW_SIZES. \<forall>i<15. length (deliveries (f l i)) = l \<and> (\<forall>d\<in>set (deliveries (f l i)). d_state d = Succeeded)"
    "replaying E apiKey fresh tid eid 45 10000 10000 [] [] t"
proof -
  have levels: "sorted_wrt (<) (0 # WINDOW_SIZES)" "last (0 # WINDOW_SIZES) = 10000" by (simp_all add: WINDOW_SIZES_def)
  from replay_levels.summarised [OF assms levels(1), of now1 now2 inp msg elapsed dbl] obtain t lat where
    t: "measure_levels (\<lambda>level. createTerminalDeliveriesBulk (fresh level) (now1 level) (now2 level) tid eid)
        (\<lambda>level. measure_requests E (inp level) (replay_request apiKey (uuid_out E eid) level) (msg level) (elapsed level) [0..<15]) dbl 0 WINDOW_SIZES s =
        (Inr (map (\<lambda>l. level_summary dbl l (lat l)) WINDOW_SIZES), t)"
      "\<forall>l\<in>set WINDOW_SIZES. window_measured elapsed l (lat l)" "replaying E apiKey fresh tid eid 45 10000 10000 [] [] t"
    unfolding levels(2) by blast
  from t(2) obtain f where f: "\<forall>l\<in>set WINDOW_SIZES. lat l = map (\<lambda>i. elapsed l i (f l i)) [0..<15] \<and>
      (\<forall>i<15. length (deliveries (f l i)) = l \<and> (\<forall>d\<in>set (deliveries (f l i)). d_state d = Succeeded))"
    unfolding window_measured_def by metis
  have "map (\<lambda>l. level_summary dbl l (lat l)) WINDOW_SIZES =
      map (\<lambda>l. level_summary dbl l (map (\<lambda>i. elapsed l i (f l i)) [0..<15])) WINDOW_SIZES"
    using f by (intro map_cong refl) simp
  with that [of f t] t(1,3) f show thesis by simp
qed

text \<open>
  The scenario \<^verbatim>\<open>replay-latency-flat\<close> measures what it claims to: on a fresh database every request is answered with 202,
  the 15 latencies of a level are those of requests that found exactly 100, 1000 and 10000 succeeded deliveries, and the run
  passes exactly when the slowest request at 10000 took at most five times as long as the slowest at 100, and 50 ms.  The
  10000 deliveries of history have cost the API nothing: the database holds one replay for each of the 45 requests, all
  waiting for the worker, and the history as it was inserted.
\<close>

theorem replay_flat_verdict:
  assumes "blank s" "createTenant (crypt E) now rnd ''load-tenant'' s = Some (tid, apiKey, s1)" "reads_window E" "inj (\<lambda>(l, i). fresh l i)"
    and "rounds_index dbl"
  shows "\<exists>t f. (\<forall>l\<in>{100, 1000, 10000}. \<forall>i<15. length (deliveries (f l i)) = l \<and> (\<forall>d\<in>set (deliveries (f l i)). d_state d = Succeeded)) \<and>
    replay_latency_flat E secret now0 fresh now1 now2 inp elapsed dbl fixed tid apiKey s1 =
      (let slowest = \<lambda>l. Max ((\<lambda>i. elapsed l i (f l i)) ` {..<15})
       in if slowest 10000 \<le> dbl (dbl (slowest 100 * 5) + 50)
          then Inr (map (\<lambda>l. \<lparr>lv_size = l, lv_p50 = percentile dbl (sort (map (\<lambda>i. elapsed l i (f l i)) [0..<15])) 50,
                              lv_p99 = Some (slowest l)\<rparr>) [100, 1000, 10000])
          else Inl (Load_failed (Scenario_assertion (''expected p99 replay latency at window size 10000 ('' @ fixed (Some (slowest 10000)) @
                 ''ms) to stay roughly flat versus window size 100 ('' @ fixed (Some (slowest 100)) @ ''ms)''))), t) \<and>
    length (replays t) = 45 \<and> (\<forall>r\<in>set (replays t). rp_status r = Pending_expansion) \<and>
    length (deliveries t) = 10000 \<and> (\<forall>d\<in>set (deliveries t). d_state d = Succeeded)"
proof -
  let ?s0 = "snd (insert_endpoint now0 tid ''https://example.com/hook'' [''order.created''] secret s1)"
  let ?e = "fst (insert_endpoint now0 tid ''https://example.com/hook'' [''order.created''] secret s1)"
  have "seed_tenant (crypt E) now rnd ''load-tenant'' s = Some (tid, apiKey, s1)" using assms(2) by (simp add: createTenant_def seed_tenant_def)
  then have "wf_db s1" by (rule wf_seed_tenant [OF _ blank_wf [OF assms(1)]])
  moreover have s1: "\<exists>u. tenants s1 = [u] \<and> tn_id u = tid \<and> tn_api_key_hash u = hashApiKey (crypt E) apiKey"
      "endpoints s1 = []" "events s1 = []" "deliveries s1 = []" "replays s1 = []" "bearer_token (Some (''Bearer '' @ apiKey)) = Some apiKey"
    using assms(1,2) bearer_generated [of rnd]
    by (auto simp: blank_def createTenant_def gen_random_uuid_def Let_def split: if_splits)
  moreover from this(1) have tid: "tid \<in> tn_id ` set (tenants s1)" by auto
  ultimately have "wf_db ?s0" using wf_api_write [OF api_register] by blast
  moreover have s0: "endpoints ?s0 = [?e]" "ep_tenant_id ?e = tid" "tenants ?s0 = tenants s1" "events ?s0 = []" "deliveries ?s0 = []" "replays ?s0 = []"
    using s1 by (simp_all add: insert_endpoint_def gen_random_uuid_def Let_def)
  ultimately have start: "replaying E apiKey fresh tid (ep_id ?e) 45 0 0 WINDOW_SIZES [] ?s0"
    using s1(1,6) assms(3,4) by (simp add: replaying_def WINDOW_SIZES_def)
  obtain t f where t: "measure_levels (\<lambda>level. createTerminalDeliveriesBulk (fresh level) (now1 level) (now2 level) tid (ep_id ?e))
         (\<lambda>level. measure_requests E (inp level) (replay_request apiKey (uuid_out E (ep_id ?e)) level)
            (''expected 202 from POST /endpoints/:id/replays at window size '' @ show_nat level @ '', got '') (elapsed level) [0..<15])
         dbl 0 WINDOW_SIZES ?s0 = (Inr (map (\<lambda>l. level_summary dbl l (map (\<lambda>i. elapsed l i (f l i)) [0..<15])) WINDOW_SIZES), t)"
      "\<forall>l\<in>set WINDOW_SIZES. \<forall>i<15. length (deliveries (f l i)) = l \<and> (\<forall>d\<in>set (deliveries (f l i)). d_state d = Succeeded)"
      "replaying E apiKey fresh tid (ep_id ?e) 45 10000 10000 [] [] t"
    using start by (rule replay_levels_measured)
  have one: "createEndpointsBulk secret now0 tid 1 None None s1 = Inr ?s0" using tid by (simp add: bulk_equals_singles)
  have verdict: "replay_latency_flat E secret now0 fresh now1 now2 inp elapsed dbl fixed tid apiKey s1 =
      (flat_verdict dbl (\<lambda>largest baseline. ''expected p99 replay latency at window size 10000 ('' @ fixed largest @
          ''ms) to stay roughly flat versus window size 100 ('' @ fixed baseline @ ''ms)'')
        (map (\<lambda>l. level_summary dbl l (map (\<lambda>i. elapsed l i (f l i)) [0..<15])) [100, 1000, 10000]), t)"
    unfolding replay_latency_flat_def one sum.case s0(1) list.case t(1) prod.case by (simp only: WINDOW_SIZES_def)
  have range: "0 < (15 :: nat)" "(15 :: nat) < 100" by simp_all
  show ?thesis
    unfolding verdict verdict_slowest [OF assms(5) range] using t(2,3)
    by (intro exI [of _ t] exI [of _ f]) (simp add: replaying_def WINDOW_SIZES_def Let_def del: upt.simps)
qed

theorem replay_flat_verdict_witness:
  "\<exists>r t. replay_latency_flat demo_env demo_secret 2000 (\<lambda>l i. show_nat l @ ''-'' @ show_nat i) (\<lambda>_. 3000) (\<lambda>_. 4000)
      (\<lambda>_ _. demo_inputs 5000) (\<lambda>level i _. of_nat i) id (\<lambda>_. []) 0 demo_key
      (demo_db [demo_tenant\<lparr>tn_name := ''load-tenant''\<rparr>] [] [] [] [] 1 1 1) = (r, t) \<and> length (replays t) = 45"
proof -
  note seed = demo_load_seed
  have keys: "inj (\<lambda>(l, i). show_nat l @ ''-'' @ show_nat i)"
    using level_key_inj [of "[]"] by (auto simp: level_key_def inj_def)
  have reads: "reads_window demo_env" by (simp add: reads_window_def demo_env_def nat_of_digits_show_nat)
  show ?thesis
    using replay_flat_verdict [OF blank_empty seed reads keys rounds_index_id, of demo_secret 2000 "\<lambda>_. 3000" "\<lambda>_. 4000" "\<lambda>_ _. demo_inputs 5000"
        "\<lambda>level i _. of_nat i" "\<lambda>_. []"] by blast
qed

end
