(* ===== verification/Load_Fairness.thy ===== *)
theory Load_Fairness
  imports Chaos_Scenarios Load_Scenarios
begin

text \<open>
  The load scenarios on fairness, \<^verbatim>\<open>tarpit-fairness.ts\<close> and \<^verbatim>\<open>noisy-neighbor.ts\<close>: their set-up, the
  deliveries they publish beside the running workers, and their verdicts over what they measured.  That
  the quiet tenant is the next one served is proved of the claim itself.
\<close>

section \<open>Set-up\<close>

text \<open>The two scripts have their own inserts; \<open>secret\<close> is \<^verbatim>\<open>encryptSecret("whsec_load")\<close>.\<close>

definition load_endpoint :: "ts \<Rightarrow> uuid \<Rightarrow> string \<Rightarrow> string \<Rightarrow> db \<Rightarrow> sql_error + (uuid \<times> db)" where
  "load_endpoint now tid url secret s = endpoint_row now [P_uuid tid, P_text url, P_texts [''order.created''], P_text secret] s"

definition publishDelivery :: "string \<Rightarrow> string \<Rightarrow> ts \<Rightarrow> ts \<Rightarrow> uuid \<Rightarrow> uuid \<Rightarrow> db \<Rightarrow> (sql_error + uuid) \<times> db" where
  "publishDelivery prefix fresh now1 now2 tid eid s =
     (case event_row Expanded now1 [P_uuid tid, P_text (prefix @ fresh), P_text ''order.created'', P_text ''{}''] s of
        Inl e \<Rightarrow> (Inl e, s)
      | Inr (evid, s1) \<Rightarrow>
          (case delivery_row Pending now2 [P_uuid evid, P_uuid eid] s1 of
             Inl e \<Rightarrow> (Inl e, s1)
           | Inr (i, t) \<Rightarrow> (Inr i, t)))"

text \<open>\<open>publish_all\<close> publishes one delivery at every endpoint of a list, in its order.\<close>

fun publish_all :: "string \<Rightarrow> (nat \<Rightarrow> string) \<Rightarrow> (nat \<Rightarrow> ts) \<Rightarrow> uuid \<Rightarrow> uuid list \<Rightarrow> nat \<Rightarrow> db \<Rightarrow> (uuid list \<times> db) option" where
  "publish_all prefix fresh now tid [] n s = Some ([], s)"
| "publish_all prefix fresh now tid (eid # eids) n s =
     (case publishDelivery prefix (fresh n) (now (2 * n)) (now (2 * n + 1)) tid eid s of
        (Inl _, _) \<Rightarrow> None
      | (Inr i, t) \<Rightarrow> map_option (\<lambda>(is, u). (i # is, u)) (publish_all prefix fresh now tid eids (Suc n) t))"

definition WORKER_COUNT :: nat where
  "WORKER_COUNT = 3"

definition OUTBOUND_TOTAL_TIMEOUT_MS :: rat where
  "OUTBOUND_TOTAL_TIMEOUT_MS = 1000"

definition BOUND_MS :: rat where
  "BOUND_MS = OUTBOUND_TOTAL_TIMEOUT_MS * 1.5 + 500"

text \<open>An endpoint for every worker, each with a backlog of ten deliveries.\<close>

fun tarpit_endpoints ::
    "string \<Rightarrow> string \<Rightarrow> (nat \<Rightarrow> nat \<Rightarrow> string) \<Rightarrow> (nat \<Rightarrow> nat \<Rightarrow> ts) \<Rightarrow> uuid \<Rightarrow> nat list \<Rightarrow> db \<Rightarrow> (uuid list \<times> db) option" where
  "tarpit_endpoints url secret fresh now tid [] s = Some ([], s)"
| "tarpit_endpoints url secret fresh now tid (i # is) s =
     (case load_endpoint (now i 0) tid url secret s of
        Inl _ \<Rightarrow> None
      | Inr (eid, s1) \<Rightarrow>
          (case publish_all ''tarpit-fairness-'' (fresh i) (\<lambda>k. now i (Suc k)) tid (replicate 10 eid) 0 s1 of
             None \<Rightarrow> None
           | Some (_, s2) \<Rightarrow> map_option (\<lambda>(eids, t). (eid # eids, t)) (tarpit_endpoints url secret fresh now tid is s2)))"

definition tarpit_setup ::
    "crypto \<Rightarrow> bytes \<Rightarrow> bytes \<Rightarrow> nat \<Rightarrow> nat \<Rightarrow> string \<Rightarrow> (nat \<Rightarrow> nat \<Rightarrow> string) \<Rightarrow> (nat \<Rightarrow> nat \<Rightarrow> ts) \<Rightarrow> (nat \<Rightarrow> ts) \<Rightarrow> db \<Rightarrow>
     (uuid \<times> uuid list \<times> uuid \<times> uuid \<times> db) option" where
  "tarpit_setup X rnd1 rnd2 tarpitPort quietPort secret fresh now stamp s =
     (case createTenant X (stamp 0) rnd1 ''tarpit-tenant'' s of
        None \<Rightarrow> None
      | Some (tarpit, _, s1) \<Rightarrow>
          (case createTenant X (stamp 1) rnd2 ''quiet-tenant'' s1 of
             None \<Rightarrow> None
           | Some (quietTenantId, _, s2) \<Rightarrow>
               (case tarpit_endpoints (''http://tarpit.local:'' @ show_nat tarpitPort @ ''/hook'') secret fresh now tarpit [0..<WORKER_COUNT] s2 of
                  None \<Rightarrow> None
                | Some (eids, s3) \<Rightarrow>
                    (case load_endpoint (stamp 2) quietTenantId (''http://quiet.local:'' @ show_nat quietPort @ ''/hook'') secret s3 of
                       Inl _ \<Rightarrow> None
                     | Inr (eid, t) \<Rightarrow> Some (tarpit, eids, quietTenantId, eid, t)))))"

section \<open>tarpit-fairness.ts\<close>

definition saturated :: "uuid list \<Rightarrow> db \<Rightarrow> scenario_error + bool" where
  "saturated eids s = Inr (length (filter (\<lambda>e. ep_id e \<in> set eids \<and> ep_busy e) (endpoints s)) = WORKER_COUNT)"

text \<open>What is returned: the numbers of the evidence file.  \<open>fixed\<close> is \<^verbatim>\<open>toFixed(1)\<close>.\<close>

definition tarpit_fairness ::
    "(rat \<Rightarrow> string) \<Rightarrow> uuid list \<Rightarrow> uuid \<Rightarrow> db poll \<Rightarrow> db poll \<Rightarrow> rat \<Rightarrow> (scenario_error + nat \<times> rat \<times> rat \<times> rat) option" where
  "tarpit_fairness fixed tarpitEndpointIds quietDeliveryId p1 p2 addedLatencyMs =
     and_then (await (saturated tarpitEndpointIds) 5000 ''the worker pool becomes fully saturated with tarpit endpoints'' p1) (\<lambda>_.
     and_then (await (delivery_is quietDeliveryId ''succeeded'') \<lfloor>BOUND_MS + 5000\<rfloor>
         (''the quiet tenant'' @ [CHR 0x27] @ ''s delivery eventually succeeds'') p2) (\<lambda>_.
     Some (try_bind (assertScenario (addedLatencyMs \<le> BOUND_MS)
         (''expected the quiet tenant'' @ [CHR 0x27] @ ''s added latency ('' @ fixed addedLatencyMs @
          ''ms) to stay within roughly one outbound-timeout cycle plus safety margin ('' @ show_int \<lfloor>BOUND_MS\<rfloor> @ ''ms)'')) (\<lambda>_.
       Inr (WORKER_COUNT, OUTBOUND_TOTAL_TIMEOUT_MS, BOUND_MS, addedLatencyMs)))))"

section \<open>noisy-neighbor.ts\<close>

definition FLOOD_ENDPOINT_COUNT :: nat where
  "FLOOD_ENDPOINT_COUNT = 20"

definition FLOOD_EVENTS_PER_ENDPOINT :: nat where
  "FLOOD_EVENTS_PER_ENDPOINT = 5"

definition QUIET_EVENT_COUNT :: nat where
  "QUIET_EVENT_COUNT = 10"

fun flood_endpoints :: "string \<Rightarrow> string \<Rightarrow> (nat \<Rightarrow> ts) \<Rightarrow> uuid \<Rightarrow> nat list \<Rightarrow> db \<Rightarrow> (uuid list \<times> db) option" where
  "flood_endpoints url secret now tid [] s = Some ([], s)"
| "flood_endpoints url secret now tid (i # is) s =
     (case load_endpoint (now i) tid url secret s of
        Inl _ \<Rightarrow> None
      | Inr (eid, s1) \<Rightarrow> map_option (\<lambda>(eids, t). (eid # eids, t)) (flood_endpoints url secret now tid is s1))"

definition noisy_setup ::
    "crypto \<Rightarrow> bytes \<Rightarrow> bytes \<Rightarrow> nat \<Rightarrow> string \<Rightarrow> (nat \<Rightarrow> ts) \<Rightarrow> (nat \<Rightarrow> ts) \<Rightarrow> db \<Rightarrow> (uuid \<times> uuid list \<times> uuid \<times> uuid \<times> db) option" where
  "noisy_setup X rnd1 rnd2 port secret now stamp s =
     (let url = ''http://load-test.local:'' @ show_nat port @ ''/hook'' in
      case createTenant X (stamp 0) rnd1 ''flood-tenant'' s of
        None \<Rightarrow> None
      | Some (flood, _, s1) \<Rightarrow>
          (case createTenant X (stamp 1) rnd2 ''quiet-tenant'' s1 of
             None \<Rightarrow> None
           | Some (quietTenantId, _, s2) \<Rightarrow>
               (case flood_endpoints url secret now flood [0..<FLOOD_ENDPOINT_COUNT] s2 of
                  None \<Rightarrow> None
                | Some (eids, s3) \<Rightarrow>
                    (case load_endpoint (stamp 2) quietTenantId url secret s3 of
                       Inl _ \<Rightarrow> None
                     | Inr (eid, t) \<Rightarrow> Some (flood, eids, quietTenantId, eid, t)))))"

text \<open>The flood is published concurrently: in some order of these hundred.\<close>

definition flood_publishes :: "uuid list \<Rightarrow> uuid list" where
  "flood_publishes floodEndpointIds = concat (map (replicate FLOOD_EVENTS_PER_ENDPOINT) floodEndpointIds)"

text \<open>One quiet delivery: what the loop sees, and \<^verbatim>\<open>performance.now() - startedAt\<close> in each of its rounds.\<close>

definition waitForSucceeded :: "(uuid \<Rightarrow> string) \<Rightarrow> uuid \<Rightarrow> db poll \<Rightarrow> (nat \<Rightarrow> rat) \<Rightarrow> int \<Rightarrow> (scenario_error + rat) option" where
  "waitForSucceeded ut did p took timeoutMs =
     (case waitUntil (\<lambda>i. delivery_is did ''succeeded'' (po_seen p i)) (po_clock p) (po_start p) timeoutMs (Some 30) of
        None \<Rightarrow> None
      | Some (Ready, i) \<Rightarrow> Some (Inr (took i))
      | Some (Expired, _) \<Rightarrow>
          Some (Inl (Scenario_error (''delivery '' @ ut did @ '' did not succeed within '' @ show_int timeoutMs @ ''ms'')))
      | Some (Raised e, _) \<Rightarrow> Some (Inl e))"

fun quiet_latencies :: "(uuid \<Rightarrow> string) \<Rightarrow> (uuid \<times> db poll \<times> (nat \<Rightarrow> rat)) list \<Rightarrow> (scenario_error + rat list) option" where
  "quiet_latencies ut [] = Some (Inr [])"
| "quiet_latencies ut ((did, p, took) # qs) =
     and_then (waitForSucceeded ut did p took 15000) (\<lambda>l. and_then (quiet_latencies ut qs) (\<lambda>ls. Some (Inr (l # ls))))"

record noisy_report =
  nr_workerCount :: nat
  nr_floodDeliveryCount :: nat
  nr_floodSucceededSoFar :: nat
  nr_quietP50Ms :: "rat option"
  nr_quietP99Ms :: "rat option"
  nr_quietLatenciesMs :: "rat list"

definition noisy_verdict :: "(rat \<Rightarrow> rat) \<Rightarrow> (rat option \<Rightarrow> string) \<Rightarrow> uuid list \<Rightarrow> rat list \<Rightarrow> db \<Rightarrow> scenario_error + noisy_report" where
  "noisy_verdict dbl fixed floodEndpointIds latencies s =
     (let sorted = sort latencies; p50 = percentile dbl sorted 50; p99 = percentile dbl sorted 99;
          flood = filter (\<lambda>d. d_endpoint_id d \<in> set floodEndpointIds) (deliveries s)
      in try_bind (assertScenario (case p99 of None \<Rightarrow> False | Some x \<Rightarrow> x < 5000)
           (''expected quiet tenant'' @ [CHR 0x27] @
            ''s p99 delivery latency under noisy-neighbor load to stay well bounded, got '' @ fixed p99 @ ''ms'')) (\<lambda>_.
         Inr \<lparr>nr_workerCount = WORKER_COUNT, nr_floodDeliveryCount = length flood,
              nr_floodSucceededSoFar = length (filter (\<lambda>d. d_state d = Succeeded) flood),
              nr_quietP50Ms = p50, nr_quietP99Ms = p99, nr_quietLatenciesMs = sorted\<rparr>))"

definition noisy_neighbor ::
    "(uuid \<Rightarrow> string) \<Rightarrow> (rat \<Rightarrow> rat) \<Rightarrow> (rat option \<Rightarrow> string) \<Rightarrow> uuid list \<Rightarrow> (uuid \<times> db poll \<times> (nat \<Rightarrow> rat)) list \<Rightarrow> db \<Rightarrow>
     (scenario_error + noisy_report) option" where
  "noisy_neighbor ut dbl fixed floodEndpointIds quiets s =
     and_then (quiet_latencies ut quiets) (\<lambda>ls. Some (noisy_verdict dbl fixed floodEndpointIds ls s))"

section \<open>The quiet tenant is next\<close>

lemma sort_key_least_first:
  assumes "x \<in> set xs" "\<forall>y\<in>set xs. f y \<le> f x \<longrightarrow> y = x"
  shows "\<exists>ys. sort_key f xs = x # ys"
proof (cases "sort_key f xs")
  case Nil
  then have "set xs = {}" by (metis list.set(1) set_sort)
  with assms(1) show ?thesis by simp
next
  case (Cons y ys)
  then have "x \<in> set (y # ys)" "y \<in> set xs" using assms(1) by (metis set_sort, metis list.set_intros(1) set_sort)
  moreover have "sorted (map f (y # ys))" using Cons by (metis sorted_sort_key)
  ultimately have "f y \<le> f x" by auto
  with assms(2) \<open>y \<in> set xs\<close> Cons show ?thesis by simp
qed

lemma unserved_first:
  assumes "eligible cutoff now s p" "tn_last_served_at (snd p) = None"
    and "\<forall>p'. eligible cutoff now s p' \<longrightarrow> p' = p \<or> tn_last_served_at (snd p') \<noteq> None"
  shows "\<exists>cs. claim_candidates cutoff now s = candidate_of p # cs"
proof -
  have "\<exists>ys. sort_key (candidate_order now s) (candidate_pairs cutoff now s) = p # ys"
  proof (rule sort_key_least_first)
    show "p \<in> set (candidate_pairs cutoff now s)" using assms(1) by (simp add: set_candidate_pairs)
    show "\<forall>y\<in>set (candidate_pairs cutoff now s). candidate_order now s y \<le> candidate_order now s p \<longrightarrow> y = p"
    proof (intro ballI impI)
      fix y assume y: "y \<in> set (candidate_pairs cutoff now s)" "candidate_order now s y \<le> candidate_order now s p"
      have "tn_last_served_at (snd y) \<le> None" using y(2) assms(2) by (auto simp: candidate_order_def less_eq_prod_def dest: less_imp_le)
      then have "tn_last_served_at (snd y) = None" by (rule less_eq_option_None_is_None)
      with assms(3) y(1) show "y = p" unfolding set_candidate_pairs by blast
    qed
  qed
  then show ?thesis by (auto simp: claim_candidates_def)
qed

text \<open>A claim of a free endpoint whose oldest pending delivery is due.\<close>

lemma free_claim:
  assumes wf: "wf_db s" and e: "e \<in> set (endpoints s)" "ep_status e = Active" "\<not> ep_busy e" "ep_secondary_secret e = None"
    and sec: "dec (ep_signing_secret e) = Some p" and d: "pending_of (ep_id e) s = d # ds"
    and due: "js_of_ts (d_next_attempt_at d) \<le> at_head clk"
  shows "\<exists>c t. tryClaimEndpoint dec clk (candidate_of (e, q)) cutoff s = (Inr (Some c), t) \<and> c_deliveryId c = d_id d \<and> c_endpointId c = ep_id e"
proof -
  have cl: "claimable cutoff e" using e by (simp add: claimable_def lease_free_def)
  have ex: "list_ex (\<lambda>x. ep_id x = ep_id e \<and> claimable cutoff x) (endpoints s)" using e(1) cl by (auto simp: list_ex_iff)
  obtain l s1 where s1: "stmt_claim (at_claim clk) cutoff (ep_id e) s = (Some l, s1)" 
    using ex by (cases "gen_random_uuid s") (simp add: stmt_claim_def)
  let ?s2 = "stmt_serve (at_serve clk) (ep_tenant_id e) s1"
  have wf2: "wf_db ?s2" using wf_stmt_claim [OF wf, of "at_claim clk" cutoff "ep_id e"] s1 by (simp add: wf_stmt_serve)
  have same: "pending_of (ep_id e) ?s2 = d # ds" using d stmt_claim_SomeD(2) [OF s1] by (simp add: pending_of_def stmt_serve_def)
  have dist: "distinct (map ep_id (endpoints s))" using wf by (simp add: wf_db_def keys_ok_def)
  have eps: "take_lease (at_claim clk) l e \<in> set (endpoints ?s2)" "endpoints ?s2 = endpoints s1"
    using stmt_claim_SomeD(2) [OF s1] e(1) cl by (auto simp: stmt_serve_def update_where_def)
  have "distinct (map ep_id (endpoints ?s2))" using wf2 by (simp add: wf_db_def keys_ok_def)
  then have row: "find_by ep_id (ep_id e) (endpoints ?s2) = Some (take_lease (at_claim clk) l e)"
    by (rule find_by_eq_Some [OF _ eps(1)]) (simp add: take_lease_def)
  have "d_endpoint_id d = ep_id e" using d by (auto simp: pending_of_def filter_eq_Cons_iff)
  then have h: "\<exists>v. select_head (ep_id e) ?s2 = Some (d, v, take_lease (at_claim clk) l e)"
    unfolding select_head_eq [OF wf2] same using row by simp
  have "claim_secrets dec n (take_lease (at_claim clk) l e) = Some (p, None)" for n
    using sec e(4) by (simp add: claim_secrets_def hasActiveSecondary_def take_lease_def)
  with h due show ?thesis
    by (auto simp: tryClaimEndpoint_def candidate_of_def s1 reclaim_def e(3) claim_head_def start_attempt_def Let_def not_less
        split: prod.split)
qed

text \<open>
  C27. The quiet tenant is next (ADR-0004): when a tenant that was never served, with a single endpoint that is
  active, free and has no delivery yet, publishes a delivery to it, and every other tenant was served before, the
  very next claim of any worker that runs no earlier takes that delivery, whatever the backlog and the free endpoints of
  the others.  (Among several tenants that were never served the one with the oldest delivery goes first.)
\<close>

theorem quiet_served_next:
  assumes "publishDelivery prefix fresh now1 now2 (ep_tenant_id e) (ep_id e) s = (Inr did, t)" "wf_db s"
    and "e \<in> set (endpoints s)" "ep_status e = Active" "\<not> ep_busy e" "ep_secondary_secret e = None" "dec (ep_signing_secret e) = Some p"
    and "\<forall>d\<in>set (deliveries s). d_endpoint_id d \<noteq> ep_id e" "\<forall>x\<in>set (endpoints s). ep_tenant_id x = ep_tenant_id e \<longrightarrow> x = e"
    and "\<forall>q\<in>set (tenants s). tn_last_served_at q = None \<longleftrightarrow> tn_id q = ep_tenant_id e"
    and "now2 \<le> now" "\<forall>cand. js_of_ts now2 \<le> at_head (clks cand)"
  shows "\<exists>c u. claimDelivery dec date_now now clks leaseMs t = (Inr (Some c), u) \<and> c_deliveryId c = did \<and> c_endpointId c = ep_id e"
proof -
  obtain evid s1 where ev: "event_row Expanded now1 [P_uuid (ep_tenant_id e), P_text (prefix @ fresh), P_text ''order.created'', P_text ''{}''] s = Inr (evid, s1)"
    and dl: "delivery_row Pending now2 [P_uuid evid, P_uuid (ep_id e)] s1 = Inr (did, t)"
    using assms(1) by (auto simp: publishDelivery_def split: sum.splits prod.splits)
  obtain v where s1: "s1 = s\<lparr>uuid_draws := Suc (uuid_draws s), events := events s @ [v], ev_next_seq := Suc (ev_next_seq s)\<rparr>" "wf_db s1"
    by (rule event_rowE [OF ev assms(2)])
  obtain d where d: "deliveries t = deliveries s @ [d]" "d_id d = did" "d_endpoint_id d = ep_id e" "d_state d = Pending" "d_next_attempt_at d = now2"
      "endpoints t = endpoints s" "tenants t = tenants s" "wf_db t"
    by (rule delivery_rowE [OF dl s1(2)]) (simp_all add: s1(1))
  have pend: "pending_of (ep_id e) t = [d]" using assms(8) d by (simp add: pending_of_def filter_empty_conv)
  obtain q where q: "q \<in> set (tenants s)" "tn_id q = ep_tenant_id e" using assms(2,3) by (auto simp: wf_db_def refs_ok_def)
  let ?cut = "claim_cutoff date_now leaseMs"
  have el: "eligible ?cut now t (e, q)"
    using assms(3-5,11) d q by (simp add: eligible_def claimable_def lease_free_def ready_of_def ready_def)
  have "\<exists>cs. claim_candidates ?cut now t = candidate_of (e, q) # cs"
  proof (rule unserved_first [OF el])
    show "tn_last_served_at (snd (e, q)) = None" using assms(10) q by simp
    have ids: "distinct (map tn_id (tenants s))" using assms(2) by (simp add: wf_db_def keys_ok_def)
    show "\<forall>p'. eligible ?cut now t p' \<longrightarrow> p' = (e, q) \<or> tn_last_served_at (snd p') \<noteq> None"
    proof (intro allI impI)
      fix p' assume p': "eligible ?cut now t p'"
      show "p' = (e, q) \<or> tn_last_served_at (snd p') \<noteq> None"
      proof (rule disjCI)
        assume "\<not> tn_last_served_at (snd p') \<noteq> None"
        with p' have "tn_id (snd p') = ep_tenant_id e" "fst p' \<in> set (endpoints s)" "ep_tenant_id (fst p') = tn_id (snd p')" "snd p' \<in> set (tenants s)"
          using assms(10) by (auto simp: eligible_def d(6,7))
        moreover from this have "snd p' = q" using distinct_map_eq [OF ids _ q(1)] q(2) by simp
        ultimately show "p' = (e, q)" using assms(9) by (cases p') auto
      qed
    qed
  qed
  then obtain cs where cs: "claim_candidates ?cut now t = candidate_of (e, q) # cs" by blast
  obtain c u where "tryClaimEndpoint dec (clks (candidate_of (e, q))) (candidate_of (e, q)) ?cut t = (Inr (Some c), u)"
      "c_deliveryId c = did" "c_endpointId c = ep_id e"
    using free_claim [of t e dec p d "[]" "clks (candidate_of (e, q))" q ?cut] pend assms(3-7,12) d(2,5,6,8) by auto
  then show ?thesis by (simp add: claimDelivery_def Let_def cs)
qed

text \<open>A served tenant with a due delivery at a free endpoint, and a quiet tenant.\<close>

definition fair_quiet :: endpoint where
  "fair_quiet = demo_endpoint\<lparr>ep_id := 11, ep_tenant_id := 10\<rparr>"

definition fair_db :: db where
  "fair_db = demo_db [demo_tenant\<lparr>tn_last_served_at := Some 5000\<rparr>,
       demo_tenant\<lparr>tn_id := 10, tn_name := ''quiet-tenant'', tn_api_key_hash := ''q'' @ tn_api_key_hash demo_tenant\<rparr>]
     [demo_endpoint, fair_quiet] [demo_event Expanded] [demo_delivery Pending 0] [] 2 2 12"

lemma fair_published:
  obtains t where "publishDelivery ''tarpit-fairness-'' [] 80000000 80000001 10 11 fair_db = (Inr 13, t)"
proof -
  have "json_parse ''{}'' = Some (JObj [])" using json_parse_print [of "JObj []"] by simp
  then show thesis
    by (intro that) (simp add: publishDelivery_def event_row_def delivery_row_def fair_db_def demo_db_def find_event_def head_option_def
      demo_event_def gen_random_uuid_def Let_def demo_tenant_def demo_endpoint_def fair_quiet_def)
qed

theorem quiet_served_next_witness:
  "\<exists>t c u. publishDelivery ''tarpit-fairness-'' [] 80000000 80000001 10 11 fair_db = (Inr 13, t) \<and>
     claimDelivery demo_dec 90000 90000000 (\<lambda>_. demo_clock 90000000) 30000 t = (Inr (Some c), u) \<and> c_deliveryId c = 13 \<and> c_endpointId c = 11"
proof -
  obtain t where t: "publishDelivery ''tarpit-fairness-'' [] 80000000 80000001 10 11 fair_db = (Inr 13, t)" by (rule fair_published)
  have fair_decrypt: "demo_dec (ep_signing_secret fair_quiet) = Some (generateSecret demo_bytes ''whsec'')"
    using demo_decrypt by (simp add: fair_quiet_def demo_endpoint_def)
  have wf: "wf_db fair_db"
    by (auto simp: fair_db_def demo_db_def demo_rows fair_quiet_def wf_db_def wf_defs drawn_ids_def lease_cols_def)
  have "\<exists>c u. claimDelivery demo_dec 90000 90000000 (\<lambda>_. demo_clock 90000000) 30000 t = (Inr (Some c), u) \<and> c_deliveryId c = 13 \<and>
      c_endpointId c = ep_id fair_quiet"
    by (rule quiet_served_next [of "''tarpit-fairness-''" "[]" 80000000 80000001 fair_quiet fair_db 13 t demo_dec, OF _ wf _ _ _ _ fair_decrypt])
      (use t in \<open>simp_all add: fair_quiet_def fair_db_def demo_db_def demo_rows demo_clock_def js_of_ts_def\<close>)
  with t show ?thesis by (auto simp: fair_quiet_def demo_endpoint_def)
qed

section \<open>The verdict on the noise\<close>

text \<open>
  The verdict of \<^verbatim>\<open>noisy-neighbor\<close> is stricter than its wording: with ten measurements the 99th percentile is the
  slowest one, whatever the rounding of doubles, so the scenario passes exactly when every quiet delivery took less than five
  seconds; the report then counts what the flood has delivered.
\<close>

theorem noisy_passes_iff:
  assumes "quiet_latencies ut quiets = Some (Inr ls)" "length ls = QUIET_EVENT_COUNT" "\<forall>x\<ge>0. \<bar>dbl x - x\<bar> \<le> x / 2 ^ 50"
  shows "(\<exists>r. noisy_neighbor ut dbl fixed floodEndpointIds quiets s = Some (Inr r)) \<longleftrightarrow> (\<forall>l\<in>set ls. l < 5000)"
proof -
  let ?xs = "sort ls"
  have len: "length ?xs = 10" using assms(2) by (simp add: QUIET_EVENT_COUNT_def)
  then have ne: "?xs \<noteq> []" by (metis list.size(3) zero_neq_numeral)
  let ?y = "dbl (99 / 100) * 10"
  have "\<bar>dbl (99 / 100) - 99 / 100\<bar> \<le> 99 / 100 / 2 ^ 50" by (rule assms(3) [rule_format]) simp
  also have "\<dots> \<le> 1 / 1000" by simp
  finally have "- (1 / 1000) \<le> dbl (99 / 100) - 99 / 100" "dbl (99 / 100) - 99 / 100 \<le> 1 / 1000" by (simp_all only: abs_le_iff) linarith+
  then have y: "98 / 10 \<le> ?y" "?y \<le> 992 / 100" by linarith+
  have "\<bar>dbl ?y - ?y\<bar> \<le> ?y / 2 ^ 50" by (rule assms(3) [rule_format]) (use y(1) in linarith)
  also have "\<dots> \<le> 10 / 2 ^ 50" by (rule divide_right_mono) (use y(2) in simp_all)
  also have "\<dots> \<le> 1 / 100" by simp
  finally have "- (1 / 100) \<le> dbl ?y - ?y" "dbl ?y - ?y \<le> 1 / 100" by (simp_all only: abs_le_iff) linarith+
  then have "9 \<le> dbl ?y" "dbl ?y < 10" using y by linarith+
  then have "\<lfloor>dbl ?y\<rfloor> = 9" by (simp add: floor_eq_iff)
  then have p99: "percentile dbl ?xs 99 = Some (last ?xs)"
    using ne len by (simp add: percentile_def last_conv_nth)
  have "(\<forall>l\<in>set ls. l < 5000) \<longleftrightarrow> (\<forall>l\<in>set ?xs. l < 5000)" by simp
  also have "\<dots> \<longleftrightarrow> last ?xs < 5000"
  proof
    assume "last ?xs < 5000"
    moreover have "sorted (butlast ?xs @ [last ?xs])" using ne by simp
    then have "\<forall>l\<in>set (butlast ?xs @ [last ?xs]). l \<le> last ?xs" unfolding sorted_append by auto
    then have "\<forall>l\<in>set ?xs. l \<le> last ?xs" using ne by simp
    ultimately show "\<forall>l\<in>set ?xs. l < 5000" by (meson le_less_trans)
  qed (use last_in_set [OF ne] in blast)
  finally show ?thesis
    using p99 by (simp add: noisy_neighbor_def assms(1) noisy_verdict_def Let_def assertScenario_def try_bind_def)
qed

end
