(* ===== verification/Spec2Isabelle.thy ===== *)
theory Spec2Isabelle
  imports Expansion_Facts Paging_Facts Scheduling Console_Facts Console_Queries Landing_Facts Seed_Traffic Claim_Guarantees Stalled_Claim Chaos_Order Load_Fairness
begin

text \<open>
  A verification library for the webhook delivery service of this repository: the TypeScript service
  under \<^verbatim>\<open>src/node\<close>, the console under \<^verbatim>\<open>src/frontend\<close> and the scripts that exercise the service.

  \<^bold>\<open>The program.\<close>  A producer publishes events to a REST API under an idempotency key.  A worker expands
  each event into one delivery for every subscribed endpoint of the tenant, and sends the deliveries of
  an endpoint one at a time, in order, signed, with retries; an endpoint whose head exhausts its attempts
  halts until an operator resumes it.  Operators register endpoints, rotate secrets, page through queues
  and events and ask for replays, by the API or by the console.  The two processes share nothing but
  the PostgreSQL database, in which the order of a queue (\<^verbatim>\<open>deliveries.seq\<close>), the lease on an endpoint
  (\<^verbatim>\<open>busy, busy_since, lease_id\<close>) and the attempts are kept.

  \<^bold>\<open>Theories and the code they model\<close> (paths below \<^verbatim>\<open>src/\<close>).

  \<^item> \<open>Prelude\<close>, \<open>Js_Text\<close>, \<open>Json_Text\<close>: results that may be errors, relational operations on lists of rows,
    strings, numbers, base64 and JSON of JavaScript.  Strings are lists of UTF-8 bytes.
  \<^item> \<open>Schema\<close>, \<open>Schema_Facts\<close>: \<^verbatim>\<open>node/src/db/migrations\<close>.  A table is the list of its rows in insertion
    order; \<open>db\<close> has the six tables, the two sequences and the source of UUIDs; \<open>wf_db\<close> is what the
    keys, the unique constraints and the references of the schema say, and \<open>wf_intros\<close> the rules by which
    each shape of statement keeps it.
  \<^item> \<open>Config\<close>, \<open>Crypto\<close>, \<open>Pagination\<close>, \<open>Url_Validation\<close>: \<^verbatim>\<open>node/src/config.ts\<close>, \<^verbatim>\<open>node/src/lib\<close>,
    \<^verbatim>\<open>node/src/validation/url.ts\<close>.
  \<^item> \<open>Delivery\<close>, \<open>Delivery_Facts\<close>, \<open>Expansion\<close>, \<open>Expansion_Facts\<close>, \<open>Http_Client\<close>, \<open>Worker\<close>, \<open>Scheduling\<close>:
    \<^verbatim>\<open>node/src/worker\<close> and \<^verbatim>\<open>node/src/worker.ts\<close>.  A statement of \<^verbatim>\<open>tryClaimEndpoint\<close> and
    \<^verbatim>\<open>completeDelivery\<close> is a definition \<open>stmt_*\<close>; a function of the source is their composition.  The
    HTTP client is a state machine over the callbacks of its sockets and timers.
  \<^item> \<open>Api_Common\<close>, \<open>Api_Endpoints\<close>, \<open>Api_Events\<close>, \<open>Api_Deliveries\<close>, \<open>App\<close>, \<open>App_Facts\<close>: \<^verbatim>\<open>node/src/routes\<close>,
    \<^verbatim>\<open>node/src/auth\<close>, \<^verbatim>\<open>node/src/app.ts\<close>.  A route yields a typed reply or the exception it throws, with the
    new database; \<open>handle_request\<close> is the middleware stack.
  \<^item> \<open>System\<close>: the two processes together.  \<open>sys_step\<close> interleaves requests, expansion and replay cycles,
    claims, write-backs and crashes of any number of workers; \<open>reachable\<close> is what it reaches from the
    empty database.  A claim is one step here, which the code does not promise.
  \<^item> \<open>Interleaving\<close>, \<open>Interleaving_Facts\<close>, \<open>Claim_Guarantees\<close>, \<open>Stalled_Claim\<close>: the same system with the claims
    cut into the SQL statements of \<^verbatim>\<open>tryClaimEndpoint\<close>, which the code commits one by one.  \<open>claim_stmt\<close> runs one
    statement, \<open>fine_step\<close> lets anything happen between two, a crash of the claiming worker included.
  \<^item> \<open>Migrations\<close>, \<open>Harness\<close>, \<open>Fixtures\<close>, \<open>Seed_Traffic\<close>: \<^verbatim>\<open>node/src/db/migrate.ts\<close>,
    \<^verbatim>\<open>node/scripts\<close>, \<^verbatim>\<open>node/load/harness.ts\<close>, \<^verbatim>\<open>node/chaos/harness.ts\<close>.
  \<^item> \<open>Chaos_Scenarios\<close>, \<open>Chaos_Order\<close>, \<open>Load_Scenarios\<close>, \<open>Load_Fairness\<close>: the scripts under \<^verbatim>\<open>node/chaos\<close> and
    \<^verbatim>\<open>node/load\<close>.  A script is a function of what its queries and its clock see (\<open>poll\<close> is one
    \<^verbatim>\<open>waitUntil\<close>), so a failed assertion is a value; the workers it starts are any run of \<open>sys_step\<close>.
  \<^item> \<open>Wire\<close>, \<open>Console_Types\<close>, \<open>Console_Client\<close>, \<open>Console_View\<close>, \<open>Console_Session\<close>: the JSON of the replies, and
    \<^verbatim>\<open>frontend/src\<close>: the declared types, the client, what the pages compute, what the console keeps.
  \<^item> \<open>Console_Markup\<close>, \<open>Console_Pages\<close>, \<open>Console_Queries\<close>: \<^verbatim>\<open>frontend/src/design\<close> and \<^verbatim>\<open>frontend/src/pages/console\<close>.
    A page is a tree of elements (\<open>ui\<close>) computed from the states of its queries and mutations; a child whose
    expression throws is the node \<open>Throws\<close>, a handler is the value of \<open>page_act\<close> it performs.  A query is its
    key and its call, the store of the queries a map from keys.
  \<^item> \<open>Landing_Pipeline\<close>, \<open>Landing_Page\<close>: \<^verbatim>\<open>frontend/src/pages/Landing.tsx\<close>.  The diagram is a state with the events
    of its interval and its controls; \<open>commit\<close> runs the effects a render triggers.
  \<^item> \<open>Demo\<close>: a concrete run of the system, used to instantiate the properties.

  \<^bold>\<open>What is shown.\<close>

  \<^item> \<open>Invariant\<close>, \<open>Claim_Invariant\<close>, \<open>Complete_Invariant\<close>, \<open>Evolution\<close>, \<open>Publish_Order\<close> prove by rule induction
    over \<open>sys_step\<close> the invariants from which \<open>Guarantees\<close> draws what does not depend on where a claim is
    interrupted: claims of the head only, publication order of first deliveries, fenced write-backs and their effect,
    failure at the ceiling only, and publishes and replays that are idempotent along every run.
  \<^item> \<open>Outcomes\<close>, \<open>Head_Of_Line\<close>: the invariants of runs with atomic claims, on which the chaos scenarios rest.
  \<^item> \<open>Chaos_Scenarios\<close>, \<open>Chaos_Order\<close>: no assertion of a chaos script fails in any run of the system that
    does what the script waits for.  \<open>Load_Scenarios\<close>, \<open>Load_Fairness\<close>: every request of the latency scripts is
    accepted and finds as many endpoints (or deliveries) as its level announces, and the verdict compares the slowest requests; the
    quiet tenant is the next one served.
  \<^item> \<open>Interleaving_Facts\<close>, \<open>Claim_Guarantees\<close>: the promises that do depend on it, at every moment between two
    statements of any claim and as long as no claim outlasts its lease (\<open>prompt\<close>; a worker may stall for
    ever once its claim is finished, and die anywhere): one delivery in flight per endpoint, results are final, a lease stands
    for the newest attempt, the deliveries behind an unresolved one have no attempt, attempts follow the queue, a delivery
    has succeeded exactly when its last attempt was answered with 2xx, the attempt of a worker that died after its
    claim is closed as expired or still current, the numbers of the attempts.  \<open>Stalled_Claim\<close> is a run in which a claim
    does outlast its lease, and a delivery that succeeded is back in flight.
  \<^item> \<open>Expansion_Facts\<close>: the exact effect of an expansion and of a replay; the contract \<open>work_queue\<close>, and that
    repeated cycles drain a backlog.
  \<^item> \<open>Scheduling\<close>: the candidates of a claim, the bounds of the retry delay, blocked deliveries,
    verification by the receiver, rotation, and that a pass of the worker loop is a run of \<open>sys_step\<close>.
  \<^item> \<open>Tenancy\<close>: replies and writes are confined to the tenant a request is authenticated as.
  \<^item> \<open>Paging_Facts\<close>: following the cursors of the list routes shows every row once, in order; the contract
    is the locale \<open>keyset_paging\<close>.
  \<^item> \<open>Url_Validation\<close>, \<open>Http_Client\<close>: the IPv4 denylist as CIDR networks on 32-bit words; the pinned address
    was checked; a request always settles, with a bounded body.
  \<^item> \<open>Console_Client\<close>: the client's calls reach their routes by the URL they build, with their parameters, and resolve
    to values of their declared types or to the error answered.
    \<open>Console_Session\<close>, \<open>Console_View\<close>: storage and state agree, a secret is shown under its own
    endpoint, what the row labelled as head really is.
  \<^item> \<open>Console_Facts\<close>: every link and clickable row of a screen leads to a page of an object it was given; only
    the overview can fail to render; the page of a delivery tells its attempts, from the API to the table.
    \<open>Console_Queries\<close>: queries that share an entry of the store make the same call, but the store outlives
    the session.  \<open>Landing_Facts\<close>: packets stay on the diagram and do not jump between hops, the counters are
    multiples of the band, every box is always highlighted.
  \<^item> \<open>Migrations\<close>, \<open>Fixtures\<close>, \<open>Seed_Traffic\<close>, \<open>Harness\<close>: interrupted migrations resume, bulk inserts equal
    single ones, the volume of the seeded traffic, polling that ends.

  \<^bold>\<open>Parameters.\<close>  Code outside the repository is an argument: \<open>crypto\<close> (hashes, HMAC, AES-GCM, with
  \<open>gcm_correct\<close> and \<open>hex_digests\<close> as its documented behaviour), the URL parser, the resolver, the sockets
  (a list of callbacks), clocks and random bytes, what Express makes of a request (\<open>express_reads\<close>: it splits the URL, decodes its query, parses a JSON body), the
  rounding of doubles, the locale's dates, the functions of \<^verbatim>\<open>Math\<close>, and of React, its router and TanStack Query what
  their documentation says of effects, addresses, keys and states.  The properties that use such a hypothesis are instantiated
  with concrete functions.

  \<^bold>\<open>Bounds and fuel.\<close>  Recursion is structural or has its termination proved; \<open>json_parse\<close> descends on the
  length of the rest.  \<open>drain\<close> and \<open>follow\<close> take a number of rounds, and the properties show that one more
  than the backlog or the number of rows is enough.  \<open>poll_loop\<close> is partial; \<open>waitUntil_returns\<close> shows when
  it returns.  A page has at most 100 rows, a claim query 20 candidates, as in the code.

  \<^bold>\<open>Not modelled.\<close>

  \<^item> Interleaving inside a write-back or an expansion, which are transactions of the code, and the choice
    of the candidates: a candidate that was read before another worker took its endpoint is covered as
    far as \<open>fresh_candidate\<close> says.
  \<^item> Transactions under READ COMMITTED are taken as atomic; the advisory lock and SKIP LOCKED are
    arguments that say which rows a cycle obtains (\<open>Chaos_Order\<close> keeps the locks as a table of sessions).
  \<^item> Connections, sockets, processes, logging, CORS headers and the idle sleep of the worker, which are
    input and output only; \<^verbatim>\<open>db/pool.ts\<close> and \<^verbatim>\<open>server.ts\<close>.
  \<^item> What the scenario scripts leave to the machine: spawning and signalling processes, their sockets, and
    how long anything takes.  That a worker finishes within the bound a script allows is not shown.
  \<^item> In the browser: style sheets, \<^verbatim>\<open>main.tsx\<close> with the options of the query client, the timing of polls and
    refetches, and the rounding of doubles in the animation of the landing page.
  \<^item> The tests and the Go implementation.
\<close>

end
